(* ===== verification/Prelude.thy ===== *)
theory Prelude
  imports Main "HOL-Library.Word"
begin

text \<open>
  Shared vocabulary of the development: bytes and byte strings, Go's \<open>uint64\<close> arithmetic on
  \<open>nat\<close> with the wrap-around written out, the result type of fallible functions, big and
  little endian integer encodings (\<open>encoding/binary\<close>), hexadecimal text (\<open>encoding/hex\<close>),
  readers that deliver a finite byte sequence (\<open>io.ReadFull\<close>), and the generic lemmas and
  named collections every component uses.
\<close>

unbundle bit_operations_syntax

named_theorems length_simps \<open>lengths of encoded values\<close>
named_theorems roundtrip_simps \<open>decoding what was encoded\<close>
named_theorems res_elims \<open>elimination of successful results\<close>

section \<open>Types\<close>

type_synonym byte = "8 word"
type_synonym bytes = "byte list"

text \<open>
  Go's \<open>uint64\<close> is a \<open>nat\<close> below \<open>2 ^ 64\<close>; \<open>w64\<close> is the reduction every
  arithmetic operation on it performs.
\<close>

definition w64 :: "nat \<Rightarrow> nat" where
  "w64 n = n mod 2 ^ 64"

lemma w64_id [simp]: "n < 2 ^ 64 \<Longrightarrow> w64 n = n"
  by (simp add: w64_def)

lemma w64_less [simp]: "w64 n < 2 ^ 64"
  by (simp add: w64_def)

lemma w64_le: "w64 n \<le> n"
  by (simp add: w64_def)

text \<open>The conversion \<open>int(v)\<close> of a \<open>uint64\<close>.\<close>

definition go_int :: "nat \<Rightarrow> int" where
  "go_int v = (if v < 2 ^ 63 then int v else int v - 2 ^ 64)"

lemma go_int_small [simp]: "v < 2 ^ 63 \<Longrightarrow> go_int v = int v"
  by (simp add: go_int_def)

text \<open>
  The reasons for which the program gives up, one constructor for each kind of error the
  functions under \<open>internal/\<close> and \<open>core/\<close> return.
\<close>

datatype error =
    ErrRead                    \<comment> \<open>a reader ended early\<close>
  | ErrNotInteger              \<comment> \<open>not an integer encoding\<close>
  | ErrDoesNotFit              \<comment> \<open>value does not fit the width\<close>
  | ErrEndian                  \<comment> \<open>unknown endianness\<close>
  | ErrTruncated               \<comment> \<open>fewer bytes than the layout needs\<close>
  | ErrFieldSize               \<comment> \<open>a fixed size that is not positive, or a size mismatch\<close>
  | ErrEncoding                \<comment> \<open>unsupported encoding\<close>
  | ErrKeySize                 \<comment> \<open>key material of the wrong length\<close>
  | ErrHex                     \<comment> \<open>invalid hexadecimal text\<close>
  | ErrPlainKind               \<comment> \<open>a field kind that cannot be plaintext\<close>
  | ErrPadding                 \<comment> \<open>unknown padding mode or padding out of range\<close>
  | ErrPayload                 \<comment> \<open>a payload where the layout has none\<close>
  | ErrLengthSubject           \<comment> \<open>unknown length subject\<close>
  | ErrLengthMismatch          \<comment> \<open>declared length is not the actual length\<close>
  | ErrNoLengthField           \<comment> \<open>stream framing needs a length field\<close>
  | ErrPeer                    \<comment> \<open>no peer address\<close>
  | ErrNet                     \<comment> \<open>a socket operation failed\<close>
  | ErrAuth                    \<comment> \<open>AEAD authentication failed\<close>
  | ErrReplay                  \<comment> \<open>an already seen sequence number\<close>
  | ErrWindow                  \<comment> \<open>outside the receive window\<close>
  | ErrMode                    \<comment> \<open>codec is not in packet mode\<close>
  | ErrCipher                  \<comment> \<open>unknown cipher suite\<close>
  | ErrSpec                    \<comment> \<open>invalid message layout\<close>
  | ErrGenome                  \<comment> \<open>invalid genome\<close>
  | ErrPsk                     \<comment> \<open>empty pre-shared key\<close>
  | ErrRole                    \<comment> \<open>wrong role or direction for the step\<close>
  | ErrDone                    \<comment> \<open>handshake already complete\<close>
  | ErrNotDone                 \<comment> \<open>handshake not complete\<close>
  | ErrNoPeerKey               \<comment> \<open>no ephemeral key from the peer\<close>
  | ErrEcdh                    \<comment> \<open>X25519 refused a key\<close>
  | ErrKdf                     \<comment> \<open>HKDF refused its parameters\<close>
  | ErrCover                   \<comment> \<open>datagram shorter than its cover\<close>
  | ErrProbeMark               \<comment> \<open>invalid probe mark\<close>
  | ErrProbe                   \<comment> \<open>first datagram does not authenticate\<close>
  | ErrNoProtocol              \<comment> \<open>no usable protocol\<close>
  | ErrControl                 \<comment> \<open>malformed control payload\<close>
  | ErrTooLarge                \<comment> \<open>frame too large\<close>
  | ErrZeroFrame               \<comment> \<open>stream frame of length zero\<close>
  | ErrClosed                  \<comment> \<open>use of a closed connection\<close>
  | ErrConfig                  \<comment> \<open>invalid configuration\<close>
  | ErrExhausted               \<comment> \<open>address pool exhausted\<close>
  | ErrTimeout                 \<comment> \<open>handshake timeout\<close>
  | ErrPanic                   \<comment> \<open>a Go panic (negative size, division by zero)\<close>

type_synonym 'a res = "error + 'a"

definition res_bind :: "'a res \<Rightarrow> ('a \<Rightarrow> 'b res) \<Rightarrow> 'b res" where
  "res_bind m f = (case m of Inl e \<Rightarrow> Inl e | Inr x \<Rightarrow> f x)"

definition of_option :: "error \<Rightarrow> 'a option \<Rightarrow> 'a res" where
  "of_option e m = (case m of None \<Rightarrow> Inl e | Some x \<Rightarrow> Inr x)"

definition is_ok :: "'a res \<Rightarrow> bool" where
  "is_ok m = (case m of Inl _ \<Rightarrow> False | Inr _ \<Rightarrow> True)"

lemma res_bind_simps [simp]:
  "res_bind (Inl e) f = Inl e" "res_bind (Inr x) f = f x"
  by (simp_all add: res_bind_def)

lemma res_bind_Inr_iff: "res_bind m f = Inr y \<longleftrightarrow> (\<exists>x. m = Inr x \<and> f x = Inr y)"
  by (cases m) auto

lemma res_bind_InrE [elim!, res_elims]:
  assumes "res_bind m f = Inr y"
  obtains x where "m = Inr x" "f x = Inr y"
  using assms by (cases m) auto

lemma of_option_simps [simp]: "of_option e None = Inl e" "of_option e (Some x) = Inr x"
  by (simp_all add: of_option_def)

lemma of_option_Inr_iff [simp]: "of_option e m = Inr x \<longleftrightarrow> m = Some x"
  by (cases m) auto

lemma is_ok_simps [simp]: "is_ok (Inl e) = False" "is_ok (Inr x) = True"
  by (simp_all add: is_ok_def)

lemma is_ok_iff: "is_ok m \<longleftrightarrow> (\<exists>x. m = Inr x)"
  by (cases m) auto

lemma if_Inl_eq_Inr [simp]:
  "(if b then Inl e else m) = Inr x \<longleftrightarrow> \<not> b \<and> m = Inr x"
  "(if b then m else Inl e) = Inr x \<longleftrightarrow> b \<and> m = Inr x"
  by auto

section \<open>Readers\<close>

text \<open>
  A reader is the byte sequence it will still deliver. \<open>io.ReadFull\<close> takes exactly \<open>n\<close>
  bytes or fails. The same type stands for a source of random bytes.
\<close>

type_synonym reader = bytes

definition read_full :: "nat \<Rightarrow> reader \<Rightarrow> (bytes \<times> reader) res" where
  "read_full n r = (if length r < n then Inl ErrRead else Inr (take n r, drop n r))"

lemma read_full_Inr_iff: "read_full n r = Inr (b, r') \<longleftrightarrow> length b = n \<and> r = b @ r'"
  by (auto simp: read_full_def)

lemma read_full_append [simp]: "length b = n \<Longrightarrow> read_full n (b @ r) = Inr (b, r)"
  by (simp add: read_full_Inr_iff)

lemma read_full_ok [simp]: "n \<le> length r \<Longrightarrow> read_full n r = Inr (take n r, drop n r)"
  by (simp add: read_full_def)

text \<open>
  The interface of a self-delimiting wire format: a reader that takes one item and leaves the
  rest. A provider promises that it reads back what was written, whatever follows; clients get
  the parsing of whole sequences and unique decodability.
\<close>

fun read_many :: "(reader \<Rightarrow> ('v \<times> reader) res) \<Rightarrow> nat \<Rightarrow> reader \<Rightarrow> ('v list \<times> reader) res" where
  "read_many rd 0 r = Inr ([], r)"
| "read_many rd (Suc n) r =
     res_bind (rd r) (\<lambda>(v, r1). res_bind (read_many rd n r1) (\<lambda>(vs, r2). Inr (v # vs, r2)))"

locale stream_codec =
  fixes rd :: "reader \<Rightarrow> ('v \<times> reader) res"
    and wire :: "'v \<Rightarrow> bytes"
    and sendable :: "'v \<Rightarrow> bool"
  assumes read_wire: "sendable v \<Longrightarrow> rd (wire v @ rest) = Inr (v, rest)"
begin

lemma read_many_wire:
  "\<forall>v \<in> set vs. sendable v \<Longrightarrow>
     read_many rd (length vs) (concat (map wire vs) @ rest) = Inr (vs, rest)"
  by (induction vs) (auto simp: read_wire)

lemma wire_unique:
  assumes "sendable v" "sendable w" "wire v @ r = wire w @ s"
  shows "v = w \<and> r = s"
proof -
  have "(Inr (v, r) :: ('v \<times> reader) res) = Inr (w, s)"
    unfolding read_wire [OF assms(1), symmetric] read_wire [OF assms(2), symmetric] assms(3) ..
  then show ?thesis by blast
qed

lemma wire_concat_unique:
  assumes "\<forall>v \<in> set vs. sendable v" "\<forall>w \<in> set ws. sendable w" "length vs = length ws"
    "concat (map wire vs) @ r = concat (map wire ws) @ s"
  shows "vs = ws \<and> r = s"
proof -
  have "(Inr (vs, r) :: ('v list \<times> reader) res) = Inr (ws, s)"
    unfolding read_many_wire [OF assms(1), symmetric] read_many_wire [OF assms(2), symmetric]
      assms(3,4) ..
  then show ?thesis by blast
qed

end

section \<open>Integers as bytes\<close>

text \<open>
  \<open>le_bytes n v\<close> are the \<open>n\<close> low bytes of \<open>v\<close>, least significant first;
  \<open>le_nat\<close> reads them back. The big endian forms are the reversals.
\<close>

primrec le_bytes :: "nat \<Rightarrow> nat \<Rightarrow> bytes" where
  "le_bytes 0 v = []"
| "le_bytes (Suc n) v = of_nat v # le_bytes n (v div 256)"

primrec le_nat :: "bytes \<Rightarrow> nat" where
  "le_nat [] = 0"
| "le_nat (b # bs) = unat b + 256 * le_nat bs"

definition be_bytes :: "nat \<Rightarrow> nat \<Rightarrow> bytes" where
  "be_bytes n v = rev (le_bytes n v)"

definition be_nat :: "bytes \<Rightarrow> nat" where
  "be_nat bs = le_nat (rev bs)"

lemma length_le_bytes [simp, length_simps]: "length (le_bytes n v) = n"
  by (induction n arbitrary: v) auto

lemma length_be_bytes [simp, length_simps]: "length (be_bytes n v) = n"
  by (simp add: be_bytes_def)

lemma unat_of_nat_byte: "unat (of_nat v :: byte) = v mod 256"
  by (simp add: unat_of_nat)

lemma unat_byte_less [simp]: "unat (b :: byte) < 256"
  using unsigned_less [of b] by simp

lemma le_nat_le_bytes: "le_nat (le_bytes n v) = v mod 256 ^ n"
proof (induction n arbitrary: v)
  case 0
  show ?case by simp
next
  case (Suc n)
  have "v mod 256 + 256 * (v div 256 mod 256 ^ n) = v mod (256 * 256 ^ n)"
    by (simp add: mod_mult2_eq)
  with Suc show ?case by (simp add: unat_of_nat_byte)
qed

lemma be_nat_be_bytes: "be_nat (be_bytes n v) = v mod 256 ^ n"
  by (simp add: be_nat_def be_bytes_def le_nat_le_bytes)

lemma be_nat_be_bytes_id [simp, roundtrip_simps]: "v < 256 ^ n \<Longrightarrow> be_nat (be_bytes n v) = v"
  by (simp add: be_nat_be_bytes)

lemma le_nat_le_bytes_id [simp, roundtrip_simps]: "v < 256 ^ n \<Longrightarrow> le_nat (le_bytes n v) = v"
  by (simp add: le_nat_le_bytes)

lemma le_nat_bound: "le_nat bs < 256 ^ length bs"
proof (induction bs)
  case (Cons b bs)
  have "unat b < 256" by simp
  moreover have "Suc (le_nat bs) \<le> 256 ^ length bs" using Cons by simp
  then have "256 * Suc (le_nat bs) \<le> 256 * 256 ^ length bs" by (rule mult_le_mono2)
  moreover have "unat b + 256 * le_nat bs < 256 * Suc (le_nat bs)" by simp
  ultimately have "unat b + 256 * le_nat bs < 256 * 256 ^ length bs" by (blast intro: less_le_trans)
  then show ?case by simp
qed simp

lemma be_nat_bound: "be_nat bs < 256 ^ length bs"
  using le_nat_bound [of "rev bs"] by (simp add: be_nat_def)

lemma le_nat_append: "le_nat (xs @ ys) = le_nat xs + 256 ^ length xs * le_nat ys"
  by (induction xs) (auto simp: algebra_simps)

lemma le_nat_zeros [simp]: "le_nat (replicate n 0) = 0"
  by (induction n) auto

lemma le_bytes_append: "le_bytes (m + n) v = le_bytes m v @ le_bytes n (v div 256 ^ m)"
  by (induction m arbitrary: v) (auto simp: div_mult2_eq)

lemma take_le_bytes: "m \<le> n \<Longrightarrow> take m (le_bytes n v) = le_bytes m v"
  using le_bytes_append [of m "n - m" v] by simp

lemma drop_be_bytes: "m \<le> n \<Longrightarrow> drop (n - m) (be_bytes n v) = be_bytes m v"
  by (simp add: be_bytes_def drop_rev take_le_bytes)

lemma le_bytes_le_nat: "le_bytes (length bs) (le_nat bs) = bs"
proof (induction bs)
  case (Cons b bs)
  have "of_nat (unat b + 256 * le_nat bs) = b"
  proof -
    have "unat (of_nat (unat b + 256 * le_nat bs) :: byte) = unat b"
      by (simp only: unat_of_nat_byte) simp
    then show ?thesis by (rule word_unat_eq_iff [THEN iffD2])
  qed
  moreover have "(unat b + 256 * le_nat bs) div 256 = le_nat bs"
    by simp
  ultimately show ?case using Cons by simp
qed simp

lemma be_bytes_be_nat: "be_bytes (length bs) (be_nat bs) = bs"
  using le_bytes_le_nat [of "rev bs"] by (simp add: be_bytes_def be_nat_def)

lemma be_bytes_inj: "be_bytes n v = be_bytes n w \<Longrightarrow> v < 256 ^ n \<Longrightarrow> w < 256 ^ n \<Longrightarrow> v = w"
  by (metis be_nat_be_bytes_id)

section \<open>Hexadecimal text\<close>

definition hex_char :: "nat \<Rightarrow> char" where
  "hex_char n = ''0123456789abcdef'' ! (n mod 16)"

definition hex_val :: "char \<Rightarrow> nat option" where
  "hex_val c =
     (let n = (of_char c :: nat) in
      if 48 \<le> n \<and> n \<le> 57 then Some (n - 48)
      else if 97 \<le> n \<and> n \<le> 102 then Some (n - 87)
      else if 65 \<le> n \<and> n \<le> 70 then Some (n - 55)
      else None)"

primrec hex_encode :: "bytes \<Rightarrow> string" where
  "hex_encode [] = []"
| "hex_encode (b # bs) = hex_char (unat b div 16) # hex_char (unat b mod 16) # hex_encode bs"

fun hex_decode :: "string \<Rightarrow> bytes option" where
  "hex_decode [] = Some []"
| "hex_decode [c] = None"
| "hex_decode (c # d # cs) =
     (case (hex_val c, hex_val d, hex_decode cs) of
        (Some h, Some l, Some bs) \<Rightarrow> Some (of_nat (16 * h + l) # bs)
      | _ \<Rightarrow> None)"

lemma hex_val_hex_char: "n < 16 \<Longrightarrow> hex_val (hex_char n) = Some n"
proof -
  assume "n < 16"
  then have "n \<in> {0, 1, 2, 3, 4, 5, 6, 7, 8, 9, 10, 11, 12, 13, 14, 15}"
    by (simp only: insert_iff empty_iff) arith
  then show ?thesis by (auto simp: hex_val_def hex_char_def)
qed

lemma length_hex_encode [simp, length_simps]: "length (hex_encode bs) = 2 * length bs"
  by (induction bs) auto

lemma hex_decode_encode [simp, roundtrip_simps]: "hex_decode (hex_encode bs) = Some bs"
proof (induction bs)
  case (Cons b bs)
  have "unat b div 16 < 16"
    using unat_byte_less [of b] by (simp add: less_mult_imp_div_less)
  then have "hex_val (hex_char (unat b div 16)) = Some (unat b div 16)"
    and "hex_val (hex_char (unat b mod 16)) = Some (unat b mod 16)"
    by (simp_all add: hex_val_hex_char)
  with Cons show ?case by (simp add: mult.commute)
qed simp

lemma hex_decode_length: "hex_decode cs = Some bs \<Longrightarrow> length cs = 2 * length bs"
  by (induction cs arbitrary: bs rule: hex_decode.induct) (auto split: option.splits)

section \<open>Lists\<close>

lemma find_index_conv: "i < length xs \<Longrightarrow> xs = take i xs @ xs ! i # drop (Suc i) xs"
  by (simp add: id_take_nth_drop)

lemma filter_length_one_nth:
  assumes "length (filter P xs) = 1" "i < length xs" "P (xs ! i)" "j < length xs" "P (xs ! j)"
  shows "i = j"
proof (rule ccontr)
  assume "i \<noteq> j"
  have "card {k. k < length xs \<and> P (xs ! k)} = 1"
    using assms(1) by (simp add: length_filter_conv_card)
  moreover have "{i, j} \<subseteq> {k. k < length xs \<and> P (xs ! k)}" using assms by auto
  ultimately have "card {i, j} \<le> 1"
    by (metis (no_types, lifting) card.infinite card_mono zero_neq_one)
  with \<open>i \<noteq> j\<close> show False by simp
qed

section \<open>Bits of machine words\<close>

text \<open>Tests and sets of one bit, in the simplifier's form \<open>2 ^ n\<close> of \<open>1 << n\<close>.\<close>

lemma and_exp_iff: "w AND 2 ^ n = 0 \<longleftrightarrow> \<not> bit w n" for w :: "64 word"
  using bit_iff_and_push_bit_not_eq_0 [of w n] by simp

lemma and_one_iff: "w AND 1 = 0 \<longleftrightarrow> \<not> bit w 0" for w :: "64 word"
  using and_exp_iff [of w 0] by simp

lemma bit_or_exp: "n < 64 \<Longrightarrow> bit (w OR 2 ^ n) i \<longleftrightarrow> bit w i \<or> i = n" for w :: "64 word"
  by (auto simp: bit_or_iff bit_exp_iff)

section \<open>Replay filters\<close>

text \<open>
  The interface of an anti-replay filter: \<open>accepts s f q s'\<close> says that the state \<open>s\<close> accepts
  the frame \<open>f\<close> under sequence number \<open>q\<close>; \<open>dead s\<close> are the numbers it will not accept. A
  provider promises that it accepts only live numbers and kills exactly the one accepted.
\<close>

inductive accept_run :: "('s \<Rightarrow> 'f \<Rightarrow> nat \<Rightarrow> 's \<Rightarrow> bool) \<Rightarrow> 's \<Rightarrow> nat list \<Rightarrow> 's \<Rightarrow> bool"
  for accepts where
  run_nil: "accept_run accepts s [] s"
| run_cons: "accepts s f q s1 \<Longrightarrow> accept_run accepts s1 qs s2 \<Longrightarrow> accept_run accepts s (q # qs) s2"

inductive_cases accept_run_ConsE: "accept_run accepts s (q # qs) s'"

locale replay_filter =
  fixes accepts :: "'s \<Rightarrow> 'f \<Rightarrow> nat \<Rightarrow> 's \<Rightarrow> bool"
    and dead :: "'s \<Rightarrow> nat set"
    and inv :: "'s \<Rightarrow> bool"
  assumes fresh: "inv s \<Longrightarrow> accepts s f q s' \<Longrightarrow> q \<notin> dead s"
    and marks: "inv s \<Longrightarrow> accepts s f q s' \<Longrightarrow> dead s' = insert q (dead s)"
    and keeps: "inv s \<Longrightarrow> accepts s f q s' \<Longrightarrow> inv s'"
begin

lemma run_dead:
  assumes "accept_run accepts s qs s'" "inv s"
  shows "inv s' \<and> dead s' = dead s \<union> set qs"
  using assms
proof (induction rule: accept_run.induct)
  case (run_cons s f q s1 qs s2)
  from run_cons.hyps(1) run_cons.prems have "inv s1" "dead s1 = insert q (dead s)"
    by (auto dest: keeps marks)
  with run_cons.IH show ?case by auto
qed simp

lemma run_distinct:
  assumes "accept_run accepts s qs s'" "inv s"
  shows "distinct qs \<and> set qs \<inter> dead s = {}"
  using assms
proof (induction rule: accept_run.induct)
  case (run_cons s f q s1 qs s2)
  from run_cons.hyps(1) run_cons.prems have "inv s1" "dead s1 = insert q (dead s)" "q \<notin> dead s"
    by (auto dest: keeps marks fresh)
  with run_cons.IH show ?case by auto
qed simp

end

section \<open>Transition systems\<close>

text \<open>
  The interface between a step relation and the invariants proved for it. A provider shows
  that every step keeps a predicate; clients get it for every state that can be reached, and
  from any number of such predicates their conjunction.
\<close>

inductive reach :: "('s \<Rightarrow> 's \<Rightarrow> bool) \<Rightarrow> 's \<Rightarrow> 's \<Rightarrow> bool" for step where
  reach_start: "reach step s s"
| reach_step: "reach step s s1 \<Longrightarrow> step s1 s2 \<Longrightarrow> reach step s s2"

lemma reach_trans: "reach step s2 s3 \<Longrightarrow> reach step s1 s2 \<Longrightarrow> reach step s1 s3"
  by (induction rule: reach.induct) (auto intro: reach_step)

locale invariant_of =
  fixes step :: "'s \<Rightarrow> 's \<Rightarrow> bool"
    and inv :: "'s \<Rightarrow> bool"
  assumes step_keeps: "step s s' \<Longrightarrow> inv s \<Longrightarrow> inv s'"
begin

lemma run_keeps: "reach step s s' \<Longrightarrow> inv s \<Longrightarrow> inv s'"
  by (induction rule: reach.induct) (auto intro: step_keeps)

lemma run_strengthen:
  assumes "reach step s s'" "inv s"
  shows "reach (\<lambda>a b. inv a \<and> step a b \<and> inv b) s s'"
  using assms
proof (induction rule: reach.induct)
  case (reach_step s s1 s2)
  then have "inv s1" using run_keeps by blast
  with reach_step step_keeps show ?case by (blast intro: reach.reach_step)
qed (rule reach_start)

end

text \<open>A quantity that no step changes.\<close>

locale constant_of =
  fixes step :: "'s \<Rightarrow> 's \<Rightarrow> bool"
    and val :: "'s \<Rightarrow> 'v"
  assumes step_same: "step s s' \<Longrightarrow> val s' = val s"

sublocale constant_of \<subseteq> const: invariant_of step "\<lambda>s. val s = v" for v
  by unfold_locales (simp add: step_same)

context constant_of
begin

lemma run_same: "reach step s s' \<Longrightarrow> val s' = val s"
  using const.run_keeps by blast

end

end
