(* ===== verification/Genome.thy ===== *)
theory Genome
  imports Prelude
begin

text \<open>
  The genotype of a generated protocol (\<open>internal/genome/types.go\<close>): field, padding,
  message and genome records. The string enumerations of the Go code become datatypes whose
  last constructor holds any other string, so that the default branches of the code's
  switches are branches of the model.
\<close>

section \<open>Enumerations\<close>

datatype placement = PlacePlain | PlaceEncrypted | PlaceOther string

datatype field_kind =
    FieldVersion | FieldType | FieldNonce | FieldLength | FieldPadLen | FieldReserved
  | FieldExtra | FieldKey | FieldCert | FieldPayload | FieldOther string

datatype encoding =
    EncFixedBytes | EncPrefixedU8 | EncPrefixedU16 | EncU8 | EncU16 | EncU24 | EncU32
  | EncRaw32 | EncX963 | EncOther string

datatype value_source = ValueConstant | ValueRandom | ValueZero | ValueInjected | ValueOther string

datatype padding_mode = PaddingNone | PaddingUniform | PaddingBurst | PaddingOther string

datatype direction = DirClient | DirServer | DirBoth | DirOther string

datatype cipher_suite =
  CipherAES128GCM | CipherAES192GCM | CipherAES256GCM | CipherChaCha20P1305 | CipherOther string

datatype endianness = EndianBig | EndianLittle | EndianOther string

datatype length_subject = SubjectCiphertext | SubjectRecord | SubjectOther string

datatype purpose = Hello | HelloKey | PKey | PAck | PData | PurposeOther string

section \<open>Records\<close>

text \<open>
  Go's \<open>int\<close> is \<open>int\<close>. An integer field that is absent is 0, an absent string the
  empty one (\<open>EndianOther []\<close>, \<open>SubjectOther []\<close>), as \<open>omitempty\<close> leaves them.
\<close>

record field_spec =
  fkind :: field_kind
  fplacement :: placement
  fencoding :: encoding
  fendian :: endianness
  fsize :: int
  fmin_size :: int
  fmax_size :: int
  fvalue_hex :: string
  fvalue_source :: value_source
  fsubject :: length_subject

record padding_policy =
  pmode :: padding_mode
  pmin :: int
  pmax :: int

record message_spec =
  mindex :: int
  mname :: string
  mdirection :: direction
  mpurpose :: purpose
  plain_fields :: "field_spec list"
  encrypted_fields :: "field_spec list"
  length_field_index :: int
  length_alone :: bool
  has_payload :: bool
  mpadding :: padding_policy
  mcipher :: cipher_suite

record protocol_genome =
  gschema :: string
  generation :: nat
  seed_material :: string
  handshake_pattern :: string
  handshake :: "message_spec list"
  app_record :: message_spec
  protocol_fingerprint :: string

definition GeneratorSchema :: string where
  "GeneratorSchema = ''chimera-pgc/0''"

text \<open>The zero value of \<open>FieldSpec\<close>, from which the generator's literals start.\<close>

definition field_zero :: field_spec where
  "field_zero = \<lparr>fkind = FieldOther [], fplacement = PlaceOther [], fencoding = EncOther [],
     fendian = EndianOther [], fsize = 0, fmin_size = 0, fmax_size = 0, fvalue_hex = [],
     fvalue_source = ValueOther [], fsubject = SubjectOther []\<rparr>"

lemmas field_zero_simps [simp] = field_zero_def

section \<open>Cryptography\<close>

text \<open>
  The primitives of Go's \<open>crypto\<close> packages and of \<open>golang.org/x/crypto\<close> that the
  program calls are a parameter of the model: SHA-256, HMAC-SHA256, HKDF-SHA256, the AEAD
  named by a cipher suite, X25519 and the JSON marshalling of a genome.
\<close>

record crypto =
  sha256 :: "bytes \<Rightarrow> bytes"
  hmac_sha256 :: "bytes \<Rightarrow> bytes \<Rightarrow> bytes"          \<comment> \<open>key, message\<close>
  hkdf_key :: "bytes \<Rightarrow> bytes \<Rightarrow> string \<Rightarrow> nat \<Rightarrow> bytes option"  \<comment> \<open>secret, salt, info, length\<close>
  aead_seal :: "cipher_suite \<Rightarrow> bytes \<Rightarrow> bytes \<Rightarrow> bytes \<Rightarrow> bytes \<Rightarrow> bytes"
    \<comment> \<open>suite, key, nonce, plaintext, additional data\<close>
  aead_open :: "cipher_suite \<Rightarrow> bytes \<Rightarrow> bytes \<Rightarrow> bytes \<Rightarrow> bytes \<Rightarrow> bytes option"
    \<comment> \<open>suite, key, nonce, ciphertext, additional data\<close>
  x25519_public :: "bytes \<Rightarrow> bytes"
  x25519_ecdh :: "bytes \<Rightarrow> bytes \<Rightarrow> bytes option"     \<comment> \<open>private, peer's public\<close>
  marshal_genome :: "protocol_genome \<Rightarrow> bytes"

text \<open>
  The documented behaviour of the primitives that theorems rely on, as named predicates:
  digests are 32 bytes; an AEAD opens what it sealed under the same suite, key, nonce and
  additional data and adds a 16 byte tag; X25519 public keys are 32 bytes and the two ways to
  compute a shared secret agree.
\<close>

definition digest_ok :: "crypto \<Rightarrow> bool" where
  "digest_ok C \<longleftrightarrow> (\<forall>m. length (sha256 C m) = 32) \<and> (\<forall>k m. length (hmac_sha256 C k m) = 32)"

definition aead_ok :: "crypto \<Rightarrow> bool" where
  "aead_ok C \<longleftrightarrow>
     (\<forall>cs k n pt ad. aead_open C cs k n (aead_seal C cs k n pt ad) ad = Some pt) \<and>
     (\<forall>cs k n pt ad. length (aead_seal C cs k n pt ad) = length pt + 16)"

text \<open>
  A ciphertext does not open under another nonce. Of a real AEAD this holds up to forgery
  probability; it is the idealisation the window arguments use.
\<close>

definition aead_nonce_ok :: "crypto \<Rightarrow> bool" where
  "aead_nonce_ok C \<longleftrightarrow>
     (\<forall>cs k n n' pt ad. length n = 12 \<and> length n' = 12 \<and> n \<noteq> n' \<longrightarrow>
        aead_open C cs k n' (aead_seal C cs k n pt ad) ad = None)"

definition ecdh_ok :: "crypto \<Rightarrow> bool" where
  "ecdh_ok C \<longleftrightarrow>
     (\<forall>a. length (x25519_public C a) = 32) \<and>
     (\<forall>a b. x25519_ecdh C a (x25519_public C b) = x25519_ecdh C b (x25519_public C a))"

lemma aead_okD:
  assumes "aead_ok C"
  shows "aead_open C cs k n (aead_seal C cs k n pt ad) ad = Some pt"
    and "length (aead_seal C cs k n pt ad) = length pt + 16"
  using assms by (simp_all add: aead_ok_def)

lemma digest_okD:
  assumes "digest_ok C"
  shows "length (sha256 C m) = 32" and "length (hmac_sha256 C k m) = 32"
  using assms by (simp_all add: digest_ok_def)

lemma ecdh_okD:
  assumes "ecdh_ok C"
  shows "length (x25519_public C a) = 32"
    and "x25519_ecdh C a (x25519_public C b) = x25519_ecdh C b (x25519_public C a)"
  using assms by (simp_all add: ecdh_ok_def)

text \<open>
  A concrete instance that satisfies the three predicates, at which witnesses evaluate. It
  is a stand-in for a computation, with no security: the digest sums bytes, the AEAD appends
  a tag made of the nonce.
\<close>

definition sum_digest :: "bytes \<Rightarrow> bytes" where
  "sum_digest m = replicate 31 0 @ [sum_list m]"

definition demo_tag :: "bytes \<Rightarrow> bytes" where
  "demo_tag n = take 16 (n @ replicate 16 7)"

definition demo_crypto :: crypto where
  "demo_crypto = \<lparr>sha256 = sum_digest, hmac_sha256 = (\<lambda>k m. sum_digest (k @ m)),
     hkdf_key = (\<lambda>s salt info n. Some (replicate n (sum_list s + of_nat (length info)))),
     aead_seal = (\<lambda>cs k n pt ad. pt @ demo_tag n),
     aead_open = (\<lambda>cs k n ct ad.
        if 16 \<le> length ct \<and> drop (length ct - 16) ct = demo_tag n
        then Some (take (length ct - 16) ct) else None),
     x25519_public = (\<lambda>a. replicate 31 0 @ [sum_list a]),
     x25519_ecdh = (\<lambda>a p. Some [sum_list a + sum_list p]),
     marshal_genome = (\<lambda>g. replicate (length (handshake g)) 1)\<rparr>"

lemma length_sum_digest [simp]: "length (sum_digest m) = 32"
  by (simp add: sum_digest_def)

lemma length_demo_tag [simp]: "length (demo_tag n) = 16"
  by (simp add: demo_tag_def)

lemma demo_digest_ok [simp]: "digest_ok demo_crypto"
  by (simp add: digest_ok_def demo_crypto_def)

lemma demo_aead_ok [simp]: "aead_ok demo_crypto"
  by (simp add: aead_ok_def demo_crypto_def)

lemma demo_aead_nonce_ok [simp]: "aead_nonce_ok demo_crypto"
  by (auto simp: aead_nonce_ok_def demo_crypto_def demo_tag_def)

lemma demo_ecdh_ok [simp]: "ecdh_ok demo_crypto"
  by (simp add: ecdh_ok_def demo_crypto_def add.commute sum_list_replicate)

end
