(* ===== verification/Layout.thy ===== *)
theory Layout
  imports Genome
begin

text \<open>
  The static checks of a message layout: field widths (\<open>fixedSize\<close>, \<open>intWidth\<close> of
  \<open>internal/compiler/codec.go\<close>), the pad-length field (\<open>internal/compiler/packet.go\<close>),
  cipher key lengths and the message validation of \<open>internal/compiler/compile.go\<close>.
  \<open>layout_ok\<close> is the stronger invariant that a generated layout satisfies and that the
  codec's round trips need; \<open>Generator\<close> proves it of every generated message.
\<close>

section \<open>Field widths\<close>

fun fixedSize :: "field_spec \<Rightarrow> int res" where
  "fixedSize f =
     (case fencoding f of
        EncU8 \<Rightarrow> Inr 1
      | EncU16 \<Rightarrow> Inr 2
      | EncU24 \<Rightarrow> Inr 3
      | EncU32 \<Rightarrow> Inr 4
      | EncFixedBytes \<Rightarrow> (if fsize f \<le> 0 then Inl ErrFieldSize else Inr (fsize f))
      | EncRaw32 \<Rightarrow> (if fsize f \<le> 0 then Inl ErrFieldSize else Inr (fsize f))
      | EncX963 \<Rightarrow> (if fsize f \<le> 0 then Inl ErrFieldSize else Inr (fsize f))
      | _ \<Rightarrow> Inl ErrEncoding)"

fun intWidth :: "encoding \<Rightarrow> nat" where
  "intWidth EncU8 = 1"
| "intWidth EncU16 = 2"
| "intWidth EncU24 = 3"
| "intWidth EncU32 = 4"
| "intWidth _ = 0"

text \<open>\<open>s, _ := fixedSize(f)\<close>: the error is dropped and the size read as 0.\<close>

definition size_or_0 :: "field_spec \<Rightarrow> nat" where
  "size_or_0 f = (case fixedSize f of Inl _ \<Rightarrow> 0 | Inr n \<Rightarrow> nat n)"

definition plainFieldsSize :: "message_spec \<Rightarrow> nat" where
  "plainFieldsSize spec = sum_list (map size_or_0 (plain_fields spec))"

declare fixedSize.simps [simp del]

lemma fixedSize_pos: "fixedSize f = Inr n \<Longrightarrow> 0 < n"
  by (auto simp: fixedSize.simps split: encoding.splits if_splits)

lemma size_or_0_Inr [simp]: "fixedSize f = Inr n \<Longrightarrow> size_or_0 f = nat n"
  by (simp add: size_or_0_def)

lemma fixedSize_intWidth: "0 < intWidth (fencoding f) \<Longrightarrow> fixedSize f = Inr (int (intWidth (fencoding f)))"
  by (cases "fencoding f") (auto simp: fixedSize.simps)

lemma intWidth_le_4: "intWidth e \<le> 4"
  by (cases e) auto

text \<open>The generator's own view of field sizes (\<open>internal/genome/generator.go\<close>).\<close>

fun fieldFixedSize :: "field_spec \<Rightarrow> int \<times> bool" where
  "fieldFixedSize f =
     (case fencoding f of
        EncU8 \<Rightarrow> (1, True)
      | EncU16 \<Rightarrow> (2, True)
      | EncU24 \<Rightarrow> (3, True)
      | EncU32 \<Rightarrow> (4, True)
      | EncFixedBytes \<Rightarrow> (if 0 < fsize f then (fsize f, True) else (0, False))
      | EncRaw32 \<Rightarrow> (if 0 < fsize f then (fsize f, True) else (0, False))
      | EncX963 \<Rightarrow> (if 0 < fsize f then (fsize f, True) else (0, False))
      | _ \<Rightarrow> (0, False))"

fun maxEncodedFieldSize :: "field_spec \<Rightarrow> int" where
  "maxEncodedFieldSize f =
     (case fencoding f of
        EncPrefixedU8 \<Rightarrow> 1 + fmax_size f
      | EncPrefixedU16 \<Rightarrow> 2 + fmax_size f
      | _ \<Rightarrow> (case fieldFixedSize f of (n, ok) \<Rightarrow> if ok then n else 0))"

fun maxIntValue :: "encoding \<Rightarrow> int" where
  "maxIntValue EncU8 = 2 ^ 8 - 1"
| "maxIntValue EncU16 = 2 ^ 16 - 1"
| "maxIntValue EncU24 = 2 ^ 24 - 1"
| "maxIntValue EncU32 = 2 ^ 32 - 1"
| "maxIntValue _ = 0"

declare fieldFixedSize.simps [simp del]
declare maxEncodedFieldSize.simps [simp del]

lemma fieldFixedSize_eq:
  "fieldFixedSize f = (case fixedSize f of Inl _ \<Rightarrow> (0, False) | Inr n \<Rightarrow> (n, True))"
  by (auto simp: fieldFixedSize.simps fixedSize.simps split: encoding.splits)

lemma maxIntValue_width: "0 < intWidth e \<Longrightarrow> maxIntValue e = 256 ^ intWidth e - 1"
  by (cases e) auto

section \<open>The pad-length field\<close>

fun find_pad :: "field_spec list \<Rightarrow> nat \<Rightarrow> int" where
  "find_pad [] i = -1"
| "find_pad (f # fs) i = (if fkind f = FieldPadLen then int i else find_pad fs (Suc i))"

definition padFieldIndex :: "message_spec \<Rightarrow> int" where
  "padFieldIndex spec = find_pad (encrypted_fields spec) 0"

definition padFieldMax :: "message_spec \<Rightarrow> nat" where
  "padFieldMax spec =
     (let i = padFieldIndex spec in
      if i < 0 then 0
      else let n = intWidth (fencoding (encrypted_fields spec ! nat i)) in
           if n = 0 then 0
           else if 3 \<le> n then 2 ^ 20 - 1
           else 2 ^ (8 * n) - 1)"

lemma find_pad_cases:
  "(find_pad fs i = -1 \<and> (\<forall>f \<in> set fs. fkind f \<noteq> FieldPadLen)) \<or>
   (\<exists>k < length fs. find_pad fs i = int (i + k) \<and> fkind (fs ! k) = FieldPadLen \<and>
      (\<forall>j < k. fkind (fs ! j) \<noteq> FieldPadLen))"
proof (induction fs arbitrary: i)
  case Nil
  show ?case by simp
next
  case (Cons f fs)
  show ?case
  proof (cases "fkind f = FieldPadLen")
    case True
    then show ?thesis by (intro disjI2 exI [of _ 0]) simp
  next
    case False
    from Cons.IH [of "Suc i"] show ?thesis
    proof
      assume "find_pad fs (Suc i) = - 1 \<and> (\<forall>f\<in>set fs. fkind f \<noteq> FieldPadLen)"
      with False show ?thesis by simp
    next
      assume "\<exists>k<length fs. find_pad fs (Suc i) = int (Suc i + k) \<and> fkind (fs ! k) = FieldPadLen \<and>
        (\<forall>j<k. fkind (fs ! j) \<noteq> FieldPadLen)"
      then obtain k where k: "k < length fs" "find_pad fs (Suc i) = int (Suc i + k)"
        "fkind (fs ! k) = FieldPadLen" "\<forall>j<k. fkind (fs ! j) \<noteq> FieldPadLen" by blast
      have "\<forall>j < Suc k. fkind ((f # fs) ! j) \<noteq> FieldPadLen"
        using False k(4) by (auto simp: less_Suc_eq_0_disj)
      with False k show ?thesis by (intro disjI2 exI [of _ "Suc k"]) auto
    qed
  qed
qed

lemma padFieldIndex_bound: "padFieldIndex spec < int (length (encrypted_fields spec))"
  using find_pad_cases [of "encrypted_fields spec" 0] by (auto simp: padFieldIndex_def)

lemma padFieldMax_fits:
  assumes "0 \<le> padFieldIndex spec" "v \<le> padFieldMax spec"
    "0 < intWidth (fencoding (encrypted_fields spec ! nat (padFieldIndex spec)))"
  shows "v < 256 ^ intWidth (fencoding (encrypted_fields spec ! nat (padFieldIndex spec)))"
  using assms
  by (cases "fencoding (encrypted_fields spec ! nat (padFieldIndex spec))")
     (auto simp: padFieldMax_def Let_def)

section \<open>Cipher suites\<close>

fun KeyLen :: "cipher_suite \<Rightarrow> nat res" where
  "KeyLen CipherAES128GCM = Inr 16"
| "KeyLen CipherAES192GCM = Inr 24"
| "KeyLen CipherAES256GCM = Inr 32"
| "KeyLen CipherChaCha20P1305 = Inr 32"
| "KeyLen (CipherOther _) = Inl ErrCipher"

definition validateCipher :: "cipher_suite \<Rightarrow> unit res" where
  "validateCipher c = res_bind (KeyLen c) (\<lambda>_. Inr ())"

section \<open>Message validation\<close>

text \<open>
  The loop over the plaintext fields: every field is placed in the plaintext and has a fixed
  size; a length field stands at \<open>LengthFieldIndex\<close> and has a known subject. The result is
  the number of length fields seen.
\<close>

fun validate_plain :: "message_spec \<Rightarrow> field_spec list \<Rightarrow> nat \<Rightarrow> nat \<Rightarrow> nat res" where
  "validate_plain spec [] i seen = Inr seen"
| "validate_plain spec (f # fs) i seen =
     (if fplacement f \<noteq> PlacePlain then Inl ErrSpec
      else res_bind (fixedSize f) (\<lambda>_.
        if fkind f = FieldLength then
          (if length_field_index spec \<noteq> int i then Inl ErrSpec
           else if fsubject f \<noteq> SubjectCiphertext \<and> fsubject f \<noteq> SubjectRecord then Inl ErrLengthSubject
           else validate_plain spec fs (Suc i) (Suc seen))
        else validate_plain spec fs (Suc i) seen))"

text \<open>The loop over the encrypted fields; the result is the number of pad-length fields.\<close>

fun validate_encrypted :: "field_spec list \<Rightarrow> nat \<Rightarrow> nat res" where
  "validate_encrypted [] seen = Inr seen"
| "validate_encrypted (f # fs) seen =
     (if fplacement f \<noteq> PlaceEncrypted then Inl ErrSpec
      else case fkind f of
        FieldPadLen \<Rightarrow>
          (if intWidth (fencoding f) = 0 then Inl ErrNotInteger
           else validate_encrypted fs (Suc seen))
      | FieldKey \<Rightarrow>
          (if fencoding f \<noteq> EncRaw32 \<and> fencoding f \<noteq> EncX963 then Inl ErrEncoding
           else validate_encrypted fs seen)
      | FieldCert \<Rightarrow>
          (if fencoding f \<noteq> EncFixedBytes \<and> fencoding f \<noteq> EncPrefixedU8 \<and> fencoding f \<noteq> EncPrefixedU16
           then Inl ErrEncoding else validate_encrypted fs seen)
      | FieldExtra \<Rightarrow>
          (if fencoding f \<noteq> EncFixedBytes \<and> fencoding f \<noteq> EncPrefixedU8 \<and> fencoding f \<noteq> EncPrefixedU16
           then Inl ErrEncoding else validate_encrypted fs seen)
      | _ \<Rightarrow> validate_encrypted fs seen)"

definition validate_padding :: "padding_policy \<Rightarrow> nat \<Rightarrow> unit res" where
  "validate_padding p seen =
     (if pmode p = PaddingNone then
        (if seen \<noteq> 0 then Inl ErrPadding else Inr ())
      else if seen \<noteq> 1 then Inl ErrPadding
      else if pmode p \<noteq> PaddingUniform \<and> pmode p \<noteq> PaddingBurst then Inl ErrPadding
      else if pmin p < 0 \<or> pmax p < pmin p then Inl ErrPadding
      else Inr ())"

definition validateMessage :: "message_spec \<Rightarrow> unit res" where
  "validateMessage spec =
     res_bind (validateCipher (mcipher spec)) (\<lambda>_.
     res_bind (validate_plain spec (plain_fields spec) 0 0) (\<lambda>length_seen.
       if length_seen \<noteq> 1 then Inl ErrSpec
       else if length_field_index spec < 0 \<or> int (length (plain_fields spec)) \<le> length_field_index spec
       then Inl ErrSpec
       else res_bind (validate_encrypted (encrypted_fields spec) 0) (\<lambda>pad_seen.
              validate_padding (mpadding spec) pad_seen)))"

section \<open>What validation establishes\<close>

definition num_kind :: "field_kind \<Rightarrow> field_spec list \<Rightarrow> nat" where
  "num_kind k fs = length (filter (\<lambda>f. fkind f = k) fs)"

lemma num_kind_simps [simp]:
  "num_kind k [] = 0"
  "num_kind k (f # fs) = (if fkind f = k then Suc (num_kind k fs) else num_kind k fs)"
  "num_kind k (fs @ gs) = num_kind k fs + num_kind k gs"
  by (simp_all add: num_kind_def)

lemma num_kind_0_iff: "num_kind k fs = 0 \<longleftrightarrow> (\<forall>f \<in> set fs. fkind f \<noteq> k)"
  by (induction fs) auto

definition plain_field_ok :: "message_spec \<Rightarrow> nat \<Rightarrow> field_spec \<Rightarrow> bool" where
  "plain_field_ok spec i f \<longleftrightarrow>
     fplacement f = PlacePlain \<and> is_ok (fixedSize f) \<and>
     (fkind f = FieldLength \<longrightarrow>
        length_field_index spec = int i \<and>
        (fsubject f = SubjectCiphertext \<or> fsubject f = SubjectRecord))"

lemma validate_plain_Inr_iff:
  "validate_plain spec fs i seen = Inr n \<longleftrightarrow>
     (\<forall>k < length fs. plain_field_ok spec (i + k) (fs ! k)) \<and> n = seen + num_kind FieldLength fs"
proof (induction fs arbitrary: i seen)
  case Nil
  show ?case by auto
next
  case (Cons f fs)
  have split: "(\<forall>k < length (f # fs). plain_field_ok spec (i + k) ((f # fs) ! k)) \<longleftrightarrow>
      plain_field_ok spec i f \<and> (\<forall>k < length fs. plain_field_ok spec (Suc i + k) (fs ! k))"
    by (auto simp: less_Suc_eq_0_disj)
  show ?case
    unfolding split
    by (cases "fixedSize f") (auto simp: plain_field_ok_def Cons.IH)
qed

definition encrypted_field_ok :: "field_spec \<Rightarrow> bool" where
  "encrypted_field_ok f \<longleftrightarrow>
     fplacement f = PlaceEncrypted \<and>
     (fkind f = FieldPadLen \<longrightarrow> 0 < intWidth (fencoding f)) \<and>
     (fkind f = FieldKey \<longrightarrow> fencoding f \<in> {EncRaw32, EncX963}) \<and>
     (fkind f \<in> {FieldCert, FieldExtra} \<longrightarrow>
        fencoding f \<in> {EncFixedBytes, EncPrefixedU8, EncPrefixedU16})"

lemma validate_encrypted_Inr_iff:
  "validate_encrypted fs seen = Inr n \<longleftrightarrow>
     (\<forall>f \<in> set fs. encrypted_field_ok f) \<and> n = seen + num_kind FieldPadLen fs"
  by (induction fs arbitrary: seen)
     (auto simp: encrypted_field_ok_def split: field_kind.splits)

text \<open>A message that validates has exactly one length field, at its index.\<close>

lemma validateMessage_iff:
  "validateMessage spec = Inr () \<longleftrightarrow>
     is_ok (KeyLen (mcipher spec)) \<and>
     (\<forall>k < length (plain_fields spec). plain_field_ok spec k (plain_fields spec ! k)) \<and>
     num_kind FieldLength (plain_fields spec) = 1 \<and>
     0 \<le> length_field_index spec \<and> length_field_index spec < int (length (plain_fields spec)) \<and>
     (\<forall>f \<in> set (encrypted_fields spec). encrypted_field_ok f) \<and>
     validate_padding (mpadding spec) (num_kind FieldPadLen (encrypted_fields spec)) = Inr ()"
  by (auto simp: validateMessage_def res_bind_Inr_iff validateCipher_def is_ok_iff
        validate_plain_Inr_iff validate_encrypted_Inr_iff)

lemma validateMessageD:
  assumes "validateMessage spec = Inr ()"
  shows "0 \<le> length_field_index spec"
    and "length_field_index spec < int (length (plain_fields spec))"
    and "k < length (plain_fields spec) \<Longrightarrow> plain_field_ok spec k (plain_fields spec ! k)"
    and "f \<in> set (encrypted_fields spec) \<Longrightarrow> encrypted_field_ok f"
    and "is_ok (KeyLen (mcipher spec))"
    and "validate_padding (mpadding spec) (num_kind FieldPadLen (encrypted_fields spec)) = Inr ()"
  using assms by (simp_all add: validateMessage_iff)

lemma validate_padding_iff:
  "validate_padding p n = Inr () \<longleftrightarrow>
     (if pmode p = PaddingNone then n = 0
      else n = 1 \<and> pmode p \<in> {PaddingUniform, PaddingBurst} \<and> 0 \<le> pmin p \<and> pmin p \<le> pmax p)"
  by (auto simp: validate_padding_def)

lemma validateMessage_length_field:
  assumes "validateMessage spec = Inr ()" "i < length (plain_fields spec)"
  shows "fkind (plain_fields spec ! i) = FieldLength \<longleftrightarrow> int i = length_field_index spec"
proof
  assume "fkind (plain_fields spec ! i) = FieldLength"
  with assms show "int i = length_field_index spec"
    by (auto simp: validateMessage_iff plain_field_ok_def)
next
  assume i: "int i = length_field_index spec"
  from assms(1) have "num_kind FieldLength (plain_fields spec) \<noteq> 0" by (simp add: validateMessage_iff)
  then obtain j where j: "j < length (plain_fields spec)" "fkind (plain_fields spec ! j) = FieldLength"
    by (metis in_set_conv_nth num_kind_0_iff)
  with assms(1) have "length_field_index spec = int j"
    by (auto simp: validateMessage_iff plain_field_ok_def)
  with i j show "fkind (plain_fields spec ! i) = FieldLength" by simp
qed

section \<open>Generated layouts\<close>

text \<open>
  What the codec needs of an encrypted field beyond validation, so that a frame that was
  encoded can be decoded: keys have the size of their encoding, fixed sizes are positive, the
  content bounds of a prefixed field fit its prefix, integer fields have an endianness.
\<close>

definition encrypted_size_ok :: "field_spec \<Rightarrow> bool" where
  "encrypted_size_ok f \<longleftrightarrow>
     (case fkind f of
        FieldPadLen \<Rightarrow> fendian f \<in> {EndianBig, EndianLittle}
      | FieldKey \<Rightarrow> (fencoding f = EncRaw32 \<and> fsize f = 32) \<or> (fencoding f = EncX963 \<and> fsize f = 33)
      | _ \<Rightarrow> (case fencoding f of
                EncFixedBytes \<Rightarrow> 0 < fsize f
              | EncPrefixedU8 \<Rightarrow> 0 \<le> fmin_size f \<and> fmin_size f \<le> fmax_size f \<and> fmax_size f \<le> 255
              | EncPrefixedU16 \<Rightarrow> 0 \<le> fmin_size f \<and> fmin_size f \<le> fmax_size f \<and> fmax_size f \<le> 65535
              | _ \<Rightarrow> False))"

definition pad_fits :: "message_spec \<Rightarrow> bool" where
  "pad_fits spec \<longleftrightarrow>
     (\<forall>f \<in> set (encrypted_fields spec). fkind f = FieldPadLen \<longrightarrow>
        pmax (mpadding spec) < 256 ^ intWidth (fencoding f))"

definition plain_content_ok :: "field_spec \<Rightarrow> bool" where
  "plain_content_ok f \<longleftrightarrow>
     (case fkind f of
        FieldLength \<Rightarrow> 0 < intWidth (fencoding f) \<and> fendian f \<in> {EndianBig, EndianLittle}
      | FieldNonce \<Rightarrow> fencoding f = EncFixedBytes
      | FieldVersion \<Rightarrow> fencoding f = EncFixedBytes \<and>
          (\<exists>b. hex_decode (fvalue_hex f) = Some b \<and> int (length b) = fsize f)
      | FieldType \<Rightarrow> fencoding f = EncFixedBytes \<and>
          (\<exists>b. hex_decode (fvalue_hex f) = Some b \<and> int (length b) = fsize f)
      | FieldReserved \<Rightarrow> fencoding f = EncFixedBytes \<and>
          (fvalue_source f \<noteq> ValueRandom \<longrightarrow>
             (\<exists>b. hex_decode (fvalue_hex f) = Some b \<and> int (length b) = fsize f))
      | _ \<Rightarrow> False)"

definition layout_ok :: "message_spec \<Rightarrow> bool" where
  "layout_ok spec \<longleftrightarrow>
     validateMessage spec = Inr () \<and>
     (\<forall>f \<in> set (encrypted_fields spec). encrypted_size_ok f) \<and>
     pad_fits spec \<and>
     (\<forall>f \<in> set (plain_fields spec). plain_content_ok f)"

lemma layout_okD:
  assumes "layout_ok spec"
  shows "validateMessage spec = Inr ()"
    and "f \<in> set (encrypted_fields spec) \<Longrightarrow> encrypted_size_ok f"
    and "f \<in> set (plain_fields spec) \<Longrightarrow> plain_content_ok f"
    and "pad_fits spec"
  using assms by (auto simp: layout_ok_def)

end
