(* ===== verification/Codec.thy ===== *)
theory Codec
  imports Layout
begin

text \<open>
  The frame codec of \<open>internal/compiler/codec.go\<close>: integer fields, padding choice, the
  encoding and decoding of fields and whole frames, transport segmentation, stream framing
  (\<open>ReadFrame\<close>), the declared frame of a padded datagram (\<open>DeclaredFrame\<close>) and the
  in-order stream mode with its replay bitmap. The random source and the stream are
  \<open>reader\<close>s; a codec is a record that every operation returns updated.
\<close>

section \<open>Integers and random numbers\<close>

definition encodeInt :: "nat \<Rightarrow> encoding \<Rightarrow> endianness \<Rightarrow> bytes res" where
  "encodeInt v enc e =
     (let n = intWidth enc in
      if n = 0 then Inl ErrNotInteger
      else if n < 8 \<and> 2 ^ (8 * n) - 1 < v then Inl ErrDoesNotFit
      else case e of
             EndianBig \<Rightarrow> Inr (drop (8 - n) (be_bytes 8 v))
           | EndianLittle \<Rightarrow> Inr (take n (le_bytes 8 v))
           | EndianOther _ \<Rightarrow> Inl ErrEndian)"

definition decodeInt :: "bytes \<Rightarrow> encoding \<Rightarrow> endianness \<Rightarrow> nat res" where
  "decodeInt b enc e =
     (let n = intWidth enc in
      if n = 0 then Inl ErrNotInteger
      else if length b < n then Inl ErrTruncated
      else case e of
             EndianBig \<Rightarrow> Inr (be_nat (replicate (8 - n) 0 @ take n b))
           | EndianLittle \<Rightarrow> Inr (le_nat (take n b @ replicate (8 - n) 0))
           | EndianOther _ \<Rightarrow> Inl ErrEndian)"

definition randInt :: "reader \<Rightarrow> int \<Rightarrow> (int \<times> reader) res" where
  "randInt r n =
     (if n \<le> 0 then Inr (0, r)
      else res_bind (read_full 8 r) (\<lambda>(b, r'). Inr (int (be_nat b) mod n, r')))"

definition randIntRange :: "reader \<Rightarrow> int \<Rightarrow> int \<Rightarrow> (int \<times> reader) res" where
  "randIntRange r lo hi =
     (if hi \<le> lo then Inr (lo, r)
      else res_bind (randInt r (hi - lo + 1)) (\<lambda>(x, r'). Inr (lo + x, r')))"

fun choosePadding :: "padding_policy \<Rightarrow> reader \<Rightarrow> (int \<times> reader) res" where
  "choosePadding p r =
     (case pmode p of
        PaddingNone \<Rightarrow> Inr (0, r)
      | PaddingUniform \<Rightarrow> randIntRange r (pmin p) (pmax p)
      | PaddingBurst \<Rightarrow>
          res_bind (randInt r 100) (\<lambda>(x, r').
            if x < 20 then randIntRange r' (pmin p) (pmax p) else Inr (0, r'))
      | PaddingOther _ \<Rightarrow> Inl ErrPadding)"

declare choosePadding.simps [simp del]

section \<open>Codec state and decoded messages\<close>

record codec =
  cspec :: message_spec
  ckey :: bytes
  cseq :: nat
  seen_base :: nat
  seen_bits :: "64 word"
  packet_send :: nat
  packet_base :: nat
  packet_seen :: "64 word list"
  packet_mode :: bool
  shape_buckets :: "int list"

type_synonym field_value = "field_spec \<times> bytes"

record message =
  msg_spec :: message_spec
  msg_plain :: "field_value list"
  msg_encrypted :: "field_value list"
  msg_payload :: bytes

definition NewMessageCodec :: "message_spec \<Rightarrow> bytes \<Rightarrow> codec res" where
  "NewMessageCodec spec key =
     res_bind (validateMessage spec) (\<lambda>_.
     res_bind (KeyLen (mcipher spec)) (\<lambda>want.
       if length key \<noteq> want then Inl ErrKeySize
       else Inr \<lparr>cspec = spec, ckey = key, cseq = 0, seen_base = 0, seen_bits = 0,
                 packet_send = 0, packet_base = 0, packet_seen = replicate 128 0,
                 packet_mode = False, shape_buckets = []\<rparr>))"

text \<open>The AEAD nonce: message index, then sequence number.\<close>

definition nonceAt :: "codec \<Rightarrow> nat \<Rightarrow> bytes" where
  "nonceAt c seq = be_bytes 4 (nat (mindex (cspec c) mod 2 ^ 32)) @ be_bytes 8 seq"

definition nonce :: "codec \<Rightarrow> bytes" where
  "nonce c = nonceAt c (cseq c)"

section \<open>Encoding\<close>

text \<open>\<open>make([]byte, n)\<close> filled from the reader; a negative size panics.\<close>

definition read_int :: "int \<Rightarrow> reader \<Rightarrow> (bytes \<times> reader) res" where
  "read_int n r = (if n < 0 then Inl ErrPanic else read_full (nat n) r)"

type_synonym injection = "field_kind \<Rightarrow> bytes option"

definition encode_key :: "field_spec \<Rightarrow> bytes \<Rightarrow> bytes res" where
  "encode_key f raw =
     (case fencoding f of
        EncRaw32 \<Rightarrow> (if length raw \<noteq> 32 then Inl ErrKeySize else Inr raw)
      | EncX963 \<Rightarrow> (if length raw = 32 then Inr (4 # raw)
                   else if length raw = 33 then Inr raw
                   else Inl ErrKeySize)
      | _ \<Rightarrow> Inl ErrEncoding)"

definition encode_prefixed :: "field_spec \<Rightarrow> reader \<Rightarrow> (bytes \<times> reader) res" where
  "encode_prefixed f r =
     res_bind (if fmin_size f < fmax_size f
               then res_bind (randInt r (fmax_size f - fmin_size f + 1))
                      (\<lambda>(x, r1). Inr (fmin_size f + x, r1))
               else Inr (fmin_size f, r)) (\<lambda>(n, r1).
     res_bind (read_int n r1) (\<lambda>(b, r2).
       if fencoding f = EncPrefixedU8 then Inr (of_int n # b, r2)
       else Inr (be_bytes 2 (nat n) @ b, r2)))"

definition encodeEncryptedField ::
  "field_spec \<Rightarrow> int \<Rightarrow> injection \<Rightarrow> reader \<Rightarrow> (bytes \<times> reader) res" where
  "encodeEncryptedField f pad_len inject r =
     (case fkind f of
        FieldPadLen \<Rightarrow>
          res_bind (encodeInt (nat (pad_len mod 2 ^ 64)) (fencoding f) (fendian f)) (\<lambda>b. Inr (b, r))
      | FieldKey \<Rightarrow>
          res_bind (case inject (fkind f) of None \<Rightarrow> read_full 32 r | Some raw \<Rightarrow> Inr (raw, r))
            (\<lambda>(raw, r1). res_bind (encode_key f raw) (\<lambda>b. Inr (b, r1)))
      | _ \<Rightarrow>
          (case fencoding f of
             EncFixedBytes \<Rightarrow> read_int (fsize f) r
           | EncPrefixedU8 \<Rightarrow> encode_prefixed f r
           | EncPrefixedU16 \<Rightarrow> encode_prefixed f r
           | _ \<Rightarrow> Inl ErrEncoding))"

fun encode_encrypted :: "field_spec list \<Rightarrow> int \<Rightarrow> injection \<Rightarrow> reader \<Rightarrow> (bytes \<times> reader) res" where
  "encode_encrypted [] pad_len inject r = Inr ([], r)"
| "encode_encrypted (f # fs) pad_len inject r =
     res_bind (encodeEncryptedField f pad_len inject r) (\<lambda>(b, r1).
     res_bind (encode_encrypted fs pad_len inject r1) (\<lambda>(bs, r2). Inr (b @ bs, r2)))"

definition encode_plain_value ::
  "message_spec \<Rightarrow> nat \<Rightarrow> field_spec \<Rightarrow> nat \<Rightarrow> nat \<Rightarrow> reader \<Rightarrow> (bytes \<times> reader) res" where
  "encode_plain_value spec i f frame_len ct_len r =
     (if int i = length_field_index spec then
        res_bind (encodeInt (if fsubject f = SubjectRecord then frame_len else ct_len)
                    (fencoding f) (fendian f)) (\<lambda>b. Inr (b, r))
      else case fkind f of
             FieldVersion \<Rightarrow> res_bind (of_option ErrHex (hex_decode (fvalue_hex f))) (\<lambda>b. Inr (b, r))
           | FieldType \<Rightarrow> res_bind (of_option ErrHex (hex_decode (fvalue_hex f))) (\<lambda>b. Inr (b, r))
           | FieldNonce \<Rightarrow> read_int (fsize f) r
           | FieldReserved \<Rightarrow>
               (if fvalue_source f = ValueRandom then read_int (fsize f) r
                else res_bind (of_option ErrHex (hex_decode (fvalue_hex f))) (\<lambda>b. Inr (b, r)))
           | _ \<Rightarrow> Inl ErrPlainKind)"

fun encode_plain ::
  "message_spec \<Rightarrow> field_spec list \<Rightarrow> nat \<Rightarrow> nat \<Rightarrow> nat \<Rightarrow> reader \<Rightarrow> (bytes \<times> reader) res" where
  "encode_plain spec [] i frame_len ct_len r = Inr ([], r)"
| "encode_plain spec (f # fs) i frame_len ct_len r =
     res_bind (encode_plain_value spec i f frame_len ct_len r) (\<lambda>(b, r1).
     res_bind (fixedSize f) (\<lambda>n.
       if int (length b) \<noteq> n then Inl ErrFieldSize
       else res_bind (encode_plain spec fs (Suc i) frame_len ct_len r1)
              (\<lambda>(bs, r2). Inr (b @ bs, r2))))"

definition encodePlainFields ::
  "message_spec \<Rightarrow> nat \<Rightarrow> nat \<Rightarrow> reader \<Rightarrow> (bytes \<times> reader) res" where
  "encodePlainFields spec frame_len ct_len r =
     encode_plain spec (plain_fields spec) 0 frame_len ct_len r"

definition gcmTagSize :: nat where
  "gcmTagSize = 16"

text \<open>\<open>[fields before length][length][fields after length, ciphertext]\<close>\<close>

fun split_at :: "message_spec \<Rightarrow> bytes \<Rightarrow> field_spec list \<Rightarrow> nat \<Rightarrow> nat \<Rightarrow> bytes list" where
  "split_at spec frame [] i before = [frame]"
| "split_at spec frame (f # fs) i before =
     (let n = size_or_0 f in
      if int i = length_field_index spec then
        (if 0 < before then [take before frame] else []) @
        [take n (drop before frame), drop (before + n) frame]
      else split_at spec frame fs (Suc i) (before + n))"

definition splitSegments :: "bytes \<Rightarrow> message_spec \<Rightarrow> bytes list" where
  "splitSegments frame spec =
     (if \<not> length_alone spec \<or> length_field_index spec < 0 then [frame]
      else split_at spec frame (plain_fields spec) 0 0)"

definition Encode ::
  "crypto \<Rightarrow> codec \<Rightarrow> bytes \<Rightarrow> injection \<Rightarrow> reader \<Rightarrow> (bytes \<times> bytes list \<times> codec \<times> reader) res" where
  "Encode C c payload inject rnd =
     (let spec = cspec c in
      if \<not> has_payload spec \<and> payload \<noteq> [] then Inl ErrPayload
      else
        res_bind (choosePadding (mpadding spec) rnd) (\<lambda>(pad_len, r1).
        res_bind (encode_encrypted (encrypted_fields spec) pad_len inject r1) (\<lambda>(body, r2).
        res_bind (if 0 < pad_len then read_full (nat pad_len) r2 else Inr ([], r2)) (\<lambda>(pad, r3).
          let pt = body @ payload @ pad;
              ct_len = length pt + gcmTagSize;
              frame_len = plainFieldsSize spec + ct_len in
          res_bind (encodePlainFields spec frame_len ct_len r3) (\<lambda>(plain, r4).
            let ct = aead_seal C (mcipher spec) (ckey c) (nonce c) pt plain in
            if length ct \<noteq> ct_len then Inl ErrLengthMismatch
            else Inr (plain @ ct, splitSegments (plain @ ct) spec,
                      c\<lparr>cseq := w64 (cseq c + 1)\<rparr>, r4))))))"

section \<open>Decoding\<close>

definition decodeEncryptedField :: "field_spec \<Rightarrow> bytes \<Rightarrow> (bytes \<times> nat) res" where
  "decodeEncryptedField f buf =
     (if 0 < intWidth (fencoding f) then
        (let n = intWidth (fencoding f) in
         if length buf < n then Inl ErrTruncated else Inr (take n buf, n))
      else case fencoding f of
             EncPrefixedU8 \<Rightarrow>
               (if length buf < 1 then Inl ErrTruncated
                else let n = unat (buf ! 0) in
                     if length buf < 1 + n then Inl ErrTruncated
                     else Inr (take n (drop 1 buf), 1 + n))
           | EncPrefixedU16 \<Rightarrow>
               (if length buf < 2 then Inl ErrTruncated
                else let n = be_nat (take 2 buf) in
                     if length buf < 2 + n then Inl ErrTruncated
                     else Inr (take n (drop 2 buf), 2 + n))
           | EncOther _ \<Rightarrow> Inl ErrEncoding
           | _ \<comment> \<open>fixed bytes, raw32, x963\<close> \<Rightarrow>
               (if fsize f \<le> 0 then Inl ErrFieldSize
                else if int (length buf) < fsize f then Inl ErrTruncated
                else Inr (take (nat (fsize f)) buf, nat (fsize f))))"

fun decode_plain ::
  "message_spec \<Rightarrow> bytes \<Rightarrow> field_spec list \<Rightarrow> nat \<Rightarrow> nat \<Rightarrow> (field_value list \<times> nat \<times> nat option) res" where
  "decode_plain spec frame [] i off = Inr ([], off, None)"
| "decode_plain spec frame (f # fs) i off =
     res_bind (fixedSize f) (\<lambda>n.
       if length frame < off + nat n then Inl ErrTruncated
       else let v = take (nat n) (drop off frame) in
            res_bind (if int i = length_field_index spec
                      then res_bind (decodeInt v (fencoding f) (fendian f)) (\<lambda>lv. Inr (Some lv))
                      else Inr None) (\<lambda>d.
            res_bind (decode_plain spec frame fs (Suc i) (off + nat n)) (\<lambda>(vs, off', d').
              Inr ((f, v) # vs, off', (case d of None \<Rightarrow> d' | Some lv \<Rightarrow> Some lv)))))"

fun decode_encrypted :: "field_spec list \<Rightarrow> bytes \<Rightarrow> nat \<Rightarrow> (field_value list \<times> nat) res" where
  "decode_encrypted [] pt eo = Inr ([], eo)"
| "decode_encrypted (f # fs) pt eo =
     res_bind (decodeEncryptedField f (drop eo pt)) (\<lambda>(b, n).
     res_bind (decode_encrypted fs pt (eo + n)) (\<lambda>(vs, eo'). Inr ((f, b) # vs, eo')))"

definition check_length :: "message_spec \<Rightarrow> nat option \<Rightarrow> nat \<Rightarrow> nat \<Rightarrow> unit res" where
  "check_length spec declared ct_len frame_len =
     (case declared of
        None \<Rightarrow> Inr ()
      | Some lv \<Rightarrow>
          (case fsubject (plain_fields spec ! nat (length_field_index spec)) of
             SubjectCiphertext \<Rightarrow> (if go_int lv \<noteq> int ct_len then Inl ErrLengthMismatch else Inr ())
           | SubjectRecord \<Rightarrow> (if go_int lv \<noteq> int frame_len then Inl ErrLengthMismatch else Inr ())
           | SubjectOther _ \<Rightarrow> Inl ErrLengthSubject))"

fun find_field :: "field_kind \<Rightarrow> field_value list \<Rightarrow> field_value option" where
  "find_field k [] = None"
| "find_field k (fv # fvs) = (if fkind (fst fv) = k then Some fv else find_field k fvs)"

definition Find :: "message \<Rightarrow> field_kind \<Rightarrow> field_value option" where
  "Find m k = (case find_field k (msg_plain m) of
                 Some fv \<Rightarrow> Some fv
               | None \<Rightarrow> find_field k (msg_encrypted m))"

definition Uint :: "field_value \<Rightarrow> nat" where
  "Uint fv = (case decodeInt (snd fv) (fencoding (fst fv)) (fendian (fst fv)) of
                Inl _ \<Rightarrow> 0 | Inr v \<Rightarrow> v)"

definition decodeAt :: "crypto \<Rightarrow> codec \<Rightarrow> bytes \<Rightarrow> bytes \<Rightarrow> message res" where
  "decodeAt C c frame nonce_bytes =
     (let spec = cspec c in
      if length frame < plainFieldsSize spec then Inl ErrTruncated
      else
        res_bind (decode_plain spec frame (plain_fields spec) 0 0) (\<lambda>(plain, off, declared).
          let raw_plain = take off frame; ct = drop off frame in
          res_bind (check_length spec declared (length ct) (length frame)) (\<lambda>_.
          res_bind (of_option ErrAuth (aead_open C (mcipher spec) (ckey c) nonce_bytes ct raw_plain))
            (\<lambda>pt.
          res_bind (decode_encrypted (encrypted_fields spec) pt 0) (\<lambda>(encrypted, eo).
            let m = \<lparr>msg_spec = spec, msg_plain = plain, msg_encrypted = encrypted, msg_payload = []\<rparr>;
                pad_len = (case Find m FieldPadLen of None \<Rightarrow> 0 | Some fv \<Rightarrow> Uint fv) in
            if length pt < eo + pad_len then Inl ErrPadding
            else let payload_len = length pt - eo - pad_len in
                 if \<not> has_payload spec \<and> payload_len \<noteq> 0 then Inl ErrPayload
                 else Inr (m\<lparr>msg_payload := take payload_len (drop eo pt)\<rparr>))))))"

section \<open>Stream mode\<close>

text \<open>\<open>seenWindow.observe\<close>: the 64 entry replay bitmap of in-order receives.\<close>

definition observe :: "codec \<Rightarrow> nat \<Rightarrow> bool \<times> codec" where
  "observe c seq =
     (if seq < seen_base c then (False, c)
      else let off = seq - seen_base c in
           if 64 \<le> off then (True, c\<lparr>seen_base := seq, seen_bits := 1\<rparr>)
           else if seen_bits c AND push_bit off 1 \<noteq> 0 then (False, c)
           else (True, c\<lparr>seen_bits := seen_bits c OR push_bit off 1\<rparr>))"

text \<open>
  After a fresh frame the bitmap slides over its leading ones. A 64 bit word has at most 64
  of them, so 64 rounds of fuel always suffice (\<open>slide_enough\<close> below).
\<close>

fun slide :: "nat \<Rightarrow> codec \<Rightarrow> codec" where
  "slide 0 c = c"
| "slide (Suc fuel) c =
     (if seen_bits c AND 1 \<noteq> 0 \<and> seen_base c \<le> cseq c
      then slide fuel (c\<lparr>seen_bits := drop_bit 1 (seen_bits c),
                         seen_base := w64 (seen_base c + 1), cseq := w64 (cseq c + 1)\<rparr>)
      else c)"

text \<open>The probe loop: the first sequence number of the window under which the frame opens.\<close>

fun probe_stream :: "crypto \<Rightarrow> codec \<Rightarrow> bytes \<Rightarrow> nat list \<Rightarrow> (message \<times> codec) res" where
  "probe_stream C c frame [] = Inl ErrAuth"
| "probe_stream C c frame (probe # probes) =
     (case decodeAt C c frame (nonceAt c probe) of
        Inl _ \<Rightarrow> probe_stream C c frame probes
      | Inr msg \<Rightarrow>
          (case observe c probe of
             (False, _) \<Rightarrow> Inl ErrReplay
           | (True, c') \<Rightarrow> Inr (msg, slide 64 c')))"

definition Decode :: "crypto \<Rightarrow> codec \<Rightarrow> bytes \<Rightarrow> (message \<times> codec) res" where
  "Decode C c frame = probe_stream C c frame [cseq c ..< w64 (cseq c + 64)]"

section \<open>Stream framing\<close>

fun read_plain ::
  "message_spec \<Rightarrow> field_spec list \<Rightarrow> nat \<Rightarrow> reader \<Rightarrow> (bytes \<times> nat option \<times> reader) res" where
  "read_plain spec [] i r = Inr ([], None, r)"
| "read_plain spec (f # fs) i r =
     res_bind (fixedSize f) (\<lambda>n.
     res_bind (read_full (nat n) r) (\<lambda>(b, r1).
     res_bind (if int i = length_field_index spec
               then res_bind (decodeInt b (fencoding f) (fendian f)) (\<lambda>v. Inr (Some v))
               else Inr None) (\<lambda>d.
     res_bind (read_plain spec fs (Suc i) r1) (\<lambda>(bs, d', r2).
       Inr (b @ bs, (case d of None \<Rightarrow> d' | Some v \<Rightarrow> Some v), r2)))))"

definition ReadFrame :: "reader \<Rightarrow> message_spec \<Rightarrow> (bytes \<times> reader) res" where
  "ReadFrame r spec =
     res_bind (read_plain spec (plain_fields spec) 0 r) (\<lambda>(head, declared, r1).
       case declared of
         None \<Rightarrow> Inl ErrNoLengthField
       | Some v \<Rightarrow>
           res_bind (case fsubject (plain_fields spec ! nat (length_field_index spec)) of
                       SubjectCiphertext \<Rightarrow> Inr (go_int v)
                     | SubjectRecord \<Rightarrow> Inr (go_int v - int (length head))
                     | SubjectOther _ \<Rightarrow> Inl ErrLengthSubject) (\<lambda>rest.
             if rest < 0 \<or> 2 ^ 26 < rest then Inl ErrTooLarge
             else res_bind (read_full (nat rest) r1) (\<lambda>(restb, r2). Inr (head @ restb, r2))))"

fun declared_plain ::
  "message_spec \<Rightarrow> bytes \<Rightarrow> field_spec list \<Rightarrow> nat \<Rightarrow> nat \<Rightarrow> (nat \<times> (nat \<times> length_subject) option) res" where
  "declared_plain spec frame [] i off = Inr (off, None)"
| "declared_plain spec frame (f # fs) i off =
     res_bind (fixedSize f) (\<lambda>n.
       if length frame < off + nat n then Inl ErrTruncated
       else res_bind (if int i = length_field_index spec
                      then res_bind (decodeInt (take (nat n) (drop off frame)) (fencoding f) (fendian f))
                             (\<lambda>lv. Inr (Some (lv, fsubject f)))
                      else Inr None) (\<lambda>d.
            res_bind (declared_plain spec frame fs (Suc i) (off + nat n)) (\<lambda>(off', d').
              Inr (off', (case d of None \<Rightarrow> d' | Some x \<Rightarrow> Some x)))))"

definition DeclaredFrame :: "message_spec \<Rightarrow> bytes \<Rightarrow> bytes res" where
  "DeclaredFrame spec frame =
     res_bind (declared_plain spec frame (plain_fields spec) 0 0) (\<lambda>(off, declared).
       case declared of
         None \<Rightarrow> Inr frame
       | Some (lv, subject) \<Rightarrow>
           res_bind (case subject of
                       SubjectCiphertext \<Rightarrow> Inr (int off + go_int lv)
                     | SubjectRecord \<Rightarrow> Inr (go_int lv)
                     | SubjectOther _ \<Rightarrow> Inl ErrLengthSubject) (\<lambda>n.
             if n < int off \<or> int (length frame) < n then Inl ErrLengthMismatch
             else if n = int (length frame) then Inr frame
             else Inr (take (nat n) frame)))"

end
