(* ===== verification/Codec_Fields.thy ===== *)
theory Codec_Fields
  imports Codec
begin

text \<open>
  Field-level facts of the codec: integer fields round-trip, random choices stay in range,
  every encoded encrypted field is a well-formed image that decodes to its content and leaves
  the rest of the buffer, and the three loops over the plaintext section (decode, stream read,
  declared length) all recover what \<open>encodePlainFields\<close> wrote.
\<close>

section \<open>Integers\<close>

lemma encodeInt_InrD:
  assumes "encodeInt v enc e = Inr b"
  shows "length b = intWidth enc" and "v < 256 ^ intWidth enc" and "0 < intWidth enc"
    and "e \<in> {EndianBig, EndianLittle}"
proof -
  have le: "intWidth enc \<le> 8" using intWidth_le_4 [of enc] by simp
  from assms have n: "0 < intWidth enc" and v: "v \<le> 2 ^ (8 * intWidth enc) - 1"
    using intWidth_le_4 [of enc]
    by (auto simp: encodeInt_def Let_def not_less split: endianness.splits)
  from assms le show "length b = intWidth enc"
    by (auto simp: encodeInt_def Let_def split: endianness.splits)
  have "(256 :: nat) ^ intWidth enc = 2 ^ (8 * intWidth enc)" by (simp add: power_mult)
  moreover have "0 < (2 :: nat) ^ (8 * intWidth enc)" by simp
  ultimately show "v < 256 ^ intWidth enc" using v by linarith
  show "0 < intWidth enc" by (fact n)
  from assms show "e \<in> {EndianBig, EndianLittle}"
    by (auto simp: encodeInt_def Let_def split: endianness.splits)
qed

lemma encodeInt_ok:
  assumes "0 < intWidth enc" "v < 256 ^ intWidth enc" "e \<in> {EndianBig, EndianLittle}"
  shows "encodeInt v enc e =
    Inr (if e = EndianBig then be_bytes (intWidth enc) v else le_bytes (intWidth enc) v)"
proof -
  have "v \<le> 2 ^ (8 * intWidth enc) - 1"
    using assms(2) by (simp add: power_mult)
  moreover have "intWidth enc \<le> 8" using intWidth_le_4 [of enc] by simp
  ultimately show ?thesis
    using assms(1,3) by (auto simp: encodeInt_def Let_def drop_be_bytes take_le_bytes)
qed

lemma decodeInt_encodeInt:
  assumes "encodeInt v enc e = Inr b"
  shows "decodeInt (b @ rest) enc e = Inr v"
proof -
  note D = encodeInt_InrD [OF assms]
  from D(1) have b: "take (intWidth enc) (b @ rest) = b" by simp
  have eq: "b = (if e = EndianBig then be_bytes (intWidth enc) v else le_bytes (intWidth enc) v)"
    using assms encodeInt_ok [OF D(3,2,4)] by simp
  show ?thesis
    using D(1,3,4) b eq D(2)
    by (auto simp: decodeInt_def Let_def be_nat_def be_bytes_def le_nat_append)
qed

lemma decodeInt_encodeInt_self: "encodeInt v enc e = Inr b \<Longrightarrow> decodeInt b enc e = Inr v"
  using decodeInt_encodeInt [of v enc e b "[]"] by simp

lemma encodeInt_small: "encodeInt v enc e = Inr b \<Longrightarrow> v < 2 ^ 63"
proof -
  assume "encodeInt v enc e = Inr b"
  then have "v < 256 ^ intWidth enc" by (rule encodeInt_InrD)
  also have "\<dots> \<le> (256 :: nat) ^ 4" by (rule power_increasing [OF intWidth_le_4]) simp
  finally show ?thesis by simp
qed

text \<open>A decoded integer field re-encodes to the same bytes.\<close>

lemma encodeInt_decodeInt:
  assumes "decodeInt b enc e = Inr v" "length b = intWidth enc"
  shows "encodeInt v enc e = Inr b"
proof -
  from assms have n: "0 < intWidth enc" and e: "e \<in> {EndianBig, EndianLittle}"
    by (auto simp: decodeInt_def Let_def split: endianness.splits if_splits)
  from assms e have v: "v = (if e = EndianBig then be_nat b else le_nat b)"
    by (auto simp: decodeInt_def Let_def be_nat_def le_nat_append split: if_splits)
  have "v < 256 ^ intWidth enc"
    using be_nat_bound [of b] le_nat_bound [of b] by (simp add: v assms(2))
  from encodeInt_ok [OF n this e] show ?thesis
    using v be_bytes_be_nat [of b] le_bytes_le_nat [of b] by (simp add: assms(2))
qed

section \<open>Random choices\<close>

lemma randInt_range:
  assumes "randInt r n = Inr (x, r')" "0 < n"
  shows "0 \<le> x \<and> x < n"
  using assms by (auto simp: randInt_def)

lemma randIntRange_range:
  assumes "randIntRange r lo hi = Inr (x, r')" "lo \<le> hi"
  shows "lo \<le> x \<and> x \<le> hi"
  using assms by (auto simp: randIntRange_def split: if_splits dest!: randInt_range)

lemma choosePadding_range:
  assumes "choosePadding p r = Inr (x, r')" "pmode p \<noteq> PaddingNone \<Longrightarrow> 0 \<le> pmin p \<and> pmin p \<le> pmax p"
  shows "0 \<le> x" and "pmode p \<noteq> PaddingNone \<Longrightarrow> x \<le> pmax p" and "pmode p = PaddingNone \<Longrightarrow> x = 0"
  using assms
  by (auto simp: choosePadding.simps split: padding_mode.splits if_splits
      dest!: randIntRange_range)

section \<open>Encrypted fields\<close>

text \<open>
  The well-formed images of a field: what stands in the plaintext body for it, and the content
  a decoder returns.
\<close>

definition field_image :: "field_spec \<Rightarrow> bytes \<Rightarrow> bool" where
  "field_image f b \<longleftrightarrow>
     (if 0 < intWidth (fencoding f) then length b = intWidth (fencoding f)
      else case fencoding f of
             EncPrefixedU8 \<Rightarrow> b \<noteq> [] \<and> length b = 1 + unat (b ! 0)
           | EncPrefixedU16 \<Rightarrow> 2 \<le> length b \<and> length b = 2 + be_nat (take 2 b)
           | EncOther _ \<Rightarrow> False
           | _ \<Rightarrow> 0 < fsize f \<and> int (length b) = fsize f)"

definition field_content :: "field_spec \<Rightarrow> bytes \<Rightarrow> bytes" where
  "field_content f b =
     (case fencoding f of EncPrefixedU8 \<Rightarrow> drop 1 b | EncPrefixedU16 \<Rightarrow> drop 2 b | _ \<Rightarrow> b)"

lemma decodeEncryptedField_image:
  assumes "field_image f b"
  shows "decodeEncryptedField f (b @ rest) = Inr (field_content f b, length b)"
proof (cases "fencoding f")
  case EncPrefixedU8
  with assms obtain x xs where "b = x # xs" "length xs = unat x"
    by (cases b) (auto simp: field_image_def)
  with EncPrefixedU8 show ?thesis by (simp add: decodeEncryptedField_def field_content_def)
next
  case EncPrefixedU16
  with assms have l: "2 \<le> length b" "length b = 2 + be_nat (take 2 b)"
    by (auto simp: field_image_def)
  from l(2) have n: "be_nat (take 2 b) = length b - 2" by linarith
  show ?thesis
    using l(1) by (simp add: EncPrefixedU16 decodeEncryptedField_def field_content_def Let_def n) linarith
qed (use assms in \<open>auto simp: decodeEncryptedField_def field_image_def field_content_def\<close>)

lemma decodeEncryptedField_imageD:
  assumes "decodeEncryptedField f buf = Inr (v, n)"
  shows "n \<le> length buf \<and> field_image f (take n buf) \<and> v = field_content f (take n buf)"
proof (cases "fencoding f")
  case EncPrefixedU8
  with assms show ?thesis
    by (cases buf) (auto simp: decodeEncryptedField_def field_image_def field_content_def Let_def split: if_splits)
next
  case EncPrefixedU16
  with assms have "2 \<le> length buf" "n = 2 + be_nat (take 2 buf)" "n \<le> length buf"
    "v = take (be_nat (take 2 buf)) (drop 2 buf)"
    by (auto simp: decodeEncryptedField_def Let_def split: if_splits)
  with EncPrefixedU16 show ?thesis
    by (auto simp: field_image_def field_content_def take_drop add.commute min_def)
next
  case EncU8
  with assms show ?thesis
    by (cases buf) (auto simp: decodeEncryptedField_def field_image_def field_content_def split: if_splits)
qed (use assms in \<open>auto simp: decodeEncryptedField_def field_image_def field_content_def Let_def split: if_splits\<close>)

lemma encode_prefixed_image:
  assumes "encode_prefixed f r = Inr (b, r')" "encrypted_size_ok f" "fkind f \<notin> {FieldPadLen, FieldKey}"
    "fencoding f \<in> {EncPrefixedU8, EncPrefixedU16}"
  shows "field_image f b"
proof -
  from assms(2-4) have bound: "0 \<le> fmin_size f" "fmin_size f \<le> fmax_size f"
    "fencoding f = EncPrefixedU8 \<longrightarrow> fmax_size f \<le> 255" "fmax_size f \<le> 65535"
    by (auto simp: encrypted_size_ok_def split: field_kind.splits encoding.splits)
  from assms(1) obtain n r1 c r2 where
    pick: "(if fmin_size f < fmax_size f
            then res_bind (randInt r (fmax_size f - fmin_size f + 1)) (\<lambda>(x, r1). Inr (fmin_size f + x, r1))
            else Inr (fmin_size f, r)) = Inr (n, r1)"
    and rd: "read_int n r1 = Inr (c, r2)"
    and b: "b = (if fencoding f = EncPrefixedU8 then of_int n # c else be_bytes 2 (nat n) @ c)"
    unfolding encode_prefixed_def by (auto split: if_splits)
  from rd have c: "length c = nat n" by (auto simp: read_int_def read_full_Inr_iff)
  from pick bound(2) have n: "fmin_size f \<le> n" "n \<le> fmax_size f"
    by (auto split: if_splits dest!: randInt_range)
  show ?thesis
  proof (cases "fencoding f = EncPrefixedU8")
    case True
    have "unat (of_int n :: byte) = nat n"
      using n bound True by (simp add: unat_eq_nat_uint uint_word_of_int)
    with True b c show ?thesis by (simp add: field_image_def)
  next
    case False
    with assms(4) have "fencoding f = EncPrefixedU16" by simp
    moreover have "nat n < 256 ^ 2" using n bound by simp
    ultimately show ?thesis using b c False by (simp add: field_image_def)
  qed
qed

lemma encodeEncryptedField_other:
  assumes "fkind f \<notin> {FieldPadLen, FieldKey}" "encrypted_size_ok f"
    "encodeEncryptedField f pad_len inject r = Inr (b, r')"
  shows "field_image f b"
proof -
  from assms(3,1) consider
      (fixed) "fencoding f = EncFixedBytes" "read_int (fsize f) r = Inr (b, r')"
    | (pre) "fencoding f \<in> {EncPrefixedU8, EncPrefixedU16}" "encode_prefixed f r = Inr (b, r')"
    by (cases "fencoding f") (simp_all add: encodeEncryptedField_def split: field_kind.splits)
  then show ?thesis
  proof cases
    case fixed
    with assms(1,2) have "0 < fsize f" by (cases "fkind f") (auto simp: encrypted_size_ok_def)
    with fixed show ?thesis by (auto simp: read_int_def read_full_Inr_iff field_image_def)
  next
    case pre
    with assms show ?thesis by (blast intro: encode_prefixed_image)
  qed
qed

lemma encodeEncryptedField_image:
  assumes "encodeEncryptedField f pad_len inject r = Inr (b, r')"
    "encrypted_size_ok f" "encrypted_field_ok f"
  shows "field_image f b"
proof (cases "fkind f")
  case FieldPadLen
  with assms show ?thesis
    by (auto simp: encodeEncryptedField_def field_image_def dest: encodeInt_InrD)
next
  case FieldKey
  with assms show ?thesis
    by (auto simp: encodeEncryptedField_def encode_key_def field_image_def encrypted_size_ok_def
        split: option.splits if_splits)
qed (use assms encodeEncryptedField_other [of f] in auto)

end
