(* ===== verification/Codec_Frames.thy ===== *)
theory Codec_Frames
  imports Codec_Fields
begin

text \<open>
  Frame-level facts of the codec: a frame that was encoded decodes to its payload and key
  material, its transport segments are the frame, a stream reader and a datagram receiver find
  its end whatever follows it, and encoding succeeds whenever the random source is long
  enough. \<open>frame_of\<close> is the shape every encoder of the program gives a frame.
\<close>

section \<open>The plaintext section\<close>

fun declared_value :: "message_spec \<Rightarrow> field_spec list \<Rightarrow> nat \<Rightarrow> nat \<Rightarrow> nat \<Rightarrow> nat option" where
  "declared_value spec [] i fl cl = None"
| "declared_value spec (f # fs) i fl cl =
     (if int i = length_field_index spec
      then Some (if fsubject f = SubjectRecord then fl else cl)
      else declared_value spec fs (Suc i) fl cl)"

fun declared_subject :: "message_spec \<Rightarrow> field_spec list \<Rightarrow> nat \<Rightarrow> length_subject option" where
  "declared_subject spec [] i = None"
| "declared_subject spec (f # fs) i =
     (if int i = length_field_index spec then Some (fsubject f) else declared_subject spec fs (Suc i))"

lemma declared_value_nth:
  assumes "k < length fs" "length_field_index spec = int (i + k)"
  shows "declared_value spec fs i fl cl =
    Some (if fsubject (fs ! k) = SubjectRecord then fl else cl)"
  using assms
proof (induction fs arbitrary: i k)
  case (Cons f fs)
  show ?case
  proof (cases k)
    case 0
    with Cons.prems show ?thesis by simp
  next
    case (Suc j)
    with Cons.prems Cons.IH [of j "Suc i"] show ?thesis by simp
  qed
qed simp

lemma declared_subject_nth:
  assumes "k < length fs" "length_field_index spec = int (i + k)"
  shows "declared_subject spec fs i = Some (fsubject (fs ! k))"
  using assms
proof (induction fs arbitrary: i k)
  case (Cons f fs)
  show ?case
  proof (cases k)
    case 0
    with Cons.prems show ?thesis by simp
  next
    case (Suc j)
    with Cons.prems Cons.IH [of j "Suc i"] show ?thesis by simp
  qed
qed simp

text \<open>One field: what the encoder wrote is what the three readers take.\<close>

lemma encode_plain_ConsE:
  assumes "encode_plain spec (f # fs) i fl cl r = Inr (bs, r')"
  obtains b r1 cs where "encode_plain_value spec i f fl cl r = Inr (b, r1)"
    "fixedSize f = Inr (int (length b))" "encode_plain spec fs (Suc i) fl cl r1 = Inr (cs, r')"
    "bs = b @ cs"
  using assms by (auto split: if_splits)

lemma encode_plain_value_declared:
  assumes "encode_plain_value spec i f fl cl r = Inr (b, r1)" "int i = length_field_index spec"
  shows "decodeInt b (fencoding f) (fendian f) = Inr (if fsubject f = SubjectRecord then fl else cl)"
  using assms by (auto simp: encode_plain_value_def dest: decodeInt_encodeInt_self)

lemma encode_plain_length:
  assumes "encode_plain spec fs i fl cl r = Inr (bs, r')"
  shows "length bs = sum_list (map size_or_0 fs)"
  using assms
proof (induction fs arbitrary: i r bs)
  case (Cons f fs)
  from Cons.prems show ?case by (rule encode_plain_ConsE) (auto dest: Cons.IH)
qed simp

lemma encode_plain_decode_plain:
  assumes "encode_plain spec fs i fl cl r = Inr (bs, r')"
  shows "\<exists>vs. map fst vs = fs \<and> (\<forall>pre rest. decode_plain spec (pre @ bs @ rest) fs i (length pre) =
    Inr (vs, length pre + length bs, declared_value spec fs i fl cl))"
  using assms
proof (induction fs arbitrary: i r bs)
  case (Cons f fs)
  from Cons.prems obtain b r1 cs where
    b: "encode_plain_value spec i f fl cl r = Inr (b, r1)" and
    sz: "fixedSize f = Inr (int (length b))" and
    cs: "encode_plain spec fs (Suc i) fl cl r1 = Inr (cs, r')" and bs: "bs = b @ cs"
    by (rule encode_plain_ConsE)
  from Cons.IH [OF cs] obtain vs where vs: "map fst vs = fs"
    and dec: "\<And>pre rest. decode_plain spec (pre @ cs @ rest) fs (Suc i) (length pre) =
      Inr (vs, length pre + length cs, declared_value spec fs (Suc i) fl cl)" by blast
  have "decode_plain spec (pre @ bs @ rest) (f # fs) i (length pre) =
      Inr ((f, b) # vs, length pre + length bs, declared_value spec (f # fs) i fl cl)" for pre rest
    using sz dec [of "pre @ b" rest] encode_plain_value_declared [OF b]
    by (simp add: bs add.assoc)
  with vs show ?case by (intro exI [of _ "(f, b) # vs"]) simp
qed simp

lemma encode_plain_read_plain:
  assumes "encode_plain spec fs i fl cl r = Inr (bs, r')"
  shows "read_plain spec fs i (bs @ rest) = Inr (bs, declared_value spec fs i fl cl, rest)"
  using assms
proof (induction fs arbitrary: i r bs)
  case (Cons f fs)
  from Cons.prems obtain b r1 cs where
    b: "encode_plain_value spec i f fl cl r = Inr (b, r1)" and
    sz: "fixedSize f = Inr (int (length b))" and
    cs: "encode_plain spec fs (Suc i) fl cl r1 = Inr (cs, r')" and bs: "bs = b @ cs"
    by (rule encode_plain_ConsE)
  show ?case
    using sz Cons.IH [OF cs] encode_plain_value_declared [OF b] by (simp add: bs)
qed simp

lemma encode_plain_declared_plain:
  assumes "encode_plain spec fs i fl cl r = Inr (bs, r')"
  shows "declared_plain spec (pre @ bs @ rest) fs i (length pre) = Inr (length pre + length bs,
    (case declared_value spec fs i fl cl of None \<Rightarrow> None
     | Some v \<Rightarrow> Some (v, the (declared_subject spec fs i))))"
  using assms
proof (induction fs arbitrary: i r bs pre)
  case (Cons f fs)
  from Cons.prems obtain b r1 cs where
    b: "encode_plain_value spec i f fl cl r = Inr (b, r1)" and
    sz: "fixedSize f = Inr (int (length b))" and
    cs: "encode_plain spec fs (Suc i) fl cl r1 = Inr (cs, r')" and bs: "bs = b @ cs"
    by (rule encode_plain_ConsE)
  show ?case
    using sz Cons.IH [OF cs, of "pre @ b"] encode_plain_value_declared [OF b]
    by (simp add: bs add.assoc split: option.split)
qed simp

section \<open>The encrypted section\<close>

lemma encode_encrypted_images:
  assumes "encode_encrypted fs pad_len inject r = Inr (bs, r')"
    "\<forall>f \<in> set fs. encrypted_size_ok f \<and> encrypted_field_ok f"
  shows "\<exists>imgs. bs = concat imgs \<and> list_all2 field_image fs imgs \<and>
    list_all2 (\<lambda>f b. \<exists>r1 r2. encodeEncryptedField f pad_len inject r1 = Inr (b, r2)) fs imgs"
  using assms
proof (induction fs arbitrary: r bs)
  case (Cons f fs)
  from Cons.prems(1) obtain b r1 cs where b: "encodeEncryptedField f pad_len inject r = Inr (b, r1)"
    and cs: "encode_encrypted fs pad_len inject r1 = Inr (cs, r')" and bs: "bs = b @ cs" by auto
  from Cons.IH [OF cs] Cons.prems(2) obtain imgs where "cs = concat imgs" "list_all2 field_image fs imgs"
    "list_all2 (\<lambda>f b. \<exists>r1 r2. encodeEncryptedField f pad_len inject r1 = Inr (b, r2)) fs imgs" by auto
  moreover have "field_image f b" using encodeEncryptedField_image [OF b] Cons.prems(2) by simp
  ultimately show ?case using b bs by (intro exI [of _ "b # imgs"]) auto
qed simp

definition contents :: "field_spec list \<Rightarrow> bytes list \<Rightarrow> field_value list" where
  "contents fs imgs = map (\<lambda>(f, b). (f, field_content f b)) (zip fs imgs)"

lemma contents_simps [simp]:
  "contents [] imgs = []" "contents (f # fs) (b # imgs) = (f, field_content f b) # contents fs imgs"
  by (simp_all add: contents_def)

lemma decode_encrypted_images:
  assumes "list_all2 field_image fs imgs"
  shows "decode_encrypted fs (pre @ concat imgs @ rest) (length pre) =
    Inr (contents fs imgs, length pre + length (concat imgs))"
  using assms
proof (induction arbitrary: pre rule: list_all2_induct)
  case (Cons f fs b imgs)
  from Cons.IH [of "pre @ b"] show ?case
    by (simp add: decodeEncryptedField_image [OF Cons.hyps(1)] add.assoc)
qed simp

lemma find_field_contents:
  assumes "list_all2 P fs imgs" "find_field k (contents fs imgs) = Some fv"
  shows "\<exists>f b. f \<in> set fs \<and> fkind f = k \<and> P f b \<and> fv = (f, field_content f b)"
  using assms by (induction rule: list_all2_induct) (auto split: if_splits)

lemma find_field_contents_None:
  assumes "list_all2 P fs imgs"
  shows "find_field k (contents fs imgs) = None \<longleftrightarrow> num_kind k fs = 0"
  using assms by (induction rule: list_all2_induct) auto

lemma find_field_plain_None:
  assumes "map fst vs = fs" "\<forall>f \<in> set fs. fkind f \<noteq> k"
  shows "find_field k vs = None"
  using assms by (induction vs arbitrary: fs) auto

section \<open>Frames\<close>

text \<open>
  \<open>frame_of C c seq pad_len pad payload inject frame\<close>: the frame is the plaintext section
  followed by the sealed body, payload and padding, under the nonce of \<open>seq\<close>. Both
  \<open>Encode\<close> and \<open>EncodePacket\<close> produce such frames.
\<close>

definition frame_of ::
  "crypto \<Rightarrow> codec \<Rightarrow> nat \<Rightarrow> int \<Rightarrow> bytes \<Rightarrow> injection \<Rightarrow> bytes \<Rightarrow> bytes \<Rightarrow> bytes \<Rightarrow> bool" where
  "frame_of C c seq pad_len payload inject plain ct frame \<longleftrightarrow>
     (\<exists>imgs pad r r'.
        list_all2 field_image (encrypted_fields (cspec c)) imgs \<and>
        list_all2 (\<lambda>f b. \<exists>r1 r2. encodeEncryptedField f pad_len inject r1 = Inr (b, r2))
          (encrypted_fields (cspec c)) imgs \<and>
        length pad = nat pad_len \<and> 0 \<le> pad_len \<and>
        (pmode (mpadding (cspec c)) = PaddingNone \<longrightarrow> pad_len = 0) \<and>
        (has_payload (cspec c) \<or> payload = []) \<and>
        ct = aead_seal C (mcipher (cspec c)) (ckey c) (nonceAt c seq) (concat imgs @ payload @ pad) plain \<and>
        length ct = length (concat imgs @ payload @ pad) + gcmTagSize \<and>
        encodePlainFields (cspec c) (plainFieldsSize (cspec c) + length ct) (length ct) r = Inr (plain, r') \<and>
        frame = plain @ ct)"

lemma choosePadding_layout:
  assumes "layout_ok spec" "choosePadding (mpadding spec) r = Inr (x, r')"
  shows "0 \<le> x" and "pmode (mpadding spec) = PaddingNone \<Longrightarrow> x = 0"
    and "pmode (mpadding spec) \<noteq> PaddingNone \<Longrightarrow> x \<le> pmax (mpadding spec)"
proof -
  from validateMessageD(6) [OF layout_okD(1) [OF assms(1)]]
  have "pmode (mpadding spec) \<noteq> PaddingNone \<Longrightarrow>
      0 \<le> pmin (mpadding spec) \<and> pmin (mpadding spec) \<le> pmax (mpadding spec)"
    by (simp add: validate_padding_iff)
  with choosePadding_range [OF assms(2)] show "0 \<le> x" and "pmode (mpadding spec) = PaddingNone \<Longrightarrow> x = 0"
    and "pmode (mpadding spec) \<noteq> PaddingNone \<Longrightarrow> x \<le> pmax (mpadding spec)" by auto
qed

lemma Encode_frame_of:
  assumes "layout_ok (cspec c)" "Encode C c payload inject rnd = Inr (frame, segs, c', rnd')"
  shows "\<exists>pad_len plain ct. frame_of C c (cseq c) pad_len payload inject plain ct frame"
    and "segs = splitSegments frame (cspec c)" and "c' = c\<lparr>cseq := w64 (cseq c + 1)\<rparr>"
proof -
  from assms(2) obtain pad_len r1 body r2 pad r3 plain r4 where
    pay: "has_payload (cspec c) \<or> payload = []" and
    cp: "choosePadding (mpadding (cspec c)) rnd = Inr (pad_len, r1)" and
    body: "encode_encrypted (encrypted_fields (cspec c)) pad_len inject r1 = Inr (body, r2)" and
    pad: "(if 0 < pad_len then read_full (nat pad_len) r2 else Inr ([], r2)) = Inr (pad, r3)" and
    pl: "encodePlainFields (cspec c)
      (plainFieldsSize (cspec c) + (length (body @ payload @ pad) + gcmTagSize))
      (length (body @ payload @ pad) + gcmTagSize) r3 = Inr (plain, r4)" and
    ct: "length (aead_seal C (mcipher (cspec c)) (ckey c) (nonce c) (body @ payload @ pad) plain) =
      length (body @ payload @ pad) + gcmTagSize" and
    fr: "frame = plain @ aead_seal C (mcipher (cspec c)) (ckey c) (nonce c) (body @ payload @ pad) plain" and
    sg: "segs = splitSegments frame (cspec c)" and c': "c' = c\<lparr>cseq := w64 (cseq c + 1)\<rparr>"
    unfolding Encode_def Let_def by (auto split: if_splits)
  note P = choosePadding_layout [OF assms(1) cp]
  have "\<forall>f \<in> set (encrypted_fields (cspec c)). encrypted_size_ok f \<and> encrypted_field_ok f"
    using layout_okD [OF assms(1)] by (simp add: validateMessage_iff)
  from encode_encrypted_images [OF body this] obtain imgs where imgs: "body = concat imgs"
    "list_all2 field_image (encrypted_fields (cspec c)) imgs"
    "list_all2 (\<lambda>f b. \<exists>r1 r2. encodeEncryptedField f pad_len inject r1 = Inr (b, r2))
      (encrypted_fields (cspec c)) imgs" by blast
  have len: "length pad = nat pad_len"
    using pad P(1) by (auto simp: read_full_Inr_iff split: if_splits)
  show "\<exists>pad_len plain ct. frame_of C c (cseq c) pad_len payload inject plain ct frame"
    unfolding frame_of_def
    by (rule exI [of _ pad_len], rule exI [of _ plain],
        rule exI [of _ "aead_seal C (mcipher (cspec c)) (ckey c) (nonce c) (body @ payload @ pad) plain"],
        rule exI [of _ imgs], rule exI [of _ pad], rule exI [of _ r3], rule exI [of _ r4])
       (use imgs len P pay pl ct fr in \<open>simp add: nonce_def\<close>)
  show "segs = splitSegments frame (cspec c)" by (fact sg)
  show "c' = c\<lparr>cseq := w64 (cseq c + 1)\<rparr>" by (fact c')
qed

text \<open>The length field of a validated layout and what a frame declares in it.\<close>

lemma layout_length_field:
  assumes "layout_ok spec"
  obtains k where "k < length (plain_fields spec)" "length_field_index spec = int k"
    "fsubject (plain_fields spec ! k) \<in> {SubjectCiphertext, SubjectRecord}"
proof -
  note V = layout_okD(1) [OF assms]
  define k where "k = nat (length_field_index spec)"
  with validateMessageD(1,2) [OF V]
  have k: "k < length (plain_fields spec)" "length_field_index spec = int k" by auto
  with validateMessage_length_field [OF V k(1)] validateMessageD(3) [OF V k(1)]
  have "fsubject (plain_fields spec ! k) \<in> {SubjectCiphertext, SubjectRecord}"
    by (simp add: plain_field_ok_def)
  with k that show thesis by blast
qed

lemma encode_plain_small:
  assumes "encode_plain spec fs i fl cl r = Inr (bs, r')" "declared_value spec fs i fl cl = Some v"
  shows "v < 2 ^ 63"
  using assms
proof (induction fs arbitrary: i r bs)
  case (Cons f fs)
  from Cons.prems(1) obtain b r1 cs where
    b: "encode_plain_value spec i f fl cl r = Inr (b, r1)" and
    cs: "encode_plain spec fs (Suc i) fl cl r1 = Inr (cs, r')"
    by (rule encode_plain_ConsE)
  show ?case
  proof (cases "int i = length_field_index spec")
    case True
    with b Cons.prems(2) show ?thesis
      by (auto simp: encode_plain_value_def dest: encodeInt_small)
  next
    case False
    with Cons.prems(2) Cons.IH [OF cs] show ?thesis by simp
  qed
qed simp

lemma frame_of_sizes:
  assumes "frame_of C c seq pad_len payload inject plain ct frame"
  shows "length plain = plainFieldsSize (cspec c)" and "frame = plain @ ct"
    and "length frame = plainFieldsSize (cspec c) + length ct"
  using assms by (auto simp: frame_of_def encodePlainFields_def plainFieldsSize_def dest: encode_plain_length)

lemma frame_of_plain:
  assumes "frame_of C c seq pad_len payload inject plain ct frame"
  obtains r r' where
    "encode_plain (cspec c) (plain_fields (cspec c)) 0 (length frame) (length ct) r = Inr (plain, r')"
proof -
  from assms obtain r r' where
    "encodePlainFields (cspec c) (plainFieldsSize (cspec c) + length ct) (length ct) r = Inr (plain, r')"
    unfolding frame_of_def by blast
  with that show thesis by (simp add: encodePlainFields_def frame_of_sizes(3) [OF assms])
qed

lemma frame_of_check_length:
  assumes "layout_ok (cspec c)" "frame_of C c seq pad_len payload inject plain ct frame"
  shows "check_length (cspec c)
    (declared_value (cspec c) (plain_fields (cspec c)) 0 (length frame) (length ct))
    (length ct) (length frame) = Inr ()"
    and "(if fsubject (plain_fields (cspec c) ! nat (length_field_index (cspec c))) = SubjectRecord
          then length frame else length ct) < 2 ^ 63"
proof -
  from assms(1) obtain k where k: "k < length (plain_fields (cspec c))"
    "length_field_index (cspec c) = int k"
    and sub: "fsubject (plain_fields (cspec c) ! k) \<in> {SubjectCiphertext, SubjectRecord}"
    by (rule layout_length_field)
  from k have dv: "declared_value (cspec c) (plain_fields (cspec c)) 0 fl cl =
      Some (if fsubject (plain_fields (cspec c) ! k) = SubjectRecord then fl else cl)" for fl cl
    by (simp add: declared_value_nth)
  from assms(2) obtain r r' where
    "encode_plain (cspec c) (plain_fields (cspec c)) 0 (length frame) (length ct) r = Inr (plain, r')"
    by (rule frame_of_plain)
  from encode_plain_small [OF this dv]
  have small: "(if fsubject (plain_fields (cspec c) ! k) = SubjectRecord then length frame else length ct) < 2 ^ 63" .
  then show "(if fsubject (plain_fields (cspec c) ! nat (length_field_index (cspec c))) = SubjectRecord
          then length frame else length ct) < 2 ^ 63" using k by simp
  show "check_length (cspec c)
    (declared_value (cspec c) (plain_fields (cspec c)) 0 (length frame) (length ct))
    (length ct) (length frame) = Inr ()"
    using sub small k by (auto simp: check_length_def dv)
qed

section \<open>Decoding inverts encoding\<close>

text \<open>The pad-length field of a frame carries the length of its padding.\<close>

lemma frame_of_pad:
  assumes lay: "layout_ok spec" and
    imgs: "list_all2 (\<lambda>f b. \<exists>r1 r2. encodeEncryptedField f pad_len inject r1 = Inr (b, r2))
      (encrypted_fields spec) imgs" and
    pl: "0 \<le> pad_len" "pad_len < 2 ^ 63" "pmode (mpadding spec) = PaddingNone \<Longrightarrow> pad_len = 0"
  shows "(case find_field FieldPadLen (contents (encrypted_fields spec) imgs) of
            None \<Rightarrow> 0 | Some fv \<Rightarrow> Uint fv) = nat pad_len"
proof (cases "find_field FieldPadLen (contents (encrypted_fields spec) imgs)")
  case None
  then have "num_kind FieldPadLen (encrypted_fields spec) = 0"
    using find_field_contents_None [OF imgs] by simp
  with validateMessageD(6) [OF layout_okD(1) [OF lay]] have "pmode (mpadding spec) = PaddingNone"
    unfolding validate_padding_iff by (metis zero_neq_one)
  with None pl show ?thesis by simp
next
  case (Some fv)
  from find_field_contents [OF imgs Some] obtain f b r1 r2 where
    f: "f \<in> set (encrypted_fields spec)" "fkind f = FieldPadLen" "fv = (f, field_content f b)" and
    enc: "encodeEncryptedField f pad_len inject r1 = Inr (b, r2)" by blast
  have "pad_len mod 2 ^ 64 = pad_len" using pl by (intro mod_pos_pos_trivial) auto
  with f(2) enc have e: "encodeInt (nat pad_len) (fencoding f) (fendian f) = Inr b"
    unfolding encodeEncryptedField_def by auto
  from validateMessageD(4) [OF layout_okD(1) [OF lay] f(1)] f(2) have "0 < intWidth (fencoding f)"
    by (simp add: encrypted_field_ok_def)
  then have "field_content f b = b" by (cases "fencoding f") (auto simp: field_content_def)
  with decodeInt_encodeInt_self [OF e] Some f show ?thesis by (simp add: Uint_def)
qed

lemma find_pad_plain_None:
  assumes "layout_ok spec" "map fst vs = plain_fields spec" "k \<in> {FieldPadLen, FieldKey}"
  shows "find_field k vs = None"
proof (rule find_field_plain_None [OF assms(2)])
  show "\<forall>f \<in> set (plain_fields spec). fkind f \<noteq> k"
    using layout_okD(3) [OF assms(1)] assms(3) by (fastforce simp: plain_content_ok_def)
qed

lemma decodeAt_frame_of:
  assumes lay: "layout_ok (cspec c)" and C: "aead_ok C" and
    fr: "frame_of C c seq pad_len payload inject plain ct frame" and
    d: "cspec d = cspec c" "ckey d = ckey c" and pl: "pad_len < 2 ^ 63"
  shows "\<exists>msg imgs. decodeAt C d frame (nonceAt c seq) = Inr msg \<and> msg_spec msg = cspec c \<and>
    msg_payload msg = payload \<and> map fst (msg_plain msg) = plain_fields (cspec c) \<and>
    msg_encrypted msg = contents (encrypted_fields (cspec c)) imgs \<and>
    list_all2 (\<lambda>f b. \<exists>r1 r2. encodeEncryptedField f pad_len inject r1 = Inr (b, r2))
      (encrypted_fields (cspec c)) imgs"
proof -
  from fr obtain imgs pad where
    im: "list_all2 field_image (encrypted_fields (cspec c)) imgs" and
    en: "list_all2 (\<lambda>f b. \<exists>r1 r2. encodeEncryptedField f pad_len inject r1 = Inr (b, r2))
          (encrypted_fields (cspec c)) imgs" and
    pad: "length pad = nat pad_len" "0 \<le> pad_len" "pmode (mpadding (cspec c)) = PaddingNone \<longrightarrow> pad_len = 0" and
    pay: "has_payload (cspec c) \<or> payload = []" and
    ct: "ct = aead_seal C (mcipher (cspec c)) (ckey c) (nonceAt c seq) (concat imgs @ payload @ pad) plain"
    unfolding frame_of_def by blast
  note sz = frame_of_sizes [OF fr]
  from fr obtain r r' where
    ep: "encode_plain (cspec c) (plain_fields (cspec c)) 0 (length frame) (length ct) r = Inr (plain, r')"
    by (rule frame_of_plain)
  from encode_plain_decode_plain [OF ep] obtain vs where vs: "map fst vs = plain_fields (cspec c)" and
    dp: "\<And>pre rest. decode_plain (cspec c) (pre @ plain @ rest) (plain_fields (cspec c)) 0 (length pre) =
      Inr (vs, length pre + length plain,
        declared_value (cspec c) (plain_fields (cspec c)) 0 (length frame) (length ct))" by blast
  from dp [of "[]" ct] have dp': "decode_plain (cspec c) frame (plain_fields (cspec c)) 0 0 =
      Inr (vs, length plain, declared_value (cspec c) (plain_fields (cspec c)) 0 (length frame) (length ct))"
    by (simp add: sz(2))
  define m where "m = \<lparr>msg_spec = cspec c, msg_plain = vs,
    msg_encrypted = contents (encrypted_fields (cspec c)) imgs, msg_payload = []\<rparr>"
  have dd: "decode_encrypted (encrypted_fields (cspec c)) (concat imgs @ payload @ pad) 0 =
      Inr (contents (encrypted_fields (cspec c)) imgs, length (concat imgs))"
    using decode_encrypted_images [OF im, of "[]" "payload @ pad"] by simp
  have fp: "(case Find m FieldPadLen of None \<Rightarrow> 0 | Some fv \<Rightarrow> Uint fv) = length pad"
    using frame_of_pad [OF lay en pad(2) pl] pad find_pad_plain_None [OF lay vs]
    by (simp add: Find_def m_def)
  have op: "aead_open C (mcipher (cspec c)) (ckey c) (nonceAt c seq) ct plain = Some (concat imgs @ payload @ pad)"
    by (simp add: ct aead_okD [OF C])
  have "decodeAt C d frame (nonceAt c seq) = Inr (m\<lparr>msg_payload := payload\<rparr>)"
    using sz dp' frame_of_check_length(1) [OF lay fr] op dd fp pay
    by (simp add: decodeAt_def d Let_def m_def [symmetric])
  with vs en show ?thesis by (intro exI [of _ "m\<lparr>msg_payload := payload\<rparr>"] exI [of _ imgs]) (simp add: m_def)
qed

lemma pad_len_bound:
  assumes "layout_ok spec" "list_all2 (\<lambda>f b. \<exists>r1 r2. encodeEncryptedField f pad_len inject r1 = Inr (b, r2))
      (encrypted_fields spec) imgs" "pmode (mpadding spec) = PaddingNone \<Longrightarrow> pad_len = 0"
    "pmode (mpadding spec) \<noteq> PaddingNone \<Longrightarrow> pad_len \<le> pmax (mpadding spec)"
  shows "pad_len < 2 ^ 63"
proof (cases "pmode (mpadding spec) = PaddingNone")
  case False
  with validateMessageD(6) [OF layout_okD(1) [OF assms(1)]]
  have "num_kind FieldPadLen (encrypted_fields spec) \<noteq> 0" by (simp add: validate_padding_iff)
  then obtain f where f: "f \<in> set (encrypted_fields spec)" "fkind f = FieldPadLen"
    by (auto simp: num_kind_0_iff)
  with layout_okD(4) [OF assms(1)] have "pmax (mpadding spec) < 256 ^ intWidth (fencoding f)"
    by (auto simp: pad_fits_def)
  also have "\<dots> \<le> (256 :: int) ^ 4" by (rule power_increasing [OF intWidth_le_4]) simp
  finally show ?thesis using assms(4) False by simp
qed (use assms in simp)

section \<open>A frame opens under its own nonce only\<close>

lemma length_nonceAt [simp, length_simps]: "length (nonceAt c seq) = 12"
  by (simp add: nonceAt_def)

lemma nonceAt_inj: "nonceAt c p = nonceAt c q \<Longrightarrow> p < 2 ^ 64 \<Longrightarrow> q < 2 ^ 64 \<Longrightarrow> p = q"
  by (auto simp: nonceAt_def dest: be_bytes_inj)

lemma frame_of_decode_plain:
  assumes "frame_of C c seq pad_len payload inject plain ct frame"
  shows "\<exists>vs dv. decode_plain (cspec c) frame (plain_fields (cspec c)) 0 0 = Inr (vs, length plain, dv)"
proof -
  from assms obtain r r' where
    "encode_plain (cspec c) (plain_fields (cspec c)) 0 (length frame) (length ct) r = Inr (plain, r')"
    by (rule frame_of_plain)
  from encode_plain_decode_plain [OF this] obtain vs where
    "\<And>pre rest. decode_plain (cspec c) (pre @ plain @ rest) (plain_fields (cspec c)) 0 (length pre) =
      Inr (vs, length pre + length plain,
        declared_value (cspec c) (plain_fields (cspec c)) 0 (length frame) (length ct))" by blast
  from this [of "[]" ct] show ?thesis by (simp add: frame_of_sizes(2) [OF assms])
qed

lemma decodeAt_other_nonce:
  assumes fr: "frame_of C c q pad_len payload inject plain ct frame" and N: "aead_nonce_ok C" and
    d: "cspec d = cspec c" "ckey d = ckey c" and ne: "p < 2 ^ 64" "q < 2 ^ 64" "p \<noteq> q"
  shows "\<not> is_ok (decodeAt C d frame (nonceAt d p))"
proof -
  note sz = frame_of_sizes [OF fr]
  from frame_of_decode_plain [OF fr] obtain vs dv where
    dp: "decode_plain (cspec c) frame (plain_fields (cspec c)) 0 0 = Inr (vs, length plain, dv)" by blast
  have "nonceAt d p = nonceAt c p" by (simp add: nonceAt_def d)
  then have "nonceAt c q \<noteq> nonceAt d p" using nonceAt_inj [of c p q] ne by auto
  moreover from fr obtain pt where "ct = aead_seal C (mcipher (cspec c)) (ckey c) (nonceAt c q) pt plain"
    unfolding frame_of_def by blast
  ultimately have "aead_open C (mcipher (cspec c)) (ckey c) (nonceAt d p) ct plain = None"
    using N by (simp add: aead_nonce_ok_def)
  with dp sz show ?thesis
    by (auto simp: decodeAt_def d Let_def is_ok_iff res_bind_Inr_iff)
qed

end
