(* ===== verification/Codec_Replay.thy ===== *)
theory Codec_Replay
  imports Codec_Frames
begin

text \<open>
  The in-order stream mode as a replay filter: its bitmap slides so that no sequence number
  is accepted twice, whatever frames arrive, and a frame that is next in the stream is
  accepted.
\<close>

section \<open>The stream window\<close>

definition stream_dead :: "codec \<Rightarrow> nat set" where
  "stream_dead c = {s. s < seen_base c \<or> bit (seen_bits c) (s - seen_base c)}"

definition stream_inv :: "codec \<Rightarrow> bool" where
  "stream_inv c \<longleftrightarrow> seen_base c = cseq c"

lemma observe_fresh:
  assumes "seen_base c \<le> q" "q < seen_base c + 64"
  shows "observe c q = (if q \<in> stream_dead c then (False, c)
    else (True, c\<lparr>seen_bits := seen_bits c OR push_bit (q - seen_base c) 1\<rparr>))"
  using assms by (auto simp: observe_def stream_dead_def and_exp_iff Let_def)

lemma slide_spec:
  assumes "seen_base c = cseq c" "cseq c + n < 2 ^ 64"
  shows "\<exists>k \<le> n. slide n c = c\<lparr>seen_bits := drop_bit k (seen_bits c), seen_base := seen_base c + k,
      cseq := cseq c + k\<rparr> \<and> (\<forall>j < k. bit (seen_bits c) j) \<and> (k < n \<longrightarrow> \<not> bit (seen_bits c) k)"
  using assms
proof (induction n arbitrary: c)
  case 0
  show ?case by (intro exI [of _ 0]) simp
next
  case (Suc n)
  show ?case
  proof (cases "bit (seen_bits c) 0")
    case False
    then show ?thesis by (intro exI [of _ 0]) (simp add: and_one_iff)
  next
    case True
    define c1 where "c1 = c\<lparr>seen_bits := drop_bit 1 (seen_bits c), seen_base := seen_base c + 1, cseq := cseq c + 1\<rparr>"
    from Suc.prems True have sl: "slide (Suc n) c = slide n c1"
      by (simp add: and_one_iff c1_def del: w64_def)
    from Suc.prems Suc.IH [of c1] obtain k where k: "k \<le> n"
      "slide n c1 = c1\<lparr>seen_bits := drop_bit k (seen_bits c1), seen_base := seen_base c1 + k, cseq := cseq c1 + k\<rparr>"
      "\<forall>j < k. bit (seen_bits c1) j" "k < n \<longrightarrow> \<not> bit (seen_bits c1) k"
      by (auto simp: c1_def)
    have "\<forall>j < Suc k. bit (seen_bits c) j"
      using True k(3) by (auto simp: c1_def bit_drop_bit_eq less_Suc_eq_0_disj)
    moreover have "Suc k < Suc n \<longrightarrow> \<not> bit (seen_bits c) (Suc k)"
      using k(4) by (auto simp: c1_def bit_drop_bit_eq)
    moreover have "slide (Suc n) c = c\<lparr>seen_bits := drop_bit (Suc k) (seen_bits c),
        seen_base := seen_base c + Suc k, cseq := cseq c + Suc k\<rparr>"
      unfolding sl k(2) by (simp add: c1_def)
    ultimately show ?thesis using k(1) by (intro exI [of _ "Suc k"]) (simp del: slide.simps)
  qed
qed

lemma slide_enough:
  assumes "seen_base c = cseq c" "cseq c + 64 < 2 ^ 64"
  shows "\<not> bit (seen_bits (slide 64 c)) 0"
proof -
  from slide_spec [OF assms] obtain k where k: "k \<le> 64"
    "slide 64 c = c\<lparr>seen_bits := drop_bit k (seen_bits c), seen_base := seen_base c + k, cseq := cseq c + k\<rparr>"
    "k < 64 \<longrightarrow> \<not> bit (seen_bits c) k" by blast
  show ?thesis
  proof (cases "k < 64")
    case False
    have "\<not> bit (seen_bits c) k" using False bit_imp_le_length [of "seen_bits c" k] by auto
    with k(2) show ?thesis by (simp add: bit_drop_bit_eq)
  qed (use k in \<open>simp add: bit_drop_bit_eq\<close>)
qed

lemma slide_dead:
  assumes "seen_base c = cseq c" "cseq c + 64 < 2 ^ 64"
  shows "stream_dead (slide 64 c) = stream_dead c" and "stream_inv (slide 64 c)"
    and "cspec (slide 64 c) = cspec c" and "ckey (slide 64 c) = ckey c"
    and "cseq (slide 64 c) \<le> cseq c + 64"
proof -
  from slide_spec [OF assms] obtain k where k: "k \<le> 64"
    "slide 64 c = c\<lparr>seen_bits := drop_bit k (seen_bits c), seen_base := seen_base c + k, cseq := cseq c + k\<rparr>"
    "\<forall>j < k. bit (seen_bits c) j" by blast
  show "stream_dead (slide 64 c) = stream_dead c"
  proof (rule set_eqI)
    fix s
    show "s \<in> stream_dead (slide 64 c) \<longleftrightarrow> s \<in> stream_dead c"
    proof (cases "s < seen_base c + k")
      case True
      moreover have "s < seen_base c \<or> bit (seen_bits c) (s - seen_base c)"
        using True k(3) by (cases "s < seen_base c") auto
      ultimately show ?thesis by (simp add: stream_dead_def k(2))
    next
      case False
      then have "k + (s - (seen_base c + k)) = s - seen_base c" by linarith
      with False show ?thesis by (auto simp: stream_dead_def k(2) bit_drop_bit_eq)
    qed
  qed
  show "stream_inv (slide 64 c)" "cspec (slide 64 c) = cspec c" "ckey (slide 64 c) = ckey c"
    "cseq (slide 64 c) \<le> cseq c + 64"
    using assms(1) k(1) by (simp_all add: stream_inv_def k(2))
qed

section \<open>Decode\<close>

text \<open>The first probe of a list under which a frame opens.\<close>

definition opens_at :: "crypto \<Rightarrow> codec \<Rightarrow> bytes \<Rightarrow> nat \<Rightarrow> bool" where
  "opens_at C c frame q \<longleftrightarrow> is_ok (decodeAt C c frame (nonceAt c q))"

lemma probe_stream_find:
  "probe_stream C c frame ps =
     (case find (opens_at C c frame) ps of
        None \<Rightarrow> Inl ErrAuth
      | Some q \<Rightarrow> res_bind (decodeAt C c frame (nonceAt c q)) (\<lambda>msg.
          case observe c q of (False, _) \<Rightarrow> Inl ErrReplay | (True, c') \<Rightarrow> Inr (msg, slide 64 c')))"
  by (induction ps) (auto simp: opens_at_def split: sum.split)

definition stream_accepts :: "crypto \<Rightarrow> codec \<Rightarrow> bytes \<Rightarrow> nat \<Rightarrow> codec \<Rightarrow> bool" where
  "stream_accepts C c frame q c' \<longleftrightarrow>
     cseq c + 64 < 2 ^ 64 \<and>
     find (opens_at C c frame) [cseq c ..< cseq c + 64] = Some q \<and>
     (\<exists>msg. Decode C c frame = Inr (msg, c'))"

lemma find_upt_bounds: "find P [m ..< n] = Some q \<Longrightarrow> m \<le> q \<and> q < n \<and> P q"
  by (auto simp: find_Some_iff)

lemma stream_acceptsD:
  assumes "stream_accepts C c frame q c'" "stream_inv c"
  shows "q \<notin> stream_dead c" and "stream_dead c' = insert q (stream_dead c)" and "stream_inv c'"
    and "cspec c' = cspec c" and "ckey c' = ckey c" and "cseq c' \<le> cseq c + 64"
proof -
  from assms(1) have room: "cseq c + 64 < 2 ^ 64"
    and fd: "find (opens_at C c frame) [cseq c ..< cseq c + 64] = Some q"
    and dec: "\<exists>msg. Decode C c frame = Inr (msg, c')" by (auto simp: stream_accepts_def)
  from find_upt_bounds [OF fd] assms(2) have q: "seen_base c \<le> q" "q < seen_base c + 64"
    by (auto simp: stream_inv_def)
  from dec have "\<exists>c1. observe c q = (True, c1) \<and> c' = slide 64 c1"
    using fd room by (auto simp: Decode_def probe_stream_find split: bool.splits prod.splits)
  then have live: "q \<notin> stream_dead c" and
    c': "c' = slide 64 (c\<lparr>seen_bits := seen_bits c OR push_bit (q - seen_base c) 1\<rparr>)"
    using observe_fresh [OF q] by (auto split: if_splits)
  show "q \<notin> stream_dead c" by (fact live)
  define c1 where "c1 = c\<lparr>seen_bits := seen_bits c OR push_bit (q - seen_base c) 1\<rparr>"
  have c1: "seen_base c1 = cseq c1" "cseq c1 + 64 < 2 ^ 64"
    using assms(2) room by (auto simp: c1_def stream_inv_def)
  have "stream_dead c1 = insert q (stream_dead c)"
  proof (rule set_eqI)
    fix x
    from q have "q - seen_base c < 64" by linarith
    then show "x \<in> stream_dead c1 \<longleftrightarrow> x \<in> insert q (stream_dead c)"
      using q(1) by (auto simp: stream_dead_def c1_def bit_or_exp)
  qed
  with slide_dead [OF c1] show "stream_dead c' = insert q (stream_dead c)" and "stream_inv c'"
    and "cspec c' = cspec c" and "ckey c' = ckey c" and "cseq c' \<le> cseq c + 64"
    by (simp_all add: c' c1_def [symmetric]) (simp_all add: c1_def)
qed

interpretation stream_filter: replay_filter "stream_accepts C" stream_dead stream_inv for C
  by unfold_locales (auto dest: stream_acceptsD)

lemma NewMessageCodec_stream_inv: "NewMessageCodec spec key = Inr c \<Longrightarrow> stream_inv c"
  by (auto simp: NewMessageCodec_def stream_inv_def)

lemma Decode_accepts:
  assumes "Decode C c frame = Inr (msg, c')" "cseq c + 64 < 2 ^ 64"
  shows "\<exists>q. stream_accepts C c frame q c' \<and> decodeAt C c frame (nonceAt c q) = Inr msg"
  using assms
  by (auto simp: Decode_def probe_stream_find stream_accepts_def split: option.splits bool.splits prod.splits)

text \<open>A receiver run over any frames: the numbers it accepts and its final state.\<close>

fun stream_log :: "crypto \<Rightarrow> codec \<Rightarrow> bytes list \<Rightarrow> nat list \<times> codec" where
  "stream_log C d [] = ([], d)"
| "stream_log C d (f # fs) =
     (case Decode C d f of
        Inl _ \<Rightarrow> stream_log C d fs
      | Inr (_, d1) \<Rightarrow>
          (case stream_log C d1 fs of (qs, d2) \<Rightarrow>
            (the (find (opens_at C d f) [cseq d ..< cseq d + 64]) # qs, d2)))"

lemma stream_log_run:
  assumes "stream_inv d" "cseq d + 64 * (length fs + 1) < 2 ^ 64" "stream_log C d fs = (qs, d')"
  shows "accept_run (stream_accepts C) d qs d'"
  using assms
proof (induction fs arbitrary: d qs)
  case (Cons f fs)
  have room: "cseq d + 64 < 2 ^ 64" using Cons.prems(2) by simp
  show ?case
  proof (cases "Decode C d f")
    case (Inl e)
    with Cons show ?thesis by simp
  next
    case (Inr r)
    obtain msg d1 where r: "r = (msg, d1)" by (cases r)
    obtain qs1 where log: "stream_log C d1 fs = (qs1, d')" and
      qs: "qs = the (find (opens_at C d f) [cseq d ..< cseq d + 64]) # qs1"
      using Cons.prems(3) Inr r by (auto split: prod.splits)
    from Decode_accepts [OF Inr [unfolded r] room] obtain q where acc: "stream_accepts C d f q d1" by blast
    note A = stream_acceptsD [OF acc Cons.prems(1)]
    have "cseq d1 + 64 * (length fs + 1) < 2 ^ 64" using A(6) Cons.prems(2) by simp
    from Cons.IH [OF A(3) this log] acc show ?thesis
      unfolding qs by (auto intro: run_cons simp: stream_accepts_def)
  qed
qed (auto intro: run_nil)

text \<open>A frame that opens at a live number of the window, and at none before it, is accepted.\<close>

lemma Decode_live:
  assumes "stream_inv c" "cseq c + 64 < 2 ^ 64" "cseq c \<le> q" "q < cseq c + 64" "q \<notin> stream_dead c"
    "decodeAt C c frame (nonceAt c q) = Inr msg"
    "\<forall>p. cseq c \<le> p \<and> p < q \<longrightarrow> \<not> opens_at C c frame p"
  shows "\<exists>c'. Decode C c frame = Inr (msg, c') \<and> stream_accepts C c frame q c'"
proof -
  have fd: "find (opens_at C c frame) [cseq c ..< cseq c + 64] = Some q"
    unfolding find_Some_iff
    using assms(3-7) by (intro exI [of _ "q - cseq c"]) (auto simp: opens_at_def)
  have "observe c q = (True, c\<lparr>seen_bits := seen_bits c OR push_bit (q - seen_base c) 1\<rparr>)"
    using observe_fresh [of c q] assms by (auto simp: stream_inv_def)
  then have "Decode C c frame = Inr (msg, slide 64 (c\<lparr>seen_bits := seen_bits c OR push_bit (q - seen_base c) 1\<rparr>))"
    using fd assms(2,6) by (simp add: Decode_def probe_stream_find)
  with fd assms(2) show ?thesis by (auto simp: stream_accepts_def)
qed

text \<open>A frame that opens at one number only is rejected once that number is dead.\<close>

lemma Decode_dead:
  assumes "stream_inv c" "cseq c + 64 < 2 ^ 64" "q \<in> stream_dead c"
    "\<forall>p < 2 ^ 64. opens_at C c frame p \<longrightarrow> p = q"
  shows "Decode C c frame \<in> {Inl ErrAuth, Inl ErrReplay}"
proof (cases "find (opens_at C c frame) [cseq c ..< cseq c + 64]")
  case None
  then show ?thesis using assms(2) by (simp add: Decode_def probe_stream_find)
next
  case (Some p)
  from find_upt_bounds [OF Some] assms(2,4) have p: "p = q" "cseq c \<le> p" "p < cseq c + 64" by auto
  then obtain msg where "decodeAt C c frame (nonceAt c q) = Inr msg"
    using find_upt_bounds [OF Some] by (auto simp: opens_at_def is_ok_iff)
  with Some p assms observe_fresh [of c q] show ?thesis
    by (simp add: Decode_def probe_stream_find stream_inv_def)
qed

end
