(* ===== verification/Packet.thy ===== *)
theory Packet
  imports Codec_Frames Codec_Replay
begin

text \<open>
  Datagram mode of the codec and its session (\<open>internal/compiler/packet.go\<close>): encoding with
  length shaping, decoding with an 8192 entry replay window, the window move of loss recovery
  and the packet session. The window is proved to be a replay filter over the abstract set
  \<open>packet_dead\<close> of sequence numbers it will not accept again.
\<close>

section \<open>Definitions\<close>

definition PacketWindow :: nat where
  "PacketWindow = 8192"

definition packetWindowWords :: nat where
  "packetWindowWords = 128"

definition NewPacketMessageCodec :: "message_spec \<Rightarrow> bytes \<Rightarrow> codec res" where
  "NewPacketMessageCodec spec key =
     res_bind (NewMessageCodec spec key) (\<lambda>c.
       Inr (c\<lparr>packet_mode := True, packet_seen := replicate packetWindowWords 0\<rparr>))"

subsection \<open>Shaping\<close>

definition DefaultShapeBuckets :: "int list" where
  "DefaultShapeBuckets = [128, 512, 1024, 1452]"

definition shapeLadders :: "int list list" where
  "shapeLadders =
     [[96, 384, 768, 1392],
      [160, 576, 1152, 1400],
      [192, 448, 896, 1452],
      [128, 512, 1024, 1452],
      [224, 640, 1088, 1424]]"

text \<open>Text as bytes, as in the conversion of a Go string to a byte slice.\<close>

definition text_bytes :: "string \<Rightarrow> bytes" where
  "text_bytes s = map of_char s"

definition ShapeBucketsForGenome :: "crypto \<Rightarrow> protocol_genome option \<Rightarrow> int list" where
  "ShapeBucketsForGenome C g =
     (case g of
        None \<Rightarrow> DefaultShapeBuckets
      | Some g \<Rightarrow>
          let sum = sha256 C (text_bytes (''chimera-pgc/0/shape-ladder'' @ [CHR 0x00] @ protocol_fingerprint g))
          in shapeLadders ! (unat (sum ! 0) mod length shapeLadders))"

fun first_bucket :: "int \<Rightarrow> int list \<Rightarrow> int" where
  "first_bucket n [] = n"
| "first_bucket n (b # bs) = (if n \<le> b then b else first_bucket n bs)"

definition nextShapeSize :: "int \<Rightarrow> int list \<Rightarrow> int" where
  "nextShapeSize n buckets = (if n \<le> 0 \<or> buckets = [] then n else first_bucket n buckets)"

subsection \<open>Encoding\<close>

fun encode_body ::
  "field_spec list \<Rightarrow> int \<Rightarrow> injection \<Rightarrow> reader \<Rightarrow> bytes \<Rightarrow> int \<Rightarrow> nat \<Rightarrow> (bytes \<times> int \<times> nat \<times> reader) res" where
  "encode_body [] pad_len inject r body pad_off pad_width = Inr (body, pad_off, pad_width, r)"
| "encode_body (f # fs) pad_len inject r body pad_off pad_width =
     res_bind (encodeEncryptedField f pad_len inject r) (\<lambda>(b, r1).
       if fkind f = FieldPadLen
       then encode_body fs pad_len inject r1 (body @ b) (int (length body)) (length b)
       else encode_body fs pad_len inject r1 (body @ b) pad_off pad_width)"

definition encodeEncryptedBody ::
  "message_spec \<Rightarrow> int \<Rightarrow> injection \<Rightarrow> reader \<Rightarrow> (bytes \<times> int \<times> nat \<times> reader) res" where
  "encodeEncryptedBody spec pad_len inject r =
     encode_body (encrypted_fields spec) pad_len inject r [] (-1) 0"

text \<open>The shaping step: the new padding length and the body with its pad-length field rewritten.\<close>

definition shape_frame ::
  "codec \<Rightarrow> bytes \<Rightarrow> bytes \<Rightarrow> int \<Rightarrow> int \<Rightarrow> nat \<Rightarrow> (int \<times> bytes) res" where
  "shape_frame c payload body pad_len pad_off pad_width =
     (let spec = cspec c; idx = padFieldIndex spec in
      if 0 \<le> idx \<and> 0 < pad_width \<and> 0 \<le> pad_off \<and> shape_buckets c \<noteq> [] then
        let max_pad = int (padFieldMax spec);
            frame_len = int (plainFieldsSize spec) + int (length body) + int (length payload) + pad_len
                        + int gcmTagSize;
            target = nextShapeSize frame_len (shape_buckets c) in
        if frame_len < target \<and> pad_len + (target - frame_len) \<le> max_pad then
          let pad_len' = pad_len + (target - frame_len);
              pf = encrypted_fields spec ! nat idx in
          res_bind (encodeInt (nat (pad_len' mod 2 ^ 64)) (fencoding pf) (fendian pf)) (\<lambda>enc.
            if length enc \<noteq> pad_width then Inl ErrFieldSize
            else Inr (pad_len', take (nat pad_off) body @ enc @ drop (nat pad_off + pad_width) body))
        else Inr (pad_len, body)
      else Inr (pad_len, body))"

definition EncodePacket ::
  "crypto \<Rightarrow> codec \<Rightarrow> bytes \<Rightarrow> injection \<Rightarrow> reader \<Rightarrow> (bytes \<times> codec \<times> reader) res" where
  "EncodePacket C c payload inject rnd =
     (let spec = cspec c in
      if \<not> packet_mode c then Inl ErrMode
      else if \<not> has_payload spec \<and> payload \<noteq> [] then Inl ErrPayload
      else
        res_bind (choosePadding (mpadding spec) rnd) (\<lambda>(pad_len0, r1).
        res_bind (encodeEncryptedBody spec pad_len0 inject r1) (\<lambda>(body0, pad_off, pad_width, r2).
        res_bind (shape_frame c payload body0 pad_len0 pad_off pad_width) (\<lambda>(pad_len, body).
        res_bind (if 0 < pad_len then read_full (nat pad_len) r2 else Inr ([], r2)) (\<lambda>(pad, r3).
          let pt = body @ payload @ pad;
              ct_len = length pt + gcmTagSize;
              frame_len = plainFieldsSize spec + ct_len in
          res_bind (encodePlainFields spec frame_len ct_len r3) (\<lambda>(plain, r4).
            let ct = aead_seal C (mcipher spec) (ckey c) (nonceAt c (packet_send c)) pt plain in
            Inr (plain @ ct, c\<lparr>packet_send := w64 (packet_send c + 1)\<rparr>, r4)))))))"

subsection \<open>The receive window\<close>

definition window_bit :: "64 word list \<Rightarrow> nat \<Rightarrow> bool" where
  "window_bit ws off \<longleftrightarrow> ws ! (off div 64) AND push_bit (off mod 64) 1 \<noteq> 0"

definition window_set :: "64 word list \<Rightarrow> nat \<Rightarrow> 64 word list" where
  "window_set ws off = ws[off div 64 := ws ! (off div 64) OR push_bit (off mod 64) 1]"

fun shift_words :: "64 word list \<Rightarrow> 64 word list" where
  "shift_words [] = []"
| "shift_words [w] = [drop_bit 1 w]"
| "shift_words (w # v # ws) =
     (if v AND 1 \<noteq> 0 then drop_bit 1 w OR push_bit 63 1 else drop_bit 1 w) # shift_words (v # ws)"

definition shiftPacketWindow :: "codec \<Rightarrow> codec" where
  "shiftPacketWindow c = c\<lparr>packet_seen := shift_words (packet_seen c)\<rparr>"

text \<open>The loop that advances the base over the leading ones; a window has 8192 bits.\<close>

fun slide_packet :: "nat \<Rightarrow> codec \<Rightarrow> codec" where
  "slide_packet 0 c = c"
| "slide_packet (Suc fuel) c =
     (if packet_seen c ! 0 AND 1 \<noteq> 0
      then slide_packet fuel (shiftPacketWindow c\<lparr>packet_base := w64 (packet_base c + 1)\<rparr>)
      else c)"

fun packet_probe :: "crypto \<Rightarrow> codec \<Rightarrow> bytes \<Rightarrow> error option \<Rightarrow> nat list \<Rightarrow> (message \<times> codec) res" where
  "packet_probe C c frame lasterr [] = Inl (case lasterr of None \<Rightarrow> ErrAuth | Some e \<Rightarrow> ErrWindow)"
| "packet_probe C c frame lasterr (seq # seqs) =
     (let off = seq - packet_base c in
      if window_bit (packet_seen c) off then packet_probe C c frame lasterr seqs
      else case decodeAt C c frame (nonceAt c seq) of
             Inl e \<Rightarrow> packet_probe C c frame (Some e) seqs
           | Inr msg \<Rightarrow>
               Inr (msg, slide_packet PacketWindow (c\<lparr>packet_seen := window_set (packet_seen c) off\<rparr>)))"

definition DecodePacket :: "crypto \<Rightarrow> codec \<Rightarrow> bytes \<Rightarrow> (message \<times> codec) res" where
  "DecodePacket C c frame =
     (if \<not> packet_mode c then Inl ErrMode
      else packet_probe C c frame None [packet_base c ..< w64 (packet_base c + PacketWindow)])"

definition PacketBase :: "codec \<Rightarrow> nat" where
  "PacketBase c = (if packet_mode c then packet_base c else 0)"

definition PacketSent :: "codec \<Rightarrow> nat" where
  "PacketSent c = (if packet_mode c then packet_send c else 0)"

definition AdvanceBaseTo :: "codec \<Rightarrow> nat \<Rightarrow> codec res" where
  "AdvanceBaseTo c target =
     (if \<not> packet_mode c then Inl ErrMode
      else if target \<le> packet_base c then Inr c
      else if w64 (packet_base c + PacketWindow) < target then Inl ErrWindow
      else Inr (c\<lparr>packet_base := target, packet_seen := replicate packetWindowWords 0\<rparr>))"

subsection \<open>Packet sessions\<close>

record packet_session =
  pspec :: message_spec
  psend :: codec
  precv :: codec

definition NewPacketSession ::
  "message_spec \<Rightarrow> direction \<Rightarrow> bytes \<Rightarrow> bytes \<Rightarrow> packet_session res" where
  "NewPacketSession app role c2s s2c =
     (let (send_key, recv_key) = (if role = DirServer then (s2c, c2s) else (c2s, s2c)) in
      res_bind (NewPacketMessageCodec app send_key) (\<lambda>s.
      res_bind (NewPacketMessageCodec app recv_key) (\<lambda>r.
        Inr \<lparr>pspec = app, psend = s, precv = r\<rparr>)))"

definition sess_encode :: "crypto \<Rightarrow> packet_session \<Rightarrow> bytes \<Rightarrow> reader \<Rightarrow> (bytes \<times> packet_session \<times> reader) res" where
  "sess_encode C p payload rnd =
     res_bind (EncodePacket C (psend p) payload (\<lambda>_. None) rnd) (\<lambda>(frame, c, rnd').
       Inr (frame, p\<lparr>psend := c\<rparr>, rnd'))"

definition sess_decode :: "crypto \<Rightarrow> packet_session \<Rightarrow> bytes \<Rightarrow> (message \<times> packet_session) res" where
  "sess_decode C p frame =
     res_bind (DecodePacket C (precv p) frame) (\<lambda>(msg, c). Inr (msg, p\<lparr>precv := c\<rparr>))"

definition AckState :: "packet_session \<Rightarrow> nat \<times> nat" where
  "AckState p = (PacketBase (precv p), PacketSent (psend p))"

definition sess_advance :: "packet_session \<Rightarrow> nat \<Rightarrow> packet_session res" where
  "sess_advance p target = res_bind (AdvanceBaseTo (precv p) target) (\<lambda>c. Inr (p\<lparr>precv := c\<rparr>))"

definition SetShapeBuckets :: "packet_session \<Rightarrow> int list \<Rightarrow> packet_session" where
  "SetShapeBuckets p buckets = p\<lparr>psend := psend p\<lparr>shape_buckets := buckets\<rparr>\<rparr>"

section \<open>The window as a set of sequence numbers\<close>

fun wbit :: "64 word list \<Rightarrow> nat \<Rightarrow> bool" where
  "wbit [] i = False"
| "wbit (w # ws) i = (if i < 64 then bit w i else wbit ws (i - 64))"

lemma wbit_nth: "wbit ws i \<longleftrightarrow> i < 64 * length ws \<and> bit (ws ! (i div 64)) (i mod 64)"
proof (induction ws arbitrary: i)
  case (Cons w ws)
  show ?case
  proof (cases "i < 64")
    case False
    then have "i div 64 = Suc ((i - 64) div 64)" "i mod 64 = (i - 64) mod 64"
      by (auto simp: le_div_geq le_mod_geq)
    moreover have "i div 64 - Suc 0 = (i - 64) div 64" "(i < 64 + 64 * length ws) = (i - 64 < 64 * length ws)"
      using False calculation by linarith+
    ultimately show ?thesis using False Cons.IH [of "i - 64"] by simp
  qed simp
qed simp

lemma window_bit_wbit: "off < 64 * length ws \<Longrightarrow> window_bit ws off \<longleftrightarrow> wbit ws off"
  by (simp add: window_bit_def wbit_nth and_exp_iff)

lemma wbit_window_set:
  assumes "off < 64 * length ws"
  shows "wbit (window_set ws off) j \<longleftrightarrow> wbit ws j \<or> j = off"
proof -
  have lt: "off div 64 < length ws" using assms by (simp add: less_mult_imp_div_less mult.commute)
  have "j = off \<longleftrightarrow> j div 64 = off div 64 \<and> j mod 64 = off mod 64"
    by (metis div_mult_mod_eq)
  with assms lt show ?thesis
    by (auto simp: window_set_def wbit_nth bit_or_exp nth_list_update)
qed

lemma length_shift_words [simp]: "length (shift_words ws) = length ws"
  by (induction ws rule: shift_words.induct) auto

lemma bit_drop_one: "bit (drop_bit 1 w) i \<longleftrightarrow> bit w (Suc i)" for w :: "64 word"
  by (simp add: bit_drop_bit_eq)

lemma wbit_shift_words: "wbit (shift_words ws) i \<longleftrightarrow> wbit ws (Suc i)"
proof (induction ws arbitrary: i rule: shift_words.induct)
  case 1
  show ?case by simp
next
  case (2 w)
  have "\<not> bit w 64" using bit_imp_le_length [of w 64] by auto
  then show ?case by (cases "i = 63") (auto simp: bit_drop_one simp del: One_nat_def)
next
  case (3 w v ws)
  have n: "\<not> bit w 64" using bit_imp_le_length [of w 64] by auto
  show ?case
  proof (cases "i < 64")
    case True
    then show ?thesis
      using n by (cases "i = 63") (simp_all add: bit_drop_one and_one_iff bit_or_exp [of 63, simplified] del: One_nat_def)
  next
    case False
    then have "Suc i - 64 = Suc (i - 64)" by linarith
    with False 3 show ?thesis by (simp add: not_less)
  qed
qed

definition packet_dead :: "codec \<Rightarrow> nat set" where
  "packet_dead c = {s. s < packet_base c \<or> wbit (packet_seen c) (s - packet_base c)}"

definition packet_inv :: "codec \<Rightarrow> bool" where
  "packet_inv c \<longleftrightarrow> packet_mode c \<and> length (packet_seen c) = packetWindowWords"

lemma packet_base_dead: "s < packet_base c \<Longrightarrow> s \<in> packet_dead c"
  by (simp add: packet_dead_def)

lemma packet_dead_bound:
  "packet_inv c \<Longrightarrow> s \<in> packet_dead c \<Longrightarrow> s < packet_base c + PacketWindow"
  by (auto simp: packet_dead_def packet_inv_def wbit_nth packetWindowWords_def PacketWindow_def)

text \<open>Sliding moves the base to the first number that is not dead and kills nothing.\<close>

lemma slide_packet_frame:
  "packet_mode (slide_packet n c) = packet_mode c" "cspec (slide_packet n c) = cspec c"
  "ckey (slide_packet n c) = ckey c" "packet_send (slide_packet n c) = packet_send c"
  "length (packet_seen (slide_packet n c)) = length (packet_seen c)"
  "shape_buckets (slide_packet n c) = shape_buckets c"
  by (induction n arbitrary: c) (auto simp: shiftPacketWindow_def)

lemma shift_dead:
  assumes "wbit (packet_seen c) 0" "packet_base c + 1 < 2 ^ 64"
  shows "packet_dead (shiftPacketWindow c\<lparr>packet_base := w64 (packet_base c + 1)\<rparr>) = packet_dead c"
proof (rule set_eqI)
  fix s
  from assms(2) have w: "w64 (Suc (packet_base c)) = Suc (packet_base c)" by simp
  consider "s < packet_base c" | "s = packet_base c" | "packet_base c < s" by linarith
  then show "s \<in> packet_dead (shiftPacketWindow c\<lparr>packet_base := w64 (packet_base c + 1)\<rparr>) \<longleftrightarrow> s \<in> packet_dead c"
  proof cases
    case 3
    then have "Suc (s - Suc (packet_base c)) = s - packet_base c" by linarith
    with 3 show ?thesis
      by (simp add: packet_dead_def shiftPacketWindow_def wbit_shift_words w)
  qed (use assms(1) in \<open>auto simp: packet_dead_def shiftPacketWindow_def w\<close>)
qed

lemma slide_packet_dead:
  assumes "packet_inv c" "packet_base c + n < 2 ^ 64"
  shows "packet_dead (slide_packet n c) = packet_dead c \<and>
    packet_base c \<le> packet_base (slide_packet n c) \<and> packet_base (slide_packet n c) \<le> packet_base c + n \<and>
    (packet_base (slide_packet n c) < packet_base c + n \<longrightarrow> packet_base (slide_packet n c) \<notin> packet_dead c)"
  using assms
proof (induction n arbitrary: c)
  case (Suc n)
  have ne: "packet_seen c \<noteq> []" using Suc.prems(1) by (auto simp: packet_inv_def packetWindowWords_def)
  then have w0: "wbit (packet_seen c) 0 \<longleftrightarrow> packet_seen c ! 0 AND 1 \<noteq> 0"
    by (cases "packet_seen c") (auto simp: and_one_iff)
  show ?case
  proof (cases "wbit (packet_seen c) 0")
    case False
    with w0 show ?thesis by (simp add: packet_dead_def)
  next
    case True
    define c1 where "c1 = shiftPacketWindow c\<lparr>packet_base := w64 (packet_base c + 1)\<rparr>"
    have b1: "packet_base c1 = packet_base c + 1" using Suc.prems(2) by (simp add: c1_def shiftPacketWindow_def)
    have i1: "packet_inv c1" using Suc.prems(1) by (simp add: c1_def packet_inv_def shiftPacketWindow_def)
    have d1: "packet_dead c1 = packet_dead c" using shift_dead [OF True] Suc.prems(2) by (simp add: c1_def)
    have sl: "slide_packet (Suc n) c = slide_packet n c1" using True w0 by (simp add: c1_def)
    from Suc.IH [OF i1] b1 Suc.prems(2) show ?thesis unfolding sl d1 [symmetric] by auto
  qed
qed simp

text \<open>The window holds 8192 numbers, so 8192 rounds reach the first live one.\<close>

lemma slide_packet_base_live:
  assumes "packet_inv c" "packet_base c + PacketWindow < 2 ^ 64"
  shows "packet_base (slide_packet PacketWindow c) \<notin> packet_dead (slide_packet PacketWindow c)"
proof -
  note S = slide_packet_dead [OF assms(1), of PacketWindow, OF assms(2)]
  show ?thesis
  proof (cases "packet_base (slide_packet PacketWindow c) < packet_base c + PacketWindow")
    case True
    with S show ?thesis by simp
  next
    case False
    with packet_dead_bound [OF assms(1)] S show ?thesis by auto
  qed
qed

section \<open>DecodePacket as a replay filter\<close>

definition packet_opens :: "crypto \<Rightarrow> codec \<Rightarrow> bytes \<Rightarrow> nat \<Rightarrow> bool" where
  "packet_opens C c frame q \<longleftrightarrow> \<not> window_bit (packet_seen c) (q - packet_base c) \<and> opens_at C c frame q"

lemma packet_probe_find:
  "(case find (packet_opens C c frame) ps of
      None \<Rightarrow> \<exists>e. packet_probe C c frame lasterr ps = Inl e
    | Some q \<Rightarrow> packet_probe C c frame lasterr ps =
        res_bind (decodeAt C c frame (nonceAt c q)) (\<lambda>msg.
          Inr (msg, slide_packet PacketWindow (c\<lparr>packet_seen := window_set (packet_seen c) (q - packet_base c)\<rparr>))))"
proof (induction ps arbitrary: lasterr)
  case (Cons p ps)
  from Cons.IH show ?case
    by (cases "decodeAt C c frame (nonceAt c p)"; cases "find (packet_opens C c frame) ps")
      (auto simp: packet_opens_def [of C c frame p] opens_at_def Let_def)
qed simp

definition packet_accepts :: "crypto \<Rightarrow> codec \<Rightarrow> bytes \<Rightarrow> nat \<Rightarrow> codec \<Rightarrow> bool" where
  "packet_accepts C c frame q c' \<longleftrightarrow>
     packet_base c + PacketWindow < 2 ^ 64 \<and>
     find (packet_opens C c frame) [packet_base c ..< packet_base c + PacketWindow] = Some q \<and>
     (\<exists>msg. DecodePacket C c frame = Inr (msg, c'))"

lemma packet_acceptsD:
  assumes "packet_accepts C c frame q c'" "packet_inv c"
  shows "q \<notin> packet_dead c" and "packet_dead c' = insert q (packet_dead c)" and "packet_inv c'"
    and "packet_base c' \<notin> packet_dead c'" and "packet_base c \<le> packet_base c'"
    and "cspec c' = cspec c" and "ckey c' = ckey c" and "q < packet_base c + PacketWindow"
    and "opens_at C c frame q" and "packet_base c' \<le> packet_base c + PacketWindow"
proof -
  from assms(1) have room: "packet_base c + PacketWindow < 2 ^ 64"
    and fd: "find (packet_opens C c frame) [packet_base c ..< packet_base c + PacketWindow] = Some q"
    and dec: "\<exists>msg. DecodePacket C c frame = Inr (msg, c')" by (auto simp: packet_accepts_def)
  from find_upt_bounds [OF fd] have q: "packet_base c \<le> q" "q < packet_base c + PacketWindow"
    "packet_opens C c frame q" by auto
  define c1 where "c1 = c\<lparr>packet_seen := window_set (packet_seen c) (q - packet_base c)\<rparr>"
  have c': "c' = slide_packet PacketWindow c1"
    using dec packet_probe_find [of C c frame None "[packet_base c ..< packet_base c + PacketWindow]"] fd room
    by (auto simp: DecodePacket_def c1_def split: if_splits)
  have off: "q - packet_base c < 64 * length (packet_seen c)"
    using q assms(2) by (auto simp: packet_inv_def packetWindowWords_def PacketWindow_def)
  from q(3) window_bit_wbit [OF off] have nb: "\<not> wbit (packet_seen c) (q - packet_base c)"
    by (simp add: packet_opens_def)
  with q(1) show "q \<notin> packet_dead c" by (simp add: packet_dead_def)
  have i1: "packet_inv c1" using assms(2) by (simp add: packet_inv_def c1_def window_set_def)
  have b1: "packet_base c1 = packet_base c" by (simp add: c1_def)
  have d1: "packet_dead c1 = insert q (packet_dead c)"
  proof (rule set_eqI)
    fix s
    show "s \<in> packet_dead c1 \<longleftrightarrow> s \<in> insert q (packet_dead c)"
      using q(1) wbit_window_set [OF off, of "s - packet_base c"] by (auto simp: packet_dead_def c1_def)
  qed
  from room have room1: "packet_base c1 + PacketWindow < 2 ^ 64" by (simp add: b1)
  note S = slide_packet_dead [OF i1 room1]
  show "packet_dead c' = insert q (packet_dead c)" using S by (simp add: c' d1)
  show "packet_inv c'" using i1 by (simp add: c' packet_inv_def slide_packet_frame)
  show "packet_base c' \<notin> packet_dead c'" using slide_packet_base_live [OF i1 room1] by (simp add: c')
  show "packet_base c \<le> packet_base c'" using S b1 by (simp add: c')
  show "cspec c' = cspec c" "ckey c' = ckey c" by (simp_all add: c' slide_packet_frame c1_def)
  show "q < packet_base c + PacketWindow" by (fact q(2))
  show "opens_at C c frame q" using q(3) by (simp add: packet_opens_def)
  show "packet_base c' \<le> packet_base c + PacketWindow" using S b1 by (simp add: c')
qed

interpretation packet_filter: replay_filter "packet_accepts C" packet_dead packet_inv for C
  by unfold_locales (auto dest: packet_acceptsD)

text \<open>Rejection leaves the codec as it was: errors carry no new state.\<close>

lemma DecodePacket_accepts:
  assumes "DecodePacket C c frame = Inr (msg, c')" "packet_base c + PacketWindow < 2 ^ 64"
  shows "\<exists>q. packet_accepts C c frame q c' \<and> decodeAt C c frame (nonceAt c q) = Inr msg"
proof -
  from assms have m: "packet_mode c" and
    pr: "packet_probe C c frame None [packet_base c ..< packet_base c + PacketWindow] = Inr (msg, c')"
    by (auto simp: DecodePacket_def split: if_splits)
  with packet_probe_find [of C c frame None "[packet_base c ..< packet_base c + PacketWindow]"]
  obtain q where "find (packet_opens C c frame) [packet_base c ..< packet_base c + PacketWindow] = Some q"
    "decodeAt C c frame (nonceAt c q) = Inr msg"
    by (auto split: option.splits)
  with assms show ?thesis by (auto simp: packet_accepts_def)
qed

text \<open>A receiver run over any frames: the numbers it accepts and its final state.\<close>

fun packet_log :: "crypto \<Rightarrow> codec \<Rightarrow> bytes list \<Rightarrow> nat list \<times> codec" where
  "packet_log C d [] = ([], d)"
| "packet_log C d (f # fs) =
     (case DecodePacket C d f of
        Inl _ \<Rightarrow> packet_log C d fs
      | Inr (_, d1) \<Rightarrow>
          (case packet_log C d1 fs of (qs, d2) \<Rightarrow>
            (the (find (packet_opens C d f) [packet_base d ..< packet_base d + PacketWindow]) # qs, d2)))"

lemma packet_log_run:
  assumes "packet_inv d" "packet_base d + PacketWindow * (length fs + 1) < 2 ^ 64" "packet_log C d fs = (qs, d')"
  shows "accept_run (packet_accepts C) d qs d'"
  using assms
proof (induction fs arbitrary: d qs)
  case (Cons f fs)
  have room: "packet_base d + PacketWindow < 2 ^ 64" using Cons.prems(2) by simp
  show ?case
  proof (cases "DecodePacket C d f")
    case (Inl e)
    with Cons show ?thesis by simp
  next
    case (Inr r)
    obtain msg d1 where r: "r = (msg, d1)" by (cases r)
    obtain qs1 where log: "packet_log C d1 fs = (qs1, d')" and
      qs: "qs = the (find (packet_opens C d f) [packet_base d ..< packet_base d + PacketWindow]) # qs1"
      using Cons.prems(3) Inr r by (auto split: prod.splits)
    from DecodePacket_accepts [OF Inr [unfolded r] room] obtain q where acc: "packet_accepts C d f q d1" by blast
    note A = packet_acceptsD [OF acc Cons.prems(1)]
    have "packet_base d1 + PacketWindow * (length fs + 1) < 2 ^ 64" using A(10) Cons.prems(2) by simp
    from Cons.IH [OF A(3) this log] acc show ?thesis
      unfolding qs by (auto intro: run_cons simp: packet_accepts_def)
  qed
qed (auto intro: run_nil)

text \<open>A frame that opens at a live number of the window, and at no other, is accepted there.\<close>

lemma DecodePacket_live:
  assumes "packet_inv c" "packet_base c + PacketWindow < 2 ^ 64" "q < packet_base c + PacketWindow"
    "q \<notin> packet_dead c" "decodeAt C c frame (nonceAt c q) = Inr msg"
    "\<forall>p < q. \<not> opens_at C c frame p"
  shows "\<exists>c'. DecodePacket C c frame = Inr (msg, c') \<and> packet_accepts C c frame q c'"
proof -
  from assms(4) have ge: "packet_base c \<le> q" using packet_base_dead [of q c] by (meson not_less)
  have "q - packet_base c < 64 * length (packet_seen c)"
    using assms(1,3) ge by (auto simp: packet_inv_def packetWindowWords_def PacketWindow_def)
  then have "packet_opens C c frame q"
    using assms(4,5) ge by (auto simp: packet_opens_def window_bit_wbit opens_at_def packet_dead_def)
  then have fd: "find (packet_opens C c frame) [packet_base c ..< packet_base c + PacketWindow] = Some q"
    unfolding find_Some_iff
    using ge assms(3,6) by (intro exI [of _ "q - packet_base c"]) (auto simp: packet_opens_def)
  then show ?thesis
    using packet_probe_find [of C c frame None "[packet_base c ..< packet_base c + PacketWindow]"] assms(1,2,5)
    by (auto simp: DecodePacket_def packet_inv_def packet_accepts_def)
qed

lemma DecodePacket_dead:
  assumes "packet_inv c" "packet_base c + PacketWindow < 2 ^ 64" "q \<in> packet_dead c"
    "\<forall>p < 2 ^ 64. opens_at C c frame p \<longrightarrow> p = q"
  shows "\<exists>e. DecodePacket C c frame = Inl e"
proof (cases "DecodePacket C c frame")
  case (Inr r)
  obtain msg c' where "r = (msg, c')" by (cases r)
  with Inr DecodePacket_accepts [of C c frame msg c'] assms(2) obtain p where
    "packet_accepts C c frame p c'" by auto
  moreover note packet_acceptsD [OF this assms(1)]
  moreover have "p < 2 ^ 64" using \<open>p < packet_base c + PacketWindow\<close> assms(2) by linarith
  ultimately show ?thesis using assms(3,4) by blast
qed simp

end
