(* ===== verification/Codec_Total.thy ===== *)
theory Codec_Total
  imports Codec_Frames
begin

text \<open>
  Totality of \<open>Encode\<close>: with \<open>rnd_budget\<close> random bytes and a payload that the length
  field can express, no branch of the encoder fails.
\<close>

section \<open>Encoding succeeds\<close>

text \<open>Random bytes an encrypted or plaintext field may consume.\<close>

definition field_budget :: "field_spec \<Rightarrow> nat" where
  "field_budget f =
     (case fkind f of FieldPadLen \<Rightarrow> 0 | FieldKey \<Rightarrow> 32
      | _ \<Rightarrow> (case fencoding f of EncFixedBytes \<Rightarrow> nat (fsize f) | _ \<Rightarrow> 8 + nat (fmax_size f)))"

definition rnd_budget :: "message_spec \<Rightarrow> nat" where
  "rnd_budget spec =
     16 + sum_list (map field_budget (encrypted_fields spec)) + nat (pmax (mpadding spec)) +
     sum_list (map size_or_0 (plain_fields spec))"

text \<open>An upper bound of the plaintext body, from the generator's size estimate.\<close>

definition max_body :: "message_spec \<Rightarrow> nat" where
  "max_body spec =
     sum_list (map (nat \<circ> maxEncodedFieldSize) (encrypted_fields spec)) +
     (if pmode (mpadding spec) = PaddingNone then 0 else nat (pmax (mpadding spec)))"

definition length_width :: "message_spec \<Rightarrow> nat" where
  "length_width spec = intWidth (fencoding (plain_fields spec ! nat (length_field_index spec)))"

definition inject_ok :: "injection \<Rightarrow> bool" where
  "inject_ok inject \<longleftrightarrow> (case inject FieldKey of None \<Rightarrow> True | Some raw \<Rightarrow> length raw = 32)"

lemma randInt_total:
  assumes "8 \<le> length r"
  shows "\<exists>x r'. randInt r n = Inr (x, r') \<and> length r \<le> length r' + 8"
  using assms by (auto simp: randInt_def)

lemma randIntRange_total:
  assumes "8 \<le> length r"
  shows "\<exists>x r'. randIntRange r lo hi = Inr (x, r') \<and> length r \<le> length r' + 8"
  using randInt_total [OF assms, of "hi - lo + 1"] by (auto simp: randIntRange_def)

lemma choosePadding_total:
  assumes "16 \<le> length r" "layout_ok spec"
  shows "\<exists>x r'. choosePadding (mpadding spec) r = Inr (x, r') \<and> length r \<le> length r' + 16"
proof (cases "pmode (mpadding spec)")
  case PaddingUniform
  with randIntRange_total [of r "pmin (mpadding spec)" "pmax (mpadding spec)"] assms(1)
  show ?thesis by (fastforce simp: choosePadding.simps)
next
  case PaddingBurst
  from assms(1) obtain x r' where x: "randInt r 100 = Inr (x, r')" "length r \<le> length r' + 8"
    using randInt_total [of r 100] by auto
  with randIntRange_total [of r' "pmin (mpadding spec)" "pmax (mpadding spec)"] assms(1)
  show ?thesis by (fastforce simp: choosePadding.simps PaddingBurst)
next
  case (PaddingOther s)
  with validateMessageD(6) [OF layout_okD(1) [OF assms(2)]] show ?thesis
    by (simp add: validate_padding_iff)
qed (simp add: choosePadding.simps)

lemma read_int_total:
  assumes "0 \<le> n" "nat n \<le> length r"
  shows "\<exists>b r'. read_int n r = Inr (b, r') \<and> length r = length r' + nat n \<and> length b = nat n"
  using assms by (simp add: read_int_def)

lemma encode_prefixed_total:
  assumes "0 \<le> fmin_size f" "fmin_size f \<le> fmax_size f" "8 + nat (fmax_size f) \<le> length r"
  shows "\<exists>b r'. encode_prefixed f r = Inr (b, r') \<and> length r \<le> length r' + (8 + nat (fmax_size f)) \<and>
    length b \<le> (if fencoding f = EncPrefixedU8 then 1 else 2) + nat (fmax_size f)"
proof -
  have "\<exists>n r1. (if fmin_size f < fmax_size f
            then res_bind (randInt r (fmax_size f - fmin_size f + 1)) (\<lambda>(x, r1). Inr (fmin_size f + x, r1))
            else Inr (fmin_size f, r)) = Inr (n, r1) \<and> fmin_size f \<le> n \<and> n \<le> fmax_size f \<and>
        length r \<le> length r1 + 8"
  proof (cases "fmin_size f < fmax_size f")
    case True
    from assms(3) obtain x r1 where x: "randInt r (fmax_size f - fmin_size f + 1) = Inr (x, r1)"
      "length r \<le> length r1 + 8"
      using randInt_total [of r "fmax_size f - fmin_size f + 1"] by auto
    with randInt_range [OF x(1)] True show ?thesis by auto
  qed (use assms(2) in auto)
  then obtain n r1 where n: "(if fmin_size f < fmax_size f
            then res_bind (randInt r (fmax_size f - fmin_size f + 1)) (\<lambda>(x, r1). Inr (fmin_size f + x, r1))
            else Inr (fmin_size f, r)) = Inr (n, r1)" "fmin_size f \<le> n" "n \<le> fmax_size f"
    "length r \<le> length r1 + 8" by blast
  with assms have "0 \<le> n" "nat n \<le> length r1" by linarith+
  from read_int_total [OF this] obtain b r2 where "read_int n r1 = Inr (b, r2)"
    "length r1 = length r2 + nat n" "length b = nat n" by blast
  with n show ?thesis unfolding encode_prefixed_def n(1) by auto
qed

lemma encodeEncryptedField_total:
  assumes "encrypted_size_ok f" "encrypted_field_ok f" "inject_ok inject" "field_budget f \<le> length r"
    "0 \<le> pad_len" "fkind f = FieldPadLen \<Longrightarrow> pad_len < 256 ^ intWidth (fencoding f)"
  shows "\<exists>b r'. encodeEncryptedField f pad_len inject r = Inr (b, r') \<and>
    length r \<le> length r' + field_budget f \<and> int (length b) \<le> maxEncodedFieldSize f"
proof -
  consider (pad) "fkind f = FieldPadLen" | (key) "fkind f = FieldKey"
    | (other) "fkind f \<notin> {FieldPadLen, FieldKey}" by auto
  then show ?thesis
  proof cases
    case pad
    with assms have f: "0 < intWidth (fencoding f)" "pad_len < 256 ^ intWidth (fencoding f)"
      "fendian f \<in> {EndianBig, EndianLittle}"
      by (auto simp: encrypted_size_ok_def encrypted_field_ok_def)
    have "(256 :: int) ^ intWidth (fencoding f) \<le> 256 ^ 4"
      by (rule power_increasing [OF intWidth_le_4]) simp
    with f(2) assms(5) have "pad_len mod 2 ^ 64 = pad_len" by (intro mod_pos_pos_trivial) auto
    moreover have "nat pad_len < 256 ^ intWidth (fencoding f)"
      using f(2) assms(5) by (simp add: nat_less_iff)
    ultimately have "\<exists>b. encodeInt (nat (pad_len mod 2 ^ 64)) (fencoding f) (fendian f) = Inr b"
      using encodeInt_ok [OF f(1) _ f(3)] by simp
    then obtain b where b: "encodeInt (nat (pad_len mod 2 ^ 64)) (fencoding f) (fendian f) = Inr b" ..
    have "maxEncodedFieldSize f = int (intWidth (fencoding f))"
      using fixedSize_intWidth [OF f(1)] f(1)
      by (cases "fencoding f") (auto simp: maxEncodedFieldSize.simps fieldFixedSize_eq)
    with b encodeInt_InrD(1) [OF b] pad show ?thesis
      by (simp add: encodeEncryptedField_def field_budget_def)
  next
    case key
    with assms(1,3) have "(fencoding f = EncRaw32 \<and> fsize f = 32) \<or> (fencoding f = EncX963 \<and> fsize f = 33)"
      by (simp add: encrypted_size_ok_def)
    with key assms(3,4) show ?thesis
      by (auto simp: encodeEncryptedField_def field_budget_def encode_key_def inject_ok_def
          maxEncodedFieldSize.simps fieldFixedSize_eq fixedSize.simps split: option.splits)
  next
    case other
    then have unf: "encodeEncryptedField f pad_len inject r =
      (case fencoding f of EncFixedBytes \<Rightarrow> read_int (fsize f) r | EncPrefixedU8 \<Rightarrow> encode_prefixed f r
       | EncPrefixedU16 \<Rightarrow> encode_prefixed f r | _ \<Rightarrow> Inl ErrEncoding)"
      and bud: "field_budget f = (case fencoding f of EncFixedBytes \<Rightarrow> nat (fsize f) | _ \<Rightarrow> 8 + nat (fmax_size f))"
      and sz: "case fencoding f of
                EncFixedBytes \<Rightarrow> 0 < fsize f
              | EncPrefixedU8 \<Rightarrow> 0 \<le> fmin_size f \<and> fmin_size f \<le> fmax_size f \<and> fmax_size f \<le> 255
              | EncPrefixedU16 \<Rightarrow> 0 \<le> fmin_size f \<and> fmin_size f \<le> fmax_size f \<and> fmax_size f \<le> 65535
              | _ \<Rightarrow> False"
      using assms(1)
      by (simp_all add: encodeEncryptedField_def field_budget_def encrypted_size_ok_def split: field_kind.splits)
    show ?thesis
    proof (cases "fencoding f")
      case EncFixedBytes
      with sz bud assms(4) read_int_total [of "fsize f" r] unf show ?thesis
        by (auto simp: maxEncodedFieldSize.simps fieldFixedSize_eq fixedSize.simps)
    next
      case EncPrefixedU8
      with sz bud assms(4) encode_prefixed_total [of f r] unf show ?thesis
        by (fastforce simp: maxEncodedFieldSize.simps)
    next
      case EncPrefixedU16
      with sz bud assms(4) encode_prefixed_total [of f r] unf show ?thesis
        by (fastforce simp: maxEncodedFieldSize.simps)
    qed (use sz in auto)
  qed
qed


lemma encode_encrypted_total:
  assumes "\<forall>f \<in> set fs. encrypted_size_ok f \<and> encrypted_field_ok f \<and>
      (fkind f = FieldPadLen \<longrightarrow> pad_len < 256 ^ intWidth (fencoding f))"
    "inject_ok inject" "0 \<le> pad_len" "sum_list (map field_budget fs) \<le> length r"
  shows "\<exists>bs r'. encode_encrypted fs pad_len inject r = Inr (bs, r') \<and>
    length r \<le> length r' + sum_list (map field_budget fs) \<and>
    length bs \<le> sum_list (map (nat \<circ> maxEncodedFieldSize) fs)"
  using assms
proof (induction fs arbitrary: r)
  case (Cons f fs)
  from Cons.prems have "field_budget f \<le> length r" by simp
  with Cons.prems obtain b r1 where b: "encodeEncryptedField f pad_len inject r = Inr (b, r1)"
    "length r \<le> length r1 + field_budget f" "int (length b) \<le> maxEncodedFieldSize f"
    using encodeEncryptedField_total [of f inject r pad_len] by auto
  from b(2) Cons.prems(4) have r1: "sum_list (map field_budget fs) \<le> length r1" by simp
  from Cons.prems(1) have fs: "\<forall>f \<in> set fs. encrypted_size_ok f \<and> encrypted_field_ok f \<and>
      (fkind f = FieldPadLen \<longrightarrow> pad_len < 256 ^ intWidth (fencoding f))" by simp
  from Cons.IH [OF fs Cons.prems(2,3) r1] obtain bs r2 where "encode_encrypted fs pad_len inject r1 = Inr (bs, r2)"
    "length r1 \<le> length r2 + sum_list (map field_budget fs)"
    "length bs \<le> sum_list (map (nat \<circ> maxEncodedFieldSize) fs)" by blast
  moreover have "length b \<le> nat (maxEncodedFieldSize f)" using b(3) by linarith
  ultimately show ?case using b(1,2) by (simp add: o_def)
qed simp

lemma encode_plain_value_total:
  assumes "plain_content_ok f" "is_ok (fixedSize f)"
    "fkind f = FieldLength \<longleftrightarrow> int i = length_field_index spec"
    "fkind f = FieldLength \<Longrightarrow> fl < 256 ^ intWidth (fencoding f) \<and> cl < 256 ^ intWidth (fencoding f)"
    "size_or_0 f \<le> length r"
  shows "\<exists>b r'. encode_plain_value spec i f fl cl r = Inr (b, r') \<and>
    fixedSize f = Inr (int (length b)) \<and> length r \<le> length r' + size_or_0 f"
proof -
  from assms(2) obtain n where n: "fixedSize f = Inr n" by (auto simp: is_ok_iff)
  from n have pos: "0 < n" by (rule fixedSize_pos)
  have fixed: "fencoding f = EncFixedBytes \<Longrightarrow> n = fsize f"
    using n by (auto simp: fixedSize.simps split: if_splits)
  have rd: "read_int n r = Inr (take (nat n) r, drop (nat n) r) \<and> length (take (nat n) r) = nat n"
    using pos assms(5) n by (simp add: read_int_def)
  show ?thesis
  proof (cases "fkind f = FieldLength")
    case True
    with assms(1) have w: "0 < intWidth (fencoding f)" "fendian f \<in> {EndianBig, EndianLittle}"
      by (auto simp: plain_content_ok_def)
    from True assms(4) have fit: "(if fsubject f = SubjectRecord then fl else cl) < 256 ^ intWidth (fencoding f)" by simp
    obtain b where b: "encodeInt (if fsubject f = SubjectRecord then fl else cl) (fencoding f) (fendian f) = Inr b"
      using encodeInt_ok [OF w(1) fit w(2)] by blast
    from True assms(3) have "encode_plain_value spec i f fl cl r = Inr (b, r)"
      by (simp add: encode_plain_value_def b)
    moreover have "fixedSize f = Inr (int (length b))"
      using fixedSize_intWidth [OF w(1)] encodeInt_InrD(1) [OF b] by simp
    ultimately show ?thesis by (intro exI [of _ b] exI [of _ r]) simp
  next
    case False
    with assms(3) have i: "int i \<noteq> length_field_index spec" by simp
    show ?thesis
    proof (cases "fkind f = FieldNonce \<or> (fkind f = FieldReserved \<and> fvalue_source f = ValueRandom)")
      case True
      with assms(1) have "fencoding f = EncFixedBytes" by (auto simp: plain_content_ok_def)
      with True i rd fixed have "encode_plain_value spec i f fl cl r = Inr (take (nat n) r, drop (nat n) r)"
        by (auto simp: encode_plain_value_def)
      with rd n pos show ?thesis by auto
    next
      case other: False
      with False assms(1) have "fencoding f = EncFixedBytes"
        and "\<exists>b. hex_decode (fvalue_hex f) = Some b \<and> int (length b) = fsize f"
        and k: "fkind f \<in> {FieldVersion, FieldType} \<or> (fkind f = FieldReserved \<and> fvalue_source f \<noteq> ValueRandom)"
        by (auto simp: plain_content_ok_def split: field_kind.splits)
      then obtain b where b: "hex_decode (fvalue_hex f) = Some b" "int (length b) = n" using fixed by auto
      with i k have "encode_plain_value spec i f fl cl r = Inr (b, r)"
        by (auto simp: encode_plain_value_def)
      with b n show ?thesis by auto
    qed
  qed
qed

lemma encode_plain_total:
  assumes "\<forall>k < length fs. plain_content_ok (fs ! k) \<and> is_ok (fixedSize (fs ! k)) \<and>
      (fkind (fs ! k) = FieldLength \<longleftrightarrow> int (i + k) = length_field_index spec) \<and>
      (fkind (fs ! k) = FieldLength \<longrightarrow>
         fl < 256 ^ intWidth (fencoding (fs ! k)) \<and> cl < 256 ^ intWidth (fencoding (fs ! k)))"
    "sum_list (map size_or_0 fs) \<le> length r"
  shows "\<exists>bs r'. encode_plain spec fs i fl cl r = Inr (bs, r') \<and> length r \<le> length r' + sum_list (map size_or_0 fs)"
  using assms
proof (induction fs arbitrary: i r)
  case (Cons f fs)
  from Cons.prems(1) [rule_format, of 0] have "plain_content_ok f" "is_ok (fixedSize f)"
    "fkind f = FieldLength \<longleftrightarrow> int i = length_field_index spec"
    "fkind f = FieldLength \<Longrightarrow> fl < 256 ^ intWidth (fencoding f) \<and> cl < 256 ^ intWidth (fencoding f)" by simp_all
  moreover have "size_or_0 f \<le> length r" using Cons.prems(2) by simp
  ultimately obtain b r1 where b: "encode_plain_value spec i f fl cl r = Inr (b, r1)"
    "fixedSize f = Inr (int (length b))" "length r \<le> length r1 + size_or_0 f"
    using encode_plain_value_total by blast
  have "sum_list (map size_or_0 fs) \<le> length r1" using b(3) Cons.prems(2) by simp
  moreover have "\<forall>k < length fs. plain_content_ok (fs ! k) \<and> is_ok (fixedSize (fs ! k)) \<and>
      (fkind (fs ! k) = FieldLength \<longleftrightarrow> int (Suc i + k) = length_field_index spec) \<and>
      (fkind (fs ! k) = FieldLength \<longrightarrow>
         fl < 256 ^ intWidth (fencoding (fs ! k)) \<and> cl < 256 ^ intWidth (fencoding (fs ! k)))"
  proof (intro allI impI)
    fix k assume "k < length fs"
    with Cons.prems(1) [rule_format, of "Suc k"]
    show "plain_content_ok (fs ! k) \<and> is_ok (fixedSize (fs ! k)) \<and>
      (fkind (fs ! k) = FieldLength \<longleftrightarrow> int (Suc i + k) = length_field_index spec) \<and>
      (fkind (fs ! k) = FieldLength \<longrightarrow>
         fl < 256 ^ intWidth (fencoding (fs ! k)) \<and> cl < 256 ^ intWidth (fencoding (fs ! k)))"
      by simp
  qed
  ultimately obtain bs r2 where "encode_plain spec fs (Suc i) fl cl r1 = Inr (bs, r2)"
    "length r1 \<le> length r2 + sum_list (map size_or_0 fs)"
    using Cons.IH by blast
  with b show ?case by simp
qed simp

text \<open>What the length field of a frame with this payload may have to express.\<close>

definition payload_fits :: "message_spec \<Rightarrow> nat \<Rightarrow> bool" where
  "payload_fits spec n \<longleftrightarrow>
     plainFieldsSize spec + max_body spec + n + gcmTagSize < 256 ^ length_width spec"

lemma layout_plain_total:
  assumes lay: "layout_ok spec" and "fl < 256 ^ length_width spec" "cl < 256 ^ length_width spec"
    "sum_list (map size_or_0 (plain_fields spec)) \<le> length r"
  shows "\<exists>bs r'. encodePlainFields spec fl cl r = Inr (bs, r') \<and>
    length r \<le> length r' + sum_list (map size_or_0 (plain_fields spec))"
  unfolding encodePlainFields_def
proof (rule encode_plain_total [OF _ assms(4)], intro allI impI)
  fix k assume k: "k < length (plain_fields spec)"
  note V = layout_okD(1) [OF lay]
  have "plain_content_ok (plain_fields spec ! k)" using layout_okD(3) [OF lay] k by simp
  moreover have "is_ok (fixedSize (plain_fields spec ! k))"
    using validateMessageD(3) [OF V k] by (simp add: plain_field_ok_def)
  moreover have iff: "fkind (plain_fields spec ! k) = FieldLength \<longleftrightarrow> int (0 + k) = length_field_index spec"
    using validateMessage_length_field [OF V k] by simp
  moreover have "fkind (plain_fields spec ! k) = FieldLength \<longrightarrow>
      fl < 256 ^ intWidth (fencoding (plain_fields spec ! k)) \<and>
      cl < 256 ^ intWidth (fencoding (plain_fields spec ! k))"
    using iff assms(2,3) by (auto simp: length_width_def dest!: sym [of "int _"])
  ultimately show "plain_content_ok (plain_fields spec ! k) \<and> is_ok (fixedSize (plain_fields spec ! k)) \<and>
      (fkind (plain_fields spec ! k) = FieldLength \<longleftrightarrow> int (0 + k) = length_field_index spec) \<and>
      (fkind (plain_fields spec ! k) = FieldLength \<longrightarrow>
         fl < 256 ^ intWidth (fencoding (plain_fields spec ! k)) \<and>
         cl < 256 ^ intWidth (fencoding (plain_fields spec ! k)))" by blast
qed

text \<open>The first two stages of every encoder: padding and encrypted fields.\<close>

lemma encode_stage_total:
  assumes lay: "layout_ok spec" and inj: "inject_ok inject" and
    rnd: "16 + sum_list (map field_budget (encrypted_fields spec)) \<le> length rnd"
  shows "\<exists>pad_len r1 body r2. choosePadding (mpadding spec) rnd = Inr (pad_len, r1) \<and>
    encode_encrypted (encrypted_fields spec) pad_len inject r1 = Inr (body, r2) \<and>
    length body + nat pad_len \<le> max_body spec \<and> 0 \<le> pad_len \<and> nat pad_len \<le> nat (pmax (mpadding spec)) \<and>
    length rnd \<le> length r2 + 16 + sum_list (map field_budget (encrypted_fields spec))"
proof -
  from rnd lay obtain pad_len r1 where cp: "choosePadding (mpadding spec) rnd = Inr (pad_len, r1)"
    and r1: "length rnd \<le> length r1 + 16"
    using choosePadding_total [of rnd spec] by auto
  note P = choosePadding_layout [OF lay cp]
  have pl: "nat pad_len \<le> (if pmode (mpadding spec) = PaddingNone then 0 else nat (pmax (mpadding spec)))"
    using P by auto
  have enc: "\<forall>f \<in> set (encrypted_fields spec). encrypted_size_ok f \<and> encrypted_field_ok f \<and>
      (fkind f = FieldPadLen \<longrightarrow> pad_len < 256 ^ intWidth (fencoding f))"
  proof
    fix f assume f: "f \<in> set (encrypted_fields spec)"
    have "fkind f = FieldPadLen \<longrightarrow> pad_len < 256 ^ intWidth (fencoding f)"
    proof
      assume "fkind f = FieldPadLen"
      with layout_okD(4) [OF lay] f have "pmax (mpadding spec) < 256 ^ intWidth (fencoding f)"
        by (simp add: pad_fits_def)
      moreover have "(0 :: int) < 256 ^ intWidth (fencoding f)" by simp
      ultimately show "pad_len < 256 ^ intWidth (fencoding f)" using P by fastforce
    qed
    with f layout_okD [OF lay] validateMessageD(4) [OF layout_okD(1) [OF lay]]
    show "encrypted_size_ok f \<and> encrypted_field_ok f \<and>
      (fkind f = FieldPadLen \<longrightarrow> pad_len < 256 ^ intWidth (fencoding f))" by simp
  qed
  from rnd r1 have "sum_list (map field_budget (encrypted_fields spec)) \<le> length r1" by simp
  from encode_encrypted_total [OF enc inj P(1) this] obtain body r2 where
    body: "encode_encrypted (encrypted_fields spec) pad_len inject r1 = Inr (body, r2)"
    and r2: "length r1 \<le> length r2 + sum_list (map field_budget (encrypted_fields spec))"
    and bl: "length body \<le> sum_list (map (nat \<circ> maxEncodedFieldSize) (encrypted_fields spec))" by blast
  have "length body + nat pad_len \<le> max_body spec" using bl pl by (auto simp: max_body_def)
  moreover have "nat pad_len \<le> nat (pmax (mpadding spec))" using pl by (auto split: if_splits)
  moreover have "length rnd \<le> length r2 + 16 + sum_list (map field_budget (encrypted_fields spec))"
    using r1 r2 by linarith
  ultimately show ?thesis using cp body P(1) by blast
qed

lemma pad_bytes_total:
  assumes "nat n \<le> length r"
  obtains pad r' where "(if 0 < n then read_full (nat n) r else Inr ([], r)) = Inr (pad, r')"
    "length pad = nat n" "length r = length r' + nat n"
proof (cases "0 < n")
  case True
  with assms show thesis
    by (intro that [of "take (nat n) r" "drop (nat n) r"]) (simp_all add: read_full_def)
next
  case False
  then show thesis by (intro that [of "[]" r]) simp_all
qed

lemma Encode_total:
  assumes lay: "layout_ok (cspec c)" and C: "aead_ok C" and
    pay: "has_payload (cspec c) \<or> payload = []" and inj: "inject_ok inject" and
    rnd: "rnd_budget (cspec c) \<le> length rnd" and fit: "payload_fits (cspec c) (length payload)"
  shows "\<exists>frame segs c' rnd'. Encode C c payload inject rnd = Inr (frame, segs, c', rnd') \<and>
    length frame \<le> plainFieldsSize (cspec c) + max_body (cspec c) + length payload + gcmTagSize"
proof -
  define spec where "spec = cspec c"
  note lay' = lay [folded spec_def]
  from encode_stage_total [OF lay' inj, of rnd] rnd obtain pad_len r1 body r2 where
    cp: "choosePadding (mpadding spec) rnd = Inr (pad_len, r1)" and
    body: "encode_encrypted (encrypted_fields spec) pad_len inject r1 = Inr (body, r2)" and
    bl: "length body + nat pad_len \<le> max_body spec" "nat pad_len \<le> nat (pmax (mpadding spec))" and
    r2: "length rnd \<le> length r2 + 16 + sum_list (map field_budget (encrypted_fields spec))"
    by (auto simp: rnd_budget_def spec_def)
  have left: "nat pad_len + sum_list (map size_or_0 (plain_fields spec)) \<le> length r2"
    using r2 rnd bl(2) by (simp add: rnd_budget_def spec_def)
  then have "nat pad_len \<le> length r2" by linarith
  then obtain pad r3 where pad: "(if 0 < pad_len then read_full (nat pad_len) r2 else Inr ([], r2)) = Inr (pad, r3)"
    and pd: "length pad = nat pad_len" "length r2 = length r3 + nat pad_len" by (rule pad_bytes_total)
  define pt where "pt = body @ payload @ pad"
  have ptl: "length pt \<le> max_body spec + length payload"
    using bl(1) pd(1) by (simp add: pt_def)
  then have "plainFieldsSize spec + (length pt + gcmTagSize) < 256 ^ length_width spec"
    using fit by (simp add: payload_fits_def spec_def)
  moreover have "sum_list (map size_or_0 (plain_fields spec)) \<le> length r3" using left pd(2) by linarith
  ultimately obtain plain r4 where plain: "encodePlainFields spec (plainFieldsSize spec + (length pt + gcmTagSize))
      (length pt + gcmTagSize) r3 = Inr (plain, r4)"
    using layout_plain_total [OF lay', of "plainFieldsSize spec + (length pt + gcmTagSize)" "length pt + gcmTagSize" r3]
    by auto
  define ct where "ct = aead_seal C (mcipher spec) (ckey c) (nonce c) pt plain"
  have lct: "length ct = length pt + gcmTagSize" by (simp add: ct_def aead_okD(2) [OF C] gcmTagSize_def)
  have "length plain = plainFieldsSize spec"
    using plain by (auto simp: encodePlainFields_def plainFieldsSize_def dest: encode_plain_length)
  then have "length (plain @ ct) \<le> plainFieldsSize (cspec c) + max_body (cspec c) + length payload + gcmTagSize"
    using ptl lct by (simp add: spec_def)
  moreover have "Encode C c payload inject rnd =
      Inr (plain @ ct, splitSegments (plain @ ct) spec, c\<lparr>cseq := w64 (cseq c + 1)\<rparr>, r4)"
    using cp body pad plain pay lct
    by (simp add: Encode_def Let_def spec_def pt_def ct_def)
  ultimately show ?thesis by blast
qed

end
