(* ===== verification/Packet_Frames.thy ===== *)
theory Packet_Frames
  imports Packet Codec_Total
begin

text \<open>
  Frames of the datagram mode: length shaping rewrites the pad-length field in place and keeps
  the frame decodable, a shaped frame has the length of a rung of the ladder, encoding succeeds
  within a stated random budget, and what one side of a packet session encodes the other side
  decodes, in any order inside the window.
\<close>

section \<open>The body with its pad-length position\<close>

abbreviation encodes_as :: "int \<Rightarrow> injection \<Rightarrow> field_spec \<Rightarrow> bytes \<Rightarrow> bool" where
  "encodes_as pad_len inject f b \<equiv> \<exists>r1 r2. encodeEncryptedField f pad_len inject r1 = Inr (b, r2)"

lemma encodes_as_other_pad:
  "fkind f \<noteq> FieldPadLen \<Longrightarrow> encodeEncryptedField f p inject r = encodeEncryptedField f q inject r"
  by (cases "fkind f") (simp_all add: encodeEncryptedField_def)

lemma encode_body_images:
  assumes "encode_body fs pl inject r body po pw = Inr (body', po', pw', r')"
    "\<forall>f \<in> set fs. encrypted_size_ok f \<and> encrypted_field_ok f"
  shows "\<exists>imgs. body' = body @ concat imgs \<and> list_all2 field_image fs imgs \<and>
    list_all2 (encodes_as pl inject) fs imgs \<and>
    (num_kind FieldPadLen fs = 0 \<longrightarrow> po' = po \<and> pw' = pw) \<and>
    (\<forall>k < length fs. fkind (fs ! k) = FieldPadLen \<and> num_kind FieldPadLen fs = 1 \<longrightarrow>
       po' = int (length body + length (concat (take k imgs))) \<and> pw' = length (imgs ! k))"
  using assms
proof (induction fs arbitrary: r body po pw)
  case (Cons f fs)
  from Cons.prems(1) obtain b r1 where b: "encodeEncryptedField f pl inject r = Inr (b, r1)"
    and rest: "encode_body fs pl inject r1 (body @ b)
      (if fkind f = FieldPadLen then int (length body) else po)
      (if fkind f = FieldPadLen then length b else pw) = Inr (body', po', pw', r')"
    by (auto split: if_splits)
  from Cons.IH [OF rest] Cons.prems(2) obtain imgs where
    I: "body' = (body @ b) @ concat imgs" "list_all2 field_image fs imgs"
      "list_all2 (encodes_as pl inject) fs imgs" and
    N: "num_kind FieldPadLen fs = 0 \<Longrightarrow> po' = (if fkind f = FieldPadLen then int (length body) else po) \<and>
      pw' = (if fkind f = FieldPadLen then length b else pw)" and
    K: "\<And>k. k < length fs \<Longrightarrow> fkind (fs ! k) = FieldPadLen \<Longrightarrow> num_kind FieldPadLen fs = 1 \<Longrightarrow>
      po' = int (length (body @ b) + length (concat (take k imgs))) \<and> pw' = length (imgs ! k)"
    by auto
  have img: "field_image f b" using encodeEncryptedField_image [OF b] Cons.prems(2) by simp
  have pos: "po' = int (length body + length (concat (take k (b # imgs)))) \<and> pw' = length ((b # imgs) ! k)"
    if k: "k < length (f # fs)" "fkind ((f # fs) ! k) = FieldPadLen" "num_kind FieldPadLen (f # fs) = 1" for k
  proof (cases "fkind f = FieldPadLen")
    case True
    with k(3) have none: "num_kind FieldPadLen fs = 0" by simp
    have "k = 0"
    proof (cases k)
      case (Suc j)
      with k(1,2) none show ?thesis by (auto simp: num_kind_0_iff)
    qed simp
    with N [OF none] True show ?thesis by simp
  next
    case False
    with k(2) obtain j where j: "k = Suc j" by (cases k) auto
    with k False K [of j] show ?thesis by simp
  qed
  show ?case
    by (rule exI [of _ "b # imgs"]) (use I N img b pos in \<open>auto split: if_splits\<close>)
qed simp

lemma concat_update_nth:
  assumes "k < length xs"
  shows "concat (xs[k := y]) = take (length (concat (take k xs))) (concat xs) @ y @
    drop (length (concat (take k xs)) + length (xs ! k)) (concat xs)"
proof -
  have "concat xs = concat (take k xs) @ xs ! k @ concat (drop (Suc k) xs)"
    using id_take_nth_drop [OF assms] by (metis concat.simps(2) concat_append)
  then show ?thesis by (simp add: upd_conv_take_nth_drop [OF assms])
qed

lemma pad_field_unique:
  assumes "layout_ok spec" "0 \<le> padFieldIndex spec"
  shows "nat (padFieldIndex spec) < length (encrypted_fields spec)"
    and "fkind (encrypted_fields spec ! nat (padFieldIndex spec)) = FieldPadLen"
    and "num_kind FieldPadLen (encrypted_fields spec) = 1"
    and "pmode (mpadding spec) \<noteq> PaddingNone"
proof -
  from find_pad_cases [of "encrypted_fields spec" 0] assms(2)
  show k: "nat (padFieldIndex spec) < length (encrypted_fields spec)"
    "fkind (encrypted_fields spec ! nat (padFieldIndex spec)) = FieldPadLen"
    by (auto simp: padFieldIndex_def)
  then have "num_kind FieldPadLen (encrypted_fields spec) \<noteq> 0" by (auto simp: num_kind_0_iff)
  with validateMessageD(6) [OF layout_okD(1) [OF assms(1)]]
  show "pmode (mpadding spec) \<noteq> PaddingNone" "num_kind FieldPadLen (encrypted_fields spec) = 1"
    by (auto simp: validate_padding_iff split: if_splits)
qed

lemma padFieldMax_small: "padFieldMax spec < 2 ^ 20"
  by (cases "fencoding (encrypted_fields spec ! nat (padFieldIndex spec))")
     (auto simp: padFieldMax_def Let_def)

section \<open>Shaping\<close>

definition plain_length :: "codec \<Rightarrow> bytes \<Rightarrow> bytes \<Rightarrow> int \<Rightarrow> int" where
  "plain_length c body payload pad_len =
     int (plainFieldsSize (cspec c)) + int (length body) + int (length payload) + pad_len + int gcmTagSize"

text \<open>Shaping happens only with a pad-length field, and then moves the frame onto a rung.\<close>

lemma shape_frameE:
  assumes "shape_frame c payload body pl po pw = Inr (pl', body')"
  obtains (same) "pl' = pl" "body' = body"
  | (rung) enc where "0 \<le> padFieldIndex (cspec c)" "0 < pw" "0 \<le> po"
      "plain_length c body payload pl < nextShapeSize (plain_length c body payload pl) (shape_buckets c)"
      "pl' = pl + (nextShapeSize (plain_length c body payload pl) (shape_buckets c) - plain_length c body payload pl)"
      "pl' \<le> int (padFieldMax (cspec c))"
      "encodeInt (nat (pl' mod 2 ^ 64)) (fencoding (encrypted_fields (cspec c) ! nat (padFieldIndex (cspec c))))
        (fendian (encrypted_fields (cspec c) ! nat (padFieldIndex (cspec c)))) = Inr enc"
      "length enc = pw" "body' = take (nat po) body @ enc @ drop (nat po + pw) body"
proof (cases "0 \<le> padFieldIndex (cspec c) \<and> 0 < pw \<and> 0 \<le> po \<and> shape_buckets c \<noteq> [] \<and>
    plain_length c body payload pl < nextShapeSize (plain_length c body payload pl) (shape_buckets c) \<and>
    pl + (nextShapeSize (plain_length c body payload pl) (shape_buckets c) - plain_length c body payload pl)
      \<le> int (padFieldMax (cspec c))")
  case True
  define q where "q = pl + (nextShapeSize (plain_length c body payload pl) (shape_buckets c) -
    plain_length c body payload pl)"
  from True have "shape_frame c payload body pl po pw =
      res_bind (encodeInt (nat (q mod 2 ^ 64)) (fencoding (encrypted_fields (cspec c) ! nat (padFieldIndex (cspec c))))
        (fendian (encrypted_fields (cspec c) ! nat (padFieldIndex (cspec c))))) (\<lambda>enc.
          if length enc \<noteq> pw then Inl ErrFieldSize
          else Inr (q, take (nat po) body @ enc @ drop (nat po + pw) body))"
    unfolding q_def plain_length_def shape_frame_def Let_def by (simp only: if_True simp_thms)
  with assms obtain enc where "encodeInt (nat (q mod 2 ^ 64))
      (fencoding (encrypted_fields (cspec c) ! nat (padFieldIndex (cspec c))))
      (fendian (encrypted_fields (cspec c) ! nat (padFieldIndex (cspec c)))) = Inr enc"
    "length enc = pw" "pl' = q" "body' = take (nat po) body @ enc @ drop (nat po + pw) body"
    by (auto simp: res_bind_Inr_iff split: if_splits)
  with True show thesis by (intro rung) (simp_all add: q_def)
next
  case False
  with assms show thesis
    by (intro same) (auto simp: shape_frame_def Let_def plain_length_def split: if_splits)
qed

lemma shape_frame_images:
  assumes lay: "layout_ok (cspec c)" and
    I: "list_all2 field_image (encrypted_fields (cspec c)) imgs"
      "list_all2 (encodes_as pl inject) (encrypted_fields (cspec c)) imgs" and
    pos: "\<forall>k < length (encrypted_fields (cspec c)). fkind (encrypted_fields (cspec c) ! k) = FieldPadLen \<and>
        num_kind FieldPadLen (encrypted_fields (cspec c)) = 1 \<longrightarrow>
        po = int (length (concat (take k imgs))) \<and> pw = length (imgs ! k)" and
    sh: "shape_frame c payload (concat imgs) pl po pw = Inr (pl', body')"
  shows "\<exists>imgs'. body' = concat imgs' \<and> list_all2 field_image (encrypted_fields (cspec c)) imgs' \<and>
    list_all2 (encodes_as pl' inject) (encrypted_fields (cspec c)) imgs'"
  using sh
proof (cases rule: shape_frameE)
  case same
  with I show ?thesis by blast
next
  case (rung enc)
  define k where "k = nat (padFieldIndex (cspec c))"
  define fs where "fs = encrypted_fields (cspec c)"
  note U = pad_field_unique [OF lay rung(1), folded k_def fs_def]
  from pos U have p: "po = int (length (concat (take k imgs)))" "pw = length (imgs ! k)"
    by (auto simp: fs_def)
  have len: "length imgs = length fs" using I(1) by (auto simp: fs_def dest: list_all2_lengthD)
  with U(1) have k: "k < length imgs" by simp
  have b: "body' = concat (imgs[k := enc])"
    using rung(9) p by (simp add: concat_update_nth [OF k])
  have other: "fkind (fs ! j) \<noteq> FieldPadLen" if "j < length fs" "j \<noteq> k" for j
  proof
    assume "fkind (fs ! j) = FieldPadLen"
    with U(2) that U(1) have "{j, k} \<subseteq> {i. i < length fs \<and> fkind (fs ! i) = FieldPadLen}" by auto
    then have "card {j, k} \<le> card {i. i < length fs \<and> fkind (fs ! i) = FieldPadLen}"
      by (intro card_mono) auto
    also have "\<dots> = 1" using U(3) by (simp add: num_kind_def length_filter_conv_card)
    finally show False using that(2) by simp
  qed
  have ek: "encodeEncryptedField (fs ! k) pl' inject r = Inr (enc, r)" for r
    using rung(7) U(2) by (simp add: encodeEncryptedField_def fs_def k_def)
  have okf: "encrypted_size_ok (fs ! k)" "encrypted_field_ok (fs ! k)"
    using layout_okD(2) [OF lay] validateMessageD(4) [OF layout_okD(1) [OF lay]] U(1)
    by (auto simp: fs_def)
  have imk: "field_image (fs ! k) enc"
    using encodeEncryptedField_image [OF ek okf] .
  have "list_all2 field_image fs (imgs[k := enc])"
    using I(1) imk len k unfolding list_all2_conv_all_nth fs_def [symmetric]
    by (metis length_list_update nth_list_update)
  moreover have "list_all2 (encodes_as pl' inject) fs (imgs[k := enc])"
    unfolding list_all2_conv_all_nth
  proof (intro conjI allI impI)
    fix j assume j: "j < length fs"
    show "encodes_as pl' inject (fs ! j) (imgs[k := enc] ! j)"
    proof (cases "j = k")
      case True
      with ek k show ?thesis by auto
    next
      case False
      with other [OF j] I(2) j len encodes_as_other_pad [of "fs ! j" pl' inject _ pl] show ?thesis
        by (auto simp: list_all2_conv_all_nth fs_def)
    qed
  qed (simp add: len)
  ultimately show ?thesis using b by (auto simp: fs_def)
qed

section \<open>Encoded packets are frames\<close>

lemma EncodePacketE:
  assumes "EncodePacket C c payload inject rnd = Inr (frame, c', rnd')"
  obtains pl0 r1 body0 po pw r2 pl body pad r3 plain where
    "packet_mode c" "has_payload (cspec c) \<or> payload = []"
    "choosePadding (mpadding (cspec c)) rnd = Inr (pl0, r1)"
    "encodeEncryptedBody (cspec c) pl0 inject r1 = Inr (body0, po, pw, r2)"
    "shape_frame c payload body0 pl0 po pw = Inr (pl, body)"
    "(if 0 < pl then read_full (nat pl) r2 else Inr ([], r2)) = Inr (pad, r3)"
    "encodePlainFields (cspec c) (plainFieldsSize (cspec c) + (length (body @ payload @ pad) + gcmTagSize))
       (length (body @ payload @ pad) + gcmTagSize) r3 = Inr (plain, rnd')"
    "frame = plain @ aead_seal C (mcipher (cspec c)) (ckey c) (nonceAt c (packet_send c)) (body @ payload @ pad) plain"
    "c' = c\<lparr>packet_send := w64 (packet_send c + 1)\<rparr>"
  using assms unfolding EncodePacket_def Let_def by (auto split: if_splits)

lemma shape_frame_pad:
  assumes "shape_frame c payload body pl po pw = Inr (pl', body')"
  shows "pl \<le> pl'" and "pl' = pl \<or> pl' < 2 ^ 20 \<and> 0 \<le> padFieldIndex (cspec c)"
proof -
  have "int (padFieldMax (cspec c)) < 2 ^ 20"
    using padFieldMax_small [of "cspec c"] by (simp add: less_diff_conv)
  with assms show "pl \<le> pl'" "pl' = pl \<or> pl' < 2 ^ 20 \<and> 0 \<le> padFieldIndex (cspec c)"
    by (cases rule: shape_frameE; simp)+
qed

lemma encodeEncryptedBody_images:
  assumes "layout_ok spec" "encodeEncryptedBody spec pl inject r = Inr (body, po, pw, r')"
  obtains imgs where "body = concat imgs" "list_all2 field_image (encrypted_fields spec) imgs"
    "list_all2 (encodes_as pl inject) (encrypted_fields spec) imgs"
    "\<forall>k < length (encrypted_fields spec). fkind (encrypted_fields spec ! k) = FieldPadLen \<and>
        num_kind FieldPadLen (encrypted_fields spec) = 1 \<longrightarrow>
        po = int (length (concat (take k imgs))) \<and> pw = length (imgs ! k)"
proof -
  have "\<forall>f \<in> set (encrypted_fields spec). encrypted_size_ok f \<and> encrypted_field_ok f"
    using layout_okD [OF assms(1)] by (simp add: validateMessage_iff)
  from encode_body_images [OF assms(2) [unfolded encodeEncryptedBody_def] this] that
  show thesis by auto
qed

lemma EncodePacket_frame_of:
  assumes lay: "layout_ok (cspec c)" and C: "aead_ok C" and
    enc: "EncodePacket C c payload inject rnd = Inr (frame, c', rnd')"
  shows "\<exists>pad_len plain ct. frame_of C c (packet_send c) pad_len payload inject plain ct frame \<and> pad_len < 2 ^ 63"
    and "c' = c\<lparr>packet_send := w64 (packet_send c + 1)\<rparr>"
proof -
  from enc obtain pl0 r1 body0 po pw r2 pl body pad r3 plain where
    pay: "has_payload (cspec c) \<or> payload = []" and
    cp: "choosePadding (mpadding (cspec c)) rnd = Inr (pl0, r1)" and
    body: "encodeEncryptedBody (cspec c) pl0 inject r1 = Inr (body0, po, pw, r2)" and
    sh: "shape_frame c payload body0 pl0 po pw = Inr (pl, body)" and
    pad: "(if 0 < pl then read_full (nat pl) r2 else Inr ([], r2)) = Inr (pad, r3)" and
    plain: "encodePlainFields (cspec c)
      (plainFieldsSize (cspec c) + (length (body @ payload @ pad) + gcmTagSize))
      (length (body @ payload @ pad) + gcmTagSize) r3 = Inr (plain, rnd')" and
    fr: "frame = plain @ aead_seal C (mcipher (cspec c)) (ckey c) (nonceAt c (packet_send c))
      (body @ payload @ pad) plain" and
    c': "c' = c\<lparr>packet_send := w64 (packet_send c + 1)\<rparr>" by (rule EncodePacketE)
  note P = choosePadding_layout [OF lay cp]
  from lay body obtain imgs0 where
    I: "body0 = concat imgs0" "list_all2 field_image (encrypted_fields (cspec c)) imgs0"
      "list_all2 (encodes_as pl0 inject) (encrypted_fields (cspec c)) imgs0"
      "\<forall>k < length (encrypted_fields (cspec c)). fkind (encrypted_fields (cspec c) ! k) = FieldPadLen \<and>
        num_kind FieldPadLen (encrypted_fields (cspec c)) = 1 \<longrightarrow>
        po = int (length (concat (take k imgs0))) \<and> pw = length (imgs0 ! k)"
    by (rule encodeEncryptedBody_images)
  from shape_frame_images [OF lay I(2,3,4) sh [unfolded I(1)]] obtain imgs where
    im: "body = concat imgs" "list_all2 field_image (encrypted_fields (cspec c)) imgs"
      "list_all2 (encodes_as pl inject) (encrypted_fields (cspec c)) imgs" by blast
  note S = shape_frame_pad [OF sh]
  have none: "pmode (mpadding (cspec c)) = PaddingNone \<longrightarrow> pl = 0"
    using S(2) P(2) pad_field_unique(4) [OF lay] by auto
  have small: "pl < 2 ^ 63"
    using S(2) pad_len_bound [OF lay I(3) P(2) P(3)] by auto
  have len: "length pad = nat pl"
    using pad P(1) S(1) by (auto simp: read_full_Inr_iff split: if_splits)
  show "\<exists>pad_len plain ct. frame_of C c (packet_send c) pad_len payload inject plain ct frame \<and> pad_len < 2 ^ 63"
    unfolding frame_of_def
    by (rule exI [of _ pl], rule exI [of _ plain], rule exI [of _ "aead_seal C (mcipher (cspec c)) (ckey c)
          (nonceAt c (packet_send c)) (body @ payload @ pad) plain"], rule conjI [OF _ small],
        rule exI [of _ imgs], rule exI [of _ pad], rule exI [of _ r3], rule exI [of _ rnd'])
       (use im len P(1) S(1) none pay plain fr aead_okD(2) [OF C] in \<open>simp add: gcmTagSize_def\<close>)
  show "c' = c\<lparr>packet_send := w64 (packet_send c + 1)\<rparr>" by (fact c')
qed

section \<open>The length of a shaped frame\<close>

lemma first_bucket_cases: "first_bucket n bs = n \<or> first_bucket n bs \<in> set bs \<and> n \<le> first_bucket n bs"
  by (induction bs) auto

lemma nextShapeSize_cases:
  "nextShapeSize n bs = n \<or> nextShapeSize n bs \<in> set bs \<and> n \<le> nextShapeSize n bs"
  using first_bucket_cases [of n bs] by (auto simp: nextShapeSize_def)

lemma EncodePacket_parts:
  assumes C: "aead_ok C" and lay: "layout_ok (cspec c)" and
    enc: "EncodePacket C c payload inject rnd = Inr (frame, c', rnd')" and
    cp: "choosePadding (mpadding (cspec c)) rnd = Inr (pl0, r1)" and
    bd: "encodeEncryptedBody (cspec c) pl0 inject r1 = Inr (body0, po, pw, r2)"
  shows "\<exists>pl body. shape_frame c payload body0 pl0 po pw = Inr (pl, body) \<and>
    int (length frame) = plain_length c body payload pl"
  using enc
proof (rule EncodePacketE)
  fix pl0' r1' body0' po' pw' r2' pl body pad r3 plain
  assume "choosePadding (mpadding (cspec c)) rnd = Inr (pl0', r1')"
    "encodeEncryptedBody (cspec c) pl0' inject r1' = Inr (body0', po', pw', r2')"
    and sh: "shape_frame c payload body0' pl0' po' pw' = Inr (pl, body)"
    and pad: "(if 0 < pl then read_full (nat pl) r2' else Inr ([], r2')) = Inr (pad, r3)"
    and plain: "encodePlainFields (cspec c) (plainFieldsSize (cspec c) + (length (body @ payload @ pad) + gcmTagSize))
      (length (body @ payload @ pad) + gcmTagSize) r3 = Inr (plain, rnd')"
    and fr: "frame = plain @ aead_seal C (mcipher (cspec c)) (ckey c) (nonceAt c (packet_send c))
      (body @ payload @ pad) plain"
  with cp bd have sh': "shape_frame c payload body0 pl0 po pw = Inr (pl, body)" by simp
  have "length plain = plainFieldsSize (cspec c)"
    using plain by (auto simp: encodePlainFields_def plainFieldsSize_def dest: encode_plain_length)
  moreover have "int (length pad) = pl"
    using pad choosePadding_layout(1) [OF lay cp] shape_frame_pad(1) [OF sh']
    by (auto simp: read_full_Inr_iff split: if_splits)
  ultimately have "int (length frame) = plain_length c body payload pl"
    by (simp add: fr aead_okD(2) [OF C] plain_length_def gcmTagSize_def)
  with sh' show ?thesis by blast
qed

text \<open>Where a layout has a pad-length field, its bytes lie inside the body.\<close>

lemma shape_position:
  assumes lay: "layout_ok spec" and bd: "encodeEncryptedBody spec pl inject r = Inr (body, po, pw, r')" and
    idx: "0 \<le> padFieldIndex spec"
  shows "0 \<le> po" and "0 < pw" and "nat po + pw \<le> length body"
    and "pw = intWidth (fencoding (encrypted_fields spec ! nat (padFieldIndex spec)))"
proof -
  define k where "k = nat (padFieldIndex spec)"
  note U = pad_field_unique [OF lay idx, folded k_def]
  from lay bd obtain imgs where I: "body = concat imgs"
    "list_all2 (encodes_as pl inject) (encrypted_fields spec) imgs"
    "\<forall>k < length (encrypted_fields spec). fkind (encrypted_fields spec ! k) = FieldPadLen \<and>
      num_kind FieldPadLen (encrypted_fields spec) = 1 \<longrightarrow>
      po = int (length (concat (take k imgs))) \<and> pw = length (imgs ! k)"
    by (rule encodeEncryptedBody_images)
  with U have p: "po = int (length (concat (take k imgs)))" "pw = length (imgs ! k)" by auto
  have k: "k < length imgs" using U(1) I(2) by (simp add: list_all2_lengthD)
  from I(2) U(1) have "encodes_as pl inject (encrypted_fields spec ! k) (imgs ! k)"
    by (rule list_all2_nthD)
  with U(2) have "encodeInt (nat (pl mod 2 ^ 64)) (fencoding (encrypted_fields spec ! k))
      (fendian (encrypted_fields spec ! k)) = Inr (imgs ! k)" by (auto simp: encodeEncryptedField_def)
  from encodeInt_InrD(1,3) [OF this] p(2)
  show "0 < pw" "pw = intWidth (fencoding (encrypted_fields spec ! nat (padFieldIndex spec)))"
    by (simp_all add: k_def)
  show "0 \<le> po" using p(1) by simp
  have "concat imgs = concat (take k imgs) @ imgs ! k @ concat (drop (Suc k) imgs)"
    using id_take_nth_drop [OF k] by (metis concat.simps(2) concat_append)
  then have "length body = length (concat (take k imgs)) + (length (imgs ! k) + length (concat (drop (Suc k) imgs)))"
    using I(1) by (metis length_append)
  then show "nat po + pw \<le> length body" using p by simp
qed

lemma shape_frame_length:
  assumes "layout_ok (cspec c)" "encodeEncryptedBody (cspec c) pl inject r = Inr (body, po, pw, r')"
    "shape_frame c payload body pl po pw = Inr (pl', body')"
  shows "length body' = length body"
    and "plain_length c body' payload pl' = plain_length c body payload pl \<or>
         plain_length c body' payload pl' = nextShapeSize (plain_length c body payload pl) (shape_buckets c)"
proof -
  have "length body' = length body \<and> (plain_length c body' payload pl' = plain_length c body payload pl \<or>
      plain_length c body' payload pl' = nextShapeSize (plain_length c body payload pl) (shape_buckets c))"
    using assms(3)
  proof (cases rule: shape_frameE)
    case (rung e)
    have "length body' = length body"
      using shape_position(3) [OF assms(1,2) rung(1)] rung(8,9) by simp
    with rung(5) show ?thesis by (simp add: plain_length_def)
  qed simp
  then show "length body' = length body" "plain_length c body' payload pl' = plain_length c body payload pl \<or>
      plain_length c body' payload pl' = nextShapeSize (plain_length c body payload pl) (shape_buckets c)" by auto
qed

text \<open>A frame below the top rung lands on a rung when the pad field has the room.\<close>

lemma shape_frame_rung:
  assumes "layout_ok (cspec c)" "encodeEncryptedBody (cspec c) pl inject r = Inr (body, po, pw, r')"
    "shape_frame c payload body pl po pw = Inr (pl', body')" "0 \<le> padFieldIndex (cspec c)"
    "\<forall>b \<in> set (shape_buckets c). pl + b \<le> int (padFieldMax (cspec c))" "0 \<le> pl"
  shows "plain_length c body' payload pl' = nextShapeSize (plain_length c body payload pl) (shape_buckets c)"
proof -
  define n where "n = plain_length c body payload pl"
  define t where "t = nextShapeSize n (shape_buckets c)"
  have n0: "0 < n" using assms(6) by (simp add: n_def plain_length_def gcmTagSize_def)
  from nextShapeSize_cases [of n "shape_buckets c"] consider "t = n" | "t \<in> set (shape_buckets c)" "n < t"
    unfolding t_def by fastforce
  then show ?thesis
  proof cases
    case 1
    from shape_frame_length(2) [OF assms(1-3)] 1 show ?thesis by (auto simp: n_def t_def)
  next
    case 2
    with assms(5) n0 have room: "pl + (t - n) \<le> int (padFieldMax (cspec c))" by fastforce
    have ne: "shape_buckets c \<noteq> []" using 2 by auto
    note P = shape_position [OF assms(1,2,4)]
    show ?thesis
      using assms(3)
    proof (cases rule: shape_frameE)
      case same
      then show ?thesis
        using assms(3) assms(4) P ne room 2(2) unfolding shape_frame_def Let_def
        by (auto simp: n_def t_def plain_length_def res_bind_Inr_iff split: if_splits)
    next
      case (rung e)
      with shape_frame_length(1) [OF assms(1-3)] show ?thesis by (simp add: plain_length_def)
    qed
  qed
qed

lemma EncodePacket_length:
  assumes C: "aead_ok C" and lay: "layout_ok (cspec c)" and
    enc: "EncodePacket C c payload inject rnd = Inr (frame, c', rnd')" and
    enc0: "EncodePacket C (c\<lparr>shape_buckets := []\<rparr>) payload inject rnd = Inr (frame0, c0', rnd0')"
  shows "int (length frame) \<in> {int (length frame0), nextShapeSize (int (length frame0)) (shape_buckets c)}"
    and "0 \<le> padFieldIndex (cspec c) \<Longrightarrow>
      \<forall>b \<in> set (shape_buckets c). pmax (mpadding (cspec c)) + b \<le> int (padFieldMax (cspec c)) \<Longrightarrow>
      int (length frame) = nextShapeSize (int (length frame0)) (shape_buckets c)"
proof -
  from enc obtain pl0 r1 body0 po pw r2 where
    cp: "choosePadding (mpadding (cspec c)) rnd = Inr (pl0, r1)" and
    bd: "encodeEncryptedBody (cspec c) pl0 inject r1 = Inr (body0, po, pw, r2)" by (rule EncodePacketE)
  note P = choosePadding_layout [OF lay cp]
  from EncodePacket_parts [OF C lay enc cp bd] obtain pl body where
    sh: "shape_frame c payload body0 pl0 po pw = Inr (pl, body)" and
    L: "int (length frame) = plain_length c body payload pl" by blast
  have "layout_ok (cspec (c\<lparr>shape_buckets := []\<rparr>))" using lay by simp
  from EncodePacket_parts [OF C this enc0] cp bd have
    L0: "int (length frame0) = plain_length c body0 payload pl0"
    by (auto simp: shape_frame_def plain_length_def)
  show "int (length frame) \<in> {int (length frame0), nextShapeSize (int (length frame0)) (shape_buckets c)}"
    using shape_frame_length(2) [OF lay bd sh] by (simp add: L L0)
  assume idx: "0 \<le> padFieldIndex (cspec c)" and
    room: "\<forall>b \<in> set (shape_buckets c). pmax (mpadding (cspec c)) + b \<le> int (padFieldMax (cspec c))"
  have "\<forall>b \<in> set (shape_buckets c). pl0 + b \<le> int (padFieldMax (cspec c))"
    using room P(3) pad_field_unique(4) [OF lay idx] by fastforce
  from shape_frame_rung [OF lay bd sh idx this P(1)]
  show "int (length frame) = nextShapeSize (int (length frame0)) (shape_buckets c)" by (simp add: L L0)
qed

section \<open>Encoding succeeds\<close>

lemma encode_body_encrypted:
  "encode_encrypted fs pl inject r = Inr (bs, r') \<Longrightarrow>
   \<exists>po' pw'. encode_body fs pl inject r body po pw = Inr (body @ bs, po', pw', r')"
proof (induction fs arbitrary: r bs body po pw)
  case (Cons f fs)
  then obtain b r1 cs where "encodeEncryptedField f pl inject r = Inr (b, r1)"
    "encode_encrypted fs pl inject r1 = Inr (cs, r')" "bs = b @ cs" by auto
  with Cons.IH [of r1 cs "body @ b"] show ?case by auto
qed simp

lemma shape_frame_total:
  assumes lay: "layout_ok (cspec c)" and
    bd: "encodeEncryptedBody (cspec c) pl inject r = Inr (body, po, pw, r')" and pl: "0 \<le> pl"
  shows "\<exists>pl' body'. shape_frame c payload body pl po pw = Inr (pl', body') \<and> length body' = length body \<and>
    pl \<le> pl' \<and> (pl' = pl \<or> plain_length c body' payload pl' \<in> set (shape_buckets c))"
proof -
  define q where "q = pl + (nextShapeSize (plain_length c body payload pl) (shape_buckets c) -
    plain_length c body payload pl)"
  define f where "f = encrypted_fields (cspec c) ! nat (padFieldIndex (cspec c))"
  have "is_ok (shape_frame c payload body pl po pw)"
  proof (cases "0 \<le> padFieldIndex (cspec c) \<and> 0 < pw \<and> 0 \<le> po \<and> shape_buckets c \<noteq> [] \<and>
      plain_length c body payload pl < nextShapeSize (plain_length c body payload pl) (shape_buckets c) \<and>
      q \<le> int (padFieldMax (cspec c))")
    case True
    then have idx: "0 \<le> padFieldIndex (cspec c)" and
      gt: "plain_length c body payload pl < nextShapeSize (plain_length c body payload pl) (shape_buckets c)" and
      le: "q \<le> int (padFieldMax (cspec c))" by blast+
    note U = pad_field_unique [OF lay idx, folded f_def] and P = shape_position [OF lay bd idx, folded f_def]
    have fm: "f \<in> set (encrypted_fields (cspec c))" using U(1) by (simp add: f_def)
    have e: "fendian f \<in> {EndianBig, EndianLittle}"
      using layout_okD(2) [OF lay fm] U(2) by (simp add: encrypted_size_ok_def)
    have q0: "0 \<le> q" using pl gt by (simp add: q_def)
    have small: "nat (q mod 2 ^ 64) = nat q"
      using le padFieldMax_small [of "cspec c"] q0 by (simp add: mod_pos_pos_trivial)
    have "nat q < 256 ^ intWidth (fencoding f)"
      using padFieldMax_fits [OF idx, of "nat q"] le q0 P(2,4) by (simp add: f_def)
    with encodeInt_ok [of "fencoding f" "nat q" "fendian f"] P(2,4) e
    have "is_ok (encodeInt (nat (q mod 2 ^ 64)) (fencoding f) (fendian f))"
      unfolding small by (simp add: is_ok_iff)
    then obtain enc where enc: "encodeInt (nat (q mod 2 ^ 64)) (fencoding f) (fendian f) = Inr enc"
      by (auto simp: is_ok_iff)
    from encodeInt_InrD(1) [OF enc] P(4) have "length enc = pw" by simp
    with enc True show ?thesis
      unfolding shape_frame_def Let_def plain_length_def [symmetric] q_def f_def by simp
  next
    case False
    then show ?thesis unfolding shape_frame_def Let_def plain_length_def [symmetric] q_def by auto
  qed
  then obtain pl' body' where sh: "shape_frame c payload body pl po pw = Inr (pl', body')"
    by (auto simp: is_ok_iff)
  have "pl' = pl \<or> plain_length c body' payload pl' \<in> set (shape_buckets c)"
    using sh
  proof (cases rule: shape_frameE)
    case (rung e)
    have "plain_length c body' payload pl' = nextShapeSize (plain_length c body payload pl) (shape_buckets c)"
      using rung(5) shape_frame_length(1) [OF lay bd sh] by (simp add: plain_length_def)
    moreover have "nextShapeSize (plain_length c body payload pl) (shape_buckets c) \<in> set (shape_buckets c)"
      using nextShapeSize_cases [of "plain_length c body payload pl" "shape_buckets c"] rung(4) by auto
    ultimately show ?thesis by simp
  qed simp
  with sh shape_frame_pad(1) [OF sh] shape_frame_length(1) [OF lay bd sh] show ?thesis by blast
qed

text \<open>The budget of a datagram: the stream budget, and a frame padded to the highest rung.\<close>

definition packet_budget :: "codec \<Rightarrow> nat" where
  "packet_budget c = rnd_budget (cspec c) + nat (foldr max (shape_buckets c) 0)"

definition packet_fits :: "codec \<Rightarrow> nat \<Rightarrow> bool" where
  "packet_fits c n \<longleftrightarrow>
     payload_fits (cspec c) n \<and> (\<forall>b \<in> set (shape_buckets c). b < 256 ^ length_width (cspec c))"

lemma foldr_max_ge: "b \<in> set bs \<Longrightarrow> b \<le> foldr max bs (0 :: int)"
  by (induction bs) auto

lemma EncodePacket_total_length:
  assumes lay: "layout_ok (cspec c)" and mode: "packet_mode c" and
    pay: "has_payload (cspec c) \<or> payload = []" and inj: "inject_ok inject" and
    rnd: "packet_budget c \<le> length rnd" and fit: "packet_fits c (length payload)"
  shows "\<exists>frame c' rnd'. EncodePacket C c payload inject rnd = Inr (frame, c', rnd') \<and>
    (aead_ok C \<longrightarrow> length frame \<le> max (plainFieldsSize (cspec c) + max_body (cspec c) + length payload + gcmTagSize)
       (nat (foldr max (shape_buckets c) 0))) \<and> length rnd \<le> length rnd' + packet_budget c"
proof -
  define spec where "spec = cspec c"
  define P where "P = sum_list (map size_or_0 (plain_fields spec))"
  note lay' = lay [folded spec_def]
  from encode_stage_total [OF lay' inj, of rnd] rnd obtain pl0 r1 body0 r2 where
    cp: "choosePadding (mpadding spec) rnd = Inr (pl0, r1)" and
    body: "encode_encrypted (encrypted_fields spec) pl0 inject r1 = Inr (body0, r2)" and
    lenb: "length body0 + nat pl0 \<le> max_body spec" and pl0: "0 \<le> pl0" "nat pl0 \<le> nat (pmax (mpadding spec))" and
    r2: "length rnd \<le> length r2 + 16 + sum_list (map field_budget (encrypted_fields spec))"
    by (auto simp: packet_budget_def rnd_budget_def spec_def)
  from encode_body_encrypted [OF body, of "[]" "-1" 0] obtain po pw where
    bd: "encodeEncryptedBody spec pl0 inject r1 = Inr (body0, po, pw, r2)"
    by (auto simp: encodeEncryptedBody_def)
  from shape_frame_total [OF lay bd [unfolded spec_def] pl0(1), of payload] obtain pl body where
    sh: "shape_frame c payload body0 pl0 po pw = Inr (pl, body)" and
    S: "length body = length body0" "pl0 \<le> pl" "pl = pl0 \<or> plain_length c body payload pl \<in> set (shape_buckets c)"
    by (auto simp: spec_def)
  have big: "P + nat (pmax (mpadding spec)) + nat (foldr max (shape_buckets c) 0) \<le> length r2"
    using r2 rnd by (simp add: packet_budget_def rnd_budget_def spec_def P_def)
  have "nat pl \<le> nat (pmax (mpadding spec)) + nat (foldr max (shape_buckets c) 0)"
    using S(3)
  proof
    assume "plain_length c body payload pl \<in> set (shape_buckets c)"
    from foldr_max_ge [OF this] have "pl \<le> foldr max (shape_buckets c) 0" by (simp add: plain_length_def)
    then show ?thesis by linarith
  qed (use pl0(2) in linarith)
  with big have left: "nat pl + P \<le> length r2" by linarith
  then have "nat pl \<le> length r2" by linarith
  then obtain pad r3 where pad: "(if 0 < pl then read_full (nat pl) r2 else Inr ([], r2)) = Inr (pad, r3)"
    and pd: "length pad = nat pl" "length r2 = length r3 + nat pl" by (rule pad_bytes_total)
  define n where "n = length (body @ payload @ pad) + gcmTagSize"
  have "plainFieldsSize spec + n < 256 ^ length_width spec"
    using S(3)
  proof
    assume "pl = pl0"
    with fit lenb S(1) pd(1) show ?thesis
      by (simp add: packet_fits_def payload_fits_def spec_def n_def)
  next
    assume "plain_length c body payload pl \<in> set (shape_buckets c)"
    moreover have "int (plainFieldsSize spec + n) = plain_length c body payload pl"
      using pd(1) S(2) pl0(1) by (simp add: plain_length_def n_def spec_def)
    ultimately have "int (plainFieldsSize spec + n) < 256 ^ length_width spec"
      using fit by (simp add: packet_fits_def spec_def)
    also have "(256 :: int) ^ length_width spec = int (256 ^ length_width spec)" by simp
    finally show ?thesis by (simp only: of_nat_less_iff)
  qed
  moreover have "P \<le> length r3" using left pd(2) by linarith
  ultimately obtain plain r4 where pl4: "encodePlainFields spec (plainFieldsSize spec + n) n r3 = Inr (plain, r4)"
    and r4: "length r3 \<le> length r4 + P"
    using layout_plain_total [OF lay', of "plainFieldsSize spec + n" n r3] unfolding P_def by auto
  have "plainFieldsSize spec + n \<le> max (plainFieldsSize spec + max_body spec + length payload + gcmTagSize)
      (nat (foldr max (shape_buckets c) 0))"
    using S(3)
  proof
    assume "pl = pl0"
    with lenb S(1) pd(1) show ?thesis by (simp add: n_def)
  next
    assume "plain_length c body payload pl \<in> set (shape_buckets c)"
    from foldr_max_ge [OF this] show ?thesis
      using pd(1) S(2) pl0(1) by (simp add: plain_length_def n_def spec_def)
  qed
  moreover have "length plain = plainFieldsSize spec"
    using pl4 by (auto simp: encodePlainFields_def plainFieldsSize_def dest: encode_plain_length)
  moreover have "length rnd \<le> length r4 + packet_budget c"
    using r2 r4 pd(2) \<open>nat pl \<le> nat (pmax (mpadding spec)) + nat (foldr max (shape_buckets c) 0)\<close>
    by (simp add: packet_budget_def rnd_budget_def spec_def P_def)
  ultimately show ?thesis using mode pay cp bd sh pad pl4
    unfolding EncodePacket_def Let_def spec_def n_def by (simp add: aead_okD(2) gcmTagSize_def add.assoc)
qed

lemma EncodePacket_total:
  assumes "layout_ok (cspec c)" "packet_mode c" "has_payload (cspec c) \<or> payload = []" "inject_ok inject"
    "packet_budget c \<le> length rnd" "packet_fits c (length payload)"
  shows "is_ok (EncodePacket C c payload inject rnd)"
  using EncodePacket_total_length [OF assms, where C = C] by (auto simp: is_ok_iff)

section \<open>Delivery\<close>

text \<open>The receive loop of a transport: a frame that fails is dropped and changes nothing.\<close>

fun deliver :: "crypto \<Rightarrow> codec \<Rightarrow> bytes list \<Rightarrow> bytes option list \<times> codec" where
  "deliver C c [] = ([], c)"
| "deliver C c (frame # frames) =
     (case DecodePacket C c frame of
        Inl _ \<Rightarrow> (let (out, c') = deliver C c frames in (None # out, c'))
      | Inr (msg, c1) \<Rightarrow> (let (out, c') = deliver C c1 frames in (Some (msg_payload msg) # out, c')))"

fun encode_all :: "crypto \<Rightarrow> codec \<Rightarrow> bytes list \<Rightarrow> reader \<Rightarrow> (bytes list \<times> codec \<times> reader) res" where
  "encode_all C c [] rnd = Inr ([], c, rnd)"
| "encode_all C c (p # ps) rnd =
     res_bind (EncodePacket C c p (\<lambda>_. None) rnd) (\<lambda>(frame, c1, rnd1).
     res_bind (encode_all C c1 ps rnd1) (\<lambda>(frames, c2, rnd2). Inr (frame # frames, c2, rnd2)))"

definition carries :: "crypto \<Rightarrow> codec \<Rightarrow> nat \<Rightarrow> bytes \<Rightarrow> bytes \<Rightarrow> bool" where
  "carries C c q payload frame \<longleftrightarrow>
     (\<exists>pad_len inject plain ct. frame_of C c q pad_len payload inject plain ct frame \<and> pad_len < 2 ^ 63)"

lemma carries_cong: "cspec d = cspec c \<Longrightarrow> ckey d = ckey c \<Longrightarrow> carries C d q p f = carries C c q p f"
  by (simp add: carries_def frame_of_def nonceAt_def)

lemma encode_all_carries:
  assumes "encode_all C c ps rnd = Inr (frames, c', rnd')" "layout_ok (cspec c)" "aead_ok C"
    "packet_send c + length ps < 2 ^ 64"
  shows "length frames = length ps" and "\<forall>i < length ps. carries C c (packet_send c + i) (ps ! i) (frames ! i)"
proof -
  have "length frames = length ps \<and> (\<forall>i < length ps. carries C c (packet_send c + i) (ps ! i) (frames ! i))"
    using assms
  proof (induction ps arbitrary: c rnd frames)
    case (Cons p ps)
    from Cons.prems(1) obtain frame c1 rnd1 fs where e: "EncodePacket C c p (\<lambda>_. None) rnd = Inr (frame, c1, rnd1)"
      and rest: "encode_all C c1 ps rnd1 = Inr (fs, c', rnd')" and fr: "frames = frame # fs" by auto
    note F = EncodePacket_frame_of [OF Cons.prems(2,3) e]
    have c1: "cspec c1 = cspec c" "ckey c1 = ckey c" "packet_send c1 = packet_send c + 1"
      using F(2) Cons.prems(4) by simp_all
    have I: "length fs = length ps" "\<forall>i < length ps. carries C c1 (packet_send c1 + i) (ps ! i) (fs ! i)"
      using Cons.IH [OF rest] Cons.prems(2,3,4) c1 by auto
    have "carries C c (packet_send c) p frame" using F(1) unfolding carries_def by blast
    with I show ?case
      by (auto simp: fr nth_Cons carries_cong [OF c1(1,2)] c1(3) split: nat.split)
  qed simp
  then show "length frames = length ps"
    "\<forall>i < length ps. carries C c (packet_send c + i) (ps ! i) (frames ! i)" by auto
qed

text \<open>One frame at the receiver.\<close>

lemma DecodePacket_carries:
  assumes lay: "layout_ok (cspec c)" and C: "aead_ok C" "aead_nonce_ok C" and
    fr: "carries C c q payload frame" and d: "cspec d = cspec c" "ckey d = ckey c" and
    inv: "packet_inv d" "packet_base d + PacketWindow < 2 ^ 64" "q < packet_base d + PacketWindow"
  shows "q \<notin> packet_dead d \<Longrightarrow> \<exists>msg d'. DecodePacket C d frame = Inr (msg, d') \<and> msg_payload msg = payload \<and>
      packet_dead d' = insert q (packet_dead d) \<and> packet_inv d' \<and> cspec d' = cspec c \<and> ckey d' = ckey c"
    and "q \<in> packet_dead d \<Longrightarrow> \<exists>e. DecodePacket C d frame = Inl e"
proof -
  from fr obtain pad_len inject plain ct where
    f: "frame_of C c q pad_len payload inject plain ct frame" and pl: "pad_len < 2 ^ 63"
    unfolding carries_def by blast
  have q: "q < 2 ^ 64" using inv(2,3) by linarith
  have nn: "nonceAt d q = nonceAt c q" by (simp add: nonceAt_def d)
  from decodeAt_frame_of [OF lay C(1) f d pl] obtain msg where
    m: "decodeAt C d frame (nonceAt d q) = Inr msg" "msg_payload msg = payload" by (auto simp: nn)
  have only: "\<not> opens_at C d frame p" if "p < 2 ^ 64" "p \<noteq> q" for p
    using decodeAt_other_nonce [OF f C(2) d that(1) q that(2)] by (simp add: opens_at_def)
  show "\<exists>msg d'. DecodePacket C d frame = Inr (msg, d') \<and> msg_payload msg = payload \<and>
      packet_dead d' = insert q (packet_dead d) \<and> packet_inv d' \<and> cspec d' = cspec c \<and> ckey d' = ckey c"
    if live: "q \<notin> packet_dead d"
  proof -
    have "\<forall>p < q. \<not> opens_at C d frame p" using only q by (metis less_trans nat_neq_iff)
    from DecodePacket_live [OF inv live m(1) this] obtain d' where
      "DecodePacket C d frame = Inr (msg, d')" "packet_accepts C d frame q d'" by blast
    with packet_acceptsD [OF this(2) inv(1)] m(2) d show ?thesis by auto
  qed
  show "\<exists>e. DecodePacket C d frame = Inl e" if "q \<in> packet_dead d"
    by (rule DecodePacket_dead [OF inv(1,2) that]) (use only in blast)
qed

text \<open>
  Frames sent by one codec, delivered in any order and any number of times: every first copy
  yields its payload, every further copy is dropped.
\<close>

lemma deliver_any_order:
  assumes lay: "layout_ok (cspec c)" and C: "aead_ok C" "aead_nonce_ok C" and
    fr: "\<forall>i < n. carries C c i (ps ! i) (frames ! i)" and n: "n \<le> PacketWindow" and
    d: "cspec d = cspec c" "ckey d = ckey c" "packet_inv d" "packet_dead d \<subseteq> {..<n}" and
    ord: "set order \<subseteq> {..<n}"
  shows "fst (deliver C d (map ((!) frames) order)) =
    map (\<lambda>k. if order ! k \<in> packet_dead d \<union> set (take k order) then None else Some (ps ! (order ! k)))
      [0 ..< length order]"
  using d ord
proof (induction order arbitrary: d)
  case (Cons q qs)
  have "packet_base d \<notin> {..<packet_base d}" by simp
  have base: "packet_base d \<le> n"
  proof (cases "packet_base d")
    case (Suc b)
    then have "b \<in> packet_dead d" by (simp add: packet_dead_def)
    with Cons.prems(4) Suc show ?thesis by auto
  qed simp
  with n have room: "packet_base d + PacketWindow < 2 ^ 64" by (simp add: PacketWindow_def)
  from Cons.prems(5) have q: "q < n" by simp
  with n have qw: "q < packet_base d + PacketWindow" by simp
  note D = DecodePacket_carries [OF lay C fr [rule_format, OF q] Cons.prems(1-3) room qw]
  have shift: "[0 ..< Suc (length qs)] = 0 # map Suc [0 ..< length qs]"
    by (simp add: map_Suc_upt upt_conv_Cons del: upt_Suc)
  show ?case
  proof (cases "q \<in> packet_dead d")
    case True
    with D(2) obtain e where "DecodePacket C d (frames ! q) = Inl e" by blast
    moreover from Cons.IH [OF Cons.prems(1-4)] Cons.prems(5)
    have "fst (deliver C d (map ((!) frames) qs)) = map (\<lambda>k. if qs ! k \<in> packet_dead d \<union> set (take k qs)
      then None else Some (ps ! (qs ! k))) [0 ..< length qs]" by simp
    ultimately show ?thesis using True by (auto simp: shift Let_def simp del: upt_Suc split: prod.split)
  next
    case False
    with D(1) obtain msg d' where d': "DecodePacket C d (frames ! q) = Inr (msg, d')" "msg_payload msg = ps ! q"
      "packet_dead d' = insert q (packet_dead d)" "packet_inv d'" "cspec d' = cspec c" "ckey d' = ckey c" by blast
    have "packet_dead d' \<subseteq> {..<n}" using d'(3) Cons.prems(4) q by auto
    from Cons.IH [OF d'(5,6,4) this] Cons.prems(5)
    have "fst (deliver C d' (map ((!) frames) qs)) = map (\<lambda>k. if qs ! k \<in> insert q (packet_dead d) \<union> set (take k qs)
      then None else Some (ps ! (qs ! k))) [0 ..< length qs]" by (simp add: d'(3))
    with False d'(1,2) show ?thesis by (auto simp: shift Let_def simp del: upt_Suc split: prod.split)
  qed
qed simp

lemma NewPacketMessageCodec_fresh:
  assumes "NewPacketMessageCodec spec key = Inr c"
  shows "packet_inv c" "packet_dead c = {}" "cspec c = spec" "ckey c = key" "packet_send c = 0"
    "packet_mode c" "shape_buckets c = []"
  using assms
  by (auto simp: NewPacketMessageCodec_def NewMessageCodec_def packet_inv_def packet_dead_def wbit_nth
      packetWindowWords_def split: if_splits)

end
