(* ===== verification/Codec_Stream.thy ===== *)
theory Codec_Stream
  imports Codec_Frames
begin

text \<open>
  Frames on a transport: segmentation, stream framing as an instance of the \<open>stream_codec\<close>
  interface, and the declared frame of a padded datagram.
\<close>

section \<open>Segments\<close>

lemma concat_split_at: "concat (split_at spec frame fs i before) = frame"
proof (induction fs arbitrary: i before)
  case (Cons f fs)
  have "take before frame @ take n (drop before frame) @ drop (before + n) frame = frame" for n
    by (metis append_take_drop_id drop_drop add.commute)
  with Cons show ?case by (auto simp: Let_def)
qed simp

lemma concat_splitSegments: "concat (splitSegments frame spec) = frame"
  by (simp add: splitSegments_def concat_split_at)

section \<open>Stream framing\<close>

definition framed :: "message_spec \<Rightarrow> bytes \<Rightarrow> bool" where
  "framed spec frame \<longleftrightarrow>
     layout_ok spec \<and>
     (\<exists>plain ct r r'. frame = plain @ ct \<and> length ct \<le> 2 ^ 26 \<and>
        encode_plain spec (plain_fields spec) 0 (length frame) (length ct) r = Inr (plain, r'))"

lemma frame_of_framed:
  assumes "layout_ok (cspec c)" "frame_of C c seq pad_len payload inject plain ct frame"
    "length frame \<le> 2 ^ 26"
  shows "framed (cspec c) frame"
proof -
  from assms(2) obtain r r' where
    "encode_plain (cspec c) (plain_fields (cspec c)) 0 (length frame) (length ct) r = Inr (plain, r')"
    by (rule frame_of_plain)
  moreover have "length ct \<le> 2 ^ 26" using frame_of_sizes [OF assms(2)] assms(3) by simp
  ultimately show ?thesis using assms(1) frame_of_sizes(2) [OF assms(2)] unfolding framed_def by blast
qed

text \<open>What both framings compute from a frame: its declared length and subject.\<close>

lemma framed_declared:
  assumes "framed spec frame"
  obtains plain ct k v where "frame = plain @ ct" "length ct \<le> 2 ^ 26"
    "length_field_index spec = int k" "k < length (plain_fields spec)"
    "fsubject (plain_fields spec ! k) \<in> {SubjectCiphertext, SubjectRecord}"
    "v = (if fsubject (plain_fields spec ! k) = SubjectRecord then length frame else length ct)"
    "v < 2 ^ 63"
    "\<forall>rest. read_plain spec (plain_fields spec) 0 (plain @ rest) = Inr (plain, Some v, rest)"
    "\<forall>rest. declared_plain spec (plain @ rest) (plain_fields spec) 0 0 =
       Inr (length plain, Some (v, fsubject (plain_fields spec ! k)))"
proof -
  from assms obtain plain ct r r' where lay: "layout_ok spec" and fr: "frame = plain @ ct" "length ct \<le> 2 ^ 26"
    and ep: "encode_plain spec (plain_fields spec) 0 (length frame) (length ct) r = Inr (plain, r')"
    by (auto simp: framed_def)
  from lay obtain k where k: "k < length (plain_fields spec)" "length_field_index spec = int k"
    and sub: "fsubject (plain_fields spec ! k) \<in> {SubjectCiphertext, SubjectRecord}"
    by (rule layout_length_field)
  define v where "v = (if fsubject (plain_fields spec ! k) = SubjectRecord then length frame else length ct)"
  from k have dv: "declared_value spec (plain_fields spec) 0 (length frame) (length ct) = Some v"
    by (simp add: declared_value_nth v_def)
  from k have ds: "declared_subject spec (plain_fields spec) 0 = Some (fsubject (plain_fields spec ! k))"
    by (simp add: declared_subject_nth)
  show thesis
  proof (rule that [OF fr k(2,1) sub v_def encode_plain_small [OF ep dv]])
    show "\<forall>rest. read_plain spec (plain_fields spec) 0 (plain @ rest) = Inr (plain, Some v, rest)"
      using encode_plain_read_plain [OF ep] dv by simp
    show "\<forall>rest. declared_plain spec (plain @ rest) (plain_fields spec) 0 0 =
       Inr (length plain, Some (v, fsubject (plain_fields spec ! k)))"
      using encode_plain_declared_plain [OF ep, of "[]"] dv ds by simp
  qed
qed

lemma ReadFrame_framed:
  assumes "framed spec frame"
  shows "ReadFrame (frame @ rest) spec = Inr (frame, rest)"
proof -
  from assms obtain plain ct k v where fr: "frame = plain @ ct" "length ct \<le> 2 ^ 26"
    and k: "length_field_index spec = int k" "k < length (plain_fields spec)"
    and sub: "fsubject (plain_fields spec ! k) \<in> {SubjectCiphertext, SubjectRecord}"
    and v: "v = (if fsubject (plain_fields spec ! k) = SubjectRecord then length frame else length ct)" "v < 2 ^ 63"
    and rp: "\<forall>rest. read_plain spec (plain_fields spec) 0 (plain @ rest) = Inr (plain, Some v, rest)"
    and dp: "\<forall>rest. declared_plain spec (plain @ rest) (plain_fields spec) 0 0 =
       Inr (length plain, Some (v, fsubject (plain_fields spec ! k)))"
    by (rule framed_declared)
  from sub v fr(1) have rest: "(case fsubject (plain_fields spec ! k) of
        SubjectCiphertext \<Rightarrow> Inr (go_int v)
      | SubjectRecord \<Rightarrow> Inr (go_int v - int (length plain))
      | SubjectOther _ \<Rightarrow> Inl ErrLengthSubject) = (Inr (int (length ct)) :: int res)"
    by auto
  have "int (length ct) \<le> 2 ^ 26" using fr(2) by simp
  with rest k rp show ?thesis
    by (simp add: ReadFrame_def fr(1))
qed

interpretation frames: stream_codec "\<lambda>r. ReadFrame r spec" "\<lambda>f. f" "framed spec" for spec
  by unfold_locales (rule ReadFrame_framed)

lemma DeclaredFrame_framed:
  assumes "framed spec frame"
  shows "DeclaredFrame spec (frame @ junk) = Inr frame"
proof -
  from assms obtain plain ct k v where fr: "frame = plain @ ct" "length ct \<le> 2 ^ 26"
    and k: "length_field_index spec = int k" "k < length (plain_fields spec)"
    and sub: "fsubject (plain_fields spec ! k) \<in> {SubjectCiphertext, SubjectRecord}"
    and v: "v = (if fsubject (plain_fields spec ! k) = SubjectRecord then length frame else length ct)" "v < 2 ^ 63"
    and rp: "\<forall>rest. read_plain spec (plain_fields spec) 0 (plain @ rest) = Inr (plain, Some v, rest)"
    and dp: "\<forall>rest. declared_plain spec (plain @ rest) (plain_fields spec) 0 0 =
       Inr (length plain, Some (v, fsubject (plain_fields spec ! k)))"
    by (rule framed_declared)
  from sub v fr(1) have n: "(case fsubject (plain_fields spec ! k) of
        SubjectCiphertext \<Rightarrow> Inr (int (length plain) + go_int v)
      | SubjectRecord \<Rightarrow> Inr (go_int v)
      | SubjectOther _ \<Rightarrow> Inl ErrLengthSubject) = (Inr (int (length frame)) :: int res)"
    by auto
  show ?thesis
    using dp n by (simp add: DeclaredFrame_def fr(1))
qed

end
