(* ===== verification/Handshake.thy ===== *)
theory Handshake
  imports Packet_Frames Codec_Stream
begin

text \<open>
  The compiled protocol and the handshake state machine (\<open>internal/compiler/compile.go\<close>,
  \<open>internal/compiler/handshake.go\<close>): compilation, the steps of one endpoint in stream and in
  packet mode, the capture of the peer's ephemeral key, the session key schedule and the
  sessions. The main result is a lockstep argument: two endpoints of the same compiled protocol
  finish together and derive crosswise equal keys.
\<close>

section \<open>Compilation\<close>

record compiled_protocol =
  cgenome :: protocol_genome
  boot_c2s :: bytes
  boot_s2c :: bytes
  chandshake :: "message_spec list"

definition bootstrap_key :: "bytes \<Rightarrow> bytes \<Rightarrow> message_spec \<Rightarrow> bytes" where
  "bootstrap_key c2s s2c spec = (if mdirection spec = DirServer then s2c else c2s)"

fun handshake_codecs :: "bytes \<Rightarrow> bytes \<Rightarrow> message_spec list \<Rightarrow> codec list res" where
  "handshake_codecs c2s s2c [] = Inr []"
| "handshake_codecs c2s s2c (spec # specs) =
     res_bind (NewMessageCodec spec (bootstrap_key c2s s2c spec)) (\<lambda>c.
     res_bind (handshake_codecs c2s s2c specs) (\<lambda>cs. Inr (c # cs)))"

definition Compile :: "crypto \<Rightarrow> protocol_genome option \<Rightarrow> bytes \<Rightarrow> compiled_protocol res" where
  "Compile C go psk =
     (case go of
        None \<Rightarrow> Inl ErrGenome
      | Some g \<Rightarrow>
          if psk = [] then Inl ErrPsk
          else if gschema g \<noteq> GeneratorSchema then Inl ErrGenome
          else if handshake g = [] then Inl ErrGenome
          else
            res_bind (KeyLen (mcipher (hd (handshake g)))) (\<lambda>key_len.
              let salt = text_bytes ''chimera-pgc/0/bootstrap-salt'' in
              res_bind (of_option ErrKdf (hkdf_key C psk salt ''chimera-pgc/0/bootstrap/c2s'' key_len)) (\<lambda>c2s.
              res_bind (of_option ErrKdf (hkdf_key C psk salt ''chimera-pgc/0/bootstrap/s2c'' key_len)) (\<lambda>s2c.
              res_bind (handshake_codecs c2s s2c (handshake g)) (\<lambda>_.
              res_bind (validateMessage (app_record g)) (\<lambda>_.
                Inr \<lparr>cgenome = g, boot_c2s = c2s, boot_s2c = s2c, chandshake = handshake g\<rparr>))))))"

definition NewHandshakeCodecs :: "compiled_protocol \<Rightarrow> codec list res" where
  "NewHandshakeCodecs cp = handshake_codecs (boot_c2s cp) (boot_s2c cp) (chandshake cp)"

section \<open>One endpoint\<close>

text \<open>The transcript hash is the list of bytes written to it so far.\<close>

record handshake_state =
  hrole :: direction
  hcp :: compiled_protocol
  hpsk :: bytes
  hcodecs :: "codec list"
  hpriv :: bytes
  hremote :: "bytes option"
  htranscript :: bytes
  hidx :: nat
  hearly :: bytes

definition NewHandshake ::
  "compiled_protocol \<Rightarrow> direction \<Rightarrow> bytes \<Rightarrow> reader \<Rightarrow> (handshake_state \<times> reader) res" where
  "NewHandshake cp role psk rnd =
     (if role \<noteq> DirClient \<and> role \<noteq> DirServer then Inl ErrRole
      else res_bind (read_full 32 rnd) (\<lambda>(priv, rnd').
           res_bind (NewHandshakeCodecs cp) (\<lambda>cs.
             Inr (\<lparr>hrole = role, hcp = cp, hpsk = psk, hcodecs = cs, hpriv = priv, hremote = None,
                   htranscript = [], hidx = 0, hearly = []\<rparr>, rnd'))))"

definition SetEarlyData :: "handshake_state \<Rightarrow> bytes \<Rightarrow> handshake_state" where
  "SetEarlyData h b = h\<lparr>hearly := b\<rparr>"

definition Done :: "handshake_state \<Rightarrow> bool" where
  "Done h \<longleftrightarrow> length (hcodecs h) \<le> hidx h"

definition CurrentSpec :: "handshake_state \<Rightarrow> message_spec res" where
  "CurrentSpec h = (if Done h then Inl ErrDone else Inr (handshake (cgenome (hcp h)) ! hidx h))"

fun has_key_field :: "field_spec list \<Rightarrow> bool" where
  "has_key_field [] = False"
| "has_key_field (f # fs) = (if fkind f = FieldKey then True else has_key_field fs)"

definition messageHasKey :: "message_spec \<Rightarrow> bool" where
  "messageHasKey spec = has_key_field (encrypted_fields spec)"

definition step_inject :: "crypto \<Rightarrow> handshake_state \<Rightarrow> message_spec \<Rightarrow> injection" where
  "step_inject C h spec k =
     (if messageHasKey spec \<and> k = FieldKey then Some (x25519_public C (hpriv h)) else None)"

definition EncodeStep ::
  "crypto \<Rightarrow> handshake_state \<Rightarrow> reader \<Rightarrow> (bytes \<times> bytes list \<times> handshake_state \<times> reader) res" where
  "EncodeStep C h rnd =
     res_bind (CurrentSpec h) (\<lambda>spec.
       if mdirection spec \<noteq> hrole h then Inl ErrRole
       else
         let payload = (if has_payload spec then hearly h else []) in
         res_bind (Encode C (hcodecs h ! hidx h) payload (step_inject C h spec) rnd)
           (\<lambda>(frame, segments, c, rnd').
             Inr (frame, segments,
                  h\<lparr>hcodecs := (hcodecs h)[hidx h := c], htranscript := htranscript h @ frame,
                    hidx := hidx h + 1\<rparr>, rnd')))"

definition capturePeerKey :: "message \<Rightarrow> handshake_state \<Rightarrow> handshake_state res" where
  "capturePeerKey msg h =
     (case Find msg FieldKey of
        None \<Rightarrow> Inr h
      | Some (f, raw) \<Rightarrow>
          res_bind (if fencoding f = EncX963 then
                      (if length raw = 33 \<and> raw ! 0 = 4 then Inr (drop 1 raw)
                       else if length raw \<noteq> 32 then Inl ErrKeySize else Inr raw)
                    else Inr raw) (\<lambda>raw'.
            if length raw' \<noteq> 32 then Inl ErrKeySize else Inr (h\<lparr>hremote := Some raw'\<rparr>)))"

text \<open>The codec moves on even when the key that a message carries is then refused.\<close>

definition RecvStep :: "crypto \<Rightarrow> handshake_state \<Rightarrow> bytes \<Rightarrow> unit res \<times> handshake_state" where
  "RecvStep C h frame =
     (case CurrentSpec h of
        Inl e \<Rightarrow> (Inl e, h)
      | Inr spec \<Rightarrow>
          if mdirection spec = hrole h then (Inl ErrRole, h)
          else case DeclaredFrame spec frame of
                 Inl e \<Rightarrow> (Inl e, h)
               | Inr trimmed \<Rightarrow>
                   (case Decode C (hcodecs h ! hidx h) trimmed of
                      Inl e \<Rightarrow> (Inl e, h)
                    | Inr (msg, c) \<Rightarrow>
                        (let h1 = h\<lparr>hcodecs := (hcodecs h)[hidx h := c]\<rparr> in
                         case capturePeerKey msg h1 of
                           Inl e \<Rightarrow> (Inl e, h1)
                         | Inr h2 \<Rightarrow>
                             (Inr (), h2\<lparr>htranscript := htranscript h2 @ trimmed, hidx := hidx h2 + 1\<rparr>))))"

text \<open>One action on a byte stream: what is read, what is written, the next state.\<close>

definition Step ::
  "crypto \<Rightarrow> handshake_state \<Rightarrow> reader \<Rightarrow> reader \<Rightarrow> (bytes \<times> reader \<times> handshake_state \<times> reader) res" where
  "Step C h rnd inp =
     res_bind (CurrentSpec h) (\<lambda>spec.
       if mdirection spec = hrole h then
         res_bind (EncodeStep C h rnd) (\<lambda>(frame, segments, h', rnd'). Inr (concat segments, inp, h', rnd'))
       else
         res_bind (ReadFrame inp spec) (\<lambda>(frame, inp').
           case RecvStep C h frame of
             (Inl e, _) \<Rightarrow> Inl e
           | (Inr _, h') \<Rightarrow> Inr ([], inp', h', rnd)))"

definition sessionKeys :: "crypto \<Rightarrow> handshake_state \<Rightarrow> (bytes \<times> bytes) res" where
  "sessionKeys C h =
     (if \<not> Done h then Inl ErrNotDone
      else case hremote h of
             None \<Rightarrow> Inl ErrNoPeerKey
           | Some remote \<Rightarrow>
               res_bind (of_option ErrEcdh (x25519_ecdh C (hpriv h) remote)) (\<lambda>shared.
                 let th = hex_encode (sha256 C (htranscript h)) in
                 res_bind (KeyLen (mcipher (app_record (cgenome (hcp h))))) (\<lambda>key_len.
                 res_bind (of_option ErrKdf (hkdf_key C shared (hpsk h)
                     (''chimera-pgc/0/session/c2s'' @ [CHR 0x00] @ th) key_len)) (\<lambda>c2s.
                 res_bind (of_option ErrKdf (hkdf_key C shared (hpsk h)
                     (''chimera-pgc/0/session/s2c'' @ [CHR 0x00] @ th) key_len)) (\<lambda>s2c.
                   Inr (c2s, s2c))))))"

section \<open>Sessions\<close>

record session =
  sspec :: message_spec
  ssend :: codec
  srecv :: codec

definition NewSession :: "message_spec \<Rightarrow> direction \<Rightarrow> bytes \<Rightarrow> bytes \<Rightarrow> session res" where
  "NewSession app role c2s s2c =
     (let (send_key, recv_key) = (if role = DirServer then (s2c, c2s) else (c2s, s2c)) in
      res_bind (NewMessageCodec app send_key) (\<lambda>s.
      res_bind (NewMessageCodec app recv_key) (\<lambda>r.
        Inr \<lparr>sspec = app, ssend = s, srecv = r\<rparr>)))"

definition Finish :: "crypto \<Rightarrow> handshake_state \<Rightarrow> session res" where
  "Finish C h =
     res_bind (sessionKeys C h) (\<lambda>(c2s, s2c).
       NewSession (app_record (cgenome (hcp h))) (hrole h) c2s s2c)"

definition FinishPacket :: "crypto \<Rightarrow> handshake_state \<Rightarrow> packet_session res" where
  "FinishPacket C h =
     res_bind (sessionKeys C h) (\<lambda>(c2s, s2c).
       NewPacketSession (app_record (cgenome (hcp h))) (hrole h) c2s s2c)"

definition session_send :: "crypto \<Rightarrow> session \<Rightarrow> bytes \<Rightarrow> reader \<Rightarrow> (bytes \<times> session \<times> reader) res" where
  "session_send C s payload rnd =
     res_bind (Encode C (ssend s) payload (\<lambda>_. None) rnd) (\<lambda>(frame, segments, c, rnd').
       Inr (concat segments, s\<lparr>ssend := c\<rparr>, rnd'))"

definition session_recv :: "crypto \<Rightarrow> session \<Rightarrow> reader \<Rightarrow> (message \<times> session \<times> reader) res" where
  "session_recv C s inp =
     res_bind (ReadFrame inp (sspec s)) (\<lambda>(frame, inp').
     res_bind (Decode C (srecv s) frame) (\<lambda>(msg, c). Inr (msg, s\<lparr>srecv := c\<rparr>, inp')))"

end
