(* ===== verification/Handshake_Lockstep.thy ===== *)
theory Handshake_Lockstep
  imports Handshake
begin

text \<open>
  Two endpoints of one compiled protocol in lockstep: every step that one side encodes the
  other side accepts, whatever padding a transport appended to the datagram; both finish
  together with the same transcript and each other's ephemeral key, and the keys they derive are
  crosswise equal.
\<close>

section \<open>What a layout needs so that its step succeeds\<close>

definition step_fits :: "message_spec \<Rightarrow> nat \<Rightarrow> bool" where
  "step_fits spec n \<longleftrightarrow>
     layout_ok spec \<and> mdirection spec \<in> {DirClient, DirServer} \<and>
     payload_fits spec (if has_payload spec then n else 0) \<and>
     plainFieldsSize spec + max_body spec + n + gcmTagSize \<le> 2 ^ 26"

definition protocol_fits :: "compiled_protocol \<Rightarrow> nat \<Rightarrow> bool" where
  "protocol_fits cp n \<longleftrightarrow>
     chandshake cp = handshake (cgenome cp) \<and> (\<forall>spec \<in> set (chandshake cp). step_fits spec n)"

lemma handshake_codecs_nth:
  assumes "handshake_codecs c2s s2c specs = Inr cs"
  shows "length cs = length specs"
    and "i < length specs \<Longrightarrow> NewMessageCodec (specs ! i) (bootstrap_key c2s s2c (specs ! i)) = Inr (cs ! i)"
proof -
  have "length cs = length specs \<and>
      (\<forall>i < length specs. NewMessageCodec (specs ! i) (bootstrap_key c2s s2c (specs ! i)) = Inr (cs ! i))"
    using assms
  proof (induction specs arbitrary: cs)
    case (Cons spec specs)
    then show ?case by (fastforce simp: nth_Cons split: nat.split)
  qed simp
  then show "length cs = length specs"
    "i < length specs \<Longrightarrow> NewMessageCodec (specs ! i) (bootstrap_key c2s s2c (specs ! i)) = Inr (cs ! i)" by auto
qed

lemma NewMessageCodec_fresh:
  assumes "NewMessageCodec spec key = Inr c"
  shows "cspec c = spec" "ckey c = key" "cseq c = 0" "stream_inv c" "stream_dead c = {}"
proof -
  from assms have c: "c = \<lparr>cspec = spec, ckey = key, cseq = 0, seen_base = 0, seen_bits = 0,
      packet_send = 0, packet_base = 0, packet_seen = replicate 128 0, packet_mode = False, shape_buckets = []\<rparr>"
    by (auto simp: NewMessageCodec_def split: if_splits)
  show "cspec c = spec" "ckey c = key" "cseq c = 0" by (simp_all add: c)
  show "stream_inv c" using assms by (rule NewMessageCodec_stream_inv)
  show "stream_dead c = {}" by (simp add: c stream_dead_def)
qed

section \<open>The ephemeral key\<close>

lemma has_key_field_iff: "has_key_field fs \<longleftrightarrow> num_kind FieldKey fs \<noteq> 0"
  by (induction fs) auto

lemma key_image:
  assumes "layout_ok spec" "f \<in> set (encrypted_fields spec)" "fkind f = FieldKey"
    "encodes_as pl inject f b" "inject FieldKey = Some pub" "length pub = 32"
  shows "field_content f b = (if fencoding f = EncX963 then 4 # pub else pub)"
proof -
  from layout_okD(2) [OF assms(1,2)] assms(3) have "fencoding f = EncRaw32 \<or> fencoding f = EncX963"
    by (auto simp: encrypted_size_ok_def)
  with assms(3-6) show ?thesis
    by (auto simp: encodeEncryptedField_def encode_key_def field_content_def split: if_splits)
qed

lemma capturePeerKey_contents:
  assumes lay: "layout_ok spec" and
    imgs: "list_all2 (encodes_as pl inject) (encrypted_fields spec) imgs" and
    msg: "map fst (msg_plain msg) = plain_fields spec" "msg_encrypted msg = contents (encrypted_fields spec) imgs" and
    inj: "messageHasKey spec \<Longrightarrow> inject FieldKey = Some pub" and pub: "length pub = 32"
  shows "capturePeerKey msg h = Inr (if messageHasKey spec then h\<lparr>hremote := Some pub\<rparr> else h)"
proof -
  have pl: "find_field FieldKey (msg_plain msg) = None"
    using find_pad_plain_None [OF lay msg(1)] by simp
  show ?thesis
  proof (cases "find_field FieldKey (contents (encrypted_fields spec) imgs)")
    case None
    then have "\<not> messageHasKey spec"
      using find_field_contents_None [OF imgs] by (simp add: messageHasKey_def has_key_field_iff)
    with None pl msg(2) show ?thesis by (simp add: capturePeerKey_def Find_def)
  next
    case (Some fv)
    from find_field_contents [OF imgs Some] obtain f b where
      f: "f \<in> set (encrypted_fields spec)" "fkind f = FieldKey" "encodes_as pl inject f b" "fv = (f, field_content f b)"
      by blast
    have hk: "messageHasKey spec"
      using f(1,2) num_kind_0_iff [of FieldKey "encrypted_fields spec"] by (auto simp: messageHasKey_def has_key_field_iff)
    from key_image [OF lay f(1,2,3) inj [OF hk] pub] Some pl msg(2) f(4) hk pub show ?thesis
      by (simp add: capturePeerKey_def Find_def)
  qed
qed

section \<open>One step\<close>

text \<open>The padding of a frame is part of its ciphertext, whose length the frame declares.\<close>

lemma frame_of_pad_small:
  assumes "layout_ok (cspec c)" "frame_of C c seq pl payload inject plain ct frame"
  shows "pl < 2 ^ 63"
proof -
  from assms(2) obtain imgs pad where "length pad = nat pl"
    "length ct = length (concat imgs @ payload @ pad) + gcmTagSize"
    unfolding frame_of_def by blast
  then have "nat pl \<le> length ct" by simp
  moreover from frame_of_check_length(2) [OF assms] frame_of_sizes(3) [OF assms(2)]
  have "length ct < 2 ^ 63" by (simp split: if_splits)
  ultimately have "nat pl < 2 ^ 63" by (rule le_less_trans)
  then show ?thesis by simp
qed

lemma step_pair:
  assumes C: "aead_ok C" "ecdh_ok C" and i: "i < length (chandshake cp)" and
    fits: "protocol_fits cp (length (hearly s))" and
    cps: "hcp s = cp" "hcp r = cp" and idx: "hidx s = i" "hidx r = i" and
    len: "length (hcodecs s) = length (chandshake cp)" "length (hcodecs r) = length (chandshake cp)" and
    new: "NewMessageCodec (chandshake cp ! i) key = Inr (hcodecs s ! i)" "hcodecs r ! i = hcodecs s ! i" and
    dir: "hrole s = mdirection (chandshake cp ! i)" "hrole r \<noteq> mdirection (chandshake cp ! i)" and
    rnd: "rnd_budget (chandshake cp ! i) \<le> length rnd"
  shows "\<exists>frame segs s' rnd' r' cs cr. EncodeStep C s rnd = Inr (frame, segs, s', rnd') \<and> concat segs = frame \<and>
    framed (chandshake cp ! i) frame \<and>
    length frame \<le> plainFieldsSize (chandshake cp ! i) + max_body (chandshake cp ! i) + length (hearly s) + gcmTagSize \<and>
    (\<forall>junk. RecvStep C r (frame @ junk) = (Inr (), r')) \<and>
    s' = s\<lparr>hcodecs := (hcodecs s)[i := cs], htranscript := htranscript s @ frame, hidx := i + 1\<rparr> \<and>
    r' = r\<lparr>hcodecs := (hcodecs r)[i := cr], htranscript := htranscript r @ frame, hidx := i + 1,
           hremote := (if messageHasKey (chandshake cp ! i) then Some (x25519_public C (hpriv s)) else hremote r)\<rparr>"
proof -
  define spec where "spec = chandshake cp ! i"
  define c where "c = hcodecs s ! i"
  define payload where "payload = (if has_payload spec then hearly s else [])"
  from fits i have F: "chandshake cp = handshake (cgenome cp)" "step_fits spec (length (hearly s))"
    by (simp_all add: protocol_fits_def spec_def)
  have lay: "layout_ok spec" and pf: "payload_fits spec (length payload)"
    and tot: "plainFieldsSize spec + max_body spec + length (hearly s) + gcmTagSize \<le> 2 ^ 26"
    using F(2) by (auto simp: step_fits_def payload_def)
  note N = NewMessageCodec_fresh [OF new(1) [folded spec_def c_def]]
  have cur: "CurrentSpec s = Inr spec" "CurrentSpec r = Inr spec"
    using F(1) cps idx len i by (simp_all add: CurrentSpec_def Done_def spec_def)
  have pub: "length (x25519_public C (hpriv s)) = 32" using ecdh_okD(1) [OF C(2)] .
  have inj: "inject_ok (step_inject C s spec)"
    using pub by (simp add: inject_ok_def step_inject_def)
  have pay: "has_payload (cspec c) \<or> payload = []" by (simp add: payload_def N(1))
  have "layout_ok (cspec c)" "payload_fits (cspec c) (length payload)" "rnd_budget (cspec c) \<le> length rnd"
    using lay pf rnd by (simp_all add: N(1) spec_def)
  from Encode_total [OF this(1) C(1) pay inj this(3,2)] obtain frame segs cs rnd' where
    enc: "Encode C c payload (step_inject C s spec) rnd = Inr (frame, segs, cs, rnd')"
    and fl: "length frame \<le> plainFieldsSize spec + max_body spec + length payload + gcmTagSize"
    by (auto simp: N(1))
  note E = Encode_frame_of [OF \<open>layout_ok (cspec c)\<close> enc]
  from E(1) obtain pl plain ct where fr: "frame_of C c 0 pl payload (step_inject C s spec) plain ct frame"
    by (auto simp: N(3))
  have "length payload \<le> length (hearly s)" by (simp add: payload_def)
  with fl tot have "length frame \<le> 2 ^ 26" by linarith
  with frame_of_framed [OF \<open>layout_ok (cspec c)\<close> fr] have framed: "framed spec frame" by (simp add: N(1))
  have segs: "concat segs = frame" using E(2) by (simp add: concat_splitSegments)
  from fr obtain imgs0 where "list_all2 (encodes_as pl (step_inject C s spec)) (encrypted_fields spec) imgs0"
    and "pmode (mpadding spec) = PaddingNone \<longrightarrow> pl = 0" unfolding frame_of_def N(1) by blast
  have pl: "pl < 2 ^ 63"
    using frame_of_pad_small [OF \<open>layout_ok (cspec c)\<close> fr] .
  from decodeAt_frame_of [OF \<open>layout_ok (cspec c)\<close> C(1) fr refl refl pl] obtain msg imgs where
    m: "decodeAt C c frame (nonceAt c 0) = Inr msg" "map fst (msg_plain msg) = plain_fields spec"
      "msg_encrypted msg = contents (encrypted_fields spec) imgs"
      "list_all2 (encodes_as pl (step_inject C s spec)) (encrypted_fields spec) imgs"
    by (auto simp: N(1))
  have "\<exists>cr. Decode C c frame = Inr (msg, cr) \<and> stream_accepts C c frame 0 cr"
    by (rule Decode_live [OF N(4)]) (use N(3,5) m(1) in simp_all)
  then obtain cr where dec: "Decode C c frame = Inr (msg, cr)" by blast
  have cap: "capturePeerKey msg h = Inr (if messageHasKey spec
      then h\<lparr>hremote := Some (x25519_public C (hpriv s))\<rparr> else h)" for h
    by (rule capturePeerKey_contents [OF lay m(4,2,3) _ pub]) (simp add: step_inject_def)
  have "EncodeStep C s rnd = Inr (frame, segs,
      s\<lparr>hcodecs := (hcodecs s)[i := cs], htranscript := htranscript s @ frame, hidx := i + 1\<rparr>, rnd')"
    using cur(1) dir(1) enc idx(1)
    by (simp add: EncodeStep_def spec_def [symmetric] payload_def [symmetric] c_def)
  moreover have "RecvStep C r (frame @ junk) = (Inr (), r\<lparr>hcodecs := (hcodecs r)[i := cr],
      htranscript := htranscript r @ frame, hidx := i + 1,
      hremote := (if messageHasKey spec then Some (x25519_public C (hpriv s)) else hremote r)\<rparr>)" for junk
    using cur(2) dir(2) dec cap idx new(2) DeclaredFrame_framed [OF framed]
    by (simp add: RecvStep_def spec_def [symmetric] c_def [symmetric] Let_def)
  moreover have "length frame \<le> plainFieldsSize spec + max_body spec + length (hearly s) + gcmTagSize"
    using fl \<open>length payload \<le> length (hearly s)\<close> by (simp add: N(1))
  ultimately show ?thesis using segs framed by (fold spec_def) blast
qed

text \<open>The same step on byte streams: the receiver reads exactly what the sender wrote.\<close>

lemma Step_pair:
  assumes C: "aead_ok C" "ecdh_ok C" and i: "i < length (chandshake cp)" and
    fits: "protocol_fits cp (length (hearly s))" and
    cps: "hcp s = cp" "hcp r = cp" and idx: "hidx s = i" "hidx r = i" and
    len: "length (hcodecs s) = length (chandshake cp)" "length (hcodecs r) = length (chandshake cp)" and
    new: "NewMessageCodec (chandshake cp ! i) key = Inr (hcodecs s ! i)" "hcodecs r ! i = hcodecs s ! i" and
    dir: "hrole s = mdirection (chandshake cp ! i)" "hrole r \<noteq> mdirection (chandshake cp ! i)" and
    rnd: "rnd_budget (chandshake cp ! i) \<le> length rnd"
  shows "\<exists>out s' rnd' r'. Step C s rnd inp = Inr (out, inp, s', rnd') \<and>
    (\<forall>rest rnd2. Step C r rnd2 (out @ rest) = Inr ([], rest, r', rnd2)) \<and>
    hidx s' = i + 1 \<and> hidx r' = i + 1 \<and>
    (htranscript s = htranscript r \<longrightarrow> htranscript s' = htranscript r')"
proof -
  from step_pair [OF C i fits cps idx len new dir rnd] obtain frame segs s' rnd' r' cs cr where
    e: "EncodeStep C s rnd = Inr (frame, segs, s', rnd')" "concat segs = frame" "framed (chandshake cp ! i) frame"
    and rv: "\<forall>junk. RecvStep C r (frame @ junk) = (Inr (), r')"
    and s': "s' = s\<lparr>hcodecs := (hcodecs s)[i := cs], htranscript := htranscript s @ frame, hidx := i + 1\<rparr>"
    and r': "r' = r\<lparr>hcodecs := (hcodecs r)[i := cr], htranscript := htranscript r @ frame, hidx := i + 1,
           hremote := (if messageHasKey (chandshake cp ! i) then Some (x25519_public C (hpriv s)) else hremote r)\<rparr>"
    by blast
  from fits i have cur: "CurrentSpec s = Inr (chandshake cp ! i)" "CurrentSpec r = Inr (chandshake cp ! i)"
    using cps idx len by (simp_all add: CurrentSpec_def Done_def protocol_fits_def)
  from rv [rule_format, of "[]"] have "RecvStep C r frame = (Inr (), r')" by simp
  with e cur dir have "Step C s rnd inp = Inr (frame, inp, s', rnd')"
    "\<forall>rest rnd2. Step C r rnd2 (frame @ rest) = Inr ([], rest, r', rnd2)"
    by (simp_all add: Step_def ReadFrame_framed)
  then show ?thesis using s' r' by auto
qed

section \<open>The whole handshake\<close>

text \<open>
  The two state machines driven against each other: at every step the side whose turn it is
  encodes and the other receives the datagram with whatever the transport appended to it.
  \<open>rnd i\<close> is the random source at step \<open>i\<close>, \<open>junk i\<close> the appended bytes.
\<close>

fun run_pair ::
  "crypto \<Rightarrow> (nat \<Rightarrow> reader) \<Rightarrow> (nat \<Rightarrow> bytes) \<Rightarrow> nat \<Rightarrow> handshake_state \<Rightarrow> handshake_state \<Rightarrow>
     (handshake_state \<times> handshake_state) res" where
  "run_pair C rnd junk 0 a b = Inr (a, b)"
| "run_pair C rnd junk (Suc n) a b =
     res_bind (CurrentSpec a) (\<lambda>spec.
       if mdirection spec = hrole a then
         res_bind (EncodeStep C a (rnd (hidx a))) (\<lambda>(frame, segs, a', _).
           case RecvStep C b (frame @ junk (hidx a)) of
             (Inl e, _) \<Rightarrow> Inl e
           | (Inr _, b') \<Rightarrow> run_pair C rnd junk n a' b')
       else
         res_bind (EncodeStep C b (rnd (hidx b))) (\<lambda>(frame, segs, b', _).
           case RecvStep C a (frame @ junk (hidx b)) of
             (Inl e, _) \<Rightarrow> Inl e
           | (Inr _, a') \<Rightarrow> run_pair C rnd junk n a' b'))"

definition contributes :: "compiled_protocol \<Rightarrow> nat \<Rightarrow> direction \<Rightarrow> bool" where
  "contributes cp n dir \<longleftrightarrow> (\<exists>j < n. mdirection (chandshake cp ! j) = dir \<and> messageHasKey (chandshake cp ! j))"

lemma contributes_Suc:
  "contributes cp (Suc n) dir \<longleftrightarrow>
     contributes cp n dir \<or> mdirection (chandshake cp ! n) = dir \<and> messageHasKey (chandshake cp ! n)"
  by (auto simp: contributes_def less_Suc_eq)

definition pair_inv ::
  "crypto \<Rightarrow> compiled_protocol \<Rightarrow> nat \<Rightarrow> bytes \<Rightarrow> bytes \<Rightarrow> nat \<Rightarrow> handshake_state \<Rightarrow> handshake_state \<Rightarrow> bool" where
  "pair_inv C cp early pa pb i a b \<longleftrightarrow>
     hcp a = cp \<and> hcp b = cp \<and> hrole a = DirClient \<and> hrole b = DirServer \<and> hidx a = i \<and> hidx b = i \<and>
     hpriv a = pa \<and> hpriv b = pb \<and> hpsk a = hpsk b \<and>
     length (hearly a) \<le> early \<and> length (hearly b) \<le> early \<and>
     length (hcodecs a) = length (chandshake cp) \<and> length (hcodecs b) = length (chandshake cp) \<and>
     (\<forall>j. i \<le> j \<and> j < length (chandshake cp) \<longrightarrow> hcodecs b ! j = hcodecs a ! j \<and>
        (\<exists>key. NewMessageCodec (chandshake cp ! j) key = Inr (hcodecs a ! j))) \<and>
     htranscript a = htranscript b \<and>
     hremote a = (if contributes cp i DirServer then Some (x25519_public C pb) else None) \<and>
     hremote b = (if contributes cp i DirClient then Some (x25519_public C pa) else None)"

lemma payload_fits_mono: "payload_fits spec n \<Longrightarrow> m \<le> n \<Longrightarrow> payload_fits spec m"
  by (simp add: payload_fits_def)

lemma protocol_fits_mono: "protocol_fits cp n \<Longrightarrow> m \<le> n \<Longrightarrow> protocol_fits cp m"
  by (fastforce simp: protocol_fits_def step_fits_def intro: payload_fits_mono)

text \<open>One step of the pair: the side whose turn it is sends, the other takes it, with any junk behind.\<close>

text \<open>A frame of a step: its declared length is its length, which is bounded.\<close>

definition step_frame :: "compiled_protocol \<Rightarrow> nat \<Rightarrow> nat \<Rightarrow> bytes \<Rightarrow> bool" where
  "step_frame cp i early frame \<longleftrightarrow>
     framed (chandshake cp ! i) frame \<and>
     length frame \<le> plainFieldsSize (chandshake cp ! i) + max_body (chandshake cp ! i) + early + gcmTagSize"

lemma step_frame_mono: "step_frame cp i n frame \<Longrightarrow> n \<le> m \<Longrightarrow> step_frame cp i m frame"
  by (auto simp: step_frame_def)

lemma pair_step:
  assumes C: "aead_ok C" "ecdh_ok C" and fits: "protocol_fits cp early" and
    inv: "pair_inv C cp early pa pb i a b" and i: "i < length (chandshake cp)" and
    r: "rnd_budget (chandshake cp ! i) \<le> length rnd"
  shows "CurrentSpec a = Inr (chandshake cp ! i) \<and> CurrentSpec b = Inr (chandshake cp ! i) \<and>
    (mdirection (chandshake cp ! i) = DirClient \<and>
       (\<exists>frame segs a' rnd' b'. EncodeStep C a rnd = Inr (frame, segs, a', rnd') \<and>
          step_frame cp i early frame \<and> (\<forall>junk. RecvStep C b (frame @ junk) = (Inr (), b')) \<and> pair_inv C cp early pa pb (Suc i) a' b') \<or>
     mdirection (chandshake cp ! i) = DirServer \<and>
       (\<exists>frame segs a' rnd' b'. EncodeStep C b rnd = Inr (frame, segs, b', rnd') \<and>
          step_frame cp i early frame \<and> (\<forall>junk. RecvStep C a (frame @ junk) = (Inr (), a')) \<and> pair_inv C cp early pa pb (Suc i) a' b'))"
proof -
  define spec where "spec = chandshake cp ! i"
  from inv have I: "hcp a = cp" "hcp b = cp" "hrole a = DirClient" "hrole b = DirServer" "hidx a = i" "hidx b = i"
    "hpriv a = pa" "hpriv b = pb" "hpsk a = hpsk b" "length (hearly a) \<le> early" "length (hearly b) \<le> early"
    "length (hcodecs a) = length (chandshake cp)" "length (hcodecs b) = length (chandshake cp)"
    "htranscript a = htranscript b"
    "hremote a = (if contributes cp i DirServer then Some (x25519_public C pb) else None)"
    "hremote b = (if contributes cp i DirClient then Some (x25519_public C pa) else None)"
    and codecs: "\<forall>j. i \<le> j \<and> j < length (chandshake cp) \<longrightarrow> hcodecs b ! j = hcodecs a ! j \<and>
        (\<exists>key. NewMessageCodec (chandshake cp ! j) key = Inr (hcodecs a ! j))"
    unfolding pair_inv_def by auto
  from codecs i obtain key where key: "NewMessageCodec (chandshake cp ! i) key = Inr (hcodecs a ! i)"
    "NewMessageCodec (chandshake cp ! i) key = Inr (hcodecs b ! i)"
    and eq: "hcodecs b ! i = hcodecs a ! i" "hcodecs a ! i = hcodecs b ! i" by fastforce
  from fits i have d: "mdirection spec = DirClient \<or> mdirection spec = DirServer"
    and cur: "CurrentSpec a = Inr spec" "CurrentSpec b = Inr spec"
    using I by (auto simp: protocol_fits_def step_fits_def CurrentSpec_def Done_def spec_def)
  have nth: "xs[i := x] ! j = xs ! j" if "Suc i \<le> j" for xs :: "codec list" and x j
    using that by simp
  from d show ?thesis
  proof
    assume dir: "mdirection spec = DirClient"
    have da: "hrole a = mdirection (chandshake cp ! i)" "hrole b \<noteq> mdirection (chandshake cp ! i)"
      using dir I by (simp_all add: spec_def)
    from step_pair [OF C i protocol_fits_mono [OF fits I(10)] I(1,2,5,6,12,13) key(1) eq(1) da r]
    obtain frame segs a' rnd' b' cs cr where
      e: "EncodeStep C a rnd = Inr (frame, segs, a', rnd')" "step_frame cp i (length (hearly a)) frame" "\<forall>junk. RecvStep C b (frame @ junk) = (Inr (), b')" and
      a': "a' = a\<lparr>hcodecs := (hcodecs a)[i := cs], htranscript := htranscript a @ frame, hidx := i + 1\<rparr>" and
      b': "b' = b\<lparr>hcodecs := (hcodecs b)[i := cr], htranscript := htranscript b @ frame, hidx := i + 1,
           hremote := (if messageHasKey (chandshake cp ! i) then Some (x25519_public C (hpriv a)) else hremote b)\<rparr>"
      unfolding step_frame_def by blast
    have "pair_inv C cp early pa pb (Suc i) a' b'"
      unfolding pair_inv_def a' b' using I codecs dir
      by (simp add: contributes_Suc spec_def nth)
    moreover have "step_frame cp i early frame" using e(2) I(10) by (rule step_frame_mono)
    ultimately show ?thesis using e cur dir unfolding spec_def by blast
  next
    assume dir: "mdirection spec = DirServer"
    have db: "hrole b = mdirection (chandshake cp ! i)" "hrole a \<noteq> mdirection (chandshake cp ! i)"
      using dir I by (simp_all add: spec_def)
    from step_pair [OF C i protocol_fits_mono [OF fits I(11)] I(2,1,6,5,13,12) key(2) eq(2) db r]
    obtain frame segs b' rnd' a' cs cr where
      e: "EncodeStep C b rnd = Inr (frame, segs, b', rnd')" "step_frame cp i (length (hearly b)) frame" "\<forall>junk. RecvStep C a (frame @ junk) = (Inr (), a')" and
      b': "b' = b\<lparr>hcodecs := (hcodecs b)[i := cs], htranscript := htranscript b @ frame, hidx := i + 1\<rparr>" and
      a': "a' = a\<lparr>hcodecs := (hcodecs a)[i := cr], htranscript := htranscript a @ frame, hidx := i + 1,
           hremote := (if messageHasKey (chandshake cp ! i) then Some (x25519_public C (hpriv b)) else hremote a)\<rparr>"
      unfolding step_frame_def by blast
    have "pair_inv C cp early pa pb (Suc i) a' b'"
      unfolding pair_inv_def a' b' using I codecs dir
      by (simp add: contributes_Suc spec_def nth)
    moreover have "step_frame cp i early frame" using e(2) I(11) by (rule step_frame_mono)
    ultimately show ?thesis using e cur dir unfolding spec_def by blast
  qed
qed

lemma run_pair_inv:
  assumes C: "aead_ok C" "ecdh_ok C" and fits: "protocol_fits cp early" and
    rnd: "\<forall>i < length (chandshake cp). rnd_budget (chandshake cp ! i) \<le> length (rnd i)" and
    inv: "pair_inv C cp early pa pb i a b" and n: "i + n = length (chandshake cp)"
  shows "\<exists>a' b'. run_pair C rnd junk n a b = Inr (a', b') \<and>
    pair_inv C cp early pa pb (length (chandshake cp)) a' b'"
  using inv n
proof (induction n arbitrary: i a b)
  case (Suc n)
  then have i: "i < length (chandshake cp)" by linarith
  have I: "hrole a = DirClient" "hidx a = i" "hidx b = i" using Suc.prems(1) by (simp_all add: pair_inv_def)
  have r: "rnd_budget (chandshake cp ! i) \<le> length (rnd i)" using rnd i by simp
  have IH: "\<exists>a'' b''. run_pair C rnd junk n a' b' = Inr (a'', b'') \<and>
      pair_inv C cp early pa pb (length (chandshake cp)) a'' b''" if "pair_inv C cp early pa pb (Suc i) a' b'" for a' b'
    using Suc.IH [OF that] Suc.prems(2) by simp
  from pair_step [OF C fits Suc.prems(1) i r] show ?case
    using I IH by auto
qed auto

lemma NewHandshake_pair_inv:
  assumes "NewHandshake cp DirClient psk r1 = Inr (a, r1')" "NewHandshake cp DirServer psk r2 = Inr (b, r2')"
    "length ea \<le> early" "length eb \<le> early"
  shows "pair_inv C cp early (hpriv a) (hpriv b) 0 (SetEarlyData a ea) (SetEarlyData b eb)"
proof -
  from assms(1,2) obtain cs where cs: "NewHandshakeCodecs cp = Inr cs" "hcodecs a = cs" "hcodecs b = cs"
    and I: "hcp a = cp" "hcp b = cp" "hrole a = DirClient" "hrole b = DirServer" "hidx a = 0" "hidx b = 0"
      "hpsk a = psk" "hpsk b = psk" "htranscript a = []" "htranscript b = []" "hremote a = None" "hremote b = None"
    by (auto simp: NewHandshake_def)
  note N = handshake_codecs_nth [OF cs(1) [unfolded NewHandshakeCodecs_def]]
  show ?thesis
    unfolding pair_inv_def SetEarlyData_def using I cs(2,3) N assms(3,4)
    by (auto simp: contributes_def)
qed

text \<open>Both sides done: the session keys agree.\<close>

lemma pair_sessionKeys:
  assumes "ecdh_ok C" "pair_inv C cp early pa pb (length (chandshake cp)) a b"
    "contributes cp (length (chandshake cp)) DirClient" "contributes cp (length (chandshake cp)) DirServer"
  shows "Done a" "Done b" "sessionKeys C b = sessionKeys C a"
  using assms by (auto simp: pair_inv_def Done_def sessionKeys_def ecdh_okD(2) [OF assms(1), of pa pb])

lemma NewPacketSession_crosswise:
  assumes "NewPacketSession app DirClient c2s s2c = Inr pa" "NewPacketSession app DirServer c2s s2c = Inr pb"
  shows "psend pa = precv pb" "precv pa = psend pb" "packet_inv (psend pa)" "packet_inv (precv pa)"
    "packet_dead (psend pa) = {}" "packet_dead (precv pa) = {}" "cspec (psend pa) = app" "cspec (precv pa) = app"
    "packet_send (psend pa) = 0" "packet_send (precv pa) = 0"
  using assms by (auto simp: NewPacketSession_def NewPacketMessageCodec_fresh)

end
