(* ===== verification/Samples.thy ===== *)
theory Samples
  imports Handshake_Lockstep
begin

text \<open>
  Concrete inputs at which the witnesses of the properties evaluate: a two message protocol with
  one layout per direction, an application record, and a random source of zeros, over
  \<open>demo_crypto\<close>.
\<close>

section \<open>Layouts\<close>

definition sample_fields :: "field_spec list" where
  "sample_fields =
     [field_zero\<lparr>fkind := FieldVersion, fplacement := PlacePlain, fencoding := EncFixedBytes, fsize := 1,
                 fvalue_hex := ''05'', fvalue_source := ValueConstant\<rparr>,
      field_zero\<lparr>fkind := FieldLength, fplacement := PlacePlain, fencoding := EncU16, fendian := EndianBig,
                 fsubject := SubjectCiphertext\<rparr>]"

definition sample_message :: "int \<Rightarrow> direction \<Rightarrow> message_spec" where
  "sample_message i dir =
     \<lparr>mindex = i, mname = ''hello'', mdirection = dir, mpurpose = HelloKey, plain_fields = sample_fields,
      encrypted_fields =
        [field_zero\<lparr>fkind := FieldKey, fplacement := PlaceEncrypted, fencoding := EncX963, fsize := 33\<rparr>,
         field_zero\<lparr>fkind := FieldPadLen, fplacement := PlaceEncrypted, fencoding := EncU16, fendian := EndianBig\<rparr>],
      length_field_index = 1, length_alone = True, has_payload = True,
      mpadding = \<lparr>pmode = PaddingUniform, pmin = 0, pmax = 3\<rparr>, mcipher = CipherAES128GCM\<rparr>"

definition sample_record :: message_spec where
  "sample_record =
     \<lparr>mindex = 2, mname = ''app'', mdirection = DirBoth, mpurpose = PData, plain_fields = sample_fields,
      encrypted_fields =
        [field_zero\<lparr>fkind := FieldPadLen, fplacement := PlaceEncrypted, fencoding := EncU16, fendian := EndianLittle\<rparr>],
      length_field_index = 1, length_alone = False, has_payload = True,
      mpadding = \<lparr>pmode = PaddingUniform, pmin = 0, pmax = 3\<rparr>, mcipher = CipherAES128GCM\<rparr>"

definition sample_genome :: protocol_genome where
  "sample_genome =
     \<lparr>gschema = GeneratorSchema, generation = 1, seed_material = [], handshake_pattern = ''c>s s>c'',
      handshake = [sample_message 0 DirClient, sample_message 1 DirServer], app_record = sample_record,
      protocol_fingerprint = ''f''\<rparr>"

definition sample_key :: bytes where
  "sample_key = replicate 16 9"

definition zeros :: reader where
  "zeros = replicate 400 0"

lemmas sample_defs = sample_fields_def sample_message_def sample_record_def sample_genome_def

lemma sample_message_valid:
  "validateMessage (sample_message 0 DirClient) = Inr ()" "validateMessage (sample_message 1 DirServer) = Inr ()"
  by code_simp+

lemma sample_record_valid: "validateMessage sample_record = Inr ()"
  by code_simp

lemma hex_05: "hex_decode ''05'' = Some [5]"
  by code_simp

lemma sample_message_layout [simp]:
  "layout_ok (sample_message 0 DirClient)" "layout_ok (sample_message 1 DirServer)"
  unfolding layout_ok_def
  by (simp_all only: sample_message_valid)
     (simp_all add: sample_message_def sample_fields_def encrypted_size_ok_def pad_fits_def plain_content_ok_def
       hex_05 del: hex_decode.simps)

lemma sample_record_layout [simp]: "layout_ok sample_record"
  unfolding layout_ok_def
  by (simp add: sample_record_valid)
     (simp add: sample_record_def sample_fields_def encrypted_size_ok_def pad_fits_def plain_content_ok_def hex_05
       del: hex_decode.simps)

section \<open>Runs\<close>

definition sample_codec :: codec where
  "sample_codec = \<lparr>cspec = sample_record, ckey = sample_key, cseq = 0, seen_base = 0, seen_bits = 0,
     packet_send = 0, packet_base = 0, packet_seen = replicate 128 0, packet_mode = True, shape_buckets = [64, 96]\<rparr>"

lemma sample_packet:
  "packet_budget sample_codec \<le> length zeros" "packet_fits sample_codec 3" "packet_budget sample_codec \<le> 200"
  by (simp_all add: packet_budget_def rnd_budget_def field_budget_def packet_fits_def payload_fits_def
      max_body_def length_width_def plainFieldsSize_def size_or_0_def sample_codec_def
      sample_record_def sample_fields_def zeros_def gcmTagSize_def fixedSize.simps maxEncodedFieldSize.simps
      fieldFixedSize.simps)

lemma sample_codec_fields [simp]:
  "cspec sample_codec = sample_record" "packet_mode sample_codec" "packet_base sample_codec = 0"
  "packet_send sample_codec = 0" "has_payload sample_record"
  by (simp_all add: sample_codec_def sample_record_def)

lemma sample_codec_inv [simp]: "packet_inv sample_codec" "packet_dead sample_codec = {}"
  by (auto simp: sample_codec_def packet_inv_def packet_dead_def packetWindowWords_def wbit_nth)

lemma sample_sizes:
  "payload_fits sample_record n \<longleftrightarrow> n < 65512" "plainFieldsSize sample_record = 3" "max_body sample_record = 5"
  by (simp_all add: payload_fits_def max_body_def length_width_def plainFieldsSize_def size_or_0_def
      sample_record_def sample_fields_def gcmTagSize_def fixedSize.simps maxEncodedFieldSize.simps
      fieldFixedSize.simps)

lemma sample_encode_from:
  assumes "c = sample_codec\<lparr>packet_send := q, shape_buckets := bs\<rparr>" "bs = [] \<or> bs = [64, 96]" "length payload \<le> 30"
    "200 \<le> length rnd"
  obtains frame c' r where "EncodePacket C c payload (\<lambda>_. None) rnd = Inr (frame, c', r)"
    "aead_ok C \<Longrightarrow> length frame \<le> 96" "length rnd \<le> length r + 200"
proof -
  have sb: "shape_buckets sample_codec = [64, 96]" by (simp add: sample_codec_def)
  have small: "packet_budget c \<le> 200"
    using sample_packet(3) assms(1,2) by (auto simp: packet_budget_def sb)
  moreover have "packet_fits c (length payload)"
    using sample_packet(2) assms by (auto simp: packet_fits_def sample_sizes sb)
  ultimately have "\<exists>frame c' rnd'. EncodePacket C c payload (\<lambda>_. None) rnd = Inr (frame, c', rnd') \<and>
      (aead_ok C \<longrightarrow> length frame \<le> max (plainFieldsSize (cspec c) + max_body (cspec c) + length payload + gcmTagSize)
         (nat (foldr max (shape_buckets c) 0))) \<and> length rnd \<le> length rnd' + packet_budget c"
    using EncodePacket_total_length [of c payload "\<lambda>_. None" rnd C] assms(1,4) by (simp add: inject_ok_def)
  moreover have "max (plainFieldsSize (cspec c) + max_body (cspec c) + length payload + gcmTagSize)
      (nat (foldr max (shape_buckets c) 0)) \<le> 96"
    using assms by (auto simp: sample_sizes gcmTagSize_def)
  ultimately show thesis using that small by fastforce
qed

lemma sample_encode:
  assumes "c = sample_codec\<lparr>packet_send := q, shape_buckets := bs\<rparr>" "bs = [] \<or> bs = [64, 96]" "length payload \<le> 30"
  obtains frame c' r where "EncodePacket C c payload (\<lambda>_. None) zeros = Inr (frame, c', r)"
    "aead_ok C \<Longrightarrow> length frame \<le> 96" "200 \<le> length r"
proof -
  have "400 \<le> length zeros" by (simp add: zeros_def)
  then have "200 \<le> length zeros" by simp
  from sample_encode_from [OF assms this, of C] \<open>400 \<le> length zeros\<close> that show thesis by fastforce
qed

lemma sample_codec_updates: "sample_codec = sample_codec\<lparr>packet_send := 0, shape_buckets := [64, 96]\<rparr>"
  "sample_codec\<lparr>shape_buckets := []\<rparr> = sample_codec\<lparr>packet_send := 0, shape_buckets := []\<rparr>"
  by (simp_all add: sample_codec_def)

lemma sample_new:
  "NewMessageCodec sample_record sample_key = Inr (sample_codec\<lparr>packet_mode := False, shape_buckets := []\<rparr>)"
  "NewPacketMessageCodec sample_record sample_key = Inr (sample_codec\<lparr>shape_buckets := []\<rparr>)"
proof -
  have "KeyLen (mcipher sample_record) = Inr 16" by (simp add: sample_record_def)
  then show "NewMessageCodec sample_record sample_key = Inr (sample_codec\<lparr>packet_mode := False, shape_buckets := []\<rparr>)"
    "NewPacketMessageCodec sample_record sample_key = Inr (sample_codec\<lparr>shape_buckets := []\<rparr>)"
    by (simp_all add: NewPacketMessageCodec_def NewMessageCodec_def sample_record_valid sample_codec_def sample_key_def
        packetWindowWords_def)
qed

definition sample_psk :: bytes where
  "sample_psk = [1, 2, 3]"

definition sample_protocol :: compiled_protocol where
  "sample_protocol = \<lparr>cgenome = sample_genome,
     boot_c2s = the (hkdf_key demo_crypto sample_psk (text_bytes ''chimera-pgc/0/bootstrap-salt'') ''chimera-pgc/0/bootstrap/c2s'' 16),
     boot_s2c = the (hkdf_key demo_crypto sample_psk (text_bytes ''chimera-pgc/0/bootstrap-salt'') ''chimera-pgc/0/bootstrap/s2c'' 16),
     chandshake = handshake sample_genome\<rparr>"

lemma sample_key_length: "length (boot_c2s sample_protocol) = 16" "length (boot_s2c sample_protocol) = 16"
  by (simp_all add: sample_protocol_def demo_crypto_def)

lemma sample_handshake: "chandshake sample_protocol = [sample_message 0 DirClient, sample_message 1 DirServer]"
  by (simp add: sample_protocol_def sample_genome_def)

lemma sample_codecs: "is_ok (NewHandshakeCodecs sample_protocol)"
  using sample_key_length
  by (simp add: NewHandshakeCodecs_def sample_handshake NewMessageCodec_def sample_message_valid is_ok_def
      bootstrap_key_def) (simp add: sample_message_def)

lemma sample_kdf:
  "hkdf_key demo_crypto sample_psk (text_bytes ''chimera-pgc/0/bootstrap-salt'') ''chimera-pgc/0/bootstrap/c2s'' 16
     = Some (boot_c2s sample_protocol)"
  "hkdf_key demo_crypto sample_psk (text_bytes ''chimera-pgc/0/bootstrap-salt'') ''chimera-pgc/0/bootstrap/s2c'' 16
     = Some (boot_s2c sample_protocol)"
  by (simp_all add: sample_protocol_def demo_crypto_def)

lemma sample_genome_fields:
  "gschema sample_genome = GeneratorSchema" "handshake sample_genome = chandshake sample_protocol"
  "app_record sample_genome = sample_record" "cgenome sample_protocol = sample_genome"
  by (simp_all add: sample_genome_def sample_protocol_def)

lemma sample_compile: "Compile demo_crypto (Some sample_genome) sample_psk = Inr sample_protocol"
proof -
  obtain cs where "handshake_codecs (boot_c2s sample_protocol) (boot_s2c sample_protocol)
      (chandshake sample_protocol) = Inr cs"
    using sample_codecs by (auto simp: NewHandshakeCodecs_def is_ok_iff)
  moreover have "KeyLen (mcipher (hd (chandshake sample_protocol))) = Inr 16"
    by (simp add: sample_handshake) (simp add: sample_message_def)
  moreover have "sample_psk \<noteq> []" "chandshake sample_protocol \<noteq> []"
    by (simp_all add: sample_psk_def sample_handshake)
  ultimately show ?thesis
    by (simp add: Compile_def sample_genome_fields sample_kdf Let_def sample_record_valid)
qed

lemma sample_fits: "protocol_fits sample_protocol 2"
  unfolding protocol_fits_def
  by (simp add: sample_handshake step_fits_def)
     (simp add: sample_protocol_def sample_genome_def sample_message_def sample_fields_def payload_fits_def
       max_body_def length_width_def plainFieldsSize_def size_or_0_def gcmTagSize_def fixedSize.simps
       maxEncodedFieldSize.simps fieldFixedSize.simps)

lemma sample_budget: "i < length (chandshake sample_protocol) \<Longrightarrow> rnd_budget (chandshake sample_protocol ! i) \<le> length zeros"
  by (auto simp: sample_handshake less_Suc_eq nth_Cons split: nat.split)
     (simp_all add: rnd_budget_def sample_message_def sample_fields_def zeros_def field_budget_def size_or_0_def
       fixedSize.simps)

lemma sample_contributes:
  "contributes sample_protocol (length (chandshake sample_protocol)) DirClient"
  "contributes sample_protocol (length (chandshake sample_protocol)) DirServer"
  by (simp_all add: contributes_Suc sample_handshake messageHasKey_def) (simp_all add: sample_message_def)

end
