(* ===== verification/Text.thy ===== *)
theory Text
  imports Prelude
begin

text \<open>
  The string operations of Go's standard library that the program uses on text lines:
  decimal numbers (\<open>strconv\<close>, \<open>fmt\<close>), \<open>strings.TrimSpace\<close>, \<open>strings.Cut\<close> and
  \<open>strings.HasPrefix\<close>, over ASCII.
\<close>

section \<open>Decimal numbers\<close>

fun dec_string :: "nat \<Rightarrow> string" where
  "dec_string n = (if n < 10 then [char_of (48 + n)] else dec_string (n div 10) @ [char_of (48 + n mod 10)])"

declare dec_string.simps [simp del]

definition int_string :: "int \<Rightarrow> string" where
  "int_string i = (if i < 0 then CHR ''-'' # dec_string (nat (- i)) else dec_string (nat i))"

definition is_digit :: "char \<Rightarrow> bool" where
  "is_digit c \<longleftrightarrow> 48 \<le> (of_char c :: nat) \<and> (of_char c :: nat) \<le> 57"

definition digit_val :: "char \<Rightarrow> nat" where
  "digit_val c = of_char c - 48"

definition digits_val :: "string \<Rightarrow> nat" where
  "digits_val s = foldl (\<lambda>n c. 10 * n + digit_val c) 0 s"

definition parse_nat :: "string \<Rightarrow> nat option" where
  "parse_nat s = (if s \<noteq> [] \<and> list_all is_digit s then Some (digits_val s) else None)"

text \<open>\<open>strconv.ParseInt(s, 10, 64)\<close>: a sign is allowed, the value must fit 64 bits.\<close>

definition parse_int64 :: "string \<Rightarrow> int option" where
  "parse_int64 s =
     (let (neg, body) = (case s of [] \<Rightarrow> (False, s)
                         | c # cs \<Rightarrow> if c = CHR ''-'' then (True, cs) else if c = CHR ''+'' then (False, cs) else (False, s)) in
      case parse_nat body of
        None \<Rightarrow> None
      | Some n \<Rightarrow>
          if neg then (if n \<le> 2 ^ 63 then Some (- int n) else None)
          else if n < 2 ^ 63 then Some (int n) else None)"

text \<open>\<open>strconv.Atoi\<close> on a 64 bit platform is the same function.\<close>

lemma digit_char: "d < 10 \<Longrightarrow> is_digit (char_of (48 + d))" "d < 10 \<Longrightarrow> digit_val (char_of (48 + d)) = d"
  by (simp_all add: is_digit_def digit_val_def)

lemma digits_val_append: "digits_val (s @ [c]) = 10 * digits_val s + digit_val c"
  by (simp add: digits_val_def)

lemma dec_string_ok: "dec_string n \<noteq> [] \<and> list_all is_digit (dec_string n) \<and> digits_val (dec_string n) = n"
proof (induction n rule: dec_string.induct)
  case (1 n)
  show ?case
  proof (cases "n < 10")
    case True
    then have "dec_string n = [char_of (48 + n)]" by (simp add: dec_string.simps)
    with True digit_char [of n] show ?thesis by (simp add: digits_val_def)
  next
    case False
    then have "dec_string n = dec_string (n div 10) @ [char_of (48 + n mod 10)]"
      by (simp add: dec_string.simps [of n])
    with 1 False digit_char [of "n mod 10"] show ?thesis by (simp add: digits_val_append)
  qed
qed

lemma parse_dec_string [simp, roundtrip_simps]: "parse_nat (dec_string n) = Some n"
  using dec_string_ok [of n] by (simp add: parse_nat_def)

lemma dec_string_hd: "\<exists>c cs. dec_string n = c # cs \<and> is_digit c"
  using dec_string_ok [of n] by (cases "dec_string n") auto

lemma parse_int_string [simp, roundtrip_simps]:
  assumes "- (2 ^ 63) \<le> i" "i < 2 ^ 63"
  shows "parse_int64 (int_string i) = Some i"
proof (cases "i < 0")
  case True
  then have "nat (- i) \<le> 2 ^ 63" using assms(1) by (simp add: nat_le_iff)
  with True show ?thesis by (simp add: parse_int64_def int_string_def)
next
  case False
  obtain c cs where d: "dec_string (nat i) = c # cs" "is_digit c" using dec_string_hd by blast
  then have "c \<noteq> CHR ''-''" "c \<noteq> CHR ''+''" by (auto simp: is_digit_def)
  moreover have "nat i < 2 ^ 63" using assms(2) False by (simp add: nat_less_iff)
  ultimately show ?thesis
    using False d parse_dec_string [of "nat i"] by (simp add: parse_int64_def int_string_def)
qed

section \<open>Spaces, prefixes, cuts\<close>

definition is_space :: "char \<Rightarrow> bool" where
  "is_space c \<longleftrightarrow> (of_char c :: nat) \<in> {9, 10, 11, 12, 13, 32}"

definition trim_space :: "string \<Rightarrow> string" where
  "trim_space s = rev (dropWhile is_space (rev (dropWhile is_space s)))"

fun prefix_of :: "'a list \<Rightarrow> 'a list \<Rightarrow> bool" where
  "prefix_of [] ys = True"
| "prefix_of (x # xs) [] = False"
| "prefix_of (x # xs) (y # ys) = (x = y \<and> prefix_of xs ys)"

text \<open>\<open>strings.Cut\<close> at a one-character separator.\<close>

fun cut :: "char \<Rightarrow> string \<Rightarrow> (string \<times> string) option" where
  "cut sep [] = None"
| "cut sep (c # cs) =
     (if c = sep then Some ([], cs)
      else case cut sep cs of None \<Rightarrow> None | Some (a, b) \<Rightarrow> Some (c # a, b))"

lemma cut_append [simp]: "sep \<notin> set a \<Longrightarrow> cut sep (a @ sep # b) = Some (a, b)"
  by (induction a) auto

lemma cut_Some: "cut sep s = Some (a, b) \<Longrightarrow> s = a @ sep # b \<and> sep \<notin> set a"
  by (induction s arbitrary: a) (auto split: if_splits option.splits)

lemma trim_space_id:
  assumes "s = [] \<or> \<not> is_space (hd s) \<and> \<not> is_space (last s)"
  shows "trim_space s = s"
proof (cases "s = []")
  case False
  with assms have a: "dropWhile is_space s = s" by (cases s) auto
  from False assms have "dropWhile is_space (rev s) = rev s" by (cases s rule: rev_cases) auto
  with a show ?thesis by (simp add: trim_space_def)
qed (simp add: trim_space_def)

lemma digit_not_space: "is_digit c \<Longrightarrow> \<not> is_space c"
  by (auto simp: is_digit_def is_space_def)

lemma list_all_hd_last: "xs \<noteq> [] \<Longrightarrow> list_all P xs \<Longrightarrow> P (hd xs) \<and> P (last xs)"
  by (auto simp: list_all_iff)

end
