(* ===== verification/Drbg.thy ===== *)
theory Drbg
  imports Genome "HOL-Library.Multiset"
begin

text \<open>
  The deterministic random bit generator (\<open>internal/drbg/drbg.go\<close>) and the monad of
  computations that draw from it: \<open>None\<close> is a computation that never returns (the rejection
  loop of \<open>Intn\<close>), \<open>Some (Inl e)\<close> a panic or an error. Proved: reads do not depend on
  how they are split, the rejection loop returns at the first draw in range, its mask wastes
  less than half of the draws and leaves every value the same number of preimages, and
  \<open>Perm\<close> is a permutation.
\<close>

section \<open>The generator state\<close>

record drbg =
  dk :: bytes
  dv :: bytes
  dbuf :: bytes

definition blockLen :: nat where
  "blockLen = 32"

text \<open>\<open>h.Write\<close> appends, so the writes of \<open>update\<close> are one message.\<close>

definition drbg_update :: "crypto \<Rightarrow> drbg \<Rightarrow> bytes \<Rightarrow> drbg" where
  "drbg_update C r provided =
     (let k = hmac_sha256 C (dk r) (dv r @ [0] @ provided);
          v = hmac_sha256 C k (dv r) in
      r\<lparr>dk := k, dv := v\<rparr>)"

definition text_seed :: "string \<Rightarrow> bytes" where
  "text_seed s = map of_char s"

definition drbg_new :: "crypto \<Rightarrow> bytes \<Rightarrow> string \<Rightarrow> drbg" where
  "drbg_new C seed label =
     drbg_update C \<lparr>dk = replicate 32 0, dv = replicate 32 1, dbuf = []\<rparr>
       (text_seed (label @ [CHR 0x00]) @ seed)"

text \<open>\<open>out := make([]byte, 32); copy(out, v)\<close> has 32 bytes whatever \<open>v\<close> is.\<close>

definition drbg_block :: "crypto \<Rightarrow> drbg \<Rightarrow> drbg" where
  "drbg_block C r =
     (let v = hmac_sha256 C (dk r) (dv r);
          out = take blockLen (v @ replicate blockLen 0);
          r1 = drbg_update C (r\<lparr>dv := v\<rparr>) [] in
      r1\<lparr>dbuf := dbuf r @ out\<rparr>)"

lemma drbg_block_buf: "dbuf (drbg_block C r) = dbuf r @ take 32 (hmac_sha256 C (dk r) (dv r) @ replicate 32 0)"
  by (simp add: drbg_block_def Let_def blockLen_def)

lemma length_drbg_block [simp]: "length (dbuf (drbg_block C r)) = length (dbuf r) + 32"
  by (simp add: drbg_block_buf)

function drbg_fill :: "crypto \<Rightarrow> nat \<Rightarrow> drbg \<Rightarrow> drbg" where
  "drbg_fill C n r = (if length (dbuf r) < n then drbg_fill C n (drbg_block C r) else r)"
  by auto
termination
  by (relation "measure (\<lambda>(C, n, r). n - length (dbuf r))") auto

declare drbg_fill.simps [simp del]

definition drbg_read :: "crypto \<Rightarrow> nat \<Rightarrow> drbg \<Rightarrow> bytes \<times> drbg" where
  "drbg_read C n r =
     (let r1 = drbg_fill C n r in (take n (dbuf r1), r1\<lparr>dbuf := drop n (dbuf r1)\<rparr>))"

definition drbg_uint64 :: "crypto \<Rightarrow> drbg \<Rightarrow> nat \<times> drbg" where
  "drbg_uint64 C r = (let (b, r') = drbg_read C 8 r in (be_nat b, r'))"

section \<open>Computations that draw\<close>

type_synonym 'a gen = "drbg \<Rightarrow> ('a \<times> drbg) res option"

definition gret :: "'a \<Rightarrow> 'a gen" where
  "gret x r = Some (Inr (x, r))"

definition gfail :: "error \<Rightarrow> 'a gen" where
  "gfail e r = Some (Inl e)"

definition gbind :: "'a gen \<Rightarrow> ('a \<Rightarrow> 'b gen) \<Rightarrow> 'b gen" where
  "gbind m f r =
     (case m r of None \<Rightarrow> None | Some (Inl e) \<Rightarrow> Some (Inl e) | Some (Inr (x, r')) \<Rightarrow> f x r')"

definition Bytes :: "crypto \<Rightarrow> nat \<Rightarrow> bytes gen" where
  "Bytes C n r = Some (Inr (drbg_read C n r))"

definition Child :: "crypto \<Rightarrow> string \<Rightarrow> drbg \<Rightarrow> drbg \<times> drbg" where
  "Child C label r = (let (seed, r') = drbg_read C blockLen r in (drbg_new C seed label, r'))"

text \<open>\<open>uint64\<close> arithmetic: the bound is an \<open>int\<close>, so the mask stays below \<open>2 ^ 64\<close>.\<close>

function grow_mask :: "nat \<Rightarrow> nat \<Rightarrow> nat" where
  "grow_mask m n = (if m < n - 1 then grow_mask (2 * m + 1) n else m)"
  by auto
termination
  by (relation "measure (\<lambda>(m, n). n - m)") auto

declare grow_mask.simps [simp del]

partial_function (option) intn_loop :: "crypto \<Rightarrow> nat \<Rightarrow> nat \<Rightarrow> drbg \<Rightarrow> (nat \<times> drbg) option" where
  "intn_loop C m n r =
     (let (u, r') = drbg_uint64 C r; x = u AND m in
      if x < n then Some (x, r') else intn_loop C m n r')"

definition Intn :: "crypto \<Rightarrow> int \<Rightarrow> nat gen" where
  "Intn C n r =
     (if n \<le> 0 then Some (Inl ErrPanic)
      else map_option Inr (intn_loop C (grow_mask 1 (nat n)) (nat n) r))"

fun perm_loop :: "crypto \<Rightarrow> nat \<Rightarrow> nat list \<Rightarrow> nat list gen" where
  "perm_loop C 0 p = gret p"
| "perm_loop C (Suc i) p =
     gbind (Intn C (int (Suc i) + 1)) (\<lambda>j. perm_loop C i (p[Suc i := p ! j, j := p ! Suc i]))"

definition Perm :: "crypto \<Rightarrow> nat \<Rightarrow> nat list gen" where
  "Perm C n = perm_loop C (n - 1) [0 ..< n]"

fun pick :: "nat \<Rightarrow> nat list \<Rightarrow> nat \<Rightarrow> nat res" where
  "pick x [] i = Inl ErrPanic"
| "pick x (w # ws) i = (if x < w then Inr i else pick (x - w) ws (Suc i))"

definition PickWeighted :: "crypto \<Rightarrow> nat list \<Rightarrow> nat gen" where
  "PickWeighted C ws =
     gbind (Intn C (int (sum_list ws))) (\<lambda>x.
       case pick x ws 0 of Inl e \<Rightarrow> gfail e | Inr i \<Rightarrow> gret i)"

section \<open>Reads do not depend on their split\<close>

definition chop :: "nat \<Rightarrow> drbg \<Rightarrow> drbg" where
  "chop m r = r\<lparr>dbuf := drop m (dbuf r)\<rparr>"

lemma chop_block: "m \<le> length (dbuf r) \<Longrightarrow> drbg_block C (chop m r) = chop m (drbg_block C r)"
  by (simp add: chop_def drbg_block_def drbg_update_def Let_def)

lemma drbg_fill_length [simp]: "n \<le> length (dbuf (drbg_fill C n r))"
proof (induction C n r rule: drbg_fill.induct)
  case (1 C n r)
  then show ?case by (subst drbg_fill.simps) auto
qed

lemma fill_chop:
  "m \<le> length (dbuf r) \<Longrightarrow> drbg_fill C n (chop m r) = chop m (drbg_fill C (m + n) r)"
proof (induction C "m + n" r rule: drbg_fill.induct)
  case (1 C r)
  show ?case
  proof (cases "length (dbuf r) < m + n")
    case True
    then have lt: "length (dbuf (chop m r)) < n" using "1.prems" by (auto simp: chop_def)
    have "drbg_fill C n (chop m r) = drbg_fill C n (chop m (drbg_block C r))"
      using lt "1.prems" by (subst drbg_fill.simps) (simp add: chop_block)
    also have "\<dots> = chop m (drbg_fill C (m + n) (drbg_block C r))"
      using "1.hyps" [OF True] "1.prems" by simp
    also have "\<dots> = chop m (drbg_fill C (m + n) r)" using True by (subst (2) drbg_fill.simps) simp
    finally show ?thesis .
  next
    case False
    then have "\<not> length (dbuf (chop m r)) < n" by (auto simp: chop_def)
    then show ?thesis using False by (subst drbg_fill.simps, subst (2) drbg_fill.simps) simp
  qed
qed

lemma fill_fill: "m \<le> n \<Longrightarrow> drbg_fill C n (drbg_fill C m r) = drbg_fill C n r"
proof (induction C m r rule: drbg_fill.induct)
  case (1 C m r)
  show ?case
  proof (cases "length (dbuf r) < m")
    case True
    then have "length (dbuf r) < n" using "1.prems" by simp
    then have "drbg_fill C n r = drbg_fill C n (drbg_block C r)" by (subst drbg_fill.simps) simp
    moreover have "drbg_fill C m r = drbg_fill C m (drbg_block C r)" using True by (subst drbg_fill.simps) simp
    ultimately show ?thesis using "1.IH" [OF True "1.prems"] by simp
  qed (simp add: drbg_fill.simps [of C m r])
qed

lemma fill_prefix: "m \<le> length (dbuf r) \<Longrightarrow> take m (dbuf (drbg_fill C n r)) = take m (dbuf r)"
proof (induction C n r rule: drbg_fill.induct)
  case (1 C n r)
  show ?case
  proof (cases "length (dbuf r) < n")
    case True
    with 1 show ?thesis by (subst drbg_fill.simps) (simp add: drbg_block_buf)
  qed (simp add: drbg_fill.simps [of C n r])
qed

lemma length_drbg_read: "drbg_read C n r = (b, r') \<Longrightarrow> length b = n"
  using drbg_fill_length [of n C r] by (auto simp: drbg_read_def Let_def)

lemma drbg_read_append:
  assumes "drbg_read C m r = (a, r1)" "drbg_read C n r1 = (b, r2)"
  shows "drbg_read C (m + n) r = (a @ b, r2)"
proof -
  define f where "f = drbg_fill C m r"
  have lf: "m \<le> length (dbuf f)" by (simp add: f_def)
  from assms(1) have a: "a = take m (dbuf f)" and r1: "r1 = chop m f"
    by (auto simp: drbg_read_def Let_def f_def chop_def)
  define g where "g = drbg_fill C (m + n) r"
  have g: "drbg_fill C n r1 = chop m g"
    using fill_chop [OF lf, of C n] fill_fill [of m "m + n" C r] by (simp add: r1 g_def f_def)
  have pre: "take m (dbuf g) = take m (dbuf f)"
    using fill_prefix [of m f C "m + n"] lf fill_fill [of m "m + n" C r] by (simp add: g_def f_def)
  from assms(2) g have "b = take n (drop m (dbuf g))" "r2 = g\<lparr>dbuf := drop n (drop m (dbuf g))\<rparr>"
    by (auto simp: drbg_read_def Let_def chop_def)
  then show ?thesis
    using a pre by (simp add: drbg_read_def Let_def g_def [symmetric] take_add add.commute)
qed

section \<open>The rejection loop\<close>

primrec draw_state :: "crypto \<Rightarrow> drbg \<Rightarrow> nat \<Rightarrow> drbg" where
  "draw_state C r 0 = r"
| "draw_state C r (Suc k) = draw_state C (snd (drbg_uint64 C r)) k"

definition draw :: "crypto \<Rightarrow> drbg \<Rightarrow> nat \<Rightarrow> nat" where
  "draw C r k = fst (drbg_uint64 C (draw_state C r k))"

lemma draw_0 [simp]: "draw C r 0 = fst (drbg_uint64 C r)"
  by (simp add: draw_def)

lemma draw_Suc [simp]: "draw C r (Suc k) = draw C (snd (drbg_uint64 C r)) k"
  by (simp add: draw_def)

definition hits :: "crypto \<Rightarrow> nat \<Rightarrow> nat \<Rightarrow> drbg \<Rightarrow> nat \<Rightarrow> bool" where
  "hits C m n r k \<longleftrightarrow> draw C r k AND m < n \<and> (\<forall>j < k. \<not> draw C r j AND m < n)"

lemma intn_loop_hits:
  "hits C m n r k \<Longrightarrow> intn_loop C m n r = Some (draw C r k AND m, draw_state C r (Suc k))"
proof (induction k arbitrary: r)
  case 0
  then show ?case by (subst intn_loop.simps) (auto simp: hits_def Let_def split: prod.split)
next
  case (Suc k)
  obtain u r' where u: "drbg_uint64 C r = (u, r')" by (cases "drbg_uint64 C r")
  from Suc.prems u have miss: "\<not> u AND m < n" and rest: "hits C m n r' k"
    by (auto simp: hits_def less_Suc_eq_0_disj)
  from Suc.IH [OF rest] miss u show ?case by (subst intn_loop.simps) simp
qed

text \<open>The loop returns exactly when some draw is in range.\<close>

lemma intn_loop_Some:
  assumes "intn_loop C m n r = Some y"
  shows "\<exists>k. draw C r k AND m < n"
proof (rule intn_loop.raw_induct [OF _ assms])
  fix f C m n r y
  assume IH: "\<And>C m n r y. f C m n r = Some y \<Longrightarrow> \<exists>k. draw C r k AND m < n"
    and body: "(let (u, r') = drbg_uint64 C r; x = u AND m in if x < n then Some (x, r') else f C m n r') = Some y"
  obtain u r' where u: "drbg_uint64 C r = (u, r')" by (cases "drbg_uint64 C r")
  show "\<exists>k. draw C r k AND m < n"
  proof (cases "u AND m < n")
    case True
    with u show ?thesis by (intro exI [of _ 0]) simp
  next
    case False
    with body u have "f C m n r' = Some y" by simp
    from IH [OF this] obtain k where "draw C r' k AND m < n" by blast
    with u show ?thesis by (intro exI [of _ "Suc k"]) simp
  qed
qed

lemma intn_loop_None:
  assumes "\<forall>k. \<not> draw C r k AND m < n"
  shows "intn_loop C m n r = None"
  using assms intn_loop_Some by (metis option.exhaust)

lemma intn_loop_cases:
  obtains "intn_loop C m n r = None" "\<forall>k. \<not> draw C r k AND m < n"
  | k where "hits C m n r k" "intn_loop C m n r = Some (draw C r k AND m, draw_state C r (Suc k))"
proof (cases "\<exists>k. draw C r k AND m < n")
  case True
  define k where "k = (LEAST k. draw C r k AND m < n)"
  from True have "draw C r k AND m < n" unfolding k_def by (rule LeastI_ex)
  moreover have "\<forall>j < k. \<not> draw C r j AND m < n" unfolding k_def using not_less_Least by blast
  ultimately have "hits C m n r k" by (simp add: hits_def)
  with intn_loop_hits [OF this] that(2) show thesis by blast
next
  case False
  with intn_loop_None [of C r m n] that(1) show thesis by blast
qed

text \<open>The mask is the smallest \<open>2 ^ j - 1\<close> that covers the range.\<close>

lemma grow_mask_pow:
  assumes "0 < j" "2 \<le> j \<longrightarrow> 2 ^ (j - 1) < n"
  shows "\<exists>i. 0 < i \<and> grow_mask (2 ^ j - 1) n = 2 ^ i - 1 \<and> n \<le> 2 ^ i \<and> (2 \<le> i \<longrightarrow> 2 ^ (i - 1) < n)"
  using assms
proof (induction "n - 2 ^ j" arbitrary: j rule: less_induct)
  case less
  show ?case
  proof (cases "2 ^ j < n")
    case True
    have dbl: "2 * (2 ^ j - 1) + 1 = 2 ^ Suc j - (1 :: nat)"
    proof -
      have "(1 :: nat) \<le> 2 ^ j" "(2 :: nat) ^ Suc j = 2 * 2 ^ j" by simp_all
      then show ?thesis by arith
    qed
    have lt: "2 ^ j - 1 < n - 1" using True one_le_power [of "2 :: nat" j] by linarith
    have "grow_mask (2 ^ j - 1) n = grow_mask (2 ^ Suc j - 1) n"
      using lt by (subst grow_mask.simps) (simp only: dbl if_True)
    moreover have "n - 2 ^ Suc j < n - 2 ^ j" using True by (intro diff_less_mono2) simp_all
    ultimately show ?thesis using less.hyps [of "Suc j"] True by simp
  next
    case False
    then have "\<not> 2 ^ j - 1 < n - 1" by linarith
    then have "grow_mask (2 ^ j - 1) n = 2 ^ j - 1" by (subst grow_mask.simps) simp
    with False less.prems show ?thesis by (intro exI [of _ j]) auto
  qed
qed

lemma grow_mask_1: "\<exists>i. 0 < i \<and> grow_mask 1 n = 2 ^ i - 1 \<and> n \<le> 2 ^ i \<and> (2 \<le> i \<longrightarrow> 2 ^ (i - 1) < n)"
  using grow_mask_pow [of 1 n] by simp

lemma and_mask_mod: "u AND (2 ^ i - 1) = u mod 2 ^ i" for u :: nat
  by (metis and_nat_def mask_eq_exp_minus_1 take_bit_eq_mask take_bit_eq_mod)

text \<open>Every value below the bound has the same number of 64 bit draws that select it.\<close>

lemma mask_unbiased:
  assumes "i \<le> 64" "x < 2 ^ i"
  shows "card {u :: nat. u < 2 ^ 64 \<and> u AND (2 ^ i - 1) = x} = 2 ^ (64 - i)"
proof -
  have "{u :: nat. u < 2 ^ 64 \<and> u AND (2 ^ i - 1) = x} = (\<lambda>q. q * 2 ^ i + x) ` {..< 2 ^ (64 - i)}"
  proof (intro set_eqI iffI)
    fix u assume u: "u \<in> {u :: nat. u < 2 ^ 64 \<and> u AND (2 ^ i - 1) = x}"
    then have "x = u mod 2 ^ i" using and_mask_mod [of u i] by simp
    then have "u = (u div 2 ^ i) * 2 ^ i + x" by (metis div_mult_mod_eq)
    moreover have "u div 2 ^ i < 2 ^ (64 - i)"
      using u assms(1) by (simp add: less_mult_imp_div_less power_add [symmetric])
    ultimately show "u \<in> (\<lambda>q. q * 2 ^ i + x) ` {..< 2 ^ (64 - i)}" by blast
  next
    fix u assume "u \<in> (\<lambda>q. q * 2 ^ i + x) ` {..< 2 ^ (64 - i)}"
    then obtain q where q: "q < 2 ^ (64 - i)" "u = q * 2 ^ i + x" by auto
    have "q * 2 ^ i + x < (q + 1) * 2 ^ i" using assms(2) by simp
    also have "\<dots> \<le> 2 ^ (64 - i) * 2 ^ i" using q(1) by (intro mult_right_mono) auto
    also have "\<dots> = 2 ^ 64" using assms(1) by (simp add: power_add [symmetric])
    finally show "u \<in> {u :: nat. u < 2 ^ 64 \<and> u AND (2 ^ i - 1) = x}"
      using q(2) assms(2) and_mask_mod [of u i] by simp
  qed
  moreover have "inj_on (\<lambda>q. q * 2 ^ i + x) {..< 2 ^ (64 - i)}" by (auto simp: inj_on_def)
  ultimately show ?thesis by (simp add: card_image)
qed

section \<open>Reasoning about computations that draw\<close>

text \<open>
  \<open>yields m P\<close>: from every state the computation does not fail, and if it returns, its result
  satisfies \<open>P\<close>. \<open>returns m\<close>: it returns from every state. Both compose over the monad.
\<close>

definition yields :: "'a gen \<Rightarrow> ('a \<Rightarrow> bool) \<Rightarrow> bool" where
  "yields m P \<longleftrightarrow>
     (\<forall>r. (\<forall>e. m r \<noteq> Some (Inl e)) \<and> (\<forall>x r'. m r = Some (Inr (x, r')) \<longrightarrow> P x))"

definition returns :: "'a gen \<Rightarrow> bool" where
  "returns m \<longleftrightarrow> (\<forall>r. m r \<noteq> None)"

named_theorems yields_intros
named_theorems returns_intros

lemma yields_gret [yields_intros]: "P x \<Longrightarrow> yields (gret x) P"
  by (simp add: yields_def gret_def)

lemma yields_gbind:
  assumes "yields m P" "\<And>x. P x \<Longrightarrow> yields (f x) Q"
  shows "yields (gbind m f) Q"
  using assms unfolding yields_def gbind_def
  by (fastforce split: option.splits sum.splits)

lemma yields_weaken: "yields m P \<Longrightarrow> (\<And>x. P x \<Longrightarrow> Q x) \<Longrightarrow> yields m Q"
  unfolding yields_def by blast

lemma yieldsD: "yields m P \<Longrightarrow> m r = Some (Inr (x, r')) \<Longrightarrow> P x"
  unfolding yields_def by blast

lemma yields_no_error: "yields m P \<Longrightarrow> m r \<noteq> Some (Inl e)"
  unfolding yields_def by blast

lemma yields_if: "(c \<Longrightarrow> yields m P) \<Longrightarrow> (\<not> c \<Longrightarrow> yields n P) \<Longrightarrow> yields (if c then m else n) P"
  by simp

lemma returns_gret [returns_intros]: "returns (gret x)"
  by (simp add: returns_def gret_def)

lemma returns_gfail [returns_intros]: "returns (gfail e)"
  by (simp add: returns_def gfail_def)

lemma returns_gbind [returns_intros]:
  assumes "returns m" "\<And>x. returns (f x)"
  shows "returns (gbind m f)"
  using assms unfolding returns_def gbind_def by (auto split: option.splits sum.splits)

lemma returns_if [returns_intros]: "returns m \<Longrightarrow> returns n \<Longrightarrow> returns (if c then m else n)"
  by simp

text \<open>
  From every state some draw is in range. Each draw is in range with probability above one
  half (\<open>grow_mask_half\<close>), so a stream that violates this has probability zero.
\<close>

definition rejection_ends :: "crypto \<Rightarrow> bool" where
  "rejection_ends C \<longleftrightarrow> (\<forall>r n. 0 < n \<longrightarrow> (\<exists>k. draw C r k AND grow_mask 1 n < n))"

lemma grow_mask_half: "0 < n \<Longrightarrow> grow_mask 1 n < 2 * n"
proof -
  assume n: "0 < n"
  from grow_mask_1 [of n] obtain i where i: "0 < i" "grow_mask 1 n = 2 ^ i - 1" "2 \<le> i \<longrightarrow> 2 ^ (i - 1) < n"
    by blast
  show ?thesis
  proof (cases "2 \<le> i")
    case True
    then have "(2 :: nat) ^ i = 2 * 2 ^ (i - 1)" by (metis One_nat_def Suc_pred i(1) power_Suc)
    with True i n show ?thesis by simp
  next
    case False
    with i(1) have "i = 1" by linarith
    with i n show ?thesis by simp
  qed
qed

lemma Intn_yields [yields_intros]: "0 < n \<Longrightarrow> yields (Intn C n) (\<lambda>x. int x < n)"
  unfolding yields_def
proof
  fix r assume n: "0 < n"
  show "(\<forall>e. Intn C n r \<noteq> Some (Inl e)) \<and> (\<forall>x r'. Intn C n r = Some (Inr (x, r')) \<longrightarrow> int x < n)"
    by (cases rule: intn_loop_cases [of C "grow_mask 1 (nat n)" "nat n" r])
       (use n in \<open>auto simp: Intn_def hits_def zless_nat_eq_int_zless\<close>)
qed

lemma Intn_returns [returns_intros]: "rejection_ends C \<Longrightarrow> returns (Intn C n)"
  unfolding returns_def
proof
  fix r assume R: "rejection_ends C"
  show "Intn C n r \<noteq> None"
  proof (cases "0 < n")
    case True
    with R obtain k where "draw C r k AND grow_mask 1 (nat n) < nat n"
      unfolding rejection_ends_def by (metis zero_less_nat_eq)
    then show ?thesis
      by (cases rule: intn_loop_cases [of C "grow_mask 1 (nat n)" "nat n" r]) (auto simp: Intn_def)
  qed (simp add: Intn_def)
qed

lemma perm_loop_yields: "i < length p \<Longrightarrow> yields (perm_loop C i p) (\<lambda>q. mset q = mset p)"
proof (induction i arbitrary: p)
  case 0
  then show ?case by (simp add: yields_gret)
next
  case (Suc i)
  show ?case
    unfolding perm_loop.simps
  proof (rule yields_gbind [OF Intn_yields])
    fix j assume "int j < int (Suc i) + 1"
    with Suc.prems have j: "j < length p" "Suc i < length p" by linarith+
    have "mset (p[Suc i := p ! j, j := p ! Suc i]) = mset p"
      using mset_swap [OF j(1,2)] .
    with Suc.IH [of "p[Suc i := p ! j, j := p ! Suc i]"] j(2)
    show "yields (perm_loop C i (p[Suc i := p ! j, j := p ! Suc i])) (\<lambda>q. mset q = mset p)"
      by simp
  qed simp
qed

lemma Perm_yields: "yields (Perm C n) (\<lambda>q. mset q = mset [0 ..< n])"
proof (cases n)
  case 0
  then show ?thesis by (simp add: Perm_def yields_gret)
next
  case (Suc m)
  then show ?thesis using perm_loop_yields [of m "[0 ..< n]" C] by (simp add: Perm_def)
qed

lemma Perm_returns [returns_intros]: "rejection_ends C \<Longrightarrow> returns (Perm C n)"
proof -
  assume R: "rejection_ends C"
  have "returns (perm_loop C i p)" for i p
    by (induction i arbitrary: p) (auto intro: returns_intros R)
  then show ?thesis by (simp add: Perm_def)
qed

lemma pick_less: "x < sum_list ws \<Longrightarrow> \<exists>k. pick x ws i = Inr (i + k) \<and> k < length ws \<and> 0 < ws ! k"
proof (induction ws arbitrary: x i)
  case (Cons w ws)
  show ?case
  proof (cases "x < w")
    case True
    then show ?thesis by (intro exI [of _ 0]) simp
  next
    case False
    with Cons.prems have "x - w < sum_list ws" by simp
    from Cons.IH [OF this, of "Suc i"] obtain k where
      "pick (x - w) ws (Suc i) = Inr (Suc i + k)" "k < length ws" "0 < ws ! k" by blast
    with False show ?thesis by (intro exI [of _ "Suc k"]) simp
  qed
qed simp

lemma PickWeighted_yields [yields_intros]:
  assumes "0 < sum_list ws"
  shows "yields (PickWeighted C ws) (\<lambda>k. k < length ws \<and> 0 < ws ! k)"
  unfolding PickWeighted_def
proof (rule yields_gbind [OF Intn_yields])
  show "0 < int (sum_list ws)" using assms by simp
  fix x assume "int x < int (sum_list ws)"
  with pick_less [of x ws 0] obtain k where "pick x ws 0 = Inr k" "k < length ws" "0 < ws ! k" by auto
  then show "yields (case pick x ws 0 of Inl e \<Rightarrow> gfail e | Inr i \<Rightarrow> gret i) (\<lambda>k. k < length ws \<and> 0 < ws ! k)"
    by (simp add: yields_gret)
qed

lemma PickWeighted_returns [returns_intros]: "rejection_ends C \<Longrightarrow> returns (PickWeighted C ws)"
  unfolding PickWeighted_def
  by (intro returns_intros) (auto split: sum.split intro: returns_intros)

lemma Bytes_yields [yields_intros]: "yields (Bytes C n) (\<lambda>b. length b = n)"
  unfolding yields_def Bytes_def using length_drbg_read [of C n] by (auto split: prod.splits)

lemma Bytes_returns [returns_intros]: "returns (Bytes C n)"
  by (simp add: returns_def Bytes_def)

text \<open>A weight of index \<open>i\<close> is the number of draws of \<open>Intn\<close> that select \<open>i\<close>.\<close>

lemma pick_ge: "pick x ws k = Inr j \<Longrightarrow> k \<le> j"
  by (induction ws arbitrary: x k) (auto split: if_splits dest: Suc_leD)

lemma pick_iff:
  "x < sum_list ws \<and> pick x ws k = Inr (k + i) \<longleftrightarrow>
     i < length ws \<and> sum_list (take i ws) \<le> x \<and> x < sum_list (take i ws) + ws ! i"
proof (induction ws arbitrary: x k i)
  case (Cons w ws)
  show ?case
  proof (cases i)
    case 0
    then show ?thesis using pick_ge [of "x - w" ws "Suc k" k] by auto
  next
    case (Suc j)
    from Cons.IH [of "x - w" "Suc k" j] Suc show ?thesis
      by (cases "x < w") auto
  qed
qed simp

lemma pick_card:
  assumes "i < length ws"
  shows "card {x. x < sum_list ws \<and> pick x ws 0 = Inr i} = ws ! i"
proof -
  have "{x. x < sum_list ws \<and> pick x ws 0 = Inr i} = {sum_list (take i ws) ..< sum_list (take i ws) + ws ! i}"
  proof (rule set_eqI)
    fix x
    show "x \<in> {x. x < sum_list ws \<and> pick x ws 0 = Inr i} \<longleftrightarrow>
        x \<in> {sum_list (take i ws) ..< sum_list (take i ws) + ws ! i}"
      using pick_iff [of x ws 0 i] assms by simp
  qed
  then show ?thesis by simp
qed

end
