(* ===== verification/Generator.thy ===== *)
theory Generator
  imports Text Drbg Layout
begin

text \<open>
  The protocol generator (\<open>internal/genome/generator.go\<close>): every design choice is a draw from
  the generator's stream, in the order of the code. The entropy estimate that the code
  accumulates beside the draws is floating point metadata and is left out.
\<close>

section \<open>Choices\<close>

definition chooseN :: "crypto \<Rightarrow> nat \<Rightarrow> nat gen" where
  "chooseN C n = (if n \<le> 1 then gret 0 else Intn C (int n))"

definition rangeChoice :: "crypto \<Rightarrow> nat \<Rightarrow> nat \<Rightarrow> nat gen" where
  "rangeChoice C lo hi =
     (if hi \<le> lo then gret lo else gbind (Intn C (int (hi - lo))) (\<lambda>x. gret (lo + x)))"

definition weighted :: "crypto \<Rightarrow> nat list \<Rightarrow> nat gen" where
  "weighted C ws = PickWeighted C ws"

definition permuteFields :: "crypto \<Rightarrow> field_spec list \<Rightarrow> field_spec list gen" where
  "permuteFields C fs = gbind (Perm C (length fs)) (\<lambda>p. gret (map (\<lambda>idx. fs ! idx) p))"

section \<open>Fields\<close>

definition constant_field :: "field_kind \<Rightarrow> bytes \<Rightarrow> field_spec" where
  "constant_field k b =
     field_zero\<lparr>fkind := k, fplacement := PlacePlain, fencoding := EncFixedBytes,
       fsize := int (length b), fvalue_hex := hex_encode b, fvalue_source := ValueConstant\<rparr>"

definition versionField :: "crypto \<Rightarrow> field_spec gen" where
  "versionField C =
     gbind (weighted C [3, 1]) (\<lambda>k.
       let size = k + 1 in
       if size = 1 then
         gbind (chooseN C 5) (\<lambda>v. gret (constant_field FieldVersion [of_nat (v + 1)]))
       else
         gbind (chooseN C 4) (\<lambda>major. gbind (chooseN C 16) (\<lambda>minor.
           gret (constant_field FieldVersion [of_nat major, of_nat minor]))))"

definition typeField :: "crypto \<Rightarrow> field_spec gen" where
  "typeField C =
     gbind (weighted C [3, 1]) (\<lambda>k.
       let size = k + 1 in
       gbind (Bytes C size) (\<lambda>raw.
       gbind (chooseN C 15) (\<lambda>lo.
         let raw1 = raw[0 := of_nat (lo + 1)] in
         if size = 2 then
           gbind (chooseN C 255) (\<lambda>hi. gret (constant_field FieldType (raw1[1 := of_nat hi])))
         else gret (constant_field FieldType raw1))))"

definition nonceField :: "crypto \<Rightarrow> field_spec gen" where
  "nonceField C =
     gbind (weighted C [2, 3, 4, 3, 1]) (\<lambda>k.
       gret (field_zero\<lparr>fkind := FieldNonce, fplacement := PlacePlain, fencoding := EncFixedBytes,
         fsize := [4, 8, 12, 16, 32] ! k, fvalue_source := ValueRandom\<rparr>))"

definition reservedField :: "crypto \<Rightarrow> field_spec gen" where
  "reservedField C =
     gbind (weighted C [3, 2, 2, 1, 1]) (\<lambda>k.
       let size = [1, 2, 4, 8, 16] ! k in
       gbind (weighted C [7, 3]) (\<lambda>v.
         gret (field_zero\<lparr>fkind := FieldReserved, fplacement := PlacePlain, fencoding := EncFixedBytes,
           fsize := int size,
           fvalue_hex := (if v = 1 then [] else hex_encode (replicate size 0)),
           fvalue_source := (if v = 1 then ValueRandom else ValueZero)\<rparr>)))"

definition length_options :: "int \<Rightarrow> bool \<Rightarrow> (encoding \<times> nat) list" where
  "length_options minBytes isAppRecord =
     (if isAppRecord then [(EncU16, 4), (EncU24, 3), (EncU32, 2)]
      else let opts = filter (\<lambda>(e, w). minBytes \<le> maxIntValue e)
                        [(EncU8, 1), (EncU16, 3), (EncU24, 2), (EncU32, 2)] in
           if opts = [] then [(EncU32, 1)] else opts)"

definition lengthField :: "crypto \<Rightarrow> int \<Rightarrow> bool \<Rightarrow> field_spec gen" where
  "lengthField C minBytes isAppRecord =
     (let opts = length_options minBytes isAppRecord in
      gbind (weighted C (map snd opts)) (\<lambda>k.
      gbind (weighted C [4, 1]) (\<lambda>s.
      gbind (weighted C [3, 1]) (\<lambda>e.
        gret (field_zero\<lparr>fkind := FieldLength, fplacement := PlacePlain, fencoding := fst (opts ! k),
          fendian := (if e = 1 then EndianLittle else EndianBig),
          fsubject := (if s = 1 then SubjectRecord else SubjectCiphertext),
          fvalue_source := ValueConstant\<rparr>)))))"

definition keyField :: "crypto \<Rightarrow> field_spec gen" where
  "keyField C =
     gbind (weighted C [4, 1]) (\<lambda>k.
       gret (field_zero\<lparr>fkind := FieldKey, fplacement := PlaceEncrypted,
         fencoding := (if k = 1 then EncX963 else EncRaw32), fsize := (if k = 1 then 33 else 32),
         fvalue_source := ValueInjected\<rparr>))"

definition certField :: "crypto \<Rightarrow> field_spec gen" where
  "certField C =
     gbind (weighted C [3, 1]) (\<lambda>k.
       if k = 0 then
         gbind (rangeChoice C 64 449) (\<lambda>size.
           gret (field_zero\<lparr>fkind := FieldCert, fplacement := PlaceEncrypted, fencoding := EncFixedBytes,
             fsize := int size, fvalue_source := ValueRandom\<rparr>))
       else gret (field_zero\<lparr>fkind := FieldCert, fplacement := PlaceEncrypted, fencoding := EncPrefixedU16,
              fmin_size := 64, fmax_size := 512, fvalue_source := ValueRandom\<rparr>))"

definition extraField :: "crypto \<Rightarrow> field_spec gen" where
  "extraField C =
     gbind (weighted C [4, 3, 1]) (\<lambda>k.
       if k = 0 then
         gbind (rangeChoice C 4 61) (\<lambda>size.
           gret (field_zero\<lparr>fkind := FieldExtra, fplacement := PlaceEncrypted, fencoding := EncFixedBytes,
             fsize := int size, fvalue_source := ValueRandom\<rparr>))
       else if k = 1 then
         gret (field_zero\<lparr>fkind := FieldExtra, fplacement := PlaceEncrypted, fencoding := EncPrefixedU8,
           fmin_size := 1, fmax_size := 64, fvalue_source := ValueRandom\<rparr>)
       else
         gret (field_zero\<lparr>fkind := FieldExtra, fplacement := PlaceEncrypted, fencoding := EncPrefixedU16,
           fmin_size := 1, fmax_size := 512, fvalue_source := ValueRandom\<rparr>))"

definition padLenField :: "crypto \<Rightarrow> int \<Rightarrow> field_spec gen" where
  "padLenField C maxPad =
     gbind (if 255 < maxPad then gret EncU16
            else gbind (weighted C [3, 1]) (\<lambda>k. gret (if k = 1 then EncU16 else EncU8))) (\<lambda>enc.
     gbind (weighted C [3, 1]) (\<lambda>e.
       gret (field_zero\<lparr>fkind := FieldPadLen, fplacement := PlaceEncrypted, fencoding := enc,
         fendian := (if e = 1 then EndianLittle else EndianBig), fvalue_source := ValueRandom\<rparr>)))"

definition paddingPolicy :: "crypto \<Rightarrow> padding_policy gen" where
  "paddingPolicy C =
     gbind (weighted C [1, 5, 2]) (\<lambda>k.
       if k = 0 then gret \<lparr>pmode = PaddingNone, pmin = 0, pmax = 0\<rparr>
       else if k = 1 then
         gbind (rangeChoice C 0 33) (\<lambda>lo. gbind (rangeChoice C 1 257) (\<lambda>span.
           gret \<lparr>pmode = PaddingUniform, pmin = int lo, pmax = int (lo + span)\<rparr>))
       else
         gbind (chooseN C 2) (\<lambda>m. gbind (rangeChoice C 64 449) (\<lambda>span.
           gret \<lparr>pmode = PaddingBurst, pmin = int (16 * m), pmax = int (16 * m + span)\<rparr>)))"

section \<open>Messages\<close>

definition aeadTagSize :: int where
  "aeadTagSize = 16"

definition maxHandshakeEarlyData :: int where
  "maxHandshakeEarlyData = 1400"

text \<open>\<open>if g.weighted(...) == 0 { fields = append(fields, field()) }\<close>\<close>

definition append_if ::
  "crypto \<Rightarrow> nat list \<Rightarrow> field_spec gen \<Rightarrow> field_spec list \<Rightarrow> field_spec list gen" where
  "append_if C ws field fs =
     gbind (weighted C ws) (\<lambda>k. if k = 0 then gbind field (\<lambda>f. gret (fs @ [f])) else gret fs)"

definition plain_pool :: "crypto \<Rightarrow> field_spec list gen" where
  "plain_pool C =
     gbind (append_if C [9, 1] (versionField C) []) (\<lambda>p1.
     gbind (append_if C [9, 1] (typeField C) p1) (\<lambda>p2.
     gbind (append_if C [3, 1] (nonceField C) p2) (\<lambda>p3.
     gbind (append_if C [3, 7] (reservedField C) p3) (\<lambda>p4. permuteFields C p4))))"

fun payload_choice :: "crypto \<Rightarrow> purpose \<Rightarrow> bool gen" where
  "payload_choice C Hello = gbind (weighted C [10, 90]) (\<lambda>k. gret (k = 0))"
| "payload_choice C HelloKey = gbind (weighted C [35, 65]) (\<lambda>k. gret (k = 0))"
| "payload_choice C PKey = gbind (weighted C [10, 90]) (\<lambda>k. gret (k = 0))"
| "payload_choice C PAck = gbind (weighted C [40, 60]) (\<lambda>k. gret (k = 0))"
| "payload_choice C PData = gret True"
| "payload_choice C (PurposeOther _) = gret False"

definition encrypted_pool :: "crypto \<Rightarrow> direction \<Rightarrow> bool \<Rightarrow> padding_policy \<Rightarrow> field_spec list gen" where
  "encrypted_pool C dir hasKey padding =
     gbind (if hasKey then gbind (keyField C) (\<lambda>f. gret [f]) else gret []) (\<lambda>e1.
     gbind (if dir = DirServer then append_if C [55, 45] (certField C) e1 else gret e1) (\<lambda>e2.
     gbind (append_if C [45, 55] (extraField C) e2) (\<lambda>e3.
     gbind (if pmode padding \<noteq> PaddingNone then gbind (padLenField C (pmax padding)) (\<lambda>f. gret (e3 @ [f]))
            else gret e3) (\<lambda>e4. permuteFields C e4))))"

fun direction_text :: "direction \<Rightarrow> string" where
  "direction_text DirClient = ''client''"
| "direction_text DirServer = ''server''"
| "direction_text DirBoth = ''bidirectional''"
| "direction_text (DirOther s) = s"

definition min_bytes :: "field_spec list \<Rightarrow> field_spec list \<Rightarrow> padding_policy \<Rightarrow> bool \<Rightarrow> int" where
  "min_bytes plain enc padding early =
     sum_list (map (\<lambda>f. fst (fieldFixedSize f)) plain) + 4 +
     (aeadTagSize + sum_list (map maxEncodedFieldSize enc) + pmax padding +
      (if early then maxHandshakeEarlyData else 0))"

definition gen_message ::
  "crypto \<Rightarrow> nat \<Rightarrow> direction \<Rightarrow> purpose \<Rightarrow> bool \<Rightarrow> cipher_suite \<Rightarrow> message_spec gen" where
  "gen_message C i dir why hasKey cipher =
     (let isAppRecord = (why = PData) in
      gbind (plain_pool C) (\<lambda>plain.
      gbind (payload_choice C why) (\<lambda>payload.
      gbind (paddingPolicy C) (\<lambda>padding.
      gbind (encrypted_pool C dir hasKey padding) (\<lambda>enc.
      gbind (lengthField C (min_bytes plain enc padding (payload \<and> \<not> isAppRecord)) isAppRecord) (\<lambda>len.
      gbind (chooseN C (length plain + 1)) (\<lambda>pos.
      gbind (weighted C [20, 80]) (\<lambda>alone.
        gret \<lparr>mindex = int i, mname = ''M'' @ dec_string i @ ''_'' @ direction_text dir, mdirection = dir,
              mpurpose = why, plain_fields = take pos plain @ [len] @ drop pos plain, encrypted_fields = enc,
              length_field_index = int pos, length_alone = (alone = 0), has_payload = payload,
              mpadding = padding, mcipher = cipher\<rparr>))))))))"

section \<open>Genomes\<close>

definition patternTable :: "(string \<times> (direction \<times> purpose \<times> bool) list) list" where
  "patternTable =
     [(''c_s'', [(DirClient, HelloKey, True), (DirServer, HelloKey, True)]),
      (''c_s_c'', [(DirClient, Hello, False), (DirServer, HelloKey, True), (DirClient, PKey, True)]),
      (''c_s_c_s'', [(DirClient, Hello, False), (DirServer, HelloKey, True), (DirClient, PKey, True),
                     (DirServer, PAck, False)]),
      (''c_c_s'', [(DirClient, Hello, False), (DirClient, PKey, True), (DirServer, HelloKey, True)]),
      (''s_c'', [(DirServer, HelloKey, True), (DirClient, PKey, True)]),
      (''s_c_s'', [(DirServer, HelloKey, True), (DirClient, PKey, True), (DirServer, PAck, False)])]"

fun knownCipher :: "cipher_suite \<Rightarrow> bool" where
  "knownCipher (CipherOther _) = False"
| "knownCipher _ = True"

fun gen_steps ::
  "crypto \<Rightarrow> nat \<Rightarrow> (direction \<times> purpose \<times> bool) list \<Rightarrow> cipher_suite \<Rightarrow> message_spec list gen" where
  "gen_steps C i [] cipher = gret []"
| "gen_steps C i ((dir, why, hasKey) # steps) cipher =
     gbind (gen_message C i dir why hasKey cipher) (\<lambda>m.
     gbind (gen_steps C (Suc i) steps cipher) (\<lambda>ms. gret (m # ms)))"

text \<open>The genome and the fingerprint over its marshalled form without one.\<close>

definition make_genome ::
  "crypto \<Rightarrow> bytes \<Rightarrow> nat \<Rightarrow> string \<Rightarrow> message_spec list \<Rightarrow> message_spec \<Rightarrow> protocol_genome" where
  "make_genome C seed_sum gen_no name hs app =
     (let g = \<lparr>gschema = GeneratorSchema, generation = gen_no, seed_material = hex_encode seed_sum,
               handshake_pattern = name, handshake = hs, app_record = app, protocol_fingerprint = []\<rparr> in
      g\<lparr>protocol_fingerprint := hex_encode (sha256 C (marshal_genome C g))\<rparr>)"

definition generate_body ::
  "crypto \<Rightarrow> bytes \<Rightarrow> nat \<Rightarrow> cipher_suite option \<Rightarrow> protocol_genome gen" where
  "generate_body C seed_sum gen_no force =
     gbind (weighted C [2, 1, 5]) (\<lambda>k.
       let drawn = [CipherAES128GCM, CipherAES192GCM, CipherAES256GCM] ! k in
       gbind (case force of None \<Rightarrow> gret drawn
              | Some cs \<Rightarrow> if \<not> knownCipher cs then gfail ErrCipher else gret cs) (\<lambda>cipher.
       gbind (weighted C [3, 3, 3, 1, 1, 1]) (\<lambda>p.
         let (name, steps) = patternTable ! p in
         gbind (gen_steps C 0 steps cipher) (\<lambda>hs.
         gbind (gen_message C (length steps) DirBoth PData False cipher) (\<lambda>app.
           gret (make_genome C seed_sum gen_no name hs app))))))"

definition generate ::
  "crypto \<Rightarrow> bytes \<Rightarrow> nat \<Rightarrow> cipher_suite option \<Rightarrow> protocol_genome res option" where
  "generate C seed gen_no force =
     (let seed_sum = sha256 C seed;
          root = drbg_new C (text_seed (''chimera-pgc-v0/seed'' @ [CHR 0x00]) @ seed_sum) ''chimera-pgc-v0/root'';
          (r, _) = Child C (''generation/'' @ dec_string gen_no) root in
      case generate_body C seed_sum gen_no force r of
        None \<Rightarrow> None
      | Some (Inl e) \<Rightarrow> Some (Inl e)
      | Some (Inr (g, _)) \<Rightarrow> Some (Inr g))"

definition Generate :: "crypto \<Rightarrow> bytes \<Rightarrow> nat \<Rightarrow> protocol_genome res option" where
  "Generate C seed gen_no = generate C seed gen_no None"

definition GenerateWithCipher ::
  "crypto \<Rightarrow> bytes \<Rightarrow> nat \<Rightarrow> cipher_suite option \<Rightarrow> protocol_genome res option" where
  "GenerateWithCipher C seed gen_no cipher = generate C seed gen_no cipher"

end
