(* ===== verification/Generator_Layout.thy ===== *)
theory Generator_Layout
  imports Generator Handshake_Lockstep
begin

text \<open>
  Every message the generator produces is a layout the codec can encode and decode: it
  validates, its length field is wide enough for every handshake message with the early data
  allowance, its pad-length field for the padding policy. Every pattern has both peers
  contribute an ephemeral key, so a generated protocol runs to equal session keys.
\<close>

section \<open>Choices\<close>

lemma chooseN_yields [yields_intros]: "0 < n \<Longrightarrow> yields (chooseN C n) (\<lambda>x. x < n)"
  unfolding chooseN_def
  by (rule yields_if) (auto intro: yields_gret yields_weaken [OF Intn_yields])

lemma rangeChoice_yields [yields_intros]:
  "lo < hi \<Longrightarrow> yields (rangeChoice C lo hi) (\<lambda>x. lo \<le> x \<and> x < hi)"
  unfolding rangeChoice_def
  by (rule yields_if) (auto intro!: yields_gret yields_gbind [OF Intn_yields])

lemma weighted_yields [yields_intros]: "0 < sum_list ws \<Longrightarrow> yields (weighted C ws) (\<lambda>k. k < length ws)"
  unfolding weighted_def by (rule yields_weaken [OF PickWeighted_yields]) auto

lemma permuteFields_yields: "yields (permuteFields C fs) (\<lambda>q. mset q = mset fs)"
  unfolding permuteFields_def
proof (rule yields_gbind [OF Perm_yields], rule yields_gret)
  fix p assume "mset p = mset [0 ..< length fs]"
  then have "mset (map ((!) fs) p) = mset (map ((!) fs) [0 ..< length fs])" by (simp only: mset_map)
  also have "map ((!) fs) [0 ..< length fs] = fs" by (rule map_nth)
  finally show "mset (map (\<lambda>idx. fs ! idx) p) = mset fs" .
qed

lemma choices_return [returns_intros]:
  assumes "rejection_ends C"
  shows "returns (chooseN C n)" "returns (rangeChoice C lo hi)" "returns (weighted C ws)"
    "returns (permuteFields C fs)"
  unfolding chooseN_def rangeChoice_def weighted_def permuteFields_def
  by (auto intro!: returns_intros assms)

section \<open>Plaintext fields\<close>

definition plain_gen_ok :: "field_spec \<Rightarrow> bool" where
  "plain_gen_ok f \<longleftrightarrow>
     fplacement f = PlacePlain \<and> fkind f \<in> {FieldVersion, FieldType, FieldNonce, FieldReserved} \<and>
     fencoding f = EncFixedBytes \<and> 0 < fsize f \<and> fsize f \<le> 32 \<and> plain_content_ok f"

lemma constant_field_ok:
  assumes "k \<in> {FieldVersion, FieldType}" "b \<noteq> []" "length b \<le> 2"
  shows "plain_gen_ok (constant_field k b)"
  using assms by (auto simp: plain_gen_ok_def constant_field_def plain_content_ok_def)

lemma versionField_yields: "yields (versionField C) plain_gen_ok"
  unfolding versionField_def Let_def
  by (intro yields_gbind [OF weighted_yields] yields_if yields_gbind [OF chooseN_yields] yields_gret
      constant_field_ok) auto

lemma typeField_yields: "yields (typeField C) plain_gen_ok"
  unfolding typeField_def Let_def
  by (intro yields_gbind [OF weighted_yields] yields_gbind [OF Bytes_yields] yields_if
      yields_gbind [OF chooseN_yields] yields_gret constant_field_ok) auto

lemma nonceField_yields: "yields (nonceField C) plain_gen_ok"
  unfolding nonceField_def
  by (intro yields_gbind [OF weighted_yields] yields_gret)
     (auto simp: less_Suc_eq plain_gen_ok_def plain_content_ok_def)

lemma reservedField_yields: "yields (reservedField C) plain_gen_ok"
  unfolding reservedField_def Let_def
  by (intro yields_gbind [OF weighted_yields] yields_gret)
     (auto simp: less_Suc_eq plain_gen_ok_def plain_content_ok_def)

definition pool_ok :: "nat \<Rightarrow> field_spec list \<Rightarrow> bool" where
  "pool_ok n fs \<longleftrightarrow> length fs \<le> n \<and> (\<forall>f \<in> set fs. plain_gen_ok f)"

lemma append_if_pool:
  assumes "0 < sum_list ws" "yields field plain_gen_ok" "pool_ok n fs"
  shows "yields (append_if C ws field fs) (pool_ok (Suc n))"
  unfolding append_if_def
  by (intro yields_gbind [OF weighted_yields] yields_if yields_gbind [OF assms(2)] yields_gret)
     (use assms in \<open>auto simp: pool_ok_def\<close>)

lemma plain_pool_yields: "yields (plain_pool C) (pool_ok 4)"
  unfolding plain_pool_def
proof (rule yields_gbind [OF append_if_pool [OF _ versionField_yields]], simp_all)
  show "pool_ok 0 []" by (simp add: pool_ok_def)
  fix p1 assume "pool_ok (Suc 0) p1"
  show "yields (gbind (append_if C [9, Suc 0] (typeField C) p1) (\<lambda>p2.
      gbind (append_if C [3, Suc 0] (nonceField C) p2) (\<lambda>p3.
      gbind (append_if C [3, 7] (reservedField C) p3) (permuteFields C)))) (pool_ok 4)"
  proof (rule yields_gbind [OF append_if_pool [OF _ typeField_yields \<open>pool_ok (Suc 0) p1\<close>]], simp)
    fix p2 assume p2: "pool_ok (Suc (Suc 0)) p2"
    show "yields (gbind (append_if C [3, Suc 0] (nonceField C) p2) (\<lambda>p3.
        gbind (append_if C [3, 7] (reservedField C) p3) (permuteFields C))) (pool_ok 4)"
    proof (rule yields_gbind [OF append_if_pool [OF _ nonceField_yields p2]], simp)
      fix p3 assume p3: "pool_ok (Suc (Suc (Suc 0))) p3"
      show "yields (gbind (append_if C [3, 7] (reservedField C) p3) (permuteFields C)) (pool_ok 4)"
      proof (rule yields_gbind [OF append_if_pool [OF _ reservedField_yields p3]], simp)
        fix p4 assume p4: "pool_ok (Suc (Suc (Suc (Suc 0)))) p4"
        show "yields (permuteFields C p4) (pool_ok 4)"
          by (rule yields_weaken [OF permuteFields_yields])
             (use p4 in \<open>auto simp: pool_ok_def dest: mset_eq_length mset_eq_setD\<close>)
      qed
    qed
  qed
qed

section \<open>Encrypted fields\<close>

definition enc_gen_ok :: "field_kind \<Rightarrow> field_spec \<Rightarrow> bool" where
  "enc_gen_ok k f \<longleftrightarrow>
     fkind f = k \<and> encrypted_field_ok f \<and> encrypted_size_ok f \<and>
     0 \<le> maxEncodedFieldSize f \<and> maxEncodedFieldSize f \<le> 514"

lemmas enc_gen_defs = enc_gen_ok_def encrypted_field_ok_def encrypted_size_ok_def
  maxEncodedFieldSize.simps fieldFixedSize.simps

lemma keyField_yields: "yields (keyField C) (enc_gen_ok FieldKey)"
  unfolding keyField_def
  by (intro yields_gbind [OF weighted_yields] yields_gret) (auto simp: enc_gen_defs)

lemma certField_yields: "yields (certField C) (enc_gen_ok FieldCert)"
  unfolding certField_def
  by (intro yields_gbind [OF weighted_yields] yields_if yields_gbind [OF rangeChoice_yields] yields_gret)
     (auto simp: enc_gen_defs)

lemma extraField_yields: "yields (extraField C) (enc_gen_ok FieldExtra)"
  unfolding extraField_def
  by (intro yields_gbind [OF weighted_yields] yields_if yields_gbind [OF rangeChoice_yields] yields_gret)
     (auto simp: enc_gen_defs)

lemma padLenField_yields:
  assumes "mx < 65536"
  shows "yields (padLenField C mx) (\<lambda>f. enc_gen_ok FieldPadLen f \<and> mx < 256 ^ intWidth (fencoding f))"
proof -
  have enc: "yields (if 255 < mx then gret EncU16
      else gbind (weighted C [3, 1]) (\<lambda>k. gret (if k = 1 then EncU16 else EncU8)))
      (\<lambda>e. e \<in> {EncU8, EncU16} \<and> mx < 256 ^ intWidth e)"
    using assms by (intro yields_if yields_gret yields_gbind [OF weighted_yields]) auto
  show ?thesis
    unfolding padLenField_def
    by (intro yields_gbind [OF enc] yields_gbind [OF weighted_yields] yields_gret) (auto simp: enc_gen_defs)
qed

lemma paddingPolicy_yields:
  "yields (paddingPolicy C) (\<lambda>p.
     pmode p = PaddingNone \<and> pmin p = 0 \<and> pmax p = 0 \<or>
     pmode p \<in> {PaddingUniform, PaddingBurst} \<and> 0 \<le> pmin p \<and> pmin p \<le> pmax p \<and> pmax p \<le> 528)"
  unfolding paddingPolicy_def
  by (intro yields_gbind [OF weighted_yields] yields_if yields_gbind [OF rangeChoice_yields]
      yields_gbind [OF chooseN_yields] yields_gret) auto

definition enc_pool_ok :: "int \<Rightarrow> nat \<Rightarrow> nat \<Rightarrow> nat \<Rightarrow> field_spec list \<Rightarrow> bool" where
  "enc_pool_ok mx n keys pads fs \<longleftrightarrow>
     length fs \<le> n \<and> num_kind FieldKey fs = keys \<and> num_kind FieldPadLen fs = pads \<and>
     (\<forall>f \<in> set fs. enc_gen_ok (fkind f) f \<and> (fkind f = FieldPadLen \<longrightarrow> mx < 256 ^ intWidth (fencoding f)))"

lemma append_if_enc:
  assumes "0 < sum_list ws" "yields field (enc_gen_ok k)" "enc_pool_ok mx n keys pads fs"
    "k \<in> {FieldCert, FieldExtra}"
  shows "yields (append_if C ws field fs) (enc_pool_ok mx (Suc n) keys pads)"
  unfolding append_if_def
  by (intro yields_gbind [OF weighted_yields] yields_if yields_gbind [OF assms(2)] yields_gret)
     (use assms in \<open>auto simp: enc_pool_ok_def enc_gen_ok_def\<close>)

lemma num_kind_mset: "mset q = mset fs \<Longrightarrow> num_kind k q = num_kind k fs"
  unfolding num_kind_def by (metis mset_filter size_mset)

lemma permute_enc_pool:
  assumes "enc_pool_ok mx n keys pads fs"
  shows "yields (permuteFields C fs) (enc_pool_ok mx n keys pads)"
proof (rule yields_weaken [OF permuteFields_yields])
  fix q assume q: "mset q = mset fs"
  with assms show "enc_pool_ok mx n keys pads q"
    using mset_eq_length [OF q] mset_eq_setD [OF q] num_kind_mset [OF q]
    by (simp add: enc_pool_ok_def)
qed

lemma encrypted_pool_yields:
  assumes "pmax p < 65536"
  shows "yields (encrypted_pool C dir hasKey p)
    (enc_pool_ok (pmax p) 4 (if hasKey then 1 else 0) (if pmode p = PaddingNone then 0 else 1))"
proof -
  define keys where "keys = (if hasKey then 1 else 0 :: nat)"
  define pads where "pads = (if pmode p = PaddingNone then 0 else 1 :: nat)"
  have key: "yields (if hasKey then gbind (keyField C) (\<lambda>f. gret [f]) else gret [])
      (enc_pool_ok (pmax p) 1 keys 0)"
    by (intro yields_if yields_gbind [OF keyField_yields] yields_gret)
       (auto simp: enc_pool_ok_def keys_def enc_gen_ok_def)
  have cert: "yields (if dir = DirServer then append_if C [55, 45] (certField C) e else gret e)
      (enc_pool_ok (pmax p) 2 keys 0)" if "enc_pool_ok (pmax p) 1 keys 0 e" for e
    using append_if_enc [OF _ certField_yields that, of "[55, 45]" C] that
    by (intro yields_if yields_gret) (simp_all add: numeral_2_eq_2, simp add: enc_pool_ok_def)
  have extra: "yields (append_if C [45, 55] (extraField C) e) (enc_pool_ok (pmax p) 3 keys 0)"
    if "enc_pool_ok (pmax p) 2 keys 0 e" for e
    using append_if_enc [OF _ extraField_yields that, of "[45, 55]" C] by (simp add: numeral_3_eq_3)
  have pad: "yields (if pmode p \<noteq> PaddingNone then gbind (padLenField C (pmax p)) (\<lambda>f. gret (e @ [f])) else gret e)
      (enc_pool_ok (pmax p) 4 keys pads)" if "enc_pool_ok (pmax p) 3 keys 0 e" for e
    by (intro yields_if yields_gbind [OF padLenField_yields [OF assms]] yields_gret)
       (use that in \<open>auto simp: enc_pool_ok_def pads_def enc_gen_ok_def\<close>)
  show ?thesis
    unfolding encrypted_pool_def keys_def [symmetric] pads_def [symmetric]
    by (rule yields_gbind [OF key], rule yields_gbind [OF cert], assumption,
        rule yields_gbind [OF extra], assumption, rule yields_gbind [OF pad], assumption,
        rule permute_enc_pool)
qed

section \<open>The length field\<close>

definition length_gen_ok :: "int \<Rightarrow> bool \<Rightarrow> field_spec \<Rightarrow> bool" where
  "length_gen_ok minBytes isApp f \<longleftrightarrow>
     fkind f = FieldLength \<and> fplacement f = PlacePlain \<and> fendian f \<in> {EndianBig, EndianLittle} \<and>
     fsubject f \<in> {SubjectCiphertext, SubjectRecord} \<and> 0 < intWidth (fencoding f) \<and>
     (if isApp then 2 \<le> intWidth (fencoding f) else minBytes < 256 ^ intWidth (fencoding f))"

lemma length_options_ok:
  assumes "minBytes < 2 ^ 32"
  shows "length_options minBytes isApp \<noteq> []"
    and "\<forall>(e, w) \<in> set (length_options minBytes isApp). 0 < w \<and> 0 < intWidth e \<and>
      (if isApp then 2 \<le> intWidth e else minBytes < 256 ^ intWidth e)"
proof -
  show "length_options minBytes isApp \<noteq> []"
    by (simp add: length_options_def Let_def)
  show "\<forall>(e, w) \<in> set (length_options minBytes isApp). 0 < w \<and> 0 < intWidth e \<and>
      (if isApp then 2 \<le> intWidth e else minBytes < 256 ^ intWidth e)"
    using assms by (auto simp: length_options_def Let_def split: if_splits)
qed

lemma lengthField_yields:
  assumes "minBytes < 2 ^ 32"
  shows "yields (lengthField C minBytes isApp) (length_gen_ok minBytes isApp)"
proof -
  define opts where "opts = length_options minBytes isApp"
  note O = length_options_ok [OF assms, of isApp, folded opts_def]
  from O have pos: "0 < sum_list (map snd opts)" by (cases opts) auto
  show ?thesis
    unfolding lengthField_def Let_def opts_def [symmetric]
  proof (intro yields_gbind [OF weighted_yields [OF pos]] yields_gbind [OF weighted_yields] yields_gret)
    fix k s e
    assume "k < length (map snd opts)"
    then have "opts ! k \<in> set opts" by simp
    with O(2) have "0 < intWidth (fst (opts ! k)) \<and>
        (if isApp then 2 \<le> intWidth (fst (opts ! k)) else minBytes < 256 ^ intWidth (fst (opts ! k)))"
      by (metis (no_types, lifting) case_prodE fst_conv)
    then show "length_gen_ok minBytes isApp (field_zero\<lparr>fkind := FieldLength, fplacement := PlacePlain,
        fencoding := fst (opts ! k), fendian := (if e = 1 then EndianLittle else EndianBig),
        fsubject := (if s = 1 then SubjectRecord else SubjectCiphertext), fvalue_source := ValueConstant\<rparr>)"
      by (simp add: length_gen_ok_def)
  qed simp_all
qed

section \<open>Messages\<close>

definition insert_at :: "nat \<Rightarrow> 'a \<Rightarrow> 'a list \<Rightarrow> 'a list" where
  "insert_at pos x xs = take pos xs @ [x] @ drop pos xs"

lemma insert_at_nth: "pos \<le> length xs \<Longrightarrow> insert_at pos x xs ! pos = x"
  by (simp add: insert_at_def nth_append min_def)

lemma insert_at_nth_other:
  "pos \<le> length xs \<Longrightarrow> k < length (insert_at pos x xs) \<Longrightarrow> k \<noteq> pos \<Longrightarrow> insert_at pos x xs ! k \<in> set xs"
proof -
  assume a: "pos \<le> length xs" "k < length (insert_at pos x xs)" "k \<noteq> pos"
  show ?thesis
  proof (cases "k < pos")
    case True
    with a show ?thesis by (simp add: insert_at_def nth_append)
  next
    case False
    have "length (insert_at pos x xs) = Suc (length xs)" using a(1) by (simp add: insert_at_def)
    with a False have k: "k - 1 < length xs" "pos + (k - Suc pos) = k - 1" by linarith+
    from a False have "insert_at pos x xs ! k = drop pos xs ! (k - Suc pos)"
      by (simp add: insert_at_def nth_append)
    also have "\<dots> = xs ! (k - 1)" using a(1) k(2) by simp
    finally show ?thesis using k(1) by simp
  qed
qed

lemma insert_at_map: "sum_list (map f (insert_at pos x xs)) = f x + sum_list (map f xs)"
  for f :: "'a \<Rightarrow> nat"
proof -
  have "sum_list (map f (take pos xs)) + sum_list (map f (drop pos xs)) = sum_list (map f xs)"
    by (metis append_take_drop_id map_append sum_list_append)
  then show ?thesis by (simp add: insert_at_def)
qed

lemma num_kind_insert: "num_kind k (insert_at pos x xs) = num_kind k [x] + num_kind k xs"
proof -
  have "num_kind k (take pos xs) + num_kind k (drop pos xs) = num_kind k xs"
    by (metis append_take_drop_id num_kind_simps(3))
  then show ?thesis by (simp add: insert_at_def)
qed

lemma plain_gen_sizes:
  assumes "\<forall>f \<in> set fs. plain_gen_ok f"
  shows "int (sum_list (map size_or_0 fs)) = sum_list (map (\<lambda>f. fst (fieldFixedSize f)) fs)"
    and "sum_list (map size_or_0 fs) \<le> 32 * length fs"
proof -
  have "int (sum_list (map size_or_0 fs)) = sum_list (map (\<lambda>f. fst (fieldFixedSize f)) fs) \<and>
      sum_list (map size_or_0 fs) \<le> 32 * length fs"
    using assms
    by (induction fs) (auto simp: plain_gen_ok_def size_or_0_def fixedSize.simps fieldFixedSize.simps)
  then show "int (sum_list (map size_or_0 fs)) = sum_list (map (\<lambda>f. fst (fieldFixedSize f)) fs)"
    "sum_list (map size_or_0 fs) \<le> 32 * length fs" by auto
qed

lemma enc_gen_sizes:
  assumes "\<forall>f \<in> set fs. enc_gen_ok (fkind f) f"
  shows "int (sum_list (map (nat \<circ> maxEncodedFieldSize) fs)) = sum_list (map maxEncodedFieldSize fs)"
    and "sum_list (map maxEncodedFieldSize fs) \<le> 514 * int (length fs)"
    and "0 \<le> sum_list (map maxEncodedFieldSize fs)"
proof -
  have "int (sum_list (map (nat \<circ> maxEncodedFieldSize) fs)) = sum_list (map maxEncodedFieldSize fs) \<and>
      sum_list (map maxEncodedFieldSize fs) \<le> 514 * int (length fs) \<and> 0 \<le> sum_list (map maxEncodedFieldSize fs)"
    using assms by (induction fs) (auto simp: enc_gen_ok_def)
  then show "int (sum_list (map (nat \<circ> maxEncodedFieldSize) fs)) = sum_list (map maxEncodedFieldSize fs)"
    "sum_list (map maxEncodedFieldSize fs) \<le> 514 * int (length fs)"
    "0 \<le> sum_list (map maxEncodedFieldSize fs)" by auto
qed

text \<open>What every generated message satisfies.\<close>

definition message_gen_ok :: "cipher_suite \<Rightarrow> direction \<Rightarrow> purpose \<Rightarrow> bool \<Rightarrow> message_spec \<Rightarrow> bool" where
  "message_gen_ok cs dir why hasKey m \<longleftrightarrow>
     layout_ok m \<and> mdirection m = dir \<and> mpurpose m = why \<and> (messageHasKey m \<longleftrightarrow> hasKey) \<and>
     payload_fits m (if why = PData then 60000 else if has_payload m then 1400 else 0) \<and>
     (why = PData \<longrightarrow> has_payload m) \<and> plainFieldsSize m \<le> 132 \<and> max_body m \<le> 2584 \<and>
     rnd_budget m \<le> 4096 \<and> mcipher m = cs"

lemma enc_gen_budget: "enc_gen_ok (fkind f) f \<Longrightarrow> field_budget f \<le> 521"
  by (cases "fencoding f"; cases "fkind f")
     (auto simp: enc_gen_defs field_budget_def split: if_splits)

lemma plain_list_layout:
  assumes len: "length_gen_ok mn isApp len" and pool: "\<forall>f \<in> set plain. plain_gen_ok f" and
    pos: "pos \<le> length plain" and m: "plain_fields m = insert_at pos len plain" "length_field_index m = int pos"
  shows "\<forall>k < length (plain_fields m). plain_field_ok m k (plain_fields m ! k)"
    and "num_kind FieldLength (plain_fields m) = 1" and "\<forall>f \<in> set (plain_fields m). plain_content_ok f"
    and "length_width m = intWidth (fencoding len)"
    and "plainFieldsSize m = intWidth (fencoding len) + sum_list (map size_or_0 plain)"
proof -
  have l: "fixedSize len = Inr (int (intWidth (fencoding len)))"
    using len by (intro fixedSize_intWidth) (simp add: length_gen_ok_def)
  have no: "fkind f \<noteq> FieldLength \<and> fplacement f = PlacePlain \<and> is_ok (fixedSize f)" if "f \<in> set plain" for f
    using pool that by (fastforce simp: plain_gen_ok_def fixedSize.simps is_ok_def)
  show "\<forall>k < length (plain_fields m). plain_field_ok m k (plain_fields m ! k)"
  proof (intro allI impI)
    fix k assume k: "k < length (plain_fields m)"
    show "plain_field_ok m k (plain_fields m ! k)"
    proof (cases "k = pos")
      case True
      then have "plain_fields m ! k = len" using insert_at_nth [OF pos] m(1) by simp
      with True len l m(2) show ?thesis by (auto simp: plain_field_ok_def length_gen_ok_def is_ok_def)
    next
      case False
      with insert_at_nth_other [OF pos, of k len] k m(1) have "plain_fields m ! k \<in> set plain" by simp
      from no [OF this] show ?thesis by (simp add: plain_field_ok_def)
    qed
  qed
  have "num_kind FieldLength plain = 0" using no by (auto simp: num_kind_0_iff)
  then show "num_kind FieldLength (plain_fields m) = 1"
    using len by (simp add: m(1) num_kind_insert length_gen_ok_def)
  have "plain_content_ok len" using len by (simp add: plain_content_ok_def length_gen_ok_def)
  moreover have "set (plain_fields m) \<subseteq> insert len (set plain)"
    by (auto simp: m(1) insert_at_def dest: in_set_takeD in_set_dropD)
  ultimately show "\<forall>f \<in> set (plain_fields m). plain_content_ok f"
    using pool by (auto simp: plain_gen_ok_def)
  show "length_width m = intWidth (fencoding len)"
    using insert_at_nth [OF pos] by (simp add: length_width_def m)
  show "plainFieldsSize m = intWidth (fencoding len) + sum_list (map size_or_0 plain)"
    using l by (simp add: plainFieldsSize_def m(1) insert_at_map)
qed

lemma payload_choice_yields: "yields (payload_choice C why) (\<lambda>b. why = PData \<longrightarrow> b)"
  by (cases why) (auto intro!: yields_gbind [OF weighted_yields] yields_gret)

text \<open>The layout assembled from pools that satisfy their invariants.\<close>

lemma assembled_message:
  assumes pool: "pool_ok 4 plain" and
    pad: "pmode p = PaddingNone \<and> pmin p = 0 \<and> pmax p = 0 \<or>
      pmode p \<in> {PaddingUniform, PaddingBurst} \<and> 0 \<le> pmin p \<and> pmin p \<le> pmax p \<and> pmax p \<le> 528" and
    enc: "enc_pool_ok (pmax p) 4 (if hasKey then 1 else 0) (if pmode p = PaddingNone then 0 else 1) ef" and
    len: "length_gen_ok (min_bytes plain ef p (payload \<and> why \<noteq> PData)) (why = PData) len" and
    pos: "pos \<le> length plain" and cipher: "knownCipher cs" and data: "why = PData \<longrightarrow> payload" and
    m: "plain_fields m = insert_at pos len plain" "encrypted_fields m = ef" "length_field_index m = int pos"
      "has_payload m = payload" "mpadding m = p" "mcipher m = cs" "mdirection m = dir" "mpurpose m = why"
  shows "message_gen_ok cs dir why hasKey m"
proof -
  have pl: "\<forall>f \<in> set plain. plain_gen_ok f" "length plain \<le> 4" using pool by (simp_all add: pool_ok_def)
  note L = plain_list_layout [OF len pl(1) pos m(1,3)]
  note S = plain_gen_sizes [OF pl(1)]
  have ef: "\<forall>f \<in> set ef. enc_gen_ok (fkind f) f" "length ef \<le> 4" "num_kind FieldKey ef = (if hasKey then 1 else 0)"
    "num_kind FieldPadLen ef = (if pmode p = PaddingNone then 0 else 1)"
    using enc by (simp_all add: enc_pool_ok_def)
  note E = enc_gen_sizes [OF ef(1)]
  have key: "is_ok (KeyLen (mcipher m))" using cipher m(6) by (cases cs) (auto simp: is_ok_def)
  have valid: "validateMessage m = Inr ()"
    unfolding validateMessage_iff validate_padding_iff
    using L(1,2) key pos m ef pad by (auto simp: insert_at_def enc_gen_ok_def)
  have fits: "pad_fits m" using enc by (simp add: pad_fits_def m(2,5) enc_pool_ok_def)
  have lay: "layout_ok m"
    unfolding layout_ok_def using valid fits ef(1) L(3) by (auto simp: m(2) enc_gen_ok_def)
  have hk: "messageHasKey m \<longleftrightarrow> hasKey" using ef(3) by (simp add: messageHasKey_def has_key_field_iff m(2))
  have w: "intWidth (fencoding len) \<le> 4" by (rule intWidth_le_4)
  have plain_size: "plainFieldsSize m \<le> 132" using L(5) S(2) pl(2) w by linarith
  have p528: "nat (pmax p) \<le> 528" "0 \<le> pmax p" using pad by auto
  have body_eq: "int (max_body m) = sum_list (map maxEncodedFieldSize ef) + (if pmode p = PaddingNone then 0 else pmax p)"
    using E(1) pad by (auto simp: max_body_def m(2,5))
  have body_le: "int (max_body m) \<le> sum_list (map maxEncodedFieldSize ef) + pmax p" using body_eq p528 by auto
  have body: "max_body m \<le> 2584" using body_le E(2) ef(2) p528 by linarith
  have pay: "payload_fits m (if why = PData then 60000 else if payload then 1400 else 0)"
  proof (cases "why = PData")
    case True
    with len have "2 \<le> intWidth (fencoding len)" by (simp add: length_gen_ok_def)
    then have "(256 :: nat) ^ 2 \<le> 256 ^ intWidth (fencoding len)" by (intro power_increasing) simp_all
    with plain_size body True show ?thesis by (simp add: payload_fits_def L(4) gcmTagSize_def)
  next
    case False
    have "int (plainFieldsSize m + max_body m + (if payload then 1400 else 0) + gcmTagSize)
        \<le> min_bytes plain ef p (payload \<and> why \<noteq> PData)"
      using L(5) S(1) w body_le False
      by (simp add: min_bytes_def aeadTagSize_def maxHandshakeEarlyData_def gcmTagSize_def)
    also have "\<dots> < 256 ^ intWidth (fencoding len)" using len False by (simp add: length_gen_ok_def)
    finally have "int (plainFieldsSize m + max_body m + (if payload then 1400 else 0) + gcmTagSize)
        < int (256 ^ intWidth (fencoding len))" by simp
    then have "plainFieldsSize m + max_body m + (if payload then 1400 else 0) + gcmTagSize
        < 256 ^ intWidth (fencoding len)" by (simp only: of_nat_less_iff)
    with False show ?thesis by (simp add: payload_fits_def L(4))
  qed
  have "sum_list (map field_budget ef) \<le> 521 * length ef"
    using ef(1) by (induction ef) (auto dest: enc_gen_budget)
  then have rnd: "rnd_budget m \<le> 4096"
    using ef(2) p528 plain_size by (simp add: rnd_budget_def m(2,5) plainFieldsSize_def)
  show ?thesis
    unfolding message_gen_ok_def m(4,7,8,6) using lay hk pay data plain_size body rnd by (intro conjI) auto
qed

lemma gen_message_yields:
  assumes cipher: "knownCipher cs"
  shows "yields (gen_message C i dir why hasKey cs) (message_gen_ok cs dir why hasKey)"
  unfolding gen_message_def Let_def
proof (rule yields_gbind [OF plain_pool_yields], rule yields_gbind [OF payload_choice_yields],
    rule yields_gbind [OF paddingPolicy_yields])
  fix plain payload and p :: padding_policy
  assume pool: "pool_ok 4 plain" and data: "why = PData \<longrightarrow> payload" and
    pad: "pmode p = PaddingNone \<and> pmin p = 0 \<and> pmax p = 0 \<or>
      pmode p \<in> {PaddingUniform, PaddingBurst} \<and> 0 \<le> pmin p \<and> pmin p \<le> pmax p \<and> pmax p \<le> 528"
  have "pmax p < 65536" using pad by auto
  then show "yields (gbind (encrypted_pool C dir hasKey p) (\<lambda>enc.
      gbind (lengthField C (min_bytes plain enc p (payload \<and> why \<noteq> PData)) (why = PData)) (\<lambda>len.
      gbind (chooseN C (length plain + 1)) (\<lambda>pos.
      gbind (weighted C [20, 80]) (\<lambda>alone.
        gret \<lparr>mindex = int i, mname = ''M'' @ dec_string i @ ''_'' @ direction_text dir, mdirection = dir,
              mpurpose = why, plain_fields = take pos plain @ [len] @ drop pos plain, encrypted_fields = enc,
              length_field_index = int pos, length_alone = (alone = 0), has_payload = payload,
              mpadding = p, mcipher = cs\<rparr>))))) (message_gen_ok cs dir why hasKey)"
  proof (rule yields_gbind [OF encrypted_pool_yields])
    fix ef
    assume enc: "enc_pool_ok (pmax p) 4 (if hasKey then 1 else 0) (if pmode p = PaddingNone then 0 else 1) ef"
    have "min_bytes plain ef p (payload \<and> why \<noteq> PData) < 2 ^ 32"
    proof -
      have pl: "\<forall>f \<in> set plain. plain_gen_ok f" "length plain \<le> 4" using pool by (simp_all add: pool_ok_def)
      have ef: "\<forall>f \<in> set ef. enc_gen_ok (fkind f) f" "length ef \<le> 4" using enc by (simp_all add: enc_pool_ok_def)
      have "int (sum_list (map size_or_0 plain)) \<le> 128" using plain_gen_sizes(2) [OF pl(1)] pl(2) by linarith
      moreover have "sum_list (map maxEncodedFieldSize ef) \<le> 2056" using enc_gen_sizes(2) [OF ef(1)] ef(2) by linarith
      moreover have "pmax p \<le> 528" using pad by auto
      ultimately show ?thesis
        using plain_gen_sizes(1) [OF pl(1)]
        by (auto simp: min_bytes_def aeadTagSize_def maxHandshakeEarlyData_def)
    qed
    then show "yields (gbind (lengthField C (min_bytes plain ef p (payload \<and> why \<noteq> PData)) (why = PData)) (\<lambda>len.
        gbind (chooseN C (length plain + 1)) (\<lambda>pos.
        gbind (weighted C [20, 80]) (\<lambda>alone.
          gret \<lparr>mindex = int i, mname = ''M'' @ dec_string i @ ''_'' @ direction_text dir, mdirection = dir,
              mpurpose = why, plain_fields = take pos plain @ [len] @ drop pos plain, encrypted_fields = ef,
              length_field_index = int pos, length_alone = (alone = 0), has_payload = payload,
              mpadding = p, mcipher = cs\<rparr>)))) (message_gen_ok cs dir why hasKey)"
    proof (rule yields_gbind [OF lengthField_yields])
      fix len
      assume len: "length_gen_ok (min_bytes plain ef p (payload \<and> why \<noteq> PData)) (why = PData) len"
      show "yields (gbind (chooseN C (length plain + 1)) (\<lambda>pos.
          gbind (weighted C [20, 80]) (\<lambda>alone.
            gret \<lparr>mindex = int i, mname = ''M'' @ dec_string i @ ''_'' @ direction_text dir, mdirection = dir,
              mpurpose = why, plain_fields = take pos plain @ [len] @ drop pos plain, encrypted_fields = ef,
              length_field_index = int pos, length_alone = (alone = 0), has_payload = payload,
              mpadding = p, mcipher = cs\<rparr>))) (message_gen_ok cs dir why hasKey)"
        by (intro yields_gbind [OF chooseN_yields] yields_gbind [OF weighted_yields] yields_gret
            assembled_message [OF pool pad enc len _ cipher data]) (simp_all add: insert_at_def)
    qed
  qed
qed

section \<open>Genomes\<close>

definition steps_gen_ok ::
  "cipher_suite \<Rightarrow> (direction \<times> purpose \<times> bool) list \<Rightarrow> message_spec list \<Rightarrow> bool" where
  "steps_gen_ok cs steps ms \<longleftrightarrow> list_all2 (\<lambda>(dir, why, hasKey) m. message_gen_ok cs dir why hasKey m) steps ms"

lemma gen_steps_yields:
  assumes "knownCipher cs"
  shows "yields (gen_steps C i steps cs) (steps_gen_ok cs steps)"
proof (induction steps arbitrary: i)
  case Nil
  show ?case by (simp add: yields_gret steps_gen_ok_def)
next
  case (Cons st steps)
  obtain dir why hasKey where st: "st = (dir, why, hasKey)" by (cases st)
  show ?case
    unfolding st gen_steps.simps
    by (intro yields_gbind [OF gen_message_yields [OF assms]] yields_gbind [OF Cons.IH] yields_gret)
       (simp add: steps_gen_ok_def)
qed

definition genome_gen_ok :: "nat \<Rightarrow> protocol_genome \<Rightarrow> bool" where
  "genome_gen_ok gen_no g \<longleftrightarrow>
     gschema g = GeneratorSchema \<and> generation g = gen_no \<and>
     (\<exists>cs steps. knownCipher cs \<and> (handshake_pattern g, steps) \<in> set patternTable \<and>
        steps_gen_ok cs steps (handshake g) \<and> message_gen_ok cs DirBoth PData False (app_record g))"

lemma make_genome_fields [simp]:
  "gschema (make_genome C ss n name hs app) = GeneratorSchema" "generation (make_genome C ss n name hs app) = n"
  "handshake_pattern (make_genome C ss n name hs app) = name" "handshake (make_genome C ss n name hs app) = hs"
  "app_record (make_genome C ss n name hs app) = app"
  by (simp_all add: make_genome_def Let_def)

lemma generate_body_yields:
  assumes "case force of None \<Rightarrow> True | Some cs \<Rightarrow> knownCipher cs"
  shows "yields (generate_body C seed_sum gen_no force) (genome_gen_ok gen_no)"
proof -
  have cipher: "yields (case force of None \<Rightarrow> gret ([CipherAES128GCM, CipherAES192GCM, CipherAES256GCM] ! k)
      | Some cs \<Rightarrow> if \<not> knownCipher cs then gfail ErrCipher else gret cs) knownCipher" if "k < 3" for k
    using assms that by (auto split: option.split intro!: yields_gret simp: less_Suc_eq numeral_3_eq_3)
  have steps: "yields (case patternTable ! p of (name, steps) \<Rightarrow>
        gbind (gen_steps C 0 steps cs) (\<lambda>hs. gbind (gen_message C (length steps) DirBoth PData False cs) (\<lambda>app.
          gret (make_genome C seed_sum gen_no name hs app)))) (genome_gen_ok gen_no)"
    if cs: "knownCipher cs" and p: "p < 6" for cs p
  proof -
    have "patternTable ! p \<in> set patternTable" using p by (intro nth_mem) (simp add: patternTable_def)
    moreover obtain name steps where "patternTable ! p = (name, steps)" by (cases "patternTable ! p")
    ultimately show ?thesis
      by (auto intro!: yields_gbind [OF gen_steps_yields [OF cs]] yields_gbind [OF gen_message_yields [OF cs]]
          yields_gret simp: genome_gen_ok_def) (use cs in blast)
  qed
  show ?thesis
    unfolding generate_body_def Let_def
    by (rule yields_gbind [OF weighted_yields], simp, rule yields_gbind [OF cipher], simp,
        rule yields_gbind [OF weighted_yields], simp, rule steps) simp_all
qed

text \<open>The handshake patterns: every step has a direction, and both peers contribute a key.\<close>

lemma patternTable_ok:
  assumes "(name, steps) \<in> set patternTable"
  shows "steps \<noteq> []" and "\<forall>(dir, why, k) \<in> set steps. dir \<in> {DirClient, DirServer} \<and> why \<noteq> PData"
    and "\<exists>why. (DirClient, why, True) \<in> set steps" and "\<exists>why. (DirServer, why, True) \<in> set steps"
  using assms by (auto simp: patternTable_def)

lemma generate_genome_ok:
  assumes "generate C seed gen_no force = Some (Inr g)"
    "case force of None \<Rightarrow> True | Some cs \<Rightarrow> knownCipher cs"
  shows "genome_gen_ok gen_no g"
  using assms(1) yieldsD [OF generate_body_yields [OF assms(2)]]
  by (auto simp: generate_def Let_def Child_def split: option.splits sum.splits prod.splits)

lemma generate_unknown_cipher:
  assumes "generate C seed gen_no (Some (CipherOther s)) = Some x"
  shows "x = Inl ErrCipher \<or> x = Inl ErrPanic"
proof -
  have "yields (weighted C [2, 1, 5]) (\<lambda>k. k < 3)"
    using weighted_yields [of "[2, 1, 5]" C] by (simp add: numeral_3_eq_3)
  then show ?thesis
    using assms
    by (auto simp: generate_def generate_body_def Let_def Child_def gbind_def gfail_def yields_def
        split: option.splits sum.splits prod.splits)
qed

section \<open>Compilation of generated genomes\<close>

definition hkdf_ok :: "crypto \<Rightarrow> bool" where
  "hkdf_ok C \<longleftrightarrow> (\<forall>s salt info n. n \<le> 8160 \<longrightarrow> (\<exists>k. hkdf_key C s salt info n = Some k \<and> length k = n))"

lemma demo_hkdf_ok [simp]: "hkdf_ok demo_crypto"
  by (simp add: hkdf_ok_def demo_crypto_def)

lemma handshake_codecs_total:
  assumes "\<forall>spec \<in> set specs. validateMessage spec = Inr () \<and> KeyLen (mcipher spec) = Inr n"
    "length c2s = n" "length s2c = n"
  shows "\<exists>cs. handshake_codecs c2s s2c specs = Inr cs"
  using assms
  by (induction specs) (auto simp: NewMessageCodec_def bootstrap_key_def)

lemma steps_gen_okD:
  assumes "steps_gen_ok cs steps ms" "m \<in> set ms"
  shows "\<exists>(dir, why, k) \<in> set steps. message_gen_ok cs dir why k m"
  using assms unfolding steps_gen_ok_def by (fastforce simp: list_all2_conv_all_nth in_set_conv_nth)

lemma compile_generated:
  assumes g: "genome_gen_ok gen_no g" and psk: "psk \<noteq> []" and H: "hkdf_ok C"
  shows "\<exists>cp. Compile C (Some g) psk = Inr cp \<and> cgenome cp = g \<and> chandshake cp = handshake g \<and>
    is_ok (NewHandshakeCodecs cp)"
proof -
  from g obtain cs steps where cs: "knownCipher cs" and pat: "(handshake_pattern g, steps) \<in> set patternTable"
    and ms: "steps_gen_ok cs steps (handshake g)" and app: "message_gen_ok cs DirBoth PData False (app_record g)"
    and schema: "gschema g = GeneratorSchema" unfolding genome_gen_ok_def by blast
  obtain n where n: "KeyLen cs = Inr n" "n \<le> 8160" using cs by (cases cs) auto
  have ne: "handshake g \<noteq> []"
    using ms patternTable_ok(1) [OF pat] by (auto simp: steps_gen_ok_def)
  have all: "\<forall>spec \<in> set (handshake g). validateMessage spec = Inr () \<and> mcipher spec = cs"
    using steps_gen_okD [OF ms] by (fastforce simp: message_gen_ok_def dest: layout_okD(1))
  have hd: "mcipher (hd (handshake g)) = cs" using all ne by simp
  obtain c2s s2c where
    k: "hkdf_key C psk (text_bytes ''chimera-pgc/0/bootstrap-salt'') ''chimera-pgc/0/bootstrap/c2s'' n = Some c2s"
      "hkdf_key C psk (text_bytes ''chimera-pgc/0/bootstrap-salt'') ''chimera-pgc/0/bootstrap/s2c'' n = Some s2c"
      "length c2s = n" "length s2c = n"
    using H n(2) unfolding hkdf_ok_def by blast
  have "\<forall>spec \<in> set (handshake g). validateMessage spec = Inr () \<and> KeyLen (mcipher spec) = Inr n"
    using all n(1) by simp
  from handshake_codecs_total [OF this k(3,4)] obtain codecs where
    cd: "handshake_codecs c2s s2c (handshake g) = Inr codecs" by blast
  have "validateMessage (app_record g) = Inr ()" using app by (simp add: message_gen_ok_def layout_okD(1))
  with psk schema ne hd n(1) k(1,2) cd show ?thesis
    by (simp add: Compile_def Let_def NewHandshakeCodecs_def is_ok_def)
qed

lemma generated_fits:
  assumes g: "genome_gen_ok gen_no g" and cp: "chandshake cp = handshake g" "cgenome cp = g"
  shows "protocol_fits cp 1400" and "\<forall>spec \<in> set (chandshake cp). rnd_budget spec \<le> 4096"
    and "contributes cp (length (chandshake cp)) DirClient" and "contributes cp (length (chandshake cp)) DirServer"
proof -
  from g obtain cs steps where pat: "(handshake_pattern g, steps) \<in> set patternTable"
    and ms: "steps_gen_ok cs steps (handshake g)" unfolding genome_gen_ok_def by blast
  note P = patternTable_ok [OF pat]
  have step: "step_fits m 1400 \<and> rnd_budget m \<le> 4096" if m: "m \<in> set (handshake g)" for m
  proof -
    from steps_gen_okD [OF ms m] obtain dir why k where
      st: "(dir, why, k) \<in> set steps" "message_gen_ok cs dir why k m" by blast
    with P(2) have "dir \<in> {DirClient, DirServer}" "why \<noteq> PData" by auto
    with st(2) show ?thesis by (auto simp: message_gen_ok_def step_fits_def gcmTagSize_def)
  qed
  then show "protocol_fits cp 1400" "\<forall>spec \<in> set (chandshake cp). rnd_budget spec \<le> 4096"
    using cp by (simp_all add: protocol_fits_def)
  have con: "contributes cp (length (chandshake cp)) dir" if st: "(dir, why, True) \<in> set steps" for dir why
  proof -
    from st obtain j where j: "j < length steps" "steps ! j = (dir, why, True)" by (auto simp: in_set_conv_nth)
    with ms have "j < length (handshake g)" "message_gen_ok cs dir why True (handshake g ! j)"
      by (auto simp: steps_gen_ok_def list_all2_conv_all_nth)
    then show ?thesis using cp by (auto simp: contributes_def message_gen_ok_def)
  qed
  from P(3,4) con show "contributes cp (length (chandshake cp)) DirClient"
    "contributes cp (length (chandshake cp)) DirServer" by blast+
qed

section \<open>Termination\<close>

lemma append_if_returns [returns_intros]:
  "rejection_ends C \<Longrightarrow> returns field \<Longrightarrow> returns (append_if C ws field fs)"
  unfolding append_if_def by (intro returns_intros)

lemma fields_return [returns_intros]:
  assumes "rejection_ends C"
  shows "returns (versionField C)" "returns (typeField C)" "returns (nonceField C)" "returns (reservedField C)"
    "returns (lengthField C mn isApp)" "returns (keyField C)" "returns (certField C)" "returns (extraField C)"
    "returns (padLenField C mx)" "returns (paddingPolicy C)" "returns (payload_choice C why)"
  unfolding versionField_def typeField_def nonceField_def reservedField_def lengthField_def keyField_def
    certField_def extraField_def padLenField_def paddingPolicy_def Let_def
  by (intro returns_intros assms)+ (cases why; auto intro!: returns_intros assms)

lemma gen_message_returns [returns_intros]:
  assumes "rejection_ends C"
  shows "returns (gen_message C i dir why hasKey cs)"
  unfolding gen_message_def plain_pool_def encrypted_pool_def Let_def
  by (intro returns_intros assms)

lemma gen_steps_returns [returns_intros]:
  assumes "rejection_ends C"
  shows "returns (gen_steps C i steps cs)"
  using assms by (induction C i steps cs rule: gen_steps.induct) (auto intro!: returns_intros)

lemma generate_returns:
  assumes "rejection_ends C"
  shows "generate C seed gen_no force \<noteq> None"
proof -
  have "returns (generate_body C seed_sum gen_no force)" for seed_sum
    unfolding generate_body_def Let_def
    by (intro returns_intros assms) (auto split: option.split prod.split intro!: returns_intros assms)
  then have "generate_body C (sha256 C seed) gen_no force r \<noteq> None" for r unfolding returns_def by blast
  then show ?thesis
    by (auto simp: generate_def Let_def simp del: not_None_eq split: option.splits sum.splits prod.splits)
qed

lemma generate_total:
  assumes "rejection_ends C" "case force of None \<Rightarrow> True | Some cs \<Rightarrow> knownCipher cs"
  shows "\<exists>g. generate C seed gen_no force = Some (Inr g) \<and> genome_gen_ok gen_no g"
proof -
  from generate_returns [OF assms(1)] obtain x where x: "generate C seed gen_no force = Some x" by blast
  obtain g where "x = Inr g"
    using x yields_no_error [OF generate_body_yields [OF assms(2)]]
    by (auto simp: generate_def Let_def split: option.splits sum.splits prod.splits)
  with x generate_genome_ok [OF _ assms(2)] show ?thesis by blast
qed

text \<open>A stream of zeros satisfies \<open>rejection_ends\<close>: zero is in every range.\<close>

definition zero_crypto :: crypto where
  "zero_crypto = demo_crypto\<lparr>hmac_sha256 := (\<lambda>k m. replicate 32 0)\<rparr>"

definition zero_from :: "nat \<Rightarrow> drbg \<Rightarrow> bool" where
  "zero_from l r \<longleftrightarrow> set (drop l (dbuf r)) \<subseteq> {0}"

lemma zero_fill: "zero_from l r \<Longrightarrow> zero_from l (drbg_fill zero_crypto n r)"
proof (induction zero_crypto n r rule: drbg_fill.induct)
  case (1 n r)
  have "zero_from l (drbg_block zero_crypto r)"
    using "1.prems" by (auto simp: zero_from_def drbg_block_buf zero_crypto_def dest: in_set_dropD)
  with 1 show ?case by (subst drbg_fill.simps) simp
qed

lemma zero_uint64:
  assumes "zero_from l r"
  shows "zero_from (l - 8) (snd (drbg_uint64 zero_crypto r))" and "l = 0 \<Longrightarrow> fst (drbg_uint64 zero_crypto r) = 0"
proof -
  note Z = zero_fill [OF assms, of 8]
  have "drop (l - 8) (drop 8 xs) = drop (8 - l) (drop l xs)" for xs :: bytes
    by (cases "8 \<le> l") simp_all
  with Z show "zero_from (l - 8) (snd (drbg_uint64 zero_crypto r))"
    using set_drop_subset [of "8 - l" "drop l (dbuf (drbg_fill zero_crypto 8 r))"]
    by (simp add: zero_from_def drbg_uint64_def drbg_read_def Let_def)
  assume "l = 0"
  with Z have "set (take 8 (dbuf (drbg_fill zero_crypto 8 r))) \<subseteq> {0}"
    by (auto simp: zero_from_def dest: in_set_takeD)
  then have "take 8 (dbuf (drbg_fill zero_crypto 8 r)) = replicate 8 0"
    using drbg_fill_length [of 8 zero_crypto r]
    by (intro replicate_eqI) auto
  then show "fst (drbg_uint64 zero_crypto r) = 0"
    by (simp add: drbg_uint64_def drbg_read_def Let_def be_nat_def numeral_eq_Suc)
qed

lemma zero_rejection_ends: "rejection_ends zero_crypto"
proof -
  have "\<exists>k. draw zero_crypto r k = 0" if "zero_from l r" for l r
    using that
  proof (induction l arbitrary: r rule: less_induct)
    case (less l)
    show ?case
    proof (cases "l = 0")
      case True
      with zero_uint64(2) [OF less.prems] show ?thesis by (intro exI [of _ 0]) simp
    next
      case False
      then have "l - 8 < l" by simp
      from less.IH [OF this zero_uint64(1) [OF less.prems]] obtain k where
        "draw zero_crypto (snd (drbg_uint64 zero_crypto r)) k = 0" by blast
      then show ?thesis by (intro exI [of _ "Suc k"]) simp
    qed
  qed
  moreover have "zero_from (length (dbuf r)) r" for r by (simp add: zero_from_def)
  ultimately have "\<exists>k. draw zero_crypto r k = 0" for r by blast
  then have z: "\<exists>k. draw zero_crypto r k = 0" for r .
  show ?thesis
    unfolding rejection_ends_def
  proof (intro allI impI)
    fix r and n :: nat assume "0 < n"
    obtain k where "draw zero_crypto r k = 0" using z by blast
    with \<open>0 < n\<close> show "\<exists>k. draw zero_crypto r k AND grow_mask 1 n < n" by (intro exI [of _ k]) simp
  qed
qed

lemma zero_crypto_ok [simp]:
  "aead_ok zero_crypto" "ecdh_ok zero_crypto" "hkdf_ok zero_crypto" "aead_nonce_ok zero_crypto"
  using demo_aead_ok demo_ecdh_ok demo_hkdf_ok demo_aead_nonce_ok
  by (simp_all add: zero_crypto_def aead_ok_def ecdh_ok_def hkdf_ok_def aead_nonce_ok_def)

section \<open>The cipher override\<close>

text \<open>Monad laws, by which a change of the result moves through a computation.\<close>

lemma gbind_gret [simp]: "gbind (gret x) f = f x"
  by (simp add: fun_eq_iff gbind_def gret_def)

lemma gbind_assoc: "gbind (gbind m f) g = gbind m (\<lambda>x. gbind (f x) g)"
  by (auto simp: fun_eq_iff gbind_def split: option.split sum.split)

definition recipher :: "cipher_suite \<Rightarrow> message_spec \<Rightarrow> message_spec" where
  "recipher cs m = m\<lparr>mcipher := cs\<rparr>"

lemma gen_message_recipher:
  "gen_message C i dir why hasKey cs = gbind (gen_message C i dir why hasKey cs0) (\<lambda>m. gret (recipher cs m))"
  by (simp add: gen_message_def Let_def gbind_assoc recipher_def)

lemma gen_steps_recipher:
  "gen_steps C i steps cs = gbind (gen_steps C i steps cs0) (\<lambda>ms. gret (map (recipher cs) ms))"
proof (induction C i steps cs rule: gen_steps.induct)
  case (2 C i dir why hasKey steps cs)
  have "gen_steps C i ((dir, why, hasKey) # steps) cs =
      gbind (gbind (gen_message C i dir why hasKey cs0) (\<lambda>m. gret (recipher cs m))) (\<lambda>m.
      gbind (gbind (gen_steps C (Suc i) steps cs0) (\<lambda>ms. gret (map (recipher cs) ms))) (\<lambda>ms. gret (m # ms)))"
    using 2 gen_message_recipher [of C i dir why hasKey cs cs0] by simp
  then show ?case by (simp add: gbind_assoc)
qed simp

text \<open>The design of a genome without its cipher suite and its fingerprint.\<close>

definition design :: "protocol_genome \<Rightarrow> string \<times> message_spec list \<times> message_spec" where
  "design g = (handshake_pattern g, map (recipher CipherAES256GCM) (handshake g),
     recipher CipherAES256GCM (app_record g))"

lemma gbind_cong_result:
  assumes "gbind m f r = Some (Inr (x, r1))"
  shows "\<exists>y r0. m r = Some (Inr (y, r0)) \<and> f y r0 = Some (Inr (x, r1))"
  using assms by (auto simp: gbind_def split: option.splits sum.splits)

lemma recipher_recipher [simp]: "recipher a (recipher b m) = recipher a m"
  by (simp add: recipher_def)

lemma generateE:
  assumes "generate C seed gen_no force = Some (Inr g)"
  obtains r' where "generate_body C (sha256 C seed) gen_no force
    (fst (Child C (''generation/'' @ dec_string gen_no)
      (drbg_new C (text_seed (''chimera-pgc-v0/seed'' @ [CHR 0x00]) @ sha256 C seed) ''chimera-pgc-v0/root''))) =
    Some (Inr (g, r'))"
  using assms by (auto simp: generate_def Let_def split: option.splits sum.splits prod.splits)

lemma generate_body_parts:
  assumes "generate_body C ss gen_no force r = Some (Inr (g, r'))"
  obtains k r1 cs p r2 hs r3 app where
    "weighted C [2, 1, 5] r = Some (Inr (k, r1))"
    "cs = (case force of None \<Rightarrow> [CipherAES128GCM, CipherAES192GCM, CipherAES256GCM] ! k | Some cs \<Rightarrow> cs)"
    "weighted C [3, 3, 3, 1, 1, 1] r1 = Some (Inr (p, r2))"
    "gen_steps C 0 (snd (patternTable ! p)) cs r2 = Some (Inr (hs, r3))"
    "gen_message C (length (snd (patternTable ! p))) DirBoth PData False cs r3 = Some (Inr (app, r'))"
    "handshake_pattern g = fst (patternTable ! p)" "handshake g = hs" "app_record g = app"
  using assms
  by (auto simp: generate_body_def gbind_def gret_def gfail_def
      split: option.splits sum.splits if_splits prod.splits)

lemma generate_cipher_override:
  assumes "generate C seed gen_no (Some cs) = Some (Inr g)" "generate C seed gen_no None = Some (Inr g0)"
  shows "design g = design g0" and "\<forall>m \<in> set (handshake g @ [app_record g]). mcipher m = cs"
proof -
  from assms(1) obtain ra where "generate_body C (sha256 C seed) gen_no (Some cs)
    (fst (Child C (''generation/'' @ dec_string gen_no)
      (drbg_new C (text_seed (''chimera-pgc-v0/seed'' @ [CHR 0x00]) @ sha256 C seed) ''chimera-pgc-v0/root''))) =
    Some (Inr (g, ra))" by (rule generateE)
  note A = this
  from assms(2) obtain rb where "generate_body C (sha256 C seed) gen_no None
    (fst (Child C (''generation/'' @ dec_string gen_no)
      (drbg_new C (text_seed (''chimera-pgc-v0/seed'' @ [CHR 0x00]) @ sha256 C seed) ''chimera-pgc-v0/root''))) =
    Some (Inr (g0, rb))" by (rule generateE)
  note B = this
  define r where "r = fst (Child C (''generation/'' @ dec_string gen_no)
      (drbg_new C (text_seed (''chimera-pgc-v0/seed'' @ [CHR 0x00]) @ sha256 C seed) ''chimera-pgc-v0/root''))"
  from B [folded r_def] obtain k r1 cs0 p r2 hs0 r3 app0 where
    b: "weighted C [2, 1, 5] r = Some (Inr (k, r1))" "weighted C [3, 3, 3, 1, 1, 1] r1 = Some (Inr (p, r2))"
      "gen_steps C 0 (snd (patternTable ! p)) cs0 r2 = Some (Inr (hs0, r3))"
      "gen_message C (length (snd (patternTable ! p))) DirBoth PData False cs0 r3 = Some (Inr (app0, rb))"
      "handshake_pattern g0 = fst (patternTable ! p)" "handshake g0 = hs0" "app_record g0 = app0"
    by (rule generate_body_parts)
  have hs: "gen_steps C 0 (snd (patternTable ! p)) cs r2 = Some (Inr (map (recipher cs) hs0, r3))"
    using b(3) gen_steps_recipher [of C 0 "snd (patternTable ! p)" cs cs0] by (simp add: gbind_def gret_def)
  have app: "gen_message C (length (snd (patternTable ! p))) DirBoth PData False cs r3 = Some (Inr (recipher cs app0, rb))"
    using b(4) gen_message_recipher [of C "length (snd (patternTable ! p))" DirBoth PData False cs cs0]
    by (simp add: gbind_def gret_def)
  from A [folded r_def] have G: "handshake_pattern g = fst (patternTable ! p) \<and> handshake g = map (recipher cs) hs0 \<and>
      app_record g = recipher cs app0"
  proof (rule generate_body_parts)
    fix k' r1' cs' p' r2' hs' r3' app'
    assume a: "weighted C [2, 1, 5] r = Some (Inr (k', r1'))"
      "cs' = (case Some cs of None \<Rightarrow> [CipherAES128GCM, CipherAES192GCM, CipherAES256GCM] ! k' | Some cs \<Rightarrow> cs)"
      "weighted C [3, 3, 3, 1, 1, 1] r1' = Some (Inr (p', r2'))"
      "gen_steps C 0 (snd (patternTable ! p')) cs' r2' = Some (Inr (hs', r3'))"
      "gen_message C (length (snd (patternTable ! p'))) DirBoth PData False cs' r3' = Some (Inr (app', ra))"
      "handshake_pattern g = fst (patternTable ! p')" "handshake g = hs'" "app_record g = app'"
    with b(1,2) have "cs' = cs" "p' = p" "r2' = r2" by simp_all
    with a hs app show ?thesis by simp
  qed
  show "design g = design g0" using G b by (simp add: design_def)
  show "\<forall>m \<in> set (handshake g @ [app_record g]). mcipher m = cs" using G by (auto simp: recipher_def)
qed

end
