(* ===== verification/Cover.thy ===== *)
theory Cover
  imports Handshake_Lockstep
begin

text \<open>
  The first datagrams on the wire: printable covers and tail padding of handshake datagrams
  (\<open>internal/compiler/cover.go\<close>), the model of the censor's exemption rules
  (\<open>internal/compiler/fep.go\<close>) and the authenticated server-first knock
  (\<open>internal/compiler/knock.go\<close>). Proved: a cover is undone by the receiver up to a tail that
  the frame's declared length cuts off, wrapped datagrams are exempt and never have a length in
  the replay trigger band, and a knock verifies exactly under its key.
\<close>

section \<open>The exemption rules\<close>

definition printableASCII :: "byte \<Rightarrow> bool" where
  "printableASCII b \<longleftrightarrow> 0x20 \<le> b \<and> b \<le> 0x7e"

definition looksLikeTLS :: "bytes \<Rightarrow> bool" where
  "looksLikeTLS pkt \<longleftrightarrow> 3 \<le> length pkt \<and> pkt ! 0 = 0x16 \<and> pkt ! 1 = 0x03 \<and> pkt ! 2 \<le> 0x04"

definition httpMethodPrefixes :: "bytes list" where
  "httpMethodPrefixes = map text_bytes
     [''GET '', ''PUT '', ''POST'', ''HEAD'', ''HTTP'', ''CONN'', ''OPTI'', ''PATC'', ''DELE'', ''SSH-'']"

definition has_prefix :: "bytes \<Rightarrow> bytes \<Rightarrow> bool" where
  "has_prefix pkt p \<longleftrightarrow> take (length p) pkt = p"

definition looksLikeHTTP :: "bytes \<Rightarrow> bool" where
  "looksLikeHTTP pkt \<longleftrightarrow> list_ex (has_prefix pkt) httpMethodPrefixes"

definition ones_count :: "byte \<Rightarrow> nat" where
  "ones_count b = length (filter (\<lambda>i. bit b i) [0 ..< 8])"

text \<open>\<open>run > 20\<close> at some point of the scan.\<close>

fun long_run :: "bytes \<Rightarrow> nat \<Rightarrow> bool" where
  "long_run [] run = False"
| "long_run (b # bs) run =
     (if printableASCII b then (if 20 < run + 1 then True else long_run bs (run + 1))
      else long_run bs 0)"

datatype fep_rule = Exempt_empty | Ex1 | Ex2 | Ex3 | Ex4 | Ex5

text \<open>
  The float comparison of the bit ratio with 3.4 and 4.6 is the comparison of fractions
  written out: a ratio of two integers below \<open>2 ^ 50\<close> is on the same side of the constant
  after rounding.
\<close>

definition FEPExemption :: "bytes \<Rightarrow> fep_rule option" where
  "FEPExemption pkt =
     (if pkt = [] then Some Exempt_empty
      else let ones = sum_list (map ones_count pkt); n = length pkt in
        if 10 * ones \<le> 34 * n \<or> 46 * n \<le> 10 * ones then Some Ex1
        else if 6 \<le> n \<and> list_all printableASCII (take 6 pkt) then Some Ex2
        else if n < 2 * length (filter printableASCII pkt) then Some Ex3
        else if long_run pkt 0 then Some Ex4
        else if looksLikeTLS pkt then Some Ex5
        else if looksLikeHTTP pkt then Some Ex5
        else None)"

section \<open>Covers\<close>

definition CoverLenMin :: nat where
  "CoverLenMin = 24"

definition CoverLenMax :: nat where
  "CoverLenMax = 32"

definition HandshakeMinWire :: nat where
  "HandshakeMinWire = 701"

definition HandshakeMaxWire :: nat where
  "HandshakeMaxWire = 1200"

definition CoverLen :: "crypto \<Rightarrow> protocol_genome option \<Rightarrow> nat" where
  "CoverLen C go =
     (case go of
        None \<Rightarrow> CoverLenMin
      | Some g \<Rightarrow>
          let sum = sha256 C (text_bytes (''chimera-pgc/0/cover-len'' @ [CHR 0x00] @ protocol_fingerprint g));
              span = CoverLenMax - CoverLenMin + 1 in
          CoverLenMin + unat (sum ! 0) mod span)"

text \<open>The retry loop: at most \<open>tries\<close> fills from the random source, then a fixed text.\<close>

fun printable_tries :: "nat \<Rightarrow> nat \<Rightarrow> reader \<Rightarrow> bytes \<times> reader" where
  "printable_tries 0 n rnd = (map (\<lambda>i. 0x61 + of_nat (i mod 26)) [0 ..< n], rnd)"
| "printable_tries (Suc tries) n rnd =
     (case read_full n rnd of
        Inl _ \<Rightarrow> (map (\<lambda>i. 0x41 + of_nat (i mod 26)) [0 ..< n], [])
      | Inr (scratch, rnd') \<Rightarrow>
          let buf = map (\<lambda>b. 0x20 + b mod 95) scratch in
          if \<not> looksLikeHTTP buf \<and> \<not> looksLikeTLS buf then (buf, rnd')
          else printable_tries tries n rnd')"

definition randomPrintable :: "int \<Rightarrow> reader \<Rightarrow> bytes \<times> reader" where
  "randomPrintable n rnd = (if n \<le> 0 then ([], rnd) else printable_tries 32 (nat n) rnd)"

definition handshakePadTarget :: "crypto \<Rightarrow> protocol_genome option \<Rightarrow> nat" where
  "handshakePadTarget C go =
     (let label = ''chimera-pgc/0/hs-pad'' @ [CHR 0x00] @ (case go of None \<Rightarrow> [] | Some g \<Rightarrow> protocol_fingerprint g);
          sum = sha256 C (text_bytes label);
          span = HandshakeMaxWire - HandshakeMinWire + 1 in
      HandshakeMinWire + unat (sum ! 0) mod span)"

definition padHandshakeWire :: "crypto \<Rightarrow> protocol_genome option \<Rightarrow> bytes \<Rightarrow> reader \<Rightarrow> bytes \<times> reader" where
  "padHandshakeWire C go wire rnd =
     (if length wire < 160 \<or> 700 < length wire then (wire, rnd)
      else
        let t0 = handshakePadTarget C go;
            t1 = (if t0 < HandshakeMinWire then HandshakeMinWire else t0);
            t2 = (if HandshakeMaxWire < t1 then HandshakeMaxWire else t1);
            target = (if t2 \<le> length wire then HandshakeMinWire else t2) in
        if target \<le> length wire then (wire, rnd)
        else let (tail, rnd') = randomPrintable (int target - int (length wire)) rnd in (wire @ tail, rnd'))"

definition WrapHandshakeDatagram ::
  "crypto \<Rightarrow> bytes \<Rightarrow> protocol_genome option \<Rightarrow> bytes \<Rightarrow> reader \<Rightarrow> bytes \<times> reader" where
  "WrapHandshakeDatagram C mark go frame rnd =
     (let n = CoverLen C go;
          (cover0, rnd1) = randomPrintable (int n) rnd;
          cover = (if mark \<noteq> [] \<and> length mark \<le> n then mark @ drop (length mark) cover0 else cover0) in
      padHandshakeWire C go (cover @ frame) rnd1)"

definition UnwrapHandshakeDatagram :: "crypto \<Rightarrow> protocol_genome option \<Rightarrow> bytes \<Rightarrow> bytes res" where
  "UnwrapHandshakeDatagram C go wire =
     (let n = CoverLen C go in
      if length wire < n then Inl ErrCover else Inr (drop n wire))"

definition WrapDatagram :: "crypto \<Rightarrow> bytes \<Rightarrow> handshake_state option \<Rightarrow> bytes \<Rightarrow> reader \<Rightarrow> bytes \<times> reader" where
  "WrapDatagram C mark ho frame rnd =
     (case ho of
        None \<Rightarrow> (frame, rnd)
      | Some h \<Rightarrow> WrapHandshakeDatagram C mark (Some (cgenome (hcp h))) frame rnd)"

definition UnwrapDatagram :: "crypto \<Rightarrow> handshake_state option \<Rightarrow> bytes \<Rightarrow> bytes res" where
  "UnwrapDatagram C ho wire =
     (case ho of
        None \<Rightarrow> Inl ErrGenome
      | Some h \<Rightarrow> UnwrapHandshakeDatagram C (Some (cgenome (hcp h))) wire)"

subsection \<open>Probe marks\<close>

definition ProbeMarkMaxLen :: nat where
  "ProbeMarkMaxLen = 16"

definition ValidateProbeMark :: "bytes \<Rightarrow> unit res" where
  "ValidateProbeMark mark =
     (if list_ex (\<lambda>b. b < 0x21 \<or> 0x7e < b) mark then Inl ErrProbeMark
      else if ProbeMarkMaxLen < length mark then Inl ErrProbeMark
      else Inr ())"

text \<open>The installed mark is process state: \<open>SetProbeMark old mark\<close> is the new one.\<close>

definition SetProbeMark :: "bytes \<Rightarrow> bytes \<Rightarrow> unit res \<times> bytes" where
  "SetProbeMark old mark =
     (case ValidateProbeMark mark of Inl e \<Rightarrow> (Inl e, old) | Inr _ \<Rightarrow> (Inr (), mark))"

section \<open>Knocks\<close>

definition knockNonceLen :: nat where
  "knockNonceLen = 32"

definition knockMACLen :: nat where
  "knockMACLen = 16"

definition KnockInnerLen :: nat where
  "KnockInnerLen = knockNonceLen + knockMACLen"

definition knockMAC :: "crypto \<Rightarrow> bytes \<Rightarrow> bytes \<Rightarrow> bytes" where
  "knockMAC C psk nonce_bytes =
     take knockMACLen (hmac_sha256 C psk (text_bytes ''chimera-pgc/0/knock'' @ nonce_bytes))"

definition encodeKnock :: "crypto \<Rightarrow> bytes \<Rightarrow> reader \<Rightarrow> (bytes \<times> reader) res" where
  "encodeKnock C psk rnd =
     (if psk = [] then Inl ErrPsk
      else res_bind (read_full knockNonceLen rnd) (\<lambda>(n, rnd'). Inr (n @ knockMAC C psk n, rnd')))"

definition VerifyKnock :: "crypto \<Rightarrow> bytes \<Rightarrow> bytes \<Rightarrow> bool" where
  "VerifyKnock C psk inner \<longleftrightarrow>
     \<not> (psk = [] \<or> length inner < KnockInnerLen) \<and>
     take knockMACLen (drop knockNonceLen inner) = knockMAC C psk (take knockNonceLen inner)"

definition KnockReplayKey :: "bytes \<Rightarrow> bytes" where
  "KnockReplayKey inner = (if length inner < KnockInnerLen then inner else take KnockInnerLen inner)"

section \<open>Cover bytes\<close>

lemma CoverLen_bounds: "CoverLenMin \<le> CoverLen C go" "CoverLen C go \<le> CoverLenMax"
proof -
  have "n mod 9 \<le> (8 :: nat)" for n by (rule le_trans [of _ "9 - 1"]) simp_all
  then show "CoverLenMin \<le> CoverLen C go" "CoverLen C go \<le> CoverLenMax"
    by (auto simp: CoverLen_def CoverLenMin_def CoverLenMax_def Let_def split: option.split)
qed

lemma printable_range: "printableASCII (0x20 + b mod 95)"
proof -
  have m: "unat (b mod 95) < 95" by (simp add: unat_mod)
  then have "unat (0x20 + b mod 95) = 0x20 + unat (b mod 95)"
    by (subst unat_add_lem [THEN iffD1]) simp_all
  with m show ?thesis by (simp add: printableASCII_def word_le_nat_alt)
qed

lemma printable_letter:
  assumes "base \<in> {0x41, 0x61}"
  shows "printableASCII (base + of_nat (i mod 26))"
proof -
  define k where "k = i mod 26"
  have k: "k < 26" by (simp add: k_def)
  then have u: "unat (of_nat k :: byte) = k" by (simp add: unat_of_nat)
  have "unat (base + of_nat k) = unat base + k"
    using assms k u by (subst unat_add_lem [THEN iffD1]) auto
  with assms k show ?thesis by (auto simp: printableASCII_def word_le_nat_alt k_def)
qed

lemma printable_tries_ok:
  "length (fst (printable_tries tries n rnd)) = n \<and> list_all printableASCII (fst (printable_tries tries n rnd))"
proof (induction tries n rnd rule: printable_tries.induct)
  case (2 tries n rnd)
  then show ?case
    by (auto simp: Let_def list_all_iff printable_range printable_letter read_full_Inr_iff split: sum.split)
qed (auto simp: list_all_iff printable_letter)

lemma randomPrintable_ok:
  "length (fst (randomPrintable n rnd)) = nat n" "list_all printableASCII (fst (randomPrintable n rnd))"
  using printable_tries_ok [of 32 "nat n" rnd] by (auto simp: randomPrintable_def)

text \<open>Printable text is never a TLS record, and neither fallback text is an HTTP method.\<close>

lemma printable_not_TLS: "list_all printableASCII b \<Longrightarrow> \<not> looksLikeTLS b"
  by (cases b) (auto simp: looksLikeTLS_def printableASCII_def)

lemma http_prefix_lengths: "p \<in> set httpMethodPrefixes \<Longrightarrow> length p = 4"
  by (auto simp: httpMethodPrefixes_def text_bytes_def)

lemma looksLikeHTTP_take: "looksLikeHTTP b \<longleftrightarrow> take 4 b \<in> set httpMethodPrefixes"
  unfolding looksLikeHTTP_def list_ex_iff has_prefix_def using http_prefix_lengths by metis

lemma fallback_not_HTTP:
  assumes "base \<in> {0x41, 0x61}" "4 \<le> n"
  shows "\<not> looksLikeHTTP (map (\<lambda>i. base + of_nat (i mod 26)) [0 ..< n])"
proof -
  have "take 4 [0 ..< n] = [0, 1, 2, 3]" using assms(2) by (simp add: take_upt upt_rec)
  then have "take 4 (map (\<lambda>i. base + of_nat (i mod 26)) [0 ..< n]) = [base, base + 1, base + 2, base + 3]"
    by (simp add: take_map)
  then show ?thesis
    unfolding looksLikeHTTP_take using assms(1)
    by (auto simp: httpMethodPrefixes_def text_bytes_def)
qed

lemma printable_tries_not_HTTP: "4 \<le> n \<Longrightarrow> \<not> looksLikeHTTP (fst (printable_tries tries n rnd))"
proof (induction tries n rnd rule: printable_tries.induct)
  case (2 tries n rnd)
  then show ?case by (auto simp: Let_def fallback_not_HTTP split: sum.split)
qed (simp add: fallback_not_HTTP)

section \<open>Wrapped datagrams\<close>

definition visible :: "bytes \<Rightarrow> bool" where
  "visible mark \<longleftrightarrow> list_all (\<lambda>b. 0x21 \<le> b \<and> b \<le> 0x7e) mark \<and> length mark \<le> ProbeMarkMaxLen"

lemma ValidateProbeMark_iff: "ValidateProbeMark mark = Inr () \<longleftrightarrow> visible mark"
  by (auto simp: ValidateProbeMark_def visible_def list_all_iff list_ex_iff not_less not_le)

lemma padHandshakeWire_prefix:
  "\<exists>tail. fst (padHandshakeWire C go wire rnd) = wire @ tail \<and> list_all printableASCII tail"
  by (auto simp: padHandshakeWire_def Let_def case_prod_beta randomPrintable_ok)

lemma handshakePadTarget_bounds:
  "HandshakeMinWire \<le> handshakePadTarget C go" "handshakePadTarget C go \<le> HandshakeMinWire + 255"
proof -
  have "unat (b :: byte) mod m \<le> 255" for b m
    using unat_byte_less [of b] mod_less_eq_dividend [of "unat b" m] by linarith
  then show "HandshakeMinWire \<le> handshakePadTarget C go" "handshakePadTarget C go \<le> HandshakeMinWire + 255"
    by (auto simp: handshakePadTarget_def Let_def)
qed

text \<open>No wire length between 160 and 700 survives; what is padded ends between 701 and 956.\<close>

lemma padHandshakeWire_length:
  "length (fst (padHandshakeWire C go wire rnd)) =
     (if length wire < 160 \<or> 700 < length wire then length wire else handshakePadTarget C go)"
proof (cases "length wire < 160 \<or> 700 < length wire")
  case False
  note B = handshakePadTarget_bounds [of C go]
  from False B have "\<not> handshakePadTarget C go \<le> length wire"
    "\<not> HandshakeMaxWire < handshakePadTarget C go" "\<not> handshakePadTarget C go < HandshakeMinWire"
    by (auto simp: HandshakeMinWire_def HandshakeMaxWire_def)
  with False randomPrintable_ok(1) [of "int (handshakePadTarget C go) - int (length wire)" rnd]
  show ?thesis by (auto simp: padHandshakeWire_def Let_def split: prod.split)
qed (simp add: padHandshakeWire_def)

lemma wrap_shape:
  assumes "visible mark"
  shows "\<exists>cover tail. fst (WrapHandshakeDatagram C mark go frame rnd) = cover @ frame @ tail \<and>
    length cover = CoverLen C go \<and> list_all printableASCII cover \<and> list_all printableASCII tail \<and>
    (mark = [] \<longrightarrow> \<not> looksLikeHTTP cover) \<and> take (length mark) cover = mark"
proof -
  obtain cover0 rnd1 where c0: "randomPrintable (int (CoverLen C go)) rnd = (cover0, rnd1)"
    by (cases "randomPrintable (int (CoverLen C go)) rnd")
  note R = randomPrintable_ok [of "int (CoverLen C go)" rnd, unfolded c0, simplified]
  define cover where "cover = (if mark \<noteq> [] \<and> length mark \<le> CoverLen C go
    then mark @ drop (length mark) cover0 else cover0)"
  have len: "length mark \<le> CoverLen C go"
    using assms CoverLen_bounds(1) [of C go] by (simp add: visible_def ProbeMarkMaxLen_def CoverLenMin_def)
  have "list_all printableASCII mark"
    using assms by (auto simp: visible_def list_all_iff printableASCII_def intro: order_trans [of _ "0x21"])
  moreover have "list_all printableASCII (drop (length mark) cover0)"
    using R(2) by (auto simp: list_all_iff dest: in_set_dropD)
  ultimately have p: "list_all printableASCII cover" using R(2) by (simp add: cover_def)
  have l: "length cover = CoverLen C go" using R(1) len by (simp add: cover_def)
  have h: "mark = [] \<longrightarrow> \<not> looksLikeHTTP cover"
    using c0 CoverLen_bounds(1) [of C go] printable_tries_not_HTTP [of "CoverLen C go" 32 rnd]
    by (auto simp: cover_def randomPrintable_def CoverLenMin_def split: if_splits)
  from padHandshakeWire_prefix [of C go "cover @ frame" rnd1] obtain tail where
    t: "fst (padHandshakeWire C go (cover @ frame) rnd1) = (cover @ frame) @ tail" "list_all printableASCII tail"
    by blast
  have "fst (WrapHandshakeDatagram C mark go frame rnd) = cover @ frame @ tail"
    using t(1) by (simp add: WrapHandshakeDatagram_def c0 Let_def cover_def)
  moreover have "take (length mark) cover = mark" using len R(1) by (auto simp: cover_def)
  ultimately show ?thesis using p l h t(2) by blast
qed

lemma unwrap_wrap:
  assumes "visible mark"
  shows "\<exists>tail. UnwrapHandshakeDatagram C go (fst (WrapHandshakeDatagram C mark go frame rnd)) = Inr (frame @ tail)"
  using wrap_shape [OF assms, of C go frame rnd] by (auto simp: UnwrapHandshakeDatagram_def Let_def)

lemma wrap_length:
  assumes "visible mark"
  shows "length (fst (WrapHandshakeDatagram C mark go frame rnd)) =
    (let n = CoverLen C go + length frame in if n < 160 \<or> 700 < n then n else handshakePadTarget C go)"
proof -
  obtain cover0 rnd1 where c0: "randomPrintable (int (CoverLen C go)) rnd = (cover0, rnd1)"
    by (cases "randomPrintable (int (CoverLen C go)) rnd")
  have "length cover0 = CoverLen C go"
    using randomPrintable_ok(1) [of "int (CoverLen C go)" rnd] c0 by simp
  then have "length ((if mark \<noteq> [] \<and> length mark \<le> CoverLen C go
      then mark @ drop (length mark) cover0 else cover0) @ frame) = CoverLen C go + length frame" by simp
  then show ?thesis
    by (simp add: WrapHandshakeDatagram_def c0 Let_def padHandshakeWire_length)
qed

text \<open>The censor's first test that can fire on a wrapped datagram is the second one.\<close>

lemma wrap_exempt:
  assumes "visible mark"
  shows "FEPExemption (fst (WrapHandshakeDatagram C mark go frame rnd)) \<in> {Some Ex1, Some Ex2}"
proof -
  from wrap_shape [OF assms, of C go frame rnd] obtain cover tail where
    w: "fst (WrapHandshakeDatagram C mark go frame rnd) = cover @ frame @ tail"
    "length cover = CoverLen C go" "list_all printableASCII cover" by blast
  have "6 \<le> length cover" using w(2) CoverLen_bounds(1) [of C go] by (simp add: CoverLenMin_def)
  moreover have "list_all printableASCII (take 6 cover)"
    using w(3) by (auto simp: list_all_iff dest: in_set_takeD)
  ultimately have "6 \<le> length (cover @ frame @ tail) \<and> list_all printableASCII (take 6 (cover @ frame @ tail))"
    "cover @ frame @ tail \<noteq> []" by auto
  then show ?thesis unfolding w(1) by (auto simp: FEPExemption_def Let_def)
qed

lemma wrap_not_protocol:
  assumes "visible mark"
  shows "\<not> looksLikeTLS (fst (WrapHandshakeDatagram C mark go frame rnd))"
    and "mark = [] \<Longrightarrow> \<not> looksLikeHTTP (fst (WrapHandshakeDatagram C mark go frame rnd))"
proof -
  from wrap_shape [OF assms, of C go frame rnd] obtain cover tail where
    w: "fst (WrapHandshakeDatagram C mark go frame rnd) = cover @ frame @ tail"
    "length cover = CoverLen C go" "list_all printableASCII cover" "mark = [] \<longrightarrow> \<not> looksLikeHTTP cover" by blast
  have n: "24 \<le> length cover" using w(2) CoverLen_bounds(1) [of C go] by (simp add: CoverLenMin_def)
  then obtain b bs where "cover = b # bs" by (cases cover) auto
  with w(3) show "\<not> looksLikeTLS (fst (WrapHandshakeDatagram C mark go frame rnd))"
    by (auto simp: w(1) looksLikeTLS_def printableASCII_def)
  assume "mark = []"
  with w(4) n show "\<not> looksLikeHTTP (fst (WrapHandshakeDatagram C mark go frame rnd))"
    unfolding w(1) looksLikeHTTP_take by simp
qed

section \<open>Knocks\<close>

lemma encodeKnock_verify:
  assumes "digest_ok C" "encodeKnock C psk rnd = Inr (inner, rnd')"
  shows "length inner = KnockInnerLen" and "VerifyKnock C psk (inner @ tail)"
    and "KnockReplayKey (inner @ tail) = inner"
proof -
  from assms(2) obtain n where n: "psk \<noteq> []" "length n = 32" "inner = n @ knockMAC C psk n"
    by (auto simp: encodeKnock_def knockNonceLen_def read_full_Inr_iff split: if_splits)
  have m: "length (knockMAC C psk n) = 16"
    by (simp add: knockMAC_def knockMACLen_def digest_okD(2) [OF assms(1)])
  show "length inner = KnockInnerLen" "VerifyKnock C psk (inner @ tail)" "KnockReplayKey (inner @ tail) = inner"
    using n m by (simp_all add: KnockInnerLen_def VerifyKnock_def KnockReplayKey_def knockNonceLen_def knockMACLen_def)
qed

lemma VerifyKnock_iff:
  "VerifyKnock C psk inner \<longleftrightarrow> psk \<noteq> [] \<and> KnockInnerLen \<le> length inner \<and>
     KnockReplayKey inner = take knockNonceLen inner @ knockMAC C psk (take knockNonceLen inner)"
  by (auto simp: VerifyKnock_def KnockReplayKey_def KnockInnerLen_def take_add not_less)

end
