(* ===== verification/Sessions.thy ===== *)
theory Sessions
  imports Handshake_Lockstep
begin

text \<open>
  Established stream sessions (\<open>Session\<close> of \<open>internal/compiler/handshake.go\<close>): what
  one side sends over a byte stream the other side receives, in order, however many records
  follow. The datagram counterpart is \<open>deliver_any_order\<close> of \<open>Packet_Frames\<close>.
\<close>

fun send_all :: "crypto \<Rightarrow> session \<Rightarrow> (bytes \<times> reader) list \<Rightarrow> (bytes \<times> session) res" where
  "send_all C s [] = Inr ([], s)"
| "send_all C s ((payload, rnd) # sends) =
     res_bind (session_send C s payload rnd) (\<lambda>(out, s1, _).
     res_bind (send_all C s1 sends) (\<lambda>(outs, s2). Inr (out @ outs, s2)))"

fun recv_all :: "crypto \<Rightarrow> nat \<Rightarrow> session \<Rightarrow> reader \<Rightarrow> (bytes list \<times> session \<times> reader) res" where
  "recv_all C 0 s inp = Inr ([], s, inp)"
| "recv_all C (Suc n) s inp =
     res_bind (session_recv C s inp) (\<lambda>(msg, s1, inp1).
     res_bind (recv_all C n s1 inp1) (\<lambda>(payloads, s2, inp2). Inr (msg_payload msg # payloads, s2, inp2)))"

text \<open>A receiving codec that has taken every record so far and nothing else.\<close>

definition in_step :: "codec \<Rightarrow> codec \<Rightarrow> bool" where
  "in_step c d \<longleftrightarrow>
     cspec d = cspec c \<and> ckey d = ckey c \<and> cseq d = cseq c \<and> seen_base d = cseq c \<and> seen_bits d = 0"

lemma slide_one:
  assumes "seen_bits c = 0" "seen_base c = cseq c" "cseq c + 1 < 2 ^ 64"
  shows "slide (Suc (Suc n)) (c\<lparr>seen_bits := 1\<rparr>) = c\<lparr>seen_base := cseq c + 1, cseq := cseq c + 1\<rparr>"
  using assms by (cases c) simp

text \<open>The next record: the window takes it and slides past it at once.\<close>

lemma Decode_in_step:
  assumes "in_step c d" "cseq c + 64 < 2 ^ 64" "decodeAt C d frame (nonceAt c (cseq c)) = Inr msg"
  shows "Decode C d frame = Inr (msg, d\<lparr>seen_base := cseq c + 1, cseq := cseq c + 1\<rparr>)"
proof -
  note D = assms(1) [unfolded in_step_def]
  have nn: "nonceAt d (cseq c) = nonceAt c (cseq c)" using D by (simp add: nonceAt_def)
  have up: "[cseq c ..< w64 (cseq c + 64)] = cseq c # [Suc (cseq c) ..< cseq c + 64]"
    using assms(2) D by (simp add: upt_conv_Cons)
  have "slide 64 (d\<lparr>seen_bits := 1\<rparr>) = d\<lparr>seen_base := cseq c + 1, cseq := cseq c + 1\<rparr>"
  proof -
    have "(64 :: nat) = Suc (Suc 62)" by simp
    moreover have "cseq d + 1 < 2 ^ 64" "seen_base d = cseq d" using assms(2) D by simp_all
    ultimately show ?thesis using slide_one [of d 62] D by metis
  qed
  then show ?thesis
    using D assms(3) nn by (simp add: Decode_def up observe_def)
qed

text \<open>What one record needs: a payload the layout carries, random bytes, a frame below the
  cap that \<open>ReadFrame\<close> puts on a record.\<close>

definition record_ok :: "message_spec \<Rightarrow> bytes \<times> reader \<Rightarrow> bool" where
  "record_ok spec = (\<lambda>(payload, rnd).
     (has_payload spec \<or> payload = []) \<and> rnd_budget spec \<le> length rnd \<and> payload_fits spec (length payload) \<and>
     plainFieldsSize spec + max_body spec + length payload + gcmTagSize \<le> 2 ^ 26)"

lemma session_step:
  assumes "layout_ok spec" "aead_ok C" "record_ok spec (payload, rnd)" and
    s: "sspec r = spec" "cspec (ssend s) = spec" "in_step (ssend s) (srecv r)" "cseq (ssend s) + 64 < 2 ^ 64"
  shows "\<exists>out s' rnd' r' msg. session_send C s payload rnd = Inr (out, s', rnd') \<and>
    (\<forall>rest. session_recv C r (out @ rest) = Inr (msg, r', rest)) \<and> msg_payload msg = payload \<and>
    sspec r' = spec \<and> cspec (ssend s') = spec \<and> in_step (ssend s') (srecv r') \<and>
    cseq (ssend s') = cseq (ssend s) + 1"
proof -
  define c where "c = ssend s"
  have lay: "layout_ok (cspec c)" using assms(1) s by (simp add: c_def)
  have inj: "inject_ok (\<lambda>_. None)" by (simp add: inject_ok_def)
  note R = assms(3) [unfolded record_ok_def, simplified]
  have c: "cspec c = spec" using s(2) by (simp add: c_def)
  from Encode_total [OF lay assms(2) _ inj] R obtain frame segs c' rnd' where
    e: "Encode C c payload (\<lambda>_. None) rnd = Inr (frame, segs, c', rnd')" and
    len: "length frame \<le> plainFieldsSize spec + max_body spec + length payload + gcmTagSize"
    by (metis c)
  from Encode_frame_of [OF lay e] obtain pl plain ct where
    f: "frame_of C c (cseq c) pl payload (\<lambda>_. None) plain ct frame" and
    segs: "segs = splitSegments frame (cspec c)" and c': "c' = c\<lparr>cseq := cseq c + 1\<rparr>"
    using s(4) by (auto simp: c_def)
  have fr: "framed spec frame" using frame_of_framed [OF lay f] len R s by (simp add: c_def)
  note I = s(3) [folded c_def]
  from decodeAt_frame_of [OF lay assms(2) f _ _ frame_of_pad_small [OF lay f], of "srecv r"] I obtain msg where
    m: "decodeAt C (srecv r) frame (nonceAt c (cseq c)) = Inr msg" "msg_payload msg = payload"
    by (auto simp: in_step_def)
  note D = Decode_in_step [OF I s(4) [folded c_def] m(1)]
  have "session_recv C r (frame @ rest) = Inr (msg, r\<lparr>srecv := (srecv r)\<lparr>seen_base := cseq c + 1, cseq := cseq c + 1\<rparr>\<rparr>, rest)"
    for rest using D ReadFrame_framed [OF fr] s(1) by (simp add: session_recv_def)
  moreover have "session_send C s payload rnd = Inr (frame, s\<lparr>ssend := c'\<rparr>, rnd')"
    using e by (simp add: session_send_def c_def segs concat_splitSegments)
  moreover have "in_step c' ((srecv r)\<lparr>seen_base := cseq c + 1, cseq := cseq c + 1\<rparr>)"
    using I by (simp add: in_step_def c')
  ultimately show ?thesis using m(2) s(1,2) by (fastforce simp: c_def c')
qed

lemma sessions_in_step:
  assumes "layout_ok spec" "aead_ok C" "\<forall>x \<in> set sends. record_ok spec x" and
    s: "sspec r = spec" "cspec (ssend s) = spec" "in_step (ssend s) (srecv r)"
      "cseq (ssend s) + length sends + 64 < 2 ^ 64"
  shows "\<exists>wire s' r'. send_all C s sends = Inr (wire, s') \<and>
    (\<forall>rest. recv_all C (length sends) r (wire @ rest) = Inr (map fst sends, r', rest)) \<and>
    in_step (ssend s') (srecv r')"
  using assms(3) s
proof (induction sends arbitrary: s r)
  case (Cons x sends)
  obtain payload rnd where x: "x = (payload, rnd)" by (cases x)
  from session_step [OF assms(1,2), of payload rnd r s] Cons.prems x obtain out s1 rnd' r1 msg where
    S: "session_send C s payload rnd = Inr (out, s1, rnd')"
      "\<forall>rest. session_recv C r (out @ rest) = Inr (msg, r1, rest)" "msg_payload msg = payload"
      "sspec r1 = spec" "cspec (ssend s1) = spec" "in_step (ssend s1) (srecv r1)"
      "cseq (ssend s1) = cseq (ssend s) + 1" by auto
  from Cons.IH [OF _ S(4-6)] Cons.prems S(7) obtain wire s' r' where
    "send_all C s1 sends = Inr (wire, s')"
    "\<forall>rest. recv_all C (length sends) r1 (wire @ rest) = Inr (map fst sends, r', rest)"
    "in_step (ssend s') (srecv r')" by auto
  with S x show ?case by simp
qed simp

lemma NewSession_in_step:
  assumes "NewSession spec DirClient c2s s2c = Inr a" "NewSession spec DirServer c2s s2c = Inr b"
  shows "in_step (ssend a) (srecv b)" "in_step (ssend b) (srecv a)" "sspec a = spec" "sspec b = spec"
    "cspec (ssend a) = spec" "cspec (ssend b) = spec" "cseq (ssend a) = 0" "cseq (ssend b) = 0"
  using assms by (auto simp: NewSession_def NewMessageCodec_def in_step_def)

end
