(* ===== verification/Tunnel.thy ===== *)
theory Tunnel
  imports Handshake_Lockstep Cover
begin

text \<open>
  The established datagram tunnel of one client (\<open>internal/tunnel/tunnel.go\<close>): control
  payloads, loss recovery by ACK and SKIP, the send and receive paths, and the client and
  single-peer server handshake over an unreliable socket. Time is in nanoseconds and an
  argument. The socket is an outbox of frames in the order they are written, together with a
  predicate \<open>net\<close> that says which writes the network accepts. Sleeping for jitter changes
  no state and is left out.
\<close>

section \<open>Control payloads\<close>

definition ControlAssignIP :: byte where
  "ControlAssignIP = 1"

definition ControlAck :: byte where
  "ControlAck = 2"

definition ControlSkip :: byte where
  "ControlSkip = 3"

definition ControlKeepalive :: byte where
  "ControlKeepalive = 4"

definition ControlGeneration :: byte where
  "ControlGeneration = 5"

lemmas control_defs [simp] =
  ControlAssignIP_def ControlAck_def ControlSkip_def ControlKeepalive_def ControlGeneration_def

definition ackEvery :: nat where
  "ackEvery = 32"

definition skipSpan :: nat where
  "skipSpan = PacketWindow * 3 div 4"

definition maxDatagram :: nat where
  "maxDatagram = 64 * 1024"

definition encodeAckPayload :: "nat \<Rightarrow> bytes" where
  "encodeAckPayload base = ControlAck # be_bytes 8 base"

definition encodeSkipPayload :: "nat \<Rightarrow> bytes" where
  "encodeSkipPayload target = ControlSkip # be_bytes 8 target"

definition decodeAckPayload :: "bytes \<Rightarrow> (byte \<times> nat) res" where
  "decodeAckPayload p =
     (if length p \<noteq> 9 \<or> (p ! 0 \<noteq> ControlAck \<and> p ! 0 \<noteq> ControlSkip) then Inl ErrControl
      else Inr (p ! 0, be_nat (drop 1 p)))"

section \<open>State\<close>

record tunnel =
  tsess :: packet_session
  tpeer :: "string option"          \<comment> \<open>the peer's address; none accepts every sender\<close>
  tpeer_base :: nat                 \<comment> \<open>\<open>ack.peerBase\<close>\<close>
  tack_due :: nat
  tlast_recv :: int
  tlast_send :: int
  tremote_gen :: nat
  ton_gen :: "nat list option"      \<comment> \<open>the generations passed to the registered callback\<close>
  tbytes_sent :: nat
  tbytes_recv :: nat
  tctrl :: "bytes list"             \<comment> \<open>channel of capacity 4\<close>
  tdata :: "bytes list"             \<comment> \<open>channel of capacity 256\<close>
  tout :: "bytes list"              \<comment> \<open>frames written to the socket\<close>
  trnd :: reader

definition NewPacketTunnel :: "string option \<Rightarrow> packet_session \<Rightarrow> int \<Rightarrow> reader \<Rightarrow> tunnel" where
  "NewPacketTunnel peer sess now rnd =
     \<lparr>tsess = sess, tpeer = peer, tpeer_base = 0, tack_due = 0, tlast_recv = now, tlast_send = now,
      tremote_gen = 0, ton_gen = None, tbytes_sent = 0, tbytes_recv = 0, tctrl = [], tdata = [], tout = [],
      trnd = rnd\<rparr>"

definition SetOnGeneration :: "tunnel \<Rightarrow> tunnel" where
  "SetOnGeneration t = t\<lparr>ton_gen := Some []\<rparr>"

definition quietFor :: "tunnel \<Rightarrow> int \<Rightarrow> int" where
  "quietFor t now = now - max (tlast_recv t) (tlast_send t)"

definition IdleFor :: "tunnel \<Rightarrow> int \<Rightarrow> int" where
  "IdleFor t now = now - tlast_recv t"

section \<open>Sending\<close>

definition writeDatagram :: "(bytes \<Rightarrow> bool) \<Rightarrow> bytes \<Rightarrow> tunnel \<Rightarrow> unit res \<times> tunnel" where
  "writeDatagram net frame t =
     (if maxDatagram < length frame then (Inl ErrTooLarge, t)
      else if net frame then (Inr (), t\<lparr>tout := tout t @ [frame]\<rparr>)
      else (Inl ErrNet, t))"

text \<open>Best effort: errors are dropped.\<close>

definition writeDatagramAsync :: "(bytes \<Rightarrow> bool) \<Rightarrow> bytes \<Rightarrow> tunnel \<Rightarrow> tunnel" where
  "writeDatagramAsync net frame t =
     (if tpeer t = None \<or> length frame = 0 \<or> maxDatagram < length frame then t
      else if net frame then t\<lparr>tout := tout t @ [frame]\<rparr> else t)"

definition tunnel_encode :: "crypto \<Rightarrow> bytes \<Rightarrow> tunnel \<Rightarrow> bytes res \<times> tunnel" where
  "tunnel_encode C payload t =
     (case sess_encode C (tsess t) payload (trnd t) of
        Inl e \<Rightarrow> (Inl e, t)
      | Inr (frame, s, rnd) \<Rightarrow> (Inr frame, t\<lparr>tsess := s, trnd := rnd\<rparr>))"

definition observeAck :: "nat \<Rightarrow> tunnel \<Rightarrow> tunnel" where
  "observeAck base t = (if tpeer_base t < base then t\<lparr>tpeer_base := base\<rparr> else t)"

definition unackedSpan :: "nat \<Rightarrow> tunnel \<Rightarrow> nat" where
  "unackedSpan sent t = (if sent < tpeer_base t then 0 else sent - tpeer_base t)"

definition maybeSendLossControl :: "crypto \<Rightarrow> (bytes \<Rightarrow> bool) \<Rightarrow> tunnel \<Rightarrow> tunnel" where
  "maybeSendLossControl C net t =
     (let sent = snd (AckState (tsess t)) in
      if unackedSpan sent t < skipSpan then t
      else case tunnel_encode C (encodeSkipPayload sent) t of
             (Inl _, t1) \<Rightarrow> t1
           | (Inr frame, t1) \<Rightarrow>
               (case writeDatagram net frame t1 of
                  (Inl _, t2) \<Rightarrow> t2
                | (Inr _, t2) \<Rightarrow> observeAck sent t2))"

definition sendPayload :: "crypto \<Rightarrow> (bytes \<Rightarrow> bool) \<Rightarrow> int \<Rightarrow> bytes \<Rightarrow> tunnel \<Rightarrow> unit res \<times> tunnel" where
  "sendPayload C net now payload t =
     (case tunnel_encode C payload t of
        (Inl e, t1) \<Rightarrow> (Inl e, t1)
      | (Inr frame, t1) \<Rightarrow>
          (case writeDatagram net frame t1 of
             (Inl e, t2) \<Rightarrow> (Inl e, t2)
           | (Inr _, t2) \<Rightarrow> (Inr (), maybeSendLossControl C net (t2\<lparr>tlast_send := now\<rparr>))))"

definition sendControlRaw :: "crypto \<Rightarrow> (bytes \<Rightarrow> bool) \<Rightarrow> int \<Rightarrow> bytes \<Rightarrow> tunnel \<Rightarrow> unit res \<times> tunnel" where
  "sendControlRaw C net now payload t =
     (case tunnel_encode C payload t of
        (Inl e, t1) \<Rightarrow> (Inl e, t1)
      | (Inr frame, t1) \<Rightarrow>
          (case writeDatagram net frame t1 of
             (Inl e, t2) \<Rightarrow> (Inl e, t2)
           | (Inr _, t2) \<Rightarrow> (Inr (), t2\<lparr>tlast_send := now\<rparr>)))"

definition SendPacket :: "crypto \<Rightarrow> (bytes \<Rightarrow> bool) \<Rightarrow> int \<Rightarrow> bytes \<Rightarrow> tunnel \<Rightarrow> unit res \<times> tunnel" where
  "SendPacket C net now packet t =
     (case sendPayload C net now packet t of
        (Inl e, t1) \<Rightarrow> (Inl e, t1)
      | (Inr _, t1) \<Rightarrow> (Inr (), t1\<lparr>tbytes_sent := w64 (tbytes_sent t1 + length packet)\<rparr>))"

definition SendControl :: "crypto \<Rightarrow> (bytes \<Rightarrow> bool) \<Rightarrow> int \<Rightarrow> bytes \<Rightarrow> tunnel \<Rightarrow> unit res \<times> tunnel" where
  "SendControl C net now payload t = sendPayload C net now (ControlAssignIP # payload) t"

definition PushControl :: "crypto \<Rightarrow> (bytes \<Rightarrow> bool) \<Rightarrow> int \<Rightarrow> bytes \<Rightarrow> tunnel \<Rightarrow> unit res \<times> tunnel" where
  "PushControl C net now payload t = sendControlRaw C net now payload t"

text \<open>One expiry of the keepalive timer: silent while traffic flows.\<close>

definition keepalive_tick :: "crypto \<Rightarrow> (bytes \<Rightarrow> bool) \<Rightarrow> int \<Rightarrow> int \<Rightarrow> tunnel \<Rightarrow> tunnel" where
  "keepalive_tick C net interval now t =
     (if quietFor t now < interval then t else snd (sendControlRaw C net now [ControlKeepalive] t))"

section \<open>Receiving\<close>

definition handleLossControl :: "bytes \<Rightarrow> tunnel \<Rightarrow> bool \<times> tunnel" where
  "handleLossControl pkt t =
     (case pkt of
        [] \<Rightarrow> (False, t)
      | k # _ \<Rightarrow>
          if k = ControlAck \<or> k = ControlSkip then
            (if length pkt \<noteq> 9 then (True, t)
             else case decodeAckPayload pkt of
                    Inl _ \<Rightarrow> (True, t)
                  | Inr (kind, v) \<Rightarrow>
                      if kind = ControlAck then (True, observeAck v t)
                      else (True, case sess_advance (tsess t) v of
                                    Inl _ \<Rightarrow> t
                                  | Inr s \<Rightarrow> t\<lparr>tsess := s\<rparr>))
          else if k = ControlKeepalive then (True, t)
          else if k = ControlGeneration then
            (if length pkt \<noteq> 9 then (True, t)
             else let g = be_nat (take 8 (drop 1 pkt)) in
                  (True, t\<lparr>tremote_gen := g, ton_gen := map_option (\<lambda>gs. gs @ [g]) (ton_gen t)\<rparr>))
          else (False, t))"

text \<open>The result is an error, none for a control payload, or the payload.\<close>

definition decodeLocked :: "crypto \<Rightarrow> int \<Rightarrow> bytes \<Rightarrow> tunnel \<Rightarrow> bytes option res \<times> tunnel" where
  "decodeLocked C now buf t =
     (case sess_decode C (tsess t) buf of
        Inl e \<Rightarrow> (Inl e, t)
      | Inr (msg, s) \<Rightarrow>
          (let t1 = t\<lparr>tsess := s, tlast_recv := now\<rparr>; pkt = msg_payload msg in
           case handleLossControl pkt t1 of
             (True, t2) \<Rightarrow> (Inr None, t2)
           | (False, t2) \<Rightarrow> (Inr (Some pkt), t2)))"

definition noteDecoded :: "tunnel \<Rightarrow> bool \<times> tunnel" where
  "noteDecoded t =
     (let due = tack_due t + 1 in
      if due < ackEvery then (False, t\<lparr>tack_due := due\<rparr>) else (True, t\<lparr>tack_due := 0\<rparr>))"

text \<open>The data frame's part of both receive loops: count it and acknowledge when due.\<close>

definition acknowledge :: "crypto \<Rightarrow> (bytes \<Rightarrow> bool) \<Rightarrow> tunnel \<Rightarrow> tunnel" where
  "acknowledge C net t =
     (case noteDecoded t of
        (False, t1) \<Rightarrow> t1
      | (True, t1) \<Rightarrow>
          (case tunnel_encode C (encodeAckPayload (fst (AckState (tsess t1)))) t1 of
             (Inl _, t2) \<Rightarrow> t2
           | (Inr frame, t2) \<Rightarrow> writeDatagramAsync net frame t2))"

text \<open>
  One datagram in the loop of \<open>ReceivePacket\<close>: the packet to return, or none to read on.
\<close>

definition receive_step ::
  "crypto \<Rightarrow> (bytes \<Rightarrow> bool) \<Rightarrow> int \<Rightarrow> string \<Rightarrow> bytes \<Rightarrow> tunnel \<Rightarrow> bytes option \<times> tunnel" where
  "receive_step C net now addr buf t =
     (if tpeer t \<noteq> None \<and> tpeer t \<noteq> Some addr then (None, t)
      else case decodeLocked C now buf t of
             (Inl _, t1) \<Rightarrow> (None, t1)
           | (Inr None, t1) \<Rightarrow> (None, t1)
           | (Inr (Some pkt), t1) \<Rightarrow>
               if pkt \<noteq> [] \<and> pkt ! 0 = ControlAssignIP
               then (None, if length (tctrl t1) < 4 then t1\<lparr>tctrl := tctrl t1 @ [drop 1 pkt]\<rparr> else t1)
               else let t2 = acknowledge C net t1 in
                    (Some pkt, t2\<lparr>tbytes_recv := w64 (tbytes_recv t2 + length pkt)\<rparr>))"

text \<open>
  The datagrams that arrive are a list of time, sender and content; the read fails when they
  end.
\<close>

fun receive_loop ::
  "crypto \<Rightarrow> (bytes \<Rightarrow> bool) \<Rightarrow> (int \<times> string \<times> bytes) list \<Rightarrow> tunnel \<Rightarrow>
     bytes res \<times> (int \<times> string \<times> bytes) list \<times> tunnel" where
  "receive_loop C net [] t = (Inl ErrNet, [], t)"
| "receive_loop C net ((now, addr, buf) # arrivals) t =
     (case receive_step C net now addr buf t of
        (Some pkt, t1) \<Rightarrow> (Inr pkt, arrivals, t1)
      | (None, t1) \<Rightarrow> receive_loop C net arrivals t1)"

definition ReceivePacket ::
  "crypto \<Rightarrow> (bytes \<Rightarrow> bool) \<Rightarrow> (int \<times> string \<times> bytes) list \<Rightarrow> tunnel \<Rightarrow>
     bytes res \<times> (int \<times> string \<times> bytes) list \<times> tunnel" where
  "ReceivePacket C net arrivals t =
     (case tdata t of
        pkt # rest \<Rightarrow>
          (Inr pkt, arrivals, t\<lparr>tdata := rest, tbytes_recv := w64 (tbytes_recv t + length pkt)\<rparr>)
      | [] \<Rightarrow> receive_loop C net arrivals t)"

text \<open>One datagram in the loop of \<open>WaitControl\<close>: the control payload to return, or none.\<close>

definition wait_step ::
  "crypto \<Rightarrow> (bytes \<Rightarrow> bool) \<Rightarrow> int \<Rightarrow> string \<Rightarrow> bytes \<Rightarrow> tunnel \<Rightarrow> bytes option \<times> tunnel" where
  "wait_step C net now addr buf t =
     (if tpeer t \<noteq> None \<and> tpeer t \<noteq> Some addr then (None, t)
      else case decodeLocked C now buf t of
             (Inl _, t1) \<Rightarrow> (None, t1)
           | (Inr None, t1) \<Rightarrow> (None, t1)
           | (Inr (Some pkt), t1) \<Rightarrow>
               if pkt \<noteq> [] \<and> pkt ! 0 = ControlAssignIP then (Some (drop 1 pkt), t1)
               else let t2 = acknowledge C net t1 in
                    (None, if length (tdata t2) < 256 then t2\<lparr>tdata := tdata t2 @ [pkt]\<rparr> else t2))"

section \<open>Control payloads: lemmas\<close>

lemma decode_ack_payload [simp, roundtrip_simps]:
  "v < 2 ^ 64 \<Longrightarrow> decodeAckPayload (encodeAckPayload v) = Inr (ControlAck, v)"
  "v < 2 ^ 64 \<Longrightarrow> decodeAckPayload (encodeSkipPayload v) = Inr (ControlSkip, v)"
  by (simp_all add: decodeAckPayload_def encodeAckPayload_def encodeSkipPayload_def)

lemma decodeAckPayload_Inr:
  assumes "decodeAckPayload p = Inr (k, v)"
  shows "p = k # be_bytes 8 v" "v < 2 ^ 64" "k = ControlAck \<or> k = ControlSkip"
proof -
  from assms have p: "length p = 9" "k = p ! 0" "v = be_nat (drop 1 p)" "k = ControlAck \<or> k = ControlSkip"
    by (auto simp: decodeAckPayload_def split: if_splits)
  then obtain q where q: "p = k # q" "length q = 8" by (cases p) auto
  then have v: "v = be_nat q" using p(3) by simp
  show "p = k # be_bytes 8 v" using be_bytes_be_nat [of q] q v by simp
  show "v < 2 ^ 64" using be_nat_bound [of q] q(2) v by simp
  show "k = ControlAck \<or> k = ControlSkip" by (fact p(4))
qed

text \<open>The first byte of an IPv4 or IPv6 packet.\<close>

definition ip_packet :: "bytes \<Rightarrow> bool" where
  "ip_packet pkt \<longleftrightarrow> pkt \<noteq> [] \<and> drop_bit 4 (hd pkt) \<in> {4, 6}"

lemma ip_packet_not_control:
  assumes "ip_packet pkt"
  shows "pkt \<noteq> []" "hd pkt \<noteq> ControlAssignIP" "handleLossControl pkt t = (False, t)"
proof -
  have small: "drop_bit 4 k \<notin> {4, 6 :: byte}" if "k \<in> {1, 2, 3, 4, 5}" for k
    using that by (elim insertE) (simp_all add: drop_bit_eq_div)
  from assms have "hd pkt \<notin> {1, 2, 3, 4, 5}" using small by (auto simp: ip_packet_def)
  with assms show "pkt \<noteq> []" "hd pkt \<noteq> ControlAssignIP" "handleLossControl pkt t = (False, t)"
    by (auto simp: ip_packet_def handleLossControl_def split: list.split)
qed

section \<open>The receiver\<close>

text \<open>A tunnel whose receive direction has a given layout and key, with room in its numbers.\<close>

definition receives :: "codec \<Rightarrow> tunnel \<Rightarrow> bool" where
  "receives c t \<longleftrightarrow>
     cspec (precv (tsess t)) = cspec c \<and> ckey (precv (tsess t)) = ckey c \<and> packet_inv (precv (tsess t)) \<and>
     packet_base (precv (tsess t)) + PacketWindow < 2 ^ 64"

abbreviation tbase :: "tunnel \<Rightarrow> nat" where
  "tbase t \<equiv> packet_base (precv (tsess t))"

abbreviation tdead :: "tunnel \<Rightarrow> nat set" where
  "tdead t \<equiv> packet_dead (precv (tsess t))"

lemma DecodePacket_beyond:
  assumes "layout_ok (cspec c)" "aead_nonce_ok C" "carries C c q payload frame" "cspec d = cspec c" "ckey d = ckey c"
    "packet_base d + PacketWindow \<le> q" "q < 2 ^ 64"
  shows "\<exists>e. DecodePacket C d frame = Inl e"
proof -
  from assms(3) obtain pl inject plain ct where f: "frame_of C c q pl payload inject plain ct frame"
    by (auto simp: carries_def)
  have "\<not> opens_at C d frame p" if "p < packet_base d + PacketWindow" for p
    using decodeAt_other_nonce [OF f assms(2,4,5), of p] that assms(6,7) by (simp add: opens_at_def)
  then have none: "find (packet_opens C d frame) [packet_base d ..< packet_base d + PacketWindow] = None"
    by (auto simp: find_None_iff packet_opens_def)
  have "w64 (packet_base d + PacketWindow) = packet_base d + PacketWindow" using assms(6,7) by simp
  with packet_probe_find [of C d frame None "[packet_base d ..< packet_base d + PacketWindow]"] none
  show ?thesis by (auto simp: DecodePacket_def)
qed

text \<open>What a live frame does to the receiving tunnel, by the kind of its payload.\<close>

lemma decodeLocked_carries:
  assumes "layout_ok (cspec c)" "aead_ok C" "aead_nonce_ok C" "carries C c q payload frame" "receives c t"
    "q < tbase t + PacketWindow" "q \<notin> tdead t"
  shows "\<exists>s. decodeLocked C now frame t =
      (case handleLossControl payload (t\<lparr>tsess := s, tlast_recv := now\<rparr>) of
         (True, t2) \<Rightarrow> (Inr None, t2) | (False, t2) \<Rightarrow> (Inr (Some payload), t2)) \<and>
    packet_dead (precv s) = insert q (tdead t) \<and> packet_inv (precv s) \<and> cspec (precv s) = cspec c \<and>
    ckey (precv s) = ckey c \<and> psend s = psend (tsess t) \<and> packet_base (precv s) \<notin> packet_dead (precv s)"
proof -
  note R = assms(5) [unfolded receives_def]
  from DecodePacket_carries(1) [OF assms(1-4) _ _ _ _ assms(6,7)] R obtain msg d where
    d: "DecodePacket C (precv (tsess t)) frame = Inr (msg, d)" "msg_payload msg = payload"
      "packet_dead d = insert q (tdead t)" "packet_inv d" "cspec d = cspec c" "ckey d = ckey c" by auto
  from DecodePacket_accepts [OF d(1)] R obtain q' where "packet_accepts C (precv (tsess t)) frame q' d" by auto
  from packet_acceptsD(4) [OF this] R have live: "packet_base d \<notin> packet_dead d" by simp
  from d(1) have "sess_decode C (tsess t) frame = Inr (msg, (tsess t)\<lparr>precv := d\<rparr>)" by (simp add: sess_decode_def)
  with d live show ?thesis
    by (intro exI [of _ "(tsess t)\<lparr>precv := d\<rparr>"]) (simp add: decodeLocked_def Let_def split: prod.split bool.split)
qed

lemma decodeLocked_dead:
  assumes "layout_ok (cspec c)" "aead_ok C" "aead_nonce_ok C" "carries C c q payload frame" "receives c t"
    "q < 2 ^ 64" "q \<in> tdead t \<or> tbase t + PacketWindow \<le> q"
  shows "\<exists>e. decodeLocked C now frame t = (Inl e, t)"
proof -
  note R = assms(5) [unfolded receives_def]
  have "\<exists>e. DecodePacket C (precv (tsess t)) frame = Inl e"
  proof (cases "tbase t + PacketWindow \<le> q")
    case True
    with DecodePacket_beyond [OF assms(1,3,4)] R assms(6) show ?thesis by blast
  next
    case False
    with DecodePacket_carries(2) [OF assms(1-4)] R assms(7) show ?thesis by auto
  qed
  then show ?thesis by (auto simp: decodeLocked_def sess_decode_def)
qed

text \<open>Acknowledging sends; it never touches the receive direction or the queues.\<close>

lemma sess_encode_frame:
  assumes "sess_encode C p payload rnd = Inr (frame, p', rnd')"
  shows "precv p' = precv p" "cspec (psend p') = cspec (psend p)" "ckey (psend p') = ckey (psend p)"
    "packet_send (psend p') = w64 (packet_send (psend p) + 1)" "packet_mode (psend p') = packet_mode (psend p)"
    "shape_buckets (psend p') = shape_buckets (psend p)"
proof -
  from assms obtain c' where e: "EncodePacket C (psend p) payload (\<lambda>_. None) rnd = Inr (frame, c', rnd')" and
    p': "p' = p\<lparr>psend := c'\<rparr>" by (auto simp: sess_encode_def)
  from e have "c' = (psend p)\<lparr>packet_send := w64 (packet_send (psend p) + 1)\<rparr>" by (rule EncodePacketE)
  then show "precv p' = precv p" "cspec (psend p') = cspec (psend p)" "ckey (psend p') = ckey (psend p)"
    "packet_send (psend p') = w64 (packet_send (psend p) + 1)" "packet_mode (psend p') = packet_mode (psend p)"
    "shape_buckets (psend p') = shape_buckets (psend p)" by (simp_all add: p')
qed

lemma writeDatagramAsync_out: "\<exists>out. writeDatagramAsync net frame t = t\<lparr>tout := out\<rparr>"
  by (cases t) (auto simp: writeDatagramAsync_def)

lemma acknowledge_cases:
  obtains s due rnd out where
    "acknowledge C net t = t\<lparr>tsess := s, tack_due := due, trnd := rnd, tout := out\<rparr>" "precv s = precv (tsess t)"
proof (cases "Suc (tack_due t) < ackEvery")
  case True
  with that [where s = "tsess t" and due = "tack_due t + 1" and rnd = "trnd t" and out = "tout t"] show thesis
    by (simp add: acknowledge_def noteDecoded_def Let_def)
next
  case False
  then have nd: "noteDecoded t = (True, t\<lparr>tack_due := 0\<rparr>)" by (simp add: noteDecoded_def Let_def)
  define t1 where "t1 = t\<lparr>tack_due := 0\<rparr>"
  show thesis
  proof (cases "sess_encode C (tsess t1) (encodeAckPayload (fst (AckState (tsess t1)))) (trnd t1)")
    case (Inl e)
    with nd that [where s = "tsess t" and due = 0 and rnd = "trnd t" and out = "tout t"] show thesis
      by (simp add: acknowledge_def tunnel_encode_def t1_def)
  next
    case (Inr x)
    obtain frame s rnd where x: "x = (frame, s, rnd)" by (cases x)
    with Inr nd have "acknowledge C net t = writeDatagramAsync net frame (t1\<lparr>tsess := s, trnd := rnd\<rparr>)"
      by (simp add: acknowledge_def tunnel_encode_def t1_def)
    moreover obtain out where
      "writeDatagramAsync net frame (t1\<lparr>tsess := s, trnd := rnd\<rparr>) = t1\<lparr>tsess := s, trnd := rnd, tout := out\<rparr>"
      using writeDatagramAsync_out by fastforce
    ultimately have "acknowledge C net t = t\<lparr>tsess := s, tack_due := 0, trnd := rnd, tout := out\<rparr>"
      by (cases t) (simp add: t1_def)
    with sess_encode_frame(1) [OF Inr [unfolded x]] that show thesis by (simp add: t1_def)
  qed
qed

lemma acknowledge_frame:
  "precv (tsess (acknowledge C net t)) = precv (tsess t)" "tpeer (acknowledge C net t) = tpeer t"
  "tctrl (acknowledge C net t) = tctrl t" "tdata (acknowledge C net t) = tdata t"
  "tbytes_recv (acknowledge C net t) = tbytes_recv t" "tpeer_base (acknowledge C net t) = tpeer_base t"
  "tlast_recv (acknowledge C net t) = tlast_recv t"
  by (rule acknowledge_cases [of C net t]; simp)+

text \<open>A data frame that is live is delivered, and its number is dead afterwards.\<close>

lemma receive_data:
  assumes "layout_ok (cspec c)" "aead_ok C" "aead_nonce_ok C" "carries C c q pkt frame" "receives c t"
    "q < tbase t + PacketWindow" "q \<notin> tdead t" "ip_packet pkt" "tpeer t = None \<or> tpeer t = Some addr"
  shows "\<exists>t'. receive_step C net now addr frame t = (Some pkt, t') \<and> tdead t' = insert q (tdead t) \<and>
    packet_inv (precv (tsess t')) \<and> cspec (precv (tsess t')) = cspec c \<and> ckey (precv (tsess t')) = ckey c \<and>
    tpeer t' = tpeer t \<and> tlast_recv t' = now \<and> tbase t' \<notin> tdead t'"
proof -
  note I = ip_packet_not_control [OF assms(8)]
  from decodeLocked_carries [OF assms(1-7), of now] I(3) obtain s where
    d: "decodeLocked C now frame t = (Inr (Some pkt), t\<lparr>tsess := s, tlast_recv := now\<rparr>)" and
    s: "packet_dead (precv s) = insert q (tdead t)" "packet_inv (precv s)" "cspec (precv s) = cspec c"
      "ckey (precv s) = ckey c" "packet_base (precv s) \<notin> packet_dead (precv s)" by auto
  have "pkt ! 0 \<noteq> ControlAssignIP" using I(1,2) by (simp add: hd_conv_nth)
  with d assms(9) s show ?thesis by (auto simp: receive_step_def Let_def acknowledge_frame)
qed

section \<open>The sender\<close>

lemma tunnel_encode_carries:
  assumes "layout_ok (cspec (psend (tsess t)))" "aead_ok C" "tunnel_encode C payload t = (Inr frame, t')"
  shows "carries C (psend (tsess t)) (packet_send (psend (tsess t))) payload frame"
    and "tout t' = tout t" "tpeer_base t' = tpeer_base t"
    and "packet_send (psend (tsess t')) = w64 (packet_send (psend (tsess t)) + 1)"
    and "packet_mode (psend (tsess t')) = packet_mode (psend (tsess t))"
proof -
  from assms(3) obtain s rnd where e: "sess_encode C (tsess t) payload (trnd t) = Inr (frame, s, rnd)" and
    t': "t' = t\<lparr>tsess := s, trnd := rnd\<rparr>" by (auto simp: tunnel_encode_def split: sum.splits)
  from e obtain c' where enc: "EncodePacket C (psend (tsess t)) payload (\<lambda>_. None) (trnd t) = Inr (frame, c', rnd)"
    by (auto simp: sess_encode_def)
  from EncodePacket_frame_of(1) [OF assms(1,2) enc]
  show "carries C (psend (tsess t)) (packet_send (psend (tsess t))) payload frame" unfolding carries_def by blast
  show "tout t' = tout t" "tpeer_base t' = tpeer_base t"
    "packet_send (psend (tsess t')) = w64 (packet_send (psend (tsess t)) + 1)"
    "packet_mode (psend (tsess t')) = packet_mode (psend (tsess t))"
    using sess_encode_frame [OF e] by (simp_all add: t')
qed

lemma writeDatagram_Inr:
  assumes "writeDatagram net frame t = (Inr u, t')"
  shows "t' = t\<lparr>tout := tout t @ [frame]\<rparr>"
  using assms by (auto simp: writeDatagram_def split: if_splits)

lemma maybeSendLossControl_out: "\<exists>rest. tout (maybeSendLossControl C net t) = tout t @ rest"
  by (auto simp: maybeSendLossControl_def tunnel_encode_def writeDatagram_def observeAck_def Let_def
      split: sum.splits)

lemma sendPayload_Inr:
  assumes "sendPayload C net now payload t = (Inr u, t')"
  obtains frame t1 where "tunnel_encode C payload t = (Inr frame, t1)"
    "t' = maybeSendLossControl C net (t1\<lparr>tout := tout t1 @ [frame], tlast_send := now\<rparr>)"
proof -
  from assms obtain frame t1 where "tunnel_encode C payload t = (Inr frame, t1)"
    by (cases "tunnel_encode C payload t") (auto simp: sendPayload_def split: sum.splits)
  moreover from assms this obtain t2 where "writeDatagram net frame t1 = (Inr (), t2)"
    "t' = maybeSendLossControl C net (t2\<lparr>tlast_send := now\<rparr>)"
    by (cases "writeDatagram net frame t1") (auto simp: sendPayload_def split: sum.splits)
  ultimately show thesis using that writeDatagram_Inr by fastforce
qed

text \<open>
  The span of numbers the peer has not acknowledged stays below \<open>skipSpan\<close>: the send that
  would reach it also sends a SKIP, which the sender counts as acknowledged.
\<close>

definition span_ok :: "tunnel \<Rightarrow> bool" where
  "span_ok t \<longleftrightarrow>
     packet_mode (psend (tsess t)) \<and> tpeer_base t \<le> packet_send (psend (tsess t)) \<and>
     packet_send (psend (tsess t)) - tpeer_base t < skipSpan"

text \<open>What loss control does: nothing below the span; else a SKIP on the socket, counted as acknowledged.\<close>

lemma maybeSendLossControl_cases:
  assumes "packet_mode (psend (tsess t))" "tpeer_base t \<le> packet_send (psend (tsess t))"
    "packet_send (psend (tsess t)) + 1 < 2 ^ 64" "layout_ok (cspec (psend (tsess t)))" "aead_ok C"
    "sent = packet_send (psend (tsess t))"
    "skipSpan \<le> sent - tpeer_base t \<Longrightarrow>
      \<exists>frame t1. tunnel_encode C (encodeSkipPayload sent) t = (Inr frame, t1) \<and> length frame \<le> maxDatagram \<and> net frame"
  obtains (below) "sent - tpeer_base t < skipSpan" "maybeSendLossControl C net t = t"
  | (skipped) skip t1 where "skipSpan \<le> sent - tpeer_base t" "tunnel_encode C (encodeSkipPayload sent) t = (Inr skip, t1)"
      "maybeSendLossControl C net t = t1\<lparr>tout := tout t @ [skip], tpeer_base := sent\<rparr>"
      "carries C (psend (tsess t)) sent (encodeSkipPayload sent) skip"
      "packet_mode (psend (tsess t1))" "packet_send (psend (tsess t1)) = sent + 1"
proof (cases "sent - tpeer_base t < skipSpan")
  case True
  moreover have "unackedSpan sent t < skipSpan" using True assms(2,6) by (simp add: unackedSpan_def)
  ultimately show thesis using below assms(1,6) by (simp add: maybeSendLossControl_def AckState_def PacketSent_def)
next
  case False
  then have span: "skipSpan \<le> sent - tpeer_base t" "\<not> unackedSpan sent t < skipSpan" "tpeer_base t < sent"
    using assms(2,6) by (auto simp: unackedSpan_def skipSpan_def PacketWindow_def)
  with assms(7) obtain frame t1 where
    e: "tunnel_encode C (encodeSkipPayload sent) t = (Inr frame, t1)" and
    f: "length frame \<le> maxDatagram" "net frame" by blast
  note E = tunnel_encode_carries [OF assms(4,5) e]
  have w: "writeDatagram net frame t1 = (Inr (), t1\<lparr>tout := tout t1 @ [frame]\<rparr>)"
    using f by (simp add: writeDatagram_def)
  have "maybeSendLossControl C net t = observeAck sent (t1\<lparr>tout := tout t1 @ [frame]\<rparr>)"
    using span(2) e w assms(1,6) by (simp add: maybeSendLossControl_def AckState_def PacketSent_def)
  then have "maybeSendLossControl C net t = t1\<lparr>tout := tout t @ [frame], tpeer_base := sent\<rparr>"
    using E(2,3) span(3) by (simp add: observeAck_def)
  then show thesis using skipped [OF span(1) e] E(1,4,5) assms(1,3,6) by simp
qed

section \<open>Skipping\<close>

lemma handle_skip:
  assumes "packet_inv (precv (tsess t))" "tbase t < v" "v \<le> tbase t + PacketWindow" "tbase t + PacketWindow < 2 ^ 64"
  shows "handleLossControl (encodeSkipPayload v) t =
    (True, t\<lparr>tsess := (tsess t)\<lparr>precv := (precv (tsess t))\<lparr>packet_base := v,
       packet_seen := replicate packetWindowWords 0\<rparr>\<rparr>\<rparr>)"
proof -
  have v: "v < 2 ^ 64" using assms(3,4) by linarith
  have len: "length (encodeSkipPayload v) = 9" by (simp add: encodeSkipPayload_def)
  have "sess_advance (tsess t) v = Inr ((tsess t)\<lparr>precv := (precv (tsess t))\<lparr>packet_base := v,
      packet_seen := replicate packetWindowWords 0\<rparr>\<rparr>)"
    using assms by (simp add: sess_advance_def AdvanceBaseTo_def packet_inv_def)
  moreover have "encodeSkipPayload v = ControlSkip # be_bytes 8 v" by (simp add: encodeSkipPayload_def)
  ultimately show ?thesis
    using decode_ack_payload(2) [OF v] len
    by (simp add: handleLossControl_def del: ControlSkip_def ControlAck_def)
       (simp add: handleLossControl_def)
qed

lemma skipped_dead: "packet_dead (c\<lparr>packet_base := v, packet_seen := replicate n 0\<rparr>) = {..<v}"
  by (auto simp: packet_dead_def wbit_nth)

text \<open>The base does not move while its own number is outstanding.\<close>

lemma base_stuck:
  assumes "packet_inv c" "packet_inv d" "packet_dead d = insert q (packet_dead c)" "packet_base c \<notin> packet_dead c"
    "q \<noteq> packet_base c" "packet_base d \<notin> packet_dead d"
  shows "packet_base d = packet_base c"
proof (rule ccontr)
  assume "packet_base d \<noteq> packet_base c"
  then consider "packet_base c < packet_base d" | "packet_base d < packet_base c" by linarith
  then show False
  proof cases
    case 1
    from packet_base_dead [OF 1] assms(3-5) show False by auto
  next
    case 2
    from packet_base_dead [OF 2] assms(3,6) show False by auto
  qed
qed

text \<open>A SKIP that arrives: everything below its target is dead, everything from it on live.\<close>

lemma receive_skip:
  assumes "layout_ok (cspec c)" "aead_ok C" "aead_nonce_ok C" "carries C c k (encodeSkipPayload v) frame" "receives c t"
    "k < tbase t + PacketWindow" "k \<notin> tdead t" "k \<noteq> tbase t" "tbase t \<notin> tdead t"
    "tbase t < v" "v \<le> tbase t + PacketWindow" "tpeer t = None \<or> tpeer t = Some addr"
  shows "\<exists>t'. receive_step C net now addr frame t = (None, t') \<and> tdead t' = {..<v} \<and> tbase t' = v \<and>
    packet_inv (precv (tsess t')) \<and> cspec (precv (tsess t')) = cspec c \<and> ckey (precv (tsess t')) = ckey c \<and>
    tpeer t' = tpeer t"
proof -
  from decodeLocked_carries [OF assms(1-7), of now] obtain s where
    d: "decodeLocked C now frame t = (case handleLossControl (encodeSkipPayload v) (t\<lparr>tsess := s, tlast_recv := now\<rparr>) of
         (True, t2) \<Rightarrow> (Inr None, t2) | (False, t2) \<Rightarrow> (Inr (Some (encodeSkipPayload v)), t2))" and
    s: "packet_dead (precv s) = insert k (tdead t)" "packet_inv (precv s)" "cspec (precv s) = cspec c"
      "ckey (precv s) = ckey c" "packet_base (precv s) \<notin> packet_dead (precv s)" by auto
  have b: "packet_base (precv s) = tbase t"
    using base_stuck [OF _ s(2,1) assms(9,8) s(5)] assms(5) by (simp add: receives_def)
  define t1 where "t1 = t\<lparr>tsess := s, tlast_recv := now\<rparr>"
  have "handleLossControl (encodeSkipPayload v) t1 = (True, t1\<lparr>tsess := s\<lparr>precv := (precv s)\<lparr>packet_base := v,
       packet_seen := replicate packetWindowWords 0\<rparr>\<rparr>\<rparr>)"
    using handle_skip [of t1 v] s(2) b assms(5,10,11) by (simp add: t1_def receives_def)
  with d have "decodeLocked C now frame t = (Inr None, t1\<lparr>tsess := s\<lparr>precv := (precv s)\<lparr>packet_base := v,
       packet_seen := replicate packetWindowWords 0\<rparr>\<rparr>\<rparr>)" by (simp add: t1_def)
  with s(2-4) assms(12) show ?thesis
    by (auto simp: receive_step_def skipped_dead packet_inv_def t1_def)
qed

text \<open>Frames beyond the window, and dead ones, leave no trace.\<close>

lemma receive_dropped:
  assumes "layout_ok (cspec c)" "aead_ok C" "aead_nonce_ok C" "carries C c q payload frame" "receives c t"
    "q < 2 ^ 64" "q \<in> tdead t \<or> tbase t + PacketWindow \<le> q"
  shows "receive_step C net now addr frame t = (None, t)"
  using decodeLocked_dead [OF assms, of now] by (auto simp: receive_step_def)

lemma receive_loop_beyond:
  assumes "layout_ok (cspec c)" "aead_ok C" "aead_nonce_ok C" "receives c t"
    "\<forall>(now, addr, frame) \<in> set arrivals. \<exists>q payload. carries C c q payload frame \<and> tbase t + PacketWindow \<le> q \<and> q < 2 ^ 64"
  shows "receive_loop C net arrivals t = (Inl ErrNet, [], t)"
  using assms(5)
proof (induction arrivals)
  case (Cons x arrivals)
  obtain now addr frame where x: "x = (now, addr, frame)" by (cases x)
  from Cons.prems x obtain q payload where q: "carries C c q payload frame" "tbase t + PacketWindow \<le> q" "q < 2 ^ 64"
    by auto
  from receive_dropped [OF assms(1-3) q(1) assms(4) q(3)] q(2)
  have "receive_step C net now addr frame t = (None, t)" by simp
  with Cons x show ?case by simp
qed simp

end
