(* ===== verification/Tunnel_Recovery.thy ===== *)
theory Tunnel_Recovery
  imports Tunnel Samples
begin

text \<open>
  Properties of the established datagram tunnel: delivery, the span of unacknowledged
  numbers, and what loss recovery by SKIP does to the receiver, its weaknesses included.
\<close>

section \<open>Sample tunnels\<close>

definition sample_tunnel :: tunnel where
  "sample_tunnel =
     NewPacketTunnel (Some ''peer'') \<lparr>pspec = sample_record, psend = sample_codec, precv = sample_codec\<rparr> 0 zeros"

lemma sample_tunnel_fields [simp]:
  "psend (tsess sample_tunnel) = sample_codec" "precv (tsess sample_tunnel) = sample_codec"
  "tpeer sample_tunnel = Some ''peer''" "tout sample_tunnel = []" "trnd sample_tunnel = zeros"
  "tpeer_base sample_tunnel = 0" "tdead sample_tunnel = {}" "tbase sample_tunnel = 0"
  by (simp_all add: sample_tunnel_def NewPacketTunnel_def)

lemma sample_receives [simp]: "receives sample_codec sample_tunnel"
  by (simp add: receives_def PacketWindow_def)

definition sample_ip :: bytes where
  "sample_ip = [0x45, 1, 2]"

lemma sample_ip_packet [simp]: "ip_packet sample_ip"
  by (simp add: sample_ip_def ip_packet_def drop_bit_eq_div)

lemma sample_carries:
  assumes "length payload \<le> 30"
  obtains frame where "carries demo_crypto sample_codec q payload frame"
proof -
  define c where "c = sample_codec\<lparr>packet_send := q, shape_buckets := [64, 96]\<rparr>"
  obtain frame c' r where e: "EncodePacket demo_crypto c payload (\<lambda>_. None) zeros = Inr (frame, c', r)"
    by (rule sample_encode [OF c_def _ assms, of demo_crypto]) auto
  have "carries demo_crypto c q payload frame"
    using EncodePacket_frame_of(1) [OF _ _ e] unfolding carries_def by (fastforce simp: c_def)
  with carries_cong [of c sample_codec] that show thesis by (simp add: c_def)
qed

lemma sample_tunnel_encode:
  assumes "length payload \<le> 30"
  obtains frame t' where "tunnel_encode demo_crypto payload sample_tunnel = (Inr frame, t')" "length frame \<le> 96"
    "tpeer_base t' = 0" "tout t' = []" "packet_send (psend (tsess t')) = 1"
proof -
  obtain frame c' r where
    e: "EncodePacket demo_crypto sample_codec payload (\<lambda>_. None) zeros = Inr (frame, c', r)" "length frame \<le> 96"
    by (rule sample_encode [OF sample_codec_updates(1) _ assms, of demo_crypto]) auto
  then have "tunnel_encode demo_crypto payload sample_tunnel =
      (Inr frame, sample_tunnel\<lparr>tsess := (tsess sample_tunnel)\<lparr>psend := c'\<rparr>, trnd := r\<rparr>)"
    by (simp add: tunnel_encode_def sess_encode_def)
  moreover have "packet_send c' = 1" using e(1) by (rule EncodePacketE) simp
  ultimately show thesis using that e(2) by simp
qed

section \<open>Properties\<close>

text \<open>
  C9. End to end through the tunnel: when sending an IP packet succeeds, the first frame put
  on the socket makes a peer that has the matching receive direction deliver exactly this packet to
  its caller, provided that the frame's number is one the peer has not seen, is less than the window (8192)
  above the peer's base, and the peer either takes frames from any address or is locked to the one the frame comes from. IP packets
  are never mistaken for control payloads.
\<close>

theorem tunnel_delivers:
  assumes "layout_ok (cspec (psend (tsess a)))" "aead_ok C" "aead_nonce_ok C" "ip_packet pkt"
    "SendPacket C net now pkt a = (Inr (), a')"
    "receives (psend (tsess a)) b" "packet_send (psend (tsess a)) \<notin> tdead b"
    "packet_send (psend (tsess a)) < tbase b + PacketWindow" "tpeer b = None \<or> tpeer b = Some addr"
  shows "\<exists>frame rest b'. tout a' = tout a @ frame # rest \<and>
    receive_step C net' now' addr frame b = (Some pkt, b') \<and> tlast_recv b' = now'"
proof -
  from assms(5) obtain a1 where s: "sendPayload C net now pkt a = (Inr (), a1)" and
    a': "a' = a1\<lparr>tbytes_sent := w64 (tbytes_sent a1 + length pkt)\<rparr>"
    by (auto simp: SendPacket_def split: prod.splits sum.splits)
  from s obtain frame t1 where e: "tunnel_encode C pkt a = (Inr frame, t1)" and
    a1: "a1 = maybeSendLossControl C net (t1\<lparr>tout := tout t1 @ [frame], tlast_send := now\<rparr>)"
    by (rule sendPayload_Inr)
  note E = tunnel_encode_carries [OF assms(1,2) e]
  from maybeSendLossControl_out [of C net "t1\<lparr>tout := tout t1 @ [frame], tlast_send := now\<rparr>"] E(2)
  obtain rest where "tout a' = tout a @ frame # rest" by (auto simp: a' a1)
  moreover from receive_data [OF assms(1-3) E(1) assms(6,8,7,4,9)] obtain b' where
    "receive_step C net' now' addr frame b = (Some pkt, b')" "tlast_recv b' = now'" by blast
  ultimately show ?thesis by blast
qed

theorem tunnel_delivers_witness:
  "\<exists>a' frame rest b'. SendPacket demo_crypto (\<lambda>_. True) 5 sample_ip sample_tunnel = (Inr (), a') \<and>
     tout a' = frame # rest \<and> receive_step demo_crypto (\<lambda>_. True) 6 ''peer'' frame sample_tunnel = (Some sample_ip, b')"
proof -
  obtain frame t' where
    e: "tunnel_encode demo_crypto sample_ip sample_tunnel = (Inr frame, t')" "length frame \<le> 96"
    by (rule sample_tunnel_encode [of sample_ip]) (auto simp: sample_ip_def)
  then obtain a' where s: "SendPacket demo_crypto (\<lambda>_. True) 5 sample_ip sample_tunnel = (Inr (), a')"
    by (auto simp: SendPacket_def sendPayload_def writeDatagram_def maxDatagram_def)
  from tunnel_delivers [OF _ _ _ _ s, of sample_tunnel "''peer''" "\<lambda>_. True" 6] s show ?thesis
    by (fastforce simp: PacketWindow_def)
qed

text \<open>
  C10. The sender's span of numbers the peer has not acknowledged: as long as encoding and
  the network succeed, it stays below three quarters of the receive window across any payload that is sent.
  A payload that leaves the span below that bound puts its own frame on the socket and nothing else. One that
  would reach it puts a second frame after its own, a SKIP to the number of that frame, and only then counts
  everything below as acknowledged; and a receiver in whose window that frame falls moves its base there.
\<close>

theorem span_stays_bounded:
  assumes "span_ok t" "layout_ok (cspec (psend (tsess t)))" "aead_ok C" "aead_nonce_ok C"
    "\<forall>frame. length frame \<le> maxDatagram \<longrightarrow> net frame"
    "sendPayload C net now payload t = (Inr (), t')" "packet_send (psend (tsess t)) + 2 < 2 ^ 64"
    "sent = packet_send (psend (tsess t)) + 1"
    "\<forall>frame t1. tunnel_encode C payload t = (Inr frame, t1) \<and> skipSpan \<le> sent - tpeer_base t \<longrightarrow>
       (\<exists>skip t2. tunnel_encode C (encodeSkipPayload sent) t1 = (Inr skip, t2) \<and> length skip \<le> maxDatagram)"
  shows "span_ok t' \<and>
    (\<exists>frame. carries C (psend (tsess t)) (sent - 1) payload frame \<and>
      (if sent - tpeer_base t < skipSpan then tout t' = tout t @ [frame] \<and> tpeer_base t' = tpeer_base t
       else \<exists>skip. tout t' = tout t @ [frame, skip] \<and> tpeer_base t' = sent \<and>
         carries C (psend (tsess t)) sent (encodeSkipPayload sent) skip \<and>
         (\<forall>b addr net' now'. receives (psend (tsess t)) b \<and> tbase b \<notin> tdead b \<and> sent \<notin> tdead b \<and>
            tbase b < sent \<and> sent < tbase b + PacketWindow \<and> tpeer b \<in> {None, Some addr} \<longrightarrow>
            (\<exists>b'. receive_step C net' now' addr skip b = (None, b') \<and> tbase b' = sent))))"
proof -
  from assms(6) obtain frame t1 where e: "tunnel_encode C payload t = (Inr frame, t1)" and
    t': "t' = maybeSendLossControl C net (t1\<lparr>tout := tout t1 @ [frame], tlast_send := now\<rparr>)"
    by (rule sendPayload_Inr)
  from e obtain s rnd where "sess_encode C (tsess t) payload (trnd t) = Inr (frame, s, rnd)"
    "t1 = t\<lparr>tsess := s, trnd := rnd\<rparr>" by (auto simp: tunnel_encode_def split: sum.splits)
  with sess_encode_frame have cs: "cspec (psend (tsess t1)) = cspec (psend (tsess t))" "ckey (psend (tsess t1)) = ckey (psend (tsess t))"
    by simp_all
  note E = tunnel_encode_carries [OF assms(2,3) e]
  define u where "u = t1\<lparr>tout := tout t1 @ [frame], tlast_send := now\<rparr>"
  have u: "tsess u = tsess t1" "tpeer_base u = tpeer_base t" "trnd u = trnd t1" "tout u = tout t @ [frame]"
    by (simp_all add: u_def E)
  have sent: "sent = packet_send (psend (tsess u))" "sent + 1 < 2 ^ 64" using E(4) assms(7,8) by (simp_all add: u)
  have frame: "carries C (psend (tsess t)) (sent - 1) payload frame" using E(1) assms(8) by simp
  have skip: "\<exists>skip t2. tunnel_encode C (encodeSkipPayload sent) u = (Inr skip, t2) \<and> length skip \<le> maxDatagram \<and> net skip"
    if "skipSpan \<le> sent - tpeer_base u"
  proof -
    from that assms(9) e u(2) obtain skip t2 where
      "tunnel_encode C (encodeSkipPayload sent) t1 = (Inr skip, t2)" "length skip \<le> maxDatagram" by auto
    moreover from this(1) have "\<exists>t3. tunnel_encode C (encodeSkipPayload sent) u = (Inr skip, t3)"
      by (auto simp: tunnel_encode_def u split: sum.splits)
    ultimately show ?thesis using assms(5) by blast
  qed
  have pre: "packet_mode (psend (tsess u))" "tpeer_base u \<le> packet_send (psend (tsess u))"
    "packet_send (psend (tsess u)) + 1 < 2 ^ 64" "layout_ok (cspec (psend (tsess u)))"
    using assms(1,2,8) E(5) cs sent by (simp_all add: span_ok_def u)
  show ?thesis
  proof (rule maybeSendLossControl_cases [OF pre assms(3) sent(1) skip])
    assume below: "sent - tpeer_base u < skipSpan" "maybeSendLossControl C net u = u"
    then have "span_ok t'" "tout t' = tout t @ [frame]" "tpeer_base t' = tpeer_base t"
      using pre(1,2) sent(1) u by (simp_all add: t' u_def [symmetric] span_ok_def)
    with below(1) frame u(2) show ?thesis by auto
  next
    fix skip t2
    assume skipped: "skipSpan \<le> sent - tpeer_base u" "tunnel_encode C (encodeSkipPayload sent) u = (Inr skip, t2)"
      "maybeSendLossControl C net u = t2\<lparr>tout := tout u @ [skip], tpeer_base := sent\<rparr>"
      "carries C (psend (tsess u)) sent (encodeSkipPayload sent) skip"
      "packet_mode (psend (tsess t2))" "packet_send (psend (tsess t2)) = sent + 1"
    then have r: "span_ok t'" "tout t' = tout t @ [frame, skip]" "tpeer_base t' = sent"
      using u by (simp_all add: t' u_def [symmetric] span_ok_def skipSpan_def PacketWindow_def)
    have k: "carries C (psend (tsess t)) sent (encodeSkipPayload sent) skip"
      using skipped(4) carries_cong [of "psend (tsess t1)" "psend (tsess t)"] cs u(1) by simp
    have "\<exists>b'. receive_step C net' now' addr skip b = (None, b') \<and> tbase b' = sent"
      if "receives (psend (tsess t)) b" "tbase b \<notin> tdead b" "sent \<notin> tdead b" "tbase b < sent" "sent < tbase b + PacketWindow"
        "tpeer b \<in> {None, Some addr}" for b addr net' now'
      using receive_skip [OF assms(2-4) k that(1) that(5,3) _ that(2,4), of addr net' now'] that(4-6) by fastforce
    with r k frame skipped(1) u(2) show ?thesis by auto
  qed
qed

text \<open>A tunnel one payload short of the span: sending adds the SKIP.\<close>

definition late_tunnel :: tunnel where
  "late_tunnel = sample_tunnel\<lparr>tsess := (tsess sample_tunnel)\<lparr>psend := sample_codec\<lparr>packet_send := 6143\<rparr>\<rparr>\<rparr>"

theorem span_stays_bounded_witness:
  "\<exists>t' frame skip b'. sendPayload demo_crypto (\<lambda>_. True) 5 sample_ip late_tunnel = (Inr (), t') \<and> span_ok t' \<and>
     tout t' = [frame, skip] \<and> tpeer_base t' = 6144 \<and>
     receive_step demo_crypto (\<lambda>_. True) 6 ''peer'' skip sample_tunnel = (None, b') \<and> tbase b' = 6144"
proof -
  let ?c = "\<lambda>q. sample_codec\<lparr>packet_send := q, shape_buckets := [64, 96]\<rparr>"
  have send: "psend (tsess late_tunnel) = ?c 6143" "trnd late_tunnel = zeros"
    by (simp_all add: late_tunnel_def sample_codec_def)
  obtain frame c1 r where f: "EncodePacket demo_crypto (?c 6143) sample_ip (\<lambda>_. None) zeros = Inr (frame, c1, r)" "length frame \<le> 96" "200 \<le> length r"
    by (rule sample_encode [OF refl, of "[64, 96]" sample_ip demo_crypto 6143]) (auto simp: sample_ip_def)
  have c1: "c1 = ?c 6144" using f(1) by (rule EncodePacketE) simp
  define t1 where "t1 = late_tunnel\<lparr>tsess := (tsess late_tunnel)\<lparr>psend := ?c 6144\<rparr>, trnd := r\<rparr>"
  have e: "tunnel_encode demo_crypto sample_ip late_tunnel = (Inr frame, t1)"
    using f(1) by (simp add: tunnel_encode_def sess_encode_def send c1 t1_def)
  obtain skip c2 r2 where k: "EncodePacket demo_crypto (?c 6144) (encodeSkipPayload 6144) (\<lambda>_. None) r = Inr (skip, c2, r2)" "length skip \<le> 96"
    by (rule sample_encode_from [OF refl, of "[64, 96]" "encodeSkipPayload 6144" r demo_crypto 6144])
      (use f(3) in \<open>auto simp: encodeSkipPayload_def\<close>)
  then have e2: "\<exists>t2. tunnel_encode demo_crypto (encodeSkipPayload 6144) t1 = (Inr skip, t2)"
    by (simp add: tunnel_encode_def sess_encode_def t1_def)
  obtain t' where s: "sendPayload demo_crypto (\<lambda>_. True) 5 sample_ip late_tunnel = (Inr (), t')"
    using e f(2) by (auto simp: sendPayload_def writeDatagram_def maxDatagram_def)
  have ok: "span_ok late_tunnel" by (simp add: late_tunnel_def span_ok_def skipSpan_def PacketWindow_def)
  have "receives (psend (tsess late_tunnel)) sample_tunnel" using sample_receives by (simp add: receives_def send)
  then have rb: "receives (psend (tsess late_tunnel)) sample_tunnel \<and> tbase sample_tunnel \<notin> tdead sample_tunnel \<and>
      6144 \<notin> tdead sample_tunnel \<and> tbase sample_tunnel < 6144 \<and> 6144 < tbase sample_tunnel + PacketWindow \<and>
      tpeer sample_tunnel \<in> {None, Some ''peer''}" by (simp add: PacketWindow_def)
  have late: "tpeer_base late_tunnel = 0" "tout late_tunnel = []" "\<not> 6144 - tpeer_base late_tunnel < skipSpan"
    by (simp_all add: late_tunnel_def skipSpan_def PacketWindow_def)
  have lay: "layout_ok (cspec (psend (tsess late_tunnel)))" by (simp add: send)
  have num: "packet_send (psend (tsess late_tunnel)) + 2 < 2 ^ 64" "6144 = packet_send (psend (tsess late_tunnel)) + 1"
    by (simp_all add: send)
  have enc: "\<forall>frame t1. tunnel_encode demo_crypto sample_ip late_tunnel = (Inr frame, t1) \<and> skipSpan \<le> 6144 - tpeer_base late_tunnel \<longrightarrow>
      (\<exists>skip t2. tunnel_encode demo_crypto (encodeSkipPayload 6144) t1 = (Inr skip, t2) \<and> length skip \<le> maxDatagram)"
  proof (intro allI impI)
    fix f t assume "tunnel_encode demo_crypto sample_ip late_tunnel = (Inr f, t) \<and> skipSpan \<le> 6144 - tpeer_base late_tunnel"
    then have "t = t1" using e by simp
    moreover have "length skip \<le> maxDatagram" using k(2) by (simp add: maxDatagram_def)
    ultimately show "\<exists>skip t2. tunnel_encode demo_crypto (encodeSkipPayload 6144) t = (Inr skip, t2) \<and> length skip \<le> maxDatagram"
      using e2 by blast
  qed
  have "\<forall>frame. length frame \<le> maxDatagram \<longrightarrow> (\<lambda>_. True) frame" by simp
  note R = span_stays_bounded [OF ok lay demo_aead_ok demo_aead_nonce_ok this s num enc, unfolded if_not_P [OF late(3)]]
  from R [THEN conjunct2] obtain frame' skip' where out: "tout t' = tout late_tunnel @ [frame', skip']" "tpeer_base t' = 6144" and
    rcv: "\<forall>b addr net' now'. receives (psend (tsess late_tunnel)) b \<and> tbase b \<notin> tdead b \<and> 6144 \<notin> tdead b \<and>
      tbase b < 6144 \<and> 6144 < tbase b + PacketWindow \<and> tpeer b \<in> {None, Some addr} \<longrightarrow>
      (\<exists>b'. receive_step demo_crypto net' now' addr skip' b = (None, b') \<and> tbase b' = 6144)" by (elim exE conjE)
  from rcv [rule_format, OF rb] obtain b' where
    "receive_step demo_crypto (\<lambda>_. True) 6 ''peer'' skip' sample_tunnel = (None, b')" "tbase b' = 6144" by blast
  moreover from R [THEN conjunct1] have "span_ok t'" .
  moreover have "tout t' = [frame', skip']" using out(1) late(2) by simp
  ultimately show ?thesis using s out(2) by blast
qed

text \<open>
  SKIP reopens the window above its target: a data frame with a number at or above the
  target that was received before a SKIP arrived is delivered a second time when a copy of it
  arrives after the SKIP; the SKIP itself is accepted like any live frame and puts the base
  on its target.
\<close>

theorem skip_reopens_window:
  assumes "layout_ok (cspec c)" "aead_ok C" "aead_nonce_ok C" "receives c t" "tbase t + 2 * PacketWindow < 2 ^ 64"
    "carries C c q pkt frame" "carries C c k (encodeSkipPayload v) skip" "ip_packet pkt"
    "tbase t \<notin> tdead t" "q \<notin> tdead t" "k \<notin> tdead t" "tbase t < k" "k \<noteq> q" "tbase t < v" "v \<le> q"
    "q < tbase t + PacketWindow" "k < tbase t + PacketWindow" "tpeer t = None \<or> tpeer t = Some addr"
  shows "\<exists>t1 t2 t3. receive_step C net now addr frame t = (Some pkt, t1) \<and>
    receive_step C net now addr skip t1 = (None, t2) \<and> tbase t2 = v \<and>
    receive_step C net now addr frame t2 = (Some pkt, t3)"
proof -
  from receive_data [OF assms(1-3,6,4,16,10,8,18)] obtain t1 where
    r1: "receive_step C net now addr frame t = (Some pkt, t1)" "tdead t1 = insert q (tdead t)"
      "packet_inv (precv (tsess t1))" "cspec (precv (tsess t1)) = cspec c" "ckey (precv (tsess t1)) = ckey c"
      "tpeer t1 = tpeer t" "tbase t1 \<notin> tdead t1" by blast
  have b1: "tbase t1 = tbase t"
    using base_stuck [OF _ r1(3,2) assms(9) _ r1(7)] assms(4,14,15) by (auto simp: receives_def)
  have rc1: "receives c t1" using r1 assms(4) b1 by (simp add: receives_def)
  have "k < tbase t1 + PacketWindow" "k \<notin> tdead t1" "k \<noteq> tbase t1" "tbase t1 < v" "v \<le> tbase t1 + PacketWindow"
    using assms b1 r1(2) by auto
  moreover have "tpeer t1 = None \<or> tpeer t1 = Some addr" using assms(18) r1(6) by simp
  ultimately obtain t2 where
    r2: "receive_step C net now addr skip t1 = (None, t2)" "tdead t2 = {..<v}" "tbase t2 = v"
      "packet_inv (precv (tsess t2))" "cspec (precv (tsess t2)) = cspec c" "ckey (precv (tsess t2)) = ckey c"
      "tpeer t2 = tpeer t"
    using receive_skip [OF assms(1-3,7) rc1 _ _ _ r1(7), where addr = addr and net = net and now = now] r1(6) by auto
  have "receives c t2" "q < tbase t2 + PacketWindow" "q \<notin> tdead t2" "tpeer t2 = None \<or> tpeer t2 = Some addr"
    using r2 assms by (auto simp: receives_def)
  from receive_data [OF assms(1-3,6) this(1-3) assms(8) this(4)] r1(1) r2(1,3) show ?thesis by blast
qed

theorem skip_reopens_window_witness:
  "\<exists>frame skip t1 t2 t3. receive_step demo_crypto (\<lambda>_. True) 1 ''peer'' frame sample_tunnel = (Some sample_ip, t1) \<and>
     receive_step demo_crypto (\<lambda>_. True) 1 ''peer'' skip t1 = (None, t2) \<and> tbase t2 = 3 \<and>
     receive_step demo_crypto (\<lambda>_. True) 1 ''peer'' frame t2 = (Some sample_ip, t3)"
proof -
  obtain frame where f: "carries demo_crypto sample_codec 4 sample_ip frame"
    by (rule sample_carries [of sample_ip]) (auto simp: sample_ip_def)
  obtain skip where k: "carries demo_crypto sample_codec 3 (encodeSkipPayload 3) skip"
    by (rule sample_carries [of "encodeSkipPayload 3"]) (auto simp: encodeSkipPayload_def)
  from skip_reopens_window [OF _ _ _ sample_receives _ f k, of "''peer''" "\<lambda>_. True" 1]
  show ?thesis by (fastforce simp: PacketWindow_def)
qed

text \<open>
  A lost SKIP is fatal: while the number at the receiver's base is outstanding, all
  frames numbered a whole window or more above the base are dropped and leave no trace, SKIPs
  included; and the sender, which counts its SKIP as acknowledged, sends the next one only
  after another three quarters of a window, one and a half windows above that base.
\<close>

theorem lost_skip_is_fatal:
  assumes "layout_ok (cspec c)" "aead_ok C" "aead_nonce_ok C" "receives c b"
    "\<forall>(now, addr, frame) \<in> set arrivals.
       \<exists>q payload. carries C c q payload frame \<and> tbase b + PacketWindow \<le> q \<and> q < 2 ^ 64"
    "tbase b + skipSpan \<le> tpeer_base a" "packet_mode (psend (tsess a))"
  shows "receive_loop C net arrivals b = (Inl ErrNet, [], b) \<and>
    (maybeSendLossControl C net' a \<noteq> a \<longrightarrow> tbase b + PacketWindow \<le> packet_send (psend (tsess a)))"
proof
  show "receive_loop C net arrivals b = (Inl ErrNet, [], b)" by (rule receive_loop_beyond [OF assms(1-5)])
  show "maybeSendLossControl C net' a \<noteq> a \<longrightarrow> tbase b + PacketWindow \<le> packet_send (psend (tsess a))"
    using assms(6,7)
    by (auto simp: maybeSendLossControl_def Let_def AckState_def PacketSent_def unackedSpan_def skipSpan_def
        PacketWindow_def split: if_splits)
qed

theorem lost_skip_is_fatal_witness:
  "\<exists>skip. carries demo_crypto sample_codec 12288 (encodeSkipPayload 12288) skip \<and>
     receive_loop demo_crypto (\<lambda>_. True) [(0, ''peer'', skip)] sample_tunnel = (Inl ErrNet, [], sample_tunnel)"
proof -
  obtain skip where k: "carries demo_crypto sample_codec 12288 (encodeSkipPayload 12288) skip"
    by (rule sample_carries [of "encodeSkipPayload 12288"]) (auto simp: encodeSkipPayload_def)
  have "\<forall>(now, addr, frame) \<in> set [(0, ''peer'', skip)].
      \<exists>q payload. carries demo_crypto sample_codec q payload frame \<and> tbase sample_tunnel + PacketWindow \<le> q \<and> q < 2 ^ 64"
    using k by (auto simp: PacketWindow_def intro!: exI [of _ 12288])
  from lost_skip_is_fatal [OF _ _ _ sample_receives this, of "sample_tunnel\<lparr>tpeer_base := 6144\<rparr>" "\<lambda>_. True" "\<lambda>_. True"] k
  show ?thesis by (auto simp: skipSpan_def PacketWindow_def)
qed

end
