(* ===== verification/Tunnel_Handshake.thy ===== *)
theory Tunnel_Handshake
  imports Tunnel
begin

text \<open>
  The handshake of one endpoint over an unreliable datagram socket (\<open>runHandshake\<close> and
  \<open>waitAuthenticatedKnock\<close> of \<open>internal/tunnel/tunnel.go\<close>): its own turns, the knock,
  retransmission with exponential backoff, the silent drop of everything that does not
  authenticate. What the socket delivers is a list of read events; when they end, the
  endpoint is still waiting.
\<close>

section \<open>Events and state\<close>

datatype read_event =
    Got int string bytes     \<comment> \<open>a datagram at a time from an address\<close>
  | Expired                  \<comment> \<open>the read deadline passed\<close>
  | Failed                   \<comment> \<open>any other read error\<close>

record hs_run =
  run_h :: handshake_state
  run_peer :: "string option"
  run_last :: "bytes option"
  run_sent :: bool
  run_out :: "bytes list"
  run_rnd :: reader

datatype outcome = Waiting | Finished | Aborted error

definition handshakeTimeout :: int where
  "handshakeTimeout = 8000000000"

definition retransmitBase :: int where
  "retransmitBase = 200000000"

definition maxRetransmit :: int where
  "maxRetransmit = 2000000000"

definition backoff :: "int \<Rightarrow> int" where
  "backoff wait = (if maxRetransmit < wait * 2 then maxRetransmit else wait * 2)"

definition run_write :: "crypto \<Rightarrow> bytes \<Rightarrow> (bytes \<Rightarrow> bool) \<Rightarrow> bytes \<Rightarrow> hs_run \<Rightarrow> hs_run res" where
  "run_write C mark net frame r =
     (let (wire, rnd) = WrapDatagram C mark (Some (run_h r)) frame (run_rnd r) in
      if maxDatagram < length wire then Inl ErrTooLarge
      else if net wire then Inr (r\<lparr>run_out := run_out r @ [wire], run_rnd := rnd\<rparr>)
      else Inl ErrNet)"

section \<open>Waiting\<close>

text \<open>The result carries the time of the last event and the events that are left.\<close>

fun waitAuthenticatedKnock ::
  "crypto \<Rightarrow> handshake_state \<Rightarrow> int \<Rightarrow> int \<Rightarrow> read_event list \<Rightarrow>
     (string \<times> int \<times> read_event list) res option" where
  "waitAuthenticatedKnock C h deadline now [] = (if deadline - now \<le> 0 then Some (Inl ErrTimeout) else None)"
| "waitAuthenticatedKnock C h deadline now (ev # evs) =
     (if deadline - now \<le> 0 then Some (Inl ErrTimeout)
      else case ev of
             Expired \<Rightarrow> Some (Inl ErrTimeout)
           | Failed \<Rightarrow> Some (Inl ErrNet)
           | Got t addr buf \<Rightarrow>
               (case UnwrapDatagram C (Some h) (take maxDatagram buf) of
                  Inl _ \<Rightarrow> waitAuthenticatedKnock C h deadline t evs
                | Inr inner \<Rightarrow>
                    if VerifyKnock C (hpsk h) inner then Some (Inr (addr, t, evs))
                    else waitAuthenticatedKnock C h deadline t evs))"

text \<open>
  The receive loop of one incoming step. A read deadline that expires does so \<open>wait\<close> after
  the loop's last look at the clock.
\<close>

fun await_step ::
  "crypto \<Rightarrow> bytes \<Rightarrow> (bytes \<Rightarrow> bool) \<Rightarrow> int \<Rightarrow> int \<Rightarrow> int \<Rightarrow> read_event list \<Rightarrow> hs_run \<Rightarrow>
     outcome \<times> int \<times> read_event list \<times> hs_run" where
  "await_step C mark net deadline wait now [] r =
     (if deadline \<le> now then (Aborted ErrTimeout, now, [], r) else (Waiting, now, [], r))"
| "await_step C mark net deadline wait now (ev # evs) r =
     (if deadline \<le> now then (Aborted ErrTimeout, now, ev # evs, r)
      else case ev of
             Failed \<Rightarrow> (Aborted ErrNet, now, evs, r)
           | Expired \<Rightarrow>
               (case (run_last r, run_peer r) of
                  (Some frame, Some peer) \<Rightarrow>
                    (case run_write C mark net frame r of
                       Inl e \<Rightarrow> (Aborted e, now + wait, evs, r)
                     | Inr r' \<Rightarrow> await_step C mark net deadline (backoff wait) (now + wait) evs r')
                | _ \<Rightarrow> await_step C mark net deadline (backoff wait) (now + wait) evs r)
           | Got t addr buf \<Rightarrow>
               if run_peer r \<noteq> None \<and> run_peer r \<noteq> Some addr
               then await_step C mark net deadline wait t evs r
               else case UnwrapDatagram C (Some (run_h r)) (take maxDatagram buf) of
                      Inl _ \<Rightarrow> await_step C mark net deadline wait t evs r
                    | Inr inner \<Rightarrow>
                        (case RecvStep C (run_h r) inner of
                           (Inl _, h) \<Rightarrow> await_step C mark net deadline wait t evs (r\<lparr>run_h := h\<rparr>)
                         | (Inr _, h) \<Rightarrow>
                             (Finished, t, evs,
                              r\<lparr>run_h := h, run_peer := (case run_peer r of None \<Rightarrow> Some addr | Some p \<Rightarrow> Some p)\<rparr>)))"

section \<open>Turns\<close>

definition send_turn ::
  "crypto \<Rightarrow> bytes \<Rightarrow> (bytes \<Rightarrow> bool) \<Rightarrow> hs_run \<Rightarrow> hs_run res" where
  "send_turn C mark net r =
     res_bind (EncodeStep C (run_h r) (run_rnd r)) (\<lambda>(frame, segments, h, rnd).
     res_bind (run_write C mark net frame (r\<lparr>run_h := h, run_rnd := rnd, run_last := Some frame\<rparr>)) (\<lambda>r'.
       Inr (r'\<lparr>run_sent := True\<rparr>)))"

definition knock_turn ::
  "crypto \<Rightarrow> bytes \<Rightarrow> (bytes \<Rightarrow> bool) \<Rightarrow> hs_run \<Rightarrow> hs_run res" where
  "knock_turn C mark net r =
     res_bind (encodeKnock C (hpsk (run_h r)) (run_rnd r)) (\<lambda>(knock, rnd).
     res_bind (run_write C mark net knock (r\<lparr>run_rnd := rnd, run_last := Some knock\<rparr>)) (\<lambda>r'.
       Inr (r'\<lparr>run_sent := True\<rparr>)))"

text \<open>
  Every turn of the outer loop advances the handshake by a step or ends it, so its fuel is
  the number of steps left plus one.
\<close>

fun run_turns ::
  "crypto \<Rightarrow> bytes \<Rightarrow> (bytes \<Rightarrow> bool) \<Rightarrow> bool \<Rightarrow> int \<Rightarrow> nat \<Rightarrow> int \<Rightarrow> read_event list \<Rightarrow> hs_run \<Rightarrow>
     outcome \<times> hs_run" where
  "run_turns C mark net client timeout 0 now evs r = (Waiting, r)"
| "run_turns C mark net client timeout (Suc fuel) now evs r =
     (case CurrentSpec (run_h r) of
        Inl e \<Rightarrow> (case run_peer r of None \<Rightarrow> (Aborted ErrPeer, r) | Some _ \<Rightarrow> (Finished, r))
      | Inr spec \<Rightarrow>
          if mdirection spec = hrole (run_h r) then
            (case (case run_peer r of
                     Some _ \<Rightarrow> Some (Inr (r, now, evs))
                   | None \<Rightarrow> map_option (\<lambda>k. res_bind k (\<lambda>(addr, t, evs'). Inr (r\<lparr>run_peer := Some addr\<rparr>, t, evs')))
                       (waitAuthenticatedKnock C (run_h r) (now + timeout) now evs)) of
               None \<Rightarrow> (Waiting, r)
             | Some (Inl e) \<Rightarrow> (Aborted e, r)
             | Some (Inr (r1, now1, evs1)) \<Rightarrow>
                 (case send_turn C mark net r1 of
                    Inl e \<Rightarrow> (Aborted e, r1)
                  | Inr r2 \<Rightarrow> run_turns C mark net client timeout fuel now1 evs1 r2))
          else
            (case (if client \<and> \<not> run_sent r then knock_turn C mark net r else Inr r) of
               Inl e \<Rightarrow> (Aborted e, r)
             | Inr r1 \<Rightarrow>
                 (case await_step C mark net (now + timeout) retransmitBase now evs r1 of
                    (Finished, now1, evs1, r2) \<Rightarrow> run_turns C mark net client timeout fuel now1 evs1 r2
                  | (out, now1, evs1, r2) \<Rightarrow> (out, r2))))"

definition runHandshake ::
  "crypto \<Rightarrow> bytes \<Rightarrow> (bytes \<Rightarrow> bool) \<Rightarrow> handshake_state \<Rightarrow> string option \<Rightarrow> bool \<Rightarrow> int \<Rightarrow> int \<Rightarrow>
     read_event list \<Rightarrow> reader \<Rightarrow> outcome \<times> hs_run" where
  "runHandshake C mark net h peer client timeout now evs rnd =
     run_turns C mark net client timeout (Suc (length (hcodecs h) - hidx h)) now evs
       \<lparr>run_h = h, run_peer = peer, run_last = None, run_sent = False, run_out = [], run_rnd = rnd\<rparr>"

end
