(* ===== verification/Tunnel_Liveness.thy ===== *)
theory Tunnel_Liveness
  imports Tunnel_Handshake Samples
begin

text \<open>
  Properties of the handshake over an unreliable socket: silence towards probes, the
  retransmission schedule of an endpoint whose peer does not answer, and progress once the
  awaited datagram arrives among any others.
\<close>

section \<open>Lemmas\<close>

text \<open>An event that an endpoint with a given state ignores.\<close>

definition ignored :: "crypto \<Rightarrow> handshake_state \<Rightarrow> read_event \<Rightarrow> bool" where
  "ignored C h ev \<longleftrightarrow>
     (case ev of
        Got t addr buf \<Rightarrow>
          (case UnwrapDatagram C (Some h) (take maxDatagram buf) of
             Inl _ \<Rightarrow> True
           | Inr inner \<Rightarrow> \<not> VerifyKnock C (hpsk h) inner \<and> (\<exists>e. RecvStep C h inner = (Inl e, h)))
      | Expired \<Rightarrow> True
      | Failed \<Rightarrow> True)"

lemma waitAuthenticatedKnock_ignored:
  assumes "\<forall>ev \<in> set evs. ignored C h ev"
  shows "waitAuthenticatedKnock C h deadline now evs \<in> {None, Some (Inl ErrTimeout), Some (Inl ErrNet)}"
  using assms
proof (induction evs arbitrary: now)
  case (Cons ev evs)
  from Cons.IH Cons.prems have IH:
    "waitAuthenticatedKnock C h deadline t evs \<in> {None, Some (Inl ErrTimeout), Some (Inl ErrNet)}" for t by simp
  show ?case
  proof (cases ev)
    case (Got t addr buf)
    with Cons.prems IH [of t] show ?thesis
      by (cases "UnwrapDatagram C (Some h) (take maxDatagram buf)") (simp_all add: ignored_def)
  qed simp_all
qed simp

lemma await_step_ignored:
  assumes "\<forall>ev \<in> set evs. ignored C (run_h r) ev" "run_peer r = None"
  shows "\<exists>out now' evs'. await_step C mark net deadline wait now evs r = (out, now', evs', r) \<and> out \<noteq> Finished"
  using assms(1)
proof (induction evs arbitrary: now wait)
  case (Cons ev evs)
  from Cons.IH Cons.prems have IH:
    "\<exists>out now' evs'. await_step C mark net deadline w t evs r = (out, now', evs', r) \<and> out \<noteq> Finished" for w t by simp
  show ?case
  proof (cases ev)
    case (Got t addr buf)
    have same: "r\<lparr>run_h := run_h r\<rparr> = r" by simp
    from Got Cons.prems IH [of wait t] assms(2) same show ?thesis
      by (cases "UnwrapDatagram C (Some (run_h r)) (take maxDatagram buf)") (auto simp: ignored_def)
  next
    case Expired
    with IH assms(2) show ?thesis by (auto split: option.split)
  qed simp
qed simp

lemma WrapDatagram_length:
  assumes "visible mark"
  shows "length (fst (WrapDatagram C mark (Some h) frame rnd)) \<le> 956 + length frame"
  using wrap_length [OF assms, of C "Some (cgenome (hcp h))" frame rnd] CoverLen_bounds(2) [of C "Some (cgenome (hcp h))"]
    handshakePadTarget_bounds(2) [of C "Some (cgenome (hcp h))"]
  by (auto simp: WrapDatagram_def Let_def HandshakeMinWire_def CoverLenMax_def split: if_splits)

lemma run_write_ok:
  assumes "visible mark" "length frame \<le> 60000" "\<forall>wire. net wire"
  obtains rnd where "run_write C mark net frame r =
    Inr (r\<lparr>run_out := run_out r @ [fst (WrapDatagram C mark (Some (run_h r)) frame (run_rnd r))], run_rnd := rnd\<rparr>)"
proof -
  have "length (fst (WrapDatagram C mark (Some (run_h r)) frame (run_rnd r))) \<le> maxDatagram"
    using WrapDatagram_length [OF assms(1), of C "run_h r" frame "run_rnd r"] assms(2) by (simp add: maxDatagram_def)
  with that assms(3) show thesis
    by (simp add: run_write_def case_prod_beta not_less)
qed

text \<open>The time that passes while a number of read deadlines expire, and the waits between them.\<close>

fun elapsed :: "nat \<Rightarrow> int \<Rightarrow> int" where
  "elapsed 0 wait = 0"
| "elapsed (Suc n) wait = wait + elapsed n (backoff wait)"

lemma await_step_expired:
  assumes "visible mark" "length frame \<le> 60000" "\<forall>wire. net wire" "run_last r = Some frame" "run_peer r = Some peer"
    "\<forall>m < n. now + elapsed m wait < deadline"
  shows "\<exists>outs rnd w. await_step C mark net deadline wait now (replicate n Expired @ evs) r =
      await_step C mark net deadline w (now + elapsed n wait) evs (r\<lparr>run_out := run_out r @ outs, run_rnd := rnd\<rparr>) \<and>
    length outs = n \<and> (\<forall>x \<in> set outs. \<exists>rnd. x = fst (WrapDatagram C mark (Some (run_h r)) frame rnd))"
  using assms(4-6)
proof (induction n arbitrary: r now wait)
  case 0
  show ?case by (intro exI [of _ "[]"] exI [of _ "run_rnd r"] exI [of _ wait]) simp
next
  case (Suc n)
  obtain rnd where w: "run_write C mark net frame r =
    Inr (r\<lparr>run_out := run_out r @ [fst (WrapDatagram C mark (Some (run_h r)) frame (run_rnd r))], run_rnd := rnd\<rparr>)"
    by (rule run_write_ok [OF assms(1-3)])
  define r1 where "r1 = r\<lparr>run_out := run_out r @ [fst (WrapDatagram C mark (Some (run_h r)) frame (run_rnd r))], run_rnd := rnd\<rparr>"
  have "now < deadline" using Suc.prems(3) by force
  then have step: "await_step C mark net deadline wait now (replicate (Suc n) Expired @ evs) r =
      await_step C mark net deadline (backoff wait) (now + wait) (replicate n Expired @ evs) r1"
    using Suc.prems(1,2) w by (simp add: r1_def)
  have "\<forall>m < n. now + wait + elapsed m (backoff wait) < deadline"
    using Suc.prems(3) by (metis Suc_less_eq add.assoc elapsed.simps(2))
  from Suc.IH [OF _ _ this, of r1] Suc.prems(1,2) obtain outs rnd' w' where I:
    "await_step C mark net deadline (backoff wait) (now + wait) (replicate n Expired @ evs) r1 =
      await_step C mark net deadline w' (now + wait + elapsed n (backoff wait)) evs
        (r1\<lparr>run_out := run_out r1 @ outs, run_rnd := rnd'\<rparr>)"
    "length outs = n" "\<forall>x \<in> set outs. \<exists>rnd. x = fst (WrapDatagram C mark (Some (run_h r1)) frame rnd)"
    by (auto simp: r1_def)
  show ?case
    using I step
    by (intro exI [of _ "fst (WrapDatagram C mark (Some (run_h r)) frame (run_rnd r)) # outs"] exI [of _ rnd'] exI [of _ w'])
       (auto simp: r1_def add.assoc)
qed

text \<open>The awaited datagram, behind others that are ignored.\<close>

lemma await_step_arrives:
  assumes "\<And>junk. RecvStep C (run_h r) (frame @ junk) = (Inr (), h')"
    "cgenome (hcp s) = cgenome (hcp (run_h r))" "visible mark"
    "wire = fst (WrapDatagram C mark (Some s) frame rnd)" "length wire \<le> maxDatagram"
    "\<forall>ev \<in> set junk. \<exists>t a buf. ev = Got t a buf \<and> t < deadline \<and> ignored C (run_h r) ev"
    "run_peer r = None \<or> run_peer r = Some addr" "now < deadline"
  shows "await_step C mark' net deadline wait now (junk @ Got t addr wire # evs) r =
    (Finished, t, evs, r\<lparr>run_h := h', run_peer := Some addr\<rparr>)"
  using assms(6,8)
proof (induction junk arbitrary: now)
  case Nil
  from unwrap_wrap [OF assms(3), of C "Some (cgenome (hcp s))" frame rnd] assms(2,4) obtain tail where
    u: "UnwrapDatagram C (Some (run_h r)) wire = Inr (frame @ tail)" by (auto simp: UnwrapDatagram_def WrapDatagram_def)
  with assms(1,5,7) Nil show ?case by (auto split: option.split)
next
  case (Cons ev junk)
  then obtain t' a buf where ev: "ev = Got t' a buf" "t' < deadline" "ignored C (run_h r) ev" by auto
  have same: "r\<lparr>run_h := run_h r\<rparr> = r" by simp
  have "await_step C mark' net deadline wait t' (junk @ Got t addr wire # evs) r =
    (Finished, t, evs, r\<lparr>run_h := h', run_peer := Some addr\<rparr>)" using Cons ev by auto
  with ev(3) Cons.prems(2) same show ?case
    unfolding ev(1) ignored_def
    by (cases "UnwrapDatagram C (Some (run_h r)) (take maxDatagram buf)") auto
qed

section \<open>Properties\<close>

text \<open>
  Silence towards probes: a server that no peer has authenticated to writes nothing at
  all, does not finish, and keeps its handshake state, whatever datagrams arrive that are
  neither a knock nor the expected step, whichever side the pattern lets speak first.
\<close>

theorem server_is_silent:
  assumes "\<not> Done h" "\<forall>ev \<in> set evs. ignored C h ev"
  shows "\<exists>out r. runHandshake C mark net h None False timeout now evs rnd = (out, r) \<and>
    out \<noteq> Finished \<and> run_out r = [] \<and> run_h r = h"
proof -
  define r0 where "r0 = \<lparr>run_h = h, run_peer = None, run_last = None, run_sent = False, run_out = [], run_rnd = rnd\<rparr>"
  obtain spec where spec: "CurrentSpec h = Inr spec" using assms(1) by (auto simp: CurrentSpec_def)
  have f: "run_h r0 = h" "run_peer r0 = None" "run_out r0 = []" "\<not> run_sent r0" by (simp_all add: r0_def)
  show ?thesis
  proof (cases "mdirection spec = hrole h")
    case True
    from waitAuthenticatedKnock_ignored [OF assms(2), of "now + timeout" now] True spec f show ?thesis
      unfolding runHandshake_def r0_def [symmetric] by auto
  next
    case False
    from await_step_ignored [of evs C r0 mark net "now + timeout" retransmitBase now] assms(2) f obtain out now' evs' where
      "await_step C mark net (now + timeout) retransmitBase now evs r0 = (out, now', evs', r0)" "out \<noteq> Finished"
      by auto
    with False spec f show ?thesis
      unfolding runHandshake_def r0_def [symmetric] by (cases out) auto
  qed
qed

theorem server_is_silent_witness:
  "\<exists>h rnd' out r. NewHandshake sample_protocol DirServer sample_psk zeros = Inr (h, rnd') \<and>
     runHandshake demo_crypto [] (\<lambda>_. True) h None False handshakeTimeout 0 [Got 1 ''probe'' [1, 2, 3], Expired] zeros =
       (out, r) \<and> run_out r = []"
proof -
  obtain h rnd' where h: "NewHandshake sample_protocol DirServer sample_psk zeros = Inr (h, rnd')" "hidx h = 0"
    "length (hcodecs h) = 2"
    using sample_codecs handshake_codecs_nth(1) [of "boot_c2s sample_protocol" "boot_s2c sample_protocol" "chandshake sample_protocol"]
    by (auto simp: NewHandshake_def is_ok_iff zeros_def read_full_def NewHandshakeCodecs_def sample_handshake)
  have "\<not> Done h" using h by (simp add: Done_def)
  moreover have "\<forall>ev \<in> set [Got 1 ''probe'' [1, 2, 3], Expired]. ignored demo_crypto h ev"
    using CoverLen_bounds(1) [of demo_crypto "Some (cgenome (hcp h))"]
    by (auto simp: ignored_def UnwrapDatagram_def UnwrapHandshakeDatagram_def maxDatagram_def CoverLenMin_def Let_def)
  ultimately have "\<exists>out r. runHandshake demo_crypto [] (\<lambda>_. True) h None False handshakeTimeout 0
      [Got 1 ''probe'' [1, 2, 3], Expired] zeros = (out, r) \<and> out \<noteq> Finished \<and> run_out r = [] \<and> run_h r = h"
    by (rule server_is_silent)
  with h(1) show ?thesis by blast
qed

text \<open>
  Retransmission: an endpoint whose peer stays silent resends its last frame, disguised
  anew each time, after 0.2, 0.6, 1.4, 3, 5, 7 and 9 seconds, and gives up only then: the
  handshake timeout of 8 seconds is overrun, because the last wait is not cut to it.
\<close>

theorem silent_peer_schedule:
  assumes "visible mark" "length frame \<le> 60000" "\<forall>wire. net wire" "run_last r = Some frame" "run_peer r = Some peer"
  shows "\<exists>outs r' evs'. await_step C mark net (now + handshakeTimeout) retransmitBase now (replicate 7 Expired @ evs) r =
      (Aborted ErrTimeout, now + 9000000000, evs', r') \<and> run_out r' = run_out r @ outs \<and> length outs = 7 \<and>
    run_h r' = run_h r \<and>
    (\<forall>w \<in> set outs. \<exists>tail. UnwrapDatagram C (Some (run_h r)) w = Inr (frame @ tail))"
proof -
  have el: "elapsed 7 retransmitBase = 9000000000"
    by (simp add: numeral_eq_Suc retransmitBase_def backoff_def maxRetransmit_def)
  have "\<forall>m < 7. now + elapsed m retransmitBase < now + handshakeTimeout"
    by (auto simp: less_Suc_eq numeral_eq_Suc retransmitBase_def backoff_def maxRetransmit_def handshakeTimeout_def)
  from await_step_expired [OF assms this] obtain outs rnd w where
    A: "await_step C mark net (now + handshakeTimeout) retransmitBase now (replicate 7 Expired @ evs) r =
      await_step C mark net (now + handshakeTimeout) w (now + elapsed 7 retransmitBase) evs
        (r\<lparr>run_out := run_out r @ outs, run_rnd := rnd\<rparr>)" "length outs = 7"
      "\<forall>x \<in> set outs. \<exists>rnd. x = fst (WrapDatagram C mark (Some (run_h r)) frame rnd)" by blast
  have "await_step C mark net (now + handshakeTimeout) w (now + 9000000000) evs u = (Aborted ErrTimeout, now + 9000000000, evs, u)"
    for u by (cases evs) (simp_all add: handshakeTimeout_def)
  moreover have "\<forall>w \<in> set outs. \<exists>tail. UnwrapDatagram C (Some (run_h r)) w = Inr (frame @ tail)"
    using A(3) unwrap_wrap [OF assms(1)] by (fastforce simp: UnwrapDatagram_def WrapDatagram_def)
  ultimately show ?thesis using A(1,2) by (auto simp: el)
qed

theorem silent_peer_schedule_witness:
  "\<exists>h (r :: hs_run) r' outs evs'. run_h r = h \<and>
     await_step demo_crypto [] (\<lambda>_. True) handshakeTimeout retransmitBase 0 (replicate 7 Expired) r =
       (Aborted ErrTimeout, 9000000000, evs', r') \<and> run_out r' = outs \<and> length outs = 7"
proof -
  obtain h rnd' where "NewHandshake sample_protocol DirServer sample_psk zeros = Inr (h, rnd')"
    using sample_codecs by (auto simp: NewHandshake_def is_ok_iff zeros_def read_full_def)
  define r where "r = \<lparr>run_h = h, run_peer = Some ''s'', run_last = Some [1, 2], run_sent = True, run_out = [], run_rnd = zeros\<rparr>"
  have "visible []" by (simp add: visible_def)
  from silent_peer_schedule [OF this, of "[1, 2]" "\<lambda>_. True" r "''s''" demo_crypto 0 "[]"] show ?thesis
    by (fastforce simp: r_def)
qed

text \<open>
  C11. Progress: in every step of a handshake that two endpoints have run in lockstep so far,
  the side whose turn it is can encode its message, and once the disguised datagram of it
  arrives before the deadline, behind any datagrams that are ignored, the other side's
  receive loop ends, takes the sender's address as its peer, and both are in lockstep at the
  next step.
\<close>

theorem handshake_progress:
  assumes "aead_ok C" "ecdh_ok C" "protocol_fits cp early" "pair_inv C cp early pa pb i a b" "i < length (chandshake cp)"
    "rnd_budget (chandshake cp ! i) \<le> length rnd" "visible mark"
    "(sender, receiver) = (if mdirection (chandshake cp ! i) = DirClient then (a, b) else (b, a))"
  shows "\<exists>frame segs s' rnd'. EncodeStep C sender rnd = Inr (frame, segs, s', rnd') \<and>
    (\<forall>(r :: hs_run) wire w deadline now wait junk t addr evs net mark'.
       run_h r = receiver \<and> (run_peer r = None \<or> run_peer r = Some addr) \<and> now < deadline \<and>
       wire = fst (WrapDatagram C mark (Some sender) frame w) \<and> length wire \<le> maxDatagram \<and>
       (\<forall>ev \<in> set junk. \<exists>t a buf. ev = Got t a buf \<and> t < deadline \<and> ignored C receiver ev) \<longrightarrow>
       (\<exists>r'. await_step C mark' net deadline wait now (junk @ Got t addr wire # evs) r = (Finished, t, evs, r') \<and>
          run_peer r' = Some addr \<and>
          (if mdirection (chandshake cp ! i) = DirClient then pair_inv C cp early pa pb (Suc i) s' (run_h r')
           else pair_inv C cp early pa pb (Suc i) (run_h r') s')))"
proof -
  have g: "cgenome (hcp sender) = cgenome (hcp receiver)"
    using assms(4,8) by (auto simp: pair_inv_def split: if_splits)
  from pair_step [OF assms(1-6)] assms(8) obtain frame segs s' rnd' h' where
    e: "EncodeStep C sender rnd = Inr (frame, segs, s', rnd')" "\<And>junk. RecvStep C receiver (frame @ junk) = (Inr (), h')"
      "if mdirection (chandshake cp ! i) = DirClient then pair_inv C cp early pa pb (Suc i) s' h'
       else pair_inv C cp early pa pb (Suc i) h' s'"
    by (auto split: if_splits)
  have "\<exists>r'. await_step C mark' net deadline wait now (junk @ Got t addr wire # evs) r = (Finished, t, evs, r') \<and>
        run_peer r' = Some addr \<and> (if mdirection (chandshake cp ! i) = DirClient
          then pair_inv C cp early pa pb (Suc i) s' (run_h r') else pair_inv C cp early pa pb (Suc i) (run_h r') s')"
    if A: "run_h r = receiver \<and> (run_peer r = None \<or> run_peer r = Some addr) \<and> now < deadline \<and>
       wire = fst (WrapDatagram C mark (Some sender) frame w) \<and> length wire \<le> maxDatagram \<and>
       (\<forall>ev \<in> set junk. \<exists>t a buf. ev = Got t a buf \<and> t < deadline \<and> ignored C receiver ev)"
    for r :: hs_run and wire w deadline now wait junk t addr evs net mark'
  proof -
    from A have "await_step C mark' net deadline wait now (junk @ Got t addr wire # evs) r =
      (Finished, t, evs, r\<lparr>run_h := h', run_peer := Some addr\<rparr>)"
      using await_step_arrives [of C r frame h' sender mark wire w junk deadline addr now] e(2) g assms(7) by blast
    with e(3) show ?thesis by auto
  qed
  with e(1) show ?thesis by blast
qed

theorem handshake_progress_witness:
  "\<exists>a b ra rb frame segs s' rnd'. NewHandshake sample_protocol DirClient sample_psk zeros = Inr (a, ra) \<and>
     NewHandshake sample_protocol DirServer sample_psk zeros = Inr (b, rb) \<and>
     EncodeStep demo_crypto (SetEarlyData a []) zeros = Inr (frame, segs, s', rnd')"
proof -
  obtain a b r where ab: "NewHandshake sample_protocol DirClient sample_psk zeros = Inr (a, r)"
    "NewHandshake sample_protocol DirServer sample_psk zeros = Inr (b, r)"
    using sample_codecs by (auto simp: NewHandshake_def is_ok_iff zeros_def read_full_def)
  have dir: "mdirection (chandshake sample_protocol ! 0) = DirClient" "0 < length (chandshake sample_protocol)"
    by (simp_all add: sample_handshake) (simp add: sample_message_def)
  from NewHandshake_pair_inv [OF ab, of "[]" 2 "[]" demo_crypto]
  have "pair_inv demo_crypto sample_protocol 2 (hpriv a) (hpriv b) 0 (SetEarlyData a []) (SetEarlyData b [])" by simp
  from handshake_progress [OF _ _ sample_fits this dir(2) sample_budget [OF dir(2)], of "[]" "SetEarlyData a []" "SetEarlyData b []"]
    ab dir(1) show ?thesis by (auto simp: visible_def)
qed

end
