(* ===== verification/Server_Tunnel.thy ===== *)
theory Server_Tunnel
  imports Tunnel
begin

text \<open>
  One established session on the server's shared socket (\<open>ServerTunnel\<close> of
  \<open>internal/tunnel/mux.go\<close>), its rate limiter, and the send-side noise mask
  (\<open>internal/tunnel/txmask.go\<close>). The shared socket is an outbox of addressed datagrams and
  the random bytes still to come; \<open>net\<close> says which writes the network accepts. Sleeping
  for jitter changes no state and is left out. The limiter computes in nanoseconds times
  bytes with exact arithmetic where the code uses \<open>float64\<close> seconds.
\<close>

type_synonym network = "string \<Rightarrow> bytes \<Rightarrow> bool"

record io =
  io_out :: "(string \<times> bytes) list"
  io_rnd :: reader

section \<open>Rate limiter\<close>

record token_bucket =
  tb_rate :: int          \<comment> \<open>bytes per second\<close>
  tb_capacity :: int      \<comment> \<open>billionths of a byte\<close>
  tb_tokens :: int
  tb_last :: int

definition second :: int where
  "second = 1000000000"

definition newTokenBucket :: "int \<Rightarrow> int \<Rightarrow> int \<Rightarrow> token_bucket option" where
  "newTokenBucket now bytesPerSec burst =
     (if bytesPerSec \<le> 0 then None
      else let cap = (if burst \<le> 0 \<or> burst < bytesPerSec then bytesPerSec else burst) in
           Some \<lparr>tb_rate = bytesPerSec, tb_capacity = cap * second, tb_tokens = cap * second, tb_last = now\<rparr>)"

definition take_tokens :: "int \<Rightarrow> nat \<Rightarrow> token_bucket option \<Rightarrow> bool \<times> token_bucket option" where
  "take_tokens now n bo =
     (case bo of
        None \<Rightarrow> (True, None)
      | Some b \<Rightarrow>
          (let t = tb_tokens b + (now - tb_last b) * tb_rate b;
               t1 = (if tb_capacity b < t then tb_capacity b else t);
               b1 = b\<lparr>tb_tokens := t1, tb_last := now\<rparr> in
           if t1 < int n * second then (False, Some b1)
           else (True, Some (b1\<lparr>tb_tokens := t1 - int n * second\<rparr>))))"

section \<open>Noise mask\<close>

record noise_mask =
  nm_every :: nat
  nm_max :: int
  nm_ladder :: "int list"
  nm_written :: nat
  nm_last :: "int option"   \<comment> \<open>none is Go's zero time\<close>

text \<open>The identity mask is none.\<close>

definition NewNoiseTxMask :: "int \<Rightarrow> int \<Rightarrow> int list \<Rightarrow> noise_mask option" where
  "NewNoiseTxMask every maxPerSec ladder =
     (if every \<le> 0 \<or> maxPerSec \<le> 0 then None
      else Some \<lparr>nm_every = nat every, nm_max = maxPerSec,
                 nm_ladder = (if ladder = [] then [96, 192, 384, 768, 1152] else ladder),
                 nm_written = 0, nm_last = None\<rparr>)"

definition decoyAllowed :: "int \<Rightarrow> noise_mask \<Rightarrow> bool \<times> noise_mask" where
  "decoyAllowed now k =
     (case nm_last k of
        None \<Rightarrow> (True, k\<lparr>nm_last := Some now\<rparr>)
      | Some t \<Rightarrow> if now - t < second div nm_max k then (False, k) else (True, k\<lparr>nm_last := Some now\<rparr>))"

definition randomDecoy :: "int list \<Rightarrow> reader \<Rightarrow> (bytes \<times> reader) option res" where
  "randomDecoy ladder rnd =
     (if ladder = [] then Inr None
      else case read_full 1 rnd of
             Inl _ \<Rightarrow> Inr None
           | Inr (idx, rnd1) \<Rightarrow>
               (let size = ladder ! (unat (hd idx) mod length ladder) in
                if size < 0 then Inl ErrPanic
                else case read_full (nat size) rnd1 of Inl _ \<Rightarrow> Inr None | Inr (out, rnd2) \<Rightarrow> Inr (Some (out, rnd2))))"

definition raw_write :: "network \<Rightarrow> string \<Rightarrow> bytes \<Rightarrow> io \<Rightarrow> unit res \<times> io" where
  "raw_write net addr p w = (if net addr p then (Inr (), w\<lparr>io_out := io_out w @ [(addr, p)]\<rparr>) else (Inl ErrNet, w))"

definition WriteTo ::
  "network \<Rightarrow> int \<Rightarrow> string \<Rightarrow> bytes \<Rightarrow> noise_mask option \<Rightarrow> io \<Rightarrow> unit res \<times> noise_mask option \<times> io" where
  "WriteTo net now addr p mo w =
     (case raw_write net addr p w of
        (Inl e, w1) \<Rightarrow> (Inl e, mo, w1)
      | (Inr _, w1) \<Rightarrow>
          (case mo of
             None \<Rightarrow> (Inr (), None, w1)
           | Some k \<Rightarrow>
               (let k1 = k\<lparr>nm_written := w64 (nm_written k + 1)\<rparr> in
                if nm_written k1 mod nm_every k1 \<noteq> 0 then (Inr (), Some k1, w1)
                else case decoyAllowed now k1 of
                       (False, k2) \<Rightarrow> (Inr (), Some k2, w1)
                     | (True, k2) \<Rightarrow>
                         (case randomDecoy (nm_ladder k2) (io_rnd w1) of
                            Inl e \<Rightarrow> (Inl e, Some k2, w1)
                          | Inr None \<Rightarrow> (Inr (), Some k2, w1)
                          | Inr (Some (decoy, rnd)) \<Rightarrow>
                              (Inr (), Some k2, snd (raw_write net addr decoy (w1\<lparr>io_rnd := rnd\<rparr>)))))))"

section \<open>One session\<close>

record server_tunnel =
  s_peer :: string
  s_sess :: packet_session
  s_recv :: "bytes list"              \<comment> \<open>channel of capacity 128\<close>
  s_closed :: bool
  s_peer_base :: nat
  s_ack_due :: nat
  s_last_active :: int
  s_limiter :: "token_bucket option"
  s_mask :: "noise_mask option"
  s_generation :: nat

definition s_write :: "network \<Rightarrow> int \<Rightarrow> bytes \<Rightarrow> server_tunnel \<Rightarrow> io \<Rightarrow> unit res \<times> server_tunnel \<times> io" where
  "s_write net now frame t w =
     (if maxDatagram < length frame then (Inl ErrTooLarge, t, w)
      else case WriteTo net now (s_peer t) frame (s_mask t) w of (x, k, w1) \<Rightarrow> (x, t\<lparr>s_mask := k\<rparr>, w1))"

definition s_write_async :: "network \<Rightarrow> int \<Rightarrow> bytes \<Rightarrow> server_tunnel \<Rightarrow> io \<Rightarrow> server_tunnel \<times> io" where
  "s_write_async net now frame t w =
     (if length frame = 0 \<or> maxDatagram < length frame then (t, w)
      else case WriteTo net now (s_peer t) frame (s_mask t) w of (x, k, w1) \<Rightarrow> (t\<lparr>s_mask := k\<rparr>, w1))"

definition s_encode :: "crypto \<Rightarrow> bytes \<Rightarrow> server_tunnel \<Rightarrow> io \<Rightarrow> bytes res \<times> server_tunnel \<times> io" where
  "s_encode C payload t w =
     (case sess_encode C (s_sess t) payload (io_rnd w) of
        Inl e \<Rightarrow> (Inl e, t, w)
      | Inr (frame, s, rnd) \<Rightarrow> (Inr frame, t\<lparr>s_sess := s\<rparr>, w\<lparr>io_rnd := rnd\<rparr>))"

definition s_observeAck :: "nat \<Rightarrow> server_tunnel \<Rightarrow> server_tunnel" where
  "s_observeAck base t = (if s_peer_base t < base then t\<lparr>s_peer_base := base\<rparr> else t)"

definition s_unackedSpan :: "nat \<Rightarrow> server_tunnel \<Rightarrow> nat" where
  "s_unackedSpan sent t = (if sent < s_peer_base t then 0 else sent - s_peer_base t)"

definition s_maybeSendLossControl ::
  "crypto \<Rightarrow> network \<Rightarrow> int \<Rightarrow> server_tunnel \<Rightarrow> io \<Rightarrow> server_tunnel \<times> io" where
  "s_maybeSendLossControl C net now t w =
     (let sent = snd (AckState (s_sess t)) in
      if s_unackedSpan sent t < skipSpan then (t, w)
      else case s_encode C (encodeSkipPayload sent) t w of
             (Inl _, t1, w1) \<Rightarrow> (t1, w1)
           | (Inr frame, t1, w1) \<Rightarrow>
               (case s_write net now frame t1 w1 of
                  (Inl _, t2, w2) \<Rightarrow> (t2, w2)
                | (Inr _, t2, w2) \<Rightarrow> (s_observeAck sent t2, w2)))"

definition s_SendPacket ::
  "crypto \<Rightarrow> network \<Rightarrow> int \<Rightarrow> bytes \<Rightarrow> server_tunnel \<Rightarrow> io \<Rightarrow> unit res \<times> server_tunnel \<times> io" where
  "s_SendPacket C net now packet t w =
     (if s_closed t then (Inl ErrClosed, t, w)
      else case s_encode C packet t w of
             (Inl e, t1, w1) \<Rightarrow> (Inl e, t1, w1)
           | (Inr frame, t1, w1) \<Rightarrow>
               (case s_write net now frame t1 w1 of
                  (Inl e, t2, w2) \<Rightarrow> (Inl e, t2, w2)
                | (Inr _, t2, w2) \<Rightarrow> (case s_maybeSendLossControl C net now t2 w2 of (t3, w3) \<Rightarrow> (Inr (), t3, w3))))"

definition s_SendControl ::
  "crypto \<Rightarrow> network \<Rightarrow> int \<Rightarrow> bytes \<Rightarrow> server_tunnel \<Rightarrow> io \<Rightarrow> unit res \<times> server_tunnel \<times> io" where
  "s_SendControl C net now payload t w = s_SendPacket C net now (ControlAssignIP # payload) t w"

definition s_SendControlRaw ::
  "crypto \<Rightarrow> network \<Rightarrow> int \<Rightarrow> bytes \<Rightarrow> server_tunnel \<Rightarrow> io \<Rightarrow> unit res \<times> server_tunnel \<times> io" where
  "s_SendControlRaw C net now payload t w = s_SendPacket C net now payload t w"

definition s_touch :: "int \<Rightarrow> server_tunnel \<Rightarrow> server_tunnel" where
  "s_touch now t = t\<lparr>s_last_active := now\<rparr>"

definition s_idleFor :: "int \<Rightarrow> server_tunnel \<Rightarrow> int" where
  "s_idleFor now t = now - s_last_active t"

definition s_sendKeepalive ::
  "crypto \<Rightarrow> network \<Rightarrow> int \<Rightarrow> int \<Rightarrow> server_tunnel \<Rightarrow> io \<Rightarrow> server_tunnel \<times> io" where
  "s_sendKeepalive C net now interval t w =
     (if s_idleFor now t < interval then (t, w)
      else case s_encode C [ControlKeepalive] t w of
             (Inl _, t1, w1) \<Rightarrow> (t1, w1)
           | (Inr frame, t1, w1) \<Rightarrow> s_write_async net now frame t1 w1)"

definition s_handleLossControl :: "bytes \<Rightarrow> server_tunnel \<Rightarrow> bool \<times> server_tunnel" where
  "s_handleLossControl pkt t =
     (case pkt of
        [] \<Rightarrow> (False, t)
      | k # _ \<Rightarrow>
          if k = ControlAck \<or> k = ControlSkip then
            (if length pkt \<noteq> 9 then (True, t)
             else case decodeAckPayload pkt of
                    Inl _ \<Rightarrow> (True, t)
                  | Inr (kind, v) \<Rightarrow>
                      if kind = ControlAck then (True, s_observeAck v t)
                      else (True, case sess_advance (s_sess t) v of
                                    Inl _ \<Rightarrow> t
                                  | Inr s \<Rightarrow> t\<lparr>s_sess := s\<rparr>))
          else if k = ControlKeepalive then (True, t)
          else (False, t))"

definition s_noteDecoded :: "server_tunnel \<Rightarrow> bool \<times> server_tunnel" where
  "s_noteDecoded t =
     (let due = s_ack_due t + 1 in
      if due < ackEvery then (False, t\<lparr>s_ack_due := due\<rparr>) else (True, t\<lparr>s_ack_due := 0\<rparr>))"

text \<open>
  A \<open>select\<close> with several ready cases takes any of them; \<open>pick\<close> says whether it prefers
  the channel to the closing.
\<close>

definition feed :: "bool \<Rightarrow> bytes \<Rightarrow> server_tunnel \<Rightarrow> bool \<times> server_tunnel" where
  "feed pick packet t =
     (if length (s_recv t) < 128 \<and> (\<not> s_closed t \<or> pick) then (True, t\<lparr>s_recv := s_recv t @ [packet]\<rparr>)
      else (False, t))"

definition TryReceive :: "bool \<Rightarrow> server_tunnel \<Rightarrow> bytes option res \<times> server_tunnel" where
  "TryReceive pick t =
     (case s_recv t of
        [] \<Rightarrow> if s_closed t then (Inl ErrClosed, t) else (Inr None, t)
      | pkt # rest \<Rightarrow> if s_closed t \<and> \<not> pick then (Inl ErrClosed, t) else (Inr (Some pkt), t\<lparr>s_recv := rest\<rparr>))"

text \<open>Without a packet and without being closed, \<open>ReceivePacket\<close> waits: none.\<close>

definition s_ReceivePacket :: "bool \<Rightarrow> server_tunnel \<Rightarrow> bytes res option \<times> server_tunnel" where
  "s_ReceivePacket pick t =
     (case TryReceive pick t of
        (Inl e, t1) \<Rightarrow> (Some (Inl e), t1)
      | (Inr None, t1) \<Rightarrow> (None, t1)
      | (Inr (Some pkt), t1) \<Rightarrow> (Some (Inr pkt), t1))"

text \<open>
  The part of \<open>handleDatagram\<close> for an established session: none if the datagram does not
  decode, else whether its length counts in the histogram.
\<close>

definition s_receive ::
  "crypto \<Rightarrow> network \<Rightarrow> bool \<Rightarrow> int \<Rightarrow> bytes \<Rightarrow> server_tunnel \<Rightarrow> io \<Rightarrow> bool \<times> server_tunnel \<times> io" where
  "s_receive C net pick now data t w =
     (case sess_decode C (s_sess t) data of
        Inl _ \<Rightarrow> (False, t, w)
      | Inr (msg, s) \<Rightarrow>
          (let t1 = s_touch now (t\<lparr>s_sess := s\<rparr>) in
           case take_tokens now (length data) (s_limiter t1) of
             (False, b) \<Rightarrow> (False, t1\<lparr>s_limiter := b\<rparr>, w)
           | (True, b) \<Rightarrow>
               (let pkt = msg_payload msg in
                case s_handleLossControl pkt (t1\<lparr>s_limiter := b\<rparr>) of
                  (True, t2) \<Rightarrow> (True, t2, w)
                | (False, t2) \<Rightarrow>
                    (case s_noteDecoded t2 of
                       (False, t3) \<Rightarrow> (True, snd (feed pick pkt t3), w)
                     | (True, t3) \<Rightarrow>
                         (case s_encode C (encodeAckPayload (fst (AckState (s_sess t3)))) t3 w of
                            (Inl _, t4, w4) \<Rightarrow> (True, snd (feed pick pkt t4), w4)
                          | (Inr frame, t4, w4) \<Rightarrow>
                              (case s_write_async net now frame t4 w4 of
                                 (t5, w5) \<Rightarrow> (True, snd (feed pick pkt t5), w5)))))))"

end
