(* ===== verification/Replay.thy ===== *)
theory Replay
  imports Genome Text "HOL-Library.AList"
begin

text \<open>
  The table of first datagrams and knocks that already authenticated
  (\<open>internal/tunnel/replay.go\<close>): a map from digests to expiry times, its capacity and sweep,
  and the text file that carries it across restarts. Go's map is an association list with
  distinct keys.
\<close>

section \<open>The table\<close>

definition replayCacheMax :: nat where
  "replayCacheMax = 65536"

definition replayCacheTTL :: int where
  "replayCacheTTL = 3600000000000"

definition replayFileVer :: string where
  "replayFileVer = ''chimera-pgc/0/replay-v1''"

record replay_cache =
  rc_map :: "(bytes \<times> int) list"
  rc_path :: bool                    \<comment> \<open>a path is set\<close>
  rc_file :: "string list option"    \<comment> \<open>the lines of the file there\<close>

definition newReplayCache :: replay_cache where
  "newReplayCache = \<lparr>rc_map = [], rc_path = False, rc_file = None\<rparr>"

definition replayKey :: "crypto \<Rightarrow> bytes \<Rightarrow> bytes" where
  "replayKey C inner = sha256 C inner"

definition sweepLocked :: "int \<Rightarrow> replay_cache \<Rightarrow> replay_cache" where
  "sweepLocked now c = c\<lparr>rc_map := filter (\<lambda>(k, e). \<not> e \<le> now) (rc_map c)\<rparr>"

definition replay_line :: "bytes \<times> int \<Rightarrow> string" where
  "replay_line = (\<lambda>(k, e). hex_encode k @ '' '' @ int_string e)"

text \<open>\<open>io\<close> says whether every file operation succeeds; otherwise the old file stays.\<close>

definition persistLocked :: "bool \<Rightarrow> replay_cache \<Rightarrow> replay_cache" where
  "persistLocked io c =
     (if rc_path c \<and> io then c\<lparr>rc_file := Some (replayFileVer # map replay_line (rc_map c))\<rparr> else c)"

definition seen :: "crypto \<Rightarrow> bool \<Rightarrow> int \<Rightarrow> bytes \<Rightarrow> replay_cache \<Rightarrow> bool \<times> replay_cache" where
  "seen C io now inner c =
     (if inner = [] then (False, c)
      else let key = replayKey C inner in
           if (case map_of (rc_map c) key of None \<Rightarrow> False | Some e \<Rightarrow> now < e) then (True, c)
           else let c1 = (if replayCacheMax \<le> length (rc_map c) then sweepLocked now c else c) in
                if replayCacheMax \<le> length (rc_map c1) then (False, c1)
                else (False, persistLocked io (c1\<lparr>rc_map := AList.update key (now + replayCacheTTL) (rc_map c1)\<rparr>)))"

section \<open>The file\<close>

definition parseReplayLine :: "string \<Rightarrow> (bytes \<times> int) option" where
  "parseReplayLine line =
     (case cut CHR '' '' line of
        None \<Rightarrow> None
      | Some (hex_key, rest) \<Rightarrow>
          (case hex_decode hex_key of
             None \<Rightarrow> None
           | Some raw \<Rightarrow>
               if length raw \<noteq> 32 then None
               else case parse_int64 (trim_space rest) of None \<Rightarrow> None | Some e \<Rightarrow> Some (raw, e)))"

fun load_lines :: "int \<Rightarrow> string list \<Rightarrow> (bytes \<times> int) list \<Rightarrow> (bytes \<times> int) list" where
  "load_lines now [] m = m"
| "load_lines now (l # ls) m =
     (let line = trim_space l in
      if line = [] \<or> prefix_of ''#'' line then load_lines now ls m
      else case parseReplayLine line of
             None \<Rightarrow> load_lines now ls m
           | Some (k, e) \<Rightarrow>
               if e \<le> now then load_lines now ls m
               else let m' = AList.update k e m in
                    if replayCacheMax \<le> length m' then m' else load_lines now ls m')"

definition loadReplayCache :: "int \<Rightarrow> string list option \<Rightarrow> bool \<Rightarrow> replay_cache" where
  "loadReplayCache now file path =
     (if \<not> path then newReplayCache\<lparr>rc_file := file\<rparr>
      else newReplayCache\<lparr>rc_path := True, rc_file := file,
        rc_map := (case file of
                     Some (v # ls) \<Rightarrow> if trim_space v = replayFileVer then load_lines now ls [] else []
                   | _ \<Rightarrow> [])\<rparr>)"

section \<open>Invariant\<close>

definition replay_inv :: "replay_cache \<Rightarrow> bool" where
  "replay_inv c \<longleftrightarrow>
     distinct (map fst (rc_map c)) \<and> length (rc_map c) \<le> replayCacheMax \<and> (\<forall>(k, e) \<in> set (rc_map c). length k = 32)"

lemma length_update: "length (AList.update k v m) = (if k \<in> fst ` set m then length m else Suc (length m))"
  by (induction m) auto

lemma set_update: "set (AList.update k v m) \<subseteq> insert (k, v) (set m)"
  by (induction m) auto

lemma map_of_filter_key:
  assumes "map_of m k = Some v" "P (k, v)" "distinct (map fst m)"
  shows "map_of (filter P m) k = Some v"
  using assms by (induction m) (force split: if_splits)+

lemma distinct_filter_keys: "distinct (map fst m) \<Longrightarrow> distinct (map fst (filter P m))"
  by (induction m) (auto simp: image_iff)

lemma seen_cases:
  assumes "inner \<noteq> []"
  obtains (hit) e where "map_of (rc_map c) (replayKey C inner) = Some e" "now < e" "seen C io now inner c = (True, c)"
  | (full) c1 where "c1 = (if replayCacheMax \<le> length (rc_map c) then sweepLocked now c else c)"
      "replayCacheMax \<le> length (rc_map c1)" "seen C io now inner c = (False, c1)"
  | (new) c1 where "c1 = (if replayCacheMax \<le> length (rc_map c) then sweepLocked now c else c)"
      "length (rc_map c1) < replayCacheMax"
      "seen C io now inner c = (False, persistLocked io (c1\<lparr>rc_map := AList.update (replayKey C inner) (now + replayCacheTTL) (rc_map c1)\<rparr>))"
      "\<forall>e. map_of (rc_map c) (replayKey C inner) = Some e \<longrightarrow> e \<le> now"
proof (cases "case map_of (rc_map c) (replayKey C inner) of None \<Rightarrow> False | Some e \<Rightarrow> now < e")
  case True
  with hit assms show thesis by (auto simp: seen_def split: option.splits)
next
  case False
  define c1 where "c1 = (if replayCacheMax \<le> length (rc_map c) then sweepLocked now c else c)"
  show thesis
  proof (cases "replayCacheMax \<le> length (rc_map c1)")
    case True
    with False assms have "seen C io now inner c = (False, c1)" by (simp add: seen_def Let_def c1_def [symmetric])
    with full c1_def True show thesis by blast
  next
    case no: False
    with False assms have "seen C io now inner c =
        (False, persistLocked io (c1\<lparr>rc_map := AList.update (replayKey C inner) (now + replayCacheTTL) (rc_map c1)\<rparr>))"
      by (simp add: seen_def Let_def c1_def [symmetric])
    moreover have "\<forall>e. map_of (rc_map c) (replayKey C inner) = Some e \<longrightarrow> e \<le> now" using False by (auto split: option.splits)
    ultimately show thesis using new c1_def no by (simp add: not_le)
  qed
qed

lemma persist_map [simp]: "rc_map (persistLocked io c) = rc_map c" "rc_path (persistLocked io c) = rc_path c"
  by (simp_all add: persistLocked_def)

lemma sweep_inv: "replay_inv c \<Longrightarrow> replay_inv (sweepLocked now c)"
  unfolding replay_inv_def sweepLocked_def
  by (auto simp: distinct_filter_keys intro: order_trans [OF length_filter_le])

lemma seen_inv:
  assumes "replay_inv c" "digest_ok C"
  shows "replay_inv (snd (seen C io now inner c))"
proof (cases "inner = []")
  case True
  with assms show ?thesis by (simp add: seen_def)
next
  case False
  then show ?thesis
  proof (cases rule: seen_cases [of inner c C now io])
    case hit
    with assms show ?thesis by simp
  next
    case (full c1)
    then show ?thesis using assms sweep_inv by simp
  next
    case (new c1)
    have i: "replay_inv c1" using new(1) assms sweep_inv by simp
    then have "distinct (map fst (AList.update (replayKey C inner) (now + replayCacheTTL) (rc_map c1)))"
      by (simp add: replay_inv_def distinct_update)
    moreover have "\<forall>(k, e) \<in> set (AList.update (replayKey C inner) (now + replayCacheTTL) (rc_map c1)). length k = 32"
      using i set_update [of "replayKey C inner" "now + replayCacheTTL" "rc_map c1"] digest_okD(1) [OF assms(2)]
      by (fastforce simp: replay_inv_def replayKey_def)
    ultimately show ?thesis using new(2,3) by (simp add: replay_inv_def length_update)
  qed
qed

text \<open>An entry that has not expired stays, whatever else is looked up.\<close>

lemma seen_keeps:
  assumes "replay_inv c" "map_of (rc_map c) k = Some e" "now < e"
  shows "map_of (rc_map (snd (seen C io now inner c))) k = Some e"
proof (cases "inner = []")
  case True
  with assms show ?thesis by (simp add: seen_def)
next
  case False
  have sw: "map_of (rc_map (sweepLocked now c)) k = Some e"
    using assms by (simp add: sweepLocked_def replay_inv_def map_of_filter_key)
  from False show ?thesis
  proof (cases rule: seen_cases [of inner c C now io])
    case hit
    with assms show ?thesis by simp
  next
    case (full c1)
    with sw assms(2) show ?thesis by simp
  next
    case (new c1)
    have "k \<noteq> replayKey C inner" using new(4) assms(2,3) by auto
    with new sw assms(2) show ?thesis by (simp add: update_conv')
  qed
qed

text \<open>A history: the time of each lookup, whether its file operations succeed, its datagram.\<close>

fun seen_all :: "crypto \<Rightarrow> (int \<times> bool \<times> bytes) list \<Rightarrow> replay_cache \<Rightarrow> replay_cache" where
  "seen_all C [] c = c"
| "seen_all C ((now, io, inner) # xs) c = seen_all C xs (snd (seen C io now inner c))"

lemma seen_all_keeps:
  assumes "replay_inv c" "digest_ok C" "map_of (rc_map c) k = Some e" "\<forall>(now, io, inner) \<in> set xs. now < e"
  shows "replay_inv (seen_all C xs c) \<and> map_of (rc_map (seen_all C xs c)) k = Some e"
  using assms
proof (induction xs arbitrary: c)
  case (Cons x xs)
  obtain now io inner where x: "x = (now, io, inner)" by (cases x)
  with Cons seen_inv [OF Cons.prems(1,2)] seen_keeps [OF Cons.prems(1,3)] show ?case by auto
qed simp

lemma seen_hit: "inner \<noteq> [] \<Longrightarrow> map_of (rc_map c) (replayKey C inner) = Some e \<Longrightarrow> now < e \<Longrightarrow> seen C io now inner c = (True, c)"
  by (simp add: seen_def)

text \<open>A new datagram is recorded, unless the table is full of entries that have not expired.\<close>

lemma seen_records:
  assumes "inner \<noteq> []" "fst (seen C io now inner c) = False" "length (rc_map (sweepLocked now c)) < replayCacheMax"
  shows "map_of (rc_map (snd (seen C io now inner c))) (replayKey C inner) = Some (now + replayCacheTTL)"
  using assms(1)
proof (cases rule: seen_cases [of inner c C now io])
  case hit
  with assms(2) show ?thesis by simp
next
  case (full c1)
  with assms(3) show ?thesis by (auto split: if_splits)
next
  case (new c1)
  then show ?thesis by (simp add: update_conv')
qed

section \<open>Across a restart\<close>

lemma hex_val_space: "hex_val c = Some n \<Longrightarrow> c \<noteq> CHR '' '' \<and> \<not> is_space c \<and> c \<noteq> CHR ''#''"
  by (auto simp: hex_val_def is_space_def split: if_splits)

lemma hex_chars: "c \<in> set (hex_encode k) \<Longrightarrow> c \<noteq> CHR '' '' \<and> \<not> is_space c \<and> c \<noteq> CHR ''#''"
proof (induction k)
  case (Cons b k)
  have "unat b div 16 < 16" "unat b mod 16 < 16" by (simp_all add: less_mult_imp_div_less)
  from this [THEN hex_val_hex_char, THEN hex_val_space] show ?case using Cons by auto
qed simp

lemma int_string_ends: "int_string e \<noteq> [] \<and> \<not> is_space (hd (int_string e)) \<and> \<not> is_space (last (int_string e))"
proof -
  have "\<not> is_space (hd (dec_string n)) \<and> \<not> is_space (last (dec_string n)) \<and> dec_string n \<noteq> []" for n
    using dec_string_ok [of n] list_all_hd_last [of "dec_string n" is_digit] digit_not_space by blast
  then show ?thesis by (auto simp: int_string_def is_space_def)
qed

lemma parse_replay_line:
  assumes "length k = 32" "- (2 ^ 63) \<le> e" "e < 2 ^ 63"
  shows "parseReplayLine (trim_space (replay_line (k, e))) = Some (k, e)"
    and "trim_space (replay_line (k, e)) \<noteq> []" and "\<not> prefix_of ''#'' (trim_space (replay_line (k, e)))"
proof -
  have ne: "hex_encode k \<noteq> []" using assms(1) by (cases k) auto
  have "hd (replay_line (k, e)) = hd (hex_encode k)" "last (replay_line (k, e)) = last (int_string e)"
    using ne int_string_ends [of e] by (simp_all add: replay_line_def)
  then have t: "trim_space (replay_line (k, e)) = replay_line (k, e)"
    using ne hex_chars [of "hd (hex_encode k)" k] int_string_ends [of e] by (intro trim_space_id) auto
  have "CHR '' '' \<notin> set (hex_encode k)" using hex_chars by blast
  moreover have "trim_space (int_string e) = int_string e" using int_string_ends by (intro trim_space_id) auto
  ultimately show "parseReplayLine (trim_space (replay_line (k, e))) = Some (k, e)"
    unfolding t using assms by (simp add: replay_line_def parseReplayLine_def)
  show "trim_space (replay_line (k, e)) \<noteq> []" unfolding t by (simp add: replay_line_def)
  show "\<not> prefix_of ''#'' (trim_space (replay_line (k, e)))"
    unfolding t using ne hex_chars [of "hd (hex_encode k)" k] by (cases "hex_encode k") (auto simp: replay_line_def)
qed

lemma load_lines_entries:
  assumes "distinct (map fst (m @ es))" "length (m @ filter (\<lambda>(k, e). \<not> e \<le> now) es) \<le> replayCacheMax"
    "\<forall>(k, e) \<in> set es. length k = 32 \<and> - (2 ^ 63) \<le> e \<and> e < 2 ^ 63"
  shows "load_lines now (map replay_line es) m = m @ filter (\<lambda>(k, e). \<not> e \<le> now) es"
  using assms
proof (induction es arbitrary: m)
  case (Cons x es)
  obtain k e where x: "x = (k, e)" by (cases x)
  from Cons.prems(3) x have ke: "length k = 32" "- (2 ^ 63) \<le> e" "e < 2 ^ 63" by auto
  note P = parse_replay_line [OF ke]
  have upd: "AList.update k e m = m @ [(k, e)]" using Cons.prems(1) x by (induction m) auto
  show ?case
  proof (cases "e \<le> now")
    case True
    from Cons.IH [of m] Cons.prems True x P show ?thesis by auto
  next
    case False
    show ?thesis
    proof (cases "replayCacheMax \<le> length (m @ [(k, e)])")
      case True
      have "length m + Suc (length (filter (\<lambda>(k, e). \<not> e \<le> now) es)) \<le> replayCacheMax"
        using Cons.prems(2) False x by simp
      moreover have "replayCacheMax \<le> Suc (length m)" using True by simp
      ultimately have "length (filter (\<lambda>(k, e). \<not> e \<le> now) es) = 0" by linarith
      then have "filter (\<lambda>(k, e). \<not> e \<le> now) es = []" by (rule length_0_conv [THEN iffD1])
      with True False x P upd show ?thesis by simp
    next
      case no: False
      from Cons.IH [of "m @ [(k, e)]"] Cons.prems False x
      have "load_lines now (map replay_line es) (m @ [(k, e)]) = (m @ [(k, e)]) @ filter (\<lambda>(k, e). \<not> e \<le> now) es" by auto
      with no False x P upd show ?thesis by simp
    qed
  qed
qed simp

lemma version_trim: "trim_space replayFileVer = replayFileVer"
  by (intro trim_space_id) (simp add: replayFileVer_def is_space_def)

text \<open>The next process starts from the file.\<close>

definition restart :: "int \<Rightarrow> replay_cache \<Rightarrow> replay_cache" where
  "restart now c = loadReplayCache now (rc_file c) (rc_path c)"

definition entries_ok :: "(bytes \<times> int) list \<Rightarrow> bool" where
  "entries_ok m \<longleftrightarrow> distinct (map fst m) \<and> length m \<le> replayCacheMax \<and>
     (\<forall>(k, e) \<in> set m. length k = 32 \<and> - (2 ^ 63) \<le> e \<and> e < 2 ^ 63)"

definition in_file :: "replay_cache \<Rightarrow> bytes \<Rightarrow> int \<Rightarrow> bool" where
  "in_file c k e \<longleftrightarrow>
     (\<exists>m. rc_file c = Some (replayFileVer # map replay_line m) \<and> entries_ok m \<and> map_of m k = Some e)"

lemma restart_map:
  assumes "rc_path c" "rc_file c = Some (replayFileVer # map replay_line m)" "entries_ok m"
  shows "rc_map (restart now c) = filter (\<lambda>(k, e). \<not> e \<le> now) m"
proof -
  have "length (filter (\<lambda>(k, e). \<not> e \<le> now) m) \<le> replayCacheMax"
    using assms(3) length_filter_le [of "\<lambda>(k, e). \<not> e \<le> now" m] unfolding entries_ok_def by linarith
  with assms(3) have "load_lines now (map replay_line m) [] = filter (\<lambda>(k, e). \<not> e \<le> now) m"
    using load_lines_entries [of "[]" m now] by (simp add: entries_ok_def)
  with assms(1,2) show ?thesis by (simp add: restart_def loadReplayCache_def version_trim)
qed

lemma restart_keeps:
  assumes "rc_path c" "in_file c k e" "now < e"
  shows "map_of (rc_map (restart now c)) k = Some e"
proof -
  from assms(2) obtain m where m: "rc_file c = Some (replayFileVer # map replay_line m)" "entries_ok m" "map_of m k = Some e"
    by (auto simp: in_file_def)
  with restart_map [OF assms(1) m(1,2), of now] assms(3) show ?thesis
    by (simp add: entries_ok_def map_of_filter_key)
qed

lemma entries_ok_sweep: "entries_ok m \<Longrightarrow> entries_ok (filter P m)"
  by (auto simp: entries_ok_def distinct_filter_keys intro: order_trans [OF length_filter_le])

text \<open>Every insertion of a lookup rewrites the file with the whole table.\<close>

lemma seen_file:
  assumes "digest_ok C" "entries_ok (rc_map c)" "rc_path c" "- (2 ^ 63) \<le> now" "now + replayCacheTTL < 2 ^ 63"
  shows "rc_path (snd (seen C io now inner c)) \<and> entries_ok (rc_map (snd (seen C io now inner c)))"
    and "rc_file (snd (seen C io now inner c)) = rc_file c \<or>
      rc_file (snd (seen C io now inner c)) = Some (replayFileVer # map replay_line (rc_map (snd (seen C io now inner c))))"
    and "io \<Longrightarrow> inner \<noteq> [] \<Longrightarrow> fst (seen C io now inner c) = False \<Longrightarrow> length (rc_map (sweepLocked now c)) < replayCacheMax \<Longrightarrow>
      in_file (snd (seen C io now inner c)) (replayKey C inner) (now + replayCacheTTL)"
proof -
  let ?c = "snd (seen C io now inner c)"
  have sw: "entries_ok (rc_map (sweepLocked now c))" "rc_path (sweepLocked now c)" "rc_file (sweepLocked now c) = rc_file c"
    using assms(2,3) by (simp_all add: sweepLocked_def entries_ok_sweep)
  have "(rc_path ?c \<and> entries_ok (rc_map ?c)) \<and>
      (rc_file ?c = rc_file c \<or> rc_file ?c = Some (replayFileVer # map replay_line (rc_map ?c))) \<and>
      (io \<longrightarrow> inner \<noteq> [] \<longrightarrow> \<not> fst (seen C io now inner c) \<longrightarrow> length (rc_map (sweepLocked now c)) < replayCacheMax \<longrightarrow>
        rc_file ?c = Some (replayFileVer # map replay_line (rc_map ?c)))"
  proof (cases "inner = []")
    case True
    with assms(2,3) show ?thesis by (simp add: seen_def)
  next
    case False
    then show ?thesis
    proof (cases rule: seen_cases [of inner c C now io])
      case hit
      with assms(2,3) show ?thesis by (cases io) simp_all
    next
      case (full c1)
      with sw assms(2,3) show ?thesis by auto
    next
      case (new c1)
      have c1: "entries_ok (rc_map c1)" "rc_path c1" "rc_file c1 = rc_file c" using new(1) sw assms(2,3) by auto
      have "entries_ok (AList.update (replayKey C inner) (now + replayCacheTTL) (rc_map c1))"
        using c1(1) new(2) assms(1,4,5) digest_okD(1) [OF assms(1)]
          set_update [of "replayKey C inner" "now + replayCacheTTL" "rc_map c1"]
        by (fastforce simp: entries_ok_def distinct_update length_update replayKey_def replayCacheTTL_def)
      moreover have "rc_file ?c = (if io then Some (replayFileVer # map replay_line (rc_map ?c)) else rc_file c)"
        "rc_path ?c" "rc_map ?c = AList.update (replayKey C inner) (now + replayCacheTTL) (rc_map c1)"
        unfolding new(3) using c1 by (simp_all add: persistLocked_def)
      ultimately show ?thesis by (cases io) simp_all
    qed
  qed
  note all = this
  from all show "rc_path ?c \<and> entries_ok (rc_map ?c)" by blast
  from all show "rc_file ?c = rc_file c \<or> rc_file ?c = Some (replayFileVer # map replay_line (rc_map ?c))" by blast
  assume h: "io" "inner \<noteq> []" "fst (seen C io now inner c) = False" "length (rc_map (sweepLocked now c)) < replayCacheMax"
  from all h seen_records [OF h(2-4)] show "in_file ?c (replayKey C inner) (now + replayCacheTTL)"
    unfolding in_file_def by blast
qed

lemma seen_all_file:
  assumes "digest_ok C" "entries_ok (rc_map c)" "rc_path c" "in_file c k e" "map_of (rc_map c) k = Some e"
    "\<forall>(now, io, inner) \<in> set xs. - (2 ^ 63) \<le> now \<and> now + replayCacheTTL < 2 ^ 63 \<and> now < e"
  shows "rc_path (seen_all C xs c) \<and> in_file (seen_all C xs c) k e"
  using assms(2-)
proof (induction xs arbitrary: c)
  case (Cons x xs)
  obtain now io inner where x: "x = (now, io, inner)" by (cases x)
  let ?c = "snd (seen C io now inner c)"
  from Cons.prems(5) x have n: "- (2 ^ 63) \<le> now" "now + replayCacheTTL < 2 ^ 63" "now < e" by auto
  note F = seen_file [OF assms(1) Cons.prems(1,2) n(1,2), where io = io and inner = inner]
  have inv: "replay_inv c" using Cons.prems(1) by (auto simp: entries_ok_def replay_inv_def)
  note k = seen_keeps [OF inv Cons.prems(4) n(3), where C = C and io = io and inner = inner]
  have "in_file ?c k e" using F(1,2) k Cons.prems(3) unfolding in_file_def by metis
  with Cons.IH [of ?c] F(1) k Cons.prems(5) x show ?case by auto
qed simp

lemma load_lines_inv:
  assumes "distinct (map fst m)" "length m < replayCacheMax" "\<forall>(k, e) \<in> set m. length k = 32"
  shows "distinct (map fst (load_lines now ls m)) \<and> length (load_lines now ls m) \<le> replayCacheMax \<and>
     (\<forall>(k, e) \<in> set (load_lines now ls m). length k = 32)"
  using assms
proof (induction ls arbitrary: m)
  case (Cons l ls)
  show ?case
  proof (cases "parseReplayLine (trim_space l)")
    case None
    with Cons show ?thesis by (simp add: Let_def)
  next
    case (Some ke)
    obtain k e where ke: "ke = (k, e)" by (cases ke)
    with Some have k: "length k = 32" by (auto simp: parseReplayLine_def split: option.splits prod.splits if_splits)
    have u: "distinct (map fst (AList.update k e m))" "length (AList.update k e m) \<le> replayCacheMax"
      "\<forall>(k, e) \<in> set (AList.update k e m). length k = 32"
      using Cons.prems k set_update [of k e m] by (auto simp: distinct_update length_update)
    show ?thesis
      using Cons.IH [of m] Cons.IH [of "AList.update k e m"] Cons.prems u Some ke by (simp add: Let_def not_le)
  qed
qed simp

text \<open>Loading any file, damaged or hostile, gives a table that satisfies the invariant.\<close>

lemma loadReplayCache_inv: "replay_inv (loadReplayCache now file path)"
  using load_lines_inv [of "[]" now]
  by (auto simp: loadReplayCache_def newReplayCache_def replay_inv_def replayCacheMax_def split: option.split list.split)

section \<open>A replay is recognised\<close>

text \<open>
  Within an hour, a first datagram that authenticated once is recognised: after \<open>seen\<close>
  answered no at \<open>now\<close> for a table with room (fewer than 65536 entries that have not
  expired), \<open>seen\<close> answers yes for the same datagram at any time before \<open>now\<close> plus one
  hour, whatever other lookups happened in between, in any number, with sweeps of a full table
  among them and with the file written or not.
\<close>
theorem replay_detected:
  assumes "replay_inv c" "digest_ok C" "inner \<noteq> []" "length (rc_map (sweepLocked now c)) < replayCacheMax"
    "seen C io now inner c = (False, c1)"
    "\<forall>(t, ok, other) \<in> set xs. t < now + replayCacheTTL" "later < now + replayCacheTTL"
  shows "seen C io' later inner (seen_all C xs c1) = (True, seen_all C xs c1)"
proof -
  have "map_of (rc_map c1) (replayKey C inner) = Some (now + replayCacheTTL)"
    using seen_records [of inner C io now c] assms(3-5) by simp
  moreover have "replay_inv c1" using seen_inv [OF assms(1,2), of io now inner] assms(5) by simp
  ultimately show ?thesis using seen_all_keeps [OF _ assms(2) _ assms(6)] seen_hit [OF assms(3) _ assms(7)] by blast
qed

theorem replay_detected_witness:
  "\<exists>c1. seen demo_crypto True 10 [1, 2] newReplayCache = (False, c1) \<and>
     fst (seen demo_crypto True 30 [1, 2] (seen_all demo_crypto [(20, False, [7])] c1)) = True"
proof -
  define c1 where "c1 = snd (seen demo_crypto True 10 [1, 2] newReplayCache)"
  have e: "seen demo_crypto True 10 [1, 2] newReplayCache = (False, c1)"
    by (simp add: c1_def seen_def newReplayCache_def replayCacheMax_def Let_def)
  have "replay_inv newReplayCache" "length (rc_map (sweepLocked 10 newReplayCache)) < replayCacheMax"
    by (simp_all add: newReplayCache_def replay_inv_def sweepLocked_def replayCacheMax_def)
  moreover have "\<forall>(t, ok, other) \<in> set [(20 :: int, False, [7 :: byte])]. t < 10 + replayCacheTTL" "30 < 10 + replayCacheTTL"
    by (simp_all add: replayCacheTTL_def)
  ultimately show ?thesis
    using replay_detected [OF _ demo_digest_ok _ _ e, of "[(20, False, [7])]" 30 True] e by auto
qed

text \<open>
  C12. Across restarts: if the lookup that recorded the datagram could write the file, then
  after any further lookups, with the file written or not, a process that starts from the file
  at any time recognises the datagram as long as the hour has not passed. So an attacker gains
  nothing by waiting for a restart of the server.
\<close>
theorem replay_detected_after_restart:
  assumes "digest_ok C" "rc_path c" "entries_ok (rc_map c)" "inner \<noteq> []"
    "length (rc_map (sweepLocked now c)) < replayCacheMax" "seen C True now inner c = (False, c1)"
    "- (2 ^ 63) \<le> now" "now + replayCacheTTL < 2 ^ 63"
    "\<forall>(t, ok, other) \<in> set xs. - (2 ^ 63) \<le> t \<and> t + replayCacheTTL < 2 ^ 63 \<and> t < now + replayCacheTTL"
    "boot < now + replayCacheTTL" "later < now + replayCacheTTL"
  shows "fst (seen C io later inner (restart boot (seen_all C xs c1))) = True"
proof -
  have m: "map_of (rc_map c1) (replayKey C inner) = Some (now + replayCacheTTL)"
    using seen_records [of inner C True now c] assms(4-6) by simp
  have c1: "rc_path c1" "entries_ok (rc_map c1)" "in_file c1 (replayKey C inner) (now + replayCacheTTL)"
    using seen_file [OF assms(1,3,2,7,8), of True inner] assms(4-6) by auto
  from seen_all_file [OF assms(1) c1(2,1,3) m assms(9)] restart_keeps [OF _ _ assms(10)]
    seen_hit [OF assms(4) _ assms(11)] show ?thesis by (metis fst_conv)
qed

theorem replay_detected_after_restart_witness:
  "\<exists>c1. seen demo_crypto True 10 [1, 2] (loadReplayCache 0 None True) = (False, c1) \<and>
     fst (seen demo_crypto True 30 [1, 2] (restart 25 (seen_all demo_crypto [(20, False, [7])] c1))) = True"
proof -
  let ?c = "loadReplayCache 0 None True"
  define c1 where "c1 = snd (seen demo_crypto True 10 [1, 2] ?c)"
  have e: "seen demo_crypto True 10 [1, 2] ?c = (False, c1)"
    by (simp add: c1_def seen_def loadReplayCache_def newReplayCache_def replayCacheMax_def Let_def)
  have c: "rc_path ?c" "entries_ok (rc_map ?c)" "length (rc_map (sweepLocked 10 ?c)) < replayCacheMax"
    by (simp_all add: loadReplayCache_def newReplayCache_def entries_ok_def sweepLocked_def replayCacheMax_def)
  have "\<forall>(t, ok, other) \<in> set [(20 :: int, False, [7 :: byte])].
      - (2 ^ 63) \<le> t \<and> t + replayCacheTTL < 2 ^ 63 \<and> t < 10 + replayCacheTTL"
    "25 < 10 + replayCacheTTL" "30 < 10 + replayCacheTTL"
    by (simp_all add: replayCacheTTL_def)
  then show ?thesis
    using replay_detected_after_restart [OF demo_digest_ok c(1,2) _ c(3) e, of "[(20, False, [7])]" 25 30 True] e
    by (simp add: replayCacheTTL_def)
qed

end
