(* ===== verification/Mux.thy ===== *)
theory Mux
  imports Server_Tunnel Tunnel_Handshake Replay
begin

text \<open>
  The server's multiplexer (\<open>internal/tunnel/mux.go\<close>) and its decoy replies
  (\<open>internal/tunnel/decoy.go\<close>): many handshakes and sessions on one datagram socket. Go's
  maps are association lists with distinct keys. A session is a shared object: sessions live
  in \<open>m_tuns\<close>, and the table of sessions and the accept queue hold indices into it. Each
  operation is one step: it runs without another one in between, at one reading of the clock.
  A \<open>select\<close> with several ready cases follows \<open>e_pick\<close>.
\<close>

section \<open>State\<close>

record env =
  e_crypto :: crypto
  e_mark :: bytes                 \<comment> \<open>the process's probe mark\<close>
  e_net :: network
  e_disk :: bool                  \<comment> \<open>whether writing the replay file succeeds\<close>
  e_pick :: bool
  e_delay :: "nat \<Rightarrow> nat"         \<comment> \<open>the draws for the delays of a decoy burst\<close>

datatype telemetry_kind = TelemetryProbe | TelemetryReplay | TelemetryHandshake | TelemetryDecoy

record pending =
  p_h :: handshake_state
  p_last :: "bytes option"
  p_last_sent :: "int option"
  p_created :: int
  p_attempts :: nat
  p_backoff :: int
  p_addr :: string
  p_recvOK :: bool
  p_primed :: bool

record mux =
  m_cp :: compiled_protocol
  m_cps :: "compiled_protocol list"
  m_psk :: bytes
  m_keepalive :: int
  m_idle :: int
  m_rate :: int
  m_max :: int
  m_decoy :: "compiled_protocol option"
  m_burst :: int
  m_shape :: "int list"
  m_mask :: "noise_mask option"
  m_replays :: replay_cache
  m_telemetry :: "(telemetry_kind \<times> string) list option"   \<comment> \<open>the calls of an installed callback\<close>
  m_pending :: "(string \<times> pending) list"
  m_last_create :: "(string \<times> int) list"
  m_established :: "(string \<times> nat) list"
  m_frame_lens :: "nat list"
  m_window_start :: "int option"
  m_window_count :: nat
  m_decoys_sent :: nat
  m_ready :: "nat list"            \<comment> \<open>channel of capacity 32\<close>
  m_closed :: bool
  m_tuns :: "server_tunnel list"
  m_timers :: "(int \<times> string \<times> bytes) list"   \<comment> \<open>scheduled decoy frames\<close>
  m_io :: io

definition maxPendingHandshakes :: nat where
  "maxPendingHandshakes = 1024"

definition minFirstDatagram :: nat where
  "minFirstDatagram = 16"

definition newHandshakeMinGap :: int where
  "newHandshakeMinGap = second"

definition DefaultKeepaliveInterval :: int where
  "DefaultKeepaliveInterval = 25 * second"

definition frameLenBuckets :: "nat list" where
  "frameLenBuckets = [128, 512, 1024, 1408, 1500]"

definition NewServerMux :: "compiled_protocol \<Rightarrow> bytes \<Rightarrow> reader \<Rightarrow> mux" where
  "NewServerMux cp psk rnd =
     \<lparr>m_cp = cp, m_cps = [cp], m_psk = psk, m_keepalive = DefaultKeepaliveInterval, m_idle = 2 ^ 62, m_rate = 0,
      m_max = 0, m_decoy = None, m_burst = 0, m_shape = [], m_mask = None, m_replays = newReplayCache,
      m_telemetry = None, m_pending = [], m_last_create = [], m_established = [],
      m_frame_lens = replicate (length frameLenBuckets + 1) 0, m_window_start = None, m_window_count = 0,
      m_decoys_sent = 0, m_ready = [], m_closed = False, m_tuns = [], m_timers = [],
      m_io = \<lparr>io_out = [], io_rnd = rnd\<rparr>\<rparr>"

section \<open>Configuration\<close>

definition WithKeepalive :: "int \<Rightarrow> mux \<Rightarrow> mux" where
  "WithKeepalive d m =
     m\<lparr>m_keepalive := (if d < 0 then 2 ^ 62 else if d = 0 then DefaultKeepaliveInterval else d)\<rparr>"

definition WithIdleTimeout :: "int \<Rightarrow> mux \<Rightarrow> mux" where
  "WithIdleTimeout d m = m\<lparr>m_idle := (if d \<le> 0 then 2 ^ 62 else d)\<rparr>"

definition WithRateLimit :: "int \<Rightarrow> mux \<Rightarrow> mux" where
  "WithRateLimit bytesPerSec m = m\<lparr>m_rate := bytesPerSec\<rparr>"

definition WithMaxSessions :: "int \<Rightarrow> mux \<Rightarrow> mux" where
  "WithMaxSessions n m = m\<lparr>m_max := (if n < 0 then 0 else n)\<rparr>"

definition WithDecoy :: "compiled_protocol option \<Rightarrow> mux \<Rightarrow> mux" where
  "WithDecoy cp m = m\<lparr>m_decoy := cp\<rparr>"

definition WithDecoyBurst :: "int \<Rightarrow> mux \<Rightarrow> mux" where
  "WithDecoyBurst n m = m\<lparr>m_burst := n\<rparr>"

definition WithShapeBuckets :: "int list \<Rightarrow> mux \<Rightarrow> mux" where
  "WithShapeBuckets buckets m = m\<lparr>m_shape := buckets\<rparr>"

definition WithTxMask :: "noise_mask option \<Rightarrow> mux \<Rightarrow> mux" where
  "WithTxMask txMask m = m\<lparr>m_mask := txMask\<rparr>"

definition WithReplayPath :: "int \<Rightarrow> string list option \<Rightarrow> string \<Rightarrow> mux \<Rightarrow> mux" where
  "WithReplayPath now file path m =
     (if trim_space path = [] then m else m\<lparr>m_replays := loadReplayCache now file True\<rparr>)"

definition setProtocolsLocked :: "compiled_protocol list \<Rightarrow> mux \<Rightarrow> mux" where
  "setProtocolsLocked cps m = m\<lparr>m_cps := cps, m_cp := hd cps\<rparr>"

definition WithProtocols :: "compiled_protocol list \<Rightarrow> mux \<Rightarrow> mux" where
  "WithProtocols cps m = (if cps = [] then m else setProtocolsLocked cps m)"

definition SetProtocols :: "compiled_protocol list \<Rightarrow> mux \<Rightarrow> mux" where
  "SetProtocols cps m = (if cps = [] then m else setProtocolsLocked cps m)"

definition protocolListLocked :: "mux \<Rightarrow> compiled_protocol list" where
  "protocolListLocked m = (if m_cps m \<noteq> [] then m_cps m else [m_cp m])"

definition WithTelemetry :: "mux \<Rightarrow> mux" where
  "WithTelemetry m = m\<lparr>m_telemetry := Some []\<rparr>"

definition telemetryEvent :: "telemetry_kind \<Rightarrow> string \<Rightarrow> mux \<Rightarrow> mux" where
  "telemetryEvent kind addr m = m\<lparr>m_telemetry := map_option (\<lambda>l. l @ [(kind, addr)]) (m_telemetry m)\<rparr>"

fun bucket_index :: "nat \<Rightarrow> nat list \<Rightarrow> nat" where
  "bucket_index n [] = 0"
| "bucket_index n (b # bs) = (if n < b then 0 else Suc (bucket_index n bs))"

definition noteFrameLen :: "nat \<Rightarrow> mux \<Rightarrow> mux" where
  "noteFrameLen n m =
     (let i = bucket_index n frameLenBuckets in m\<lparr>m_frame_lens := (m_frame_lens m)[i := w64 (m_frame_lens m ! i + 1)]\<rparr>)"

section \<open>The shared socket\<close>

definition mux_write :: "env \<Rightarrow> string \<Rightarrow> bytes \<Rightarrow> mux \<Rightarrow> unit res \<times> mux" where
  "mux_write E addr frame m =
     (if maxDatagram < length frame then (Inl ErrTooLarge, m)
      else case raw_write (e_net E) addr frame (m_io m) of (x, w) \<Rightarrow> (x, m\<lparr>m_io := w\<rparr>))"

definition mux_write_async :: "env \<Rightarrow> string \<Rightarrow> bytes \<Rightarrow> mux \<Rightarrow> mux" where
  "mux_write_async E addr frame m =
     (if length frame = 0 \<or> maxDatagram < length frame then m
      else m\<lparr>m_io := snd (raw_write (e_net E) addr frame (m_io m))\<rparr>)"

definition set_rnd :: "reader \<Rightarrow> mux \<Rightarrow> mux" where
  "set_rnd rnd m = m\<lparr>m_io := m_io m\<lparr>io_rnd := rnd\<rparr>\<rparr>"

abbreviation m_rnd :: "mux \<Rightarrow> reader" where
  "m_rnd m \<equiv> io_rnd (m_io m)"

abbreviation m_out :: "mux \<Rightarrow> (string \<times> bytes) list" where
  "m_out m \<equiv> io_out (m_io m)"

section \<open>Decoys\<close>

definition maxDecoyBytes :: int where
  "maxDecoyBytes = 1200"

definition decoyAmpRatio :: int where
  "decoyAmpRatio = 3"

definition maxDecoyPerSec :: nat where
  "maxDecoyPerSec = 32"

definition maxDecoyBurst :: int where
  "maxDecoyBurst = 8"

definition DecoyGeneration :: "64 word \<Rightarrow> 64 word" where
  "DecoyGeneration g = g XOR 0xC0DEC0DEC0DEC0DE"

definition allowDecoySize :: "int \<Rightarrow> int \<Rightarrow> bool" where
  "allowDecoySize probeLen decoyLen =
     (if decoyLen \<le> 0 \<or> decoyLen > maxDecoyBytes then False
      else if decoyLen > decoyAmpRatio * probeLen then False
      else True)"

definition decoySpec :: "compiled_protocol \<Rightarrow> message_spec \<times> bytes" where
  "decoySpec cp =
     (case find (\<lambda>spec. mdirection spec = DirServer) (handshake (cgenome cp)) of
        Some spec \<Rightarrow> (spec, boot_s2c cp)
      | None \<Rightarrow> (app_record (cgenome cp), boot_s2c cp))"

definition encodeDecoyFrame :: "crypto \<Rightarrow> compiled_protocol \<Rightarrow> reader \<Rightarrow> (bytes \<times> reader) res" where
  "encodeDecoyFrame C cp rnd =
     (let (spec, key) = decoySpec cp in
      res_bind (NewMessageCodec spec key) (\<lambda>codec.
      res_bind (read_full 32 rnd) (\<lambda>(km, rnd1).
      res_bind (Encode C codec [] (\<lambda>k. if k = FieldKey then Some km else None) rnd1) (\<lambda>(frame, segments, c, rnd2).
        Inr (frame, rnd2)))))"

definition takeDecoyTokenLocked :: "int \<Rightarrow> mux \<Rightarrow> bool \<times> mux" where
  "takeDecoyTokenLocked now m =
     (let m1 = (if (case m_window_start m of None \<Rightarrow> True | Some t \<Rightarrow> second \<le> now - t)
                then m\<lparr>m_window_start := Some now, m_window_count := 0\<rparr> else m) in
      if maxDecoyPerSec \<le> m_window_count m1 then (False, m1)
      else (True, m1\<lparr>m_window_count := m_window_count m1 + 1, m_decoys_sent := w64 (m_decoys_sent m1 + 1)\<rparr>))"

definition sendDecoyFrame :: "env \<Rightarrow> int \<Rightarrow> string \<Rightarrow> bytes \<Rightarrow> mux \<Rightarrow> bool \<times> mux" where
  "sendDecoyFrame E now addr probe m =
     (case m_decoy m of
        None \<Rightarrow> (False, m)
      | Some decoy \<Rightarrow>
          (case encodeDecoyFrame (e_crypto E) decoy (m_rnd m) of
             Inl _ \<Rightarrow> (False, m)
           | Inr (frame, rnd) \<Rightarrow>
               (let (wire, rnd1) = WrapHandshakeDatagram (e_crypto E) (e_mark E) (Some (cgenome decoy)) frame rnd;
                    m1 = set_rnd rnd1 m in
                if \<not> allowDecoySize (int (length probe)) (int (length wire)) then (False, m1)
                else case takeDecoyTokenLocked now m1 of
                       (False, m2) \<Rightarrow> (False, m2)
                     | (True, m2) \<Rightarrow> (True, mux_write_async E addr wire (telemetryEvent TelemetryDecoy addr m2)))))"

definition follow_ups :: "env \<Rightarrow> int \<Rightarrow> string \<Rightarrow> bytes \<Rightarrow> nat \<Rightarrow> (int \<times> string \<times> bytes) list" where
  "follow_ups E now addr probe burst =
     map (\<lambda>i. (now + (30 + int (e_delay E i mod 90)) * 1000000, addr, probe)) [1 ..< burst]"

definition maybeDecoy :: "env \<Rightarrow> int \<Rightarrow> string \<Rightarrow> bytes \<Rightarrow> mux \<Rightarrow> mux" where
  "maybeDecoy E now addr probe m =
     (case m_decoy m of
        None \<Rightarrow> m
      | Some _ \<Rightarrow>
          (let burst = (if m_burst m < 1 then 1 else m_burst m);
               burst1 = (if maxDecoyBurst < burst then maxDecoyBurst else burst) in
           case sendDecoyFrame E now addr probe m of
             (False, m1) \<Rightarrow> m1
           | (True, m1) \<Rightarrow> m1\<lparr>m_timers := m_timers m1 @ follow_ups E now addr probe (nat burst1)\<rparr>))"

text \<open>A timer that is due sends its frame, whatever became of the multiplexer.\<close>

definition fire_timer :: "env \<Rightarrow> int \<Rightarrow> nat \<Rightarrow> mux \<Rightarrow> mux" where
  "fire_timer E now i m =
     (if i < length (m_timers m) \<and> fst (m_timers m ! i) \<le> now
      then snd (sendDecoyFrame E now (fst (snd (m_timers m ! i))) (snd (snd (m_timers m ! i)))
             (m\<lparr>m_timers := take i (m_timers m) @ drop (Suc i) (m_timers m)\<rparr>))
      else m)"

section \<open>Sessions\<close>

definition closeTunnel :: "nat \<Rightarrow> mux \<Rightarrow> mux" where
  "closeTunnel i m =
     (if \<not> i < length (m_tuns m) \<or> s_closed (m_tuns m ! i) then m
      else m\<lparr>m_tuns := (m_tuns m)[i := (m_tuns m ! i)\<lparr>s_closed := True\<rparr>],
             m_established := AList.delete (s_peer (m_tuns m ! i)) (m_established m)\<rparr>)"

text \<open>An operation of session \<open>i\<close> that may write to the socket.\<close>

definition with_tunnel :: "nat \<Rightarrow> (server_tunnel \<Rightarrow> io \<Rightarrow> server_tunnel \<times> io) \<Rightarrow> mux \<Rightarrow> mux" where
  "with_tunnel i f m =
     (if i < length (m_tuns m) then
        case f (m_tuns m ! i) (m_io m) of (t, w) \<Rightarrow> m\<lparr>m_tuns := (m_tuns m)[i := t], m_io := w\<rparr>
      else m)"

definition sweep_one :: "env \<Rightarrow> int \<Rightarrow> nat \<Rightarrow> mux \<Rightarrow> mux" where
  "sweep_one E now i m =
     (if s_closed (m_tuns m ! i) then m
      else if m_idle m \<le> s_idleFor now (m_tuns m ! i) then closeTunnel i m
      else if 0 < m_keepalive m
      then with_tunnel i (s_sendKeepalive (e_crypto E) (e_net E) now (m_keepalive m)) m
      else m)"

definition sweepSessions :: "env \<Rightarrow> int \<Rightarrow> mux \<Rightarrow> mux" where
  "sweepSessions E now m = fold (sweep_one E now) (map snd (m_established m)) m"

definition BroadcastControl :: "env \<Rightarrow> int \<Rightarrow> bytes \<Rightarrow> mux \<Rightarrow> mux" where
  "BroadcastControl E now payload m =
     fold (\<lambda>i. with_tunnel i (\<lambda>t w. snd (s_SendControlRaw (e_crypto E) (e_net E) now payload t w)))
       (map snd (m_established m)) m"

text \<open>Without a session and without being closed, \<open>Accept\<close> waits: none.\<close>

definition Accept :: "env \<Rightarrow> mux \<Rightarrow> nat res option \<times> mux" where
  "Accept E m =
     (case m_ready m of
        [] \<Rightarrow> if m_closed m then (Some (Inl ErrClosed), m) else (None, m)
      | i # rest \<Rightarrow>
          if m_closed m \<and> \<not> e_pick E then (Some (Inl ErrClosed), m)
          else (Some (Inr i), m\<lparr>m_ready := rest\<rparr>))"

definition mux_Close :: "mux \<Rightarrow> mux" where
  "mux_Close m =
     (if m_closed m then m
      else fold closeTunnel (map snd (m_established m))
             (m\<lparr>m_closed := True, m_established := [], m_pending := [], m_last_create := []\<rparr>))"

section \<open>Handshakes\<close>

definition put_pending :: "pending \<Rightarrow> mux \<Rightarrow> mux" where
  "put_pending p m = m\<lparr>m_pending := AList.update (p_addr p) p (m_pending m)\<rparr>"

definition drop_pending :: "string \<Rightarrow> mux \<Rightarrow> mux" where
  "drop_pending key m =
     m\<lparr>m_pending := AList.delete key (m_pending m), m_last_create := AList.delete key (m_last_create m)\<rparr>"

definition abandonPending :: "string \<Rightarrow> mux \<Rightarrow> mux" where
  "abandonPending addr m =
     telemetryEvent TelemetryProbe addr (m\<lparr>m_pending := AList.delete addr (m_pending m)\<rparr>)"

definition new_tunnel :: "int \<Rightarrow> pending \<Rightarrow> packet_session \<Rightarrow> mux \<Rightarrow> server_tunnel" where
  "new_tunnel now p sess m =
     \<lparr>s_peer = p_addr p, s_sess = (if m_shape m = [] then sess else SetShapeBuckets sess (m_shape m)),
      s_recv = [], s_closed = False, s_peer_base = 0, s_ack_due = 0, s_last_active = now,
      s_limiter = newTokenBucket now (m_rate m) (m_rate m), s_mask = m_mask m,
      s_generation = generation (cgenome (hcp (p_h p)))\<rparr>"

text \<open>The end of \<open>finishHandshake\<close>: list the session and offer it to \<open>Accept\<close>, or shed it.\<close>

definition publish :: "env \<Rightarrow> server_tunnel \<Rightarrow> mux \<Rightarrow> mux" where
  "publish E tun m =
     (if map_of (m_established m) (s_peer tun) \<noteq> None then m
      else if 0 < m_max m \<and> m_max m \<le> int (length (m_established m))
      then m\<lparr>m_established := AList.delete (s_peer tun) (m_established m)\<rparr>
      else
        let i = length (m_tuns m);
            m1 = m\<lparr>m_tuns := m_tuns m @ [tun], m_established := AList.update (s_peer tun) i (m_established m)\<rparr> in
        if length (m_ready m1) < 32 \<and> (\<not> m_closed m1 \<or> e_pick E) then m1\<lparr>m_ready := m_ready m1 @ [i]\<rparr>
        else closeTunnel i m1)"

definition finishHandshake :: "env \<Rightarrow> int \<Rightarrow> pending \<Rightarrow> mux \<Rightarrow> mux" where
  "finishHandshake E now p m =
     (case FinishPacket (e_crypto E) (p_h p) of
        Inl _ \<Rightarrow> m
      | Inr sess \<Rightarrow>
          publish E (new_tunnel now p sess m) (drop_pending (p_addr p) (telemetryEvent TelemetryHandshake (p_addr p) m)))"

text \<open>
  The loop of \<open>sendOutgoing\<close> advances the handshake in every round, so the number of steps
  left is enough fuel. An encoded frame is never empty: it ends in a 16 byte tag.
\<close>

fun send_outgoing :: "env \<Rightarrow> int \<Rightarrow> nat \<Rightarrow> pending \<Rightarrow> mux \<Rightarrow> pending \<times> mux" where
  "send_outgoing E now 0 p m = (p, m)"
| "send_outgoing E now (Suc fuel) p m =
     (if Done (p_h p) then (p, m)
      else case CurrentSpec (p_h p) of
             Inl _ \<Rightarrow> (p, m)
           | Inr spec \<Rightarrow>
               if mdirection spec \<noteq> DirServer then (p, m)
               else case EncodeStep (e_crypto E) (p_h p) (m_rnd m) of
                      Inl _ \<Rightarrow> (p, m)
                    | Inr (frame, segments, h, rnd) \<Rightarrow>
                        (let p1 = p\<lparr>p_h := h, p_last := Some frame, p_last_sent := Some now\<rparr>;
                             (wire, rnd1) = WrapDatagram (e_crypto E) (e_mark E) (Some h) frame rnd in
                         case mux_write E (p_addr p1) wire (set_rnd rnd1 m) of
                           (Inl _, m1) \<Rightarrow> (p1, m1)
                         | (Inr _, m1) \<Rightarrow> send_outgoing E now fuel p1 m1))"

definition sendOutgoing :: "env \<Rightarrow> int \<Rightarrow> pending \<Rightarrow> mux \<Rightarrow> pending \<times> mux" where
  "sendOutgoing E now p m =
     (case send_outgoing E now (length (hcodecs (p_h p)) - hidx (p_h p)) p m of (p1, m1) \<Rightarrow> (p1, put_pending p1 m1))"

text \<open>\<open>send_and_finish\<close>: the common end of the branches of \<open>advance\<close>.\<close>

definition send_and_finish :: "env \<Rightarrow> int \<Rightarrow> pending \<Rightarrow> mux \<Rightarrow> mux" where
  "send_and_finish E now p m =
     (case sendOutgoing E now p m of (p1, m1) \<Rightarrow> if Done (p_h p1) then finishHandshake E now p1 m1 else m1)"

definition progress :: "env \<Rightarrow> int \<Rightarrow> bytes \<Rightarrow> pending \<Rightarrow> mux \<Rightarrow> mux" where
  "progress E now data p m =
     (let p1 = p\<lparr>p_recvOK := True, p_last := None, p_attempts := 0, p_backoff := retransmitBase\<rparr>;
          m1 = noteFrameLen (length data) (put_pending p1 m) in
      if Done (p_h p1) then finishHandshake E now p1 m1 else send_and_finish E now p1 m1)"

definition advance :: "env \<Rightarrow> int \<Rightarrow> pending \<Rightarrow> bytes \<Rightarrow> mux \<Rightarrow> mux" where
  "advance E now p data m =
     (if p_primed p then progress E now data (p\<lparr>p_primed := False\<rparr>) m
      else case CurrentSpec (p_h p) of
             Inl _ \<Rightarrow> m
           | Inr spec \<Rightarrow>
               if mdirection spec = DirServer then send_and_finish E now p m
               else
                 let progressed = p_recvOK p \<or> p_last p \<noteq> None in
                 case UnwrapDatagram (e_crypto E) (Some (p_h p)) data of
                   Inl _ \<Rightarrow> if progressed then m else maybeDecoy E now (p_addr p) data (abandonPending (p_addr p) m)
                 | Inr inner \<Rightarrow>
                     (case RecvStep (e_crypto E) (p_h p) inner of
                        (Inl _, h) \<Rightarrow>
                          if progressed then put_pending (p\<lparr>p_h := h\<rparr>) m
                          else maybeDecoy E now (p_addr p) data (abandonPending (p_addr p) m)
                      | (Inr _, h) \<Rightarrow> progress E now data (p\<lparr>p_h := h\<rparr>) m))"

text \<open>
  The loop over the window of protocols: either it decides, or it leaves the first handshake
  and the first server-first one. A refused datagram may still have changed the first.
\<close>

fun select_loop ::
  "env \<Rightarrow> int \<Rightarrow> string \<Rightarrow> bytes \<Rightarrow> compiled_protocol list \<Rightarrow> bool \<Rightarrow> handshake_state option \<Rightarrow>
     handshake_state option \<Rightarrow> mux \<Rightarrow>
     ((handshake_state \<times> bool) res + handshake_state option \<times> handshake_state option) \<times> mux" where
  "select_loop E now addr data [] start primary serverFirst m = (Inr (primary, serverFirst), m)"
| "select_loop E now addr data (cp # cps) start primary serverFirst m =
     (case NewHandshake cp DirServer (m_psk m) (m_rnd m) of
        Inl _ \<Rightarrow> select_loop E now addr data cps False primary serverFirst m
      | Inr (h, rnd) \<Rightarrow>
          (let m1 = set_rnd rnd m; primary1 = (if start then Some h else primary) in
           case CurrentSpec h of
             Inl _ \<Rightarrow> select_loop E now addr data cps False primary1 serverFirst m1
           | Inr spec \<Rightarrow>
               if mdirection spec = DirServer then
                 select_loop E now addr data cps False primary1 (if serverFirst = None then Some h else serverFirst) m1
               else
                 case UnwrapHandshakeDatagram (e_crypto E) (Some (cgenome cp)) data of
                   Inl _ \<Rightarrow> select_loop E now addr data cps False primary1 serverFirst m1
                 | Inr inner \<Rightarrow>
                     (case DeclaredFrame spec inner of
                        Inl _ \<Rightarrow> select_loop E now addr data cps False primary1 serverFirst m1
                      | Inr trimmed \<Rightarrow>
                          (case RecvStep (e_crypto E) h trimmed of
                             (Inl _, h1) \<Rightarrow>
                               select_loop E now addr data cps False (if start then Some h1 else primary) serverFirst m1
                           | (Inr _, h1) \<Rightarrow>
                               (case seen (e_crypto E) (e_disk E) now trimmed (m_replays m1) of
                                  (True, c) \<Rightarrow>
                                    (Inl (Inl ErrProbe), telemetryEvent TelemetryReplay addr (m1\<lparr>m_replays := c\<rparr>))
                                | (False, c) \<Rightarrow> (Inl (Inr (h1, True)), m1\<lparr>m_replays := c\<rparr>))))))"

definition selectHandshake ::
  "env \<Rightarrow> int \<Rightarrow> string \<Rightarrow> bytes \<Rightarrow> mux \<Rightarrow> (handshake_state \<times> bool) res \<times> mux" where
  "selectHandshake E now addr data m =
     (let cps = protocolListLocked m in
      if cps = [] then (Inl ErrNoProtocol, m)
      else case select_loop E now addr data cps True None None m of
             (Inl x, m1) \<Rightarrow> (x, m1)
           | (Inr (None, serverFirst), m1) \<Rightarrow> (Inl ErrNoProtocol, m1)
           | (Inr (Some primary, serverFirst), m1) \<Rightarrow>
               (case CurrentSpec primary of
                  Inl _ \<Rightarrow> (Inr (primary, False), m1)
                | Inr spec \<Rightarrow>
                    (case serverFirst of
                       Some sf \<Rightarrow>
                         if mdirection spec = DirServer then
                           (case UnwrapHandshakeDatagram (e_crypto E) (Some (cgenome (hd cps))) data of
                              Inl _ \<Rightarrow> (Inl ErrProbe, m1)
                            | Inr inner \<Rightarrow>
                                if \<not> VerifyKnock (e_crypto E) (m_psk m1) inner then (Inl ErrProbe, m1)
                                else case seen (e_crypto E) (e_disk E) now (KnockReplayKey inner) (m_replays m1) of
                                       (True, c) \<Rightarrow>
                                         (Inl ErrProbe, telemetryEvent TelemetryReplay addr (m1\<lparr>m_replays := c\<rparr>))
                                     | (False, c) \<Rightarrow> (Inr (sf, False), m1\<lparr>m_replays := c\<rparr>))
                         else (Inr (primary, False), m1)
                     | None \<Rightarrow> (Inr (primary, False), m1))))"

definition handleDatagram :: "env \<Rightarrow> int \<Rightarrow> string \<Rightarrow> bytes \<Rightarrow> mux \<Rightarrow> mux" where
  "handleDatagram E now addr data m =
     (case map_of (m_established m) addr of
        Some i \<Rightarrow>
          (case s_receive (e_crypto E) (e_net E) (e_pick E) now data (m_tuns m ! i) (m_io m) of
             (counted, t, w) \<Rightarrow>
               (let m1 = m\<lparr>m_tuns := (m_tuns m)[i := t], m_io := w\<rparr> in
                if counted then noteFrameLen (length data) m1 else m1))
      | None \<Rightarrow>
          (case map_of (m_pending m) addr of
             Some p \<Rightarrow> advance E now p data m
           | None \<Rightarrow>
               if length data < minFirstDatagram then m
               else if (case map_of (m_last_create m) addr of None \<Rightarrow> False | Some t \<Rightarrow> now - t < newHandshakeMinGap) then m
               else if maxPendingHandshakes \<le> length (m_pending m) then m
               else if 0 < m_max m \<and> m_max m \<le> int (length (m_established m) + length (m_pending m))
               then maybeDecoy E now addr data (m\<lparr>m_last_create := AList.update addr now (m_last_create m)\<rparr>)
               else case selectHandshake E now addr data m of
                      (Inl _, m1) \<Rightarrow> maybeDecoy E now addr data m1
                    | (Inr (h, primed), m1) \<Rightarrow>
                        (let p = \<lparr>p_h = h, p_last = None, p_last_sent = None, p_created = now, p_attempts = 0,
                                  p_backoff = retransmitBase, p_addr = addr, p_recvOK = False, p_primed = primed\<rparr> in
                         advance E now p data
                           ((put_pending p m1)\<lparr>m_last_create := AList.update addr now (m_last_create m1)\<rparr>))))"

text \<open>One round of the read loop: a datagram is cut at the size of the buffer.\<close>

definition read_loop_step :: "env \<Rightarrow> int \<Rightarrow> string \<Rightarrow> bytes \<Rightarrow> mux \<Rightarrow> mux" where
  "read_loop_step E now addr buf m = handleDatagram E now addr (take maxDatagram buf) m"

section \<open>The timer\<close>

definition retransmit_one :: "env \<Rightarrow> int \<Rightarrow> pending \<Rightarrow> mux \<Rightarrow> mux" where
  "retransmit_one E now p m =
     (if Done (p_h p) \<or> handshakeTimeout < now - p_created p then drop_pending (p_addr p) m
      else case (p_last p, p_last_sent p) of
             (Some frame, Some sent) \<Rightarrow>
               if now - sent \<ge> p_backoff p then
                 (let (wire, rnd) = WrapDatagram (e_crypto E) (e_mark E) (Some (p_h p)) frame (m_rnd m) in
                  case mux_write E (p_addr p) wire (set_rnd rnd m) of
                    (Inl _, m1) \<Rightarrow> m1
                  | (Inr _, m1) \<Rightarrow>
                      put_pending (p\<lparr>p_last_sent := Some now, p_attempts := p_attempts p + 1,
                        p_backoff := retransmitBase * 2 ^ min (p_attempts p + 1) 4\<rparr>) m1)
               else m
           | _ \<Rightarrow> m)"

definition retransmit :: "env \<Rightarrow> int \<Rightarrow> mux \<Rightarrow> mux" where
  "retransmit E now m = fold (retransmit_one E now) (map snd (m_pending m)) m"

definition timer_tick :: "env \<Rightarrow> int \<Rightarrow> mux \<Rightarrow> mux" where
  "timer_tick E now m = sweepSessions E now (retransmit E now m)"

end
