(* ===== verification/Mux_Invariant.thy ===== *)
theory Mux_Invariant
  imports Mux
begin

text \<open>
  The invariant of the multiplexer's tables: handshakes and sessions are disjoint and within
  their bounds, a session is listed exactly as long as it is open, the queues and the decoy
  counter respect their capacities. It is proved for every step of the read loop, the timer
  and the application, so it holds in every reachable state.
\<close>

section \<open>Sessions\<close>

text \<open>What no operation of a session but closing changes.\<close>

definition keeps :: "server_tunnel \<Rightarrow> server_tunnel \<Rightarrow> bool" where
  "keeps t t' \<longleftrightarrow>
     s_peer t' = s_peer t \<and> s_closed t' = s_closed t \<and> s_generation t' = s_generation t \<and>
     (length (s_recv t) \<le> 128 \<longrightarrow> length (s_recv t') \<le> 128)"

lemma keeps_refl [simp]: "keeps t t"
  by (simp add: keeps_def)

lemma keeps_trans [trans]: "keeps t1 t2 \<Longrightarrow> keeps t2 t3 \<Longrightarrow> keeps t1 t3"
  by (simp add: keeps_def)

lemma keeps_updates [simp]:
  "keeps t (t\<lparr>s_sess := a\<rparr>)" "keeps t (t\<lparr>s_peer_base := b\<rparr>)" "keeps t (t\<lparr>s_ack_due := b\<rparr>)"
  "keeps t (t\<lparr>s_last_active := c\<rparr>)" "keeps t (t\<lparr>s_limiter := d\<rparr>)" "keeps t (t\<lparr>s_mask := e\<rparr>)"
  by (simp_all add: keeps_def)

lemma keeps_write: "s_write net now frame t w = (x, t', w') \<Longrightarrow> keeps t t'"
  by (auto simp: s_write_def split: if_splits prod.splits)

lemma keeps_write_async: "keeps t (fst (s_write_async net now frame t w))"
  by (auto simp: s_write_async_def split: if_splits prod.splits)

lemma keeps_encode: "s_encode C payload t w = (x, t', w') \<Longrightarrow> keeps t t'"
  by (auto simp: s_encode_def split: sum.splits)

lemma keeps_observe: "keeps t (s_observeAck b t)"
  by (simp add: s_observeAck_def)

lemma keeps_loss_control: "keeps t (fst (s_maybeSendLossControl C net now t w))"
proof (cases "s_unackedSpan (snd (AckState (s_sess t))) t < skipSpan")
  case False
  obtain x t1 w1 where e: "s_encode C (encodeSkipPayload (snd (AckState (s_sess t)))) t w = (x, t1, w1)" by (metis prod_cases3)
  show ?thesis
  proof (cases x)
    case (Inl err)
    with False e keeps_encode [OF e] show ?thesis by (simp add: s_maybeSendLossControl_def)
  next
    case (Inr frame)
    obtain y t2 w2 where f: "s_write net now frame t1 w1 = (y, t2, w2)" by (metis prod_cases3)
    have k: "keeps t t2" using keeps_encode [OF e] keeps_write [OF f] by (rule keeps_trans)
    with False e Inr f keeps_trans [OF k keeps_observe] show ?thesis
      by (cases y) (simp_all add: s_maybeSendLossControl_def)
  qed
qed (simp add: s_maybeSendLossControl_def)

lemma keeps_send: "keeps t (fst (snd (s_SendPacket C net now packet t w)))"
proof (cases "s_closed t")
  case False
  obtain x t1 w1 where e: "s_encode C packet t w = (x, t1, w1)" by (metis prod_cases3)
  show ?thesis
  proof (cases x)
    case (Inl err)
    with False e keeps_encode [OF e] show ?thesis by (simp add: s_SendPacket_def)
  next
    case (Inr frame)
    obtain y t2 w2 where f: "s_write net now frame t1 w1 = (y, t2, w2)" by (metis prod_cases3)
    have k: "keeps t t2" using keeps_encode [OF e] keeps_write [OF f] by (rule keeps_trans)
    from False e Inr f k keeps_trans [OF k keeps_loss_control] show ?thesis
      by (cases y) (simp_all add: s_SendPacket_def case_prod_beta)
  qed
qed (simp add: s_SendPacket_def)

lemma keeps_keepalive: "keeps t (fst (s_sendKeepalive C net now interval t w))"
proof (cases "s_idleFor now t < interval")
  case False
  obtain x t1 w1 where e: "s_encode C [ControlKeepalive] t w = (x, t1, w1)" by (metis prod_cases3)
  show ?thesis
    using False e keeps_encode [OF e] keeps_trans [OF keeps_encode [OF e] keeps_write_async]
    by (cases x) (simp_all add: s_sendKeepalive_def)
qed (simp add: s_sendKeepalive_def)

lemma keeps_handle: "s_handleLossControl pkt t = (x, t') \<Longrightarrow> keeps t t'"
  by (auto simp: s_handleLossControl_def keeps_observe split: list.splits if_splits sum.splits prod.splits)

lemma keeps_note: "s_noteDecoded t = (x, t') \<Longrightarrow> keeps t t'"
  by (auto simp: s_noteDecoded_def Let_def split: if_splits)

lemma keeps_feed: "keeps t (snd (feed pick pkt t))"
  by (simp add: feed_def keeps_def)

lemma keeps_try: "keeps t (snd (TryReceive pick t))"
  by (auto simp: TryReceive_def keeps_def split: list.split)

lemma keeps_receive: "keeps t (fst (snd (s_receive C net pick now data t w)))"
proof (cases "sess_decode C (s_sess t) data")
  case (Inr ms)
  obtain msg s where ms: "ms = (msg, s)" by (cases ms)
  define t1 where "t1 = s_touch now (t\<lparr>s_sess := s\<rparr>)"
  have k1: "keeps t t1" by (simp add: t1_def s_touch_def keeps_def)
  obtain ok b where l: "take_tokens now (length data) (s_limiter t1) = (ok, b)" by (cases "take_tokens now (length data) (s_limiter t1)")
  have k2: "keeps t (t1\<lparr>s_limiter := b\<rparr>)" using k1 keeps_updates(5) by (rule keeps_trans)
  obtain c t2 where h: "s_handleLossControl (msg_payload msg) (t1\<lparr>s_limiter := b\<rparr>) = (c, t2)" by fastforce
  have k3: "keeps t t2" using k2 keeps_handle [OF h] by (rule keeps_trans)
  obtain due t3 where n: "s_noteDecoded t2 = (due, t3)" by fastforce
  have k4: "keeps t t3" using k3 keeps_note [OF n] by (rule keeps_trans)
  obtain x t4 w4 where e: "s_encode C (encodeAckPayload (fst (AckState (s_sess t3)))) t3 w = (x, t4, w4)" by (metis prod_cases3)
  have k5: "keeps t t4" using k4 keeps_encode [OF e] by (rule keeps_trans)
  have k6: "keeps t (fst (s_write_async net now frame t4 w4))" for frame using k5 keeps_write_async by (rule keeps_trans)
  show ?thesis
    using Inr ms l h n e k2 k3 keeps_trans [OF k4 keeps_feed] keeps_trans [OF k5 keeps_feed] keeps_trans [OF k6 keeps_feed]
    unfolding s_receive_def t1_def [symmetric]
    by (cases ok; cases c; cases due; cases x) (simp_all add: Let_def t1_def [symmetric] case_prod_beta)
qed (simp add: s_receive_def)

section \<open>The tables\<close>

definition tables_inv :: "mux \<Rightarrow> bool" where
  "tables_inv m \<longleftrightarrow>
     distinct (map fst (m_pending m)) \<and> (\<forall>(k, p) \<in> set (m_pending m). p_addr p = k) \<and>
     distinct (map fst (m_established m)) \<and>
     (\<forall>(k, i) \<in> set (m_established m). i < length (m_tuns m) \<and> s_peer (m_tuns m ! i) = k \<and> \<not> s_closed (m_tuns m ! i)) \<and>
     (\<forall>i < length (m_tuns m). \<not> s_closed (m_tuns m ! i) \<longrightarrow> map_of (m_established m) (s_peer (m_tuns m ! i)) = Some i) \<and>
     (\<forall>k. map_of (m_established m) k = None \<or> map_of (m_pending m) k = None) \<and>
     length (m_pending m) \<le> maxPendingHandshakes \<and>
     (0 < m_max m \<longrightarrow> int (length (m_established m) + length (m_pending m)) \<le> m_max m) \<and>
     length (m_ready m) \<le> 32 \<and> (\<forall>i \<in> set (m_ready m). i < length (m_tuns m)) \<and>
     (\<forall>t \<in> set (m_tuns m). length (s_recv t) \<le> 128)"

lemma tables_invI:
  assumes "distinct (map fst (m_pending m))" "\<And>k p. (k, p) \<in> set (m_pending m) \<Longrightarrow> p_addr p = k"
    "distinct (map fst (m_established m))"
    "\<And>k i. (k, i) \<in> set (m_established m) \<Longrightarrow> i < length (m_tuns m) \<and> s_peer (m_tuns m ! i) = k \<and> \<not> s_closed (m_tuns m ! i)"
    "\<And>i. i < length (m_tuns m) \<Longrightarrow> \<not> s_closed (m_tuns m ! i) \<Longrightarrow> map_of (m_established m) (s_peer (m_tuns m ! i)) = Some i"
    "\<And>k. map_of (m_established m) k = None \<or> map_of (m_pending m) k = None"
    "length (m_pending m) \<le> maxPendingHandshakes"
    "0 < m_max m \<Longrightarrow> int (length (m_established m) + length (m_pending m)) \<le> m_max m"
    "length (m_ready m) \<le> 32" "\<And>i. i \<in> set (m_ready m) \<Longrightarrow> i < length (m_tuns m)"
    "\<And>t. t \<in> set (m_tuns m) \<Longrightarrow> length (s_recv t) \<le> 128"
  shows "tables_inv m"
  unfolding tables_inv_def
proof (intro conjI)
  show "\<forall>(k, p) \<in> set (m_pending m). p_addr p = k" using assms(2) by auto
  show "\<forall>(k, i) \<in> set (m_established m). i < length (m_tuns m) \<and> s_peer (m_tuns m ! i) = k \<and> \<not> s_closed (m_tuns m ! i)"
    using assms(4) by auto
qed (use assms(1,3,5-) in simp_all)

lemma tables_invD:
  assumes "tables_inv m"
  shows "distinct (map fst (m_pending m))" "\<And>k p. (k, p) \<in> set (m_pending m) \<Longrightarrow> p_addr p = k"
    "distinct (map fst (m_established m))"
    "\<And>k i. (k, i) \<in> set (m_established m) \<Longrightarrow> i < length (m_tuns m) \<and> s_peer (m_tuns m ! i) = k \<and> \<not> s_closed (m_tuns m ! i)"
    "\<And>i. i < length (m_tuns m) \<Longrightarrow> \<not> s_closed (m_tuns m ! i) \<Longrightarrow> map_of (m_established m) (s_peer (m_tuns m ! i)) = Some i"
    "\<And>k. map_of (m_established m) k = None \<or> map_of (m_pending m) k = None"
    "length (m_pending m) \<le> maxPendingHandshakes"
    "0 < m_max m \<Longrightarrow> int (length (m_established m) + length (m_pending m)) \<le> m_max m"
    "length (m_ready m) \<le> 32" "\<And>i. i \<in> set (m_ready m) \<Longrightarrow> i < length (m_tuns m)"
    "\<And>t. t \<in> set (m_tuns m) \<Longrightarrow> length (s_recv t) \<le> 128"
  using assms by (auto simp: tables_inv_def)

text \<open>Two states with the same tables.\<close>

definition same_tables :: "mux \<Rightarrow> mux \<Rightarrow> bool" where
  "same_tables m m' \<longleftrightarrow>
     m_pending m' = m_pending m \<and> m_established m' = m_established m \<and> m_tuns m' = m_tuns m \<and>
     m_ready m' = m_ready m \<and> m_max m' = m_max m \<and> m_last_create m' = m_last_create m \<and> m_closed m' = m_closed m \<and>
     m_decoy m' = m_decoy m"

lemma same_tables_refl [simp]: "same_tables m m"
  by (simp add: same_tables_def)

lemma same_tables_trans [trans]: "same_tables m1 m2 \<Longrightarrow> same_tables m2 m3 \<Longrightarrow> same_tables m1 m3"
  by (simp add: same_tables_def)

lemma same_tables_inv: "same_tables m m' \<Longrightarrow> tables_inv m' = tables_inv m"
  by (simp add: same_tables_def tables_inv_def)

lemma same_tables_updates [simp]:
  "same_tables m (telemetryEvent k a m)" "same_tables m (noteFrameLen n m)" "same_tables m (set_rnd rnd m)"
  "same_tables m (m\<lparr>m_io := w\<rparr>)" "same_tables m (m\<lparr>m_replays := c\<rparr>)" "same_tables m (m\<lparr>m_timers := ts\<rparr>)"
  by (simp_all add: same_tables_def telemetryEvent_def noteFrameLen_def set_rnd_def Let_def)

lemma same_tables_write: "mux_write E addr frame m = (x, m') \<Longrightarrow> same_tables m m'"
  by (auto simp: mux_write_def split: if_splits prod.splits)

lemma same_tables_write_async [simp]: "same_tables m (mux_write_async E addr frame m)"
  by (simp add: mux_write_async_def)

lemma same_tables_token: "takeDecoyTokenLocked now m = (x, m') \<Longrightarrow> same_tables m m'"
  by (auto simp: takeDecoyTokenLocked_def same_tables_def Let_def split: if_splits option.splits)

lemma same_tables_decoy_frame: "same_tables m (snd (sendDecoyFrame E now addr probe m))"
proof (cases "m_decoy m")
  case (Some decoy)
  show ?thesis
  proof (cases "encodeDecoyFrame (e_crypto E) decoy (m_rnd m)")
    case (Inr fr)
    obtain frame rnd where fr: "fr = (frame, rnd)" by (cases fr)
    obtain wire rnd1 where w: "WrapHandshakeDatagram (e_crypto E) (e_mark E) (Some (cgenome decoy)) frame rnd = (wire, rnd1)" by fastforce
    obtain ok m2 where t: "takeDecoyTokenLocked now (set_rnd rnd1 m) = (ok, m2)" by fastforce
    have s: "same_tables m m2" using same_tables_updates(3) same_tables_token [OF t] by (rule same_tables_trans)
    have "same_tables m (mux_write_async E addr wire (telemetryEvent TelemetryDecoy addr m2))"
      using s same_tables_updates(1) same_tables_write_async by (meson same_tables_trans)
    with Some Inr fr w t s show ?thesis by (cases ok) (simp_all add: sendDecoyFrame_def Let_def)
  qed (simp add: sendDecoyFrame_def Some)
qed (simp add: sendDecoyFrame_def)

lemma same_tables_maybeDecoy [simp]: "same_tables m (maybeDecoy E now addr probe m)"
proof (cases "m_decoy m")
  case (Some decoy)
  obtain ok m1 where d: "sendDecoyFrame E now addr probe m = (ok, m1)" by fastforce
  have "same_tables m m1" using same_tables_decoy_frame [of m E now addr probe] d by simp
  with Some d same_tables_trans [OF _ same_tables_updates(6)] show ?thesis
    by (cases ok) (simp_all add: maybeDecoy_def Let_def)
qed (simp add: maybeDecoy_def)

section \<open>Pending handshakes\<close>

lemma set_delete: "set (AList.delete k al) \<subseteq> set al"
  by (auto simp: AList.delete_eq)

lemma length_delete_less: "map_of al k \<noteq> None \<Longrightarrow> length (AList.delete k al) < length al"
  by (induction al) (auto simp: less_Suc_eq_le length_delete_le split: if_splits)

definition known :: "pending \<Rightarrow> mux \<Rightarrow> bool" where
  "known p m \<longleftrightarrow> map_of (m_pending m) (p_addr p) \<noteq> None"

lemma known_same: "same_tables m m' \<Longrightarrow> known p m' = known p m"
  by (simp add: known_def same_tables_def)

lemma put_pending_simps [simp]:
  "m_established (put_pending p m) = m_established m" "m_tuns (put_pending p m) = m_tuns m"
  "m_ready (put_pending p m) = m_ready m" "m_max (put_pending p m) = m_max m" "m_closed (put_pending p m) = m_closed m"
  "m_last_create (put_pending p m) = m_last_create m"
  "m_pending (put_pending p m) = AList.update (p_addr p) p (m_pending m)"
  by (simp_all add: put_pending_def)

lemma put_pending_inv:
  assumes "tables_inv m" "known p m"
  shows "tables_inv (put_pending p m)"
proof -
  note I = tables_invD [OF assms(1)]
  have keys: "map fst (AList.update (p_addr p) p (m_pending m)) = map fst (m_pending m)"
    using assms(2) by (auto simp: update_keys known_def map_of_eq_None_iff)
  then have len: "length (AList.update (p_addr p) p (m_pending m)) = length (m_pending m)"
    by (metis length_map)
  show ?thesis
  proof (rule tables_invI, goal_cases)
    case (2 k q)
    with I(2) set_update [of "p_addr p" p "m_pending m"] show ?case by auto
  next
    case (6 k)
    show ?case using I(6) [of k] assms(2) by (auto simp: update_conv' known_def)
  qed (use I keys len in auto)
qed

lemma put_new_inv:
  assumes "tables_inv m" "map_of (m_established m) (p_addr p) = None" "length (m_pending m) < maxPendingHandshakes"
    "0 < m_max m \<Longrightarrow> int (length (m_established m) + length (m_pending m)) < m_max m"
  shows "tables_inv (put_pending p m)"
proof -
  note I = tables_invD [OF assms(1)]
  have len: "length (AList.update (p_addr p) p (m_pending m)) \<le> Suc (length (m_pending m))" by (simp add: length_update)
  show ?thesis
  proof (rule tables_invI, goal_cases)
    case 1
    show ?case using I(1) by (simp add: distinct_update)
  next
    case (2 k q)
    with I(2) set_update [of "p_addr p" p "m_pending m"] show ?case by auto
  next
    case (6 k)
    show ?case using I(6) [of k] assms(2) by (auto simp: update_conv')
  next
    case 7
    show ?case using len assms(3) by simp
  next
    case 8
    with len assms(4) show ?case by simp
  qed (use I in auto)
qed

lemma delete_pending_inv:
  assumes "tables_inv m"
  shows "tables_inv (m\<lparr>m_pending := AList.delete key (m_pending m), m_last_create := l\<rparr>)"
proof -
  note I = tables_invD [OF assms]
  have len: "length (AList.delete key (m_pending m)) \<le> length (m_pending m)" by (rule length_delete_le)
  show ?thesis
  proof (rule tables_invI, goal_cases)
    case 1
    show ?case using I(1) by (simp add: distinct_delete)
  next
    case (2 k q)
    with I(2) set_delete [of key "m_pending m"] show ?case by auto
  next
    case (6 k)
    show ?case using I(6) [of k] by (auto simp: delete_conv')
  qed (use I len in auto)
qed

lemma drop_pending_inv: "tables_inv m \<Longrightarrow> tables_inv (drop_pending key m)"
  by (simp add: drop_pending_def delete_pending_inv)

lemma abandon_inv: "tables_inv m \<Longrightarrow> tables_inv (abandonPending key m)"
  using same_tables_inv [OF same_tables_updates(1)] delete_pending_inv [where m = m and key = key and l = "m_last_create m"]
  by (simp add: abandonPending_def)

lemma last_create_inv [simp]: "tables_inv (m\<lparr>m_last_create := l\<rparr>) = tables_inv m"
  by (simp add: tables_inv_def)

section \<open>Opening and closing sessions\<close>

lemma closeTunnel_inv:
  assumes "tables_inv m"
  shows "tables_inv (closeTunnel i m)"
proof (cases "i < length (m_tuns m) \<and> \<not> s_closed (m_tuns m ! i)")
  case True
  note I = tables_invD [OF assms]
  let ?t = "m_tuns m ! i" and ?est = "AList.delete (s_peer (m_tuns m ! i)) (m_established m)"
  let ?m = "m\<lparr>m_tuns := (m_tuns m)[i := ?t\<lparr>s_closed := True\<rparr>], m_established := ?est\<rparr>"
  have est: "map_of (m_established m) (s_peer ?t) = Some i" using I(5) True by blast
  have "tables_inv ?m"
  proof (rule tables_invI, goal_cases)
    case 3
    show ?case using I(3) by (simp add: distinct_delete)
  next
    case (4 k j)
    then have kj: "(k, j) \<in> set (m_established m)" "k \<noteq> s_peer ?t" by (auto simp: AList.delete_eq)
    then have "j \<noteq> i" using I(4) by blast
    with I(4) [OF kj(1)] show ?case by (simp add: nth_list_update_neq)
  next
    case (5 j)
    then have j: "j < length (m_tuns m)" "j \<noteq> i" "\<not> s_closed (m_tuns m ! j)" using True by (auto simp: nth_list_update split: if_splits)
    then have ej: "map_of (m_established m) (s_peer (m_tuns m ! j)) = Some j" using I(5) by blast
    with est j(2) have "s_peer (m_tuns m ! j) \<noteq> s_peer ?t" by auto
    with ej j show ?case by (simp add: delete_conv')
  next
    case (6 k)
    show ?case using I(6) [of k] by (auto simp: delete_conv')
  next
    case 8
    have "length ?est \<le> length (m_established m)" by (rule length_delete_le)
    with I(8) 8 show ?case by simp
  next
    case (11 t)
    then have "t \<in> set (m_tuns m) \<or> t = ?t\<lparr>s_closed := True\<rparr>" using set_update_subset_insert by fastforce
    with I(11) True show ?case by auto
  qed (use I in auto)
  with True show ?thesis by (simp add: closeTunnel_def)
qed (simp add: closeTunnel_def assms)

lemma fold_inv: "\<forall>m. P m \<longrightarrow> (\<forall>x. P (f x m)) \<Longrightarrow> P m \<Longrightarrow> P (fold f xs m)"
  by (induction xs arbitrary: m) auto

lemma open_inv:
  assumes "tables_inv m" "map_of (m_established m) (s_peer t) = None" "map_of (m_pending m) (s_peer t) = None"
    "\<not> s_closed t" "s_recv t = []"
    "0 < m_max m \<Longrightarrow> int (length (m_established m) + length (m_pending m)) < m_max m"
  shows "tables_inv (m\<lparr>m_tuns := m_tuns m @ [t],
    m_established := AList.update (s_peer t) (length (m_tuns m)) (m_established m)\<rparr>)"
proof -
  note I = tables_invD [OF assms(1)]
  let ?est = "AList.update (s_peer t) (length (m_tuns m)) (m_established m)"
  have est: "set ?est \<subseteq> insert (s_peer t, length (m_tuns m)) (set (m_established m))" by (rule set_update)
  show ?thesis
  proof (rule tables_invI, goal_cases)
    case 3
    show ?case using I(3) by (simp add: distinct_update)
  next
    case (4 k j)
    then have "(k, j) = (s_peer t, length (m_tuns m)) \<or> (k, j) \<in> set (m_established m)" using est by auto
    with I(4) assms(4) show ?case by (auto simp: nth_append)
  next
    case (5 j)
    show ?case
    proof (cases "j = length (m_tuns m)")
      case False
      with 5 have j: "j < length (m_tuns m)" "\<not> s_closed (m_tuns m ! j)" by (auto simp: nth_append)
      with I(5) have ej: "map_of (m_established m) (s_peer (m_tuns m ! j)) = Some j" by blast
      with assms(2) have "s_peer (m_tuns m ! j) \<noteq> s_peer t" by auto
      with ej j show ?thesis by (simp add: nth_append update_conv')
    qed (simp add: update_conv')
  next
    case (6 k)
    show ?case using I(6) [of k] assms(3) by (auto simp: update_conv')
  next
    case 8
    have "length ?est \<le> Suc (length (m_established m))" by (simp add: length_update)
    with 8 assms(6) show ?case by simp
  next
    case (10 i)
    with I(10) show ?case by fastforce
  qed (use I assms(5) in auto)
qed

lemma ready_inv: "tables_inv m \<Longrightarrow> length is \<le> 32 \<Longrightarrow> \<forall>i \<in> set is. i < length (m_tuns m) \<Longrightarrow> tables_inv (m\<lparr>m_ready := is\<rparr>)"
  by (simp add: tables_inv_def)

lemma replace_tunnel_inv:
  assumes "tables_inv m" "keeps (m_tuns m ! i) t"
  shows "tables_inv (m\<lparr>m_tuns := (m_tuns m)[i := t], m_io := w\<rparr>)"
proof (cases "i < length (m_tuns m)")
  case True
  note I = tables_invD [OF assms(1)]
  have t: "s_peer ((m_tuns m)[i := t] ! j) = s_peer (m_tuns m ! j) \<and> s_closed ((m_tuns m)[i := t] ! j) = s_closed (m_tuns m ! j)" for j
    using assms(2) True by (cases "i = j") (simp_all add: keeps_def)
  show ?thesis
  proof (rule tables_invI, goal_cases)
    case (11 u)
    then have "u \<in> set (m_tuns m) \<or> u = t" using set_update_subset_insert by fastforce
    with I(11) True assms(2) show ?case by (auto simp: keeps_def)
  qed (use I t in auto)
next
  case False
  with assms(1) same_tables_inv [OF same_tables_updates(4)] show ?thesis by (simp add: list_update_beyond)
qed

lemma with_tunnel_inv:
  assumes "tables_inv m" "\<And>t w. keeps t (fst (f t w))"
  shows "tables_inv (with_tunnel i f m)"
  using assms replace_tunnel_inv [OF assms(1), of i "fst (f (m_tuns m ! i) (m_io m))"]
  by (simp add: with_tunnel_def case_prod_beta)

lemma sweepSessions_inv: "tables_inv m \<Longrightarrow> tables_inv (sweepSessions E now m)"
  unfolding sweepSessions_def
  by (rule fold_inv) (simp_all add: sweep_one_def closeTunnel_inv with_tunnel_inv keeps_keepalive)

lemma BroadcastControl_inv: "tables_inv m \<Longrightarrow> tables_inv (BroadcastControl E now payload m)"
  unfolding BroadcastControl_def
  by (rule fold_inv) (simp_all add: with_tunnel_inv s_SendControlRaw_def keeps_send)

lemma Accept_inv: "tables_inv m \<Longrightarrow> tables_inv (snd (Accept E m))"
  by (auto simp: Accept_def split: list.split intro!: ready_inv dest: tables_invD(9,10))

text \<open>Closing the multiplexer closes every open session, because each is listed.\<close>

lemma fold_close:
  assumes "m_established m = []"
  shows "m_established (fold closeTunnel is m) = [] \<and> m_pending (fold closeTunnel is m) = m_pending m \<and>
    m_ready (fold closeTunnel is m) = m_ready m \<and> m_max (fold closeTunnel is m) = m_max m \<and>
    m_closed (fold closeTunnel is m) = m_closed m \<and> length (m_tuns (fold closeTunnel is m)) = length (m_tuns m) \<and>
    (\<forall>j < length (m_tuns m). s_recv (m_tuns (fold closeTunnel is m) ! j) = s_recv (m_tuns m ! j) \<and>
      (s_closed (m_tuns (fold closeTunnel is m) ! j) \<longleftrightarrow> s_closed (m_tuns m ! j) \<or> j \<in> set is))"
  using assms
proof (induction "is" arbitrary: m)
  case (Cons i "is")
  have e: "m_established (closeTunnel i m) = []" using Cons.prems by (simp add: closeTunnel_def)
  have c: "m_pending (closeTunnel i m) = m_pending m \<and> m_ready (closeTunnel i m) = m_ready m \<and>
      m_max (closeTunnel i m) = m_max m \<and> m_closed (closeTunnel i m) = m_closed m \<and>
      length (m_tuns (closeTunnel i m)) = length (m_tuns m)"
    by (simp add: closeTunnel_def)
  have t: "s_recv (m_tuns (closeTunnel i m) ! j) = s_recv (m_tuns m ! j) \<and>
      (s_closed (m_tuns (closeTunnel i m) ! j) \<longleftrightarrow> s_closed (m_tuns m ! j) \<or> j = i)" if "j < length (m_tuns m)" for j
    using that by (auto simp: closeTunnel_def nth_list_update)
  from Cons.IH [OF e] c t show ?case by auto
qed simp

lemma mux_Close_closed:
  assumes "tables_inv m" "\<not> m_closed m"
  shows "m_closed (mux_Close m) \<and> m_established (mux_Close m) = [] \<and> m_pending (mux_Close m) = [] \<and>
    (\<forall>t \<in> set (m_tuns (mux_Close m)). s_closed t) \<and> tables_inv (mux_Close m)"
proof -
  note I = tables_invD [OF assms(1)]
  let ?m0 = "m\<lparr>m_closed := True, m_established := [], m_pending := [], m_last_create := []\<rparr>"
  note F = fold_close [of ?m0 "map snd (m_established m)"]
  have m: "mux_Close m = fold closeTunnel (map snd (m_established m)) ?m0" using assms(2) by (simp add: mux_Close_def)
  have all: "s_closed (m_tuns (mux_Close m) ! j)" if "j < length (m_tuns m)" for j
  proof (cases "s_closed (m_tuns m ! j)")
    case False
    then have "j \<in> set (map snd (m_established m))" using I(5) [OF that] by (force dest: map_of_SomeD)
    with F that m show ?thesis by auto
  qed (use F that m in auto)
  then have closed: "\<forall>t \<in> set (m_tuns (mux_Close m)). s_closed t" using F m by (auto simp: in_set_conv_nth)
  have recv: "length (s_recv t) \<le> 128" if t: "t \<in> set (m_tuns (mux_Close m))" for t
  proof -
    from t F m obtain j where j: "j < length (m_tuns m)" "t = m_tuns (mux_Close m) ! j" by (auto simp: in_set_conv_nth)
    then have "s_recv t = s_recv (m_tuns m ! j)" using F m by auto
    with I(11) j(1) show ?thesis by simp
  qed
  have "tables_inv (mux_Close m)"
  proof (rule tables_invI, goal_cases)
    case (5 j)
    with closed show ?case by simp
  next
    case (11 t)
    then show ?case by (rule recv)
  qed (use F m I(9,10) in auto)
  with F m closed show ?thesis by auto
qed

lemma mux_Close_inv: "tables_inv m \<Longrightarrow> tables_inv (mux_Close m)"
  using mux_Close_closed [of m] by (cases "m_closed m") (simp_all add: mux_Close_def)

section \<open>Handshake steps\<close>

lemma publish_inv:
  assumes "tables_inv m" "map_of (m_pending m) (s_peer t) = None" "\<not> s_closed t" "s_recv t = []"
    "0 < m_max m \<Longrightarrow> int (length (m_established m) + length (m_pending m)) < m_max m"
  shows "tables_inv (publish E t m)"
proof (cases "map_of (m_established m) (s_peer t)")
  case None
  define m1 where "m1 = m\<lparr>m_tuns := m_tuns m @ [t],
    m_established := AList.update (s_peer t) (length (m_tuns m)) (m_established m)\<rparr>"
  have m1: "tables_inv m1" unfolding m1_def using assms None by (intro open_inv)
  have r: "tables_inv (m1\<lparr>m_ready := m_ready m1 @ [length (m_tuns m)]\<rparr>)" if "length (m_ready m1) < 32"
    using that tables_invD(10) [OF m1] by (intro ready_inv m1) (auto simp: m1_def)
  have c: "(0 < m_max m \<and> m_max m \<le> int (length (m_established m))) = False" using assms(5) by auto
  have "publish E t m =
      (if length (m_ready m1) < 32 \<and> (\<not> m_closed m1 \<or> e_pick E) then m1\<lparr>m_ready := m_ready m1 @ [length (m_tuns m)]\<rparr>
       else closeTunnel (length (m_tuns m)) m1)"
    by (simp only: publish_def Let_def m1_def None c if_False simp_thms)
  with closeTunnel_inv [OF m1] r show ?thesis by (simp only: split: if_split) blast
qed (simp add: publish_def assms)

lemma drop_pending_simps [simp]:
  "m_established (drop_pending k m) = m_established m" "m_max (drop_pending k m) = m_max m"
  "m_pending (drop_pending k m) = AList.delete k (m_pending m)"
  "m_established (telemetryEvent t a m) = m_established m" "m_max (telemetryEvent t a m) = m_max m"
  "m_pending (telemetryEvent t a m) = m_pending m"
  by (simp_all add: drop_pending_def telemetryEvent_def)

lemma new_tunnel_simps [simp]:
  "s_peer (new_tunnel now p sess m) = p_addr p" "s_closed (new_tunnel now p sess m) = False"
  "s_recv (new_tunnel now p sess m) = []"
  by (simp_all add: new_tunnel_def)

lemma finishHandshake_inv:
  assumes "tables_inv m" "known p m"
  shows "tables_inv (finishHandshake E now p m)"
proof (cases "FinishPacket (e_crypto E) (p_h p)")
  case (Inr sess)
  have t: "tables_inv (drop_pending (p_addr p) (telemetryEvent TelemetryHandshake (p_addr p) m))"
    using assms(1) same_tables_inv [OF same_tables_updates(1)] drop_pending_inv by blast
  have "length (AList.delete (p_addr p) (m_pending m)) < length (m_pending m)"
    using assms(2) by (intro length_delete_less) (simp add: known_def)
  then have "int (length (m_established m) + length (AList.delete (p_addr p) (m_pending m))) < m_max m" if "0 < m_max m"
    using that tables_invD(8) [OF assms(1)] by simp
  with publish_inv [OF t, of "new_tunnel now p sess m"] show ?thesis
    by (simp add: finishHandshake_def Inr delete_conv')
qed (simp add: finishHandshake_def assms)

lemma send_outgoing_same:
  "same_tables m (snd (send_outgoing E now fuel p m)) \<and> p_addr (fst (send_outgoing E now fuel p m)) = p_addr p"
proof (induction fuel arbitrary: p m)
  case (Suc fuel)
  show ?case
  proof (cases "Done (p_h p) \<or> (\<forall>spec. CurrentSpec (p_h p) = Inr spec \<longrightarrow> mdirection spec \<noteq> DirServer)")
    case False
    then obtain spec where spec: "\<not> Done (p_h p)" "CurrentSpec (p_h p) = Inr spec" "mdirection spec = DirServer" by blast
    show ?thesis
    proof (cases "EncodeStep (e_crypto E) (p_h p) (m_rnd m)")
      case (Inr r)
      obtain frame segments h rnd where r: "r = (frame, segments, h, rnd)" by (cases r)
      define p1 where "p1 = p\<lparr>p_h := h, p_last := Some frame, p_last_sent := Some now\<rparr>"
      obtain wire rnd1 where w: "WrapDatagram (e_crypto E) (e_mark E) (Some h) frame rnd = (wire, rnd1)" by fastforce
      obtain x m1 where mw: "mux_write E (p_addr p) wire (set_rnd rnd1 m) = (x, m1)" by fastforce
      have s: "same_tables m m1" using same_tables_updates(3) same_tables_write [OF mw] by (rule same_tables_trans)
      from Suc.IH [where p = p1 and m = m1] s have "same_tables m (snd (send_outgoing E now fuel p1 m1))" "p_addr (fst (send_outgoing E now fuel p1 m1)) = p_addr p"
        by (auto simp: p1_def intro: same_tables_trans)
      with spec Inr r w mw s show ?thesis by (cases x) (simp_all add: Let_def p1_def)
    qed (use spec in simp)
  qed (auto split: sum.split)
qed simp

lemma sendOutgoing_inv:
  assumes "tables_inv m" "known p m" "sendOutgoing E now p m = (p1, m1)"
  shows "tables_inv m1 \<and> known p1 m1 \<and> p_addr p1 = p_addr p"
proof -
  obtain q m2 where q: "send_outgoing E now (length (hcodecs (p_h p)) - hidx (p_h p)) p m = (q, m2)" by fastforce
  with send_outgoing_same [of m E now "length (hcodecs (p_h p)) - hidx (p_h p)" p]
  have s: "same_tables m m2" "p_addr q = p_addr p" by simp_all
  then have "tables_inv m2" "known q m2" using assms(1,2) same_tables_inv [OF s(1)] known_same [OF s(1), of p] by (simp_all add: known_def)
  from put_pending_inv [OF this] assms(3) q s(2) show ?thesis by (auto simp: sendOutgoing_def known_def update_conv')
qed

lemma send_and_finish_inv:
  assumes "tables_inv m" "known p m"
  shows "tables_inv (send_and_finish E now p m)"
proof -
  obtain p1 m1 where s: "sendOutgoing E now p m = (p1, m1)" by fastforce
  from sendOutgoing_inv [OF assms s] finishHandshake_inv [where m = m1 and p = p1] show ?thesis by (simp add: send_and_finish_def s)
qed

lemma progress_inv:
  assumes "tables_inv m" "known p m"
  shows "tables_inv (progress E now data p m)"
proof -
  define p1 where "p1 = p\<lparr>p_recvOK := True, p_last := None, p_attempts := 0, p_backoff := retransmitBase\<rparr>"
  have "known p1 m" using assms(2) by (simp add: known_def p1_def)
  then have m1: "tables_inv (noteFrameLen (length data) (put_pending p1 m))"
    using assms(1) put_pending_inv same_tables_inv [OF same_tables_updates(2)] by blast
  have "known p1 (noteFrameLen (length data) (put_pending p1 m))"
    by (simp add: known_def noteFrameLen_def Let_def update_conv')
  with m1 finishHandshake_inv send_and_finish_inv show ?thesis by (simp add: progress_def Let_def p1_def)
qed

lemma maybeDecoy_inv [simp]: "tables_inv (maybeDecoy E now addr probe m) = tables_inv m"
  by (rule same_tables_inv) simp

lemma advance_inv:
  assumes "tables_inv m" "known p m"
  shows "tables_inv (advance E now p data m)"
proof -
  have k: "known (p\<lparr>p_h := h\<rparr>) m" "known (p\<lparr>p_primed := b\<rparr>) m" for h b using assms(2) by (simp_all add: known_def)
  show ?thesis
    unfolding advance_def Let_def
    by (auto simp: assms k progress_inv send_and_finish_inv put_pending_inv abandon_inv split: sum.split prod.split)
qed

lemma select_loop_same: "same_tables m (snd (select_loop E now addr data cps start primary serverFirst m))"
proof (induction cps arbitrary: start primary serverFirst m)
  case (Cons cp cps)
  have IH: "same_tables m (snd (select_loop E now addr data cps False a b (set_rnd rnd m)))" for a b rnd
    using same_tables_updates(3) Cons.IH by (rule same_tables_trans)
  have c: "same_tables m ((set_rnd rnd m)\<lparr>m_replays := c\<rparr>)" for rnd c
    using same_tables_updates(3,5) by (rule same_tables_trans)
  have d: "same_tables m (telemetryEvent TelemetryReplay addr ((set_rnd rnd m)\<lparr>m_replays := c\<rparr>))" for rnd c
    using c same_tables_updates(1) by (rule same_tables_trans)
  show ?case
    by (simp add: Let_def IH c d Cons.IH split: sum.split prod.split bool.split)
qed simp

lemma selectHandshake_same: "selectHandshake E now addr data m = (x, m') \<Longrightarrow> same_tables m m'"
proof -
  assume a: "selectHandshake E now addr data m = (x, m')"
  obtain y m1 where y: "select_loop E now addr data (protocolListLocked m) True None None m = (y, m1)" by fastforce
  have s: "same_tables m m1" using select_loop_same [of m E now addr data "protocolListLocked m" True None None] y by simp
  have c: "same_tables m (m1\<lparr>m_replays := c\<rparr>)" for c using s same_tables_updates(5) by (rule same_tables_trans)
  have d: "same_tables m (telemetryEvent TelemetryReplay addr (m1\<lparr>m_replays := c\<rparr>))" for c
    using c same_tables_updates(1) by (rule same_tables_trans)
  show ?thesis
    using a s c d by (auto simp: selectHandshake_def y Let_def split: sum.splits option.splits prod.splits if_splits bool.splits)
qed

lemma handleDatagram_inv:
  assumes "tables_inv m"
  shows "tables_inv (handleDatagram E now addr data m)"
proof (cases "map_of (m_established m) addr")
  case (Some i)
  obtain counted t w where r: "s_receive (e_crypto E) (e_net E) (e_pick E) now data (m_tuns m ! i) (m_io m) = (counted, t, w)"
    by (metis prod_cases3)
  have "keeps (m_tuns m ! i) t"
    using keeps_receive [of "m_tuns m ! i" "e_crypto E" "e_net E" "e_pick E" now data "m_io m"] r by simp
  from replace_tunnel_inv [OF assms this] same_tables_inv [OF same_tables_updates(2)] Some r show ?thesis
    by (simp add: handleDatagram_def Let_def)
next
  case None
  show ?thesis
  proof (cases "map_of (m_pending m) addr")
    case (Some p)
    have "p_addr p = addr" using tables_invD(2) [OF assms] map_of_SomeD [OF Some] by blast
    with Some advance_inv [OF assms] None show ?thesis by (simp add: handleDatagram_def known_def)
  next
    case no: None
    obtain x m1 where s: "selectHandshake E now addr data m = (x, m1)" by fastforce
    have sm: "same_tables m m1" using s by (rule selectHandshake_same)
    have m1: "tables_inv m1" using assms same_tables_inv [OF sm] by simp
    show ?thesis
    proof (cases "length data < minFirstDatagram \<or> maxPendingHandshakes \<le> length (m_pending m) \<or>
        0 < m_max m \<and> m_max m \<le> int (length (m_established m) + length (m_pending m)) \<or> (\<exists>e. x = Inl e)")
      case True
      then show ?thesis using None no s assms m1 by (auto simp: handleDatagram_def)
    next
      case False
      then obtain h primed where x: "x = Inr (h, primed)" by (cases x) auto
      define p where "p = \<lparr>p_h = h, p_last = None, p_last_sent = None, p_created = now, p_attempts = 0,
        p_backoff = retransmitBase, p_addr = addr, p_recvOK = False, p_primed = primed\<rparr>"
      have "tables_inv (put_pending p m1)"
        using False None sm m1 by (intro put_new_inv) (auto simp: p_def same_tables_def)
      then have "tables_inv (advance E now p data ((put_pending p m1)\<lparr>m_last_create := AList.update addr now (m_last_create m1)\<rparr>))"
        by (intro advance_inv) (simp_all add: known_def update_conv')
      with False None no s x assms show ?thesis by (simp add: handleDatagram_def Let_def p_def)
    qed
  qed
qed

lemma retransmit_one_inv:
  assumes "tables_inv m" "known p m"
  shows "tables_inv (retransmit_one E now p m)"
    and "p_addr q \<noteq> p_addr p \<Longrightarrow> known q (retransmit_one E now p m) = known q m"
proof -
  have *: "tables_inv (retransmit_one E now p m) \<and>
      (p_addr q \<noteq> p_addr p \<longrightarrow> known q (retransmit_one E now p m) = known q m)"
  proof (cases "Done (p_h p) \<or> handshakeTimeout < now - p_created p")
    case True
    with drop_pending_inv [OF assms(1)] show ?thesis by (auto simp: retransmit_one_def known_def delete_conv')
  next
    case False
    show ?thesis
    proof (cases "\<exists>frame sent. p_last p = Some frame \<and> p_last_sent p = Some sent \<and> now - sent \<ge> p_backoff p")
      case True
      then obtain frame sent where f: "p_last p = Some frame" "p_last_sent p = Some sent" "now - sent \<ge> p_backoff p" by blast
      obtain wire rnd where w: "WrapDatagram (e_crypto E) (e_mark E) (Some (p_h p)) frame (m_rnd m) = (wire, rnd)" by fastforce
      obtain x m1 where mw: "mux_write E (p_addr p) wire (set_rnd rnd m) = (x, m1)" by fastforce
      have s: "same_tables m m1" using same_tables_updates(3) same_tables_write [OF mw] by (rule same_tables_trans)
      have m1: "tables_inv m1" using s assms(1) same_tables_inv by blast
      have k: "known r m1 = known r m" for r using s by (rule known_same)
      define p1 where "p1 = p\<lparr>p_last_sent := Some now, p_attempts := p_attempts p + 1,
        p_backoff := retransmitBase * 2 ^ min (p_attempts p + 1) 4\<rparr>"
      have "known p1 m1" using k [of p] assms(2) by (simp add: known_def p1_def)
      then have "tables_inv (put_pending p1 m1)" using m1 by (intro put_pending_inv)
      moreover have "p_addr q \<noteq> p_addr p \<longrightarrow> known q (put_pending p1 m1) = known q m"
        using k [of q] by (simp add: known_def update_conv' p1_def)
      moreover have "retransmit_one E now p m = (case x of Inl e \<Rightarrow> m1 | Inr _ \<Rightarrow> put_pending p1 m1)"
        using False f w mw by (simp add: retransmit_one_def p1_def split: sum.split)
      ultimately show ?thesis using m1 k by (simp split: sum.split)
    next
      case no: False
      then have "retransmit_one E now p m = m" using False by (auto simp: retransmit_one_def split: option.split)
      with assms show ?thesis by simp
    qed
  qed
  then show "tables_inv (retransmit_one E now p m)" by blast
  from * show "p_addr q \<noteq> p_addr p \<Longrightarrow> known q (retransmit_one E now p m) = known q m" by blast
qed

lemma retransmit_inv:
  assumes "tables_inv m"
  shows "tables_inv (retransmit E now m)"
proof -
  have all: "tables_inv (fold (retransmit_one E now) ps m)"
    if "tables_inv m" "distinct (map p_addr ps)" "\<forall>p \<in> set ps. known p m" for ps m
    using that
  proof (induction ps arbitrary: m)
    case (Cons p ps)
    then have kp: "known p m" by simp
    have "\<forall>q \<in> set ps. known q (retransmit_one E now p m)"
    proof
      fix q
      assume q: "q \<in> set ps"
      then have "p_addr q \<in> p_addr ` set ps" by (rule imageI)
      with Cons.prems(2) have "p_addr q \<noteq> p_addr p" by auto
      from retransmit_one_inv(2) [OF Cons.prems(1) kp this] Cons.prems(3) q
      show "known q (retransmit_one E now p m)" by simp
    qed
    with Cons.IH [OF retransmit_one_inv(1) [OF Cons.prems(1) kp]] Cons.prems(2) show ?case by simp
  qed simp
  have keys: "map p_addr (map snd (m_pending m)) = map fst (m_pending m)"
    using tables_invD(2) [OF assms] by auto
  have "\<forall>p \<in> set (map snd (m_pending m)). known p m"
  proof
    fix p
    assume "p \<in> set (map snd (m_pending m))"
    then obtain k where kp: "(k, p) \<in> set (m_pending m)" by auto
    with tables_invD(1,2) [OF assms] have "map_of (m_pending m) k = Some p" "p_addr p = k" by auto
    then show "known p m" by (simp add: known_def)
  qed
  from all [OF assms _ this] tables_invD(1) [OF assms] keys show ?thesis by (simp only: retransmit_def)
qed

section \<open>Steps\<close>

text \<open>
  One step: a datagram, a tick of the timer, a decoy timer, a rotation of the protocols, or a
  call of the application (on the multiplexer, or on a session it holds). Environment and
  clock are arbitrary at every step.
\<close>

inductive mux_step :: "mux \<Rightarrow> mux \<Rightarrow> bool" where
  step_datagram: "mux_step m (read_loop_step E now addr buf m)"
| step_tick: "mux_step m (timer_tick E now m)"
| step_timer: "mux_step m (fire_timer E now i m)"
| step_protocols: "mux_step m (SetProtocols cps m)"
| step_accept: "mux_step m (snd (Accept E m))"
| step_broadcast: "mux_step m (BroadcastControl E now payload m)"
| step_send: "mux_step m (with_tunnel i (\<lambda>t w. snd (s_SendPacket (e_crypto (E :: env)) (e_net E) now packet t w)) m)"
| step_receive: "mux_step m (with_tunnel i (\<lambda>t w. (snd (TryReceive pick t), w)) m)"
| step_close_tunnel: "mux_step m (closeTunnel i m)"
| step_close: "mux_step m (mux_Close m)"

inductive_cases mux_stepE: "mux_step m m'"

lemma fire_timer_same:
  "m_pending (fire_timer E now i m) = m_pending m \<and> m_established (fire_timer E now i m) = m_established m \<and>
   m_tuns (fire_timer E now i m) = m_tuns m \<and> m_ready (fire_timer E now i m) = m_ready m \<and>
   m_max (fire_timer E now i m) = m_max m"
  using same_tables_decoy_frame [of "m\<lparr>m_timers := take i (m_timers m) @ drop (Suc i) (m_timers m)\<rparr>" E now
    "fst (snd (m_timers m ! i))" "snd (snd (m_timers m ! i))"]
  by (simp add: fire_timer_def same_tables_def)

lemma mux_step_inv:
  assumes "mux_step m m'" "tables_inv m"
  shows "tables_inv m'"
  using assms
proof (cases rule: mux_step.cases)
  case (step_timer E now i)
  with fire_timer_same [of E now i m] assms(2) show ?thesis by (simp add: tables_inv_def)
next
  case (step_protocols cps)
  then have "same_tables m m'" by (simp add: SetProtocols_def setProtocolsLocked_def same_tables_def)
  with assms(2) show ?thesis by (simp add: same_tables_inv)
qed (simp_all add: read_loop_step_def handleDatagram_inv timer_tick_def retransmit_inv sweepSessions_inv Accept_inv
      BroadcastControl_inv with_tunnel_inv keeps_send keeps_try closeTunnel_inv mux_Close_inv)

interpretation tables: invariant_of mux_step tables_inv
  by unfold_locales (rule mux_step_inv)

text \<open>No step changes the limit or the decoy.\<close>

definition config :: "mux \<Rightarrow> int \<times> compiled_protocol option" where
  "config m = (m_max m, m_decoy m)"

lemma config_same: "same_tables m m' \<Longrightarrow> config m' = config m"
  by (simp add: config_def same_tables_def)

lemma config_updates [simp]:
  "config (put_pending p m) = config m" "config (drop_pending k m) = config m" "config (abandonPending k m) = config m"
  "config (telemetryEvent kind a m) = config m" "config (noteFrameLen n m) = config m"
  "config (closeTunnel i m) = config m" "config (with_tunnel i f m) = config m" "config (publish E t m) = config m"
  "config (m\<lparr>m_last_create := l\<rparr>) = config m" "config (m\<lparr>m_tuns := ts, m_io := w\<rparr>) = config m"
  "config (maybeDecoy E now addr probe m) = config m" "config (snd (Accept E m)) = config m"
  by (simp_all add: config_def put_pending_def drop_pending_def abandonPending_def telemetryEvent_def noteFrameLen_def
      closeTunnel_def with_tunnel_def publish_def Accept_def Let_def config_same [unfolded config_def, OF same_tables_maybeDecoy]
      split: prod.split list.split)

lemma config_finish [simp]: "config (finishHandshake E now p m) = config m"
  by (simp add: finishHandshake_def split: sum.split)

lemma config_send [simp]: "config (send_and_finish E now p m) = config m"
  using config_same [OF conjunct1 [OF send_outgoing_same]] by (simp add: send_and_finish_def sendOutgoing_def case_prod_beta)

lemma config_advance [simp]: "config (advance E now p data m) = config m"
  by (auto simp: advance_def progress_def Let_def split: sum.split prod.split)

lemma config_select: "selectHandshake E now addr data m = (x, m') \<Longrightarrow> config m' = config m"
  by (rule config_same) (rule selectHandshake_same)

lemma config_handle [simp]: "config (handleDatagram E now addr data m) = config m"
  by (auto simp: handleDatagram_def Let_def config_select split: option.split sum.split prod.split)

lemma config_retransmit [simp]: "config (retransmit_one E now p m) = config m"
proof -
  have "config m1 = config m" if "mux_write E addr wire (set_rnd rnd m) = (x, m1)" for addr wire rnd x m1
    using config_same [OF same_tables_write [OF that]] config_same [OF same_tables_updates(3)] by simp
  then show ?thesis by (auto simp: retransmit_one_def split: option.split sum.split prod.split)
qed

lemma config_fold: "(\<And>x m. config (f x m) = config m) \<Longrightarrow> config (fold f xs m) = config m"
  by (induction xs arbitrary: m) auto

lemma config_sweep [simp]: "config (sweep_one E now i m) = config m"
  by (simp add: sweep_one_def)

lemma config_step:
  assumes "mux_step m m'"
  shows "config m' = config m"
  using assms
proof (cases rule: mux_step.cases)
  case (step_timer E now i)
  with config_same [OF same_tables_decoy_frame] show ?thesis by (simp add: fire_timer_def config_def)
next
  case step_close
  then show ?thesis
    by (simp add: mux_Close_def config_fold) (simp add: config_def)
qed (simp_all add: read_loop_step_def timer_tick_def sweepSessions_def retransmit_def BroadcastControl_def config_fold
      SetProtocols_def setProtocolsLocked_def, simp_all add: config_def)

interpretation config: constant_of mux_step config
  by unfold_locales (rule config_step)

end
