(* ===== verification/Mux_Safety.thy ===== *)
theory Mux_Safety
  imports Mux_Invariant Samples
begin

text \<open>
  Properties of the multiplexer: its tables stay within their bounds in every reachable
  state, probes get no answer, a replayed first datagram opens no handshake.
\<close>

section \<open>Tables\<close>

definition no_clients :: "mux \<Rightarrow> bool" where
  "no_clients m \<longleftrightarrow> m_pending m = [] \<and> m_established m = [] \<and> m_tuns m = [] \<and> m_ready m = []"

lemma no_clients_inv: "no_clients m \<Longrightarrow> tables_inv m"
  by (simp add: no_clients_def tables_inv_def)

text \<open>
  C13. In every state that a multiplexer reaches from a start without clients, whatever
  arrives, whatever the timers and the application do and whatever the clock shows: at most
  1024 handshakes are pending; with a limit on sessions, sessions and pending handshakes
  together stay within it; no address has a session and a handshake at once; the accept queue
  holds at most 32 sessions and every session's receive queue at most 128 packets; and a
  session object is open exactly if it is the one listed under its peer's address.
\<close>
theorem mux_tables:
  assumes "no_clients m0" "reach mux_step m0 m"
  shows "length (m_pending m) \<le> 1024 \<and>
     (0 < m_max m0 \<longrightarrow> int (length (m_established m) + length (m_pending m)) \<le> m_max m0) \<and>
     (\<forall>addr. map_of (m_established m) addr = None \<or> map_of (m_pending m) addr = None) \<and>
     length (m_ready m) \<le> 32 \<and> (\<forall>t \<in> set (m_tuns m). length (s_recv t) \<le> 128) \<and>
     (\<forall>i < length (m_tuns m). \<not> s_closed (m_tuns m ! i) \<longleftrightarrow>
        map_of (m_established m) (s_peer (m_tuns m ! i)) = Some i)"
proof -
  have I: "tables_inv m" using tables.run_keeps [OF assms(2)] assms(1) no_clients_inv by blast
  have "m_max m = m_max m0" using config.run_same [OF assms(2)] by (simp add: config_def)
  moreover have "\<not> s_closed (m_tuns m ! i)" if "map_of (m_established m) a = Some i" for a i
    using tables_invD(4) [OF I map_of_SomeD [OF that]] by blast
  ultimately show ?thesis using tables_invD [OF I] by (auto simp: maxPendingHandshakes_def)
qed

theorem mux_tables_witness:
  "length (m_pending (mux_Close (NewServerMux sample_protocol sample_psk zeros))) \<le> 1024"
proof -
  have "no_clients (NewServerMux sample_protocol sample_psk zeros)" by (simp add: no_clients_def NewServerMux_def)
  moreover have "reach mux_step (NewServerMux sample_protocol sample_psk zeros) (mux_Close (NewServerMux sample_protocol sample_psk zeros))"
    using reach_step [where step = mux_step, OF reach_start] step_close by blast
  ultimately show ?thesis using mux_tables by blast
qed

section \<open>Probes\<close>

text \<open>A handshake that a datagram leaves as it is: it is neither its next frame nor a knock.\<close>

definition refuses :: "crypto \<Rightarrow> handshake_state \<Rightarrow> bytes \<Rightarrow> bool" where
  "refuses C h data \<longleftrightarrow>
     (\<forall>inner. UnwrapHandshakeDatagram C (Some (cgenome (hcp h))) data = Inr inner \<longrightarrow>
        \<not> VerifyKnock C (hpsk h) inner \<and> (\<exists>e. RecvStep C h inner = (Inl e, h)) \<and>
        (\<forall>spec trimmed. DeclaredFrame spec inner = Inr trimmed \<longrightarrow> (\<exists>e. RecvStep C h trimmed = (Inl e, h))))"

text \<open>A datagram that no protocol of the window takes as the first of a handshake.\<close>

definition is_probe :: "env \<Rightarrow> mux \<Rightarrow> bytes \<Rightarrow> bool" where
  "is_probe E m data \<longleftrightarrow>
     (\<forall>cp \<in> set (protocolListLocked m). \<forall>rnd h rnd'.
        NewHandshake cp DirServer (m_psk m) rnd = Inr (h, rnd') \<longrightarrow> refuses (e_crypto E) h data)"

text \<open>What a probe must not change.\<close>

definition untouched :: "mux \<Rightarrow> mux \<Rightarrow> bool" where
  "untouched m m' \<longleftrightarrow>
     m_out m' = m_out m \<and> m_pending m' = m_pending m \<and> m_established m' = m_established m \<and> m_tuns m' = m_tuns m \<and>
     m_ready m' = m_ready m \<and> m_replays m' = m_replays m \<and> m_timers m' = m_timers m \<and> m_frame_lens m' = m_frame_lens m \<and>
     m_psk m' = m_psk m \<and> m_cps m' = m_cps m \<and> m_cp m' = m_cp m \<and> m_decoy m' = m_decoy m \<and> m_max m' = m_max m"

lemma untouched_refl [simp]: "untouched m m"
  by (simp add: untouched_def)

lemma untouched_trans [trans]: "untouched m1 m2 \<Longrightarrow> untouched m2 m3 \<Longrightarrow> untouched m1 m3"
  by (simp add: untouched_def)

lemma untouched_set_rnd [simp]: "untouched m (set_rnd rnd m)"
  by (simp add: untouched_def set_rnd_def)

lemma NewHandshake_fields:
  assumes "NewHandshake cp role psk rnd = Inr (h, rnd')"
  shows "hcp h = cp" "hpsk h = psk" "hrole h = role" "hidx h = 0"
  using assms by (auto simp: NewHandshake_def split: if_splits)

lemma NewHandshake_probe:
  assumes "is_probe E m data" "cp \<in> set (protocolListLocked m)" "m_psk m' = m_psk m"
    "NewHandshake cp DirServer (m_psk m') rnd = Inr (h, rnd')"
  shows "refuses (e_crypto E) h data" "hcp h = cp" "hpsk h = m_psk m"
  using assms NewHandshake_fields [OF assms(4)] by (auto simp: is_probe_def)

lemma handshake_codecs_length: "handshake_codecs a b specs = Inr cs \<Longrightarrow> length cs = length specs"
  by (induction specs arbitrary: cs) auto

lemma fresh_not_done:
  assumes "NewHandshake cp role psk rnd = Inr (h, rnd')" "chandshake cp \<noteq> []"
  shows "\<not> Done h"
  using assms by (auto simp: NewHandshake_def NewHandshakeCodecs_def Done_def dest!: handshake_codecs_length split: if_splits)

definition window_ok :: "mux \<Rightarrow> bool" where
  "window_ok m \<longleftrightarrow> (\<forall>cp \<in> set (protocolListLocked m). chandshake cp \<noteq> [])"

definition refusing :: "env \<Rightarrow> mux \<Rightarrow> bytes \<Rightarrow> compiled_protocol \<Rightarrow> handshake_state option \<Rightarrow> bool" where
  "refusing E m data cp a \<longleftrightarrow> (\<forall>h. a = Some h \<longrightarrow> refuses (e_crypto E) h data \<and> hpsk h = m_psk m \<and> hcp h = cp \<and> \<not> Done h)"

definition speaks_first :: "handshake_state option \<Rightarrow> bool" where
  "speaks_first a \<longleftrightarrow>
     (case a of None \<Rightarrow> False | Some h \<Rightarrow> (case CurrentSpec h of Inl _ \<Rightarrow> False | Inr spec \<Rightarrow> mdirection spec = DirServer))"

lemma select_loop_probe:
  assumes "is_probe E m0 data" "window_ok m0" "set cps \<subseteq> set (protocolListLocked m0)" "m_psk m = m_psk m0"
    "refusing E m0 data cp0 a" "start \<and> cps \<noteq> [] \<longrightarrow> hd cps = cp0" "speaks_first a \<longrightarrow> b \<noteq> None"
  shows "\<exists>primary serverFirst m'. select_loop E now addr data cps start a b m = (Inr (primary, serverFirst), m') \<and>
    untouched m m' \<and> refusing E m0 data cp0 primary \<and> (speaks_first primary \<longrightarrow> serverFirst \<noteq> None)"
  using assms(3-)
proof (induction cps arbitrary: start a b m)
  case Nil
  then show ?case by auto
next
  case (Cons cp cps)
  have IH: "\<exists>primary serverFirst m'. select_loop E now addr data cps False x y (set_rnd rnd m) = (Inr (primary, serverFirst), m') \<and>
      untouched m m' \<and> refusing E m0 data cp0 primary \<and> (speaks_first primary \<longrightarrow> serverFirst \<noteq> None)"
    if "refusing E m0 data cp0 x" "speaks_first x \<longrightarrow> y \<noteq> None" for x y rnd
  proof -
    from Cons.IH [of "set_rnd rnd m" x False y] Cons.prems(1,2) that obtain primary serverFirst m' where
      "select_loop E now addr data cps False x y (set_rnd rnd m) = (Inr (primary, serverFirst), m')"
      "untouched (set_rnd rnd m) m'" "refusing E m0 data cp0 primary" "speaks_first primary \<longrightarrow> serverFirst \<noteq> None"
      by (auto simp: set_rnd_def)
    then show ?thesis using untouched_trans [OF untouched_set_rnd] by blast
  qed
  show ?case
  proof (cases "NewHandshake cp DirServer (m_psk m) (m_rnd m)")
    case (Inl e)
    with Cons.IH [of m a False b] Cons.prems show ?thesis by simp
  next
    case (Inr r)
    obtain h rnd where r: "r = (h, rnd)" by (cases r)
    have h: "refuses (e_crypto E) h data" "hcp h = cp" "hpsk h = m_psk m0" "\<not> Done h"
      using NewHandshake_probe [OF assms(1) _ Cons.prems(2)] fresh_not_done assms(2) Cons.prems(1) Inr r
      by (auto simp: window_ok_def)
    then have a1: "refusing E m0 data cp0 (if start then Some h else a)" "start \<Longrightarrow> refusing E m0 data cp0 (Some h)"
      using Cons.prems(3,4) by (auto simp: refusing_def)
    show ?thesis
    proof (cases "\<exists>spec inner trimmed. CurrentSpec h = Inr spec \<and> mdirection spec \<noteq> DirServer \<and>
        UnwrapHandshakeDatagram (e_crypto E) (Some (cgenome cp)) data = Inr inner \<and> DeclaredFrame spec inner = Inr trimmed")
      case True
      then obtain spec inner trimmed where t: "CurrentSpec h = Inr spec" "mdirection spec \<noteq> DirServer"
        "UnwrapHandshakeDatagram (e_crypto E) (Some (cgenome cp)) data = Inr inner" "DeclaredFrame spec inner = Inr trimmed"
        by blast
      then obtain e where "RecvStep (e_crypto E) h trimmed = (Inl e, h)" using h(1,2) by (auto simp: refuses_def)
      moreover have "speaks_first (if start then Some h else a) \<longrightarrow> b \<noteq> None" using t Cons.prems(5) by (simp add: speaks_first_def)
      ultimately show ?thesis using t Inr r IH [OF a1(1)] by (simp add: Let_def)
    next
      case False
      show ?thesis
      proof (cases "speaks_first (Some h)")
        case True
        then obtain spec where "CurrentSpec h = Inr spec" "mdirection spec = DirServer" by (auto simp: speaks_first_def split: sum.splits)
        with Inr r IH [OF a1(1), of "if b = None then Some h else b"] show ?thesis by (simp add: Let_def)
      next
        case no: False
        then have nb: "speaks_first (if start then Some h else a) \<longrightarrow> b \<noteq> None" using Cons.prems(5) by simp
        have "\<forall>spec. CurrentSpec h = Inr spec \<longrightarrow> mdirection spec \<noteq> DirServer" using no by (auto simp: speaks_first_def)
        with Inr r False have "select_loop E now addr data (cp # cps) start a b m =
            select_loop E now addr data cps False (if start then Some h else a) b (set_rnd rnd m)"
          by (auto simp: Let_def split: sum.split)
        with IH [OF a1(1) nb] show ?thesis by simp
      qed
    qed
  qed
qed

lemma selectHandshake_probe:
  assumes "is_probe E m data" "window_ok m" "selectHandshake E now addr data m = (x, m')"
  shows "untouched m m' \<and>
    (\<forall>h primed. x = Inr (h, primed) \<longrightarrow> \<not> primed \<and> \<not> Done h \<and> \<not> speaks_first (Some h) \<and> refuses (e_crypto E) h data)"
proof (cases "protocolListLocked m = []")
  case False
  obtain primary sf m1 where s: "select_loop E now addr data (protocolListLocked m) True None None m = (Inr (primary, sf), m1)"
    "untouched m m1" "refusing E m data (hd (protocolListLocked m)) primary" "speaks_first primary \<longrightarrow> sf \<noteq> None"
    using select_loop_probe [OF assms(1,2) order_refl refl, of "hd (protocolListLocked m)" None True None now addr]
    by (auto simp: refusing_def speaks_first_def)
  have knock: "\<not> VerifyKnock (e_crypto E) (m_psk m1) inner"
    if "primary = Some h" "UnwrapHandshakeDatagram (e_crypto E) (Some (cgenome (hd (protocolListLocked m)))) data = Inr inner" for h inner
    using s(2,3) that by (auto simp: refusing_def refuses_def untouched_def)
  show ?thesis
  proof (cases primary)
    case None
    with s False assms(3) show ?thesis by (auto simp: selectHandshake_def Let_def)
  next
    case (Some h)
    with s False assms(3) knock [OF Some] show ?thesis
      by (auto simp: selectHandshake_def Let_def refusing_def speaks_first_def split: sum.splits option.splits if_splits)
  qed
qed (use assms(3) in \<open>auto simp: selectHandshake_def\<close>)

text \<open>The handshake chosen for a datagram is a fresh one of the window, or one that accepted it.\<close>

lemma delete_update_fresh: "map_of al k = None \<Longrightarrow> AList.delete k (AList.update k v al) = al"
  by (induction al) (auto simp: AList.delete_eq split: if_splits)

lemma advance_refused:
  assumes "refuses (e_crypto E) (p_h p) data" "\<not> p_primed p" "\<not> p_recvOK p" "p_last p = None"
    "\<not> Done (p_h p)" "\<not> speaks_first (Some (p_h p))"
  shows "advance E now p data m = maybeDecoy E now (p_addr p) data (abandonPending (p_addr p) m)"
proof -
  obtain spec where spec: "CurrentSpec (p_h p) = Inr spec" "mdirection spec \<noteq> DirServer"
    using assms(5,6) by (auto simp: CurrentSpec_def speaks_first_def)
  show ?thesis
  proof (cases "UnwrapDatagram (e_crypto E) (Some (p_h p)) data")
    case (Inr inner)
    then have "UnwrapHandshakeDatagram (e_crypto E) (Some (cgenome (hcp (p_h p)))) data = Inr inner"
      by (simp add: UnwrapDatagram_def)
    with assms(1) obtain e where "RecvStep (e_crypto E) (p_h p) inner = (Inl e, p_h p)" by (auto simp: refuses_def)
    with spec Inr assms(2-4) show ?thesis by (simp add: advance_def)
  qed (use spec assms(2-4) in \<open>simp add: advance_def\<close>)
qed

text \<open>
  C14. Probe silence, without a decoy: a datagram from an address with no session and no
  pending handshake that is neither the first frame of a handshake of the window nor a knock
  gets no answer, and leaves the pending handshakes, the sessions, the accept queue, the
  replay table and the length histogram as they were: only the time of the attempt and the
  telemetry remain.
\<close>
theorem probe_silence:
  assumes "m_decoy m = None" "window_ok m" "is_probe E m data"
    "map_of (m_established m) addr = None" "map_of (m_pending m) addr = None"
  shows "untouched m (handleDatagram E now addr data m)"
proof -
  obtain x m1 where s: "selectHandshake E now addr data m = (x, m1)" by fastforce
  note P = selectHandshake_probe [OF assms(3,2) s]
  have d: "maybeDecoy E now a data m2 = m2" if "m_decoy m2 = None" for m2 a using that by (simp add: maybeDecoy_def)
  have l: "untouched m (m\<lparr>m_last_create := l\<rparr>)" for l by (simp add: untouched_def)
  show ?thesis
  proof (cases x)
    case (Inl e)
    have "m_decoy m1 = None" using P assms(1) by (simp add: untouched_def)
    with Inl P l assms(1,4,5) s d show ?thesis by (simp add: handleDatagram_def)
  next
    case (Inr hp)
    then obtain h where hp: "x = Inr (h, False)" "\<not> Done h" "\<not> speaks_first (Some h)" "refuses (e_crypto E) h data"
      using P by (cases hp) auto
    define p where "p = \<lparr>p_h = h, p_last = None, p_last_sent = None, p_created = now, p_attempts = 0,
      p_backoff = retransmitBase, p_addr = addr, p_recvOK = False, p_primed = False\<rparr>"
    define m2 where "m2 = (put_pending p m1)\<lparr>m_last_create := AList.update addr now (m_last_create m1)\<rparr>"
    have "map_of (m_pending m1) addr = None" using P assms(5) by (simp add: untouched_def)
    then have "untouched m1 (abandonPending addr m2)"
      by (simp add: untouched_def abandonPending_def m2_def put_pending_def telemetryEvent_def p_def delete_update_fresh)
    then have u: "untouched m (abandonPending addr m2)" using P untouched_trans by blast
    have "advance E now p data m2 = maybeDecoy E now addr data (abandonPending addr m2)"
      using advance_refused [of E p data now m2] hp by (simp add: p_def)
    also have "\<dots> = abandonPending addr m2" using u assms(1) by (intro d) (simp add: untouched_def)
    finally have "untouched m (advance E now p data m2)" using u by simp
    with hp(1) s l assms(1,4,5) d show ?thesis by (simp add: handleDatagram_def Let_def p_def m2_def)
  qed
qed

theorem probe_silence_witness:
  "untouched (NewServerMux sample_protocol sample_psk zeros)
     (handleDatagram \<lparr>e_crypto = demo_crypto, e_mark = [], e_net = (\<lambda>_ _. True), e_disk = True, e_pick = True, e_delay = id\<rparr>
        0 ''10.0.0.1:5'' (replicate 20 0) (NewServerMux sample_protocol sample_psk zeros))"
proof (rule probe_silence)
  have "UnwrapHandshakeDatagram C go (replicate 20 0) \<noteq> Inr inner" for C go inner
    using CoverLen_bounds(1) [of C go] by (simp add: UnwrapHandshakeDatagram_def Let_def CoverLenMin_def)
  then show "is_probe \<lparr>e_crypto = demo_crypto, e_mark = [], e_net = (\<lambda>_ _. True), e_disk = True, e_pick = True, e_delay = id\<rparr>
      (NewServerMux sample_protocol sample_psk zeros) (replicate 20 0)"
    by (simp add: is_probe_def refuses_def)
qed (simp_all add: NewServerMux_def window_ok_def protocolListLocked_def sample_handshake)

section \<open>Replays\<close>

text \<open>An AEAD refuses a ciphertext that is shorter than its tag.\<close>

definition aead_short :: "crypto \<Rightarrow> bool" where
  "aead_short C \<longleftrightarrow> (\<forall>cs k n ct ad. length ct < 16 \<longrightarrow> aead_open C cs k n ct ad = None)"

lemma Decode_nonempty: "aead_short C \<Longrightarrow> Decode C c [] = Inr r \<Longrightarrow> False"
proof -
  assume a: "aead_short C" "Decode C c [] = Inr r"
  have "decodeAt C c [] n \<noteq> Inr msg" for n msg
    using a(1) by (auto simp: decodeAt_def aead_short_def Let_def)
  then have "probe_stream C c [] probes = Inl ErrAuth" for probes
    by (induction probes) (auto split: sum.split)
  with a(2) show False by (simp add: Decode_def)
qed

lemma DeclaredFrame_Nil: "DeclaredFrame spec [] = Inr t \<Longrightarrow> t = []"
  by (auto simp: DeclaredFrame_def split: option.splits if_splits)

lemma RecvStep_nonempty: "aead_short C \<Longrightarrow> RecvStep C h [] = (Inr u, h') \<Longrightarrow> False"
  by (auto simp: RecvStep_def Let_def split: sum.splits if_splits prod.splits dest!: DeclaredFrame_Nil dest: Decode_nonempty)

text \<open>Receiving does not look at the private key.\<close>

lemma capturePeerKey_priv:
  "capturePeerKey msg (h\<lparr>hpriv := p\<rparr>) = (case capturePeerKey msg h of Inl e \<Rightarrow> Inl e | Inr h' \<Rightarrow> Inr (h'\<lparr>hpriv := p\<rparr>))"
  by (simp add: capturePeerKey_def res_bind_def split: option.split prod.split sum.split)

lemma CurrentSpec_priv [simp]: "CurrentSpec (h\<lparr>hpriv := p\<rparr>) = CurrentSpec h"
  by (simp add: CurrentSpec_def Done_def)

lemma RecvStep_priv: "RecvStep C (h\<lparr>hpriv := p\<rparr>) frame = (case RecvStep C h frame of (x, h') \<Rightarrow> (x, h'\<lparr>hpriv := p\<rparr>))"
proof -
  have "capturePeerKey msg (h\<lparr>hpriv := p, hcodecs := cs\<rparr>) =
      (case capturePeerKey msg (h\<lparr>hcodecs := cs\<rparr>) of Inl e \<Rightarrow> Inl e | Inr h' \<Rightarrow> Inr (h'\<lparr>hpriv := p\<rparr>))" for msg cs
  proof -
    have c: "h\<lparr>hpriv := p, hcodecs := cs\<rparr> = h\<lparr>hcodecs := cs, hpriv := p\<rparr>" by simp
    show ?thesis unfolding c by (rule capturePeerKey_priv)
  qed
  then show ?thesis
    by (simp add: RecvStep_def Let_def split: sum.split prod.split)
qed

text \<open>
  The frame of the first protocol of a window that accepts a datagram, whatever private keys
  the server draws.
\<close>

fun first_frame :: "crypto \<Rightarrow> bytes \<Rightarrow> bytes \<Rightarrow> compiled_protocol list \<Rightarrow> bytes option" where
  "first_frame C psk data [] = None"
| "first_frame C psk data (cp # cps) =
     (case NewHandshake cp DirServer psk (replicate 32 0) of
        Inl _ \<Rightarrow> first_frame C psk data cps
      | Inr (h, _) \<Rightarrow>
          (case res_bind (CurrentSpec h) (\<lambda>spec. if mdirection spec = DirServer then Inl ErrRole
             else res_bind (UnwrapHandshakeDatagram C (Some (cgenome cp)) data) (DeclaredFrame spec)) of
             Inl _ \<Rightarrow> first_frame C psk data cps
           | Inr trimmed \<Rightarrow>
               (case RecvStep C h trimmed of (Inl _, _) \<Rightarrow> first_frame C psk data cps | (Inr _, _) \<Rightarrow> Some trimmed)))"

lemma NewHandshake_rnd:
  assumes "32 \<le> length rnd"
  shows "NewHandshake cp role psk rnd =
    (case NewHandshake cp role psk (replicate 32 0) of
       Inl e \<Rightarrow> Inl e
     | Inr (h, _) \<Rightarrow> Inr (h\<lparr>hpriv := take 32 rnd\<rparr>, drop 32 rnd))"
  using assms by (simp add: NewHandshake_def split: sum.split) (auto simp: res_bind_def split: sum.split)

definition verdict ::
  "env \<Rightarrow> int \<Rightarrow> string \<Rightarrow> bytes \<Rightarrow> handshake_state \<Rightarrow> mux \<Rightarrow>
     ((handshake_state \<times> bool) res + handshake_state option \<times> handshake_state option) \<times> mux" where
  "verdict E now addr trimmed h m =
     (case seen (e_crypto E) (e_disk E) now trimmed (m_replays m) of
        (True, c) \<Rightarrow> (Inl (Inl ErrProbe), telemetryEvent TelemetryReplay addr (m\<lparr>m_replays := c\<rparr>))
      | (False, c) \<Rightarrow> (Inl (Inr (h, True)), m\<lparr>m_replays := c\<rparr>))"

text \<open>A protocol that the datagram does not open is passed over.\<close>

lemma select_loop_skip:
  assumes new: "NewHandshake cp DirServer (m_psk m) (m_rnd m) = Inr (g, rnd)"
    and no: "case res_bind (CurrentSpec g) (\<lambda>spec. if mdirection spec = DirServer then Inl ErrRole
             else res_bind (UnwrapHandshakeDatagram (e_crypto E) (Some (cgenome cp)) data) (DeclaredFrame spec)) of
        Inl e \<Rightarrow> True | Inr trimmed \<Rightarrow> \<exists>e h1. RecvStep (e_crypto E) g trimmed = (Inl e, h1)"
  shows "\<exists>x1 y1. select_loop E now addr data (cp # cps) start a b m = select_loop E now addr data cps False x1 y1 (set_rnd rnd m)"
proof (cases "CurrentSpec g")
  case (Inl e)
  then show ?thesis using new by (intro exI [of _ "if start then Some g else a"] exI [of _ b]) (simp add: Let_def)
next
  case (Inr sp)
  note sp = this
  show ?thesis
  proof (cases "mdirection sp = DirServer")
    case True
    with new sp show ?thesis
      by (intro exI [of _ "if start then Some g else a"] exI [of _ "if b = None then Some g else b"]) (simp add: Let_def)
  next
    case client: False
    show ?thesis
    proof (cases "res_bind (UnwrapHandshakeDatagram (e_crypto E) (Some (cgenome cp)) data) (DeclaredFrame sp)")
      case (Inl e)
      then have "(\<exists>e. UnwrapHandshakeDatagram (e_crypto E) (Some (cgenome cp)) data = Inl e) \<or>
          (\<exists>inner e. UnwrapHandshakeDatagram (e_crypto E) (Some (cgenome cp)) data = Inr inner \<and> DeclaredFrame sp inner = Inl e)"
        by (cases "UnwrapHandshakeDatagram (e_crypto E) (Some (cgenome cp)) data") auto
      with new sp client show ?thesis by (intro exI [of _ "if start then Some g else a"] exI [of _ b]) (auto simp: Let_def)
    next
      case (Inr trimmed)
      with no sp client obtain e h1 where "RecvStep (e_crypto E) g trimmed = (Inl e, h1)" by auto
      moreover from Inr obtain inner where "UnwrapHandshakeDatagram (e_crypto E) (Some (cgenome cp)) data = Inr inner"
          "DeclaredFrame sp inner = Inr trimmed" by (auto simp: res_bind_Inr_iff)
      ultimately show ?thesis
        using new sp client by (intro exI [of _ "if start then Some h1 else a"] exI [of _ b]) (simp add: Let_def)
    qed
  qed
qed

lemma select_loop_first:
  assumes "32 * length cps \<le> length (m_rnd m)"
  shows "(case first_frame (e_crypto E) (m_psk m) data cps of
      None \<Rightarrow> \<exists>x m'. select_loop E now addr data cps start a b m = (Inr x, m')
    | Some trimmed \<Rightarrow> \<exists>h m'. untouched m m' \<and> select_loop E now addr data cps start a b m = verdict E now addr trimmed h m')"
  using assms
proof (induction cps arbitrary: start a b m)
  case (Cons cp cps)
  have long: "32 \<le> length (m_rnd m)" using Cons.prems by simp
  have IH: "case first_frame (e_crypto E) (m_psk m) data cps of
      None \<Rightarrow> \<exists>x m'. select_loop E now addr data cps False x1 y1 (set_rnd (drop 32 (m_rnd m)) m) = (Inr x, m')
    | Some trimmed \<Rightarrow> \<exists>h m'. untouched m m' \<and>
        select_loop E now addr data cps False x1 y1 (set_rnd (drop 32 (m_rnd m)) m) = verdict E now addr trimmed h m'" for x1 y1
  proof -
    have "32 * length cps \<le> length (m_rnd (set_rnd (drop 32 (m_rnd m)) m))" using Cons.prems by (simp add: set_rnd_def)
    from Cons.IH [OF this, of False x1 y1] show ?thesis
      using untouched_trans [OF untouched_set_rnd] by (fastforce simp: set_rnd_def split: option.splits)
  qed
  show ?case
  proof (cases "NewHandshake cp DirServer (m_psk m) (replicate 32 0)")
    case (Inl e)
    with NewHandshake_rnd [OF long, of cp DirServer "m_psk m"]
    have eqs: "select_loop E now addr data (cp # cps) start a b m = select_loop E now addr data cps False a b m"
      "first_frame (e_crypto E) (m_psk m) data (cp # cps) = first_frame (e_crypto E) (m_psk m) data cps" by simp_all
    have "32 * length cps \<le> length (m_rnd m)" using Cons.prems by simp
    from Cons.IH [OF this, of False a b] show ?thesis unfolding eqs .
  next
    case (Inr r)
    obtain h rest where r: "r = (h, rest)" by (cases r)
    define g where "g = h\<lparr>hpriv := take 32 (m_rnd m)\<rparr>"
    have new: "NewHandshake cp DirServer (m_psk m) (m_rnd m) = Inr (g, drop 32 (m_rnd m))"
      using NewHandshake_rnd [OF long, of cp DirServer "m_psk m"] Inr r by (simp add: g_def)
    have spec: "CurrentSpec g = CurrentSpec h" by (simp add: g_def)
    show ?thesis
    proof (cases "res_bind (CurrentSpec h) (\<lambda>spec. if mdirection spec = DirServer then Inl ErrRole
             else res_bind (UnwrapHandshakeDatagram (e_crypto E) (Some (cgenome cp)) data) (DeclaredFrame spec))")
      case (Inl e)
      then have f: "first_frame (e_crypto E) (m_psk m) data (cp # cps) = first_frame (e_crypto E) (m_psk m) data cps"
        using Inr r by simp
      with spec have "\<exists>x1 y1. select_loop E now addr data (cp # cps) start a b m =
          select_loop E now addr data cps False x1 y1 (set_rnd (drop 32 (m_rnd m)) m)"
        by (intro select_loop_skip [OF new]) (simp add: Inl)
      then obtain x1 y1 where e: "select_loop E now addr data (cp # cps) start a b m =
          select_loop E now addr data cps False x1 y1 (set_rnd (drop 32 (m_rnd m)) m)" by blast
      from IH [of x1 y1] show ?thesis unfolding f e .
    next
      case ok: (Inr trimmed)
      then obtain sp inner where t: "CurrentSpec h = Inr sp" "mdirection sp \<noteq> DirServer"
        "UnwrapHandshakeDatagram (e_crypto E) (Some (cgenome cp)) data = Inr inner" "DeclaredFrame sp inner = Inr trimmed"
        by (auto split: if_splits)
      obtain x h1 where rv: "RecvStep (e_crypto E) h trimmed = (x, h1)" by fastforce
      then have rg: "RecvStep (e_crypto E) g trimmed = (x, h1\<lparr>hpriv := take 32 (m_rnd m)\<rparr>)" by (simp add: g_def RecvStep_priv)
      show ?thesis
      proof (cases x)
        case (Inl e)
        then have f: "first_frame (e_crypto E) (m_psk m) data (cp # cps) = first_frame (e_crypto E) (m_psk m) data cps"
          using Inr r ok rv by simp
        have "\<exists>x1 y1. select_loop E now addr data (cp # cps) start a b m =
            select_loop E now addr data cps False x1 y1 (set_rnd (drop 32 (m_rnd m)) m)"
          using ok spec rg Inl by (intro select_loop_skip [OF new]) simp
        then obtain x1 y1 where e: "select_loop E now addr data (cp # cps) start a b m =
            select_loop E now addr data cps False x1 y1 (set_rnd (drop 32 (m_rnd m)) m)" by blast
        from IH [of x1 y1] show ?thesis unfolding f e .
      next
        case fine: (Inr u)
        then have f: "first_frame (e_crypto E) (m_psk m) data (cp # cps) = Some trimmed" using Inr r ok rv by simp
        have e: "select_loop E now addr data (cp # cps) start a b m =
            verdict E now addr trimmed (h1\<lparr>hpriv := take 32 (m_rnd m)\<rparr>) (set_rnd (drop 32 (m_rnd m)) m)"
          using new spec t rg fine by (simp add: Let_def verdict_def)
        show ?thesis unfolding f e option.case
          by (intro exI conjI) (rule untouched_set_rnd, rule refl)
      qed
    qed
  qed
qed simp

lemma first_frame_nonempty: "aead_short C \<Longrightarrow> first_frame C psk data cps = Some t \<Longrightarrow> t \<noteq> []"
  by (induction cps) (auto split: sum.splits prod.splits dest: RecvStep_nonempty)

lemma selectHandshake_first:
  assumes "32 * length (protocolListLocked m) \<le> length (m_rnd m)"
    "first_frame (e_crypto E) (m_psk m) data (protocolListLocked m) = Some t"
  shows "\<exists>h m1. untouched m m1 \<and> selectHandshake E now addr data m =
    (case seen (e_crypto E) (e_disk E) now t (m_replays m) of
       (True, c) \<Rightarrow> (Inl ErrProbe, telemetryEvent TelemetryReplay addr (m1\<lparr>m_replays := c\<rparr>))
     | (False, c) \<Rightarrow> (Inr (h, True), m1\<lparr>m_replays := c\<rparr>))"
proof -
  obtain h m1 where v: "untouched m m1"
    "select_loop E now addr data (protocolListLocked m) True None None m = verdict E now addr t h m1"
    using select_loop_first [OF assms(1), where E = E and data = data and now = now and addr = addr and start = True and a = None and b = None] assms(2) by auto
  have "protocolListLocked m \<noteq> []" using assms(2) by auto
  moreover have "m_replays m1 = m_replays m" using v(1) by (simp add: untouched_def)
  ultimately show ?thesis using v
    by (intro exI [of _ h] exI [of _ m1]) (simp add: selectHandshake_def Let_def verdict_def split: prod.split bool.split)
qed

lemma selectHandshake_primed:
  assumes "32 * length (protocolListLocked m) \<le> length (m_rnd m)" "selectHandshake E now addr data m = (Inr (h, True), m1)"
  shows "\<exists>t. first_frame (e_crypto E) (m_psk m) data (protocolListLocked m) = Some t"
proof (cases "first_frame (e_crypto E) (m_psk m) data (protocolListLocked m)")
  case None
  then obtain x m' where "select_loop E now addr data (protocolListLocked m) True None None m = (Inr x, m')"
    using select_loop_first [OF assms(1), where E = E and data = data and now = now and addr = addr and start = True and a = None and b = None] by auto
  with assms(2) show ?thesis
    by (auto simp: selectHandshake_def Let_def split: if_splits option.splits sum.splits prod.splits bool.splits)
qed simp

end
