(* ===== verification/Mux_Clients.thy ===== *)
theory Mux_Clients
  imports Mux_Safety
begin

text \<open>
  A genuine client and the multiplexer: its first datagram opens a handshake in lockstep with
  it, and where the protocol has one message each way, that datagram alone establishes the
  session and draws the answer that completes the client's side.
\<close>

section \<open>The first datagram\<close>

lemma pair_step_client:
  assumes "aead_ok C" "ecdh_ok C" "protocol_fits cp early" "pair_inv C cp early pa pb i a b" "i < length (chandshake cp)"
    "mdirection (chandshake cp ! i) = DirClient" "EncodeStep C a rnd = Inr (frame, segs, a', rnd')"
    "rnd_budget (chandshake cp ! i) \<le> length rnd"
  shows "CurrentSpec b = Inr (chandshake cp ! i)" "framed (chandshake cp ! i) frame"
    "\<exists>b'. (\<forall>junk. RecvStep C b (frame @ junk) = (Inr (), b')) \<and> pair_inv C cp early pa pb (Suc i) a' b'"
  using pair_step [OF assms(1-5,8)] assms(6,7) by (auto simp: step_frame_def)

lemma pair_step_server:
  assumes "aead_ok C" "ecdh_ok C" "protocol_fits cp early" "pair_inv C cp early pa pb i a b" "i < length (chandshake cp)"
    "mdirection (chandshake cp ! i) = DirServer" "rnd_budget (chandshake cp ! i) \<le> length rnd"
  obtains frame segs b' rnd' a' where "CurrentSpec b = Inr (chandshake cp ! i)"
    "EncodeStep C b rnd = Inr (frame, segs, b', rnd')" "step_frame cp i early frame"
    "\<forall>junk. RecvStep C a (frame @ junk) = (Inr (), a')" "pair_inv C cp early pa pb (Suc i) a' b'"
  using pair_step [OF assms(1-5,7)] assms(6) by auto

text \<open>What a client has that starts a handshake of a protocol with a client-first pattern.\<close>

definition client_starts ::
  "env \<Rightarrow> mux \<Rightarrow> compiled_protocol \<Rightarrow> nat \<Rightarrow> handshake_state \<Rightarrow> bytes \<Rightarrow> bytes \<Rightarrow> handshake_state \<Rightarrow> bool" where
  "client_starts E m cp early a frame wire a' \<longleftrightarrow>
     aead_ok (e_crypto E) \<and> ecdh_ok (e_crypto E) \<and> protocol_fits cp early \<and>
     chandshake cp \<noteq> [] \<and> mdirection (chandshake cp ! 0) = DirClient \<and> is_ok (NewHandshakeCodecs cp) \<and>
     (\<exists>r r' ea. NewHandshake cp DirClient (m_psk m) r = Inr (a, r') \<and> length ea \<le> early \<and>
       (\<exists>rnd segs rnd' mark w. rnd_budget (chandshake cp ! 0) \<le> length rnd \<and> visible mark \<and>
          EncodeStep (e_crypto E) (SetEarlyData a ea) rnd = Inr (frame, segs, a', rnd') \<and>
          wire = fst (WrapDatagram (e_crypto E) mark (Some (SetEarlyData a ea)) frame w)))"

lemma client_starts_accepted:
  assumes "client_starts E m cp early a frame wire a'" "32 \<le> length (m_rnd m)"
  obtains h h' spec inner where
    "NewHandshake cp DirServer (m_psk m) (m_rnd m) = Inr (h, drop 32 (m_rnd m))"
    "CurrentSpec h = Inr spec" "mdirection spec = DirClient"
    "UnwrapHandshakeDatagram (e_crypto E) (Some (cgenome cp)) wire = Inr inner" "DeclaredFrame spec inner = Inr frame"
    "RecvStep (e_crypto E) h frame = (Inr (), h')" "RecvStep (e_crypto E) h inner = (Inr (), h')"
    "pair_inv (e_crypto E) cp early (hpriv a) (hpriv h) 1 a' h'"
proof -
  from assms(1) obtain r r' ea rnd segs rnd' mark w where
    C: "aead_ok (e_crypto E)" "ecdh_ok (e_crypto E)" "protocol_fits cp early" "chandshake cp \<noteq> []"
      "mdirection (chandshake cp ! 0) = DirClient" "is_ok (NewHandshakeCodecs cp)" and
    a: "NewHandshake cp DirClient (m_psk m) r = Inr (a, r')" "length ea \<le> early" and
    e: "rnd_budget (chandshake cp ! 0) \<le> length rnd" "visible mark"
      "EncodeStep (e_crypto E) (SetEarlyData a ea) rnd = Inr (frame, segs, a', rnd')"
      "wire = fst (WrapDatagram (e_crypto E) mark (Some (SetEarlyData a ea)) frame w)"
    unfolding client_starts_def by blast
  obtain h where h: "NewHandshake cp DirServer (m_psk m) (m_rnd m) = Inr (h, drop 32 (m_rnd m))"
    using C(6) assms(2) by (auto simp: NewHandshake_def is_ok_iff)
  have inv: "pair_inv (e_crypto E) cp early (hpriv a) (hpriv h) 0 (SetEarlyData a ea) h"
    using NewHandshake_pair_inv [OF a(1) h a(2), of "[]"] h by (auto simp: SetEarlyData_def NewHandshake_def)
  note S = pair_step_client [OF C(1-3) inv _ C(5) e(3,1)]
  have len: "0 < length (chandshake cp)" using C(4) by simp
  from S(3) [OF len] obtain h' where h': "\<forall>junk. RecvStep (e_crypto E) h (frame @ junk) = (Inr (), h')"
    "pair_inv (e_crypto E) cp early (hpriv a) (hpriv h) 1 a' h'" by auto
  have "hcp a = cp" using NewHandshake_fields(1) [OF a(1)] .
  then obtain tail where "UnwrapHandshakeDatagram (e_crypto E) (Some (cgenome cp)) wire = Inr (frame @ tail)"
    using unwrap_wrap [OF e(2), of "e_crypto E" "Some (cgenome cp)" frame w] e(4)
    by (auto simp: WrapDatagram_def SetEarlyData_def)
  moreover have "RecvStep (e_crypto E) h frame = (Inr (), h')" using h'(1) [rule_format, of "[]"] by simp
  ultimately show thesis
    using that [OF h S(1) [OF len] C(5)] DeclaredFrame_framed [OF S(2) [OF len]] h' by auto
qed

text \<open>The multiplexer's choice, when the client's protocol is the first of its window.\<close>

lemma client_starts_selected:
  assumes "client_starts E m cp early a frame wire a'" "32 \<le> length (m_rnd m)" "protocolListLocked m = cp # cps"
    "fst (seen (e_crypto E) (e_disk E) now frame (m_replays m)) = False"
  obtains h c where "selectHandshake E now addr wire m = (Inr (h, True), (set_rnd (drop 32 (m_rnd m)) m)\<lparr>m_replays := c\<rparr>)"
    "pair_inv (e_crypto E) cp early (hpriv a) (hpriv h) 1 a' h"
proof -
  obtain h h' spec inner where H:
    "NewHandshake cp DirServer (m_psk m) (m_rnd m) = Inr (h, drop 32 (m_rnd m))"
    "CurrentSpec h = Inr spec" "mdirection spec = DirClient"
    "UnwrapHandshakeDatagram (e_crypto E) (Some (cgenome cp)) wire = Inr inner" "DeclaredFrame spec inner = Inr frame"
    "RecvStep (e_crypto E) h frame = (Inr (), h')" "RecvStep (e_crypto E) h inner = (Inr (), h')"
    "pair_inv (e_crypto E) cp early (hpriv a) (hpriv h) 1 a' h'"
    by (rule client_starts_accepted [OF assms(1,2)])
  obtain c where c: "seen (e_crypto E) (e_disk E) now frame (m_replays m) = (False, c)"
    using assms(4) by (metis prod.collapse)
  have "m_replays (set_rnd rnd m) = m_replays m" for rnd by (simp add: set_rnd_def)
  with H c assms(3) have "selectHandshake E now addr wire m = (Inr (h', True), (set_rnd (drop 32 (m_rnd m)) m)\<lparr>m_replays := c\<rparr>)"
    by (simp add: selectHandshake_def Let_def)
  moreover have "hpriv h' = hpriv h" using H(8) by (simp add: pair_inv_def)
  ultimately show thesis using that H(8) by metis
qed

lemma set_rnd_simps [simp]:
  "m_established (set_rnd rnd m) = m_established m" "m_pending (set_rnd rnd m) = m_pending m" "m_tuns (set_rnd rnd m) = m_tuns m"
  "m_ready (set_rnd rnd m) = m_ready m" "m_max (set_rnd rnd m) = m_max m" "m_closed (set_rnd rnd m) = m_closed m"
  "m_shape (set_rnd rnd m) = m_shape m" "m_rate (set_rnd rnd m) = m_rate m" "m_mask (set_rnd rnd m) = m_mask m"
  "m_out (set_rnd rnd m) = m_out m" "m_rnd (set_rnd rnd m) = rnd"
  by (simp_all add: set_rnd_def)

text \<open>What an operation that only counts, reports or lists handshakes leaves alone.\<close>

definition aside :: "mux \<Rightarrow> mux \<Rightarrow> bool" where
  "aside m m' \<longleftrightarrow>
     m_established m' = m_established m \<and> m_tuns m' = m_tuns m \<and> m_ready m' = m_ready m \<and> m_max m' = m_max m \<and>
     m_closed m' = m_closed m \<and> m_shape m' = m_shape m \<and> m_rate m' = m_rate m \<and> m_mask m' = m_mask m \<and> m_io m' = m_io m"

lemma aside_refl [simp]: "aside m m"
  by (simp add: aside_def)

lemma aside_trans: "aside m1 m2 \<Longrightarrow> aside m2 m3 \<Longrightarrow> aside m1 m3"
  by (simp add: aside_def)

lemma aside_updates [simp]:
  "aside m (put_pending p m)" "aside m (noteFrameLen n m)" "aside m (m\<lparr>m_last_create := l\<rparr>)" "aside m (drop_pending k m)"
  "aside m (telemetryEvent kind k m)" "aside m (m\<lparr>m_replays := c\<rparr>)"
  by (simp_all add: aside_def put_pending_def noteFrameLen_def drop_pending_def telemetryEvent_def Let_def)

section \<open>One message each way\<close>

lemma publish_new:
  assumes "map_of (m_established m) (s_peer t) = None" "\<not> (0 < m_max m \<and> m_max m \<le> int (length (m_established m)))"
    "length (m_ready m) < 32" "\<not> m_closed m"
  shows "publish E t m = m\<lparr>m_tuns := m_tuns m @ [t], m_established := AList.update (s_peer t) (length (m_tuns m)) (m_established m),
    m_ready := m_ready m @ [length (m_tuns m)]\<rparr>"
proof -
  have c: "(0 < m_max m \<and> m_max m \<le> int (length (m_established m))) = False" using assms(2) by blast
  show ?thesis unfolding publish_def assms(1) c Let_def using assms(3,4) by simp
qed

lemma crosswise_finish:
  assumes "ecdh_ok C" "pair_inv C cp early pa pb (length (chandshake cp)) a b"
    "contributes cp (length (chandshake cp)) DirClient" "contributes cp (length (chandshake cp)) DirServer"
    "FinishPacket C a = Inr sa"
  shows "\<exists>sb. FinishPacket C b = Inr sb \<and> psend sa = precv sb \<and> precv sa = psend sb"
proof -
  have "hcp a = cp" "hcp b = cp" "hrole a = DirClient" "hrole b = DirServer" using assms(2) by (simp_all add: pair_inv_def)
  with assms(5) pair_sessionKeys(3) [OF assms(1-4)] show ?thesis by (auto simp: FinishPacket_def NewPacketSession_def)
qed

text \<open>
  Both ends of an open session that is listed under an address and offered to \<open>Accept\<close>: each side's
  receiving codec is the other's sending codec, to which the server's end adds its padding ladder.
\<close>

definition session_with :: "crypto \<Rightarrow> handshake_state \<Rightarrow> string \<Rightarrow> mux \<Rightarrow> bool" where
  "session_with C a addr m \<longleftrightarrow>
     (\<forall>sa. FinishPacket C a = Inr sa \<longrightarrow>
        (\<exists>i sb. map_of (m_established m) addr = Some i \<and> i < length (m_tuns m) \<and> i \<in> set (m_ready m) \<and>
           \<not> s_closed (m_tuns m ! i) \<and> s_sess (m_tuns m ! i) = sb \<and> precv sb = psend sa \<and>
           psend sb = (if m_shape m = [] then precv sa else (precv sa)\<lparr>shape_buckets := m_shape m\<rparr>)))"

lemma finish_establishes:
  assumes "ecdh_ok (e_crypto E)" "pair_inv (e_crypto E) cp early pa pb (length (chandshake cp)) a (p_h p)"
    "contributes cp (length (chandshake cp)) DirClient" "contributes cp (length (chandshake cp)) DirServer"
    "map_of (m_established m) (p_addr p) = None" "\<not> (0 < m_max m \<and> m_max m \<le> int (length (m_established m)))"
    "length (m_ready m) < 32" "\<not> m_closed m"
  shows "session_with (e_crypto E) a (p_addr p) (finishHandshake E now p m) \<and> m_io (finishHandshake E now p m) = m_io m"
proof -
  define m1 where "m1 = drop_pending (p_addr p) (telemetryEvent TelemetryHandshake (p_addr p) m)"
  have s: "aside m m1" unfolding m1_def using aside_trans [OF aside_updates(5) aside_updates(4)] .
  have pub: "publish E t m1 = m1\<lparr>m_tuns := m_tuns m1 @ [t],
      m_established := AList.update (s_peer t) (length (m_tuns m1)) (m_established m1), m_ready := m_ready m1 @ [length (m_tuns m1)]\<rparr>"
    if "s_peer t = p_addr p" for t
    using publish_new [of m1 t E] s assms(5-8) that by (simp add: aside_def)
  show ?thesis
  proof (cases "FinishPacket (e_crypto E) (p_h p)")
    case (Inl e)
    then have "\<nexists>sa. FinishPacket (e_crypto E) a = Inr sa" using crosswise_finish [OF assms(1-4)] by auto
    with Inl show ?thesis by (simp add: finishHandshake_def session_with_def)
  next
    case (Inr sb)
    have f: "finishHandshake E now p m = publish E (new_tunnel now p sb m) m1" using Inr by (simp add: finishHandshake_def m1_def)
    define t where "t = new_tunnel now p sb m"
    have t: "s_peer t = p_addr p" "\<not> s_closed t" "m_shape m1 = m_shape m"
      "precv (s_sess t) = precv sb" "psend (s_sess t) = (if m_shape m = [] then psend sb else (psend sb)\<lparr>shape_buckets := m_shape m\<rparr>)"
      using s by (simp_all add: t_def new_tunnel_def SetShapeBuckets_def aside_def)
    have "psend sa = precv sb \<and> precv sa = psend sb" if "FinishPacket (e_crypto E) a = Inr sa" for sa
      using crosswise_finish [OF assms(1-4) that] Inr by auto
    with t(2-) have "session_with (e_crypto E) a (p_addr p) (publish E t m1)"
      unfolding pub [OF t(1)] session_with_def using t(1) by (simp add: update_conv')
    moreover have "m_io (publish E t m1) = m_io m" unfolding pub [OF t(1)] using s by (simp add: aside_def)
    ultimately show ?thesis by (simp add: f t_def)
  qed
qed

text \<open>A pending handshake whose next message is its own and the last.\<close>

lemma last_message_establishes:
  assumes C: "aead_ok (e_crypto E)" "ecdh_ok (e_crypto E)" "protocol_fits cp early"
    "contributes cp (length (chandshake cp)) DirClient" "contributes cp (length (chandshake cp)) DirServer"
    and inv: "pair_inv (e_crypto E) cp early pa pb i a (p_h p)" "Suc i = length (chandshake cp)"
    and dir: "mdirection (chandshake cp ! i) = DirServer" "rnd_budget (chandshake cp ! i) \<le> length (m_rnd m)"
    and size: "plainFieldsSize (chandshake cp ! i) + max_body (chandshake cp ! i) + early + gcmTagSize \<le> 60000"
    and net: "visible (e_mark E)" "\<forall>w. e_net E (p_addr p) w"
    and room: "map_of (m_established m) (p_addr p) = None" "\<not> (0 < m_max m \<and> m_max m \<le> int (length (m_established m)))"
      "length (m_ready m) < 32" "\<not> m_closed m"
  shows "\<exists>wire inner a2. m_out (send_and_finish E now p m) = m_out m @ [(p_addr p, wire)] \<and>
    UnwrapDatagram (e_crypto E) (Some a) wire = Inr inner \<and> RecvStep (e_crypto E) a inner = (Inr (), a2) \<and> Done a2 \<and>
    session_with (e_crypto E) a2 (p_addr p) (send_and_finish E now p m)"
proof -
  have i: "i < length (chandshake cp)" using inv(2) by simp
  obtain frame segs h2 rnd a2 where S: "CurrentSpec (p_h p) = Inr (chandshake cp ! i)"
    "EncodeStep (e_crypto E) (p_h p) (m_rnd m) = Inr (frame, segs, h2, rnd)" "step_frame cp i early frame"
    "\<forall>junk. RecvStep (e_crypto E) a (frame @ junk) = (Inr (), a2)" "pair_inv (e_crypto E) cp early pa pb (Suc i) a2 h2"
    by (rule pair_step_server [OF C(1-3) inv(1) i dir])
  have I: "hidx (p_h p) = i" "length (hcodecs (p_h p)) = length (chandshake cp)" "hcp a = cp" "hcp h2 = cp"
    using inv(1) S(5) by (simp_all add: pair_inv_def)
  have nd: "\<not> Done (p_h p)" using I inv(2) by (simp add: Done_def)
  have done2: "Done a2" "Done h2" using S(5) inv(2) by (simp_all add: pair_inv_def Done_def)
  obtain wire rnd1 where w: "WrapDatagram (e_crypto E) (e_mark E) (Some h2) frame rnd = (wire, rnd1)" by fastforce
  have "length frame \<le> 60000" using S(3) size by (simp add: step_frame_def)
  moreover have "length wire \<le> 956 + length frame"
    using w wrap_length [OF net(1), of "e_crypto E" "Some (cgenome (hcp h2))" frame rnd]
      CoverLen_bounds(2) [of "e_crypto E" "Some (cgenome (hcp h2))"]
      handshakePadTarget_bounds(2) [of "e_crypto E" "Some (cgenome (hcp h2))"]
    by (auto simp: WrapDatagram_def Let_def HandshakeMinWire_def CoverLenMax_def split: if_splits)
  ultimately have "length wire \<le> maxDatagram" by (simp add: maxDatagram_def)
  then have mw: "mux_write E (p_addr p) wire (set_rnd rnd1 m) =
      (Inr (), m\<lparr>m_io := \<lparr>io_out = m_out m @ [(p_addr p, wire)], io_rnd = rnd1\<rparr>\<rparr>)"
    using net(2) by (simp add: mux_write_def raw_write_def set_rnd_def)
  define m2 where "m2 = m\<lparr>m_io := \<lparr>io_out = m_out m @ [(p_addr p, wire)], io_rnd = rnd1\<rparr>\<rparr>"
  define p1 where "p1 = p\<lparr>p_h := h2, p_last := Some frame, p_last_sent := Some now\<rparr>"
  have "length (hcodecs (p_h p)) - hidx (p_h p) = Suc 0" using I inv(2) by simp
  then have so: "sendOutgoing E now p m = (p1, put_pending p1 m2)"
    using nd S(1,2) dir(1) w mw by (simp add: sendOutgoing_def p1_def m2_def)
  then have sf: "send_and_finish E now p m = finishHandshake E now p1 (put_pending p1 m2)"
    using done2 by (simp add: send_and_finish_def p1_def)
  obtain tail where u: "UnwrapDatagram (e_crypto E) (Some a) wire = Inr (frame @ tail)"
    using unwrap_wrap [OF net(1), of "e_crypto E" "Some (cgenome cp)" frame rnd] w I(3,4)
    by (auto simp: UnwrapDatagram_def WrapDatagram_def)
  have k: "pair_inv (e_crypto E) cp early pa pb (length (chandshake cp)) a2 (p_h p1)" using S(5) inv(2) by (simp add: p1_def)
  have "session_with (e_crypto E) a2 (p_addr p1) (finishHandshake E now p1 (put_pending p1 m2)) \<and>
      m_io (finishHandshake E now p1 (put_pending p1 m2)) = m_io (put_pending p1 m2)"
    by (rule finish_establishes [OF C(2) k C(4,5)]) (use room in \<open>simp_all add: p1_def m2_def put_pending_def\<close>)
  moreover have "m_out (put_pending p1 m2) = m_out m @ [(p_addr p, wire)]" by (simp add: put_pending_def m2_def)
  ultimately show ?thesis using u S(4) done2(1) sf by (auto simp: p1_def)
qed

section \<open>Samples\<close>

definition sample_env :: env where
  "sample_env = \<lparr>e_crypto = demo_crypto, e_mark = [], e_net = (\<lambda>_ _. True), e_disk = True, e_pick = True, e_delay = id\<rparr>"

lemma sample_client:
  assumes "m_psk m = sample_psk"
  obtains a frame wire a' where "client_starts sample_env m sample_protocol 2 a frame wire a'"
proof -
  obtain a b r where ab: "NewHandshake sample_protocol DirClient sample_psk zeros = Inr (a, r)"
    "NewHandshake sample_protocol DirServer sample_psk zeros = Inr (b, r)"
    using sample_codecs by (auto simp: NewHandshake_def is_ok_iff zeros_def read_full_def)
  have dir: "mdirection (chandshake sample_protocol ! 0) = DirClient" "0 < length (chandshake sample_protocol)"
    by (simp_all add: sample_handshake) (simp add: sample_message_def)
  have "pair_inv demo_crypto sample_protocol 2 (hpriv a) (hpriv b) 0 (SetEarlyData a []) (SetEarlyData b [])"
    by (rule NewHandshake_pair_inv [OF ab]) simp_all
  from pair_step [OF _ _ sample_fits this dir(2) sample_budget [OF dir(2)]] dir(1) obtain frame segs a' rnd' where
    e: "EncodeStep demo_crypto (SetEarlyData a []) zeros = Inr (frame, segs, a', rnd')" by auto
  have "client_starts sample_env m sample_protocol 2 a frame
      (fst (WrapDatagram demo_crypto [] (Some (SetEarlyData a [])) frame [])) a'"
    unfolding client_starts_def using sample_fits sample_codecs dir ab(1) e sample_budget [OF dir(2)] assms
    by (force simp: sample_env_def visible_def)
  then show thesis by (rule that)
qed

lemma sample_second:
  "mdirection (sample_message 1 DirServer) = DirServer"
  "plainFieldsSize (sample_message 1 DirServer) + max_body (sample_message 1 DirServer) + 2 + gcmTagSize \<le> 60000"
  "32 + rnd_budget (sample_message 1 DirServer) \<le> length zeros"
  by (simp_all add: sample_message_def sample_fields_def payload_fits_def
       max_body_def length_width_def plainFieldsSize_def size_or_0_def gcmTagSize_def fixedSize.simps
       maxEncodedFieldSize.simps fieldFixedSize.simps rnd_budget_def zeros_def field_budget_def)

section \<open>A replay\<close>

text \<open>
  C15. A replayed first datagram opens nothing. Once a datagram was accepted as the first frame of a
  handshake, a copy of it that arrives within an hour at the same multiplexer, after any other lookups in its replay table,
  draws no answer and changes neither the pending handshakes nor the sessions, whatever address it comes from,
  as long as that address has no session and no pending handshake at that moment. The
  pre-shared key and the window of protocols are the same both times; the first time, the replay table had room;
  the server has enough random bytes to try the whole window both times; there is no decoy.
\<close>
theorem replay_opens_nothing:
  assumes "digest_ok (e_crypto E)" "aead_short (e_crypto E)" "replay_inv (m_replays m)"
    "length (rc_map (sweepLocked now (m_replays m))) < replayCacheMax"
    "32 * length (protocolListLocked m) \<le> length (m_rnd m)"
    "selectHandshake E now addr data m = (Inr (h, True), m1)"
    "protocolListLocked m2 = protocolListLocked m" "m_psk m2 = m_psk m" "m_decoy m2 = None"
    "m_replays m2 = seen_all (e_crypto E) xs (m_replays m1)" "\<forall>(t, ok, other) \<in> set xs. t < now + replayCacheTTL"
    "32 * length (protocolListLocked m2) \<le> length (m_rnd m2)" "e_crypto E2 = e_crypto E" "later < now + replayCacheTTL"
    "map_of (m_established m2) addr2 = None" "map_of (m_pending m2) addr2 = None"
  shows "m_out (handleDatagram E2 later addr2 data m2) = m_out m2 \<and>
     m_pending (handleDatagram E2 later addr2 data m2) = m_pending m2 \<and>
     m_established (handleDatagram E2 later addr2 data m2) = m_established m2"
proof -
  obtain t where t: "first_frame (e_crypto E) (m_psk m) data (protocolListLocked m) = Some t"
    using selectHandshake_primed [OF assms(5,6)] by blast
  have ne: "t \<noteq> []" using first_frame_nonempty [OF assms(2) t] .
  obtain c where c: "seen (e_crypto E) (e_disk E) now t (m_replays m) = (False, c)" "m_replays m1 = c"
    using selectHandshake_first [OF assms(5) t, of now addr] assms(6)
    by (cases "seen (e_crypto E) (e_disk E) now t (m_replays m)") (auto split: bool.splits)
  have k: "map_of (rc_map c) (replayKey (e_crypto E) t) = Some (now + replayCacheTTL)"
    using seen_records [OF ne _ assms(4), of "e_crypto E" "e_disk E"] c(1) by simp
  have "replay_inv c" using seen_inv [OF assms(3,1), of "e_disk E" now t] c(1) by simp
  from seen_all_keeps [OF this assms(1) k assms(11)]
  have "map_of (rc_map (m_replays m2)) (replayKey (e_crypto E) t) = Some (now + replayCacheTTL)"
    using assms(10) c(2) by simp
  then have hit: "seen (e_crypto E2) (e_disk E2) later t (m_replays m2) = (True, m_replays m2)"
    using seen_hit [OF ne _ assms(14)] assms(13) by simp
  have "first_frame (e_crypto E2) (m_psk m2) data (protocolListLocked m2) = Some t" using t assms(7,8,13) by simp
  from selectHandshake_first [OF assms(12) this, of later addr2] hit
  obtain m3 where m3: "untouched m2 m3"
    "selectHandshake E2 later addr2 data m2 = (Inl ErrProbe, telemetryEvent TelemetryReplay addr2 (m3\<lparr>m_replays := m_replays m2\<rparr>))"
    by auto
  then have "handleDatagram E2 later addr2 data m2 = m2 \<or>
      (\<exists>l. handleDatagram E2 later addr2 data m2 = m2\<lparr>m_last_create := l\<rparr>) \<or>
      handleDatagram E2 later addr2 data m2 = telemetryEvent TelemetryReplay addr2 (m3\<lparr>m_replays := m_replays m2\<rparr>)"
    using assms(9,15,16) by (auto simp: handleDatagram_def maybeDecoy_def untouched_def telemetryEvent_def)
  with m3(1) show ?thesis by (auto simp: untouched_def telemetryEvent_def)
qed

theorem replay_opens_nothing_witness:
  "\<exists>a frame wire a' h m1 m2. client_starts sample_env (NewServerMux sample_protocol sample_psk zeros) sample_protocol 2 a frame wire a' \<and>
     selectHandshake sample_env 0 ''10.0.0.1:5'' wire (NewServerMux sample_protocol sample_psk zeros) = (Inr (h, True), m1) \<and>
     m2 = (NewServerMux sample_protocol sample_psk zeros)\<lparr>m_replays := m_replays m1\<rparr> \<and>
     m_out (handleDatagram sample_env 5 ''203.0.113.9:1'' wire m2) = [] \<and>
     m_pending (handleDatagram sample_env 5 ''203.0.113.9:1'' wire m2) = []"
proof -
  let ?m = "NewServerMux sample_protocol sample_psk zeros"
  obtain a frame wire a' where s: "client_starts sample_env ?m sample_protocol 2 a frame wire a'"
    by (rule sample_client [of ?m]) (simp add: NewServerMux_def)
  have m: "protocolListLocked ?m = [sample_protocol]" "32 \<le> length (m_rnd ?m)" "e_crypto sample_env = demo_crypto"
    by (simp_all add: NewServerMux_def protocolListLocked_def zeros_def sample_env_def)
  have n: "fst (seen (e_crypto sample_env) (e_disk sample_env) 0 frame (m_replays ?m)) = False"
    by (simp add: NewServerMux_def newReplayCache_def seen_def replayCacheMax_def Let_def)
  obtain h c where h: "selectHandshake sample_env 0 ''10.0.0.1:5'' wire ?m =
      (Inr (h, True), (set_rnd (drop 32 (m_rnd ?m)) ?m)\<lparr>m_replays := c\<rparr>)"
    by (rule client_starts_selected [OF s m(2,1) n, where addr = "''10.0.0.1:5''"])
  define m2 where "m2 = ?m\<lparr>m_replays := c\<rparr>"
  have "replay_inv (m_replays ?m)" "length (rc_map (sweepLocked 0 (m_replays ?m))) < replayCacheMax"
    by (simp_all add: NewServerMux_def newReplayCache_def replay_inv_def sweepLocked_def replayCacheMax_def)
  moreover have "aead_short (e_crypto sample_env)" "digest_ok (e_crypto sample_env)"
    by (simp_all add: m(3) aead_short_def) (simp add: demo_crypto_def)
  ultimately have "m_out (handleDatagram sample_env 5 ''203.0.113.9:1'' wire m2) = m_out m2 \<and>
      m_pending (handleDatagram sample_env 5 ''203.0.113.9:1'' wire m2) = m_pending m2 \<and>
      m_established (handleDatagram sample_env 5 ''203.0.113.9:1'' wire m2) = m_established m2"
    using replay_opens_nothing [OF _ _ _ _ _ h, where xs = "[]" and ?m2.0 = m2 and ?E2.0 = sample_env and later = 5] m(1,2)
    by (simp add: m2_def protocolListLocked_def NewServerMux_def replayCacheTTL_def)
  moreover have "m_out m2 = []" "m_pending m2 = []" by (simp_all add: m2_def NewServerMux_def)
  moreover have "m2 = ?m\<lparr>m_replays := m_replays ((set_rnd (drop 32 (m_rnd ?m)) ?m)\<lparr>m_replays := c\<rparr>)\<rparr>" by (simp add: m2_def)
  ultimately show ?thesis using s h by metis
qed

section \<open>Establishment\<close>

text \<open>
  C16. Establishment, for protocols of one client and one server message: when the first
  datagram of a genuine client reaches a multiplexer whose window starts with the client's
  protocol, then the multiplexer sends exactly one datagram, to the client; what the client unwraps
  from it completes the client's handshake; and if the client can build its packet session, the
  multiplexer holds an open session under the client's address, offered to \<open>Accept\<close>, in which each side's receiving codec is
  the other's sending codec, the server's with its padding ladder (any ladder, or none). The conditions: the frame is not in the
  replay table; the address has no session, no pending handshake and no attempt on record; the caps on pending handshakes and on
  sessions and the accept queue have room and the multiplexer is open; the random bytes suffice; the answer is at most 60,000 bytes before
  it is wrapped; the network takes what is sent to that address.
\<close>
theorem client_is_established:
  assumes "client_starts E m cp early a frame wire a'" "protocolListLocked m = cp # cps"
    "length (chandshake cp) = 2" "mdirection (chandshake cp ! 1) = DirServer"
    "contributes cp 2 DirClient" "contributes cp 2 DirServer"
    "plainFieldsSize (chandshake cp ! 1) + max_body (chandshake cp ! 1) + early + gcmTagSize \<le> 60000"
    "32 + rnd_budget (chandshake cp ! 1) \<le> length (m_rnd m)" "visible (e_mark E)" "\<forall>w. e_net E addr w"
    "fst (seen (e_crypto E) (e_disk E) now frame (m_replays m)) = False"
    "map_of (m_established m) addr = None" "map_of (m_pending m) addr = None" "map_of (m_last_create m) addr = None"
    "length (m_pending m) < 1024" "m_max m = 0 \<or> int (length (m_established m) + length (m_pending m)) < m_max m"
    "length (m_ready m) < 32" "\<not> m_closed m"
  shows "\<exists>answer inner a2. m_out (handleDatagram E now addr wire m) = m_out m @ [(addr, answer)] \<and>
     UnwrapDatagram (e_crypto E) (Some a') answer = Inr inner \<and> RecvStep (e_crypto E) a' inner = (Inr (), a2) \<and> Done a2 \<and>
     session_with (e_crypto E) a2 addr (handleDatagram E now addr wire m)"
proof -
  have C: "aead_ok (e_crypto E)" "ecdh_ok (e_crypto E)" "protocol_fits cp early" using assms(1) by (simp_all add: client_starts_def)
  obtain h c where h: "selectHandshake E now addr wire m = (Inr (h, True), (set_rnd (drop 32 (m_rnd m)) m)\<lparr>m_replays := c\<rparr>)"
    "pair_inv (e_crypto E) cp early (hpriv a) (hpriv h) 1 a' h"
    by (rule client_starts_selected [OF assms(1) _ assms(2,11)]) (use assms(8) in auto)
  define m1 where "m1 = (set_rnd (drop 32 (m_rnd m)) m)\<lparr>m_replays := c\<rparr>"
  define p where "p = \<lparr>p_h = h, p_last = None, p_last_sent = None, p_created = now, p_attempts = 0,
    p_backoff = retransmitBase, p_addr = addr, p_recvOK = False, p_primed = True\<rparr>"
  define m2 where "m2 = (put_pending p m1)\<lparr>m_last_create := AList.update addr now (m_last_create m1)\<rparr>"
  define p1 where "p1 = p\<lparr>p_primed := False, p_recvOK := True, p_last := None, p_attempts := 0, p_backoff := retransmitBase\<rparr>"
  define m3 where "m3 = noteFrameLen (length wire) (put_pending p1 m2)"
  have "16 \<le> length wire"
  proof -
    obtain inner where "UnwrapHandshakeDatagram (e_crypto E) (Some (cgenome cp)) wire = Inr inner"
      using client_starts_accepted [OF assms(1)] assms(8) by fastforce
    then show ?thesis using CoverLen_bounds(1) [of "e_crypto E" "Some (cgenome cp)"]
      by (auto simp: UnwrapHandshakeDatagram_def CoverLenMin_def Let_def split: if_splits)
  qed
  moreover have "(0 < m_max m \<and> m_max m \<le> int (length (m_established m) + length (m_pending m))) = False"
    using assms(16) by auto
  ultimately have "handleDatagram E now addr wire m = advance E now p wire m2"
    using h(1) assms(12-15) by (auto simp: handleDatagram_def Let_def p_def m2_def m1_def minFirstDatagram_def maxPendingHandshakes_def)
  moreover have "\<not> Done (p_h p1)" using h(2) assms(3) by (simp add: p1_def p_def pair_inv_def Done_def)
  ultimately have H: "handleDatagram E now addr wire m = send_and_finish E now p1 m3"
    by (simp add: advance_def progress_def Let_def p1_def m3_def p_def)
  have "aside m1 m3" unfolding m3_def m2_def
    using aside_trans aside_updates by metis
  then have M: "m_established m3 = m_established m" "m_max m3 = m_max m" "m_ready m3 = m_ready m" "m_closed m3 = m_closed m"
    "m_shape m3 = m_shape m" "m_rnd m3 = drop 32 (m_rnd m)" "m_out m3 = m_out m"
    by (simp_all add: aside_def m1_def)
  have P: "p_addr p1 = addr" "p_h p1 = h" by (simp_all add: p1_def p_def)
  have "pair_inv (e_crypto E) cp early (hpriv a) (hpriv h) 1 a' (p_h p1)" using h(2) P by simp
  moreover have "contributes cp (length (chandshake cp)) DirClient" "contributes cp (length (chandshake cp)) DirServer"
    "Suc 1 = length (chandshake cp)" using assms(3,5,6) by simp_all
  moreover have "rnd_budget (chandshake cp ! 1) \<le> length (m_rnd m3)" using M(6) assms(8) by simp
  moreover have "\<not> (0 < m_max m3 \<and> m_max m3 \<le> int (length (m_established m3)))" using M(1,2) assms(16) by auto
  ultimately have "\<exists>wire inner a2. m_out (send_and_finish E now p1 m3) = m_out m3 @ [(p_addr p1, wire)] \<and>
      UnwrapDatagram (e_crypto E) (Some a') wire = Inr inner \<and> RecvStep (e_crypto E) a' inner = (Inr (), a2) \<and> Done a2 \<and>
      session_with (e_crypto E) a2 (p_addr p1) (send_and_finish E now p1 m3)"
    using assms(4,7,9,10,12,17,18) M P by (intro last_message_establishes [OF C]) simp_all
  with H M P show ?thesis by simp
qed

theorem client_is_established_witness:
  "\<exists>a frame wire a' answer inner a2.
     client_starts sample_env (WithShapeBuckets DefaultShapeBuckets (NewServerMux sample_protocol sample_psk zeros)) sample_protocol 2 a frame wire a' \<and>
     m_out (handleDatagram sample_env 0 ''10.0.0.1:5'' wire (WithShapeBuckets DefaultShapeBuckets (NewServerMux sample_protocol sample_psk zeros))) =
       [(''10.0.0.1:5'', answer)] \<and>
     UnwrapDatagram demo_crypto (Some a') answer = Inr inner \<and> RecvStep demo_crypto a' inner = (Inr (), a2) \<and> Done a2"
proof -
  let ?m = "WithShapeBuckets DefaultShapeBuckets (NewServerMux sample_protocol sample_psk zeros)"
  obtain a frame wire a' where s: "client_starts sample_env ?m sample_protocol 2 a frame wire a'"
    by (rule sample_client [of ?m]) (simp add: NewServerMux_def WithShapeBuckets_def)
  have m: "protocolListLocked ?m = [sample_protocol]" "m_out ?m = []" by (simp_all add: NewServerMux_def WithShapeBuckets_def protocolListLocked_def)
  have "fst (seen demo_crypto True 0 frame (m_replays ?m)) = False"
    by (simp add: NewServerMux_def WithShapeBuckets_def newReplayCache_def seen_def replayCacheMax_def Let_def)
  moreover have "contributes sample_protocol 2 DirClient" "contributes sample_protocol 2 DirServer"
    "length (chandshake sample_protocol) = 2"
    using sample_contributes by (simp_all add: sample_handshake numeral_2_eq_2)
  ultimately have "\<exists>answer inner a2. m_out (handleDatagram sample_env 0 ''10.0.0.1:5'' wire ?m) = m_out ?m @ [(''10.0.0.1:5'', answer)] \<and>
      UnwrapDatagram (e_crypto sample_env) (Some a') answer = Inr inner \<and>
      RecvStep (e_crypto sample_env) a' inner = (Inr (), a2) \<and> Done a2 \<and>
      session_with (e_crypto sample_env) a2 ''10.0.0.1:5'' (handleDatagram sample_env 0 ''10.0.0.1:5'' wire ?m)"
    by (intro client_is_established [OF s m(1)])
       (use sample_second in \<open>simp_all add: NewServerMux_def WithShapeBuckets_def sample_env_def sample_handshake visible_def\<close>)
  then have "\<exists>answer inner a2. m_out (handleDatagram sample_env 0 ''10.0.0.1:5'' wire ?m) = [(''10.0.0.1:5'', answer)] \<and>
      UnwrapDatagram demo_crypto (Some a') answer = Inr inner \<and> RecvStep demo_crypto a' inner = (Inr (), a2) \<and> Done a2"
    by (auto simp: m(2) sample_env_def)
  with s show ?thesis by blast
qed

end
