(* ===== verification/Mux_Sessions.thy ===== *)
theory Mux_Sessions
  imports Mux_Clients Tunnel_Recovery
begin

text \<open>
  Properties of the sessions of a multiplexer: delivery to the right session, the rate
  limiter, the reaping of idle sessions, and the bounds on what it sends to those that have
  no session.
\<close>

section \<open>Rate limiter\<close>

text \<open>The bytes that pass, of datagrams given by time and length.\<close>

fun takes :: "(int \<times> nat) list \<Rightarrow> token_bucket option \<Rightarrow> nat \<times> token_bucket option" where
  "takes [] b = (0, b)"
| "takes ((now, n) # xs) b =
     (case take_tokens now n b of (ok, b1) \<Rightarrow> (case takes xs b1 of (passed, b2) \<Rightarrow> ((if ok then n else 0) + passed, b2)))"

lemma takes_bound:
  assumes "sorted (tb_last b # map fst xs)" "\<forall>(t, n) \<in> set xs. t \<le> until" "tb_last b \<le> until"
    "0 \<le> tb_rate b" "0 \<le> tb_tokens b" "0 \<le> tb_capacity b"
  shows "int (fst (takes xs (Some b))) * second \<le> tb_tokens b + (until - tb_last b) * tb_rate b"
  using assms
proof (induction xs arbitrary: b)
  case Nil
  then show ?case by simp
next
  case (Cons x xs)
  obtain now n where x: "x = (now, n)" by (cases x)
  define t where "t = tb_tokens b + (now - tb_last b) * tb_rate b"
  define t1 where "t1 = (if tb_capacity b < t then tb_capacity b else t)"
  define b1 where "b1 = b\<lparr>tb_tokens := t1, tb_last := now\<rparr>"
  have now: "tb_last b \<le> now" "now \<le> until" "sorted (now # map fst xs)" "\<forall>(t, n) \<in> set xs. t \<le> until"
    using Cons.prems x by auto
  have "0 \<le> (now - tb_last b) * tb_rate b" using now(1) Cons.prems(4) by simp
  then have t: "0 \<le> t1" "t1 \<le> t" using Cons.prems(5,6) by (simp_all add: t1_def t_def)
  have sum: "t + (until - now) * tb_rate b = tb_tokens b + (until - tb_last b) * tb_rate b"
    by (simp add: t_def algebra_simps)
  have IH: "int (fst (takes xs (Some (b1\<lparr>tb_tokens := u\<rparr>)))) * second \<le> u + (until - now) * tb_rate b" if "0 \<le> u" for u
    using Cons.IH [of "b1\<lparr>tb_tokens := u\<rparr>"] now that Cons.prems(4,6) by (simp add: b1_def)
  have b1: "b1\<lparr>tb_tokens := t1\<rparr> = b1" by (simp add: b1_def)
  show ?case
  proof (cases "t1 < int n * second")
    case True
    then have "take_tokens now n (Some b) = (False, Some b1)"
      by (simp add: take_tokens_def Let_def t_def [symmetric] t1_def [symmetric] b1_def)
    with IH [OF t(1)] b1 t(2) sum x show ?thesis by (simp add: case_prod_beta)
  next
    case False
    then have "take_tokens now n (Some b) = (True, Some (b1\<lparr>tb_tokens := t1 - int n * second\<rparr>))"
      by (simp add: take_tokens_def Let_def t_def [symmetric] t1_def [symmetric] b1_def)
    moreover have "0 \<le> t1 - int n * second" using False by simp
    ultimately show ?thesis using IH [of "t1 - int n * second"] t(2) sum x by (simp add: case_prod_beta algebra_simps)
  qed
qed

text \<open>
  C17. The rate limit of a session: of any datagrams with non-decreasing arrival times, a fresh
  limiter lets pass, up to any moment, at most the configured bytes per second for the time
  since it was made plus one second's worth.
\<close>
theorem limiter_bound:
  assumes "0 < rate" "sorted (start # map fst xs)" "\<forall>(t, n) \<in> set xs. t \<le> until" "start \<le> until"
  shows "int (fst (takes xs (newTokenBucket start rate rate))) * second \<le> rate * (second + (until - start))"
proof -
  define b where "b = \<lparr>tb_rate = rate, tb_capacity = rate * second, tb_tokens = rate * second, tb_last = start\<rparr>"
  have "newTokenBucket start rate rate = Some b" using assms(1) by (simp add: newTokenBucket_def b_def)
  moreover have "0 \<le> rate * second" using assms(1) by (simp add: second_def)
  then have "int (fst (takes xs (Some b))) * second \<le> rate * second + (until - start) * rate"
    using takes_bound [of b xs until] assms by (simp add: b_def)
  ultimately show ?thesis by (simp add: algebra_simps)
qed

theorem limiter_bound_witness:
  "int (fst (takes [(0, 700), (0, 700), (500000000, 300)] (newTokenBucket 0 1000 1000))) * second
     \<le> 1000 * (second + 500000000) \<and>
   fst (takes [(0, 700), (0, 700), (500000000, 300)] (newTokenBucket 0 1000 1000)) = 1000"
proof
  show "int (fst (takes [(0, 700), (0, 700), (500000000, 300)] (newTokenBucket 0 1000 1000))) * second
     \<le> 1000 * (second + 500000000)"
    using limiter_bound [of 1000 0 "[(0, 700), (0, 700), (500000000, 300)]" 500000000] by simp
  show "fst (takes [(0, 700), (0, 700), (500000000, 300)] (newTokenBucket 0 1000 1000)) = 1000"
    by (simp add: newTokenBucket_def take_tokens_def second_def)
qed

section \<open>Idle sessions\<close>

lemma s_encode_frame:
  assumes "s_encode C payload t w = (x, t', w')"
  shows "s_last_active t' = s_last_active t" "s_recv t' = s_recv t" "s_limiter t' = s_limiter t" "precv (s_sess t') = precv (s_sess t)"
  using assms sess_encode_frame(1) by (auto simp: s_encode_def split: sum.splits)

lemma s_write_async_frame:
  "s_last_active (fst (s_write_async net now frame t w)) = s_last_active t"
  "s_recv (fst (s_write_async net now frame t w)) = s_recv t"
  "s_sess (fst (s_write_async net now frame t w)) = s_sess t"
  "s_limiter (fst (s_write_async net now frame t w)) = s_limiter t"
  by (simp_all add: s_write_async_def split: prod.split)

lemma keepalive_last_active: "s_last_active (fst (s_sendKeepalive C net now interval t w)) = s_last_active t"
proof (cases "s_encode C [ControlKeepalive] t w")
  case (fields x t1 w1)
  with s_encode_frame [OF fields] s_write_async_frame(1) show ?thesis
    by (simp add: s_sendKeepalive_def split: sum.split)
qed

lemma s_write_last_active: "s_last_active (fst (snd (s_write net now frame t w))) = s_last_active t"
  by (simp add: s_write_def split: prod.split)

lemma s_encode_last_active: "s_last_active (fst (snd (s_encode C payload t w))) = s_last_active t"
  by (simp add: s_encode_def split: sum.split prod.split)

lemma s_observe_last_active: "s_last_active (s_observeAck b t) = s_last_active t"
  by (simp add: s_observeAck_def)

lemma send_last_active: "s_last_active (fst (snd (s_SendPacket C net now packet t w))) = s_last_active t"
proof -
  have lc: "s_last_active (fst (s_maybeSendLossControl C net now t1 w1)) = s_last_active t1" for t1 w1
    by (simp add: s_maybeSendLossControl_def Let_def case_prod_beta s_encode_last_active s_write_last_active s_observe_last_active
        split: sum.split)
  show ?thesis
    by (simp add: s_SendPacket_def case_prod_beta s_encode_last_active s_write_last_active lc split: sum.split)
qed

lemma sweep_one_sessions:
  assumes "tables_inv m"
  shows "map_of (m_established (sweep_one E now i m)) addr =
      (if map_of (m_established m) addr = Some i \<and> m_idle m \<le> s_idleFor now (m_tuns m ! i) then None
       else map_of (m_established m) addr)"
    and "m_idle (sweep_one E now i m) = m_idle m" "m_keepalive (sweep_one E now i m) = m_keepalive m"
    and "s_last_active (m_tuns (sweep_one E now i m) ! j) = s_last_active (m_tuns m ! j)"
proof -
  note I = tables_invD [OF assms]
  have listed: "map_of (m_established m) addr = Some i \<Longrightarrow> i < length (m_tuns m) \<and> s_peer (m_tuns m ! i) = addr \<and> \<not> s_closed (m_tuns m ! i)"
    for addr using I(4) by (blast dest: map_of_SomeD)
  have wt: "m_established (with_tunnel i f m) = m_established m" for f by (simp add: with_tunnel_def split: prod.split)
  show "map_of (m_established (sweep_one E now i m)) addr =
      (if map_of (m_established m) addr = Some i \<and> m_idle m \<le> s_idleFor now (m_tuns m ! i) then None
       else map_of (m_established m) addr)"
  proof (cases "i < length (m_tuns m) \<and> \<not> s_closed (m_tuns m ! i)")
    case True
    then have "map_of (m_established m) (s_peer (m_tuns m ! i)) = Some i" using I(5) [of i] by simp
    then have "map_of (m_established m) addr = Some i \<longleftrightarrow> addr = s_peer (m_tuns m ! i)" using listed [of addr] by metis
    with True show ?thesis by (simp add: sweep_one_def closeTunnel_def delete_conv' wt)
  next
    case False
    then have "map_of (m_established m) addr \<noteq> Some i" using listed [of addr] by blast
    with False show ?thesis by (auto simp: sweep_one_def closeTunnel_def wt)
  qed
  show "m_idle (sweep_one E now i m) = m_idle m" "m_keepalive (sweep_one E now i m) = m_keepalive m"
    by (simp_all add: sweep_one_def closeTunnel_def with_tunnel_def split: prod.split)
  have k: "s_last_active t' = s_last_active t" if "s_sendKeepalive C net now iv t w = (t', w')" for C net iv t w t' w'
    using keepalive_last_active [of C net now iv t w] that by simp
  show "s_last_active (m_tuns (sweep_one E now i m) ! j) = s_last_active (m_tuns m ! j)"
    by (cases "i = j") (auto simp: sweep_one_def closeTunnel_def with_tunnel_def nth_list_update k split: prod.split)
qed

lemma sweep_one_inv: "tables_inv m \<Longrightarrow> tables_inv (sweep_one E now i m)"
  by (simp add: sweep_one_def closeTunnel_inv with_tunnel_inv keeps_keepalive)

lemma fold_sweep:
  assumes "tables_inv m"
  shows "map_of (m_established (fold (sweep_one E now) is m)) addr =
    (case map_of (m_established m) addr of
       None \<Rightarrow> None
     | Some i \<Rightarrow> if i \<in> set is \<and> m_idle m \<le> now - s_last_active (m_tuns m ! i) then None else Some i)"
  using assms
proof (induction "is" arbitrary: m)
  case Nil
  then show ?case by (simp split: option.split)
next
  case (Cons i "is")
  note S = sweep_one_sessions [OF Cons.prems, of E now i]
  from Cons.IH [OF sweep_one_inv [OF Cons.prems], of E now i] S show ?case
    by (auto simp: s_idleFor_def split: option.split)
qed

text \<open>
  Idle sessions are reaped, and only they: after a sweep at time \<open>now\<close>, in any state a
  multiplexer can reach, exactly those sessions are still listed from which something
  authentic arrived less than the idle timeout ago; sending a packet does not postpone the
  reaping.
\<close>
theorem idle_sessions_reaped:
  assumes "no_clients m0" "reach mux_step m0 m"
  shows "map_of (m_established (sweepSessions E now m)) addr =
    (case map_of (m_established m) addr of
       None \<Rightarrow> None
     | Some i \<Rightarrow> if m_idle m \<le> now - s_last_active (m_tuns m ! i) then None else Some i) \<and>
     s_last_active (fst (snd (s_SendPacket (e_crypto E) (e_net E) now packet t w))) = s_last_active t"
proof -
  have I: "tables_inv m" using tables.run_keeps [OF assms(2)] assms(1) no_clients_inv by blast
  have "i \<in> set (map snd (m_established m))" if "map_of (m_established m) addr = Some i" for i
    using map_of_SomeD [OF that] by force
  then show ?thesis using fold_sweep [OF I, of E now "map snd (m_established m)" addr]
    by (auto simp: sweepSessions_def send_last_active split: option.split)
qed

theorem idle_sessions_reaped_witness:
  "map_of (m_established (sweepSessions sample_env 9 (WithIdleTimeout 5 (NewServerMux sample_protocol sample_psk zeros)))) ''a'' = None"
proof -
  let ?m = "WithIdleTimeout 5 (NewServerMux sample_protocol sample_psk zeros)"
  have "no_clients ?m" by (simp add: no_clients_def NewServerMux_def WithIdleTimeout_def)
  from idle_sessions_reaped [OF this reach_start, of sample_env 9 "''a''"] show ?thesis
    by (simp add: NewServerMux_def WithIdleTimeout_def)
qed

section \<open>Delivery\<close>

lemma handle_ip_packet: "ip_packet pkt \<Longrightarrow> s_handleLossControl pkt t = (False, t)"
  using ip_packet_not_control(3) [of pkt] ip_packet_not_control(1) [of pkt]
  by (cases pkt) (auto simp: ip_packet_def s_handleLossControl_def drop_bit_eq_div)

lemma handled_same [simp]: "s_recv (s_touch now (t\<lparr>s_sess := s\<rparr>)) = s_recv t"
  by (simp add: s_touch_def)

text \<open>The session after a data frame: the packet is queued, the receive codec is the new one.\<close>

lemma s_receive_data:
  assumes "sess_decode C (s_sess t) data = Inr (msg, s)" "ip_packet (msg_payload msg)"
    "fst (take_tokens now (length data) (s_limiter t)) = True" "length (s_recv t) < 128" "\<not> s_closed t"
  obtains t' w' where "s_receive C net pick now data t w = (True, t', w')" "s_recv t' = s_recv t @ [msg_payload msg]"
    "precv (s_sess t') = precv s"
proof -
  define t1 where "t1 = s_touch now (t\<lparr>s_sess := s\<rparr>)"
  obtain b where b: "take_tokens now (length data) (s_limiter t1) = (True, b)"
    using assms(3) by (cases "take_tokens now (length data) (s_limiter t)") (simp add: t1_def s_touch_def)
  obtain due t3 where n: "s_noteDecoded (t1\<lparr>s_limiter := b\<rparr>) = (due, t3)" by fastforce
  have t3: "s_recv t3 = s_recv t" "s_closed t3 = s_closed t" "s_sess t3 = s"
    using n by (auto simp: s_noteDecoded_def Let_def t1_def s_touch_def split: if_splits)
  obtain x t4 w4 where e: "s_encode C (encodeAckPayload (fst (AckState (s_sess t3)))) t3 w = (x, t4, w4)" by (metis prod_cases3)
  note F = s_encode_frame [OF e]
  have c4: "s_closed t4 = s_closed t3" using keeps_encode [OF e] by (simp add: keeps_def)
  have feed: "s_recv (snd (feed pick pkt u)) = s_recv t @ [pkt] \<and> s_sess (snd (feed pick pkt u)) = s_sess u"
    if "s_recv u = s_recv t" "s_closed u = s_closed t" for u pkt
    using that assms(4,5) by (simp add: feed_def)
  have c5: "s_closed (fst (s_write_async net now frame t4 w4)) = s_closed t4" for frame
    using keeps_write_async [of t4 net now frame w4] by (simp add: keeps_def)
  have r: "s_receive C net pick now data t w =
      (if due then (case x of Inl _ \<Rightarrow> (True, snd (feed pick (msg_payload msg) t4), w4)
         | Inr frame \<Rightarrow> (True, snd (feed pick (msg_payload msg) (fst (s_write_async net now frame t4 w4))), snd (s_write_async net now frame t4 w4)))
       else (True, snd (feed pick (msg_payload msg) t3), w))"
    using assms(1) b n e handle_ip_packet [OF assms(2)]
    by (simp add: s_receive_def Let_def t1_def [symmetric] case_prod_beta split: sum.split)
  show thesis
  proof (cases due)
    case False
    with that r feed [of t3] t3 show thesis by simp
  next
    case True
    show thesis
    proof (cases x)
      case (Inl err)
      with that r True feed [of t4] F t3 c4 show thesis by simp
    next
      case (Inr frame)
      with that r True feed [of "fst (s_write_async net now frame t4 w4)"] F t3 c4 c5 s_write_async_frame show thesis by simp
    qed
  qed
qed

text \<open>
  C18. Delivery, in any state with well-formed tables (every reachable one has them): a data
  frame for a session, sealed by the client under a number of the window that is new, within
  the rate limit and with room in the queue, puts exactly its packet at the end of that
  session's queue and touches no other session; a second copy of the datagram then changes
  nothing in the multiplexer at all.
\<close>
theorem mux_delivers:
  assumes "tables_inv m" "map_of (m_established m) addr = Some i"
    "layout_ok (cspec c)" "aead_ok (e_crypto E)" "aead_nonce_ok (e_crypto E)" "carries (e_crypto E) c q pkt frame" "ip_packet pkt"
    "precv (s_sess (m_tuns m ! i)) = d" "cspec d = cspec c" "ckey d = ckey c" "packet_inv d"
    "packet_base d + 2 * PacketWindow < 2 ^ 64" "q < packet_base d + PacketWindow" "q \<notin> packet_dead d"
    "fst (take_tokens now (length frame) (s_limiter (m_tuns m ! i))) = True" "length (s_recv (m_tuns m ! i)) < 128"
  shows "\<exists>m'. handleDatagram E now addr frame m = m' \<and>
     s_recv (m_tuns m' ! i) = s_recv (m_tuns m ! i) @ [pkt] \<and> (\<forall>j. j \<noteq> i \<longrightarrow> m_tuns m' ! j = m_tuns m ! j) \<and>
     m_established m' = m_established m \<and> m_pending m' = m_pending m \<and>
     (\<forall>E' later. e_crypto E' = e_crypto E \<longrightarrow> handleDatagram E' later addr frame m' = m')"
proof -
  have i: "i < length (m_tuns m)" "\<not> s_closed (m_tuns m ! i)"
    using tables_invD(4) [OF assms(1) map_of_SomeD [OF assms(2)]] by simp_all
  from DecodePacket_carries(1) [OF assms(3-6,9-11) _ assms(13,14)] assms(12) obtain msg d' where
    d': "DecodePacket (e_crypto E) d frame = Inr (msg, d')" "msg_payload msg = pkt"
      "packet_dead d' = insert q (packet_dead d)" "packet_inv d'" "cspec d' = cspec c" "ckey d' = ckey c"
    by (auto simp: PacketWindow_def)
  from DecodePacket_accepts [OF d'(1)] assms(12) obtain q' where "packet_accepts (e_crypto E) d frame q' d'"
    by (auto simp: PacketWindow_def)
  from packet_acceptsD(5,10) [OF this assms(11)]
  have base: "packet_base d' + PacketWindow < 2 ^ 64" "packet_base d \<le> packet_base d'" using assms(12) by auto
  have sd: "sess_decode (e_crypto E) (s_sess (m_tuns m ! i)) frame = Inr (msg, (s_sess (m_tuns m ! i))\<lparr>precv := d'\<rparr>)"
    using d'(1) assms(8) by (simp add: sess_decode_def)
  obtain t' w' where r: "s_receive (e_crypto E) (e_net E) (e_pick E) now frame (m_tuns m ! i) (m_io m) = (True, t', w')"
    "s_recv t' = s_recv (m_tuns m ! i) @ [msg_payload msg]" "precv (s_sess t') = precv ((s_sess (m_tuns m ! i))\<lparr>precv := d'\<rparr>)"
    by (rule s_receive_data [OF sd _ assms(15,16) i(2)]) (use d'(2) assms(7) in auto)
  define m' where "m' = noteFrameLen (length frame) (m\<lparr>m_tuns := (m_tuns m)[i := t'], m_io := w'\<rparr>)"
  have h: "handleDatagram E now addr frame m = m'" using assms(2) r(1) by (simp add: handleDatagram_def m'_def)
  have f: "m_tuns m' = (m_tuns m)[i := t']" "m_established m' = m_established m" "m_pending m' = m_pending m" "m_io m' = w'"
    by (simp_all add: m'_def noteFrameLen_def Let_def)
  have "handleDatagram E' later addr frame m' = m'" if "e_crypto E' = e_crypto E" for E' later
  proof -
    have "q < packet_base d' + PacketWindow" using assms(13) base(2) by simp
    from DecodePacket_carries(2) [OF assms(3-6) d'(5,6,4) base(1) this] d'(3) obtain e where
      "DecodePacket (e_crypto E) d' frame = Inl e" by auto
    then have "sess_decode (e_crypto E') (s_sess t') frame = Inl e" using r(3) that by (simp add: sess_decode_def)
    then have "s_receive (e_crypto E') (e_net E') (e_pick E') later frame t' w' = (False, t', w')" by (simp add: s_receive_def)
    moreover have "m'\<lparr>m_tuns := (m_tuns m')[i := t'], m_io := w'\<rparr> = m'" by (simp add: m'_def noteFrameLen_def Let_def)
    ultimately show ?thesis using assms(2) f i(1) by (simp add: handleDatagram_def)
  qed
  with h f r(2) d'(2) i(1) show ?thesis by auto
qed

theorem mux_delivers_witness:
  "\<exists>frame m m'. carries demo_crypto sample_codec 4 sample_ip frame \<and> map_of (m_established m) ''a'' = Some 0 \<and>
     handleDatagram sample_env 1 ''a'' frame m = m' \<and> s_recv (m_tuns m' ! 0) = [sample_ip] \<and>
     handleDatagram sample_env 2 ''a'' frame m' = m'"
proof -
  define t where "t = \<lparr>s_peer = ''a'', s_sess = \<lparr>pspec = sample_record, psend = sample_codec, precv = sample_codec\<rparr>, s_recv = [],
    s_closed = False, s_peer_base = 0, s_ack_due = 0, s_last_active = 0, s_limiter = None, s_mask = None, s_generation = 1\<rparr>"
  define m where "m = (NewServerMux sample_protocol sample_psk zeros)\<lparr>m_established := [(''a'', 0)], m_tuns := [t]\<rparr>"
  obtain frame where f: "carries demo_crypto sample_codec 4 sample_ip frame"
    by (rule sample_carries [of sample_ip]) (auto simp: sample_ip_def)
  have m: "tables_inv m" "map_of (m_established m) ''a'' = Some 0" "precv (s_sess (m_tuns m ! 0)) = sample_codec"
    "fst (take_tokens 1 (length frame) (s_limiter (m_tuns m ! 0))) = True" "s_recv (m_tuns m ! 0) = []"
    by (simp_all add: m_def t_def NewServerMux_def tables_inv_def take_tokens_def maxPendingHandshakes_def)
  have e: "e_crypto sample_env = demo_crypto" by (simp add: sample_env_def)
  have "\<exists>m'. handleDatagram sample_env 1 ''a'' frame m = m' \<and> s_recv (m_tuns m' ! 0) = s_recv (m_tuns m ! 0) @ [sample_ip] \<and>
      (\<forall>j. j \<noteq> 0 \<longrightarrow> m_tuns m' ! j = m_tuns m ! j) \<and> m_established m' = m_established m \<and> m_pending m' = m_pending m \<and>
      (\<forall>E' later. e_crypto E' = e_crypto sample_env \<longrightarrow> handleDatagram E' later ''a'' frame m' = m')"
    by (rule mux_delivers [where c = sample_codec and q = 4, OF m(1,2) _ _ _ _ _ m(3)])
       (use m f e in \<open>simp_all add: PacketWindow_def\<close>)
  with f m(2,5) show ?thesis by (metis append_Nil)
qed

end
