(* ===== verification/Mux_Bounds.thy ===== *)
theory Mux_Bounds
  imports Mux_Sessions
begin

text \<open>
  Bounds on what the multiplexer sends to addresses without a session: decoys are small, few
  and of a species no client asks for; a silent client gets a handful of retransmissions. And
  a bound that is missing: the table of attempts keeps addresses that never come back.
\<close>

section \<open>Decoys\<close>

text \<open>What one decoy frame can add to the outbox.\<close>

lemma sendDecoyFrame_out:
  assumes "sendDecoyFrame E now addr probe m = (ok, m')"
  shows "\<exists>ws. m_out m' = m_out m @ ws \<and> length ws \<le> (if ok then 1 else 0) \<and>
    (\<forall>(a, w) \<in> set ws. a = addr \<and> length w \<le> 1200 \<and> length w \<le> 3 * length probe) \<and> m_timers m' = m_timers m"
proof (cases "m_decoy m")
  case (Some decoy)
  show ?thesis
  proof (cases "encodeDecoyFrame (e_crypto E) decoy (m_rnd m)")
    case (Inr fr)
    obtain frame rnd where fr: "fr = (frame, rnd)" by (cases fr)
    obtain wire rnd1 where w: "WrapHandshakeDatagram (e_crypto E) (e_mark E) (Some (cgenome decoy)) frame rnd = (wire, rnd1)" by fastforce
    obtain ok' m2 where t: "takeDecoyTokenLocked now (set_rnd rnd1 m) = (ok', m2)" by fastforce
    have m2: "m_out m2 = m_out m" "m_timers m2 = m_timers m"
      using t by (auto simp: takeDecoyTokenLocked_def set_rnd_def Let_def split: if_splits)
    have r: "sendDecoyFrame E now addr probe m =
        (if \<not> allowDecoySize (int (length probe)) (int (length wire)) then (False, set_rnd rnd1 m)
         else if ok' then (True, mux_write_async E addr wire (telemetryEvent TelemetryDecoy addr m2)) else (False, m2))"
      using Some Inr fr w t by (simp add: sendDecoyFrame_def Let_def)
    have out: "m_out (mux_write_async E addr wire (telemetryEvent TelemetryDecoy addr m2)) =
        m_out m @ (if length wire = 0 \<or> maxDatagram < length wire \<or> \<not> e_net E addr wire then [] else [(addr, wire)])"
      "m_timers (mux_write_async E addr wire (telemetryEvent TelemetryDecoy addr m2)) = m_timers m"
      using m2 by (simp_all add: mux_write_async_def raw_write_def telemetryEvent_def)
    show ?thesis
    proof (cases "allowDecoySize (int (length probe)) (int (length wire)) \<and> ok'")
      case True
      then have "length wire \<le> 1200" "length wire \<le> 3 * length probe"
        by (auto simp: allowDecoySize_def maxDecoyBytes_def decoyAmpRatio_def split: if_splits)
      with True r assms out show ?thesis by (auto split: if_splits)
    next
      case False
      with r assms m2 show ?thesis by (auto simp: set_rnd_def split: if_splits)
    qed
  qed (use assms Some in \<open>auto simp: sendDecoyFrame_def\<close>)
qed (use assms in \<open>auto simp: sendDecoyFrame_def\<close>)

text \<open>When a decoy is sent: it can be built, its size is allowed, a token is left and the network takes it.\<close>

definition decoy_ready :: "env \<Rightarrow> int \<Rightarrow> string \<Rightarrow> mux \<Rightarrow> bytes \<Rightarrow> bool" where
  "decoy_ready E now addr m wire \<longleftrightarrow>
     (\<exists>cp frame rnd rnd1. m_decoy m = Some cp \<and> encodeDecoyFrame (e_crypto E) cp (m_rnd m) = Inr (frame, rnd) \<and>
        WrapHandshakeDatagram (e_crypto E) (e_mark E) (Some (cgenome cp)) frame rnd = (wire, rnd1)) \<and>
     fst (takeDecoyTokenLocked now m) \<and> e_net E addr wire"

lemma sendDecoyFrame_ready:
  assumes "decoy_ready E now addr m wire"
  shows "\<exists>m'. sendDecoyFrame E now addr probe m = (0 < length wire \<and> length wire \<le> 1200 \<and> length wire \<le> 3 * length probe, m') \<and>
    m_out m' = m_out m @ (if 0 < length wire \<and> length wire \<le> 1200 \<and> length wire \<le> 3 * length probe then [(addr, wire)] else [])"
proof -
  from assms obtain cp frame rnd rnd1 where d: "m_decoy m = Some cp" "encodeDecoyFrame (e_crypto E) cp (m_rnd m) = Inr (frame, rnd)"
    "WrapHandshakeDatagram (e_crypto E) (e_mark E) (Some (cgenome cp)) frame rnd = (wire, rnd1)"
    "fst (takeDecoyTokenLocked now m)" "e_net E addr wire" unfolding decoy_ready_def by blast
  obtain ok m2 where t: "takeDecoyTokenLocked now (set_rnd rnd1 m) = (ok, m2)" by fastforce
  have ok: "ok" "m_out m2 = m_out m"
    using t d(4) by (auto simp: takeDecoyTokenLocked_def set_rnd_def Let_def split: if_splits)
  have size: "allowDecoySize (int (length probe)) (int (length wire)) \<longleftrightarrow>
      0 < length wire \<and> length wire \<le> 1200 \<and> length wire \<le> 3 * length probe"
    by (auto simp: allowDecoySize_def maxDecoyBytes_def decoyAmpRatio_def)
  have out: "m_out (mux_write_async E addr wire (telemetryEvent TelemetryDecoy addr m2)) = m_out m @ [(addr, wire)]"
    if "0 < length wire" "length wire \<le> 1200"
    using that ok(2) d(5) by (simp add: mux_write_async_def raw_write_def telemetryEvent_def maxDatagram_def)
  show ?thesis
    using d(1-3) t ok(1) size out by (simp add: sendDecoyFrame_def Let_def)
qed

text \<open>
  C19. What a probe can draw: at once at most one decoy datagram, to the address the probe came
  from, of at most 1200 bytes and at most three times the size of the probe; and at most seven
  more of which the same holds, each when its timer fires, 30 to 119 milliseconds later. So the limit of three
  times the probe holds for each datagram, and for the whole exchange the limit is eight times that. When a decoy
  can be built and the rate allows it, it is sent exactly if its size is within these limits, followed by one timer less than the
  configured burst (at least one, at most eight); without a decoy nothing changes.
\<close>
theorem decoy_amplification:
  "\<exists>ws ts. m_out (maybeDecoy E now addr probe m) = m_out m @ ws \<and> length ws \<le> 1 \<and>
     (\<forall>(a, w) \<in> set ws. a = addr \<and> length w \<le> 1200 \<and> length w \<le> 3 * length probe) \<and>
     m_timers (maybeDecoy E now addr probe m) = m_timers m @ ts \<and> length ts \<le> 7 \<and>
     (\<forall>(due, a, p) \<in> set ts. a = addr \<and> p = probe \<and> now + 30 * 1000000 \<le> due \<and> due \<le> now + 119 * 1000000) \<and>
     (\<forall>E' later i m'. m_timers m' ! i \<in> set ts \<longrightarrow>
        (\<exists>vs. m_out (fire_timer E' later i m') = m_out m' @ vs \<and> length vs \<le> 1 \<and>
           (\<forall>(a, w) \<in> set vs. a = addr \<and> length w \<le> 1200 \<and> length w \<le> 3 * length probe))) \<and>
     (\<forall>wire. decoy_ready E now addr m wire \<longrightarrow>
        (if 0 < length wire \<and> length wire \<le> 1200 \<and> length wire \<le> 3 * length probe
         then ws = [(addr, wire)] \<and> int (length ts) = min 8 (max 1 (m_burst m)) - 1 else ws = [] \<and> ts = [])) \<and>
     (m_decoy m = None \<longrightarrow> maybeDecoy E now addr probe m = m)"
proof -
  define burst where "burst = nat (if maxDecoyBurst < (if m_burst m < 1 then 1 else m_burst m) then maxDecoyBurst
    else if m_burst m < 1 then 1 else m_burst m)"
  obtain ok m1 where d: "sendDecoyFrame E now addr probe m = (ok, m1)" by fastforce
  define ts where "ts = (if m_decoy m \<noteq> None \<and> ok then follow_ups E now addr probe burst else [])"
  obtain ws where ws: "m_out m1 = m_out m @ ws" "length ws \<le> 1"
    "\<forall>(a, w) \<in> set ws. a = addr \<and> length w \<le> 1200 \<and> length w \<le> 3 * length probe" "m_timers m1 = m_timers m"
    using sendDecoyFrame_out [OF d] by (auto split: if_splits)
  have none: "m1 = m" if "m_decoy m = None" using that d by (simp add: sendDecoyFrame_def)
  have A: "m_out (maybeDecoy E now addr probe m) = m_out m @ ws \<and> m_timers (maybeDecoy E now addr probe m) = m_timers m @ ts"
  proof (cases "m_decoy m")
    case None
    with none ws(1) show ?thesis by (simp add: maybeDecoy_def ts_def)
  next
    case (Some cp)
    with d ws show ?thesis by (cases ok) (simp_all add: maybeDecoy_def Let_def ts_def burst_def)
  qed
  have L: "length ts \<le> 7"
  proof -
    have "burst \<le> 8" by (auto simp: burst_def maxDecoyBurst_def)
    then have "burst - Suc 0 \<le> 7" by linarith
    then show ?thesis by (simp add: ts_def follow_ups_def)
  qed
  have ts: "\<forall>(due, a, p) \<in> set ts. a = addr \<and> p = probe \<and> now + 30 * 1000000 \<le> due \<and> due \<le> now + 119 * 1000000"
  proof -
    have "n mod 90 \<le> (89 :: nat)" for n by (rule le_trans [of _ "90 - 1"]) simp_all
    then have "int (n mod 90) \<le> 89" for n by (metis of_nat_le_iff of_nat_numeral)
    then show ?thesis by (auto simp: ts_def follow_ups_def split: if_splits)
  qed
  have F: "\<forall>E' later i m'. m_timers m' ! i \<in> set ts \<longrightarrow>
      (\<exists>vs. m_out (fire_timer E' later i m') = m_out m' @ vs \<and> length vs \<le> 1 \<and>
        (\<forall>(a, w) \<in> set vs. a = addr \<and> length w \<le> 1200 \<and> length w \<le> 3 * length probe))"
  proof (intro allI impI)
    fix E' later i and m' :: mux
    assume i: "m_timers m' ! i \<in> set ts"
    obtain due a p where x: "m_timers m' ! i = (due, a, p)" by (cases "m_timers m' ! i")
    from bspec [OF ts i] have ap: "fst (snd (m_timers m' ! i)) = addr" "snd (snd (m_timers m' ! i)) = probe"
      unfolding x by simp_all
    obtain ok2 m2 where "sendDecoyFrame E' later addr probe (m'\<lparr>m_timers := take i (m_timers m') @ drop (Suc i) (m_timers m')\<rparr>) = (ok2, m2)"
      by fastforce
    from sendDecoyFrame_out [OF this] this ap
    show "\<exists>vs. m_out (fire_timer E' later i m') = m_out m' @ vs \<and> length vs \<le> 1 \<and>
        (\<forall>(a, w) \<in> set vs. a = addr \<and> length w \<le> 1200 \<and> length w \<le> 3 * length probe)"
      by (auto simp: fire_timer_def split: if_splits)
  qed
  have X: "\<forall>wire. decoy_ready E now addr m wire \<longrightarrow>
      (if 0 < length wire \<and> length wire \<le> 1200 \<and> length wire \<le> 3 * length probe
       then ws = [(addr, wire)] \<and> int (length ts) = min 8 (max 1 (m_burst m)) - 1 else ws = [] \<and> ts = [])"
  proof (intro allI impI)
    fix wire
    assume r: "decoy_ready E now addr m wire"
    have b: "int (burst - 1) = min 8 (max 1 (m_burst m)) - 1" "m_decoy m \<noteq> None"
      using r by (auto simp: burst_def maxDecoyBurst_def decoy_ready_def)
    define fits where "fits \<longleftrightarrow> 0 < length wire \<and> length wire \<le> 1200 \<and> length wire \<le> 3 * length probe"
    from sendDecoyFrame_ready [OF r, of probe, folded fits_def] obtain m' where
      "sendDecoyFrame E now addr probe m = (fits, m')" "m_out m' = m_out m @ (if fits then [(addr, wire)] else [])" by blast
    with d have "ok = fits" "m_out m1 = m_out m @ (if fits then [(addr, wire)] else [])" by simp_all
    then have "ok = fits" "ws = (if fits then [(addr, wire)] else [])" using ws(1) by simp_all
    moreover have "int (length (follow_ups E now addr probe burst)) = min 8 (max 1 (m_burst m)) - 1"
      using b(1) by (simp add: follow_ups_def)
    ultimately show "if 0 < length wire \<and> length wire \<le> 1200 \<and> length wire \<le> 3 * length probe
       then ws = [(addr, wire)] \<and> int (length ts) = min 8 (max 1 (m_burst m)) - 1 else ws = [] \<and> ts = []"
      unfolding fits_def [symmetric] ts_def using b(2) by simp
  qed
  have N: "m_decoy m = None \<longrightarrow> maybeDecoy E now addr probe m = m" by (simp add: maybeDecoy_def)
  show ?thesis
    by (intro exI [of _ ws] exI [of _ ts] conjI)
      (fact conjunct1 [OF A] ws(2) ws(3) conjunct2 [OF A] L ts F X N)+
qed

text \<open>A sample multiplexer with a decoy and bursts of eight: what it sends to a probe.\<close>

definition decoy_mux :: mux where
  "decoy_mux = WithDecoyBurst 8 (WithDecoy (Some sample_protocol) (NewServerMux sample_protocol sample_psk zeros))"

lemma sample_decoy_ready:
  obtains wire where "\<forall>addr. decoy_ready sample_env 5 addr decoy_mux wire" "0 < length wire" "length wire \<le> 1200"
proof -
  define spec where "spec = sample_message 1 DirServer"
  define codec where "codec = sample_codec\<lparr>cspec := spec, ckey := boot_s2c sample_protocol,
    packet_mode := False, shape_buckets := []\<rparr>"
  have ds: "decoySpec sample_protocol = (spec, boot_s2c sample_protocol)"
    by (simp add: decoySpec_def sample_protocol_def sample_genome_def spec_def) (simp add: sample_message_def)
  have new: "NewMessageCodec spec (boot_s2c sample_protocol) = Inr codec"
    using sample_key_length by (simp add: NewMessageCodec_def spec_def sample_message_valid codec_def sample_codec_def) (simp add: sample_message_def)
  have rd: "read_full 32 zeros = Inr (take 32 zeros, drop 32 zeros)" by (simp add: read_full_def zeros_def)
  have "\<exists>frame segs c' rnd'. Encode demo_crypto codec [] (\<lambda>k. if k = FieldKey then Some (take 32 zeros) else None) (drop 32 zeros) = Inr (frame, segs, c', rnd') \<and>
      length frame \<le> plainFieldsSize (cspec codec) + max_body (cspec codec) + length ([] :: bytes) + gcmTagSize"
  proof (intro Encode_total)
    show "rnd_budget (cspec codec) \<le> length (drop 32 zeros)" using sample_second(3) by (simp add: codec_def spec_def)
    show "payload_fits (cspec codec) (length ([] :: bytes))"
      by (simp add: codec_def spec_def sample_message_def sample_fields_def payload_fits_def max_body_def length_width_def plainFieldsSize_def
          size_or_0_def gcmTagSize_def fixedSize.simps maxEncodedFieldSize.simps fieldFixedSize.simps)
  qed (simp_all add: codec_def spec_def inject_ok_def zeros_def)
  then obtain frame segs c' rnd' where e: "Encode demo_crypto codec [] (\<lambda>k. if k = FieldKey then Some (take 32 zeros) else None) (drop 32 zeros) = Inr (frame, segs, c', rnd')"
    "length frame \<le> plainFieldsSize spec + max_body spec + gcmTagSize" by (auto simp: codec_def)
  have enc: "encodeDecoyFrame demo_crypto sample_protocol zeros = Inr (frame, rnd')" by (simp add: encodeDecoyFrame_def ds new rd e(1))
  obtain wire rnd1 where w: "WrapHandshakeDatagram demo_crypto [] (Some (cgenome sample_protocol)) frame rnd' = (wire, rnd1)" by fastforce
  have len: "length wire = (let n = CoverLen demo_crypto (Some (cgenome sample_protocol)) + length frame in
      if n < 160 \<or> 700 < n then n else handshakePadTarget demo_crypto (Some (cgenome sample_protocol)))"
    using wrap_length [of "[]" demo_crypto "Some (cgenome sample_protocol)" frame rnd'] w by (simp add: visible_def)
  have "length frame \<le> 200" using e(2)
    by (simp add: spec_def sample_message_def sample_fields_def max_body_def plainFieldsSize_def size_or_0_def gcmTagSize_def
        fixedSize.simps maxEncodedFieldSize.simps fieldFixedSize.simps)
  with len have "0 < length wire" "length wire \<le> 1200"
    using CoverLen_bounds [of demo_crypto "Some (cgenome sample_protocol)"] handshakePadTarget_bounds [of demo_crypto "Some (cgenome sample_protocol)"]
    by (auto simp: Let_def CoverLenMin_def CoverLenMax_def HandshakeMinWire_def HandshakeMaxWire_def split: if_splits)
  moreover have "decoy_ready sample_env 5 addr decoy_mux wire" for addr
    using enc w by (simp add: decoy_ready_def decoy_mux_def WithDecoy_def WithDecoyBurst_def NewServerMux_def sample_env_def
        takeDecoyTokenLocked_def Let_def maxDecoyPerSec_def)
  ultimately show thesis using that by blast
qed

text \<open>
  A probe as long as the decoy: one frame at once and seven timers, the first of which sends
  another; with four frames the exchange is already above three times the probe.
\<close>

theorem decoy_amplification_witness:
  "\<exists>wire ts. 0 < length wire \<and> m_out (maybeDecoy sample_env 5 ''b'' wire decoy_mux) = [(''b'', wire)] \<and>
     m_timers (maybeDecoy sample_env 5 ''b'' wire decoy_mux) = ts \<and> length ts = 7 \<and>
     (\<exists>vs. m_out (fire_timer sample_env 200000000 0 (decoy_mux\<lparr>m_timers := ts\<rparr>)) = vs \<and> length vs \<le> 1 \<and>
        (\<forall>(a, w) \<in> set vs. a = ''b'' \<and> length w \<le> 3 * length wire))"
proof -
  obtain wire where "\<forall>addr. decoy_ready sample_env 5 addr decoy_mux wire" and len: "0 < length wire" "length wire \<le> 1200"
    by (rule sample_decoy_ready)
  then have r: "decoy_ready sample_env 5 ''b'' decoy_mux wire" by simp
  have m: "m_out decoy_mux = []" "m_timers decoy_mux = []" "m_burst decoy_mux = 8"
    by (simp_all add: decoy_mux_def NewServerMux_def WithDecoy_def WithDecoyBurst_def)
  from decoy_amplification [of sample_env 5 "''b''" wire decoy_mux, unfolded m append_Nil] obtain ws ts where
    w: "m_out (maybeDecoy sample_env 5 ''b'' wire decoy_mux) = ws" "m_timers (maybeDecoy sample_env 5 ''b'' wire decoy_mux) = ts"
      "\<forall>E' later i m'. m_timers m' ! i \<in> set ts \<longrightarrow> (\<exists>vs. m_out (fire_timer E' later i m') = m_out m' @ vs \<and> length vs \<le> 1 \<and>
         (\<forall>(a, w) \<in> set vs. a = ''b'' \<and> length w \<le> 1200 \<and> length w \<le> 3 * length wire))"
      "\<forall>w. decoy_ready sample_env 5 ''b'' decoy_mux w \<longrightarrow>
        (if 0 < length w \<and> length w \<le> 1200 \<and> length w \<le> 3 * length wire
         then ws = [(''b'', w)] \<and> int (length ts) = min 8 (max 1 8) - 1 else ws = [] \<and> ts = [])"
    by (elim exE conjE) (rule that)
  from w(4) [rule_format, OF r] len have x: "ws = [(''b'', wire)]" "length ts = 7" by simp_all
  then have "m_timers (decoy_mux\<lparr>m_timers := ts\<rparr>) ! 0 \<in> set ts" by (cases ts) simp_all
  with w(3) have "\<exists>vs. m_out (fire_timer sample_env 200000000 0 (decoy_mux\<lparr>m_timers := ts\<rparr>)) = m_out (decoy_mux\<lparr>m_timers := ts\<rparr>) @ vs \<and>
      length vs \<le> 1 \<and> (\<forall>(a, w) \<in> set vs. a = ''b'' \<and> length w \<le> 1200 \<and> length w \<le> 3 * length wire)" by blast
  moreover have "m_out (decoy_mux\<lparr>m_timers := ts\<rparr>) = []" using m(1) by simp
  ultimately show ?thesis using w(1,2) x len(1) by fastforce
qed

text \<open>The limit on the rate, as a function of the window alone.\<close>

definition token :: "int \<Rightarrow> int option \<times> nat \<Rightarrow> bool \<times> int option \<times> nat" where
  "token now = (\<lambda>(ws, n).
     (let (ws1, n1) = (if (case ws of None \<Rightarrow> True | Some t \<Rightarrow> second \<le> now - t) then (Some now, 0) else (ws, n)) in
      if 32 \<le> n1 then (False, ws1, n1) else (True, ws1, n1 + 1)))"

definition window :: "mux \<Rightarrow> int option \<times> nat" where
  "window m = (m_window_start m, m_window_count m)"

lemma takeDecoyToken_token:
  "takeDecoyTokenLocked now m = (ok, m') \<Longrightarrow> token now (window m) = (ok, window m')"
  by (auto simp: takeDecoyTokenLocked_def token_def window_def maxDecoyPerSec_def Let_def split: if_splits)

lemma sendDecoyFrame_token:
  assumes "sendDecoyFrame E now addr data m = (ok, m')"
  shows "token now (window m) = (ok, window m') \<or> \<not> ok \<and> window m' = window m"
proof (cases "m_decoy m")
  case (Some decoy)
  show ?thesis
  proof (cases "encodeDecoyFrame (e_crypto E) decoy (m_rnd m)")
    case (Inr fr)
    obtain frame rnd where fr: "fr = (frame, rnd)" by (cases fr)
    obtain wire rnd1 where w: "WrapHandshakeDatagram (e_crypto E) (e_mark E) (Some (cgenome decoy)) frame rnd = (wire, rnd1)" by fastforce
    obtain ok' m2 where t: "takeDecoyTokenLocked now (set_rnd rnd1 m) = (ok', m2)" by fastforce
    have same: "window (set_rnd rnd1 m) = window m" "window (mux_write_async E addr wire (telemetryEvent TelemetryDecoy addr m2)) = window m2"
      by (simp_all add: window_def set_rnd_def mux_write_async_def telemetryEvent_def)
    from takeDecoyToken_token [OF t] assms Some Inr fr w t same show ?thesis
      by (auto simp: sendDecoyFrame_def Let_def split: if_splits bool.splits)
  qed (use assms Some in \<open>auto simp: sendDecoyFrame_def\<close>)
qed (use assms in \<open>auto simp: sendDecoyFrame_def\<close>)

text \<open>The times of the decoys that are sent, of any attempts to send one.\<close>

fun decoys :: "(env \<times> int \<times> string \<times> bytes) list \<Rightarrow> mux \<Rightarrow> int list" where
  "decoys [] m = []"
| "decoys ((E, now, addr, data) # xs) m =
     (case sendDecoyFrame E now addr data m of (ok, m1) \<Rightarrow> (if ok then [now] else []) @ decoys xs m1)"

abbreviation in_second :: "int \<Rightarrow> int list \<Rightarrow> nat" where
  "in_second t ts \<equiv> length (filter (\<lambda>u. t \<le> u \<and> u < t + second) ts)"

lemma token_same: "s \<le> now \<Longrightarrow> now - s < second \<Longrightarrow> token now (Some s, n) = (if 32 \<le> n then (False, Some s, n) else (True, Some s, n + 1))"
  by (simp add: token_def)

lemma decoys_started:
  assumes "sorted (s # map (\<lambda>x. fst (snd x)) xs)" "window m = (Some s, n)" "n \<le> 32" "t \<le> s"
  shows "in_second t (decoys xs m) \<le> 32 - n"
  using assms
proof (induction xs arbitrary: m n)
  case (Cons x xs)
  obtain E now addr data where x: "x = (E, now, addr, data)" by (cases x)
  obtain ok m1 where d: "sendDecoyFrame E now addr data m = (ok, m1)" by fastforce
  have le: "s \<le> now" "sorted (s # map (\<lambda>x. fst (snd x)) xs)" using Cons.prems(1) x by auto
  show ?case
  proof (cases "now < t + second")
    case True
    then have tk: "token now (Some s, n) = (if 32 \<le> n then (False, Some s, n) else (True, Some s, n + 1))"
      using le(1) Cons.prems(4) by (intro token_same) auto
    from sendDecoyFrame_token [OF d] Cons.prems(2,3) tk
    have "window m1 = (Some s, if ok then n + 1 else n) \<and> (ok \<longrightarrow> n < 32)" by (auto split: if_splits)
    with Cons.IH [OF le(2), of m1 "if ok then n + 1 else n"] Cons.prems(3,4) x d True le(1) show ?thesis by (auto split: if_splits)
  next
    case False
    have late: "in_second t (decoys ys m') = 0" if "\<forall>y \<in> set ys. now \<le> fst (snd y)" for ys m'
      using that False
    proof (induction ys arbitrary: m')
      case (Cons y ys)
      then show ?case by (cases y) (auto split: prod.split)
    qed simp
    have "\<forall>y \<in> set (x # xs). now \<le> fst (snd y)" using Cons.prems(1) x by auto
    from late [OF this] show ?thesis by simp
  qed
qed simp

lemma token_reset: "case ws of None \<Rightarrow> True | Some s \<Rightarrow> second \<le> now - s \<Longrightarrow> token now (ws, n) = (True, Some now, 1)"
  by (simp add: token_def)

lemma token_keeps: "\<not> (case ws of None \<Rightarrow> True | Some s \<Rightarrow> second \<le> now - s) \<Longrightarrow>
    token now (ws, n) = (if 32 \<le> n then (False, ws, n) else (True, ws, n + 1))"
  by (simp add: token_def)

lemma decoys_inside:
  assumes "sorted (map (\<lambda>x. fst (snd x)) xs)" "\<forall>x \<in> set xs. t \<le> fst (snd x)" "window m = (ws, n)" "n \<le> 32"
  shows "in_second t (decoys xs m) \<le> 32 + (32 - n)"
  using assms
proof (induction xs arbitrary: m n ws)
  case (Cons x xs)
  obtain E now addr data where x: "x = (E, now, addr, data)" by (cases x)
  obtain ok m1 where d: "sendDecoyFrame E now addr data m = (ok, m1)" by fastforce
  have r: "sorted (map (\<lambda>x. fst (snd x)) xs)" "\<forall>x \<in> set xs. t \<le> fst (snd x)" "t \<le> now" "sorted (now # map (\<lambda>x. fst (snd x)) xs)"
    using Cons.prems(1,2) x by auto
  show ?case
  proof (cases "case ws of None \<Rightarrow> True | Some s \<Rightarrow> second \<le> now - s")
    case True
    from sendDecoyFrame_token [OF d] Cons.prems(3) token_reset [OF True, of n] consider
      "ok" "window m1 = (Some now, 1)" | "\<not> ok" "window m1 = (ws, n)" by auto
    then show ?thesis
    proof cases
      case 1
      from decoys_started [OF r(4) 1(2) _ r(3)] x d show ?thesis by (auto split: if_splits)
    next
      case 2
      from Cons.IH [OF r(1,2) 2(2) Cons.prems(4)] x d 2(1) show ?thesis by simp
    qed
  next
    case False
    from sendDecoyFrame_token [OF d] Cons.prems(3,4) token_keeps [OF False, of n]
    have "window m1 = (ws, if ok then n + 1 else n) \<and> (ok \<longrightarrow> n < 32)" by (auto split: if_splits)
    with Cons.IH [OF r(1,2), of m1 ws "if ok then n + 1 else n"] Cons.prems(4) x d show ?thesis by (auto split: if_splits)
  qed
qed simp

text \<open>
  However many probes arrive, at most 64 decoys are sent in any second: the window of the
  limit is fixed when it opens, so two windows of 32 can meet in a second.
\<close>
theorem decoy_rate:
  assumes "sorted (map (\<lambda>x. fst (snd x)) xs)" "m_window_count m \<le> 32"
  shows "length (filter (\<lambda>u. t \<le> u \<and> u < t + second) (decoys xs m)) \<le> 64"
  using assms
proof (induction xs arbitrary: m)
  case (Cons x xs)
  obtain E now addr data where x: "x = (E, now, addr, data)" by (cases x)
  obtain ok m1 where d: "sendDecoyFrame E now addr data m = (ok, m1)" by fastforce
  show ?case
  proof (cases "t \<le> now")
    case True
    then have "\<forall>y \<in> set (x # xs). t \<le> fst (snd y)" using Cons.prems(1) x by auto
    from decoys_inside [OF Cons.prems(1) this, of m "m_window_start m" "m_window_count m"] Cons.prems(2)
    show ?thesis by (simp add: window_def)
  next
    case False
    have "m_window_count m1 \<le> 32"
      using sendDecoyFrame_token [OF d] Cons.prems(2) by (auto simp: token_def window_def split: if_splits)
    with Cons.IH [of m1] Cons.prems(1) x d False show ?thesis by simp
  qed
qed simp

theorem decoy_rate_witness:
  "length (filter (\<lambda>u. 0 \<le> u \<and> u < second) (decoys [(sample_env, 5, ''a'', [1]), (sample_env, 7, ''b'', [2])]
     (WithDecoy (Some sample_protocol) (NewServerMux sample_protocol sample_psk zeros)))) \<le> 64"
  using decoy_rate [of "[(sample_env, 5, ''a'', [1]), (sample_env, 7, ''b'', [2])]"
      "WithDecoy (Some sample_protocol) (NewServerMux sample_protocol sample_psk zeros)" 0]
  by (simp add: NewServerMux_def WithDecoy_def)

section \<open>The decoy's species\<close>

text \<open>Addition and exclusive or.\<close>

lemma xor_plus: "(x XOR y :: 64 word) + 2 * (x AND y) = x + y"
proof -
  have "(x XOR y) AND (x AND y) = 0" "(x XOR y) OR (x AND y) = x OR y"
    by (rule bit_word_eqI, auto simp: bit_simps)+
  with word_plus_and_or [of "x XOR y" "x AND y"] have o: "(x XOR y) + (x AND y) = x OR y" by simp
  have "(x XOR y) + 2 * (x AND y) = ((x XOR y) + (x AND y)) + (x AND y)" by (simp add: algebra_simps)
  also have "\<dots> = x + y" unfolding o using word_plus_and_or [of x y] by (simp add: add.commute)
  finally show ?thesis .
qed

lemma and_nat_le: "(a AND b :: nat) \<le> b"
proof -
  have "int (a AND b) \<le> int b" using AND_upper2 [of "int b" "int a"] by (simp add: of_nat_and_eq)
  then show ?thesis by simp
qed

lemma and_decoy_bits:
  "\<exists>q e. (n :: nat) AND 0xC0DEC0DEC0DEC0DE = q * 2 ^ 62 + e \<and> e \<le> 0x00DEC0DEC0DEC0DE"
proof -
  have "take_bit 62 (n AND 0xC0DEC0DEC0DEC0DE) = take_bit 62 n AND (0x00DEC0DEC0DEC0DE :: nat)"
  proof -
    have c: "take_bit 62 (0xC0DEC0DEC0DEC0DE :: nat) = 0x00DEC0DEC0DEC0DE" by (simp add: take_bit_eq_mod)
    show ?thesis by (simp only: take_bit_and c)
  qed
  also have "\<dots> \<le> 0x00DEC0DEC0DEC0DE" by (rule and_nat_le)
  finally have "take_bit 62 (n AND 0xC0DEC0DEC0DEC0DE) \<le> 0x00DEC0DEC0DEC0DE" .
  moreover have "n AND 0xC0DEC0DEC0DEC0DE =
      drop_bit 62 (n AND 0xC0DEC0DEC0DEC0DE) * 2 ^ 62 + take_bit 62 (n AND 0xC0DEC0DEC0DEC0DE)"
    by (simp add: drop_bit_eq_div take_bit_eq_mod)
  ultimately show ?thesis by blast
qed

text \<open>
  The decoy's species is out of reach of clients: the map from a live generation to the
  decoy's is its own inverse, and the decoy generation of \<open>g\<close> is none of the \<open>2 ^ 61\<close>
  generations from \<open>g\<close> on, counted around the end of the 64 bit range, so no window of
  generations that a client probes around its own can contain it.
\<close>
theorem decoy_generation_disjoint:
  "DecoyGeneration (DecoyGeneration g) = g \<and> (\<forall>k < 2 ^ 61. DecoyGeneration g \<noteq> g + of_nat k)"
proof (intro conjI allI impI notI)
  show "DecoyGeneration (DecoyGeneration g) = g" by (simp add: DecoyGeneration_def xor.assoc)
  fix k :: nat
  assume k: "k < 2 ^ 61" "DecoyGeneration g = g + of_nat k"
  define c :: "64 word" where "c = 0xC0DEC0DEC0DEC0DE"
  have "g + of_nat k + 2 * (g AND c) = g + c" using xor_plus [of g c] k(2) by (simp add: DecoyGeneration_def c_def)
  then have "of_nat k + 2 * (g AND c) = c" by (simp add: add.assoc)
  moreover have y: "g AND c = of_nat (unat g AND 0xC0DEC0DEC0DEC0DE)"
  proof (rule word_unat_eq_iff [THEN iffD2])
    have "unat g AND 0xC0DEC0DEC0DEC0DE \<le> (0xC0DEC0DEC0DEC0DE :: nat)" by (rule and_nat_le)
    then have "(unat g AND 0xC0DEC0DEC0DEC0DE) mod 2 ^ 64 = unat g AND 0xC0DEC0DEC0DEC0DE" by simp
    then show "unat (g AND c) = unat (of_nat (unat g AND 0xC0DEC0DEC0DEC0DE) :: 64 word)"
      by (simp add: unsigned_and_eq c_def unat_of_nat)
  qed
  moreover define n where "n = k + 2 * (unat g AND 0xC0DEC0DEC0DEC0DE)"
  ultimately have "of_nat n = c" by simp
  then have "unat (of_nat n :: 64 word) = unat c" by simp
  then have m: "n mod 2 ^ 64 = 0xC0DEC0DEC0DEC0DE" by (simp add: unat_of_nat c_def)
  obtain q e where qe: "unat g AND 0xC0DEC0DEC0DEC0DE = q * 2 ^ 62 + e" "e \<le> (0x00DEC0DEC0DEC0DE :: nat)"
    using and_decoy_bits by blast
  define b where "b = k + (q mod 2) * 2 ^ 63 + 2 * e"
  have "2 * ((2 * x + y) * 2 ^ 62 + e) = x * 2 ^ 64 + y * 2 ^ 63 + 2 * e" for x y :: nat by simp
  from this [of "q div 2" "q mod 2"]
  have "2 * (q * 2 ^ 62 + e) = (q div 2) * 2 ^ 64 + (q mod 2) * 2 ^ 63 + 2 * e" by (simp only: mult_div_mod_eq)
  then have "n = b + (q div 2) * 2 ^ 64" by (simp add: n_def qe(1) b_def)
  then have "b mod 2 ^ 64 = 0xC0DEC0DEC0DEC0DE" using m by (simp only: mod_mult_self1)
  moreover have "(q mod 2) * 2 ^ 63 \<le> 2 ^ 63" by (cases "even q") (simp_all add: mod2_eq_if)
  then have "b < 0xC0DEC0DEC0DEC0DE" using k(1) qe(2) by (simp add: b_def)
  ultimately show False by simp
qed

theorem decoy_generation_disjoint_witness:
  "DecoyGeneration (DecoyGeneration 7) = 7 \<and> DecoyGeneration 7 \<noteq> 7 + of_nat 5"
proof -
  have "(5 :: nat) < 2 ^ 61" by simp
  with decoy_generation_disjoint [of 7] show ?thesis by blast
qed

section \<open>Retransmissions\<close>

text \<open>
  A pending handshake whose retransmission has gone by the schedule since its frame was first
  sent: each of the waits it has waited is in the time that has passed.
\<close>

definition on_schedule :: "pending \<Rightarrow> bool" where
  "on_schedule p \<longleftrightarrow>
     p_backoff p = retransmitBase * 2 ^ min (p_attempts p) 4 \<and> p_attempts p \<le> 5 \<and>
     (\<forall>s. p_last_sent p = Some s \<longrightarrow> p_created p + retransmitBase * (2 ^ p_attempts p - 1) \<le> s)"

definition to :: "string \<Rightarrow> mux \<Rightarrow> bytes list" where
  "to addr m = map snd (filter (\<lambda>(a, w). a = addr) (m_out m))"

lemma to_write: "mux_write E a wire (set_rnd rnd m) = (x, m') \<Longrightarrow> to addr m' = to addr m @ (if a = addr \<and> is_ok x then [wire] else [])"
  by (auto simp: mux_write_def raw_write_def set_rnd_def to_def split: if_splits)

lemma retransmit_one_other:
  assumes "p_addr q \<noteq> addr"
  shows "to addr (retransmit_one E now q m) = to addr m \<and>
    map_of (m_pending (retransmit_one E now q m)) addr = map_of (m_pending m) addr"
proof (cases "Done (p_h q) \<or> handshakeTimeout < now - p_created q \<or> p_last q = None \<or> p_last_sent q = None")
  case True
  with assms show ?thesis by (auto simp: retransmit_one_def to_def drop_pending_def delete_conv' split: option.split)
next
  case False
  then obtain frame sent where f: "p_last q = Some frame" "p_last_sent q = Some sent" by auto
  obtain wire rnd where w: "WrapDatagram (e_crypto E) (e_mark E) (Some (p_h q)) frame (m_rnd m) = (wire, rnd)" by fastforce
  obtain x m1 where mw: "mux_write E (p_addr q) wire (set_rnd rnd m) = (x, m1)" by fastforce
  have s: "m_pending m1 = m_pending m"
    using same_tables_trans [OF same_tables_updates(3) same_tables_write [OF mw]] by (simp add: same_tables_def)
  from to_write [OF mw, of addr] assms False f w mw s show ?thesis
    by (cases x) (auto simp: retransmit_one_def to_def put_pending_def update_conv')
qed

lemma pow_le_31: "n \<le> 5 \<Longrightarrow> (2 :: int) ^ n \<le> 32"
  using power_increasing [of n 5 "2 :: int"] by simp

lemma retransmit_one_own:
  assumes "on_schedule p" "map_of (m_pending m) (p_addr p) = Some p"
  shows "(to (p_addr p) (retransmit_one E now p m) = to (p_addr p) m \<and>
      map_of (m_pending (retransmit_one E now p m)) (p_addr p) \<in> {None, Some p}) \<or>
    (\<exists>w p1. to (p_addr p) (retransmit_one E now p m) = to (p_addr p) m @ [w] \<and>
       map_of (m_pending (retransmit_one E now p m)) (p_addr p) = Some p1 \<and> p_addr p1 = p_addr p \<and>
       on_schedule p1 \<and> p_attempts p1 = p_attempts p + 1)"
proof (cases "Done (p_h p) \<or> handshakeTimeout < now - p_created p \<or>
    (\<forall>frame sent. p_last p = Some frame \<and> p_last_sent p = Some sent \<longrightarrow> now - sent < p_backoff p)")
  case True
  with assms(2) show ?thesis
    by (auto simp: retransmit_one_def to_def drop_pending_def delete_conv' split: option.split)
next
  case False
  then obtain frame sent where f: "p_last p = Some frame" "p_last_sent p = Some sent" "p_backoff p \<le> now - sent"
    "\<not> Done (p_h p)" "now - p_created p \<le> handshakeTimeout" by (auto simp: not_less)
  obtain wire rnd where w: "WrapDatagram (e_crypto E) (e_mark E) (Some (p_h p)) frame (m_rnd m) = (wire, rnd)" by fastforce
  obtain x m1 where mw: "mux_write E (p_addr p) wire (set_rnd rnd m) = (x, m1)" by fastforce
  have s: "m_pending m1 = m_pending m"
    using same_tables_trans [OF same_tables_updates(3) same_tables_write [OF mw]] by (simp add: same_tables_def)
  define p1 where "p1 = p\<lparr>p_last_sent := Some now, p_attempts := p_attempts p + 1,
    p_backoff := retransmitBase * 2 ^ min (p_attempts p + 1) 4\<rparr>"
  have r: "retransmit_one E now p m = (case x of Inl _ \<Rightarrow> m1 | Inr _ \<Rightarrow> put_pending p1 m1)"
    using f w mw by (simp add: retransmit_one_def p1_def split: sum.split)
  from assms(1) f(2) have S: "p_backoff p = retransmitBase * 2 ^ min (p_attempts p) 4" "p_attempts p \<le> 5"
    "p_created p + retransmitBase * (2 ^ p_attempts p - 1) \<le> sent" by (auto simp: on_schedule_def)
  have four: "p_attempts p \<le> 4"
  proof (rule ccontr)
    assume "\<not> p_attempts p \<le> 4"
    then have "p_attempts p = 5" using S(2) by simp
    with S(1,3) f(3,5) show False by (simp add: retransmitBase_def handshakeTimeout_def)
  qed
  then have "p_backoff p = retransmitBase * 2 ^ p_attempts p" using S(1) by (simp add: min_def)
  with S(3) f(3) have "p_created p + retransmitBase * (2 ^ (p_attempts p + 1) - 1) \<le> now" by (simp add: algebra_simps)
  then have ok: "on_schedule p1" using four by (simp add: on_schedule_def p1_def)
  from to_write [OF mw, of "p_addr p"] r s ok assms(2) show ?thesis
    by (cases x) (auto simp: to_def put_pending_def update_conv' p1_def)
qed

lemma fold_retransmit:
  assumes "distinct (map p_addr ps)"
  shows "addr \<notin> p_addr ` set ps \<Longrightarrow> to addr (fold (retransmit_one E now) ps m) = to addr m \<and>
      map_of (m_pending (fold (retransmit_one E now) ps m)) addr = map_of (m_pending m) addr"
    and "p \<in> set ps \<Longrightarrow> p_addr p = addr \<Longrightarrow> map_of (m_pending m) addr = Some p \<Longrightarrow> on_schedule p \<Longrightarrow>
      (to addr (fold (retransmit_one E now) ps m) = to addr m \<and>
         map_of (m_pending (fold (retransmit_one E now) ps m)) addr \<in> {None, Some p}) \<or>
      (\<exists>w p1. to addr (fold (retransmit_one E now) ps m) = to addr m @ [w] \<and>
         map_of (m_pending (fold (retransmit_one E now) ps m)) addr = Some p1 \<and> p_addr p1 = addr \<and>
         on_schedule p1 \<and> p_attempts p1 = p_attempts p + 1)"
proof -
  have other: "to addr (fold (retransmit_one E now) qs n) = to addr n \<and>
      map_of (m_pending (fold (retransmit_one E now) qs n)) addr = map_of (m_pending n) addr"
    if "addr \<notin> p_addr ` set qs" for qs n
    using that
  proof (induction qs arbitrary: n)
    case (Cons q qs)
    then show ?case using retransmit_one_other [of q addr E now n] by auto
  qed simp
  then show "addr \<notin> p_addr ` set ps \<Longrightarrow> to addr (fold (retransmit_one E now) ps m) = to addr m \<and>
      map_of (m_pending (fold (retransmit_one E now) ps m)) addr = map_of (m_pending m) addr" .
  assume p: "p \<in> set ps" "p_addr p = addr" "map_of (m_pending m) addr = Some p" "on_schedule p"
  from p(1) obtain as bs where ps: "ps = as @ p # bs" by (auto dest: split_list)
  have out: "addr \<notin> p_addr ` set as" "addr \<notin> p_addr ` set bs" using assms ps p(2) by auto
  define m1 where "m1 = fold (retransmit_one E now) as m"
  have m1: "to addr m1 = to addr m" "map_of (m_pending m1) addr = Some p" using other [OF out(1), of m] p(3) by (simp_all add: m1_def)
  have f: "fold (retransmit_one E now) ps m = fold (retransmit_one E now) bs (retransmit_one E now p m1)" by (simp add: ps m1_def)
  from retransmit_one_own [OF p(4), of m1 E now] m1 p(2) other [OF out(2), of "retransmit_one E now p m1"]
  show "(to addr (fold (retransmit_one E now) ps m) = to addr m \<and>
         map_of (m_pending (fold (retransmit_one E now) ps m)) addr \<in> {None, Some p}) \<or>
      (\<exists>w p1. to addr (fold (retransmit_one E now) ps m) = to addr m @ [w] \<and>
         map_of (m_pending (fold (retransmit_one E now) ps m)) addr = Some p1 \<and> p_addr p1 = addr \<and>
         on_schedule p1 \<and> p_attempts p1 = p_attempts p + 1)"
    unfolding f by auto
qed

lemma retransmit_keys:
  assumes "tables_inv m"
  shows "distinct (map p_addr (map snd (m_pending m)))"
    and "map_of (m_pending m) addr = Some p \<Longrightarrow> p \<in> set (map snd (m_pending m)) \<and> p_addr p = addr"
    and "map_of (m_pending m) addr = None \<Longrightarrow> addr \<notin> p_addr ` set (map snd (m_pending m))"
proof -
  have k: "p_addr p = a" if "(a, p) \<in> set (m_pending m)" for a p using tables_invD(2) [OF assms that] .
  have "map p_addr (map snd (m_pending m)) = map fst (m_pending m)" using k by auto
  with tables_invD(1) [OF assms] show "distinct (map p_addr (map snd (m_pending m)))" by metis
  show "map_of (m_pending m) addr = Some p \<Longrightarrow> p \<in> set (map snd (m_pending m)) \<and> p_addr p = addr"
    using k by (force dest: map_of_SomeD)
  show "map_of (m_pending m) addr = None \<Longrightarrow> addr \<notin> p_addr ` set (map snd (m_pending m))"
    using k by (force simp: map_of_eq_None_iff)
qed

text \<open>The retransmissions at a sequence of ticks of the timer, in each of its environments.\<close>

fun ticks :: "(env \<times> int) list \<Rightarrow> mux \<Rightarrow> mux" where
  "ticks [] m = m"
| "ticks ((E, now) # ts) m = ticks ts (retransmit E now m)"

lemma ticks_bound:
  assumes "tables_inv m" "case map_of (m_pending m) addr of None \<Rightarrow> n = 5 | Some p \<Rightarrow> on_schedule p \<and> n = p_attempts p"
  shows "length (to addr (ticks ts m)) + n \<le> length (to addr m) + 5"
  using assms
proof (induction ts arbitrary: m n)
  case Nil
  then show ?case by (auto simp: on_schedule_def split: option.splits)
next
  case (Cons t ts)
  obtain E now where t: "t = (E, now)" by (cases t)
  define m1 where "m1 = retransmit E now m"
  have I: "tables_inv m1" using retransmit_inv [OF Cons.prems(1)] by (simp add: m1_def)
  note K = retransmit_keys [OF Cons.prems(1)]
  show ?case
  proof (cases "map_of (m_pending m) addr")
    case None
    from fold_retransmit(1) [OF K(1) K(3) [OF None], of E now m] None
    have "to addr m1 = to addr m" "map_of (m_pending m1) addr = None" by (simp_all add: m1_def retransmit_def)
    with Cons.IH [OF I, of 5] Cons.prems(2) None t show ?thesis by (simp add: m1_def)
  next
    case (Some p)
    with Cons.prems(2) have p: "on_schedule p" "n = p_attempts p" "p_attempts p \<le> 5" by (auto simp: on_schedule_def)
    have ps: "p \<in> set (map snd (m_pending m))" "p_addr p = addr" using K(2) [OF Some] by auto
    from fold_retransmit(2) [OF K(1) ps Some p(1), of E now] consider
      (same) "to addr m1 = to addr m" "map_of (m_pending m1) addr \<in> {None, Some p}"
    | (more) w p1 where "to addr m1 = to addr m @ [w]" "map_of (m_pending m1) addr = Some p1" "on_schedule p1"
        "p_attempts p1 = p_attempts p + 1"
      by (auto simp: m1_def retransmit_def)
    then show ?thesis
    proof cases
      case same
      show ?thesis
      proof (cases "map_of (m_pending m1) addr")
        case None
        with Cons.IH [OF I, of 5] same(1) p t show ?thesis by (simp add: m1_def)
      next
        case (Some q)
        with same(2) have "q = p" by simp
        with Cons.IH [OF I, of n] Some same(1) p t show ?thesis by (simp add: m1_def)
      qed
    next
      case more
      with Cons.IH [OF I, of "n + 1"] p t show ?thesis by (simp add: m1_def)
    qed
  qed
qed

text \<open>
  C20. A silent client draws at most five retransmissions: from a state with well-formed
  tables in which the frame of a pending handshake was sent no earlier than the handshake was
  created and has not been repeated, any number of ticks of the timer, at any times, send at
  most five datagrams to its address.
\<close>
theorem retransmissions_bounded:
  assumes "tables_inv m" "map_of (m_pending m) addr = Some p" "p_attempts p = 0" "p_backoff p = retransmitBase"
    "p_last_sent p = Some s" "p_created p \<le> s"
  shows "length (filter (\<lambda>(a, w). a = addr) (m_out (ticks ts m))) \<le> length (filter (\<lambda>(a, w). a = addr) (m_out m)) + 5"
proof -
  have "on_schedule p" using assms(3-6) by (simp add: on_schedule_def)
  with ticks_bound [OF assms(1), where addr = addr and n = 0 and ts = ts] assms(2,3) show ?thesis by (simp add: to_def)
qed

theorem retransmissions_bounded_witness:
  "\<exists>m h. m_pending m = [(''a'', \<lparr>p_h = h, p_last = Some [1, 2], p_last_sent = Some 3, p_created = 3, p_attempts = 0,
       p_backoff = retransmitBase, p_addr = ''a'', p_recvOK = False, p_primed = False\<rparr>)] \<and> m_out m = [] \<and>
     length (filter (\<lambda>(a, w). a = ''a'') (m_out (ticks [(sample_env, 200000003), (sample_env, 600000003)] m))) \<le> 5"
proof -
  obtain h r where "NewHandshake sample_protocol DirServer sample_psk zeros = Inr (h, r)"
    using sample_codecs by (auto simp: NewHandshake_def is_ok_iff zeros_def read_full_def)
  define p where "p = \<lparr>p_h = h, p_last = Some [1, 2], p_last_sent = Some 3, p_created = 3, p_attempts = 0,
    p_backoff = retransmitBase, p_addr = ''a'', p_recvOK = False, p_primed = False\<rparr>"
  define m where "m = (NewServerMux sample_protocol sample_psk zeros)\<lparr>m_pending := [(''a'', p)]\<rparr>"
  have m: "m_pending m = [(''a'', p)]" "m_out m = []" by (simp_all add: m_def NewServerMux_def)
  have "tables_inv m" by (simp add: m_def NewServerMux_def tables_inv_def p_def maxPendingHandshakes_def)
  from retransmissions_bounded [OF this, where addr = "''a''" and p = p and s = 3
      and ts = "[(sample_env, 200000003), (sample_env, 600000003)]"] m
  have "length (filter (\<lambda>(a, w). a = ''a'') (m_out (ticks [(sample_env, 200000003), (sample_env, 600000003)] m))) \<le> 5"
    by (simp add: p_def del: ticks.simps)
  with m show ?thesis unfolding p_def by blast
qed

section \<open>The table of attempts\<close>

lemma retransmit_one_attempts:
  assumes "p_addr q \<noteq> a"
  shows "map_of (m_last_create (retransmit_one E now q m)) a = map_of (m_last_create m) a"
proof -
  have "m_last_create m1 = m_last_create m" if "mux_write E addr wire (set_rnd rnd m) = (x, m1)" for addr wire rnd x m1
    using same_tables_trans [OF same_tables_updates(3) same_tables_write [OF that]] by (simp add: same_tables_def)
  with assms show ?thesis
    by (auto simp: retransmit_one_def drop_pending_def delete_conv' split: option.split sum.split prod.split)
qed

lemma sweep_attempts: "m_last_create (sweep_one E now i m) = m_last_create m \<and> m_pending (sweep_one E now i m) = m_pending m"
  by (simp add: sweep_one_def closeTunnel_def with_tunnel_def split: prod.split)

lemma fold_attempts:
  assumes "\<And>x m. x \<in> set xs \<Longrightarrow> map_of (m_last_create (f x m)) a = map_of (m_last_create m) a"
  shows "map_of (m_last_create (fold f xs m)) a = map_of (m_last_create m) a"
  using assms by (induction xs arbitrary: m) auto

lemma fold_same_pending: "(\<And>x m. m_pending (f x m) = m_pending m) \<Longrightarrow> m_pending (fold f xs m) = m_pending m"
  by (induction xs arbitrary: m) auto

lemma tick_attempts:
  assumes "tables_inv m" "map_of (m_pending m) a = None"
  shows "map_of (m_last_create (timer_tick E now m)) a = map_of (m_last_create m) a"
    and "map_of (m_pending (timer_tick E now m)) a = None" and "tables_inv (timer_tick E now m)"
proof -
  define m1 where "m1 = retransmit E now m"
  have out: "a \<notin> p_addr ` set (map snd (m_pending m))" using retransmit_keys(3) [OF assms] .
  have "p_addr q \<noteq> a" if "q \<in> set (map snd (m_pending m))" for q using out that by force
  then have "map_of (m_last_create m1) a = map_of (m_last_create m) a"
    unfolding m1_def retransmit_def by (intro fold_attempts retransmit_one_attempts) blast
  moreover have "map_of (m_last_create (sweepSessions E now m1)) a = map_of (m_last_create m1) a"
    unfolding sweepSessions_def by (rule fold_attempts) (simp add: sweep_attempts)
  ultimately show "map_of (m_last_create (timer_tick E now m)) a = map_of (m_last_create m) a"
    by (simp add: timer_tick_def m1_def)
  have "map_of (m_pending m1) a = None"
    using fold_retransmit(1) [OF retransmit_keys(1) [OF assms(1)] out, of E now m] assms(2) by (simp add: m1_def retransmit_def)
  moreover have "m_pending (sweepSessions E now m1) = m_pending m1"
    unfolding sweepSessions_def by (rule fold_same_pending) (simp add: sweep_attempts)
  ultimately show "map_of (m_pending (timer_tick E now m)) a = None" by (simp add: timer_tick_def m1_def)
  show "tables_inv (timer_tick E now m)" using assms(1) by (simp add: timer_tick_def retransmit_inv sweepSessions_inv)
qed

fun timer_ticks :: "(env \<times> int) list \<Rightarrow> mux \<Rightarrow> mux" where
  "timer_ticks [] m = m"
| "timer_ticks ((E, now) # ts) m = timer_ticks ts (timer_tick E now m)"

lemma timer_ticks_attempts:
  "tables_inv m \<Longrightarrow> map_of (m_pending m) a = None \<Longrightarrow>
     map_of (m_last_create (timer_ticks ts m)) a = map_of (m_last_create m) a"
proof (induction ts arbitrary: m)
  case (Cons t ts)
  then show ?case using tick_attempts [OF Cons.prems] by (cases t) simp
qed simp

text \<open>
  The table of attempts only grows: when the limit on sessions is reached, any datagram
  of at least 16 bytes from an address that is not known yet enters that address into the
  table, without any authentication, and no number of ticks of the timer removes it again.
\<close>
theorem attempts_never_forgotten:
  assumes "tables_inv m" "0 < m_max m" "m_max m \<le> int (length (m_established m) + length (m_pending m))"
    "16 \<le> length data" "map_of (m_established m) addr = None" "map_of (m_pending m) addr = None"
    "map_of (m_last_create m) addr = None" "length (m_pending m) < 1024"
  shows "map_of (m_last_create (timer_ticks ts (handleDatagram E now addr data m))) addr = Some now"
proof -
  define m1 where "m1 = m\<lparr>m_last_create := AList.update addr now (m_last_create m)\<rparr>"
  have h: "handleDatagram E now addr data m = maybeDecoy E now addr data m1"
    using assms(2-8) by (auto simp: handleDatagram_def m1_def minFirstDatagram_def maxPendingHandshakes_def)
  have "same_tables m1 (maybeDecoy E now addr data m1)" by simp
  then have "m_last_create (maybeDecoy E now addr data m1) = m_last_create m1" "m_pending (maybeDecoy E now addr data m1) = m_pending m"
    by (simp_all add: same_tables_def m1_def)
  moreover have "tables_inv (handleDatagram E now addr data m)" using assms(1) by (rule handleDatagram_inv)
  ultimately show ?thesis
    using timer_ticks_attempts [of "handleDatagram E now addr data m" addr ts] assms(6) h
    by (simp add: m1_def update_conv')
qed

theorem attempts_never_forgotten_witness:
  "\<exists>m. tables_inv m \<and> m_max m = 1 \<and> map_of (m_last_create m) ''b'' = None \<and>
     map_of (m_last_create (timer_ticks [(sample_env, 100), (sample_env, 200)] (handleDatagram sample_env 5 ''b'' (replicate 16 0) m))) ''b''
       = Some 5"
proof -
  define t where "t = \<lparr>s_peer = ''a'', s_sess = \<lparr>pspec = sample_record, psend = sample_codec, precv = sample_codec\<rparr>, s_recv = [],
    s_closed = False, s_peer_base = 0, s_ack_due = 0, s_last_active = 0, s_limiter = None, s_mask = None, s_generation = 1\<rparr>"
  define m where "m = (WithMaxSessions 1 (NewServerMux sample_protocol sample_psk zeros))\<lparr>m_established := [(''a'', 0)], m_tuns := [t]\<rparr>"
  have m: "tables_inv m" "m_max m = 1" "map_of (m_last_create m) ''b'' = None" "m_pending m = []" "m_established m = [(''a'', 0)]"
    by (simp_all add: m_def t_def NewServerMux_def WithMaxSessions_def tables_inv_def maxPendingHandshakes_def)
  from attempts_never_forgotten [OF m(1), of "replicate 16 0" "''b''" "[(sample_env, 100), (sample_env, 200)]" sample_env 5] m
  show ?thesis by (intro exI [of _ m]) simp
qed

end
