(* ===== verification/Mux_Window.thy ===== *)
theory Mux_Window
  imports Mux_Clients
begin

text \<open>
  Which generation of its window the multiplexer answers: a first frame names its generation
  by decrypting, a knock cannot.
\<close>

lemma RecvStep_refused:
  assumes "RecvStep C h frame = (Inl e, h1)"
  shows "hcp h1 = hcp h" "CurrentSpec h1 = CurrentSpec h"
  using assms
  by (auto simp: RecvStep_def CurrentSpec_def Done_def capturePeerKey_def Let_def
      split: sum.splits if_splits prod.splits option.splits)

lemma select_loop_rest:
  assumes "select_loop E now addr data cps False primary sf m = (Inr (primary', sf'), m')"
  shows "primary' = primary \<and> (sf \<noteq> None \<longrightarrow> sf' = sf)"
  using assms
proof (induction cps arbitrary: sf m)
  case (Cons cp cps)
  show ?case
  proof (cases "NewHandshake cp DirServer (m_psk m) (m_rnd m)")
    case (Inl e)
    with Cons show ?thesis by simp
  next
    case (Inr r)
    obtain h rnd where r: "r = (h, rnd)" by (cases r)
    show ?thesis
    proof (cases "CurrentSpec h")
      case (Inl e)
      with Cons Inr r show ?thesis by simp
    next
      case spec: (Inr spec)
      show ?thesis
      proof (cases "mdirection spec = DirServer")
        case True
        with Cons.prems Inr r spec have
          "select_loop E now addr data cps False primary (if sf = None then Some h else sf) (set_rnd rnd m) = (Inr (primary', sf'), m')"
          by (simp add: Let_def)
        from Cons.IH [OF this] show ?thesis by (auto split: if_splits)
      next
        case False
        with Cons.prems Inr r spec have
          "select_loop E now addr data cps False primary sf (set_rnd rnd m) = (Inr (primary', sf'), m')"
          by (auto simp: Let_def split: sum.splits prod.splits bool.splits)
        from Cons.IH [OF this] show ?thesis .
      qed
    qed
  qed
qed simp

lemma select_loop_primed:
  "select_loop E now addr data cps start primary sf m = (Inl (Inr (h, p)), m') \<Longrightarrow> p"
proof (induction cps arbitrary: start primary sf m)
  case (Cons cp cps)
  show ?case
    by (rule ccontr) (use Cons.prems Cons.IH in \<open>auto simp: Let_def split: sum.splits prod.splits bool.splits if_splits\<close>)
qed simp

lemma select_loop_first_protocol:
  assumes "select_loop E now addr data (cp # cps) True None None m = (Inr (Some h, sf), m')"
  shows "hcp h = cp" "CurrentSpec h = Inr spec \<Longrightarrow> mdirection spec = DirServer \<Longrightarrow> sf = Some h"
proof -
  have "hcp h = cp \<and> (\<forall>spec. CurrentSpec h = Inr spec \<longrightarrow> mdirection spec = DirServer \<longrightarrow> sf = Some h)"
  proof (cases "NewHandshake cp DirServer (m_psk m) (m_rnd m)")
    case (Inl e)
    with assms select_loop_rest show ?thesis by fastforce
  next
    case (Inr r)
    obtain h0 rnd where r: "r = (h0, rnd)" by (cases r)
    have cp: "hcp h0 = cp" using NewHandshake_fields(1) [OF Inr [unfolded r]] .
    show ?thesis
    proof (cases "CurrentSpec h0")
      case spec: (Inl e)
      with assms Inr r have "select_loop E now addr data cps False (Some h0) None (set_rnd rnd m) = (Inr (Some h, sf), m')"
        by (simp add: Let_def)
      from select_loop_rest [OF this] cp spec show ?thesis by simp
    next
      case spec: (Inr spec)
      show ?thesis
      proof (cases "mdirection spec = DirServer")
        case True
        with assms Inr r spec have
          "select_loop E now addr data cps False (Some h0) (Some h0) (set_rnd rnd m) = (Inr (Some h, sf), m')" by (simp add: Let_def)
        from select_loop_rest [OF this] cp show ?thesis by simp
      next
        case False
        with assms Inr r spec obtain h1 where h1: "h1 = h0 \<or> (\<exists>frame e. RecvStep (e_crypto E) h0 frame = (Inl e, h1))"
          "select_loop E now addr data cps False (Some h1) None (set_rnd rnd m) = (Inr (Some h, sf), m')"
          by (auto simp: Let_def split: sum.splits prod.splits bool.splits)
        then have "hcp h1 = cp" "CurrentSpec h1 = Inr spec" using cp spec RecvStep_refused by fastforce+
        with select_loop_rest [OF h1(2)] False show ?thesis by auto
      qed
    qed
  qed
  then show "hcp h = cp" "CurrentSpec h = Inr spec \<Longrightarrow> mdirection spec = DirServer \<Longrightarrow> sf = Some h" by blast+
qed

text \<open>
  Only a first frame can select a generation: a datagram that opens a handshake without
  authenticating as the first frame of a client-first generation is always answered by the
  first protocol of the window, the base generation, whatever other generations the window
  holds. So a client of any other generation whose pattern begins with the server, the one the
  server has just rotated away from included, gets no handshake of its generation.
\<close>
theorem knock_serves_base:
  assumes "selectHandshake E now addr data m = (Inr (h, False), m')"
  shows "hcp h = hd (protocolListLocked m)"
proof -
  obtain cp cps where w: "protocolListLocked m = cp # cps"
    using assms by (cases "protocolListLocked m") (auto simp: selectHandshake_def)
  obtain x m1 where l: "select_loop E now addr data (cp # cps) True None None m = (x, m1)" by fastforce
  note s = assms [unfolded selectHandshake_def Let_def w l]
  show ?thesis
  proof (cases x)
    case (Inl y)
    with s have "y = Inr (h, False)" by simp
    with l Inl show ?thesis using select_loop_primed by fastforce
  next
    case (Inr y)
    obtain primary sf where y: "y = (primary, sf)" by (cases y)
    from s Inr y obtain p where p: "primary = Some p" by (cases primary) auto
    note f = select_loop_first_protocol [OF l [unfolded Inr y p]]
    show ?thesis
    proof (cases "CurrentSpec p")
      case (Inl e)
      with s Inr y p f(1) show ?thesis by (simp add: w)
    next
      case spec: (Inr spec)
      with s Inr y p f show ?thesis
        by (cases "mdirection spec = DirServer") (auto simp: w split: option.splits sum.splits if_splits prod.splits bool.splits)
    qed
  qed
qed

theorem knock_serves_base_witness:
  "\<exists>h m'. selectHandshake sample_env 0 ''a'' [] (NewServerMux sample_protocol sample_psk zeros) = (Inr (h, False), m') \<and>
     hcp h = sample_protocol"
proof -
  let ?m = "NewServerMux sample_protocol sample_psk zeros"
  have w: "protocolListLocked ?m = [sample_protocol]" "m_psk ?m = sample_psk" "m_rnd ?m = zeros"
    by (simp_all add: protocolListLocked_def NewServerMux_def)
  obtain h rnd where h: "NewHandshake sample_protocol DirServer sample_psk zeros = Inr (h, rnd)"
    using sample_codecs by (auto simp: NewHandshake_def is_ok_iff zeros_def read_full_def)
  have "chandshake sample_protocol \<noteq> []" by (simp add: sample_handshake)
  from fresh_not_done [OF h this] obtain spec where spec: "CurrentSpec h = Inr spec" "spec = handshake (cgenome (hcp h)) ! hidx h"
    by (auto simp: CurrentSpec_def)
  have "hcp h = sample_protocol" "hidx h = 0" using NewHandshake_fields [OF h] by simp_all
  with spec(2) have dir: "mdirection spec \<noteq> DirServer" by (simp add: sample_protocol_def sample_genome_def sample_message_def)
  have short: "aead_short demo_crypto" by (simp add: aead_short_def demo_crypto_def)
  have "\<exists>h1 m1. select_loop sample_env 0 ''a'' [] [sample_protocol] True None None ?m = (Inr (Some h1, None), m1) \<and>
      CurrentSpec h1 = Inr spec"
  proof (cases "UnwrapHandshakeDatagram demo_crypto (Some (cgenome sample_protocol)) []")
    case (Inl e)
    with h spec(1) dir show ?thesis by (simp add: w Let_def sample_env_def)
  next
    case (Inr inner)
    then have "inner = []" by (auto simp: UnwrapHandshakeDatagram_def Let_def split: if_splits)
    show ?thesis
    proof (cases "DeclaredFrame spec []")
      case (Inl e)
      with h spec(1) dir Inr \<open>inner = []\<close> show ?thesis by (simp add: w Let_def sample_env_def)
    next
      case t: (Inr t)
      then have "t = []" by (rule DeclaredFrame_Nil)
      obtain x h1 where r: "RecvStep demo_crypto h [] = (x, h1)" by fastforce
      then obtain e where "x = Inl e" using RecvStep_nonempty [OF short] by (cases x) auto
      with h spec(1) dir Inr \<open>inner = []\<close> t \<open>t = []\<close> r RecvStep_refused(2) [of demo_crypto h "[]" e h1] show ?thesis
        by (simp add: w Let_def sample_env_def)
    qed
  qed
  then have "\<exists>h m'. selectHandshake sample_env 0 ''a'' [] ?m = (Inr (h, False), m')"
    using dir by (auto simp: selectHandshake_def Let_def w)
  then show ?thesis using knock_serves_base w(1) by fastforce
qed

end
