(* ===== verification/Net_Text.thy ===== *)
theory Net_Text
  imports Text
begin

text \<open>
  The part of Go's \<open>net\<close> package that the program uses on text: IP addresses and CIDR
  prefixes (\<open>ParseIP\<close>, \<open>To4\<close>, \<open>IP.String\<close>, \<open>ParseCIDR\<close>), and host and port pairs
  (\<open>SplitHostPort\<close>, \<open>JoinHostPort\<close>). Proved: dotted addresses and joined pairs read back.
\<close>

section \<open>Addresses\<close>

definition parse_octet :: "string \<Rightarrow> byte option" where
  "parse_octet s =
     (if s \<noteq> [] \<and> list_all is_digit s \<and> (length s = 1 \<or> hd s \<noteq> CHR ''0'') \<and> digits_val s \<le> 255
      then Some (of_nat (digits_val s)) else None)"

definition parse_v4 :: "string \<Rightarrow> bytes option" where
  "parse_v4 s =
     (case cut CHR ''.'' s of None \<Rightarrow> None | Some (a, s1) \<Rightarrow>
      case cut CHR ''.'' s1 of None \<Rightarrow> None | Some (b, s2) \<Rightarrow>
      case cut CHR ''.'' s2 of None \<Rightarrow> None | Some (c, d) \<Rightarrow>
      case (parse_octet a, parse_octet b, parse_octet c, parse_octet d) of
        (Some w, Some x, Some y, Some z) \<Rightarrow> Some [w, x, y, z]
      | _ \<Rightarrow> None)"

definition is_hex :: "char \<Rightarrow> bool" where
  "is_hex c \<longleftrightarrow> hex_val c \<noteq> None"

definition group_val :: "string \<Rightarrow> nat" where
  "group_val s = foldl (\<lambda>n c. 16 * n + the (hex_val c)) 0 s"

text \<open>
  The groups of an IPv6 address: the bytes read so far, the position of a \<open>::\<close>, and the text
  that is left when the loop ends.
\<close>

function v6_loop :: "string \<Rightarrow> bytes \<Rightarrow> nat option \<Rightarrow> (bytes \<times> nat option \<times> string) option" where
  "v6_loop s ip dots =
     (if 16 \<le> length ip then Some (ip, dots, s)
      else let hex = takeWhile is_hex s; rest = dropWhile is_hex s in
        if hex = [] \<or> 4 < length hex then None
        else if rest \<noteq> [] \<and> hd rest = CHR ''.'' then
          (if dots = None \<and> length ip \<noteq> 12 \<or> 12 < length ip then None
           else case parse_v4 s of None \<Rightarrow> None | Some b \<Rightarrow> Some (ip @ b, dots, []))
        else let ip1 = ip @ be_bytes 2 (group_val hex) in
          if rest = [] then Some (ip1, dots, [])
          else if hd rest \<noteq> CHR '':'' \<or> tl rest = [] then None
          else if hd (tl rest) \<noteq> CHR '':'' then v6_loop (tl rest) ip1 dots
          else if dots \<noteq> None then None
          else if tl (tl rest) = [] then Some (ip1, Some (length ip1), [])
          else v6_loop (tl (tl rest)) ip1 (Some (length ip1)))"
  by pat_completeness auto
termination
proof (relation "measure (\<lambda>(s, ip, dots). length s)")
  fix s hex rest and ip ip1 :: bytes and dots :: "nat option"
  assume "rest = dropWhile is_hex s" "\<not> rest = []"
  then have "length rest \<le> length s" "0 < length rest" by (simp_all add: length_dropWhile_le)
  then have lt: "length (tl rest) < length s" "length (tl (tl rest)) < length s" unfolding length_tl by linarith+
  show "((tl rest, ip1, dots), s, ip, dots) \<in> measure (\<lambda>(s, ip, dots). length s)" using lt(1) by simp
  show "((tl (tl rest), ip1, Some (length ip1)), s, ip, dots) \<in> measure (\<lambda>(s, ip, dots). length s)" using lt(2) by simp
qed simp_all

definition parse_v6 :: "string \<Rightarrow> bytes option" where
  "parse_v6 s =
     (let (dots, body) = (if prefix_of ''::'' s then (Some 0, drop 2 s) else (None, s)) in
      case (if dots = Some 0 \<and> body = [] then Some ([], dots, []) else v6_loop body [] dots) of
        None \<Rightarrow> None
      | Some (ip, dots1, rest) \<Rightarrow>
          if rest \<noteq> [] then None
          else if length ip < 16 then
            (case dots1 of None \<Rightarrow> None
             | Some e \<Rightarrow> Some (take e ip @ replicate (16 - length ip) 0 @ drop e ip))
          else if dots1 \<noteq> None then None else Some ip)"

text \<open>
  \<open>netip.ParseAddr\<close>, without the IPv6 zones that both callers refuse. The first separator
  decides the family.
\<close>

datatype netip = V4 bytes | V6 bytes

fun parse_addr_at :: "string \<Rightarrow> string \<Rightarrow> netip option" where
  "parse_addr_at s [] = None"
| "parse_addr_at s (c # cs) =
     (if c = CHR ''.'' then map_option V4 (parse_v4 s)
      else if c = CHR '':'' then (if CHR 0x25 \<in> set s then None else map_option V6 (parse_v6 s))
      else if c = CHR 0x25 then None
      else parse_addr_at s cs)"

definition parse_addr :: "string \<Rightarrow> netip option" where
  "parse_addr s = parse_addr_at s s"

definition as16 :: "netip \<Rightarrow> bytes" where
  "as16 a = (case a of V4 b \<Rightarrow> replicate 10 0 @ [0xFF, 0xFF] @ b | V6 b \<Rightarrow> b)"

definition bit_len :: "netip \<Rightarrow> nat" where
  "bit_len a = (case a of V4 b \<Rightarrow> 32 | V6 b \<Rightarrow> 128)"

definition parse_ip :: "string \<Rightarrow> bytes option" where
  "parse_ip s = map_option as16 (parse_addr s)"

definition to4 :: "bytes \<Rightarrow> bytes option" where
  "to4 b =
     (if length b = 4 then Some b
      else if length b = 16 \<and> take 10 b = replicate 10 0 \<and> b ! 10 = 0xFF \<and> b ! 11 = 0xFF then Some (drop 12 b)
      else None)"

text \<open>\<open>IP.String\<close> of an IPv4 address.\<close>

definition quad_string :: "bytes \<Rightarrow> string" where
  "quad_string b =
     dec_string (unat (b ! 0)) @ ''.'' @ dec_string (unat (b ! 1)) @ ''.'' @
     dec_string (unat (b ! 2)) @ ''.'' @ dec_string (unat (b ! 3))"

text \<open>\<open>net.CIDRMask\<close>: the first \<open>ones\<close> of \<open>bits\<close> bits.\<close>

definition mask_byte :: "nat \<Rightarrow> nat \<Rightarrow> byte" where
  "mask_byte ones i = (let n = ones - 8 * i in if 8 \<le> n then 0xFF else NOT (drop_bit n 0xFF))"

definition cidr_mask :: "nat \<Rightarrow> nat \<Rightarrow> bytes" where
  "cidr_mask ones bits = map (mask_byte ones) [0 ..< bits div 8]"

definition ParseCIDR :: "string \<Rightarrow> (bytes \<times> nat \<times> nat) option" where
  "ParseCIDR s =
     (case cut CHR ''/'' s of None \<Rightarrow> None | Some (a, m) \<Rightarrow>
      case parse_addr a of None \<Rightarrow> None | Some ip \<Rightarrow>
        if m \<noteq> [] \<and> list_all is_digit m \<and> digits_val m \<le> bit_len ip
        then Some (as16 ip, digits_val m, bit_len ip) else None)"

section \<open>Hosts and ports\<close>

definition index_of :: "char \<Rightarrow> string \<Rightarrow> nat option" where
  "index_of c s = (if c \<in> set s then Some (length (takeWhile (\<lambda>x. x \<noteq> c) s)) else None)"

definition last_index :: "char \<Rightarrow> string \<Rightarrow> nat option" where
  "last_index c s = (if c \<in> set s then Some (length s - 1 - length (takeWhile (\<lambda>x. x \<noteq> c) (rev s))) else None)"

definition SplitHostPort :: "string \<Rightarrow> (string \<times> string) option" where
  "SplitHostPort s =
     (case last_index CHR '':'' s of
        None \<Rightarrow> None
      | Some i \<Rightarrow>
          (if hd s = CHR ''['' then
             (case index_of CHR '']'' s of
                None \<Rightarrow> None
              | Some e \<Rightarrow>
                  if e + 1 \<noteq> i then None
                  else if CHR ''['' \<in> set (drop 1 s) \<or> CHR '']'' \<in> set (drop (e + 1) s) then None
                  else Some (drop 1 (take e s), drop (i + 1) s))
           else if CHR '':'' \<in> set (take i s) \<or> CHR ''['' \<in> set s \<or> CHR '']'' \<in> set s then None
           else Some (take i s, drop (i + 1) s)))"

definition JoinHostPort :: "string \<Rightarrow> string \<Rightarrow> string" where
  "JoinHostPort host port =
     (if CHR '':'' \<in> set host then ''['' @ host @ '']:'' @ port else host @ '':'' @ port)"

declare v6_loop.simps [simp del]

section \<open>Reading back\<close>

lemma digit_chars: "is_digit c \<Longrightarrow> c \<noteq> CHR ''.'' \<and> c \<noteq> CHR '':'' \<and> c \<noteq> CHR ''['' \<and> c \<noteq> CHR '']'' \<and> c \<noteq> CHR 0x25"
  by (auto simp: is_digit_def)

lemma dec_string_plain:
  "CHR ''.'' \<notin> set (dec_string n)" "CHR '':'' \<notin> set (dec_string n)" "CHR ''['' \<notin> set (dec_string n)"
  "CHR '']'' \<notin> set (dec_string n)"
  using dec_string_ok [of n] digit_chars by (auto simp: list_all_iff)

lemma dec_string_lead: "0 < n \<Longrightarrow> hd (dec_string n) \<noteq> CHR ''0''"
proof (induction n rule: dec_string.induct)
  case (1 n)
  show ?case
  proof (cases "n < 10")
    case True
    then have "of_char (hd (dec_string n)) = 48 + n" by (simp add: dec_string.simps [of n])
    with 1(2) show ?thesis by auto
  next
    case False
    have "hd (dec_string n) = hd (dec_string (n div 10))"
      using False dec_string_ok [of "n div 10"] by (simp add: dec_string.simps [of n])
    with 1(1) False show ?thesis by (simp add: div_greater_zero_iff)
  qed
qed

lemma parse_octet_string [simp, roundtrip_simps]: "parse_octet (dec_string (unat b)) = Some b"
proof -
  have "unat b \<le> 255" using unat_byte_less [of b] by linarith
  moreover have "length (dec_string 0) = 1" by (simp add: dec_string.simps)
  ultimately show ?thesis
    using dec_string_ok [of "unat b"] dec_string_lead [of "unat b"] by (cases "unat b = 0") (auto simp: parse_octet_def unat_eq_0)
qed

lemma length4D: "length b = 4 \<Longrightarrow> \<exists>w x y z. b = [w, x, y, z]"
  by (auto simp: numeral_eq_Suc length_Suc_conv)

lemma parse_quad_string [simp, roundtrip_simps]:
  assumes "length b = 4"
  shows "parse_v4 (quad_string b) = Some b"
proof -
  obtain w x y z where b: "b = [w, x, y, z]" using length4D [OF assms] by blast
  show ?thesis by (simp add: b parse_v4_def quad_string_def dec_string_plain)
qed

lemma parse_addr_at_digits:
  assumes "list_all is_digit a"
  shows "parse_addr_at s (a @ CHR ''.'' # t) = map_option V4 (parse_v4 s)"
  using assms by (induction a) (auto dest: digit_chars)

lemma parse_ip_quad [simp, roundtrip_simps]:
  assumes "length b = 4"
  shows "parse_ip (quad_string b) = Some (as16 (V4 b))" "to4 (as16 (V4 b)) = Some b"
proof -
  have "parse_addr (quad_string b) = map_option V4 (parse_v4 (quad_string b))"
    unfolding parse_addr_def by (subst (2) quad_string_def) (simp add: parse_addr_at_digits dec_string_ok)
  with assms show "parse_ip (quad_string b) = Some (as16 (V4 b))" by (simp add: parse_ip_def)
  show "to4 (as16 (V4 b)) = Some b" using assms by (simp add: to4_def as16_def nth_append)
qed

lemma last_index_snoc: "c \<notin> set b \<Longrightarrow> last_index c (a @ c # b) = Some (length a)"
proof -
  assume "c \<notin> set b"
  then have "takeWhile (\<lambda>x. x \<noteq> c) (rev (a @ c # b)) = rev b" by (simp add: takeWhile_append)
  then show ?thesis by (simp add: last_index_def)
qed

lemma split_join [simp, roundtrip_simps]:
  assumes "CHR '':'' \<notin> set host" "CHR ''['' \<notin> set host" "CHR '']'' \<notin> set host"
    "CHR '':'' \<notin> set port" "CHR ''['' \<notin> set port" "CHR '']'' \<notin> set port"
  shows "SplitHostPort (JoinHostPort host port) = Some (host, port)"
proof -
  have "hd (host @ '':'' @ port) \<noteq> CHR ''[''" using assms(2) by (cases host) auto
  with assms last_index_snoc [of "CHR '':''" port host] show ?thesis by (simp add: SplitHostPort_def JoinHostPort_def)
qed

end
