(* ===== verification/Core_Config.thy ===== *)
theory Core_Config
  imports Net_Text Generator Cover Server_Tunnel
begin

text \<open>
  Configuration of a client or a server (\<open>core/core.go\<close>): the record, its normalization, the
  window of protocols a server accepts, the port sequence (\<open>core/porthop.go\<close>), the hidden path
  (\<open>core/websocket.go\<close>), and the server program's own configuration file
  (\<open>cmd/chimerad/config.go\<close>). Durations are nanoseconds; the cipher \<open>""\<close> is \<open>None\<close>. Text is
  ASCII.
\<close>

section \<open>The configuration\<close>

datatype stream_probe_mode = StreamProbeClose | StreamProbeSilent | StreamProbeTLS | StreamProbeOther string

record core_config =
  c_seed :: string
  c_generation :: nat
  c_psk :: string
  c_addr :: string
  c_transport :: string
  c_mode :: stream_probe_mode
  c_decoy_timeout :: int
  c_decoy_pending :: int
  c_decoy_every :: int
  c_decoy_max :: int
  c_hop_count :: int
  c_hop_spread :: int
  c_rotation :: int
  c_transports :: "string list"
  c_tls_cert :: string
  c_tls_key :: string
  c_tls_ca :: string
  c_tls_insecure :: bool
  c_cidr :: string
  c_cipher :: "cipher_suite option"
  c_keepalive :: int
  c_window :: nat
  c_idle :: int
  c_rate :: int
  c_max_sessions :: int
  c_no_decoy :: bool
  c_burst :: int
  c_no_shape :: bool
  c_shape :: "int list"
  c_mark :: bytes
  c_jitter :: int
  c_replay :: string

definition MaxGenerationWindow :: nat where
  "MaxGenerationWindow = 8"

definition MaxJitterMax :: int where
  "MaxJitterMax = second"

definition DefaultStreamProbeTimeout :: int where
  "DefaultStreamProbeTimeout = 5 * second"

definition DefaultStreamProbeMaxPending :: int where
  "DefaultStreamProbeMaxPending = 256"

section \<open>Normalization\<close>

definition to_lower :: "string \<Rightarrow> string" where
  "to_lower s = map (\<lambda>c. let n = (of_char c :: nat) in if 65 \<le> n \<and> n \<le> 90 then char_of (n + 32) else c) s"

text \<open>\<open>strings.ReplaceAll(s, "0x", "")\<close>\<close>

fun strip_0x :: "string \<Rightarrow> string" where
  "strip_0x (c # d # cs) = (if c = CHR ''0'' \<and> d = CHR ''x'' then strip_0x cs else c # strip_0x (d # cs))"
| "strip_0x cs = cs"

definition parseHex32 :: "string \<Rightarrow> bytes res" where
  "parseHex32 s =
     (case hex_decode (strip_0x (trim_space s)) of
        None \<Rightarrow> Inl ErrHex
      | Some b \<Rightarrow> if length b \<noteq> 32 then Inl ErrKeySize else Inr b)"

definition known_transport :: "string \<Rightarrow> bool" where
  "known_transport t \<longleftrightarrow> t \<in> {''udp'', ''tcp'', ''websocket'', ''wss'', ''http'', ''https''}"

fun add_transports :: "string list \<Rightarrow> string list \<Rightarrow> string list res" where
  "add_transports [] acc = Inr acc"
| "add_transports (tr # trs) acc =
     (let t = to_lower (trim_space tr) in
      if t = [] then add_transports trs acc
      else if \<not> known_transport t then Inl ErrConfig
      else add_transports trs (if t \<in> set acc then acc else acc @ [t]))"

definition NormalizeStreamProbeMode :: "stream_probe_mode \<Rightarrow> stream_probe_mode res" where
  "NormalizeStreamProbeMode mode =
     (case mode of
        StreamProbeOther s \<Rightarrow> if s = [] then Inr StreamProbeSilent else Inl ErrConfig
      | _ \<Rightarrow> Inr mode)"

definition normalize_noise :: "core_config \<Rightarrow> core_config" where
  "normalize_noise cfg =
     (let every = (if c_decoy_every cfg = 0 then 48 else c_decoy_every cfg);
          most = (if c_decoy_max cfg = 0 then 2 else c_decoy_max cfg) in
      if every < 0 \<or> most < 0 then cfg\<lparr>c_decoy_every := 0, c_decoy_max := 0\<rparr>
      else cfg\<lparr>c_decoy_every := every, c_decoy_max := most\<rparr>)"

definition normalize_burst :: "int \<Rightarrow> int" where
  "normalize_burst n = (if n \<le> 0 then 1 else if 8 < n then 8 else n)"

definition normalize_buckets :: "int list \<Rightarrow> int list res" where
  "normalize_buckets bs =
     (if bs = [] then Inr bs
      else if 16 < length bs then Inl ErrConfig
      else let sorted = sort bs in
           if list_ex (\<lambda>b. b < 64 \<or> 1452 < b) sorted \<or> \<not> distinct_adj sorted then Inl ErrConfig
           else Inr sorted)"

text \<open>The part of \<open>NormalizeConfig\<close> about transports and the part about limits.\<close>

definition normalize_transports :: "core_config \<Rightarrow> core_config res" where
  "normalize_transports cfg =
     (let t0 = to_lower (trim_space (c_transport cfg)); t = (if t0 = [] then ''udp'' else t0) in
      if \<not> known_transport t then Inl ErrConfig
      else res_bind (add_transports (if c_transports cfg = [] then [t] else c_transports cfg) []) (\<lambda>ts.
             let ts1 = (if ts = [] then [t] else ts) in
             res_bind (NormalizeStreamProbeMode (c_mode cfg)) (\<lambda>mode.
               Inr (cfg\<lparr>c_transports := ts1, c_transport := hd ts1, c_mode := mode\<rparr>))))"

definition normalize_limits :: "core_config \<Rightarrow> core_config res" where
  "normalize_limits cfg =
     (if c_hop_count cfg < 0 then Inl ErrConfig
      else let want = (if c_hop_count cfg = 0 then 1 else c_hop_count cfg) in
        if 16 < want then Inl ErrConfig
        else
          let cfg1 = cfg\<lparr>c_hop_count := want,
                c_hop_spread := (if 1 < want \<and> c_hop_spread cfg \<le> 0 then 2048 else c_hop_spread cfg),
                c_rotation := max 0 (c_rotation cfg), c_burst := normalize_burst (c_burst cfg)\<rparr> in
          res_bind (normalize_buckets (c_shape cfg)) (\<lambda>buckets.
          res_bind (ValidateProbeMark (c_mark cfg)) (\<lambda>_.
            if (case c_cipher cfg of None \<Rightarrow> False | Some cs \<Rightarrow> \<not> knownCipher cs) then Inl ErrCipher
            else if MaxGenerationWindow < c_window cfg then Inl ErrConfig
            else if MaxJitterMax < c_jitter cfg then Inl ErrConfig
            else Inr (cfg1\<lparr>c_shape := buckets, c_jitter := max 0 (c_jitter cfg)\<rparr>))))"

definition NormalizeConfig :: "core_config \<Rightarrow> core_config res" where
  "NormalizeConfig cfg =
     res_bind (parseHex32 (c_seed cfg)) (\<lambda>seed.
     res_bind (parseHex32 (c_psk cfg)) (\<lambda>psk.
       if trim_space (c_addr cfg) = [] then Inl ErrConfig
       else
         res_bind (normalize_transports cfg) (\<lambda>cfg1.
           let cfg2 = cfg1\<lparr>
                 c_decoy_timeout := (if c_decoy_timeout cfg1 \<le> 0 then DefaultStreamProbeTimeout else c_decoy_timeout cfg1),
                 c_decoy_pending := (if c_decoy_pending cfg1 \<le> 0 then DefaultStreamProbeMaxPending else c_decoy_pending cfg1)\<rparr> in
           res_bind (normalize_limits (normalize_noise cfg2)) (\<lambda>cfg3.
             Inr (cfg3\<lparr>c_seed := hex_encode seed, c_psk := hex_encode psk\<rparr>)))))"

section \<open>Protocols, paths and ladders\<close>

text \<open>The loop of \<open>compileServerProtocols\<close>; \<open>None\<close> is a generator that never returns.\<close>

fun compile_window ::
  "crypto \<Rightarrow> bytes \<Rightarrow> bytes \<Rightarrow> cipher_suite option \<Rightarrow> nat \<Rightarrow> nat \<Rightarrow> nat \<Rightarrow> compiled_protocol list res option" where
  "compile_window C seed psk cipher gen_no i 0 = Some (Inr [])"
| "compile_window C seed psk cipher gen_no i (Suc n) =
     (case GenerateWithCipher C seed (w64 (gen_no + i)) cipher of
        None \<Rightarrow> None
      | Some (Inl e) \<Rightarrow> Some (Inl e)
      | Some (Inr g) \<Rightarrow>
          (case Compile C (Some g) psk of
             Inl e \<Rightarrow> Some (Inl e)
           | Inr cp \<Rightarrow>
               (case compile_window C seed psk cipher gen_no (Suc i) n of
                  None \<Rightarrow> None
                | Some (Inl e) \<Rightarrow> Some (Inl e)
                | Some (Inr cps) \<Rightarrow> Some (Inr (cp # cps)))))"

definition compileServerProtocols :: "crypto \<Rightarrow> core_config \<Rightarrow> (compiled_protocol list \<times> bytes) res option" where
  "compileServerProtocols C cfg =
     (case parseHex32 (c_seed cfg) of Inl e \<Rightarrow> Some (Inl e) | Inr seed \<Rightarrow>
      case parseHex32 (c_psk cfg) of Inl e \<Rightarrow> Some (Inl e) | Inr psk \<Rightarrow>
        map_option (\<lambda>r. res_bind r (\<lambda>cps. Inr (cps, psk)))
          (compile_window C seed psk (c_cipher cfg) (c_generation cfg) 0 (Suc (c_window cfg))))"

definition resolveShapeLadder :: "core_config \<Rightarrow> int list \<Rightarrow> int list" where
  "resolveShapeLadder cfg genomeLadder = (if c_shape cfg \<noteq> [] then c_shape cfg else genomeLadder)"

definition websocketPath :: "crypto \<Rightarrow> string \<Rightarrow> nat \<Rightarrow> string" where
  "websocketPath C seedHex gen_no =
     (case parseHex32 seedHex of
        Inl _ \<Rightarrow> ''/''
      | Inr seed \<Rightarrow>
          ''/'' @ hex_encode (take 8 (sha256 C (text_bytes (''chimera-pgc/0/websocket-path'' @ [CHR 0x00]) @ seed @ be_bytes 8 gen_no))))"

section \<open>Ports\<close>

text \<open>The loop of \<open>hopPortsForConfig\<close>: \<open>n\<close> of the 4096 counters are left.\<close>

definition hop_offset :: "crypto \<Rightarrow> bytes \<Rightarrow> nat \<Rightarrow> int \<Rightarrow> nat \<Rightarrow> int" where
  "hop_offset C seed gen_no spread counter =
     (let sum = hmac_sha256 C seed (text_bytes (''chimera-pgc/0/port-hop'' @ [CHR 0x00]) @ be_bytes 8 gen_no @ be_bytes 8 counter) in
      int (be_nat (take 8 sum) mod nat (spread - 1)) + 1)"

definition hop_candidate :: "crypto \<Rightarrow> bytes \<Rightarrow> nat \<Rightarrow> int \<Rightarrow> int \<Rightarrow> nat \<Rightarrow> int" where
  "hop_candidate C seed gen_no base spread counter =
     (let candidate = base + hop_offset C seed gen_no spread counter in
      if 65535 < candidate then 1024 + (candidate - 1024) mod (65535 - 1024 + 1) else candidate)"

fun hop_loop :: "crypto \<Rightarrow> bytes \<Rightarrow> nat \<Rightarrow> int \<Rightarrow> int \<Rightarrow> int \<Rightarrow> nat \<Rightarrow> int list \<Rightarrow> int list" where
  "hop_loop C seed gen_no base spread want 0 ports = ports"
| "hop_loop C seed gen_no base spread want (Suc n) ports =
     (if want \<le> int (length ports) then ports
      else let candidate = hop_candidate C seed gen_no base spread (4096 - Suc n) in
           if candidate = base \<or> candidate \<in> set ports
           then hop_loop C seed gen_no base spread want n ports
           else hop_loop C seed gen_no base spread want n (ports @ [candidate]))"

definition hop_spread :: "core_config \<Rightarrow> int" where
  "hop_spread cfg = (let spread = (if c_hop_spread cfg \<le> 0 then 2048 else c_hop_spread cfg) in if 60000 < spread then 60000 else spread)"

definition hopPortsForConfig :: "crypto \<Rightarrow> core_config \<Rightarrow> int list res" where
  "hopPortsForConfig C cfg =
     (case SplitHostPort (c_addr cfg) of
        None \<Rightarrow> Inl ErrConfig
      | Some (host, port) \<Rightarrow>
          (case parse_int64 port of
             None \<Rightarrow> Inl ErrConfig
           | Some base \<Rightarrow>
               if c_hop_count cfg \<le> 1 then
                 (if base < 0 \<or> 65535 < base then Inl ErrConfig else Inr [base])
               else if base < 1 \<or> 65535 < base then Inl ErrConfig
               else
                 res_bind (parseHex32 (c_seed cfg)) (\<lambda>seed.
                   if hop_spread cfg = 1 then Inl ErrPanic
                   else let ports = hop_loop C seed (c_generation cfg) base (hop_spread cfg) (c_hop_count cfg) 4096 [base] in
                        if int (length ports) < c_hop_count cfg then Inl ErrConfig
                        else Inr (sort ports))))"

definition hopAddrsForConfig :: "crypto \<Rightarrow> core_config \<Rightarrow> string list res" where
  "hopAddrsForConfig C cfg =
     res_bind (hopPortsForConfig C cfg) (\<lambda>ports.
       case SplitHostPort (c_addr cfg) of
         None \<Rightarrow> Inl ErrConfig
       | Some (host, _) \<Rightarrow> Inr (map (\<lambda>port. JoinHostPort host (int_string port)) ports))"

definition listenAddrsForPorts :: "core_config \<Rightarrow> int list \<Rightarrow> string list res" where
  "listenAddrsForPorts cfg ports =
     (case SplitHostPort (c_addr cfg) of
        None \<Rightarrow> Inl ErrConfig
      | Some (host, _) \<Rightarrow> Inr (map (\<lambda>port. JoinHostPort host (int_string port)) ports))"

section \<open>The server program's configuration\<close>

text \<open>\<open>time.Duration(n) * unit\<close> in 64 bits.\<close>

definition wrap64 :: "int \<Rightarrow> int" where
  "wrap64 n = (n + 2 ^ 63) mod 2 ^ 64 - 2 ^ 63"

definition DefaultJitterMax :: int where
  "DefaultJitterMax = 20 * 1000000"

record server_config =
  sc_listen :: string
  sc_transport :: string
  sc_decoy_mode :: stream_probe_mode
  sc_decoy_timeout :: int
  sc_decoy_pending :: int
  sc_decoy_every :: int
  sc_decoy_max :: int
  sc_hop_count :: int
  sc_hop_spread :: int
  sc_rotation :: int
  sc_shape :: "int list"
  sc_mark :: bytes
  sc_transports :: "string list"
  sc_tls_cert :: string
  sc_tls_key :: string
  sc_seed :: string
  sc_generation :: nat
  sc_psk :: string
  sc_cidr :: string
  sc_cipher :: "cipher_suite option"
  sc_keepalive :: int
  sc_idle :: int
  sc_rate :: int
  sc_max_sessions :: int
  sc_no_decoy :: bool
  sc_no_shape :: bool
  sc_jitter :: int
  sc_window :: "int option"
  sc_replay :: "string option"

definition toCoreConfig :: "server_config \<Rightarrow> core_config res" where
  "toCoreConfig s =
     (let jitter = (if sc_jitter s = 0 then DefaultJitterMax else if sc_jitter s < 0 then 0 else wrap64 (sc_jitter s * 1000000)) in
      if (case sc_window s of None \<Rightarrow> False | Some n \<Rightarrow> n < 0) then Inl ErrConfig
      else Inr \<lparr>c_seed = sc_seed s, c_generation = sc_generation s, c_psk = sc_psk s, c_addr = sc_listen s,
             c_transport = sc_transport s, c_mode = sc_decoy_mode s, c_decoy_timeout = wrap64 (sc_decoy_timeout s * second),
             c_decoy_pending = sc_decoy_pending s, c_decoy_every = sc_decoy_every s, c_decoy_max = sc_decoy_max s,
             c_hop_count = sc_hop_count s, c_hop_spread = sc_hop_spread s, c_rotation = wrap64 (sc_rotation s * second),
             c_transports = sc_transports s, c_tls_cert = sc_tls_cert s, c_tls_key = sc_tls_key s, c_tls_ca = [],
             c_tls_insecure = False, c_cidr = sc_cidr s, c_cipher = sc_cipher s, c_keepalive = wrap64 (sc_keepalive s * second),
             c_window = (case sc_window s of None \<Rightarrow> 2 | Some n \<Rightarrow> nat n), c_idle = wrap64 (sc_idle s * second),
             c_rate = wrap64 (sc_rate s * 1024), c_max_sessions = sc_max_sessions s, c_no_decoy = sc_no_decoy s, c_burst = 0,
             c_no_shape = sc_no_shape s, c_shape = sc_shape s, c_mark = sc_mark s, c_jitter = jitter,
             c_replay = (case sc_replay s of None \<Rightarrow> ''/var/lib/chimera/handshake.replay'' | Some r \<Rightarrow> r)\<rparr>)"

section \<open>Normalizing again\<close>

lemma hex_char_lower:
  assumes "n < 16"
  shows "hex_char n \<noteq> CHR ''x''" "\<not> is_space (hex_char n)"
proof -
  from assms have "n \<in> {0, 1, 2, 3, 4, 5, 6, 7, 8, 9, 10, 11, 12, 13, 14, 15}" by (simp only: insert_iff empty_iff) arith
  then show "hex_char n \<noteq> CHR ''x''" "\<not> is_space (hex_char n)" by (auto simp: hex_char_def is_space_def)
qed

lemma hex_encode_chars: "c \<in> set (hex_encode b) \<Longrightarrow> c \<noteq> CHR ''x'' \<and> \<not> is_space c"
proof (induction b)
  case (Cons x xs)
  have "unat x div 16 < 16" using unat_byte_less [of x] by (simp add: less_mult_imp_div_less)
  with Cons hex_char_lower [of "unat x div 16"] hex_char_lower [of "unat x mod 16"] show ?case by auto
qed simp

lemma strip_0x_id: "CHR ''x'' \<notin> set s \<Longrightarrow> strip_0x s = s"
  by (induction s rule: strip_0x.induct) auto

lemma parseHex32_encode [simp, roundtrip_simps]:
  assumes "length b = 32"
  shows "parseHex32 (hex_encode b) = Inr b"
proof -
  have "trim_space (hex_encode b) = hex_encode b"
  proof (rule trim_space_id)
    have "hex_encode b \<noteq> []" using assms by (cases b) auto
    then show "hex_encode b = [] \<or> \<not> is_space (hd (hex_encode b)) \<and> \<not> is_space (last (hex_encode b))"
      using hex_encode_chars hd_in_set last_in_set by blast
  qed
  moreover have "strip_0x (hex_encode b) = hex_encode b" by (rule strip_0x_id) (use hex_encode_chars in blast)
  ultimately show ?thesis using assms by (simp add: parseHex32_def)
qed

lemma parseHex32_length: "parseHex32 s = Inr b \<Longrightarrow> length b = 32"
  by (auto simp: parseHex32_def split: option.splits if_splits)

lemma known_transport_normal: "known_transport t \<Longrightarrow> to_lower (trim_space t) = t"
proof -
  have chk: "\<forall>t \<in> set [''udp'', ''tcp'', ''websocket'', ''wss'', ''http'', ''https'']. to_lower (trim_space t) = t" by code_simp
  assume "known_transport t"
  then have "t \<in> set [''udp'', ''tcp'', ''websocket'', ''wss'', ''http'', ''https'']" by (simp add: known_transport_def)
  from bspec [OF chk this] show "to_lower (trim_space t) = t" .
qed

lemma known_transport_text: "known_transport t \<Longrightarrow> t \<noteq> []"
  by (auto simp: known_transport_def)

lemma add_transports_known:
  "add_transports trs acc = Inr ts \<Longrightarrow> \<forall>t \<in> set acc. known_transport t \<Longrightarrow> distinct acc \<Longrightarrow>
     (\<forall>t \<in> set ts. known_transport t) \<and> distinct ts"
proof (induction trs arbitrary: acc)
  case (Cons tr trs)
  define t where "t = to_lower (trim_space tr)"
  show ?case
  proof (cases "t = []")
    case True
    with Cons show ?thesis by (simp add: t_def)
  next
    case False
    with Cons.prems(1) have k: "known_transport t" and r: "add_transports trs (if t \<in> set acc then acc else acc @ [t]) = Inr ts"
      by (simp_all add: Let_def flip: t_def)
    show ?thesis by (rule Cons.IH [OF r]) (use k Cons.prems(2,3) in auto)
  qed
qed simp

lemma add_transports_again:
  "\<forall>t \<in> set ts. known_transport t \<Longrightarrow> distinct (acc @ ts) \<Longrightarrow> add_transports ts acc = Inr (acc @ ts)"
proof (induction ts arbitrary: acc)
  case (Cons t ts)
  then have "to_lower (trim_space t) = t" "t \<noteq> []" by (simp_all add: known_transport_normal known_transport_text)
  with Cons.IH [of "acc @ [t]"] Cons.prems show ?case by simp
qed simp

text \<open>What a normalized configuration satisfies.\<close>

definition transports_normal :: "core_config \<Rightarrow> bool" where
  "transports_normal c \<longleftrightarrow>
     c_transports c \<noteq> [] \<and> (\<forall>t \<in> set (c_transports c). known_transport t) \<and> distinct (c_transports c) \<and>
     c_transport c = hd (c_transports c) \<and> NormalizeStreamProbeMode (c_mode c) = Inr (c_mode c)"

definition limits_normal :: "core_config \<Rightarrow> bool" where
  "limits_normal c \<longleftrightarrow>
     1 \<le> c_hop_count c \<and> c_hop_count c \<le> 16 \<and> (1 < c_hop_count c \<longrightarrow> 0 < c_hop_spread c) \<and> 0 \<le> c_rotation c \<and>
     1 \<le> c_burst c \<and> c_burst c \<le> 8 \<and> normalize_buckets (c_shape c) = Inr (c_shape c) \<and> ValidateProbeMark (c_mark c) = Inr () \<and>
     (case c_cipher c of None \<Rightarrow> True | Some cs \<Rightarrow> knownCipher cs) \<and> c_window c \<le> MaxGenerationWindow \<and>
     0 \<le> c_jitter c \<and> c_jitter c \<le> MaxJitterMax"

lemma normalize_transports_normal:
  assumes "normalize_transports cfg = Inr c"
  obtains ts mode where "c = cfg\<lparr>c_transports := ts, c_transport := hd ts, c_mode := mode\<rparr>" "transports_normal c"
proof -
  define t where "t = (if to_lower (trim_space (c_transport cfg)) = [] then ''udp'' else to_lower (trim_space (c_transport cfg)))"
  from assms obtain ts mode where ts: "add_transports (if c_transports cfg = [] then [t] else c_transports cfg) [] = Inr ts"
      "known_transport t" "NormalizeStreamProbeMode (c_mode cfg) = Inr mode"
    and c: "c = cfg\<lparr>c_transports := (if ts = [] then [t] else ts), c_transport := hd (if ts = [] then [t] else ts), c_mode := mode\<rparr>"
    by (auto simp: normalize_transports_def Let_def t_def split: if_splits)
  define ts1 where "ts1 = (if ts = [] then [t] else ts)"
  have k: "\<forall>t \<in> set ts1. known_transport t" "distinct ts1" "ts1 \<noteq> []"
    using add_transports_known [OF ts(1)] ts(2) by (simp_all add: ts1_def)
  have m: "NormalizeStreamProbeMode mode = Inr mode"
    using ts(3) by (auto simp: NormalizeStreamProbeMode_def split: stream_probe_mode.splits if_splits)
  have c1: "c = cfg\<lparr>c_transports := ts1, c_transport := hd ts1, c_mode := mode\<rparr>" using c by (simp add: ts1_def)
  show thesis by (rule that [OF c1]) (use k m in \<open>simp add: transports_normal_def c1\<close>)
qed

lemma normalize_transports_id:
  assumes "transports_normal c"
  shows "normalize_transports c = Inr c"
proof -
  have c: "c_transports c \<noteq> []" "\<forall>t \<in> set (c_transports c). known_transport t" "distinct (c_transports c)"
    "c_transport c = hd (c_transports c)" "NormalizeStreamProbeMode (c_mode c) = Inr (c_mode c)"
    using assms by (simp_all add: transports_normal_def)
  have h: "known_transport (c_transport c)" using c(1,2,4) by simp
  have "add_transports (c_transports c) [] = Inr (c_transports c)" using add_transports_again [of "c_transports c" "[]"] c(2,3) by simp
  with c(1,4,5) h show ?thesis
    by (simp add: normalize_transports_def known_transport_normal [OF h] known_transport_text [OF h] Let_def flip: c(4))
qed

lemma normalize_buckets_again:
  assumes "normalize_buckets bs = Inr cs"
  shows "normalize_buckets cs = Inr cs"
proof (cases "bs = []")
  case False
  define ss where "ss = sort bs"
  define bad where "bad = (\<lambda>xs. list_ex (\<lambda>b. b < 64 \<or> 1452 < b) xs \<or> \<not> distinct_adj (xs :: int list))"
  have eq: "normalize_buckets xs = (if 16 < length xs then Inl ErrConfig else if bad (sort xs) then Inl ErrConfig else Inr (sort xs))"
    if "xs \<noteq> []" for xs using that by (simp only: normalize_buckets_def Let_def bad_def if_False)
  have ss: "ss \<noteq> []" "length ss = length bs" "sort ss = ss"
    using False set_empty [of ss] by (auto simp: ss_def sorted_sort_id)
  from assms have r: "\<not> 16 < length bs \<and> \<not> bad ss \<and> ss = cs"
    unfolding eq [OF False] ss_def [symmetric] if_Inl_eq_Inr sum.inject .
  then have nb: "\<not> 16 < length bs" "\<not> bad ss" and cs: "cs = ss" by blast+
  show ?thesis unfolding cs eq [OF ss(1)] ss(2,3) using nb by simp
qed (use assms in \<open>simp add: normalize_buckets_def\<close>)

lemma normalize_limits_normal:
  assumes "normalize_limits cfg = Inr c"
  obtains want spread rotation burst buckets jitter where
    "c = cfg\<lparr>c_hop_count := want, c_hop_spread := spread, c_rotation := rotation, c_burst := burst, c_shape := buckets,
       c_jitter := jitter\<rparr>" "limits_normal c"
proof -
  define want where "want = (if c_hop_count cfg = 0 then 1 else c_hop_count cfg)"
  note assms [unfolded normalize_limits_def Let_def, folded want_def, unfolded if_Inl_eq_Inr res_bind_Inr_iff sum.inject]
  then obtain buckets u where b: "normalize_buckets (c_shape cfg) = Inr buckets" "ValidateProbeMark (c_mark cfg) = Inr u"
    and want: "\<not> c_hop_count cfg < 0" "\<not> 16 < want"
    and lim: "\<not> (case c_cipher cfg of None \<Rightarrow> False | Some cs \<Rightarrow> \<not> knownCipher cs)" "\<not> MaxGenerationWindow < c_window cfg"
      "\<not> MaxJitterMax < c_jitter cfg"
    and c: "cfg\<lparr>c_hop_count := want, c_hop_spread := (if 1 < want \<and> c_hop_spread cfg \<le> 0 then 2048 else c_hop_spread cfg),
        c_rotation := max 0 (c_rotation cfg), c_burst := normalize_burst (c_burst cfg), c_shape := buckets,
        c_jitter := max 0 (c_jitter cfg)\<rparr> = c"
    by (elim conjE exE) (rule that; assumption?)
  have "1 \<le> want" using want(1) by (simp add: want_def)
  moreover have "1 \<le> normalize_burst n" "normalize_burst n \<le> 8" for n by (simp_all add: normalize_burst_def)
  moreover have "max 0 (c_jitter cfg) \<le> MaxJitterMax" using lim(3) by (simp add: MaxJitterMax_def second_def)
  moreover have "case c_cipher cfg of None \<Rightarrow> True | Some cs \<Rightarrow> knownCipher cs" using lim(1) by (cases "c_cipher cfg") simp_all
  ultimately have "limits_normal c"
    using want(2) lim(2) b(2) normalize_buckets_again [OF b(1)] by (simp add: limits_normal_def flip: c)
  with that [OF c [symmetric]] show thesis .
qed

lemma normalize_limits_id:
  assumes "limits_normal c"
  shows "normalize_limits c = Inr c"
proof -
  from assms have n: "\<not> c_hop_count c < 0" "\<not> 16 < c_hop_count c" "\<not> MaxGenerationWindow < c_window c" "\<not> MaxJitterMax < c_jitter c"
      "normalize_buckets (c_shape c) = Inr (c_shape c)" "ValidateProbeMark (c_mark c) = Inr ()"
    and same: "(if c_hop_count c = 0 then 1 else c_hop_count c) = c_hop_count c"
      "(if 1 < c_hop_count c \<and> c_hop_spread c \<le> 0 then 2048 else c_hop_spread c) = c_hop_spread c"
      "max 0 (c_rotation c) = c_rotation c" "normalize_burst (c_burst c) = c_burst c" "max 0 (c_jitter c) = c_jitter c"
    by (auto simp: limits_normal_def normalize_burst_def)
  have k: "\<not> (case c_cipher c of None \<Rightarrow> False | Some cs \<Rightarrow> \<not> knownCipher cs)"
    using assms by (cases "c_cipher c") (simp_all add: limits_normal_def)
  show ?thesis unfolding normalize_limits_def Let_def same by (simp only: n k if_False res_bind_simps) simp
qed

text \<open>The noise settings are the only part that a second normalization changes.\<close>

definition config_normal :: "core_config \<Rightarrow> bool" where
  "config_normal c \<longleftrightarrow>
     (\<exists>seed psk. length seed = 32 \<and> length psk = 32 \<and> c_seed c = hex_encode seed \<and> c_psk c = hex_encode psk) \<and>
     trim_space (c_addr c) \<noteq> [] \<and> transports_normal c \<and> limits_normal c \<and> 0 < c_decoy_timeout c \<and> 0 < c_decoy_pending c"

lemma normalize_noise_conv:
  obtains every most where "normalize_noise c = c\<lparr>c_decoy_every := every, c_decoy_max := most\<rparr>"
    "every = c_decoy_every (normalize_noise c)" "most = c_decoy_max (normalize_noise c)"
proof -
  have "\<exists>every most. normalize_noise c = c\<lparr>c_decoy_every := every, c_decoy_max := most\<rparr>"
    unfolding normalize_noise_def Let_def by (metis (no_types))
  then obtain every most where "normalize_noise c = c\<lparr>c_decoy_every := every, c_decoy_max := most\<rparr>" by blast
  moreover from this have "every = c_decoy_every (normalize_noise c)" "most = c_decoy_max (normalize_noise c)" by simp_all
  ultimately show thesis by (rule that)
qed

lemma NormalizeConfig_normal:
  assumes "NormalizeConfig cfg = Inr c"
  shows "config_normal c" and "c_decoy_every c = c_decoy_every (normalize_noise cfg)" and "c_decoy_max c = c_decoy_max (normalize_noise cfg)"
proof -
  note assms [unfolded NormalizeConfig_def Let_def, unfolded res_bind_Inr_iff if_Inl_eq_Inr sum.inject]
  then obtain seed psk cfg1 cfg3 where seeds: "parseHex32 (c_seed cfg) = Inr seed" "parseHex32 (c_psk cfg) = Inr psk"
    and addr: "trim_space (c_addr cfg) \<noteq> []" and t: "normalize_transports cfg = Inr cfg1"
    and l: "normalize_limits (normalize_noise (cfg1\<lparr>
                 c_decoy_timeout := (if c_decoy_timeout cfg1 \<le> 0 then DefaultStreamProbeTimeout else c_decoy_timeout cfg1),
                 c_decoy_pending := (if c_decoy_pending cfg1 \<le> 0 then DefaultStreamProbeMaxPending else c_decoy_pending cfg1)\<rparr>)) = Inr cfg3"
    and c: "cfg3\<lparr>c_seed := hex_encode seed, c_psk := hex_encode psk\<rparr> = c"
    by (elim conjE exE) (rule that; assumption?)
  obtain ts mode where c1: "cfg1 = cfg\<lparr>c_transports := ts, c_transport := hd ts, c_mode := mode\<rparr>" "transports_normal cfg1"
    by (rule normalize_transports_normal [OF t])
  define cfg2 where "cfg2 = cfg1\<lparr>
                 c_decoy_timeout := (if c_decoy_timeout cfg1 \<le> 0 then DefaultStreamProbeTimeout else c_decoy_timeout cfg1),
                 c_decoy_pending := (if c_decoy_pending cfg1 \<le> 0 then DefaultStreamProbeMaxPending else c_decoy_pending cfg1)\<rparr>"
  obtain every most where nn: "normalize_noise cfg2 = cfg2\<lparr>c_decoy_every := every, c_decoy_max := most\<rparr>"
      "every = c_decoy_every (normalize_noise cfg2)" "most = c_decoy_max (normalize_noise cfg2)" by (rule normalize_noise_conv)
  have ne: "every = c_decoy_every (normalize_noise cfg)" "most = c_decoy_max (normalize_noise cfg)"
    unfolding nn(2,3) by (simp_all add: normalize_noise_def Let_def cfg2_def c1(1))
  obtain want spread rotation burst buckets jitter where
    c3: "cfg3 = (normalize_noise cfg2)\<lparr>c_hop_count := want, c_hop_spread := spread, c_rotation := rotation, c_burst := burst,
       c_shape := buckets, c_jitter := jitter\<rparr>" "limits_normal cfg3"
    by (rule normalize_limits_normal [OF l [folded cfg2_def]])
  have f: "c_transports c = c_transports cfg1" "c_transport c = c_transport cfg1" "c_mode c = c_mode cfg1" "c_addr c = c_addr cfg"
      "c_decoy_timeout c = c_decoy_timeout cfg2" "c_decoy_pending c = c_decoy_pending cfg2" "c_decoy_every c = every" "c_decoy_max c = most"
    unfolding c [symmetric] c3(1) nn(1) by (simp_all add: cfg2_def c1(1))
  have "transports_normal c" using c1(2) unfolding transports_normal_def f by simp
  moreover have "limits_normal c" using c3(2) by (simp add: limits_normal_def flip: c)
  moreover have "0 < c_decoy_timeout c" "0 < c_decoy_pending c"
    by (simp_all add: f cfg2_def DefaultStreamProbeTimeout_def DefaultStreamProbeMaxPending_def second_def)
  moreover have "trim_space (c_addr c) \<noteq> []" using addr by (simp add: f)
  moreover have "c_seed c = hex_encode seed" "c_psk c = hex_encode psk" by (simp_all flip: c)
  ultimately show "config_normal c"
    using parseHex32_length [OF seeds(1)] parseHex32_length [OF seeds(2)] unfolding config_normal_def by blast
  show "c_decoy_every c = c_decoy_every (normalize_noise cfg)" "c_decoy_max c = c_decoy_max (normalize_noise cfg)"
    unfolding f ne by simp_all
qed

lemma NormalizeConfig_id:
  assumes "config_normal c"
  shows "NormalizeConfig c = Inr (normalize_noise c)"
proof -
  obtain seed psk where s: "length seed = 32" "length psk = 32" "c_seed c = hex_encode seed" "c_psk c = hex_encode psk"
    using assms by (auto simp: config_normal_def)
  have p: "parseHex32 (c_seed c) = Inr seed" "parseHex32 (c_psk c) = Inr psk" by (simp_all add: s)
  have n: "trim_space (c_addr c) \<noteq> []" "normalize_transports c = Inr c" "limits_normal c"
      "\<not> c_decoy_timeout c \<le> 0" "\<not> c_decoy_pending c \<le> 0"
    using assms by (simp_all add: config_normal_def normalize_transports_id)
  obtain every most where nn: "normalize_noise c = c\<lparr>c_decoy_every := every, c_decoy_max := most\<rparr>" by (rule normalize_noise_conv)
  have "limits_normal (normalize_noise c)" using n(3) by (simp add: limits_normal_def nn)
  then have l: "normalize_limits (normalize_noise c) = Inr (normalize_noise c)" by (rule normalize_limits_id)
  have same: "c\<lparr>c_decoy_timeout := c_decoy_timeout c, c_decoy_pending := c_decoy_pending c\<rparr> = c" by simp
  have "NormalizeConfig c = Inr (normalize_noise c\<lparr>c_seed := hex_encode seed, c_psk := hex_encode psk\<rparr>)"
    unfolding NormalizeConfig_def Let_def p n(2) by (simp only: n(1,4,5) if_False res_bind_simps same l)
  also have "normalize_noise c\<lparr>c_seed := hex_encode seed, c_psk := hex_encode psk\<rparr> = normalize_noise c"
    by (simp add: nn flip: s(3,4))
  finally show ?thesis .
qed

lemma normalize_again:
  assumes "NormalizeConfig cfg = Inr c"
  shows "NormalizeConfig c = Inr (normalize_noise c)" and "c_decoy_every c \<noteq> 0 \<Longrightarrow> NormalizeConfig c = Inr c"
proof -
  note N = NormalizeConfig_normal [OF assms]
  show "NormalizeConfig c = Inr (normalize_noise c)" by (rule NormalizeConfig_id [OF N(1)])
  assume "c_decoy_every c \<noteq> 0"
  with N(2,3) have "0 < c_decoy_every c" "0 < c_decoy_max c" by (auto simp: normalize_noise_def Let_def split: if_splits)
  then have "normalize_noise c = c" by (simp add: normalize_noise_def)
  with NormalizeConfig_id [OF N(1)] show "NormalizeConfig c = Inr c" by simp
qed

section \<open>The port sequence\<close>

lemma hop_candidate_range: "1 \<le> base \<Longrightarrow> base \<le> 65535 \<Longrightarrow> hop_candidate C seed gen_no base spread counter \<in> {1 .. 65535}"
proof -
  assume base: "1 \<le> base" "base \<le> 65535"
  have "1 \<le> hop_offset C seed gen_no spread counter" by (simp add: hop_offset_def Let_def)
  moreover have "0 \<le> (base + hop_offset C seed gen_no spread counter - 1024) mod 64512"
    "(base + hop_offset C seed gen_no spread counter - 1024) mod 64512 < 64512" by simp_all
  moreover have "hop_candidate C seed gen_no base spread counter =
      (if 65535 < base + hop_offset C seed gen_no spread counter
       then 1024 + (base + hop_offset C seed gen_no spread counter - 1024) mod 64512
       else base + hop_offset C seed gen_no spread counter)"
    by (simp add: hop_candidate_def Let_def)
  ultimately show ?thesis using base by auto
qed

lemma hop_loop_ok:
  assumes "1 \<le> base" "base \<le> 65535" "distinct ports" "base \<in> set ports" "set ports \<subseteq> {1 .. 65535}" "int (length ports) \<le> want"
    "hop_loop C seed gen_no base spread want n ports = qs"
  shows "distinct qs \<and> base \<in> set qs \<and> set qs \<subseteq> {1 .. 65535} \<and> int (length qs) \<le> want"
  using assms(3-)
proof (induction n arbitrary: ports)
  case (Suc n)
  define candidate where "candidate = hop_candidate C seed gen_no base spread (4096 - Suc n)"
  have cand: "candidate \<in> {1 .. 65535}" unfolding candidate_def by (rule hop_candidate_range [OF assms(1,2)])
  consider "want \<le> int (length ports)" | "\<not> want \<le> int (length ports)" "candidate = base \<or> candidate \<in> set ports"
    | "\<not> want \<le> int (length ports)" "\<not> (candidate = base \<or> candidate \<in> set ports)" by blast
  then show ?case
  proof cases
    case 1
    with Suc.prems show ?thesis by simp
  next
    case 2
    with Suc.prems(5) [unfolded hop_loop.simps Let_def, folded candidate_def] have "hop_loop C seed gen_no base spread want n ports = qs" by simp
    with Suc.IH Suc.prems(1-4) show ?thesis by blast
  next
    case 3
    with Suc.prems(5) [unfolded hop_loop.simps Let_def, folded candidate_def]
    have r: "hop_loop C seed gen_no base spread want n (ports @ [candidate]) = qs" by simp
    show ?thesis by (rule Suc.IH [OF _ _ _ _ r]) (use Suc.prems(1-4) 3 cand in auto)
  qed
qed simp

lemma hop_spread_updates [simp]:
  "hop_spread (c\<lparr>c_addr := a\<rparr>) = hop_spread c" "hop_spread (c\<lparr>c_hop_spread := 1\<rparr>) = 1"
  by (simp_all add: hop_spread_def)

lemma hopPorts_cases:
  assumes "SplitHostPort (c_addr c) = Some (host, port)" "1 < c_hop_count c" "hopPortsForConfig C c = Inr ports"
  obtains base seed where "parse_int64 port = Some base" "1 \<le> base" "base \<le> 65535"
    "\<not> int (length (hop_loop C seed (c_generation c) base (hop_spread c) (c_hop_count c) 4096 [base])) < c_hop_count c"
    "ports = sort (hop_loop C seed (c_generation c) base (hop_spread c) (c_hop_count c) 4096 [base])"
proof -
  from assms(3) obtain base where base: "parse_int64 port = Some base"
    by (auto simp: hopPortsForConfig_def assms(1) split: option.splits)
  from assms(3) [unfolded hopPortsForConfig_def assms(1) base option.case prod.case Let_def] assms(2) obtain seed where
    "\<not> (base < 1 \<or> 65535 < base)"
    "\<not> int (length (hop_loop C seed (c_generation c) base (hop_spread c) (c_hop_count c) 4096 [base])) < c_hop_count c"
    "sort (hop_loop C seed (c_generation c) base (hop_spread c) (c_hop_count c) 4096 [base]) = ports"
    unfolding if_Inl_eq_Inr res_bind_Inr_iff sum.inject by auto
  with that [of base seed] base show thesis by auto
qed

text \<open>
  The port sequence: with hopping on, a successful derivation gives exactly the configured
  number of distinct ports in increasing order, all of them valid and the base port among
  them, and it depends on the address only through its port, so a client and a server that
  share seed, generation, base port, number and spread derive the same sequence. A spread of
  one divides by zero.
\<close>
theorem hop_ports_agree:
  assumes "SplitHostPort (c_addr c) = Some (host, port)" "1 < c_hop_count c"
  shows "(\<forall>ports. hopPortsForConfig C c = Inr ports \<longrightarrow>
       int (length ports) = c_hop_count c \<and> distinct ports \<and> sorted ports \<and> set ports \<subseteq> {1 .. 65535} \<and>
       (\<exists>base \<in> set ports. parse_int64 port = Some base)) \<and>
     (\<forall>other host'. SplitHostPort other = Some (host', port) \<longrightarrow> hopPortsForConfig C (c\<lparr>c_addr := other\<rparr>) = hopPortsForConfig C c) \<and>
     (\<forall>base. parse_int64 port = Some base \<and> 1 \<le> base \<and> base \<le> 65535 \<and> is_ok (parseHex32 (c_seed c)) \<longrightarrow>
       hopPortsForConfig C (c\<lparr>c_hop_spread := 1\<rparr>) = Inl ErrPanic)"
proof (intro conjI allI impI)
  fix ports
  assume "hopPortsForConfig C c = Inr ports"
  then obtain base seed where b: "parse_int64 port = Some base" "1 \<le> base" "base \<le> 65535"
    and q: "\<not> int (length (hop_loop C seed (c_generation c) base (hop_spread c) (c_hop_count c) 4096 [base])) < c_hop_count c"
      "ports = sort (hop_loop C seed (c_generation c) base (hop_spread c) (c_hop_count c) 4096 [base])"
    by (rule hopPorts_cases [OF assms])
  have "int (length [base]) \<le> c_hop_count c" using assms(2) by simp
  from hop_loop_ok [OF b(2,3) _ _ _ this refl, of C seed "c_generation c" "hop_spread c" 4096] b(2,3) q
  have "distinct ports \<and> base \<in> set ports \<and> set ports \<subseteq> {1 .. 65535} \<and> int (length ports) = c_hop_count c \<and> sorted ports"
    by simp
  with b(1) show "int (length ports) = c_hop_count c" "distinct ports" "sorted ports" "set ports \<subseteq> {1 .. 65535}"
    "\<exists>base \<in> set ports. parse_int64 port = Some base" by blast+
next
  fix other host'
  assume "SplitHostPort other = Some (host', port)"
  with assms show "hopPortsForConfig C (c\<lparr>c_addr := other\<rparr>) = hopPortsForConfig C c"
    by (cases "parse_int64 port") (simp_all add: hopPortsForConfig_def Let_def del: hop_loop.simps cong: if_cong)
next
  fix base
  assume "parse_int64 port = Some base \<and> 1 \<le> base \<and> base \<le> 65535 \<and> is_ok (parseHex32 (c_seed c))"
  then obtain seed where b: "parse_int64 port = Some base" "1 \<le> base" "base \<le> 65535" and seed: "parseHex32 (c_seed c) = Inr seed"
    by (auto simp: is_ok_iff)
  have "\<not> c_hop_count c \<le> 1" "\<not> (base < 1 \<or> 65535 < base)" using b assms(2) by auto
  with assms(1) b(1) seed show "hopPortsForConfig C (c\<lparr>c_hop_spread := 1\<rparr>) = Inl ErrPanic"
    by (simp add: hopPortsForConfig_def del: hop_loop.simps)
qed

text \<open>A configuration for the witnesses.\<close>

definition sample_config :: core_config where
  "sample_config = \<lparr>c_seed = hex_encode (replicate 32 7), c_generation = 5, c_psk = hex_encode (replicate 32 9), c_addr = ''h:80'',
     c_transport = ''udp'', c_mode = StreamProbeSilent, c_decoy_timeout = 0, c_decoy_pending = 0, c_decoy_every = 0, c_decoy_max = 0,
     c_hop_count = 3, c_hop_spread = 0, c_rotation = 60 * second, c_transports = [], c_tls_cert = [], c_tls_key = [], c_tls_ca = [],
     c_tls_insecure = False, c_cidr = ''10.99.0.0/24'', c_cipher = None, c_keepalive = 0, c_window = 2, c_idle = 0, c_rate = 0,
     c_max_sessions = 0, c_no_decoy = False, c_burst = 0, c_no_shape = False, c_shape = [], c_mark = [], c_jitter = 0, c_replay = []\<rparr>"

lemma sample_address: "SplitHostPort ''h:80'' = Some (''h'', ''80'')" "SplitHostPort ''0.0.0.0:80'' = Some (''0.0.0.0'', ''80'')"
  by code_simp+

lemma sample_port: "parse_int64 ''80'' = Some 80"
proof -
  have "char_of (56 :: nat) = CHR ''8''" "char_of (48 :: nat) = CHR ''0''" by code_simp+
  then have "int_string 80 = ''80''" by (simp add: int_string_def dec_string.simps)
  with parse_int_string [of 80] show ?thesis by simp
qed

theorem hop_ports_agree_witness:
  "hopPortsForConfig demo_crypto (sample_config\<lparr>c_addr := ''0.0.0.0:80''\<rparr>) = hopPortsForConfig demo_crypto sample_config \<and>
   hopPortsForConfig demo_crypto (sample_config\<lparr>c_hop_spread := 1\<rparr>) = Inl ErrPanic"
proof -
  have a: "SplitHostPort (c_addr sample_config) = Some (''h'', ''80'')" "1 < c_hop_count sample_config"
    by (simp_all add: sample_config_def sample_address)
  have "is_ok (parseHex32 (c_seed sample_config))" by (simp add: sample_config_def del: hex_encode.simps replicate.simps)
  with hop_ports_agree [OF a, of demo_crypto] sample_address(2) sample_port show ?thesis by simp
qed

end
