(* ===== verification/Address_Pool.thy ===== *)
theory Address_Pool
  imports Net_Text "HOL-Library.Multiset"
begin

text \<open>
  The pool of client addresses (\<open>core/assign.go\<close>) and the interface \<open>allocator\<close> that its
  users rely on: an address that is handed out was free and is held from then on, giving it
  back frees it and nothing else, and the pool refuses only when nothing is free. The clients'
  lemma is that the leases of any history are pairwise distinct.
\<close>

section \<open>The interface\<close>

locale allocator =
  fixes alloc :: "'p \<Rightarrow> ('a \<times> 'p) option"
    and free :: "'a \<Rightarrow> 'p \<Rightarrow> 'p"
    and held :: "'p \<Rightarrow> 'a set"
    and stock :: "'p \<Rightarrow> 'a set"
    and inv :: "'p \<Rightarrow> bool"
  assumes alloc_Some: "inv p \<Longrightarrow> alloc p = Some (a, p') \<Longrightarrow>
      a \<in> stock p \<and> a \<notin> held p \<and> held p' = insert a (held p) \<and> stock p' = stock p \<and> inv p'"
    and alloc_None: "inv p \<Longrightarrow> alloc p = None \<Longrightarrow> stock p \<subseteq> held p"
    and free_held: "inv p \<Longrightarrow> a \<in> stock p \<Longrightarrow> held (free a p) = held p - {a} \<and> stock (free a p) = stock p \<and> inv (free a p)"
    and held_stock: "inv p \<Longrightarrow> held p \<subseteq> stock p"
begin

text \<open>The leases that are out, in the order they were granted, agree with the pool.\<close>

definition leased :: "'a list \<Rightarrow> 'p \<Rightarrow> bool" where
  "leased ls p \<longleftrightarrow> inv p \<and> distinct ls \<and> set ls = held p"

lemma leased_grant: "leased ls p \<Longrightarrow> alloc p = Some (a, p') \<Longrightarrow> leased (ls @ [a]) p' \<and> stock p' = stock p"
  using alloc_Some by (auto simp: leased_def)

lemma leased_return: "leased ls p \<Longrightarrow> a \<in> set ls \<Longrightarrow> leased (remove1 a ls) (free a p) \<and> stock (free a p) = stock p"
  using free_held held_stock by (auto simp: leased_def set_remove1_eq)

lemma leased_refused: "leased ls p \<Longrightarrow> alloc p = None \<Longrightarrow> set ls = stock p"
  using alloc_None held_stock by (auto simp: leased_def)

lemma leased_within: "leased ls p \<Longrightarrow> distinct ls \<and> set ls \<subseteq> stock p"
  using held_stock by (auto simp: leased_def)

lemma leased_mset:
  assumes "leased ls p" "mset ls' = mset ls"
  shows "leased ls' p"
proof -
  have "set ls' = set ls" by (rule mset_eq_setD [OF assms(2)])
  moreover have "distinct ls' = distinct ls" by (rule mset_eq_imp_distinct_iff [OF assms(2)])
  ultimately show ?thesis using assms(1) by (simp add: leased_def)
qed

lemma freed_again: "inv p \<Longrightarrow> a \<in> stock p \<Longrightarrow> \<exists>b p'. alloc (free a p) = Some (b, p')"
proof (rule ccontr)
  assume p: "inv p" "a \<in> stock p" and "\<nexists>b p'. alloc (free a p) = Some (b, p')"
  then have "alloc (free a p) = None" by (cases "alloc (free a p)") auto
  with alloc_None [of "free a p"] free_held [OF p] p(2) show False by auto
qed

end

section \<open>The pool\<close>

record address_pool =
  ap_ip :: "32 word"
  ap_prefix :: nat
  ap_count :: nat
  ap_bits :: "64 word list"
  ap_hint :: nat

definition be32 :: "bytes \<Rightarrow> 32 word" where
  "be32 b = of_nat (be_nat (take 4 b))"

definition newAddressPool :: "string \<Rightarrow> address_pool res" where
  "newAddressPool cidr =
     (case ParseCIDR cidr of
        None \<Rightarrow> Inl ErrConfig
      | Some (ip, ones, bits) \<Rightarrow>
          (case to4 ip of
             None \<Rightarrow> Inl ErrConfig
           | Some ip4 \<Rightarrow>
               if int ones > int bits - 2 then Inl ErrConfig
               else let count = sint (push_bit (bits - ones) 1 - 3 :: 64 word) in
                    if count \<le> 0 then Inl ErrConfig
                    else if 2 ^ 63 \<le> count + 63 then Inl ErrPanic
                    else Inr \<lparr>ap_ip = be32 ip4 AND be32 (cidr_mask ones bits), ap_prefix = ones, ap_count = nat count,
                              ap_bits = replicate ((nat count + 63) div 64) 0, ap_hint = 0\<rparr>))"

definition ap_taken :: "address_pool \<Rightarrow> nat \<Rightarrow> bool" where
  "ap_taken p idx \<longleftrightarrow> (ap_bits p ! (idx div 64)) AND push_bit (idx mod 64) 1 \<noteq> 0"

definition ipString :: "address_pool \<Rightarrow> nat \<Rightarrow> string" where
  "ipString p idx = quad_string (be_bytes 4 (unat (ap_ip p + of_nat (idx + 2))))"

definition pool_index :: "address_pool \<Rightarrow> string \<Rightarrow> nat option" where
  "pool_index p ip =
     (case parse_ip ip of
        None \<Rightarrow> None
      | Some parsed \<Rightarrow>
          (case to4 parsed of
             None \<Rightarrow> None
           | Some ip4 \<Rightarrow>
               let v = be32 ip4 in
               if v < ap_ip p + 2 \<or> ap_ip p + of_nat (ap_count p + 2) \<le> v then None
               else Some (unat (v - ap_ip p - 2))))"

text \<open>The search of \<open>Allocate\<close>: from the hint on, around the end, at most \<open>n\<close> more probes.\<close>

fun first_free :: "address_pool \<Rightarrow> nat \<Rightarrow> nat \<Rightarrow> nat option" where
  "first_free p i 0 = None"
| "first_free p i (Suc n) =
     (let idx = (ap_hint p + i) mod ap_count p in
      if \<not> ap_taken p idx then Some idx else first_free p (Suc i) n)"

definition Allocate :: "address_pool \<Rightarrow> (string \<times> address_pool) option" where
  "Allocate p =
     (case first_free p 0 (ap_count p) of
        None \<Rightarrow> None
      | Some idx \<Rightarrow>
          Some (ipString p idx,
                p\<lparr>ap_bits := (ap_bits p)[idx div 64 := (ap_bits p ! (idx div 64)) OR push_bit (idx mod 64) 1],
                  ap_hint := (idx + 1) mod ap_count p\<rparr>))"

definition Release :: "string \<Rightarrow> address_pool \<Rightarrow> address_pool" where
  "Release ip p =
     (case pool_index p ip of
        None \<Rightarrow> p
      | Some idx \<Rightarrow>
          p\<lparr>ap_bits := (ap_bits p)[idx div 64 := (ap_bits p ! (idx div 64)) AND NOT (push_bit (idx mod 64) 1)],
            ap_hint := (if idx < ap_hint p then idx else ap_hint p)\<rparr>)"

section \<open>The bit set\<close>

lemma taken_bit: "ap_taken p idx \<longleftrightarrow> bit (ap_bits p ! (idx div 64)) (idx mod 64)"
  by (simp add: ap_taken_def bit_iff_and_push_bit_not_eq_0)

lemma div_mod_same: "i div 64 = j div 64 \<Longrightarrow> i mod 64 = j mod 64 \<Longrightarrow> i = (j :: nat)"
  by (metis div_mult_mod_eq)

lemma bit_power: "n < 64 \<Longrightarrow> bit (2 ^ n :: 64 word) m \<longleftrightarrow> m = n"
  by (auto simp: bit_exp_iff possible_bit_def)

lemma taken_set:
  assumes "idx div 64 < length (ap_bits p)"
  shows "ap_taken (p\<lparr>ap_bits := (ap_bits p)[idx div 64 := (ap_bits p ! (idx div 64)) OR push_bit (idx mod 64) 1], ap_hint := h\<rparr>) j
    \<longleftrightarrow> j = idx \<or> ap_taken p j"
  using assms div_mod_same [of j idx]
  by (auto simp: taken_bit nth_list_update bit_or_iff bit_power)

lemma taken_clear:
  assumes "idx div 64 < length (ap_bits p)"
  shows "ap_taken (p\<lparr>ap_bits := (ap_bits p)[idx div 64 := (ap_bits p ! (idx div 64)) AND NOT (push_bit (idx mod 64) 1)], ap_hint := h\<rparr>) j
    \<longleftrightarrow> j \<noteq> idx \<and> ap_taken p j"
  using assms div_mod_same [of j idx]
  by (auto simp: taken_bit nth_list_update bit_and_iff bit_not_iff bit_power possible_bit_def)

section \<open>Addresses\<close>

definition pool_inv :: "address_pool \<Rightarrow> bool" where
  "pool_inv p \<longleftrightarrow> 0 < ap_count p \<and> length (ap_bits p) = (ap_count p + 63) div 64 \<and> ap_hint p < ap_count p \<and>
     unat (ap_ip p) + ap_count p + 2 < 2 ^ 32"

definition stock_of :: "address_pool \<Rightarrow> string set" where
  "stock_of p = ipString p ` {..< ap_count p}"

definition held_of :: "address_pool \<Rightarrow> string set" where
  "held_of p = ipString p ` {i. i < ap_count p \<and> ap_taken p i}"

lemma be32_be_bytes: "v < 2 ^ 32 \<Longrightarrow> be32 (be_bytes 4 v) = of_nat v"
  by (simp add: be32_def)

lemma unat_of_nat32: "n < 2 ^ 32 \<Longrightarrow> unat (of_nat n :: 32 word) = n"
  by (simp add: unat_of_nat)

lemma unat_address:
  assumes "unat (ap_ip p) + ap_count p + 2 < 2 ^ 32" "idx \<le> ap_count p"
  shows "unat (ap_ip p + of_nat (idx + 2)) = unat (ap_ip p) + (idx + 2)"
proof -
  have "idx + 2 < 2 ^ 32" using assms by linarith
  then have "unat (of_nat (idx + 2) :: 32 word) = idx + 2" by (rule unat_of_nat32)
  moreover have "unat (ap_ip p) + (idx + 2) < 2 ^ 32" using assms by linarith
  ultimately show ?thesis by (simp add: unat_word_ariths del: of_nat_add)
qed

lemma index_ipString:
  assumes "pool_inv p" "idx < ap_count p"
  shows "pool_index p (ipString p idx) = Some idx"
proof -
  define v where "v = ap_ip p + of_nat (idx + 2)"
  have u: "unat v = unat (ap_ip p) + (idx + 2)"
    using unat_address [of p idx] assms by (simp add: v_def pool_inv_def del: of_nat_add)
  have "unat v < 2 ^ 32" using unsigned_less [of v] by simp
  then have bk: "be32 (be_bytes 4 (unat v)) = v" by (simp only: be32_be_bytes) simp
  have str: "ipString p idx = quad_string (be_bytes 4 (unat v))" by (simp only: ipString_def v_def)
  have "unat (ap_ip p + 2) = unat (ap_ip p) + 2" using unat_address [of p 0] assms(1) by (simp add: pool_inv_def)
  then have low: "\<not> v < ap_ip p + 2" using u by (simp add: word_less_nat_alt)
  define hi where "hi = ap_ip p + of_nat (ap_count p + 2)"
  have "unat hi = unat (ap_ip p) + (ap_count p + 2)"
    using unat_address [of p "ap_count p"] assms(1) by (simp add: pool_inv_def hi_def del: of_nat_add)
  then have high: "\<not> hi \<le> v" using u assms(2) by (simp add: word_le_nat_alt)
  have "v - ap_ip p - 2 = of_nat idx" by (simp add: v_def)
  moreover have "idx < 2 ^ 32" using assms by (simp add: pool_inv_def)
  ultimately have diff: "unat (v - ap_ip p - 2) = idx" by (simp only: unat_of_nat32)
  show ?thesis
    unfolding pool_index_def str hi_def [symmetric] Let_def
    by (simp add: bk low high diff)
qed

lemma ipString_inj: "pool_inv p \<Longrightarrow> inj_on (ipString p) {..< ap_count p}"
proof (rule inj_onI)
  fix i j
  assume p: "pool_inv p" and ij: "i \<in> {..< ap_count p}" "j \<in> {..< ap_count p}" and eq: "ipString p i = ipString p j"
  from ij have "i < ap_count p" "j < ap_count p" by simp_all
  note index_ipString [OF p this(1)] index_ipString [OF p this(2)]
  then show "i = j" unfolding eq by (rule option.inject [THEN iffD1, OF trans [OF sym]])
qed

lemma ipString_same: "ap_ip p' = ap_ip p \<Longrightarrow> ipString p' idx = ipString p idx"
  by (simp add: ipString_def)

text \<open>The addresses start two above the network's and end below its last one.\<close>

lemma stock_numbers:
  assumes "pool_inv p" "a \<in> stock_of p"
  obtains n where "parse_ip a = Some (as16 (V4 (be_bytes 4 n)))" "unat (ap_ip p) + 2 \<le> n" "n < unat (ap_ip p) + 2 + ap_count p"
proof -
  obtain i where i: "a = ipString p i" "i < ap_count p" using assms(2) by (auto simp: stock_of_def)
  have "unat (ap_ip p + of_nat (i + 2)) = unat (ap_ip p) + (i + 2)"
    using unat_address [of p i] assms(1) i(2) by (simp add: pool_inv_def del: of_nat_add)
  then have "a = quad_string (be_bytes 4 (unat (ap_ip p) + (i + 2)))" using i(1) by (simp only: ipString_def)
  with that [of "unat (ap_ip p) + (i + 2)"] i(2) show ?thesis by simp
qed

section \<open>Allocation\<close>

lemma first_free_Some: "first_free p i n = Some idx \<Longrightarrow> 0 < ap_count p \<Longrightarrow> idx < ap_count p \<and> \<not> ap_taken p idx"
  by (induction n arbitrary: i) (auto simp: Let_def split: if_splits)

lemma first_free_None: "first_free p i n = None \<Longrightarrow> k < n \<Longrightarrow> ap_taken p ((ap_hint p + (i + k)) mod ap_count p)"
proof (induction n arbitrary: i k)
  case (Suc n)
  from Suc.prems(1) have t: "ap_taken p ((ap_hint p + i) mod ap_count p)" "first_free p (Suc i) n = None"
    by (auto simp: Let_def split: if_splits)
  show ?case
  proof (cases k)
    case (Suc l)
    with Suc.IH [OF t(2), of l] Suc.prems(2) show ?thesis by simp
  qed (simp add: t)
qed simp

lemma first_free_full:
  assumes "first_free p 0 (ap_count p) = None" "idx < ap_count p" "ap_hint p < ap_count p"
  shows "ap_taken p idx"
proof -
  define k where "k = (idx + (ap_count p - ap_hint p)) mod ap_count p"
  have "k < ap_count p" using assms(2) by (simp add: k_def)
  moreover have "(ap_hint p + k) mod ap_count p = idx"
  proof -
    have "(ap_hint p + k) mod ap_count p = (ap_hint p + (idx + (ap_count p - ap_hint p))) mod ap_count p"
      by (simp add: k_def mod_add_right_eq)
    also have "ap_hint p + (idx + (ap_count p - ap_hint p)) = idx + ap_count p" using assms(3) by simp
    finally show ?thesis using assms(2) by simp
  qed
  ultimately show ?thesis using first_free_None [OF assms(1), of k] by simp
qed

lemma word_at: "pool_inv p \<Longrightarrow> idx < ap_count p \<Longrightarrow> idx div 64 < length (ap_bits p)"
  by (simp add: pool_inv_def less_Suc_eq_le div_le_mono flip: div_add_self2)

lemma Allocate_Some:
  assumes "pool_inv p" "Allocate p = Some (a, p')"
  shows "a \<in> stock_of p \<and> a \<notin> held_of p \<and> held_of p' = insert a (held_of p) \<and> stock_of p' = stock_of p \<and> pool_inv p'"
proof -
  from assms(2) obtain idx where f: "first_free p 0 (ap_count p) = Some idx" and a: "a = ipString p idx"
    and p': "p' = p\<lparr>ap_bits := (ap_bits p)[idx div 64 := (ap_bits p ! (idx div 64)) OR push_bit (idx mod 64) 1],
      ap_hint := (idx + 1) mod ap_count p\<rparr>" by (auto simp: Allocate_def split: option.splits)
  have i: "idx < ap_count p" "\<not> ap_taken p idx" using first_free_Some [OF f] assms(1) by (auto simp: pool_inv_def)
  have ip: "ap_ip p' = ap_ip p" "ap_count p' = ap_count p" by (simp_all add: p')
  have t: "ap_taken p' j \<longleftrightarrow> j = idx \<or> ap_taken p j" for j
    unfolding p' by (rule taken_set [OF word_at [OF assms(1) i(1)]])
  note str = ipString_same [OF ip(1)]
  have "a \<notin> held_of p"
    using i ipString_inj [OF assms(1)] by (auto simp: held_of_def a dest: inj_onD)
  moreover have "held_of p' = insert a (held_of p)" using i(1) by (auto simp: held_of_def ip(2) t str a)
  moreover have "stock_of p' = stock_of p" by (simp add: stock_of_def ip(2) str)
  moreover have "pool_inv p'" using assms(1) i(1) by (simp add: pool_inv_def p')
  ultimately show ?thesis using i(1) by (simp add: stock_of_def a)
qed

lemma Allocate_None: "pool_inv p \<Longrightarrow> Allocate p = None \<Longrightarrow> stock_of p \<subseteq> held_of p"
  by (auto simp: Allocate_def stock_of_def held_of_def pool_inv_def first_free_full split: option.splits)

lemma Release_held:
  assumes "pool_inv p" "a \<in> stock_of p"
  shows "held_of (Release a p) = held_of p - {a} \<and> stock_of (Release a p) = stock_of p \<and> pool_inv (Release a p)"
proof -
  obtain idx where i: "idx < ap_count p" "a = ipString p idx" using assms(2) by (auto simp: stock_of_def)
  define p' where "p' = Release a p"
  have p': "p' = p\<lparr>ap_bits := (ap_bits p)[idx div 64 := (ap_bits p ! (idx div 64)) AND NOT (push_bit (idx mod 64) 1)],
      ap_hint := (if idx < ap_hint p then idx else ap_hint p)\<rparr>"
    unfolding p'_def Release_def i(2) index_ipString [OF assms(1) i(1)] by simp
  have ip: "ap_ip p' = ap_ip p" "ap_count p' = ap_count p" by (simp_all add: p')
  have t: "ap_taken p' j \<longleftrightarrow> j \<noteq> idx \<and> ap_taken p j" for j
    unfolding p' by (rule taken_clear [OF word_at [OF assms(1) i(1)]])
  note str = ipString_same [OF ip(1)]
  have "held_of p' = held_of p - {a}"
    using i(1) ipString_inj [OF assms(1)] by (auto simp: held_of_def ip(2) t str i(2) dest: inj_onD)
  moreover have "stock_of p' = stock_of p" by (simp add: stock_of_def ip(2) str)
  moreover have "pool_inv p'" using assms(1) i(1) by (simp add: pool_inv_def p')
  ultimately show ?thesis by (simp add: p'_def)
qed

interpretation addresses: allocator Allocate Release held_of stock_of pool_inv
proof unfold_locales
  show "held_of p \<subseteq> stock_of p" for p by (auto simp: held_of_def stock_of_def)
qed (simp_all add: Allocate_Some Allocate_None Release_held)

section \<open>A new pool\<close>

lemma be32_word:
  "be32 [a, b, c, d] = 256 * (256 * (256 * ucast a + ucast b) + ucast c) + ucast d"
  by (simp add: be32_def be_nat_def algebra_simps)

lemma be32_mask:
  assumes "n < 31"
  shows "be32 (cidr_mask n 32) = NOT (mask (32 - n))"
proof -
  have "[0 ..< 32 div 8] = [0, 1, 2, 3 :: nat]" by code_simp
  then have m: "cidr_mask n 32 = [mask_byte n 0, mask_byte n 1, mask_byte n 2, mask_byte n 3]"
    by (simp only: cidr_mask_def list.map)
  have chk: "\<forall>n \<in> set [0 ..< 31]. 256 * (256 * (256 * ucast (mask_byte n 0) + ucast (mask_byte n 1)) + ucast (mask_byte n 2)) +
      ucast (mask_byte n 3) = (NOT (mask (32 - n)) :: 32 word)" by code_simp
  have "n \<in> set [0 ..< 31]" using assms by simp
  from bspec [OF chk this] show ?thesis unfolding m be32_word .
qed

lemma take_bit_unat: "take_bit LENGTH(32) (unat (x :: 32 word)) = unat x"
proof -
  have "unat x < 2 ^ 32" using unsigned_less [of x] by simp
  then show ?thesis by (simp add: take_bit_nat_eq_self)
qed

lemma unat_and_not_mask:
  assumes "n \<le> 32"
  shows "unat (x AND NOT (mask n) :: 32 word) + 2 ^ n \<le> 2 ^ 32"
proof -
  have "x AND NOT (mask n) = push_bit n (drop_bit n x)" by (rule bit_word_eqI) (auto simp: bit_simps)
  then have "unat (x AND NOT (mask n)) = take_bit 32 (push_bit n (unat (drop_bit n x)))" by (simp only: unsigned_push_bit_eq) simp
  also have "\<dots> \<le> push_bit n (unat (drop_bit n x))" by (rule take_bit_nat_less_eq_self)
  also have "unat (drop_bit n x) = unat x div 2 ^ n" by (simp only: unsigned_drop_bit_eq take_bit_unat) (simp add: drop_bit_eq_div)
  also have "push_bit n (unat x div 2 ^ n) = unat x div 2 ^ n * 2 ^ n" by (rule push_bit_eq_mult)
  finally have "unat (x AND NOT (mask n)) \<le> unat x div 2 ^ n * 2 ^ n" .
  moreover have "unat x div 2 ^ n < 2 ^ (32 - n)"
  proof -
    have "unat x < 2 ^ n * 2 ^ (32 - n)" using unsigned_less [of x] assms by (simp flip: power_add)
    then show ?thesis by (simp add: less_mult_imp_div_less mult.commute)
  qed
  then have "(unat x div 2 ^ n + 1) * 2 ^ n \<le> 2 ^ (32 - n) * 2 ^ n" by (intro mult_le_mono1) simp
  moreover have "2 ^ (32 - n) * 2 ^ n = (2 ^ 32 :: nat)" using assms by (simp flip: power_add)
  ultimately show ?thesis by simp
qed

lemma newAddressPool_inv:
  assumes "newAddressPool cidr = Inr p" "ParseCIDR cidr = Some (ip, ones, 32)"
  shows "pool_inv p \<and> held_of p = {} \<and> ap_count p = 2 ^ (32 - ones) - 3 \<and> ones \<le> 30"
proof -
  from assms obtain ip4 where o: "int ones \<le> 30"
    and p: "p = \<lparr>ap_ip = be32 ip4 AND be32 (cidr_mask ones 32), ap_prefix = ones,
        ap_count = nat (sint (push_bit (32 - ones) 1 - 3 :: 64 word)),
        ap_bits = replicate ((nat (sint (push_bit (32 - ones) 1 - 3 :: 64 word)) + 63) div 64) 0, ap_hint = 0\<rparr>"
    by (auto simp: newAddressPool_def Let_def split: option.splits if_splits)
  have c: "nat (sint (push_bit (32 - ones) 1 - 3 :: 64 word)) = 2 ^ (32 - ones) - 3"
  proof -
    have "\<forall>n \<in> set [0 ..< 31]. sint (push_bit (32 - n) 1 - 3 :: 64 word) = 2 ^ (32 - n) - 3" by code_simp
    moreover have "ones \<in> set [0 ..< 31]" using o by simp
    ultimately have "sint (push_bit (32 - ones) 1 - 3 :: 64 word) = 2 ^ (32 - ones) - 3" by (rule bspec)
    then show ?thesis by (simp add: nat_diff_distrib' nat_power_eq)
  qed
  have four: "(4 :: nat) \<le> 2 ^ (32 - ones)" using power_increasing [of 2 "32 - ones" "2 :: nat"] o by simp
  have "ap_ip p = be32 ip4 AND NOT (mask (32 - ones))" using o by (simp add: p be32_mask)
  then have "unat (ap_ip p) + 2 ^ (32 - ones) \<le> 2 ^ 32" using unat_and_not_mask [of "32 - ones" "be32 ip4"] by simp
  moreover have f: "ap_count p = 2 ^ (32 - ones) - 3" "ap_bits p = replicate ((ap_count p + 63) div 64) 0" "ap_hint p = 0"
    unfolding p by (simp_all only: address_pool.select_convs c)
  ultimately have "pool_inv p" using four by (simp add: pool_inv_def)
  moreover have "\<not> ap_taken p i" if "i < ap_count p" for i
    using that by (simp add: ap_taken_def f(2) less_Suc_eq_le div_le_mono flip: div_add_self2)
  then have "held_of p = {}" by (auto simp: held_of_def)
  ultimately show ?thesis using o f by simp
qed

end
