(* ===== verification/Server.thy ===== *)
theory Server
  imports Core_Config Address_Pool Mux_Invariant
begin

text \<open>
  The server (\<open>core/core.go\<close>) and its immune system (\<open>core/immune.go\<close>): the datagram
  multiplexers and stream sessions it serves, the counters their telemetry feeds, the threat
  level with its responses, and the rotation of the base generation. \<open>None\<close> is a
  computation that never returns (the generator's rejection sampling). An operation runs
  without another one in between. Logging is left out.
\<close>

section \<open>State\<close>

record server =
  sv_cfg :: core_config
  sv_muxes :: "mux list"
  sv_tcp :: nat                            \<comment> \<open>the number of TCP listeners\<close>
  sv_streams :: "tunnel list"              \<comment> \<open>the set \<open>tcpSessions\<close>\<close>
  sv_base :: nat
  sv_rotating :: bool
  sv_mode :: "stream_probe_mode option"
  sv_cps :: "compiled_protocol list"
  sv_threat :: int
  sv_probes :: nat
  sv_replays :: nat
  sv_hands :: nat
  sv_decoys :: nat
  sv_pool :: "address_pool option"
  sv_calm :: int                           \<comment> \<open>the local variable \<open>calm\<close> of \<open>immuneLoop\<close>\<close>

definition immuneCalmStreak :: int where
  "immuneCalmStreak = 2"

definition ThreatCalm :: int where "ThreatCalm = 0"

definition ThreatElevated :: int where "ThreatElevated = 1"

definition ThreatHigh :: int where "ThreatHigh = 2"

definition ThreatAttack :: int where "ThreatAttack = 3"

lemmas threat_levels = ThreatCalm_def ThreatElevated_def ThreatHigh_def ThreatAttack_def

text \<open>\<open>NewServer\<close>; the probe mark is state of the process.\<close>

definition NewServer :: "bytes \<Rightarrow> core_config \<Rightarrow> server res \<times> bytes" where
  "NewServer mark cfg0 =
     (case NormalizeConfig cfg0 of
        Inl e \<Rightarrow> (Inl e, mark)
      | Inr cfg \<Rightarrow>
          (case SetProbeMark mark (c_mark cfg) of
             (Inl e, mark1) \<Rightarrow> (Inl e, mark1)
           | (Inr _, mark1) \<Rightarrow>
               (let s = \<lparr>sv_cfg = cfg, sv_muxes = [], sv_tcp = 0, sv_streams = [], sv_base = c_generation cfg, sv_rotating = False,
                         sv_mode = Some (c_mode cfg), sv_cps = [], sv_threat = 0, sv_probes = 0, sv_replays = 0,
                         sv_hands = 0, sv_decoys = 0, sv_pool = None, sv_calm = 0\<rparr> in
                if c_cidr cfg = [] then (Inr s, mark1)
                else case newAddressPool (c_cidr cfg) of
                       Inl e \<Rightarrow> (Inl e, mark1)
                     | Inr pool \<Rightarrow> (Inr (s\<lparr>sv_pool := Some pool\<rparr>), mark1))))"

text \<open>
  One multiplexer of the server. \<open>file\<close> holds the lines of its replay file, if it can be
  read.
\<close>

definition decoy_protocol :: "crypto \<Rightarrow> core_config \<Rightarrow> bytes \<Rightarrow> compiled_protocol option option" where
  "decoy_protocol C cfg psk =
     (let seed = (case parseHex32 (c_seed cfg) of Inl _ \<Rightarrow> [] | Inr b \<Rightarrow> b) in
      case GenerateWithCipher C seed (unat (DecoyGeneration (of_nat (c_generation cfg)))) (c_cipher cfg) of
        None \<Rightarrow> None
      | Some (Inl _) \<Rightarrow> Some None
      | Some (Inr dg) \<Rightarrow> (case Compile C (Some dg) psk of Inl _ \<Rightarrow> Some None | Inr dcp \<Rightarrow> Some (Some dcp)))"

definition newMux ::
  "crypto \<Rightarrow> int \<Rightarrow> string list option \<Rightarrow> reader \<Rightarrow> core_config \<Rightarrow> compiled_protocol list \<Rightarrow> bytes \<Rightarrow> mux option" where
  "newMux C now file rnd cfg cps psk =
     (let m1 = WithMaxSessions (c_max_sessions cfg) (WithRateLimit (c_rate cfg) (WithIdleTimeout (c_idle cfg)
                 (WithKeepalive (c_keepalive cfg) (WithTelemetry (WithProtocols cps (NewServerMux (hd cps) psk rnd))))));
          ladder = (if c_no_shape cfg then [] else resolveShapeLadder cfg (ShapeBucketsForGenome C (Some (cgenome (hd cps)))));
          m2 = (if c_no_shape cfg then m1 else WithShapeBuckets ladder m1);
          m3 = WithDecoyBurst (c_burst cfg) (WithTxMask (NewNoiseTxMask (c_decoy_every cfg) (c_decoy_max cfg) ladder) m2) in
      case (if c_no_decoy cfg then Some None else decoy_protocol C cfg psk) of
        None \<Rightarrow> None
      | Some None \<Rightarrow> Some (WithReplayPath now file (c_replay cfg) m3)
      | Some (Some dcp) \<Rightarrow> Some (WithReplayPath now file (c_replay cfg) (WithDecoy (Some dcp) m3)))"

text \<open>
  \<open>Start\<close>: \<open>bind\<close> is the operating system's answer to opening a UDP socket, with the random
  source of that multiplexer, \<open>bind_tcp\<close> the one to opening a TCP listener, and \<open>web\<close> the
  outcome of starting the listeners of a WebSocket or HTTP transport. What was opened before a
  failure stays listed; the sockets themselves are closed.
\<close>

fun startUDPMuxes ::
  "crypto \<Rightarrow> int \<Rightarrow> string list option \<Rightarrow> (string \<Rightarrow> reader option) \<Rightarrow> compiled_protocol list \<Rightarrow> bytes \<Rightarrow> string list \<Rightarrow>
     server \<Rightarrow> (unit res \<times> server) option" where
  "startUDPMuxes C now file bind cps psk [] s = Some (Inr (), s)"
| "startUDPMuxes C now file bind cps psk (addr # addrs) s =
     (case bind addr of
        None \<Rightarrow> Some (Inl ErrNet, s)
      | Some rnd \<Rightarrow>
          (case newMux C now file rnd (sv_cfg s) cps psk of
             None \<Rightarrow> None
           | Some m \<Rightarrow> startUDPMuxes C now file bind cps psk addrs (s\<lparr>sv_muxes := sv_muxes s @ [m]\<rparr>)))"

fun startTCPListeners :: "(string \<Rightarrow> bool) \<Rightarrow> string list \<Rightarrow> server \<Rightarrow> unit res \<times> server" where
  "startTCPListeners bind_tcp [] s = (Inr (), s)"
| "startTCPListeners bind_tcp (addr # addrs) s =
     (if bind_tcp addr then startTCPListeners bind_tcp addrs (s\<lparr>sv_tcp := sv_tcp s + 1\<rparr>) else (Inl ErrNet, s))"

record listening =
  l_udp :: "string \<Rightarrow> reader option"
  l_tcp :: "string \<Rightarrow> bool"
  l_web :: "string \<Rightarrow> string list \<Rightarrow> unit res"
  l_file :: "string list option"

fun start_transports ::
  "crypto \<Rightarrow> int \<Rightarrow> listening \<Rightarrow> string list \<Rightarrow> compiled_protocol list \<Rightarrow> bytes \<Rightarrow> string list \<Rightarrow> server \<Rightarrow>
     (unit res \<times> server) option" where
  "start_transports C now L addrs cps psk [] s = Some (Inr (), s)"
| "start_transports C now L addrs cps psk (tr # trs) s =
     (case (if tr = ''tcp'' then Some (startTCPListeners (l_tcp L) addrs s)
            else if tr \<in> {''websocket'', ''wss'', ''http'', ''https''} then Some (l_web L tr addrs, s)
            else startUDPMuxes C now (l_file L) (l_udp L) cps psk addrs s) of
        None \<Rightarrow> None
      | Some (Inl e, s1) \<Rightarrow> Some (Inl e, s1)
      | Some (Inr _, s1) \<Rightarrow> start_transports C now L addrs cps psk trs s1)"

definition Start :: "crypto \<Rightarrow> int \<Rightarrow> listening \<Rightarrow> server \<Rightarrow> (unit res \<times> server) option" where
  "Start C now L s =
     (if sv_muxes s \<noteq> [] \<or> sv_tcp s \<noteq> 0 then Some (Inl ErrClosed, s)
      else case hopPortsForConfig C (sv_cfg s) of Inl e \<Rightarrow> Some (Inl e, s) | Inr ports \<Rightarrow>
        case listenAddrsForPorts (sv_cfg s) ports of Inl e \<Rightarrow> Some (Inl e, s) | Inr addrs \<Rightarrow>
          case compileServerProtocols C (sv_cfg s) of None \<Rightarrow> None | Some (Inl e) \<Rightarrow> Some (Inl e, s) | Some (Inr (cps, psk)) \<Rightarrow>
            start_transports C now L addrs cps psk (c_transports (sv_cfg s)) (s\<lparr>sv_cps := cps\<rparr>))"

section \<open>Telemetry\<close>

definition onTelemetry :: "telemetry_kind \<Rightarrow> server \<Rightarrow> server" where
  "onTelemetry kind s =
     (case kind of
        TelemetryProbe \<Rightarrow> s\<lparr>sv_probes := w64 (sv_probes s + 1)\<rparr>
      | TelemetryReplay \<Rightarrow> s\<lparr>sv_replays := w64 (sv_replays s + 1)\<rparr>
      | TelemetryHandshake \<Rightarrow> s\<lparr>sv_hands := w64 (sv_hands s + 1)\<rparr>
      | TelemetryDecoy \<Rightarrow> s\<lparr>sv_decoys := w64 (sv_decoys s + 1)\<rparr>)"

text \<open>An operation of multiplexer \<open>k\<close>, whose new events reach the server's counters.\<close>

definition new_events :: "mux \<Rightarrow> mux \<Rightarrow> telemetry_kind list" where
  "new_events m m' =
     (case (m_telemetry m, m_telemetry m') of
        (Some old, Some new) \<Rightarrow> map fst (drop (length old) new)
      | _ \<Rightarrow> [])"

definition with_mux :: "nat \<Rightarrow> mux \<Rightarrow> server \<Rightarrow> server" where
  "with_mux k m' s =
     (if k < length (sv_muxes s)
      then fold onTelemetry (new_events (sv_muxes s ! k) m') (s\<lparr>sv_muxes := (sv_muxes s)[k := m']\<rparr>) else s)"

section \<open>Generation rotation\<close>

definition outgoing_protocol :: "crypto \<Rightarrow> core_config \<Rightarrow> bytes \<Rightarrow> nat \<Rightarrow> compiled_protocol list option" where
  "outgoing_protocol C cfg psk outgoing =
     (if outgoing < c_generation cfg then
        (case parseHex32 (c_seed cfg) of
           Inl _ \<Rightarrow> Some []
         | Inr seed \<Rightarrow>
             (case GenerateWithCipher C seed outgoing (c_cipher cfg) of
                None \<Rightarrow> None
              | Some (Inl _) \<Rightarrow> Some []
              | Some (Inr g) \<Rightarrow> (case Compile C (Some g) psk of Inl _ \<Rightarrow> Some [] | Inr cp \<Rightarrow> Some [cp])))
      else Some [])"

definition PendingCount :: "mux \<Rightarrow> nat" where
  "PendingCount m = length (m_pending m)"

definition generation_payload :: "nat \<Rightarrow> bytes" where
  "generation_payload n = ControlGeneration # be_bytes 8 n"

text \<open>The end of \<open>rotateGeneration\<close>, from the point where the new window is compiled.\<close>

definition install_window :: "env \<Rightarrow> (bytes \<Rightarrow> bool) \<Rightarrow> int \<Rightarrow> nat \<Rightarrow> compiled_protocol list \<Rightarrow> server \<Rightarrow> server" where
  "install_window E net now gen1 cps s =
     (let s1 = s\<lparr>sv_base := gen1\<rparr> in
      if 0 < sum_list (map PendingCount (sv_muxes s1)) then s1\<lparr>sv_rotating := False\<rparr>
      else
        let payload = generation_payload gen1 in
        s1\<lparr>sv_cps := cps,
           sv_muxes := map (\<lambda>m. BroadcastControl E now payload (SetProtocols cps m)) (sv_muxes s1),
           sv_streams := map (\<lambda>t. snd (PushControl (e_crypto E) net now payload t)) (sv_streams s1),
           sv_rotating := False\<rparr>)"

definition rotateGeneration :: "env \<Rightarrow> (bytes \<Rightarrow> bool) \<Rightarrow> int \<Rightarrow> server \<Rightarrow> server option" where
  "rotateGeneration E net now s =
     (if sv_rotating s then Some s
      else
        let s1 = s\<lparr>sv_rotating := True\<rparr>; outgoing = sv_base s; cfg = (sv_cfg s)\<lparr>c_generation := w64 (sv_base s + 1)\<rparr> in
        case compileServerProtocols (e_crypto E) cfg of
          None \<Rightarrow> None
        | Some (Inl _) \<Rightarrow> Some (s1\<lparr>sv_rotating := False\<rparr>)
        | Some (Inr (cps, psk)) \<Rightarrow>
            (case outgoing_protocol (e_crypto E) cfg psk outgoing of
               None \<Rightarrow> None
             | Some extra \<Rightarrow> Some (install_window E net now (c_generation cfg) (cps @ extra) s1)))"

definition rotation_tick :: "env \<Rightarrow> (bytes \<Rightarrow> bool) \<Rightarrow> int \<Rightarrow> server \<Rightarrow> server option" where
  "rotation_tick E net now s = (if 0 < c_rotation (sv_cfg s) then rotateGeneration E net now s else Some s)"

section \<open>The immune loop\<close>

definition ProbeMode :: "server \<Rightarrow> stream_probe_mode" where
  "ProbeMode s = (case sv_mode s of Some mode \<Rightarrow> mode | None \<Rightarrow> c_mode (sv_cfg s))"

definition setProbeMode :: "stream_probe_mode \<Rightarrow> server \<Rightarrow> server" where
  "setProbeMode mode s =
     (if c_transport (sv_cfg s) = ''udp'' then s
      else if ProbeMode s = mode then s
      else s\<lparr>sv_mode := Some mode\<rparr>)"

definition deescalate :: "server \<Rightarrow> server" where
  "deescalate s = setProbeMode (c_mode (sv_cfg s)) s"

definition threat_score :: "nat \<Rightarrow> nat \<Rightarrow> nat" where
  "threat_score probes replays = w64 (probes + w64 (10 * replays))"

definition threat_level :: "nat \<Rightarrow> int" where
  "threat_level score =
     (if 200 \<le> score then ThreatAttack else if 50 \<le> score then ThreatHigh else if 5 \<le> score then ThreatElevated else ThreatCalm)"

definition respond :: "env \<Rightarrow> (bytes \<Rightarrow> bool) \<Rightarrow> int \<Rightarrow> int \<Rightarrow> server \<Rightarrow> server option" where
  "respond E net now level s =
     (if level = ThreatElevated then Some (setProbeMode StreamProbeTLS s)
      else if level = ThreatHigh then
        (let s1 = setProbeMode StreamProbeTLS s in
         if 0 < c_rotation (sv_cfg s1) then rotateGeneration E net now s1 else Some s1)
      else if level = ThreatAttack then
        (let s1 = setProbeMode StreamProbeClose s in
         if 0 < c_rotation (sv_cfg s1) then rotateGeneration E net now s1 else Some s1)
      else Some s)"

definition evaluateThreat :: "env \<Rightarrow> (bytes \<Rightarrow> bool) \<Rightarrow> int \<Rightarrow> server \<Rightarrow> (int \<times> server) option" where
  "evaluateThreat E net now s =
     (let level = threat_level (threat_score (sv_probes s) (sv_replays s));
          s1 = s\<lparr>sv_probes := 0, sv_replays := 0, sv_hands := 0, sv_decoys := 0\<rparr> in
      map_option (\<lambda>s2. (level, s2\<lparr>sv_threat := level\<rparr>))
        (if sv_threat s1 < level then respond E net now level s1 else Some s1))"

text \<open>One turn of \<open>immuneLoop\<close>.\<close>

definition immune_tick :: "env \<Rightarrow> (bytes \<Rightarrow> bool) \<Rightarrow> int \<Rightarrow> server \<Rightarrow> server option" where
  "immune_tick E net now s =
     (case evaluateThreat E net now s of
        None \<Rightarrow> None
      | Some (level, s1) \<Rightarrow>
          (let prev = sv_threat s1;
               s2 = (if prev < level then s1\<lparr>sv_calm := 0\<rparr>
                     else if level < prev then
                       (if immuneCalmStreak \<le> sv_calm s1 + 1 then (deescalate s1)\<lparr>sv_calm := 0\<rparr>
                        else s1\<lparr>sv_calm := sv_calm s1 + 1\<rparr>)
                     else s1\<lparr>sv_calm := 0\<rparr>) in
           Some (s2\<lparr>sv_threat := level\<rparr>)))"

section \<open>Steps\<close>

text \<open>
  What can happen to a server: its start, a step of one of its multiplexers, a turn of the immune
  loop, an expiry of the rotation timer, a stream connection that fails its handshake or
  completes it, a stream session that sends, receives or ends.
\<close>

inductive server_step :: "server \<Rightarrow> server \<Rightarrow> bool" where
  server_start: "Start C now L s = Some (x, s') \<Longrightarrow> server_step s s'"
| server_mux: "k < length (sv_muxes s) \<Longrightarrow> mux_step (sv_muxes s ! k) m' \<Longrightarrow> server_step s (with_mux k m' s)"
| server_immune: "immune_tick E net now s = Some s' \<Longrightarrow> server_step s s'"
| server_rotation: "rotation_tick E net now s = Some s' \<Longrightarrow> server_step s s'"
| server_probe: "server_step s (s\<lparr>sv_probes := w64 (sv_probes s + 1)\<rparr>)"
| server_streams: "server_step s (s\<lparr>sv_hands := h, sv_streams := ts\<rparr>)"

inductive_cases server_stepE: "server_step s s'"

lemma onTelemetry_fields [simp]:
  "sv_cfg (onTelemetry kind s) = sv_cfg s" "sv_muxes (onTelemetry kind s) = sv_muxes s" "sv_mode (onTelemetry kind s) = sv_mode s"
  "sv_base (onTelemetry kind s) = sv_base s" "sv_cps (onTelemetry kind s) = sv_cps s" "sv_rotating (onTelemetry kind s) = sv_rotating s"
  "sv_threat (onTelemetry kind s) = sv_threat s"
  by (simp_all add: onTelemetry_def split: telemetry_kind.split)

lemma with_mux_fields [simp]:
  "sv_cfg (with_mux k m s) = sv_cfg s" "sv_mode (with_mux k m s) = sv_mode s" "sv_base (with_mux k m s) = sv_base s"
  "sv_cps (with_mux k m s) = sv_cps s" "sv_rotating (with_mux k m s) = sv_rotating s"
  "k < length (sv_muxes s) \<Longrightarrow> sv_muxes (with_mux k m s) = (sv_muxes s)[k := m]"
proof -
  have "sv_cfg (fold onTelemetry es s) = sv_cfg s \<and> sv_mode (fold onTelemetry es s) = sv_mode s \<and> sv_base (fold onTelemetry es s) = sv_base s \<and>
      sv_cps (fold onTelemetry es s) = sv_cps s \<and> sv_rotating (fold onTelemetry es s) = sv_rotating s \<and>
      sv_muxes (fold onTelemetry es s) = sv_muxes s" for es s
    by (induction es arbitrary: s) simp_all
  then show "sv_cfg (with_mux k m s) = sv_cfg s" "sv_mode (with_mux k m s) = sv_mode s" "sv_base (with_mux k m s) = sv_base s"
    "sv_cps (with_mux k m s) = sv_cps s" "sv_rotating (with_mux k m s) = sv_rotating s"
    "k < length (sv_muxes s) \<Longrightarrow> sv_muxes (with_mux k m s) = (sv_muxes s)[k := m]"
    by (simp_all add: with_mux_def)
qed

lemma startUDP_fields:
  assumes "startUDPMuxes C now file bind cps psk addrs s = Some (x, s')"
  shows "\<exists>ms. s' = s\<lparr>sv_muxes := sv_muxes s @ ms\<rparr> \<and> (\<forall>m \<in> set ms. \<exists>rnd. newMux C now file rnd (sv_cfg s) cps psk = Some m)"
  using assms
proof (induction addrs arbitrary: s)
  case Nil
  then have "s' = s\<lparr>sv_muxes := sv_muxes s @ []\<rparr>" by simp
  then show ?case by fastforce
next
  case (Cons addr addrs)
  show ?case
  proof (cases "bind addr")
    case None
    with Cons.prems have "s' = s\<lparr>sv_muxes := sv_muxes s @ []\<rparr>" by simp
    then show ?thesis by fastforce
  next
    case (Some rnd)
    with Cons.prems obtain m where m: "newMux C now file rnd (sv_cfg s) cps psk = Some m"
      "startUDPMuxes C now file bind cps psk addrs (s\<lparr>sv_muxes := sv_muxes s @ [m]\<rparr>) = Some (x, s')"
      by (auto split: option.splits)
    from Cons.IH [OF m(2)] obtain ms where
      "s' = s\<lparr>sv_muxes := sv_muxes s @ [m]\<rparr>\<lparr>sv_muxes := sv_muxes (s\<lparr>sv_muxes := sv_muxes s @ [m]\<rparr>) @ ms\<rparr>"
      "\<forall>m' \<in> set ms. \<exists>rnd. newMux C now file rnd (sv_cfg s) cps psk = Some m'" by auto
    with m(1) show ?thesis by (intro exI [of _ "m # ms"]) auto
  qed
qed

lemma startTCP_fields: "startTCPListeners bind_tcp addrs s = (x, s') \<Longrightarrow> \<exists>n. s' = s\<lparr>sv_tcp := n\<rparr>"
proof (induction addrs arbitrary: s)
  case Nil
  then have "s' = s\<lparr>sv_tcp := sv_tcp s\<rparr>" by simp
  then show ?case ..
next
  case (Cons addr addrs)
  show ?case
  proof (cases "bind_tcp addr")
    case True
    with Cons show ?thesis by fastforce
  next
    case False
    with Cons.prems have "s' = s\<lparr>sv_tcp := sv_tcp s\<rparr>" by simp
    then show ?thesis ..
  qed
qed

lemma start_transports_fields:
  assumes "start_transports C now L addrs cps psk trs s = Some (x, s')"
  shows "\<exists>ms n. s' = s\<lparr>sv_muxes := sv_muxes s @ ms, sv_tcp := n\<rparr> \<and>
    (\<forall>m \<in> set ms. \<exists>rnd. newMux C now (l_file L) rnd (sv_cfg s) cps psk = Some m)"
  using assms
proof (induction trs arbitrary: s)
  case Nil
  then have "s' = s\<lparr>sv_muxes := sv_muxes s @ [], sv_tcp := sv_tcp s\<rparr>" by simp
  then show ?case by fastforce
next
  case (Cons tr trs)
  let ?one = "if tr = ''tcp'' then Some (startTCPListeners (l_tcp L) addrs s)
            else if tr \<in> {''websocket'', ''wss'', ''http'', ''https''} then Some (l_web L tr addrs, s)
            else startUDPMuxes C now (l_file L) (l_udp L) cps psk addrs s"
  from Cons.prems obtain y s1 where one: "?one = Some (y, s1)" by (cases ?one) auto
  have "\<exists>ms n. s1 = s\<lparr>sv_muxes := sv_muxes s @ ms, sv_tcp := n\<rparr> \<and>
      (\<forall>m \<in> set ms. \<exists>rnd. newMux C now (l_file L) rnd (sv_cfg s) cps psk = Some m)"
  proof -
    consider "tr = ''tcp''" | "s1 = s" | "startUDPMuxes C now (l_file L) (l_udp L) cps psk addrs s = Some (y, s1)"
      using one by (auto split: if_splits)
    then show ?thesis
    proof cases
      case 1
      with one have "startTCPListeners (l_tcp L) addrs s = (y, s1)" by simp
      from startTCP_fields [OF this] obtain n where "s1 = s\<lparr>sv_muxes := sv_muxes s @ [], sv_tcp := n\<rparr>" by auto
      then show ?thesis by fastforce
    next
      case 2
      then have "s1 = s\<lparr>sv_muxes := sv_muxes s @ [], sv_tcp := sv_tcp s\<rparr>" by simp
      then show ?thesis by fastforce
    next
      case 3
      from startUDP_fields [OF this] obtain ms where
        "s1 = s\<lparr>sv_muxes := sv_muxes s @ ms, sv_tcp := sv_tcp s\<rparr>"
        "\<forall>m \<in> set ms. \<exists>rnd. newMux C now (l_file L) rnd (sv_cfg s) cps psk = Some m" by auto
      then show ?thesis by blast
    qed
  qed
  then obtain ms n where s1: "s1 = s\<lparr>sv_muxes := sv_muxes s @ ms, sv_tcp := n\<rparr>"
    and ms: "\<forall>m \<in> set ms. \<exists>rnd. newMux C now (l_file L) rnd (sv_cfg s) cps psk = Some m" by blast
  show ?case
  proof (cases y)
    case (Inl e)
    with Cons.prems one have "s' = s1" by simp
    with s1 ms show ?thesis by blast
  next
    case (Inr u)
    with Cons.prems one have "start_transports C now L addrs cps psk trs s1 = Some (x, s')" by simp
    from Cons.IH [OF this] obtain ms1 n1 where
      "s' = s\<lparr>sv_muxes := sv_muxes s @ ms @ ms1, sv_tcp := n1\<rparr>"
      "\<forall>m \<in> set ms1. \<exists>rnd. newMux C now (l_file L) rnd (sv_cfg s) cps psk = Some m"
      by (auto simp: s1)
    with ms show ?thesis by (intro exI [of _ "ms @ ms1"] exI [of _ n1]) auto
  qed
qed

lemma Start_fields:
  assumes "Start C now L s = Some (x, s')"
  obtains "s' = s" | cps psk ms n where "compileServerProtocols C (sv_cfg s) = Some (Inr (cps, psk))"
    "s' = s\<lparr>sv_cps := cps, sv_muxes := sv_muxes s @ ms, sv_tcp := n\<rparr>"
    "\<And>m. m \<in> set ms \<Longrightarrow> \<exists>rnd. newMux C now (l_file L) rnd (sv_cfg s) cps psk = Some m"
proof -
  consider "s' = s" | cps psk addrs where "compileServerProtocols C (sv_cfg s) = Some (Inr (cps, psk))"
      "start_transports C now L addrs cps psk (c_transports (sv_cfg s)) (s\<lparr>sv_cps := cps\<rparr>) = Some (x, s')"
    using assms by (auto simp: Start_def split: if_splits sum.splits option.splits)
  then show thesis
  proof cases
    case 2
    from start_transports_fields [OF 2(2)] obtain ms n where
      "s' = s\<lparr>sv_cps := cps, sv_muxes := sv_muxes s @ ms, sv_tcp := n\<rparr>"
      "\<forall>m \<in> set ms. \<exists>rnd. newMux C now (l_file L) rnd (sv_cfg s) cps psk = Some m" by auto
    with that(2) [OF 2(1)] show thesis by blast
  qed (rule that(1))
qed

lemma rotate_cases:
  assumes "rotateGeneration E net now s = Some s'"
  obtains "s' = s" "sv_rotating s"
  | "s' = s\<lparr>sv_rotating := False\<rparr>" "\<not> sv_rotating s"
      "\<exists>e. compileServerProtocols (e_crypto E) ((sv_cfg s)\<lparr>c_generation := w64 (sv_base s + 1)\<rparr>) = Some (Inl e)"
  | cps psk extra where "\<not> sv_rotating s"
      "compileServerProtocols (e_crypto E) ((sv_cfg s)\<lparr>c_generation := w64 (sv_base s + 1)\<rparr>) = Some (Inr (cps, psk))"
      "outgoing_protocol (e_crypto E) ((sv_cfg s)\<lparr>c_generation := w64 (sv_base s + 1)\<rparr>) psk (sv_base s) = Some extra"
      "s' = install_window E net now (w64 (sv_base s + 1)) (cps @ extra) (s\<lparr>sv_rotating := True\<rparr>)"
  using assms by (auto simp: rotateGeneration_def Let_def split: if_splits option.splits sum.splits)

lemma install_fields [simp]:
  "sv_cfg (install_window E net now gen1 cps s) = sv_cfg s" "sv_mode (install_window E net now gen1 cps s) = sv_mode s"
  "sv_rotating (install_window E net now gen1 cps s) = False" "sv_base (install_window E net now gen1 cps s) = gen1"
  "sv_threat (install_window E net now gen1 cps s) = sv_threat s" "sv_calm (install_window E net now gen1 cps s) = sv_calm s"
  by (simp_all add: install_window_def Let_def)

lemma rotate_counters:
  assumes "rotateGeneration E net now s = Some s'"
  shows "sv_probes s' = sv_probes s \<and> sv_replays s' = sv_replays s \<and> sv_hands s' = sv_hands s \<and> sv_decoys s' = sv_decoys s"
  using assms by (cases rule: rotate_cases) (simp_all add: install_window_def Let_def)

lemma rotate_fields:
  assumes "rotateGeneration E net now s = Some s'"
  shows "sv_cfg s' = sv_cfg s" and "sv_mode s' = sv_mode s"
  using assms by (cases rule: rotate_cases; simp)+

end
