(* ===== verification/Server_Immune.thy ===== *)
theory Server_Immune
  imports Server Mux_Clients
begin

text \<open>
  Properties of the server's immune system: what one turn of its loop does, that an escalated
  probe defence is never taken back, and what a rotation of the generation serves, at once or
  after it was deferred.
\<close>

section \<open>The threat level\<close>

lemma evaluate_level: "evaluateThreat E net now s = Some (level, s1) \<Longrightarrow> sv_threat s1 = level"
  by (auto simp: evaluateThreat_def Let_def split: if_splits)

text \<open>\<open>immuneLoop\<close> reads the level that \<open>evaluateThreat\<close> has just stored, so it sees no change.\<close>

lemma immune_tick_alt:
  "immune_tick E net now s = map_option (\<lambda>(level, s1). s1\<lparr>sv_calm := 0\<rparr>) (evaluateThreat E net now s)"
proof (cases "evaluateThreat E net now s")
  case (Some r)
  obtain level s1 where r: "r = (level, s1)" by (cases r)
  with evaluate_level [OF Some [unfolded r]] Some show ?thesis by (simp add: immune_tick_def Let_def)
qed (simp add: immune_tick_def)

definition escalated :: "server \<Rightarrow> bool" where
  "escalated s \<longleftrightarrow> ProbeMode s = StreamProbeTLS \<or> ProbeMode s = StreamProbeClose"

lemma ProbeMode_same: "sv_mode s' = sv_mode s \<Longrightarrow> sv_cfg s' = sv_cfg s \<Longrightarrow> ProbeMode s' = ProbeMode s"
  by (simp only: ProbeMode_def)

lemma escalated_same: "sv_mode s' = sv_mode s \<Longrightarrow> sv_cfg s' = sv_cfg s \<Longrightarrow> escalated s' = escalated s"
  using ProbeMode_same [of s' s] by (simp only: escalated_def)

lemma setProbeMode_fields [simp]:
  "sv_cfg (setProbeMode mode s) = sv_cfg s" "sv_muxes (setProbeMode mode s) = sv_muxes s" "sv_base (setProbeMode mode s) = sv_base s"
  "sv_rotating (setProbeMode mode s) = sv_rotating s" "sv_cps (setProbeMode mode s) = sv_cps s"
  by (simp_all add: setProbeMode_def)

lemma escalated_set: "escalated s \<Longrightarrow> mode = StreamProbeTLS \<or> mode = StreamProbeClose \<Longrightarrow> escalated (setProbeMode mode s)"
  by (auto simp: escalated_def setProbeMode_def ProbeMode_def)

lemma respond_escalated:
  assumes "respond E net now level s = Some s'" "escalated s"
  shows "escalated s'"
proof -
  note esc = escalated_set [OF assms(2), of StreamProbeTLS] escalated_set [OF assms(2), of StreamProbeClose]
  have rot: "escalated s2" if "rotateGeneration E net now s1 = Some s2" "escalated s1" for s1 s2
    using rotate_fields [OF that(1)] that(2) escalated_same by blast
  from assms esc rot show ?thesis by (auto simp: respond_def Let_def split: if_splits)
qed

lemma immune_tick_escalated:
  assumes "immune_tick E net now s = Some s'" "escalated s"
  shows "escalated s'"
proof -
  define s0 where "s0 = s\<lparr>sv_probes := 0, sv_replays := 0, sv_hands := 0, sv_decoys := 0\<rparr>"
  have "escalated s0" using assms(2) escalated_same [of s0 s] by (simp add: s0_def)
  from assms(1) obtain level s1 where e: "evaluateThreat E net now s = Some (level, s1)" and s': "s' = s1\<lparr>sv_calm := 0\<rparr>"
    by (auto simp: immune_tick_alt)
  from e [unfolded evaluateThreat_def Let_def, folded s0_def] obtain s2 where
    s2: "(if sv_threat s0 < level then respond E net now level s0 else Some s0) = Some s2" and s1: "s1 = s2\<lparr>sv_threat := level\<rparr>"
    by auto
  from s2 \<open>escalated s0\<close> respond_escalated have "escalated s2" by (auto split: if_splits)
  with escalated_same [of s' s2] show ?thesis by (simp add: s' s1)
qed

lemma server_step_escalated:
  assumes "server_step s s'" "escalated s"
  shows "escalated s'"
  using assms
proof (cases rule: server_step.cases)
  case (server_rotation E net now)
  then show ?thesis
    using rotate_fields [of E net now s s'] escalated_same [of s' s] assms(2) by (auto simp: rotation_tick_def split: if_splits)
next
  case (server_start C now L x)
  then have "sv_mode s' = sv_mode s \<and> sv_cfg s' = sv_cfg s" by (cases rule: Start_fields) auto
  with escalated_same [of s' s] assms(2) show ?thesis by simp
qed (auto simp: immune_tick_escalated intro: escalated_same [THEN iffD2] assms(2))

interpretation escalation: invariant_of server_step escalated
  by unfold_locales (rule server_step_escalated)

text \<open>
  One turn of the immune loop: the score of the window, ten per replay and one per probe,
  alone decides the level; a rise to a level puts its probe defence in force, on a server whose
  first transport is not UDP; the counters start again from zero.
\<close>
theorem immune_response:
  assumes "immune_tick E net now s = Some s'" "c_transport (sv_cfg s) \<noteq> ''udp''" "0 \<le> sv_threat s"
    "sv_probes s + 10 * sv_replays s < 2 ^ 64"
  shows "sv_threat s' = (if 200 \<le> sv_probes s + 10 * sv_replays s then 3 else if 50 \<le> sv_probes s + 10 * sv_replays s then 2
       else if 5 \<le> sv_probes s + 10 * sv_replays s then 1 else 0) \<and>
     ProbeMode s' = (if sv_threat s' \<le> sv_threat s then ProbeMode s else if sv_threat s' = 3 then StreamProbeClose else StreamProbeTLS) \<and>
     sv_probes s' = 0 \<and> sv_replays s' = 0 \<and> sv_hands s' = 0 \<and> sv_decoys s' = 0"
proof -
  define s0 where "s0 = s\<lparr>sv_probes := 0, sv_replays := 0, sv_hands := 0, sv_decoys := 0\<rparr>"
  define level where "level = threat_level (threat_score (sv_probes s) (sv_replays s))"
  have score: "threat_score (sv_probes s) (sv_replays s) = sv_probes s + 10 * sv_replays s"
    using assms(4) by (simp add: threat_score_def)
  from assms(1) [unfolded immune_tick_alt evaluateThreat_def Let_def, folded s0_def level_def] obtain s2 where
    s2: "(if sv_threat s0 < level then respond E net now level s0 else Some s0) = Some s2"
    and s': "s' = s2\<lparr>sv_threat := level, sv_calm := 0\<rparr>" by auto
  have s0: "ProbeMode s0 = ProbeMode s" "sv_threat s0 = sv_threat s" "c_transport (sv_cfg s0) \<noteq> ''udp''"
      "sv_probes s0 = 0 \<and> sv_replays s0 = 0 \<and> sv_hands s0 = 0 \<and> sv_decoys s0 = 0"
    using assms(2) ProbeMode_same [of s0 s] by (simp_all add: s0_def)
  have lev: "level = (if 200 \<le> sv_probes s + 10 * sv_replays s then 3 else if 50 \<le> sv_probes s + 10 * sv_replays s then 2
       else if 5 \<le> sv_probes s + 10 * sv_replays s then 1 else 0)"
    by (simp add: level_def score threat_level_def threat_levels)
  have "ProbeMode s2 = (if level \<le> sv_threat s then ProbeMode s else if level = 3 then StreamProbeClose else StreamProbeTLS) \<and>
      sv_probes s2 = 0 \<and> sv_replays s2 = 0 \<and> sv_hands s2 = 0 \<and> sv_decoys s2 = 0"
  proof (cases "sv_threat s < level")
    case True
    then have "level \<in> {1, 2, 3}" using lev assms(3) by (auto split: if_splits)
    then obtain s3 where s3: "s2 = s3 \<or> rotateGeneration E net now s3 = Some s2"
      and m: "s3 = setProbeMode (if level = 3 then StreamProbeClose else StreamProbeTLS) s0"
      using s2 True s0(2) by (auto simp: respond_def threat_levels Let_def split: if_splits)
    have "ProbeMode s3 = (if level = 3 then StreamProbeClose else StreamProbeTLS)"
      using s0(3) by (auto simp: m setProbeMode_def ProbeMode_def)
    moreover have "sv_probes s3 = 0 \<and> sv_replays s3 = 0 \<and> sv_hands s3 = 0 \<and> sv_decoys s3 = 0"
      using s0(4) by (simp add: m setProbeMode_def)
    moreover have "ProbeMode s2 = ProbeMode s3 \<and> sv_probes s2 = sv_probes s3 \<and> sv_replays s2 = sv_replays s3 \<and>
        sv_hands s2 = sv_hands s3 \<and> sv_decoys s2 = sv_decoys s3"
      using s3 rotate_fields [of E net now s3 s2] ProbeMode_same [of s2 s3] rotate_counters [of E net now s3 s2] by auto
    ultimately show ?thesis using True by simp
  next
    case False
    with s2 s0 show ?thesis by auto
  qed
  moreover have "ProbeMode s' = ProbeMode s2" by (rule ProbeMode_same) (simp_all add: s')
  moreover have "sv_threat s' = level" "sv_probes s' = sv_probes s2" "sv_replays s' = sv_replays s2" "sv_hands s' = sv_hands s2"
      "sv_decoys s' = sv_decoys s2" by (simp_all add: s')
  ultimately show ?thesis unfolding lev [symmetric] by simp
qed

text \<open>A server that accepts TCP and a server whose last window saw one replay.\<close>

definition sample_server :: server where
  "sample_server = \<lparr>sv_cfg = sample_config\<lparr>c_transport := ''tcp''\<rparr>, sv_muxes = [], sv_tcp = 0, sv_streams = [], sv_base = 5, sv_rotating = False,
     sv_mode = Some StreamProbeSilent, sv_cps = [], sv_threat = 0, sv_probes = 0, sv_replays = 0, sv_hands = 0, sv_decoys = 0,
     sv_pool = None, sv_calm = 0\<rparr>"

definition sample_replayed :: server where
  "sample_replayed = sample_server\<lparr>sv_replays := 1\<rparr>"

lemma sample_escalates:
  "immune_tick E net now sample_replayed = Some (sample_server\<lparr>sv_threat := 1, sv_mode := Some StreamProbeTLS\<rparr>)"
  by (simp add: sample_replayed_def sample_server_def sample_config_def immune_tick_def evaluateThreat_def Let_def threat_level_def
      threat_score_def threat_levels respond_def setProbeMode_def ProbeMode_def)

theorem immune_response_witness:
  "\<exists>s'. immune_tick sample_env (\<lambda>_. True) 0 sample_replayed = Some s' \<and> sv_threat s' = 1 \<and> ProbeMode s' = StreamProbeTLS"
proof -
  have t: "c_transport (sv_cfg sample_replayed) \<noteq> ''udp''" "0 \<le> sv_threat sample_replayed"
      "sv_probes sample_replayed + 10 * sv_replays sample_replayed < 2 ^ 64" "sv_probes sample_replayed + 10 * sv_replays sample_replayed = 10"
      "sv_threat sample_replayed = 0"
    by (simp_all add: sample_replayed_def sample_server_def)
  from immune_response [OF sample_escalates t(1-3), unfolded t(4,5)] show ?thesis
    by (intro exI [of _ "sample_server\<lparr>sv_threat := 1, sv_mode := Some StreamProbeTLS\<rparr>"]) (simp add: sample_escalates)
qed

text \<open>
  The immune system never steps down: a probe defence that was raised to imitating TLS or
  to closing connections stays raised for as long as the server runs, however quiet the line
  becomes, since the loop compares the new level with itself and \<open>deescalate\<close> is never called.
\<close>
theorem escalation_is_permanent:
  assumes "reach server_step s s'" "ProbeMode s = StreamProbeTLS \<or> ProbeMode s = StreamProbeClose"
  shows "(ProbeMode s' = StreamProbeTLS \<or> ProbeMode s' = StreamProbeClose) \<and>
    (\<forall>E net now. immune_tick E net now s' = map_option (\<lambda>(level, s1). s1\<lparr>sv_calm := 0\<rparr>) (evaluateThreat E net now s'))"
  using escalation.run_keeps [OF assms(1)] assms(2) immune_tick_alt by (auto simp: escalated_def)

theorem escalation_is_permanent_witness:
  "\<exists>s s'. reach server_step sample_replayed s \<and> reach server_step s s' \<and> sv_threat s' = 0 \<and> c_mode (sv_cfg s') = StreamProbeSilent \<and>
     (ProbeMode s' = StreamProbeTLS \<or> ProbeMode s' = StreamProbeClose)"
proof -
  define s where "s = sample_server\<lparr>sv_threat := 1, sv_mode := Some StreamProbeTLS\<rparr>"
  have t: "immune_tick sample_env (\<lambda>_. True) 0 s = Some (s\<lparr>sv_threat := 0\<rparr>)"
    by (simp add: s_def sample_server_def immune_tick_def evaluateThreat_def Let_def threat_level_def threat_score_def threat_levels)
  have r: "reach server_step sample_replayed s"
    using sample_escalates [of sample_env "\<lambda>_. True" 0] server_immune reach_start reach.reach_step unfolding s_def by metis
  have r2: "reach server_step s (s\<lparr>sv_threat := 0\<rparr>)"
    using server_immune [OF t] reach_start reach.reach_step by metis
  have "ProbeMode s = StreamProbeTLS" "c_mode (sv_cfg s) = StreamProbeSilent" "sv_threat (s\<lparr>sv_threat := 0\<rparr>) = 0"
    by (simp_all add: s_def sample_server_def ProbeMode_def sample_config_def)
  with escalation_is_permanent [OF r2] r r2 show ?thesis by (intro exI [of _ s] exI [of _ "s\<lparr>sv_threat := 0\<rparr>"]) auto
qed

end
