(* ===== verification/Server_Config.thy ===== *)
theory Server_Config
  imports Server Mux_Safety
begin

text \<open>
  How \<open>chimerad\<close> (\<open>cmd/chimerad/main.go\<close>) builds its server out of the configuration file, what
  \<open>newMux\<close> makes of the configuration, and a normal configuration for the witnesses.
\<close>

text \<open>\<open>main\<close> and the start of \<open>run\<close>: the configuration is normalized, and \<open>NewServer\<close> normalizes it again.\<close>

definition chimerad_server :: "bytes \<Rightarrow> server_config \<Rightarrow> server res \<times> bytes" where
  "chimerad_server mark cfg =
     (case toCoreConfig cfg of
        Inl e \<Rightarrow> (Inl e, mark)
      | Inr coreCfg \<Rightarrow>
          (case NormalizeConfig coreCfg of
             Inl e \<Rightarrow> (Inl e, mark)
           | Inr normalized \<Rightarrow> NewServer mark normalized))"

lemma NewServer_fields:
  assumes "NewServer mark cfg = (Inr s, mark1)"
  shows "NormalizeConfig cfg = Inr (sv_cfg s)" "\<not> sv_rotating s" "sv_muxes s = []"
  using assms by (auto simp: NewServer_def Let_def split: sum.splits prod.splits if_splits)

lemma no_clients_config [simp]:
  "no_clients (WithRateLimit n m) = no_clients m" "no_clients (WithMaxSessions n m) = no_clients m"
  "no_clients (WithIdleTimeout n m) = no_clients m" "no_clients (WithKeepalive n m) = no_clients m"
  "no_clients (WithTelemetry m) = no_clients m" "no_clients (WithProtocols cps m) = no_clients m"
  "no_clients (WithShapeBuckets bs m) = no_clients m" "no_clients (WithDecoyBurst n m) = no_clients m"
  "no_clients (WithTxMask t m) = no_clients m" "no_clients (WithReplayPath now file path m) = no_clients m"
  "no_clients (WithDecoy d m) = no_clients m" "no_clients (NewServerMux cp psk rnd)"
  by (simp_all add: no_clients_def WithMaxSessions_def WithRateLimit_def WithIdleTimeout_def WithKeepalive_def WithTelemetry_def
      WithProtocols_def NewServerMux_def setProtocolsLocked_def WithShapeBuckets_def WithDecoyBurst_def WithTxMask_def
      WithReplayPath_def WithDecoy_def)

lemma m_max_mask_config [simp]:
  "m_max (WithShapeBuckets bs m) = m_max m" "m_max (WithDecoyBurst n m) = m_max m" "m_max (WithTxMask t m) = m_max m"
  "m_max (WithReplayPath now disk path m) = m_max m" "m_max (WithDecoy d m) = m_max m" "m_max (WithMaxSessions n m) = max 0 n"
  "m_mask (WithDecoyBurst n m) = m_mask m" "m_mask (WithTxMask t m) = t" "m_mask (WithReplayPath now disk path m) = m_mask m"
  "m_mask (WithDecoy d m) = m_mask m"
  by (simp_all add: WithMaxSessions_def WithShapeBuckets_def WithDecoyBurst_def WithTxMask_def WithReplayPath_def WithDecoy_def)

lemma newMux_fields:
  assumes "newMux C now file rnd cfg cps psk = Some m"
  shows "m_max m = max 0 (c_max_sessions cfg)" and "no_clients m"
    and "\<exists>ladder. m_mask m = NewNoiseTxMask (c_decoy_every cfg) (c_decoy_max cfg) ladder"
proof -
  define d where "d = (if c_no_decoy cfg then Some None else decoy_protocol C cfg psk)"
  define m1 where "m1 = WithMaxSessions (c_max_sessions cfg) (WithRateLimit (c_rate cfg) (WithIdleTimeout (c_idle cfg)
                 (WithKeepalive (c_keepalive cfg) (WithTelemetry (WithProtocols cps (NewServerMux (hd cps) psk rnd))))))"
  define ladder where "ladder = (if c_no_shape cfg then [] else resolveShapeLadder cfg (ShapeBucketsForGenome C (Some (cgenome (hd cps)))))"
  define m2 where "m2 = (if c_no_shape cfg then m1 else WithShapeBuckets ladder m1)"
  define m3 where "m3 = WithDecoyBurst (c_burst cfg) (WithTxMask (NewNoiseTxMask (c_decoy_every cfg) (c_decoy_max cfg) ladder) m2)"
  have m: "(case d of None \<Rightarrow> None | Some None \<Rightarrow> Some (WithReplayPath now file (c_replay cfg) m3)
      | Some (Some dcp) \<Rightarrow> Some (WithReplayPath now file (c_replay cfg) (WithDecoy (Some dcp) m3))) = Some m"
    using assms unfolding newMux_def Let_def m3_def m2_def ladder_def m1_def d_def .
  then obtain m4 where m4: "m = WithReplayPath now file (c_replay cfg) m4" "m4 = m3 \<or> (\<exists>dcp. m4 = WithDecoy (Some dcp) m3)"
    by (auto split: option.splits)
  have m3: "no_clients m3" "m_max m3 = max 0 (c_max_sessions cfg)" "m_mask m3 = NewNoiseTxMask (c_decoy_every cfg) (c_decoy_max cfg) ladder"
    by (simp_all add: m3_def m2_def m1_def)
  have m4': "no_clients m4 = no_clients m3" "m_max m4 = m_max m3" "m_mask m4 = m_mask m3"
    using m4(2) by (elim disjE exE; simp)+
  show "m_max m = max 0 (c_max_sessions cfg)" "no_clients m" unfolding m4(1) by (simp_all add: m4' m3)
  show "\<exists>ladder. m_mask m = NewNoiseTxMask (c_decoy_every cfg) (c_decoy_max cfg) ladder"
    unfolding m4(1) by (rule exI [of _ ladder]) (simp add: m4' m3)
qed

section \<open>Noise\<close>

text \<open>
  An operator who turns the noise datagrams off gets them all the same: \<open>chimerad\<close>
  normalizes the configuration, which turns a negative interval into zero, and \<open>NewServer\<close>
  normalizes it again, which turns zero into the default, so that every multiplexer of the
  server sends noise.
\<close>
theorem noise_mask_comes_back:
  assumes "sc_decoy_every cfg < 0" "chimerad_server mark cfg = (Inr s, mark1)"
  shows "(\<exists>c. res_bind (toCoreConfig cfg) NormalizeConfig = Inr c \<and> c_decoy_every c = 0 \<and> c_decoy_max c = 0 \<and>
       (\<forall>ladder. NewNoiseTxMask (c_decoy_every c) (c_decoy_max c) ladder = None)) \<and>
     c_decoy_every (sv_cfg s) = 48 \<and> c_decoy_max (sv_cfg s) = 2 \<and>
     (\<forall>C now disk rnd cps psk m. newMux C now disk rnd (sv_cfg s) cps psk = Some m \<longrightarrow> m_mask m \<noteq> None)"
proof -
  from assms(2) obtain c0 c where c0: "toCoreConfig cfg = Inr c0" and c: "NormalizeConfig c0 = Inr c" and n: "NewServer mark c = (Inr s, mark1)"
    by (auto simp: chimerad_server_def split: sum.splits)
  have "c_decoy_every c0 < 0" using c0 assms(1) by (auto simp: toCoreConfig_def Let_def split: if_splits)
  then have z: "c_decoy_every c = 0" "c_decoy_max c = 0"
    using NormalizeConfig_normal(2,3) [OF c] by (simp_all add: normalize_noise_def Let_def)
  have "sv_cfg s = normalize_noise c" using NewServer_fields(1) [OF n] normalize_again(1) [OF c] by simp
  then have s: "c_decoy_every (sv_cfg s) = 48" "c_decoy_max (sv_cfg s) = 2" using z by (simp_all add: normalize_noise_def Let_def)
  have "m_mask m \<noteq> None" if "newMux C now disk rnd (sv_cfg s) cps psk = Some m" for C now disk rnd cps psk m
    using newMux_fields(3) [OF that] s by (auto simp: NewNoiseTxMask_def)
  with c0 c z s show ?thesis by (auto simp: NewNoiseTxMask_def)
qed

section \<open>A sample\<close>

definition sample_normal :: core_config where
  "sample_normal = sample_config\<lparr>c_hop_count := 1, c_hop_spread := 0, c_transports := [''udp''], c_decoy_timeout := 1,
     c_decoy_pending := 1, c_decoy_every := 48, c_decoy_max := 2, c_burst := 1, c_cidr := []\<rparr>"

lemma sample_normal_ok: "config_normal sample_normal"
proof -
  have "ValidateProbeMark [] = Inr ()" "trim_space ''h:80'' \<noteq> []" by code_simp+
  then show ?thesis
    unfolding config_normal_def transports_normal_def limits_normal_def
    by (intro conjI exI [of _ "replicate 32 7"] exI [of _ "replicate 32 9"])
      (simp_all add: sample_normal_def sample_config_def known_transport_def NormalizeStreamProbeMode_def normalize_buckets_def
        MaxGenerationWindow_def MaxJitterMax_def second_def del: replicate.simps hex_encode.simps)
qed

lemma sample_normalizes: "NormalizeConfig sample_normal = Inr sample_normal"
proof -
  have "normalize_noise sample_normal = sample_normal" by (simp add: normalize_noise_def sample_normal_def)
  with NormalizeConfig_id [OF sample_normal_ok] show ?thesis by simp
qed

definition sample_file :: server_config where
  "sample_file = \<lparr>sc_listen = ''h:80'', sc_transport = ''udp'', sc_decoy_mode = StreamProbeSilent, sc_decoy_timeout = 5,
     sc_decoy_pending = 1, sc_decoy_every = -1, sc_decoy_max = 0, sc_hop_count = 1, sc_hop_spread = 0, sc_rotation = 60,
     sc_shape = [], sc_mark = [], sc_transports = [], sc_tls_cert = [], sc_tls_key = [], sc_seed = hex_encode (replicate 32 7),
     sc_generation = 5, sc_psk = hex_encode (replicate 32 9), sc_cidr = [], sc_cipher = None, sc_keepalive = 0, sc_idle = 0,
     sc_rate = 0, sc_max_sessions = 256, sc_no_decoy = False, sc_no_shape = False, sc_jitter = 0, sc_window = None,
     sc_replay = None\<rparr>"

lemma sample_file_normalizes:
  "\<exists>c0 c. toCoreConfig sample_file = Inr c0 \<and> NormalizeConfig c0 = Inr c \<and> c_mark c = [] \<and> c_cidr c = []"
proof -
  have code: "to_lower (trim_space ''udp'') = ''udp''" "ValidateProbeMark [] = Inr ()" "trim_space ''h:80'' \<noteq> []" by code_simp+
  obtain c0 where c0: "toCoreConfig sample_file = Inr c0" "c_transport c0 = ''udp''" "c_transports c0 = []" "c_mode c0 = StreamProbeSilent"
    "c_seed c0 = hex_encode (replicate 32 7)" "c_psk c0 = hex_encode (replicate 32 9)" "c_addr c0 = ''h:80''" "c_hop_count c0 = 1"
    "c_shape c0 = []" "c_mark c0 = []" "c_cipher c0 = None" "c_window c0 = 2" "c_jitter c0 = DefaultJitterMax" "c_cidr c0 = []"
    by (simp add: toCoreConfig_def sample_file_def del: hex_encode.simps replicate.simps)
  obtain c1 where c1: "normalize_transports c0 = Inr c1" "c1 = c0\<lparr>c_transports := [''udp''], c_transport := ''udp'', c_mode := StreamProbeSilent\<rparr>"
    by (simp add: normalize_transports_def c0 code known_transport_def NormalizeStreamProbeMode_def Let_def)
  have limits: "\<exists>c. normalize_limits (normalize_noise d) = Inr c \<and> c_mark c = [] \<and> c_cidr c = []"
    if d: "c_hop_count d = 1" "c_shape d = []" "c_mark d = []" "c_cipher d = None" "c_window d = 2" "c_jitter d = DefaultJitterMax"
      "c_cidr d = []" for d
  proof -
    have "c_hop_count (normalize_noise d) = 1" "c_shape (normalize_noise d) = []" "c_mark (normalize_noise d) = []"
      "c_cipher (normalize_noise d) = None" "c_window (normalize_noise d) = 2" "c_jitter (normalize_noise d) = DefaultJitterMax"
      "c_cidr (normalize_noise d) = []"
      using d by (simp_all add: normalize_noise_def Let_def)
    then show ?thesis
      by (simp add: normalize_limits_def normalize_buckets_def code(2) MaxGenerationWindow_def DefaultJitterMax_def MaxJitterMax_def
          second_def Let_def)
  qed
  have p: "parseHex32 (c_seed c0) = Inr (replicate 32 7)" "parseHex32 (c_psk c0) = Inr (replicate 32 9)"
    by (simp_all add: c0 del: hex_encode.simps replicate.simps)
  define d where "d = c1\<lparr>
       c_decoy_timeout := (if c_decoy_timeout c1 \<le> 0 then DefaultStreamProbeTimeout else c_decoy_timeout c1),
       c_decoy_pending := (if c_decoy_pending c1 \<le> 0 then DefaultStreamProbeMaxPending else c_decoy_pending c1)\<rparr>"
  obtain c3 where c3: "normalize_limits (normalize_noise d) = Inr c3" "c_mark c3 = []" "c_cidr c3 = []"
    using limits [of d] c0 by (auto simp: d_def c1(2))
  have "NormalizeConfig c0 = Inr (c3\<lparr>c_seed := hex_encode (replicate 32 7), c_psk := hex_encode (replicate 32 9)\<rparr>)"
    unfolding NormalizeConfig_def p c1(1) res_bind_simps Let_def d_def [symmetric] c3(1) by (simp only: c0 code(3) if_False)
  with c0(1) c3 show ?thesis by simp
qed

theorem noise_mask_comes_back_witness:
  "\<exists>s. chimerad_server [] sample_file = (Inr s, []) \<and> c_decoy_every (sv_cfg s) = 48"
proof -
  obtain c0 c where c: "toCoreConfig sample_file = Inr c0" "NormalizeConfig c0 = Inr c" "c_mark c = []" "c_cidr c = []"
    using sample_file_normalizes by blast
  have "SetProbeMark [] [] = (Inr (), [])" by code_simp
  moreover have "c_mark (normalize_noise c) = []" "c_cidr (normalize_noise c) = []"
    using c(3,4) by (simp_all add: normalize_noise_def Let_def)
  ultimately have "\<exists>s. NewServer [] c = (Inr s, [])"
    using normalize_again(1) [OF c(2)] by (simp add: NewServer_def Let_def)
  then obtain s where s: "chimerad_server [] sample_file = (Inr s, [])" using c by (auto simp: chimerad_server_def)
  have "sc_decoy_every sample_file < 0" by (simp add: sample_file_def)
  from noise_mask_comes_back [OF this s] s show ?thesis by blast
qed

end
