(* ===== verification/Server_Rotation.thy ===== *)
theory Server_Rotation
  imports Server_Immune Server_Config Generator_Layout
begin

text \<open>
  The rotation of the generation: what a server serves after it, at once or after it was
  deferred.
\<close>

section \<open>The window\<close>

definition gen_of :: "compiled_protocol \<Rightarrow> nat" where
  "gen_of cp = generation (cgenome cp)"

lemma protocol_total:
  assumes "rejection_ends C" "hkdf_ok C" "case cipher of None \<Rightarrow> True | Some cs \<Rightarrow> knownCipher cs" "psk \<noteq> []"
  obtains g cp where "GenerateWithCipher C seed n cipher = Some (Inr g)" "Compile C (Some g) psk = Inr cp" "gen_of cp = n"
proof -
  from generate_total [OF assms(1,3), of seed n] obtain g where
    g: "generate C seed n cipher = Some (Inr g)" "genome_gen_ok n g" by blast
  moreover from compile_generated [OF g(2) assms(4,2)] obtain cp where "Compile C (Some g) psk = Inr cp" "cgenome cp = g" by blast
  moreover from g(2) have "generation g = n" by (auto simp: genome_gen_ok_def)
  ultimately show thesis using that by (simp add: GenerateWithCipher_def gen_of_def)
qed

lemma compile_window_total:
  assumes "rejection_ends C" "hkdf_ok C" "case cipher of None \<Rightarrow> True | Some cs \<Rightarrow> knownCipher cs" "psk \<noteq> []"
  shows "\<exists>cps. compile_window C seed psk cipher gen_no i n = Some (Inr cps) \<and>
    map gen_of cps = map (\<lambda>j. w64 (gen_no + j)) [i ..< i + n]"
proof (induction n arbitrary: i)
  case (Suc n)
  obtain g cp where g: "GenerateWithCipher C seed (w64 (gen_no + i)) cipher = Some (Inr g)" "Compile C (Some g) psk = Inr cp"
    "gen_of cp = w64 (gen_no + i)" by (rule protocol_total [OF assms])
  from Suc.IH [of "Suc i"] obtain cps where
    "compile_window C seed psk cipher gen_no (Suc i) n = Some (Inr cps)"
    "map gen_of cps = map (\<lambda>j. w64 (gen_no + j)) [Suc i ..< Suc i + n]" by blast
  with g show ?case by (intro exI [of _ "cp # cps"]) (simp add: upt_conv_Cons del: upt_Suc)
qed simp

section \<open>The invariant\<close>

text \<open>
  A server is well formed: its configuration is normal, no rotation is under way, and each of
  its multiplexers started without clients and ran by steps of a multiplexer since.
\<close>

definition mux_live :: "core_config \<Rightarrow> mux \<Rightarrow> bool" where
  "mux_live cfg m \<longleftrightarrow> (\<exists>m0. no_clients m0 \<and> m_max m0 = max 0 (c_max_sessions cfg) \<and> reach mux_step m0 m)"

definition server_inv :: "server \<Rightarrow> bool" where
  "server_inv s \<longleftrightarrow> config_normal (sv_cfg s) \<and> \<not> sv_rotating s \<and> (\<forall>m \<in> set (sv_muxes s). mux_live (sv_cfg s) m)"

lemma mux_live_step: "mux_live cfg m \<Longrightarrow> mux_step m m' \<Longrightarrow> mux_live cfg m'"
  unfolding mux_live_def by (metis reach.reach_step)

lemma newMux_live:
  assumes "newMux C now file rnd cfg cps psk = Some m"
  shows "mux_live cfg m"
  unfolding mux_live_def using newMux_fields [OF assms] by (intro exI [of _ m]) (simp add: reach_start)

lemma install_inv:
  assumes "config_normal (sv_cfg s)" "\<forall>m \<in> set (sv_muxes s). mux_live (sv_cfg s) m"
  shows "server_inv (install_window E net now gen1 cps s)"
proof -
  have "mux_live (sv_cfg s) (BroadcastControl E now (generation_payload gen1) (SetProtocols cps m))" if "m \<in> set (sv_muxes s)" for m
    using assms(2) that step_protocols step_broadcast mux_live_step by blast
  with assms show ?thesis by (simp add: server_inv_def install_window_def Let_def)
qed

lemma rotate_inv:
  assumes "rotateGeneration E net now s = Some s'" "server_inv s"
  shows "server_inv s'"
  using assms(1)
proof (cases rule: rotate_cases)
  case (3 cps psk extra)
  show ?thesis unfolding 3(4) by (rule install_inv) (use assms(2) in \<open>simp_all add: server_inv_def\<close>)
qed (use assms(2) in \<open>simp_all add: server_inv_def\<close>)

lemma setProbeMode_inv [simp]: "server_inv (setProbeMode mode s) = server_inv s"
  by (simp add: server_inv_def)

lemma respond_inv: "respond E net now level s = Some s' \<Longrightarrow> server_inv s \<Longrightarrow> server_inv s'"
  by (auto simp: respond_def Let_def split: if_splits dest: rotate_inv)

lemma server_inv_updates [simp]:
  "server_inv (s\<lparr>sv_threat := l\<rparr>) = server_inv s" "server_inv (s\<lparr>sv_calm := c\<rparr>) = server_inv s"
  "server_inv (s\<lparr>sv_probes := p\<rparr>) = server_inv s" "server_inv (s\<lparr>sv_replays := p\<rparr>) = server_inv s"
  "server_inv (s\<lparr>sv_hands := p\<rparr>) = server_inv s" "server_inv (s\<lparr>sv_decoys := p\<rparr>) = server_inv s"
  "server_inv (s\<lparr>sv_streams := ts\<rparr>) = server_inv s"
  by (simp_all add: server_inv_def)

lemma immune_tick_inv:
  assumes "immune_tick E net now s = Some s'" "server_inv s"
  shows "server_inv s'"
proof -
  define s0 where "s0 = s\<lparr>sv_probes := 0, sv_replays := 0, sv_hands := 0, sv_decoys := 0\<rparr>"
  have "server_inv s0" using assms(2) by (simp add: s0_def)
  from assms(1) obtain level s1 where e: "evaluateThreat E net now s = Some (level, s1)" and s': "s' = s1\<lparr>sv_calm := 0\<rparr>"
    by (auto simp: immune_tick_alt)
  from e [unfolded evaluateThreat_def Let_def, folded s0_def] obtain s2 where
    "(if sv_threat s0 < level then respond E net now level s0 else Some s0) = Some s2" and s1: "s1 = s2\<lparr>sv_threat := level\<rparr>"
    by auto
  with \<open>server_inv s0\<close> have "server_inv s2" by (auto split: if_splits dest: respond_inv)
  then show ?thesis by (simp add: s' s1)
qed

lemma server_step_inv:
  assumes "server_step s s'" "server_inv s"
  shows "server_inv s'"
  using assms
proof (cases rule: server_step.cases)
  case (server_start C now L x)
  from server_start(1) show ?thesis
  proof (cases rule: Start_fields)
    case (2 cps psk ms n)
    then show ?thesis using assms(2) newMux_live by (fastforce simp: server_inv_def)
  qed (use assms(2) in simp)
next
  case (server_mux k m')
  then have "mux_live (sv_cfg s) m'" using assms(2) mux_live_step nth_mem unfolding server_inv_def by blast
  with server_mux assms(2) show ?thesis by (auto simp: server_inv_def dest!: set_update_subset_insert [THEN subsetD])
next
  case (server_rotation E net now)
  with assms(2) show ?thesis by (auto simp: rotation_tick_def split: if_splits dest: rotate_inv)
qed (use assms(2) in \<open>auto simp: immune_tick_inv\<close>)

interpretation serving: invariant_of server_step server_inv
  by unfold_locales (rule server_step_inv)

lemma NewServer_inv: "NewServer mark cfg = (Inr s, mark1) \<Longrightarrow> server_inv s"
  using NewServer_fields NormalizeConfig_normal(1) by (fastforce simp: server_inv_def)

section \<open>Compiling the window\<close>

definition window_of :: "nat \<Rightarrow> nat \<Rightarrow> nat list" where
  "window_of base window = map (\<lambda>i. w64 (base + i)) [0 ..< Suc window]"

lemma compile_server:
  assumes "rejection_ends C" "hkdf_ok C" "config_normal cfg"
  obtains cps psk where "compileServerProtocols C (cfg\<lparr>c_generation := n\<rparr>) = Some (Inr (cps, psk))"
    "map gen_of cps = window_of n (c_window cfg)" "psk \<noteq> []" "cps \<noteq> []"
proof -
  from assms(3) obtain seed psk where s: "length seed = 32" "length psk = 32" "c_seed cfg = hex_encode seed" "c_psk cfg = hex_encode psk"
    and cipher: "case c_cipher cfg of None \<Rightarrow> True | Some cs \<Rightarrow> knownCipher cs"
    by (auto simp: config_normal_def limits_normal_def)
  have psk: "psk \<noteq> []" using s(2) by auto
  from compile_window_total [OF assms(1,2) cipher psk, of seed n 0 "Suc (c_window cfg)"] obtain cps where
    w: "compile_window C seed psk (c_cipher cfg) n 0 (Suc (c_window cfg)) = Some (Inr cps)" "map gen_of cps = window_of n (c_window cfg)"
    by (auto simp: window_of_def)
  then have "length cps = Suc (c_window cfg)" by (metis length_map length_upt minus_nat.diff_0 window_of_def)
  then have "cps \<noteq> []" by auto
  moreover have "compileServerProtocols C (cfg\<lparr>c_generation := n\<rparr>) = Some (Inr (cps, psk))"
    using w(1) by (simp add: compileServerProtocols_def s del: compile_window.simps)
  ultimately show thesis using that w(2) psk by auto
qed

lemma outgoing_total:
  assumes "rejection_ends C" "hkdf_ok C" "config_normal cfg" "psk \<noteq> []"
  obtains extra where "outgoing_protocol C (cfg\<lparr>c_generation := n\<rparr>) psk outgoing = Some extra"
    "map gen_of extra = (if outgoing < n then [outgoing] else [])"
proof -
  from assms(3) obtain seed where s: "length seed = 32" "c_seed cfg = hex_encode seed"
    and cipher: "case c_cipher cfg of None \<Rightarrow> True | Some cs \<Rightarrow> knownCipher cs"
    by (auto simp: config_normal_def limits_normal_def)
  obtain g cp where "GenerateWithCipher C seed outgoing (c_cipher cfg) = Some (Inr g)" "Compile C (Some g) psk = Inr cp" "gen_of cp = outgoing"
    by (rule protocol_total [OF assms(1,2) cipher assms(4)])
  with s that show thesis by (cases "outgoing < n") (simp_all add: outgoing_protocol_def)
qed

lemma rotation_result:
  assumes "rejection_ends (e_crypto E)" "hkdf_ok (e_crypto E)" "config_normal (sv_cfg s)" "\<not> sv_rotating s"
  obtains cps where "rotateGeneration E net now s = Some (install_window E net now (w64 (sv_base s + 1)) cps (s\<lparr>sv_rotating := True\<rparr>))"
    "map gen_of cps = window_of (w64 (sv_base s + 1)) (c_window (sv_cfg s)) @ (if sv_base s < w64 (sv_base s + 1) then [sv_base s] else [])"
    "cps \<noteq> []"
proof -
  note inv = assms(3,4)
  obtain cps psk where c: "compileServerProtocols (e_crypto E) ((sv_cfg s)\<lparr>c_generation := w64 (sv_base s + 1)\<rparr>) = Some (Inr (cps, psk))"
    "map gen_of cps = window_of (w64 (sv_base s + 1)) (c_window (sv_cfg s))" "psk \<noteq> []" "cps \<noteq> []"
    by (rule compile_server [OF assms(1,2) inv(1)])
  obtain extra where x: "outgoing_protocol (e_crypto E) ((sv_cfg s)\<lparr>c_generation := w64 (sv_base s + 1)\<rparr>) psk (sv_base s) = Some extra"
    "map gen_of extra = (if sv_base s < w64 (sv_base s + 1) then [sv_base s] else [])"
    by (rule outgoing_total [OF assms(1,2) inv(1) c(3)])
  show thesis
    by (rule that [of "cps @ extra"]) (use inv(2) c x in \<open>simp_all add: rotateGeneration_def Let_def\<close>)
qed

lemma broadcast_keeps [simp]:
  "m_cps (BroadcastControl E now payload m) = m_cps m" "m_established (BroadcastControl E now payload m) = m_established m"
  "m_pending (BroadcastControl E now payload m) = m_pending m"
proof -
  have one: "m_cps (with_tunnel i f m) = m_cps m \<and> m_established (with_tunnel i f m) = m_established m \<and>
      m_pending (with_tunnel i f m) = m_pending m" for i f m
    by (simp add: with_tunnel_def case_prod_beta)
  have "m_cps (fold (\<lambda>i. with_tunnel i f) ks m) = m_cps m \<and> m_established (fold (\<lambda>i. with_tunnel i f) ks m) = m_established m \<and>
      m_pending (fold (\<lambda>i. with_tunnel i f) ks m) = m_pending m" for f ks m
    using one by (induction ks arbitrary: m) simp_all
  then show "m_cps (BroadcastControl E now payload m) = m_cps m" "m_established (BroadcastControl E now payload m) = m_established m"
    "m_pending (BroadcastControl E now payload m) = m_pending m"
    by (simp_all add: BroadcastControl_def)
qed

lemma SetProtocols_fields [simp]:
  "m_established (SetProtocols cps m) = m_established m" "cps \<noteq> [] \<Longrightarrow> m_cps (SetProtocols cps m) = cps"
  by (simp_all add: SetProtocols_def setProtocolsLocked_def)

text \<open>
  C21. A server keeps its promises on each of its sockets: whatever clients, timers, the
  application, the immune system and the rotation do, in any order, every multiplexer of a
  server that was created and started has at most 1024 handshakes pending, keeps to the
  configured number of sessions, and never holds a session and a handshake of one address. The
  limit counts per port: a server that hops over several ports takes that many times as many.
\<close>
theorem server_sessions:
  assumes "NewServer mark cfg = (Inr s0, mark1)" "reach server_step s0 s"
  shows "\<forall>m \<in> set (sv_muxes s). length (m_pending m) \<le> 1024 \<and>
      (0 < c_max_sessions (sv_cfg s) \<longrightarrow> int (length (m_established m) + length (m_pending m)) \<le> c_max_sessions (sv_cfg s)) \<and>
      (\<forall>addr. map_of (m_established m) addr = None \<or> map_of (m_pending m) addr = None)"
proof
  fix m
  assume "m \<in> set (sv_muxes s)"
  with serving.run_keeps [OF assms(2) NewServer_inv [OF assms(1)]] obtain m0 where
    m0: "no_clients m0" "m_max m0 = max 0 (c_max_sessions (sv_cfg s))" "reach mux_step m0 m"
    by (auto simp: server_inv_def mux_live_def)
  have I: "tables_inv m" using tables.run_keeps [OF m0(3)] no_clients_inv [OF m0(1)] by blast
  have "m_max m = m_max m0" using config.run_same [OF m0(3)] by (simp add: config_def)
  with m0(2) show "length (m_pending m) \<le> 1024 \<and>
      (0 < c_max_sessions (sv_cfg s) \<longrightarrow> int (length (m_established m) + length (m_pending m)) \<le> c_max_sessions (sv_cfg s)) \<and>
      (\<forall>addr. map_of (m_established m) addr = None \<or> map_of (m_pending m) addr = None)"
    using tables_invD [OF I] by (auto simp: maxPendingHandshakes_def)
qed

text \<open>
  C22. A rotation with no handshake in flight: the server moves on to the next generation, and
  every multiplexer now accepts exactly the window of generations from there on and the
  generation it came from, while its sessions stay listed.
\<close>
theorem rotation_serves_window:
  assumes "NormalizeConfig cfg = Inr (sv_cfg s)" "\<not> sv_rotating s" "rejection_ends (e_crypto E)" "hkdf_ok (e_crypto E)"
    "\<forall>m \<in> set (sv_muxes s). PendingCount m = 0"
  shows "\<exists>s'. rotateGeneration E net now s = Some s' \<and> sv_base s' = w64 (sv_base s + 1) \<and>
    map (\<lambda>cp. generation (cgenome cp)) (sv_cps s') =
      map (\<lambda>i. w64 (sv_base s' + i)) [0 ..< Suc (c_window (sv_cfg s))] @ (if sv_base s < sv_base s' then [sv_base s] else []) \<and>
    length (sv_muxes s') = length (sv_muxes s) \<and>
    (\<forall>k < length (sv_muxes s). protocolListLocked (sv_muxes s' ! k) = sv_cps s' \<and>
       m_established (sv_muxes s' ! k) = m_established (sv_muxes s ! k))"
proof -
  have inv: "config_normal (sv_cfg s)" by (rule NormalizeConfig_normal(1) [OF assms(1)])
  obtain cps where r: "rotateGeneration E net now s = Some (install_window E net now (w64 (sv_base s + 1)) cps (s\<lparr>sv_rotating := True\<rparr>))"
    "map gen_of cps = window_of (w64 (sv_base s + 1)) (c_window (sv_cfg s)) @ (if sv_base s < w64 (sv_base s + 1) then [sv_base s] else [])"
    "cps \<noteq> []"
    by (rule rotation_result [OF assms(3,4) inv assms(2)])
  have none: "\<not> 0 < sum_list (map PendingCount (sv_muxes s))" using assms(5) by simp
  show ?thesis
    unfolding r(1)
    by (intro exI conjI, rule refl)
      (use r(2,3) in \<open>simp_all add: none install_window_def Let_def gen_of_def [abs_def] window_of_def protocolListLocked_def del: upt_Suc\<close>)
qed

text \<open>
  A rotation that is deferred because a handshake is in flight has already moved the base
  generation: nothing else changes, no client is told, and the next rotation then serves the
  generations after the skipped one, so a client of the generation that the server served
  until then is no longer accepted.
\<close>
theorem deferred_rotation_drifts:
  assumes "NormalizeConfig cfg = Inr (sv_cfg s)" "\<not> sv_rotating s" "rejection_ends (e_crypto E)" "hkdf_ok (e_crypto E)"
    "0 < sum_list (map PendingCount (sv_muxes s))" "sv_base s + c_window (sv_cfg s) + 2 < 2 ^ 64"
  shows "\<exists>s1. rotateGeneration E net now s = Some s1 \<and> s1 = s\<lparr>sv_base := sv_base s + 1\<rparr> \<and>
    (\<forall>s2 net2 now2. sv_base s2 = sv_base s1 \<longrightarrow> sv_cfg s2 = sv_cfg s1 \<longrightarrow> \<not> sv_rotating s2 \<longrightarrow>
       (\<forall>m \<in> set (sv_muxes s2). PendingCount m = 0) \<longrightarrow>
       (\<exists>s3. rotateGeneration E net2 now2 s2 = Some s3 \<and> sv_base s \<notin> (\<lambda>cp. generation (cgenome cp)) ` set (sv_cps s3)))"
proof -
  have inv: "config_normal (sv_cfg s)" by (rule NormalizeConfig_normal(1) [OF assms(1)])
  obtain cps where r: "rotateGeneration E net now s = Some (install_window E net now (w64 (sv_base s + 1)) cps (s\<lparr>sv_rotating := True\<rparr>))"
    by (rule rotation_result [OF assms(3,4) inv assms(2)])
  have w1: "w64 (sv_base s + 1) = sv_base s + 1" using assms(6) by simp
  then have s1: "install_window E net now (w64 (sv_base s + 1)) cps (s\<lparr>sv_rotating := True\<rparr>) = s\<lparr>sv_base := sv_base s + 1\<rparr>"
    using assms(2,5) by (simp add: install_window_def Let_def)
  have "\<exists>s3. rotateGeneration E net2 now2 s2 = Some s3 \<and> sv_base s \<notin> (\<lambda>cp. generation (cgenome cp)) ` set (sv_cps s3)"
    if s2: "sv_base s2 = sv_base s + 1" "sv_cfg s2 = sv_cfg s" "\<not> sv_rotating s2" "\<forall>m \<in> set (sv_muxes s2). PendingCount m = 0" for s2 net2 now2
  proof -
    obtain cps2 where
      r2: "rotateGeneration E net2 now2 s2 = Some (install_window E net2 now2 (w64 (sv_base s2 + 1)) cps2 (s2\<lparr>sv_rotating := True\<rparr>))"
      "map gen_of cps2 = window_of (w64 (sv_base s2 + 1)) (c_window (sv_cfg s2)) @ (if sv_base s2 < w64 (sv_base s2 + 1) then [sv_base s2] else [])"
      by (rule rotation_result [OF assms(3,4) inv [folded s2(2)] s2(3)])
    have none: "\<not> 0 < sum_list (map PendingCount (sv_muxes s2))" using s2(4) by simp
    have c: "sv_cps (install_window E net2 now2 (w64 (sv_base s2 + 1)) cps2 (s2\<lparr>sv_rotating := True\<rparr>)) = cps2"
      by (simp add: install_window_def Let_def none)
    have "gen_of ` set cps2 = set (window_of (sv_base s + 2) (c_window (sv_cfg s)) @ [sv_base s + 1])"
      using arg_cong [OF r2(2), of set] s2(1,2) assms(6) by simp
    moreover have "sv_base s \<notin> set (window_of (sv_base s + 2) (c_window (sv_cfg s)))"
      using assms(6) by (auto simp: window_of_def simp del: upt_Suc)
    ultimately have "sv_base s \<notin> gen_of ` set cps2" by simp
    with r2(1) c show ?thesis by (simp add: gen_of_def [abs_def])
  qed
  with r s1 show ?thesis by auto
qed

section \<open>Witnesses\<close>

definition zero_env :: env where
  "zero_env = sample_env\<lparr>e_crypto := zero_crypto\<rparr>"

lemma zero_env_ok: "e_crypto zero_env = zero_crypto" "rejection_ends (e_crypto zero_env)" "hkdf_ok (e_crypto zero_env)"
  by (simp_all add: zero_env_def zero_rejection_ends)

definition sample_serving :: "mux list \<Rightarrow> server" where
  "sample_serving ms = \<lparr>sv_cfg = sample_normal, sv_muxes = ms, sv_tcp = 0, sv_streams = [], sv_base = 5, sv_rotating = False,
     sv_mode = Some StreamProbeSilent, sv_cps = [], sv_threat = 0, sv_probes = 0, sv_replays = 0, sv_hands = 0, sv_decoys = 0,
     sv_pool = None, sv_calm = 0\<rparr>"

lemma sample_serving_fields [simp]:
  "sv_cfg (sample_serving ms) = sample_normal" "sv_muxes (sample_serving ms) = ms" "sv_base (sample_serving ms) = 5"
  "sv_rotating (sample_serving ms) = False" "c_window sample_normal = 2" "c_generation sample_normal = 5"
  by (simp_all add: sample_serving_def sample_normal_def sample_config_def)

lemma NewServer_sample: "NewServer [] sample_normal = (Inr (sample_serving []), [])"
proof -
  have "SetProbeMark [] [] = (Inr (), [])" by code_simp
  moreover have "c_mark sample_normal = []" "c_cidr sample_normal = []" "c_mode sample_normal = StreamProbeSilent"
    by (simp_all add: sample_normal_def sample_config_def)
  ultimately show ?thesis by (simp add: NewServer_def Let_def sample_normalizes sample_serving_def)
qed

lemma newMux_returns:
  assumes "rejection_ends C"
  shows "\<exists>m. newMux C now disk rnd cfg cps psk = Some m"
proof -
  define d where "d = (if c_no_decoy cfg then Some None else decoy_protocol C cfg psk)"
  have "\<exists>x. GenerateWithCipher C seed n cipher = Some x" for seed n cipher
    unfolding GenerateWithCipher_def using generate_returns [OF assms] by blast
  then have "d \<noteq> None"
    by (auto simp: d_def decoy_protocol_def Let_def split: option.splits sum.splits) (metis option.distinct(1))+
  then show ?thesis unfolding newMux_def Let_def d_def [symmetric] by (cases d) (auto split: option.split)
qed

text \<open>The sample server on one port, once started.\<close>

lemma sample_starts:
  "\<exists>s m. Start zero_crypto 0 \<lparr>l_udp = (\<lambda>_. Some zeros), l_tcp = (\<lambda>_. True), l_web = (\<lambda>_ _. Inr ()), l_file = None\<rparr> (sample_serving [])
     = Some (Inr (), s) \<and> sv_muxes s = [m]"
proof -
  have c: "c_addr sample_normal = ''h:80''" "c_hop_count sample_normal = 1" "c_transports sample_normal = [''udp'']"
    by (simp_all add: sample_normal_def sample_config_def)
  have ports: "hopPortsForConfig zero_crypto sample_normal = Inr [80]"
    by (simp add: hopPortsForConfig_def c sample_address sample_port)
  have addrs: "listenAddrsForPorts sample_normal [80] = Inr [JoinHostPort ''h'' (int_string 80)]"
    by (simp add: listenAddrsForPorts_def c sample_address)
  obtain cps psk where cps: "compileServerProtocols zero_crypto (sample_normal\<lparr>c_generation := 5\<rparr>) = Some (Inr (cps, psk))"
    by (rule compile_server [OF zero_rejection_ends _ sample_normal_ok]) simp_all
  have same: "sample_normal\<lparr>c_generation := 5\<rparr> = sample_normal" by (simp add: sample_normal_def sample_config_def)
  obtain m where m: "newMux zero_crypto 0 None zeros sample_normal cps psk = Some m" using newMux_returns [OF zero_rejection_ends] by blast
  have "sv_tcp (sample_serving []) = 0" by (simp add: sample_serving_def)
  then show ?thesis by (simp add: Start_def ports addrs cps [unfolded same] c(3) m)
qed

theorem server_sessions_witness:
  "\<exists>s m. reach server_step (sample_serving []) s \<and> sv_muxes s = [m] \<and> length (m_pending m) \<le> 1024"
proof -
  obtain s m where s: "Start zero_crypto 0 \<lparr>l_udp = (\<lambda>_. Some zeros), l_tcp = (\<lambda>_. True), l_web = (\<lambda>_ _. Inr ()), l_file = None\<rparr> (sample_serving [])
     = Some (Inr (), s)" "sv_muxes s = [m]" using sample_starts by blast
  have r: "reach server_step (sample_serving []) s" using reach.reach_step [where step = server_step, OF reach_start] server_step.server_start [OF s(1)] by blast
  from server_sessions [OF NewServer_sample r] s(2) have "length (m_pending m) \<le> 1024" by simp
  with r s(2) show ?thesis by blast
qed

theorem rotation_serves_window_witness:
  "\<exists>s'. rotateGeneration zero_env (\<lambda>_. True) 0 (sample_serving [NewServerMux sample_protocol [] zeros]) = Some s' \<and>
     map (\<lambda>cp. generation (cgenome cp)) (m_cps (sv_muxes s' ! 0)) = [6, 7, 8, 5]"
proof -
  let ?s = "sample_serving [NewServerMux sample_protocol [] zeros]"
  have "NormalizeConfig sample_normal = Inr (sv_cfg ?s)" by (simp add: sample_normalizes)
  moreover have "\<forall>m \<in> set (sv_muxes ?s). PendingCount m = 0" by (simp add: PendingCount_def NewServerMux_def)
  ultimately obtain s' where s': "rotateGeneration zero_env (\<lambda>_. True) 0 ?s = Some s'" "sv_base s' = w64 6"
    "map (\<lambda>cp. generation (cgenome cp)) (sv_cps s') = map (\<lambda>i. w64 (sv_base s' + i)) [0 ..< Suc 2] @ (if 5 < sv_base s' then [5] else [])"
    "protocolListLocked (sv_muxes s' ! 0) = sv_cps s'"
    using rotation_serves_window [of sample_normal ?s zero_env "\<lambda>_. True" 0] zero_env_ok by auto
  have "[0 ..< Suc 2] = [0, 1, 2]" by (simp add: upt_rec)
  with s'(2,3) have gens: "map (\<lambda>cp. generation (cgenome cp)) (sv_cps s') = [6, 7, 8, 5]" by simp
  then have "m_cps (sv_muxes s' ! 0) = sv_cps s'" using s'(4) by (auto simp: protocolListLocked_def split: if_splits)
  with s'(1) gens show ?thesis by auto
qed

definition sample_pending :: pending where
  "sample_pending = \<lparr>p_h = \<lparr>hrole = DirServer, hcp = sample_protocol, hpsk = [], hcodecs = [], hpriv = [], hremote = None,
     htranscript = [], hidx = 0, hearly = []\<rparr>, p_last = None, p_last_sent = None, p_created = 0, p_attempts = 0,
     p_backoff = retransmitBase, p_addr = ''a'', p_recvOK = True, p_primed = False\<rparr>"

theorem deferred_rotation_drifts_witness:
  "\<exists>s1 s3. rotateGeneration zero_env (\<lambda>_. True) 0
       (sample_serving [(NewServerMux sample_protocol [] zeros)\<lparr>m_pending := [(''a'', sample_pending)]\<rparr>]) = Some s1 \<and> sv_base s1 = 6 \<and>
     rotateGeneration zero_env (\<lambda>_. True) 0 (s1\<lparr>sv_muxes := [NewServerMux sample_protocol [] zeros]\<rparr>) = Some s3 \<and>
     5 \<notin> (\<lambda>cp. generation (cgenome cp)) ` set (sv_cps s3)"
proof -
  let ?s = "sample_serving [(NewServerMux sample_protocol [] zeros)\<lparr>m_pending := [(''a'', sample_pending)]\<rparr>]"
  have "NormalizeConfig sample_normal = Inr (sv_cfg ?s)" by (simp add: sample_normalizes)
  moreover have "0 < sum_list (map PendingCount (sv_muxes ?s))" by (simp add: PendingCount_def)
  ultimately obtain s1 where s1: "rotateGeneration zero_env (\<lambda>_. True) 0 ?s = Some s1" "s1 = ?s\<lparr>sv_base := 6\<rparr>"
    and later: "\<And>s2. sv_base s2 = sv_base s1 \<Longrightarrow> sv_cfg s2 = sv_cfg s1 \<Longrightarrow> \<not> sv_rotating s2 \<Longrightarrow>
       (\<forall>m \<in> set (sv_muxes s2). PendingCount m = 0) \<Longrightarrow>
       \<exists>s3. rotateGeneration zero_env (\<lambda>_. True) 0 s2 = Some s3 \<and> 5 \<notin> (\<lambda>cp. generation (cgenome cp)) ` set (sv_cps s3)"
    using deferred_rotation_drifts [of sample_normal ?s zero_env "\<lambda>_. True" 0] zero_env_ok by auto
  have "\<exists>s3. rotateGeneration zero_env (\<lambda>_. True) 0 (s1\<lparr>sv_muxes := [NewServerMux sample_protocol [] zeros]\<rparr>) = Some s3 \<and>
      5 \<notin> (\<lambda>cp. generation (cgenome cp)) ` set (sv_cps s3)"
    by (rule later) (simp_all add: s1(2) PendingCount_def NewServerMux_def)
  with s1 show ?thesis by auto
qed

end
