(* ===== verification/Leases.thy ===== *)
theory Leases
  imports Address_Pool
begin

text \<open>
  The sessions that the server hands to its application (\<open>core/core.go\<close>: \<open>handleStreamConn\<close>
  from the point where the handshake is done, the pump of a multiplexer, \<open>Accept\<close>, \<open>makeConn\<close>,
  \<open>Conn.Close\<close> and \<open>reapIdle\<close>) and the addresses they hold. A session is the number that stands
  for the object behind the \<open>serverSession\<close> interface; whether its control message can be sent
  is the parameter \<open>ctl\<close>, how long it has been silent the parameter of \<open>reapIdle\<close>. Sending and
  receiving on a session change none of this.
\<close>

section \<open>State\<close>

record conn =
  cn_t :: nat
  cn_ip :: string
  cn_generation :: nat
  cn_release :: bool           \<comment> \<open>the address must be given back\<close>
  cn_stream :: bool            \<comment> \<open>a stream session: it is registered with the server\<close>
  cn_done :: bool

record accepted =
  ac_t :: nat
  ac_generation :: nat
  ac_stream :: bool

record sessions =
  ss_idle :: int
  ss_pool :: "address_pool option"
  ss_started :: bool
  ss_streams :: "nat list"          \<comment> \<open>the set \<open>tcpSessions\<close>\<close>
  ss_queue :: "accepted list"       \<comment> \<open>channel of capacity 32\<close>
  ss_closed :: "nat list"           \<comment> \<open>the sessions whose \<open>Close\<close> was called\<close>
  ss_conns :: "conn list"

definition new_sessions :: "int \<Rightarrow> address_pool option \<Rightarrow> sessions" where
  "new_sessions idle pool =
     \<lparr>ss_idle = idle, ss_pool = pool, ss_started = False, ss_streams = [], ss_queue = [], ss_closed = [], ss_conns = []\<rparr>"

section \<open>Operations\<close>

definition register_stream :: "nat \<Rightarrow> sessions \<Rightarrow> sessions" where
  "register_stream t s = s\<lparr>ss_streams := List.insert t (ss_streams s)\<rparr>"

definition unregisterStream :: "nat \<Rightarrow> sessions \<Rightarrow> sessions" where
  "unregisterStream t s = s\<lparr>ss_streams := removeAll t (ss_streams s)\<rparr>"

definition close_session :: "nat \<Rightarrow> sessions \<Rightarrow> sessions" where
  "close_session t s = s\<lparr>ss_closed := List.insert t (ss_closed s)\<rparr>"

text \<open>
  Offering a session to \<open>Accept\<close>: it waits for room in the channel, unless the server is
  stopped. With both, \<open>pick\<close> decides.
\<close>

definition offer :: "bool \<Rightarrow> bool \<Rightarrow> accepted \<Rightarrow> sessions \<Rightarrow> sessions option" where
  "offer stopped pick a s =
     (if length (ss_queue s) < 32 \<and> (\<not> stopped \<or> pick) then Some (s\<lparr>ss_queue := ss_queue s @ [a]\<rparr>)
      else if stopped then Some (close_session (ac_t a) (if ac_stream a then unregisterStream (ac_t a) s else s))
      else None)"

definition makeConn :: "(nat \<Rightarrow> string \<Rightarrow> bool) \<Rightarrow> accepted \<Rightarrow> sessions \<Rightarrow> nat res \<times> sessions" where
  "makeConn ctl a s =
     (let c = \<lparr>cn_t = ac_t a, cn_ip = [], cn_generation = ac_generation a, cn_release = False, cn_stream = ac_stream a,
               cn_done = False\<rparr> in
      case ss_pool s of
        None \<Rightarrow> (Inr (length (ss_conns s)), s\<lparr>ss_conns := ss_conns s @ [c]\<rparr>)
      | Some p \<Rightarrow>
          (case Allocate p of
             None \<Rightarrow> (Inl ErrExhausted, close_session (ac_t a) s)
           | Some (ip, p1) \<Rightarrow>
               if \<not> ctl (ac_t a) ip then (Inl ErrNet, close_session (ac_t a) (s\<lparr>ss_pool := Some (Release ip p1)\<rparr>))
               else (Inr (length (ss_conns s)),
                     s\<lparr>ss_pool := Some p1, ss_conns := ss_conns s @ [c\<lparr>cn_ip := ip, cn_release := True\<rparr>]\<rparr>)))"

text \<open>\<open>Accept\<close> waits for a session or for its caller's context: none.\<close>

definition server_Accept :: "bool \<Rightarrow> bool \<Rightarrow> (nat \<Rightarrow> string \<Rightarrow> bool) \<Rightarrow> sessions \<Rightarrow> (nat res \<times> sessions) option" where
  "server_Accept cancelled pick ctl s =
     (if \<not> ss_started s then Some (Inl ErrClosed, s)
      else case ss_queue s of
             [] \<Rightarrow> if cancelled then Some (Inl ErrClosed, s) else None
           | a # q \<Rightarrow> if cancelled \<and> \<not> pick then Some (Inl ErrClosed, s) else Some (makeConn ctl a (s\<lparr>ss_queue := q\<rparr>)))"

definition release_address :: "conn \<Rightarrow> sessions \<Rightarrow> sessions" where
  "release_address c s = (if cn_release c then s\<lparr>ss_pool := map_option (Release (cn_ip c)) (ss_pool s)\<rparr> else s)"

definition Conn_Close :: "nat \<Rightarrow> sessions \<Rightarrow> sessions" where
  "Conn_Close i s =
     (if \<not> i < length (ss_conns s) then s
      else
        let c = ss_conns s ! i;
            s1 = (if cn_done c then s
                  else
                    let s2 = release_address c (s\<lparr>ss_conns := (ss_conns s)[i := c\<lparr>cn_done := True\<rparr>]\<rparr>) in
                    if cn_stream c then unregisterStream (cn_t c) s2 else s2) in
        close_session (cn_t c) s1)"

definition reapIdle :: "int \<Rightarrow> nat \<Rightarrow> sessions \<Rightarrow> sessions" where
  "reapIdle idle i s =
     (if i < length (ss_conns s) \<and> cn_stream (ss_conns s ! i) \<and> 0 < ss_idle s \<and> \<not> cn_done (ss_conns s ! i) \<and> ss_idle s \<le> idle
      then Conn_Close i s else s)"

inductive lease_step :: "sessions \<Rightarrow> sessions \<Rightarrow> bool" where
  lease_start: "lease_step s (s\<lparr>ss_started := True\<rparr>)"
| lease_stream: "offer stopped pick \<lparr>ac_t = t, ac_generation = g, ac_stream = True\<rparr> (register_stream t s) = Some s' \<Longrightarrow> lease_step s s'"
| lease_datagram: "offer stopped pick \<lparr>ac_t = t, ac_generation = g, ac_stream = False\<rparr> s = Some s' \<Longrightarrow> lease_step s s'"
| lease_accept: "server_Accept cancelled pick ctl s = Some (x, s') \<Longrightarrow> lease_step s s'"
| lease_close: "lease_step s (Conn_Close i s)"
| lease_reap: "lease_step s (reapIdle idle i s)"

inductive_simps lease_step_simps: "lease_step s s'"

section \<open>The leases\<close>

definition open_leases :: "sessions \<Rightarrow> string list" where
  "open_leases s = map cn_ip (filter (\<lambda>c. \<not> cn_done c \<and> cn_release c) (ss_conns s))"

definition lease_inv :: "string set \<Rightarrow> sessions \<Rightarrow> bool" where
  "lease_inv stock s \<longleftrightarrow> (\<exists>p. ss_pool s = Some p \<and> addresses.leased (open_leases s) p \<and> stock_of p = stock)"

lemma lease_same [simp]:
  "lease_inv st (close_session t s) = lease_inv st s" "lease_inv st (unregisterStream t s) = lease_inv st s"
  "lease_inv st (register_stream t s) = lease_inv st s" "lease_inv st (s\<lparr>ss_queue := q\<rparr>) = lease_inv st s"
  "lease_inv st (s\<lparr>ss_started := b\<rparr>) = lease_inv st s"
  by (simp_all add: lease_inv_def open_leases_def close_session_def unregisterStream_def register_stream_def)

lemma mset_filter_update:
  assumes "i < length xs" "P (xs ! i)" "\<not> P y"
  shows "mset (filter P (xs[i := y])) = mset (filter P xs) - {#xs ! i#}"
proof -
  have "mset (filter P (xs[i := y])) = filter_mset P (mset (xs[i := y]))" by (rule mset_filter)
  also have "\<dots> = filter_mset P (mset xs) - {#xs ! i#}" using assms(2,3) by (simp only: mset_update [OF assms(1)]) simp
  also have "filter_mset P (mset xs) = mset (filter P xs)" by (rule mset_filter [symmetric])
  finally show ?thesis .
qed

lemma filter_update_other:
  "\<not> P (xs ! i) \<Longrightarrow> \<not> P y \<Longrightarrow> i < length xs \<Longrightarrow> filter P (xs[i := y]) = filter P xs"
proof (induction xs arbitrary: i)
  case (Cons x xs)
  then show ?case by (cases i) auto
qed simp

lemma makeConn_leases:
  assumes "lease_inv st s" "makeConn ctl a s = (x, s')"
  shows "lease_inv st s'" and "x = Inl ErrExhausted \<longleftrightarrow> set (open_leases s) = st"
proof -
  from assms(1) obtain p where p: "ss_pool s = Some p" "addresses.leased (open_leases s) p" "stock_of p = st"
    by (auto simp: lease_inv_def)
  have "lease_inv st s' \<and> (x = Inl ErrExhausted \<longleftrightarrow> set (open_leases s) = st)"
  proof (cases "Allocate p")
    case None
    with assms p addresses.leased_refused [OF p(2) None] show ?thesis by (auto simp: makeConn_def Let_def)
  next
    case (Some r)
    obtain ip p1 where r: "r = (ip, p1)" by (cases r)
    note grant = addresses.leased_grant [OF p(2) Some [unfolded r]]
    have more: "set (open_leases s) \<noteq> st"
      using addresses.leased_within [of "open_leases s @ [ip]" p1] grant p(3) by auto
    show ?thesis
    proof (cases "ctl (ac_t a) ip")
      case True
      with assms(2) p(1) Some r have s': "x = Inr (length (ss_conns s))" "ss_pool s' = Some p1"
          "open_leases s' = open_leases s @ [ip]"
        by (auto simp: makeConn_def Let_def open_leases_def)
      with grant p(3) more show ?thesis by (simp add: lease_inv_def)
    next
      case False
      with assms(2) p(1) Some r have s': "x = Inl ErrNet" "s' = close_session (ac_t a) (s\<lparr>ss_pool := Some (Release ip p1)\<rparr>)"
        by (auto simp: makeConn_def Let_def)
      have "ip \<notin> set (open_leases s)"
        using grant addresses.leased_within [of "open_leases s @ [ip]" p1] by auto
      then have "remove1 ip (open_leases s @ [ip]) = open_leases s" by (simp add: remove1_append)
      with addresses.leased_return [of "open_leases s @ [ip]" p1 ip] grant p(3)
      have "lease_inv st (s\<lparr>ss_pool := Some (Release ip p1)\<rparr>)" by (simp add: lease_inv_def open_leases_def)
      with s' more show ?thesis by simp
    qed
  qed
  then show "lease_inv st s'" "x = Inl ErrExhausted \<longleftrightarrow> set (open_leases s) = st" by blast+
qed

lemma Conn_Close_leases:
  assumes "lease_inv st s"
  shows "lease_inv st (Conn_Close i s)"
proof (cases "i < length (ss_conns s) \<and> \<not> cn_done (ss_conns s ! i)")
  case True
  define c where "c = ss_conns s ! i"
  define s2 where "s2 = release_address c (s\<lparr>ss_conns := (ss_conns s)[i := c\<lparr>cn_done := True\<rparr>]\<rparr>)"
  from assms obtain p where p: "ss_pool s = Some p" "addresses.leased (open_leases s) p" "stock_of p = st"
    by (auto simp: lease_inv_def)
  have "lease_inv st s2"
  proof (cases "cn_release c")
    case rel: True
    have m: "mset (open_leases s2) = mset (remove1 (cn_ip c) (open_leases s))"
      using True rel
      by (simp add: open_leases_def s2_def release_address_def c_def mset_filter_update image_mset_Diff flip: mset_filter)
    have "c \<in> set (ss_conns s)" using True by (simp add: c_def)
    then have "cn_ip c \<in> set (open_leases s)" using True rel by (auto simp: open_leases_def c_def)
    from addresses.leased_return [OF p(2) this] have "addresses.leased (open_leases s2) (Release (cn_ip c) p)" "stock_of (Release (cn_ip c) p) = st"
      using addresses.leased_mset [OF _ m] p(3) by auto
    moreover have "ss_pool s2 = Some (Release (cn_ip c) p)" using rel p(1) by (simp add: s2_def release_address_def)
    ultimately show ?thesis by (simp add: lease_inv_def)
  next
    case False
    then have "open_leases s2 = open_leases s" using True
      by (simp add: open_leases_def s2_def release_address_def c_def filter_update_other)
    with False p show ?thesis by (simp add: lease_inv_def s2_def release_address_def)
  qed
  then show ?thesis using True by (simp add: Conn_Close_def Let_def flip: c_def s2_def)
next
  case False
  with assms show ?thesis by (auto simp: Conn_Close_def Let_def)
qed

lemma offer_leases: "offer stopped pick a s = Some s' \<Longrightarrow> lease_inv st s \<Longrightarrow> lease_inv st s'"
  by (auto simp: offer_def split: if_splits)

lemma Accept_leases: "server_Accept cancelled pick ctl s = Some (x, s') \<Longrightarrow> lease_inv st s \<Longrightarrow> lease_inv st s'"
  by (auto simp: server_Accept_def split: if_splits list.splits dest: makeConn_leases(1) [rotated])

interpretation leases: invariant_of lease_step "lease_inv st" for st
proof unfold_locales
  fix s s'
  assume "lease_step s s'" and inv: "lease_inv st s"
  then show "lease_inv st s'"
  proof (cases rule: lease_step.cases)
    case (lease_stream stopped pick t g)
    with inv show ?thesis by (auto dest: offer_leases)
  qed (use inv in \<open>auto simp: Conn_Close_leases reapIdle_def dest: offer_leases Accept_leases\<close>)
qed

lemma new_leases:
  assumes "newAddressPool cidr = Inr p" "ParseCIDR cidr = Some (ip, ones, 32)"
  shows "lease_inv (stock_of p) (new_sessions idle (Some p))"
  using newAddressPool_inv [OF assms] by (simp add: lease_inv_def new_sessions_def open_leases_def addresses.leased_def)

lemma stock_size: "pool_inv p \<Longrightarrow> card (stock_of p) = ap_count p"
  by (simp add: stock_of_def card_image ipString_inj)

text \<open>
  C23. Client addresses: in every run of the server, sessions being offered, accepted, closed
  any number of times and reaped in any order, the sessions that are open hold pairwise
  different addresses, each inside the configured network and neither its own address, nor the
  first (the server's), nor the last (the broadcast address); and \<open>Accept\<close> refuses a client for
  want of an address exactly if all \<open>2^(32-ones) - 3\<close> addresses are held by open sessions.
\<close>
theorem addresses_unique:
  assumes "newAddressPool cidr = Inr p" "ParseCIDR cidr = Some (ip, ones, 32)" "reach lease_step (new_sessions idle (Some p)) s"
  defines "open_addresses \<equiv> map cn_ip (filter (\<lambda>c. \<not> cn_done c \<and> cn_release c) (ss_conns s))"
  shows "distinct open_addresses \<and>
    (\<forall>a \<in> set open_addresses. \<exists>n. parse_ip a = Some (as16 (V4 (be_bytes 4 n))) \<and>
        unat (ap_ip p) + 2 \<le> n \<and> n \<le> unat (ap_ip p) + 2 ^ (32 - ones) - 2) \<and>
    (\<forall>ctl a x s'. makeConn ctl a s = (x, s') \<longrightarrow>
        (x = Inl ErrExhausted \<longleftrightarrow> length open_addresses = 2 ^ (32 - ones) - 3))"
proof -
  note P = newAddressPool_inv [OF assms(1,2)]
  have o: "open_addresses = open_leases s" by (simp add: open_addresses_def open_leases_def)
  have inv: "lease_inv (stock_of p) s" by (rule leases.run_keeps [OF assms(3) new_leases [OF assms(1,2)]])
  then have within: "distinct open_addresses" "set open_addresses \<subseteq> stock_of p"
    using addresses.leased_within unfolding lease_inv_def o by blast+
  have two: "2 \<le> 32 - ones" using P by arith
  have big: "(4 :: nat) \<le> 2 ^ (32 - ones)" using power_increasing [OF two, of "2 :: nat"] by simp
  have "\<exists>n. parse_ip a = Some (as16 (V4 (be_bytes 4 n))) \<and> unat (ap_ip p) + 2 \<le> n \<and> n \<le> unat (ap_ip p) + 2 ^ (32 - ones) - 2"
    if "a \<in> set open_addresses" for a
  proof -
    from that within(2) have "a \<in> stock_of p" by blast
    then obtain n where "parse_ip a = Some (as16 (V4 (be_bytes 4 n)))" "unat (ap_ip p) + 2 \<le> n"
      "n < unat (ap_ip p) + 2 + ap_count p" by (rule stock_numbers [OF conjunct1 [OF P]])
    moreover from this(3) P big have "n \<le> unat (ap_ip p) + 2 ^ (32 - ones) - 2" by simp
    ultimately show ?thesis by blast
  qed
  moreover have "x = Inl ErrExhausted \<longleftrightarrow> length open_addresses = 2 ^ (32 - ones) - 3" if "makeConn ctl a s = (x, s')" for ctl a x s'
  proof -
    have size: "card (stock_of p) = 2 ^ (32 - ones) - 3" using stock_size P by simp
    have "x = Inl ErrExhausted \<longleftrightarrow> set open_addresses = stock_of p" unfolding o by (rule makeConn_leases(2) [OF inv that])
    also have "\<dots> \<longleftrightarrow> length open_addresses = card (stock_of p)"
      using within distinct_card [OF within(1)] by (metis card_subset_eq finite_imageI finite_lessThan stock_of_def)
    finally show ?thesis by (simp only: size)
  qed
  ultimately show ?thesis using within(1) by blast
qed

text \<open>A network with five addresses; two clients, of which the first leaves.\<close>

definition sample_cidr :: string where
  "sample_cidr = ''10.0.0.0/29''"

definition sample_accepted :: "nat \<Rightarrow> accepted" where
  "sample_accepted t = \<lparr>ac_t = t, ac_generation = 0, ac_stream = True\<rparr>"

lemma sample_pool:
  shows "ParseCIDR sample_cidr = Some (as16 (V4 [10, 0, 0, 0]), 29, 32)" and "\<exists>p. newAddressPool sample_cidr = Inr p"
proof -
  show cidr: "ParseCIDR sample_cidr = Some (as16 (V4 [10, 0, 0, 0]), 29, 32)" by code_simp
  have "to4 (as16 (V4 [10, 0, 0, 0])) = Some [10, 0, 0, 0]" "sint (push_bit (32 - 29) 1 - 3 :: 64 word) = 5" by code_simp+
  then show "\<exists>p. newAddressPool sample_cidr = Inr p" by (simp add: newAddressPool_def cidr Let_def)
qed

text \<open>Two clients are accepted and the first one leaves, closing twice.\<close>

definition sample_offered :: "address_pool \<Rightarrow> sessions" where
  "sample_offered p = (new_sessions 0 (Some p))\<lparr>ss_started := True, ss_streams := [1, 0], ss_queue := [sample_accepted 0, sample_accepted 1]\<rparr>"

definition sample_run :: "address_pool \<Rightarrow> sessions" where
  "sample_run p =
     (let s1 = snd (the (server_Accept False True (\<lambda>_ _. True) (sample_offered p)));
          s2 = snd (the (server_Accept False True (\<lambda>_ _. True) s1)) in
      Conn_Close 0 (Conn_Close 0 s2))"

lemma makeConn_fields [simp]:
  "ss_started (snd (makeConn ctl a s)) = ss_started s" "ss_queue (snd (makeConn ctl a s)) = ss_queue s"
  by (simp_all add: makeConn_def Let_def close_session_def split: option.split)

lemma lease_accept_snd: "server_Accept cancelled pick ctl s = Some r \<Longrightarrow> lease_step s (snd r)"
  by (cases r) (auto intro: lease_accept)

lemma sample_run_reached: "reach lease_step (new_sessions 0 (Some p)) (sample_run p)"
proof -
  note next_step = reach.reach_step [where step = lease_step]
  let ?s1 = "(new_sessions 0 (Some p))\<lparr>ss_started := True\<rparr>"
  let ?s2 = "?s1\<lparr>ss_streams := [0], ss_queue := [sample_accepted 0]\<rparr>"
  let ?a1 = "snd (makeConn (\<lambda>_ _. True) (sample_accepted 0) (sample_offered p\<lparr>ss_queue := [sample_accepted 1]\<rparr>))"
  have 1: "reach lease_step (new_sessions 0 (Some p)) ?s1" by (rule next_step [OF reach_start lease_start])
  have "offer False True \<lparr>ac_t = 0, ac_generation = 0, ac_stream = True\<rparr> (register_stream 0 ?s1) = Some ?s2"
    by (simp add: offer_def register_stream_def new_sessions_def sample_accepted_def)
  from next_step [OF 1 lease_stream [OF this]] have 2: "reach lease_step (new_sessions 0 (Some p)) ?s2" .
  have "offer False True \<lparr>ac_t = 1, ac_generation = 0, ac_stream = True\<rparr> (register_stream 1 ?s2) = Some (sample_offered p)"
    by (simp add: offer_def register_stream_def new_sessions_def sample_accepted_def sample_offered_def)
  from next_step [OF 2 lease_stream [OF this]] have 3: "reach lease_step (new_sessions 0 (Some p)) (sample_offered p)" .
  have a: "server_Accept False True (\<lambda>_ _. True) (sample_offered p) =
      Some (makeConn (\<lambda>_ _. True) (sample_accepted 0) (sample_offered p\<lparr>ss_queue := [sample_accepted 1]\<rparr>))"
    by (simp add: server_Accept_def sample_offered_def)
  from next_step [OF 3 lease_accept_snd [OF a]]
  have 4: "reach lease_step (new_sessions 0 (Some p)) ?a1" by simp
  have b: "server_Accept False True (\<lambda>_ _. True) ?a1 = Some (makeConn (\<lambda>_ _. True) (sample_accepted 1) (?a1\<lparr>ss_queue := []\<rparr>))"
    by (simp add: server_Accept_def) (simp add: sample_offered_def)
  from next_step [OF 4 lease_accept_snd [OF b]]
  have 5: "reach lease_step (new_sessions 0 (Some p)) (snd (makeConn (\<lambda>_ _. True) (sample_accepted 1) (?a1\<lparr>ss_queue := []\<rparr>)))" by simp
  from next_step [OF next_step [OF 5 lease_close] lease_close] show ?thesis unfolding sample_run_def Let_def a option.sel b .
qed

theorem addresses_unique_witness:
  "\<exists>p. newAddressPool sample_cidr = Inr p \<and> reach lease_step (new_sessions 0 (Some p)) (sample_run p) \<and>
     distinct (map cn_ip (filter (\<lambda>c. \<not> cn_done c \<and> cn_release c) (ss_conns (sample_run p))))"
proof -
  obtain p where p: "newAddressPool sample_cidr = Inr p" using sample_pool(2) by blast
  from addresses_unique [OF p sample_pool(1) sample_run_reached] p sample_run_reached show ?thesis by blast
qed

end
