(* ===== verification/Client.thy ===== *)
theory Client
  imports Core_Config Tunnel_Handshake Server_Tunnel Samples
begin

text \<open>
  The client (\<open>core/core.go\<close>): one dial of one generation at one address, the sweep of
  \<open>StartContext\<close> over transports, generations and derived ports, and the base generation that a
  server's pushes advance. What the network does during a dial is an argument of \<open>dialSession\<close>;
  the sweep is modelled over any dial, which may depend on everything that was tried before.
\<close>

section \<open>One dial\<close>

text \<open>\<open>nv_connect\<close> is the outcome of opening the transport: the peer's address.\<close>

record net_view =
  nv_connect :: "string res"
  nv_net :: "bytes \<Rightarrow> bool"
  nv_events :: "read_event list"
  nv_rnd :: reader
  nv_now :: int
  nv_done :: int               \<comment> \<open>the clock when the handshake is over\<close>

text \<open>An endpoint with the settings of \<open>configureTunnel\<close>; no keepalive pump is none.\<close>

record endpoint =
  ep_tun :: tunnel
  ep_jitter :: int
  ep_mask :: "noise_mask option"
  ep_keepalive :: "int option"

definition SetKeepalive :: "int \<Rightarrow> int option" where
  "SetKeepalive interval = (if interval < 0 then None else if interval = 0 then Some (25 * second) else Some interval)"

definition configureTunnel :: "core_config \<Rightarrow> int list \<Rightarrow> tunnel \<Rightarrow> endpoint" where
  "configureTunnel cfg shapeBuckets t =
     \<lparr>ep_tun = (if \<not> c_no_shape cfg \<and> shapeBuckets \<noteq> [] then t\<lparr>tsess := SetShapeBuckets (tsess t) shapeBuckets\<rparr> else t),
      ep_jitter = max 0 (c_jitter cfg),
      ep_mask = NewNoiseTxMask (c_decoy_every cfg) (c_decoy_max cfg) shapeBuckets,
      ep_keepalive = SetKeepalive (c_keepalive cfg)\<rparr>"

text \<open>\<open>None\<close>: the generator never returns, or the endpoint still waits when the events end.\<close>

definition dialSession :: "crypto \<Rightarrow> bytes \<Rightarrow> core_config \<Rightarrow> nat \<Rightarrow> int \<Rightarrow> net_view \<Rightarrow> endpoint res option" where
  "dialSession C mark cfg gen_no timeout v =
     (let seed = (case parseHex32 (c_seed cfg) of Inl _ \<Rightarrow> [] | Inr b \<Rightarrow> b);
          psk = (case parseHex32 (c_psk cfg) of Inl _ \<Rightarrow> [] | Inr b \<Rightarrow> b) in
      case nv_connect v of Inl e \<Rightarrow> Some (Inl e) | Inr peer \<Rightarrow>
        case GenerateWithCipher C seed gen_no (c_cipher cfg) of None \<Rightarrow> None | Some (Inl e) \<Rightarrow> Some (Inl e) | Some (Inr g) \<Rightarrow>
          case Compile C (Some g) psk of Inl e \<Rightarrow> Some (Inl e) | Inr cp \<Rightarrow>
            case NewHandshake cp DirClient psk (nv_rnd v) of Inl e \<Rightarrow> Some (Inl e) | Inr (h, rnd) \<Rightarrow>
              case runHandshake C mark (nv_net v) h (Some peer) True (if timeout \<le> 0 then handshakeTimeout else timeout)
                     (nv_now v) (nv_events v) rnd of
                (Waiting, _) \<Rightarrow> None
              | (Aborted e, _) \<Rightarrow> Some (Inl e)
              | (Finished, r) \<Rightarrow>
                  (case FinishPacket C (run_h r) of Inl e \<Rightarrow> Some (Inl e) | Inr sess \<Rightarrow>
                     Some (Inr (configureTunnel cfg (resolveShapeLadder cfg (ShapeBucketsForGenome C (Some g)))
                       (NewPacketTunnel (Some peer) sess (nv_done v) (run_rnd r))))))"

section \<open>The client\<close>

record client =
  cl_cfg :: core_config
  cl_tun :: "endpoint option"
  cl_gen :: nat
  cl_base :: nat                  \<comment> \<open>\<open>genBase\<close>\<close>
  cl_transport :: "string option"

definition NewClient :: "bytes \<Rightarrow> core_config \<Rightarrow> client res \<times> bytes" where
  "NewClient mark cfg0 =
     (case NormalizeConfig cfg0 of
        Inl e \<Rightarrow> (Inl e, mark)
      | Inr cfg \<Rightarrow>
          (case SetProbeMark mark (c_mark cfg) of
             (Inl e, mark1) \<Rightarrow> (Inl e, mark1)
           | (Inr _, mark1) \<Rightarrow> (Inr \<lparr>cl_cfg = cfg, cl_tun = None, cl_gen = 0, cl_base = 0, cl_transport = None\<rparr>, mark1)))"

definition BaseGeneration :: "client \<Rightarrow> nat" where
  "BaseGeneration c = (if c_generation (cl_cfg c) < cl_base c then cl_base c else c_generation (cl_cfg c))"

definition WorkingTransport :: "client \<Rightarrow> string" where
  "WorkingTransport c = (case cl_transport c of None \<Rightarrow> [] | Some tr \<Rightarrow> tr)"

text \<open>The callback that \<open>StartContext\<close> registers for generation pushes.\<close>

definition on_generation :: "nat \<Rightarrow> client \<Rightarrow> client" where
  "on_generation g c = (if g \<le> cl_base c then c else c\<lparr>cl_base := g\<rparr>)"

definition client_Close :: "client \<Rightarrow> client" where
  "client_Close c = c\<lparr>cl_tun := None\<rparr>"

section \<open>The sweep\<close>

record attempt =
  at_transport :: string
  at_addr :: string
  at_generation :: nat
  at_timeout :: int

type_synonym dialer = "attempt list \<Rightarrow> attempt \<Rightarrow> endpoint res"

definition PortHopHandshakeTimeout :: int where
  "PortHopHandshakeTimeout = 3 * second"

definition session_timeout :: "nat \<Rightarrow> int \<Rightarrow> int" where
  "session_timeout addrs timeoutOverride =
     (let timeout = (if 1 < addrs then PortHopHandshakeTimeout else 0) in
      if 0 < timeoutOverride \<and> (timeout = 0 \<or> timeoutOverride < timeout) then timeoutOverride else timeout)"

text \<open>The loop of \<open>startSessionCtxWithTimeout\<close>; \<open>cancelled\<close> looks at the context.\<close>

fun try_addrs ::
  "dialer \<Rightarrow> (attempt list \<Rightarrow> bool) \<Rightarrow> string \<Rightarrow> nat \<Rightarrow> int \<Rightarrow> string list \<Rightarrow> error option \<Rightarrow> attempt list \<Rightarrow>
     endpoint res \<times> attempt list" where
  "try_addrs dial cancelled tr gen_no timeout [] lastErr log =
     (Inl (case lastErr of None \<Rightarrow> ErrTimeout | Some e \<Rightarrow> e), log)"
| "try_addrs dial cancelled tr gen_no timeout (addr # addrs) lastErr log =
     (if cancelled log then (Inl ErrClosed, log)
      else let at = \<lparr>at_transport = tr, at_addr = addr, at_generation = gen_no, at_timeout = timeout\<rparr> in
           case dial log at of
             Inr t \<Rightarrow> (Inr t, log @ [at])
           | Inl e \<Rightarrow> try_addrs dial cancelled tr gen_no timeout addrs (Some e) (log @ [at]))"

definition startSessionCtxWithTimeout ::
  "crypto \<Rightarrow> dialer \<Rightarrow> (attempt list \<Rightarrow> bool) \<Rightarrow> core_config \<Rightarrow> nat \<Rightarrow> int \<Rightarrow> attempt list \<Rightarrow> endpoint res \<times> attempt list" where
  "startSessionCtxWithTimeout C dial cancelled cfg gen_no timeoutOverride log =
     (case hopAddrsForConfig C cfg of
        Inl e \<Rightarrow> (Inl e, log)
      | Inr addrs \<Rightarrow>
          try_addrs dial cancelled (c_transport cfg) gen_no (session_timeout (length addrs) timeoutOverride) addrs None log)"

text \<open>
  The generations of one transport, \<open>n\<close> more attempts after \<open>attempt\<close>: a session with its
  generation, or the error of the last attempt and whether the context ended the sweep.
\<close>

fun try_generations ::
  "crypto \<Rightarrow> dialer \<Rightarrow> (attempt list \<Rightarrow> bool) \<Rightarrow> core_config \<Rightarrow> nat \<Rightarrow> int \<Rightarrow> nat \<Rightarrow> nat \<Rightarrow> error option \<Rightarrow> attempt list \<Rightarrow>
     (endpoint \<times> nat) option \<times> bool \<times> error option \<times> attempt list" where
  "try_generations C dial cancelled cfg base timeout attempt 0 lastErr log = (None, False, lastErr, log)"
| "try_generations C dial cancelled cfg base timeout attempt (Suc n) lastErr log =
     (if cancelled log then (None, True, Some (case lastErr of None \<Rightarrow> ErrClosed | Some e \<Rightarrow> e), log)
      else case startSessionCtxWithTimeout C dial cancelled cfg (w64 (base + attempt)) timeout log of
             (Inr t, log1) \<Rightarrow> (Some (t, w64 (base + attempt)), False, lastErr, log1)
           | (Inl e, log1) \<Rightarrow>
               if e \<noteq> ErrTimeout then (None, False, Some e, log1)
               else try_generations C dial cancelled cfg base timeout (Suc attempt) n (Some e) log1)"

definition established :: "endpoint \<Rightarrow> nat \<Rightarrow> string \<Rightarrow> client \<Rightarrow> client" where
  "established t g tr c =
     (let c1 = c\<lparr>cl_tun := Some t, cl_gen := g, cl_transport := Some tr\<rparr>;
          pushed = tremote_gen (ep_tun t) in
      if cl_base c1 < pushed then c1\<lparr>cl_base := pushed\<rparr> else c1)"

fun try_transports ::
  "crypto \<Rightarrow> dialer \<Rightarrow> (attempt list \<Rightarrow> bool) \<Rightarrow> int \<Rightarrow> string list \<Rightarrow> error option \<Rightarrow> attempt list \<Rightarrow> client \<Rightarrow>
     unit res \<times> attempt list \<times> client" where
  "try_transports C dial cancelled timeout [] lastErr log c =
     (case lastErr of None \<Rightarrow> Inr () | Some e \<Rightarrow> Inl e, log, c)"
| "try_transports C dial cancelled timeout (tr # trs) lastErr log c =
     (case try_generations C dial cancelled ((cl_cfg c)\<lparr>c_transport := tr\<rparr>) (BaseGeneration c) timeout 0
             (Suc (c_window (cl_cfg c))) lastErr log of
        (Some (t, g), _, _, log1) \<Rightarrow> (Inr (), log1, established t g tr c)
      | (None, True, e, log1) \<Rightarrow> (case e of None \<Rightarrow> Inr () | Some e \<Rightarrow> Inl e, log1, c)
      | (None, False, e, log1) \<Rightarrow> try_transports C dial cancelled timeout trs e log1 c)"

definition StartContext ::
  "crypto \<Rightarrow> dialer \<Rightarrow> (attempt list \<Rightarrow> bool) \<Rightarrow> client \<Rightarrow> unit res \<times> attempt list \<times> client" where
  "StartContext C dial cancelled c =
     (if cl_tun c \<noteq> None then (Inl ErrClosed, [], c)
      else let transports = (if c_transports (cl_cfg c) = [] then [c_transport (cl_cfg c)] else c_transports (cl_cfg c)) in
           try_transports C dial cancelled (if 1 < length transports then PortHopHandshakeTimeout else 0) transports None [] c)"

section \<open>Where a sweep ends\<close>

text \<open>A dial that is answered at one place, by the generations in a set, and times out elsewhere.\<close>

definition answers :: "dialer \<Rightarrow> string \<Rightarrow> string \<Rightarrow> nat set \<Rightarrow> endpoint \<Rightarrow> bool" where
  "answers dial tr a G t \<longleftrightarrow>
     (\<forall>log at. dial log at = (if at_transport at = tr \<and> at_addr at = a \<and> at_generation at \<in> G then Inr t else Inl ErrTimeout))"

lemma try_addrs_silent:
  assumes "answers dial tr0 a G t" "\<forall>log. \<not> cancelled log" "tr = tr0 \<longrightarrow> gen_no \<notin> G" "addrs \<noteq> [] \<or> lastErr \<in> {None, Some ErrTimeout}"
  shows "\<exists>log'. try_addrs dial cancelled tr gen_no timeout addrs lastErr log = (Inl ErrTimeout, log') \<and>
    length log' = length log + length addrs"
  using assms(4)
proof (induction addrs arbitrary: lastErr log)
  case (Cons addr addrs)
  let ?at = "\<lparr>at_transport = tr, at_addr = addr, at_generation = gen_no, at_timeout = timeout\<rparr>"
  have "dial log ?at = Inl ErrTimeout" "\<not> cancelled log" using assms(1-3) by (auto simp: answers_def)
  with Cons.IH [of "Some ErrTimeout" "log @ [?at]"] show ?case by (simp add: Let_def)
qed auto

lemma try_addrs_found:
  assumes "answers dial tr a G t" "\<forall>log. \<not> cancelled log" "gen_no \<in> G" "a \<in> set addrs"
  shows "\<exists>log'. try_addrs dial cancelled tr gen_no timeout addrs lastErr log = (Inr t, log') \<and>
    length log' \<le> length log + length addrs"
  using assms(4)
proof (induction addrs arbitrary: lastErr log)
  case (Cons addr addrs)
  let ?at = "\<lparr>at_transport = tr, at_addr = addr, at_generation = gen_no, at_timeout = timeout\<rparr>"
  show ?case
  proof (cases "addr = a")
    case True
    with assms(1-3) have "dial log ?at = Inr t" "\<not> cancelled log" by (auto simp: answers_def)
    then show ?thesis by (simp add: Let_def)
  next
    case False
    with Cons.prems have "a \<in> set addrs" by simp
    from Cons.IH [OF this, of "Some ErrTimeout" "log @ [?at]"] obtain log' where
      "try_addrs dial cancelled tr gen_no timeout addrs (Some ErrTimeout) (log @ [?at]) = (Inr t, log')"
      "length log' \<le> length (log @ [?at]) + length addrs" by blast
    moreover have "dial log ?at = Inl ErrTimeout" "\<not> cancelled log" using assms(1,2) False by (auto simp: answers_def)
    ultimately show ?thesis by (simp add: Let_def)
  qed
qed simp

lemma hopAddrs_transport [simp]: "hopAddrsForConfig C (cfg\<lparr>c_transport := tr\<rparr>) = hopAddrsForConfig C cfg"
proof -
  have e: "c_addr (cfg\<lparr>c_transport := tr\<rparr>) = c_addr cfg" "c_hop_count (cfg\<lparr>c_transport := tr\<rparr>) = c_hop_count cfg"
    "c_hop_spread (cfg\<lparr>c_transport := tr\<rparr>) = c_hop_spread cfg" "c_seed (cfg\<lparr>c_transport := tr\<rparr>) = c_seed cfg"
    "c_generation (cfg\<lparr>c_transport := tr\<rparr>) = c_generation cfg" by simp_all
  show ?thesis unfolding hopAddrsForConfig_def hopPortsForConfig_def hop_spread_def e ..
qed

lemma try_generations_silent:
  assumes "answers dial tr0 a G t" "\<forall>log. \<not> cancelled log" "hopAddrsForConfig C cfg = Inr addrs"
    "\<forall>i < n. c_transport cfg = tr0 \<longrightarrow> w64 (base + attempt + i) \<notin> G" "0 < n \<or> lastErr = Some ErrTimeout"
  shows "\<exists>log'. try_generations C dial cancelled cfg base timeout attempt n lastErr log = (None, False, Some ErrTimeout, log') \<and>
    length log' = length log + n * length addrs"
  using assms(4,5)
proof (induction n arbitrary: attempt lastErr log)
  case (Suc n)
  have "c_transport cfg = tr0 \<longrightarrow> w64 (base + attempt) \<notin> G" using Suc.prems(1) by fastforce
  from try_addrs_silent [OF assms(1,2) this, of addrs None "session_timeout (length addrs) timeout" log] obtain log1 where
    1: "startSessionCtxWithTimeout C dial cancelled cfg (w64 (base + attempt)) timeout log = (Inl ErrTimeout, log1)"
    "length log1 = length log + length addrs"
    by (auto simp: startSessionCtxWithTimeout_def assms(3))
  have "\<forall>i < n. c_transport cfg = tr0 \<longrightarrow> w64 (base + Suc attempt + i) \<notin> G" using Suc.prems(1) by fastforce
  moreover have "\<not> cancelled log" using assms(2) by blast
  ultimately show ?case using Suc.IH [of "Suc attempt" "Some ErrTimeout" log1] 1 by auto
qed simp

lemma try_generations_found:
  assumes "answers dial (c_transport cfg) a G t" "\<forall>log. \<not> cancelled log" "hopAddrsForConfig C cfg = Inr addrs" "a \<in> set addrs"
    "base + attempt + n \<le> 2 ^ 64" "k < n" "base + attempt + k \<in> G" "\<forall>i < k. base + attempt + i \<notin> G"
  shows "\<exists>e log'. try_generations C dial cancelled cfg base timeout attempt n lastErr log =
      (Some (t, base + attempt + k), False, e, log') \<and> length log' \<le> length log + n * length addrs"
  using assms(5-8)
proof (induction n arbitrary: attempt lastErr log k)
  case (Suc n)
  have w: "w64 (base + attempt) = base + attempt" using Suc.prems(1) by simp
  show ?case
  proof (cases k)
    case 0
    with Suc.prems(3) have "w64 (base + attempt) \<in> G" by (simp add: w)
    from try_addrs_found [OF assms(1,2) this assms(4), of "session_timeout (length addrs) timeout" None log] obtain log' where
      "startSessionCtxWithTimeout C dial cancelled cfg (w64 (base + attempt)) timeout log = (Inr t, log')"
      "length log' \<le> length log + length addrs"
      by (auto simp: startSessionCtxWithTimeout_def assms(3))
    moreover have "\<not> cancelled log" using assms(2) by blast
    ultimately show ?thesis using 0 w by simp
  next
    case (Suc j)
    have "c_transport cfg = c_transport cfg \<longrightarrow> w64 (base + attempt) \<notin> G"
      using Suc.prems(4) Suc by (metis add_0_right w zero_less_Suc)
    from try_addrs_silent [OF assms(1,2) this, of addrs None "session_timeout (length addrs) timeout" log] obtain log1 where
      1: "startSessionCtxWithTimeout C dial cancelled cfg (w64 (base + attempt)) timeout log = (Inl ErrTimeout, log1)"
      "length log1 = length log + length addrs"
      by (auto simp: startSessionCtxWithTimeout_def assms(3))
    have "base + Suc attempt + n \<le> 2 ^ 64" "j < n" "base + Suc attempt + j \<in> G" "\<forall>i < j. base + Suc attempt + i \<notin> G"
      using Suc.prems Suc by fastforce+
    from Suc.IH [OF this, of "Some ErrTimeout" log1] obtain e log' where
      "try_generations C dial cancelled cfg base timeout (Suc attempt) n (Some ErrTimeout) log1 = (Some (t, base + Suc attempt + j), False, e, log')"
      "length log' \<le> length log1 + n * length addrs" by blast
    moreover have "\<not> cancelled log" using assms(2) by blast
    ultimately show ?thesis using 1 w Suc by simp
  qed
qed simp

lemma established_fields:
  "cl_tun (established t g tr c) = Some t" "cl_gen (established t g tr c) = g" "WorkingTransport (established t g tr c) = tr"
  "BaseGeneration c \<le> BaseGeneration (established t g tr c)"
  by (simp_all add: established_def Let_def WorkingTransport_def BaseGeneration_def)

lemma try_transports_found:
  assumes "answers dial tr a G t" "\<forall>log. \<not> cancelled log" "hopAddrsForConfig C (cl_cfg c) = Inr addrs" "a \<in> set addrs"
    "BaseGeneration c + c_window (cl_cfg c) < 2 ^ 64" "k \<le> c_window (cl_cfg c)" "BaseGeneration c + k \<in> G"
    "\<forall>i < k. BaseGeneration c + i \<notin> G" "tr \<in> set trs"
  shows "\<exists>log'. try_transports C dial cancelled timeout trs lastErr log c = (Inr (), log', established t (BaseGeneration c + k) tr c) \<and>
    length log' \<le> length log + length trs * (Suc (c_window (cl_cfg c)) * length addrs)"
  using assms(9)
proof (induction trs arbitrary: lastErr log)
  case (Cons x trs)
  let ?cfg = "(cl_cfg c)\<lparr>c_transport := x\<rparr>"
  have addrs: "hopAddrsForConfig C ?cfg = Inr addrs" by (simp add: assms(3))
  show ?case
  proof (cases "x = tr")
    case True
    have "answers dial (c_transport ?cfg) a G t" using assms(1) True by simp
    from try_generations_found [OF this assms(2) addrs assms(4), of "BaseGeneration c" 0 "Suc (c_window (cl_cfg c))" k timeout lastErr log]
      assms(5-8)
    obtain e log' where "try_generations C dial cancelled ?cfg (BaseGeneration c) timeout 0 (Suc (c_window (cl_cfg c))) lastErr log =
        (Some (t, BaseGeneration c + k), False, e, log')" "length log' \<le> length log + Suc (c_window (cl_cfg c)) * length addrs"
      by auto
    with True show ?thesis by (simp del: try_generations.simps)
  next
    case False
    then have "\<forall>i < Suc (c_window (cl_cfg c)). c_transport ?cfg = tr \<longrightarrow> w64 (BaseGeneration c + 0 + i) \<notin> G" by simp
    from try_generations_silent [OF assms(1,2) addrs this, of lastErr timeout log] obtain log1 where
      1: "try_generations C dial cancelled ?cfg (BaseGeneration c) timeout 0 (Suc (c_window (cl_cfg c))) lastErr log =
        (None, False, Some ErrTimeout, log1)" "length log1 = length log + Suc (c_window (cl_cfg c)) * length addrs" by auto
    from False Cons.prems have "tr \<in> set trs" by simp
    from Cons.IH [OF this, of "Some ErrTimeout" log1] 1 show ?thesis by (auto simp del: try_generations.simps)
  qed
qed simp

text \<open>
  C24. The client's sweep finds its server: if the server answers over one of the configured
  transports at one of the derived ports, to any of the generations in the client's window,
  and everything else times out, \<open>StartContext\<close> returns a session over that transport with the
  lowest generation that the server accepts, after at most one dial per transport, generation
  and port; and the generation from which the client starts next time has not gone back.
\<close>
theorem client_finds_server:
  assumes "cl_tun c = None" "hopAddrsForConfig C (cl_cfg c) = Inr addrs" "a \<in> set addrs" "tr \<in> set (c_transports (cl_cfg c))"
    "\<And>log at. dial log at = (if at_transport at = tr \<and> at_addr at = a \<and> at_generation at \<in> G then Inr t else Inl ErrTimeout)"
    "\<And>log. \<not> cancelled log" "g \<in> G" "BaseGeneration c \<le> g" "g \<le> BaseGeneration c + c_window (cl_cfg c)"
    "BaseGeneration c + c_window (cl_cfg c) < 2 ^ 64"
  shows "\<exists>log c'. StartContext C dial cancelled c = (Inr (), log, c') \<and> cl_tun c' = Some t \<and> WorkingTransport c' = tr \<and>
    cl_gen c' \<in> G \<and> BaseGeneration c \<le> cl_gen c' \<and> (\<forall>g' \<in> G. BaseGeneration c \<le> g' \<longrightarrow> cl_gen c' \<le> g') \<and>
    BaseGeneration c \<le> BaseGeneration c' \<and>
    length log \<le> length (c_transports (cl_cfg c)) * ((c_window (cl_cfg c) + 1) * length addrs)"
proof -
  define k where "k = (LEAST i. BaseGeneration c + i \<in> G)"
  have in_G: "BaseGeneration c + (g - BaseGeneration c) \<in> G" using assms(7,8) by simp
  have k: "BaseGeneration c + k \<in> G" unfolding k_def by (rule LeastI [of "\<lambda>i. BaseGeneration c + i \<in> G", OF in_G])
  have least: "k \<le> i" if "BaseGeneration c + i \<in> G" for i unfolding k_def by (rule Least_le) (rule that)
  have "k \<le> c_window (cl_cfg c)" using least [OF in_G] assms(9) by simp
  moreover have "\<forall>i < k. BaseGeneration c + i \<notin> G" using least leD by blast
  moreover have "answers dial tr a G t" "\<forall>log. \<not> cancelled log" using assms(5,6) by (simp_all add: answers_def)
  ultimately obtain log where
    "try_transports C dial cancelled (if 1 < length (c_transports (cl_cfg c)) then PortHopHandshakeTimeout else 0)
       (c_transports (cl_cfg c)) None [] c = (Inr (), log, established t (BaseGeneration c + k) tr c)"
    "length log \<le> length ([] :: attempt list) + length (c_transports (cl_cfg c)) * (Suc (c_window (cl_cfg c)) * length addrs)"
    using try_transports_found [of dial tr a G t cancelled C c addrs k] assms(2,3,4,10) k by blast
  moreover have "c_transports (cl_cfg c) \<noteq> []" using assms(4) by auto
  moreover have "BaseGeneration c + k \<le> g'" if "g' \<in> G" "BaseGeneration c \<le> g'" for g'
    using least [of "g' - BaseGeneration c"] that by simp
  ultimately show ?thesis
    using assms(1) k established_fields [where t = t and g = "BaseGeneration c + k" and tr = tr and c = c]
    by (intro exI [of _ log] exI [of _ "established t (BaseGeneration c + k) tr c"]) (simp add: StartContext_def)
qed

section \<open>Giving up\<close>

text \<open>A dial that never succeeds, and the error of the last dial in a log.\<close>

definition refuses :: "dialer \<Rightarrow> bool" where
  "refuses dial \<longleftrightarrow> (\<forall>log at. \<not> is_ok (dial log at))"

definition last_error :: "dialer \<Rightarrow> attempt list \<Rightarrow> error \<Rightarrow> bool" where
  "last_error dial log e \<longleftrightarrow> log \<noteq> [] \<and> dial (butlast log) (last log) = Inl e"

lemma try_addrs_fails:
  assumes "refuses dial" "\<forall>log. \<not> cancelled log" "addrs \<noteq> []"
  shows "\<exists>e log'. try_addrs dial cancelled tr gen_no timeout addrs lastErr log = (Inl e, log') \<and> last_error dial log' e \<and>
    length log' = length log + length addrs"
  using assms(3)
proof (induction addrs arbitrary: lastErr log)
  case (Cons addr addrs)
  let ?at = "\<lparr>at_transport = tr, at_addr = addr, at_generation = gen_no, at_timeout = timeout\<rparr>"
  obtain e where e: "dial log ?at = Inl e" using assms(1) unfolding refuses_def is_ok_iff by (metis sum.exhaust)
  have n: "\<not> cancelled log" using assms(2) by blast
  show ?case
  proof (cases "addrs = []")
    case True
    with e n show ?thesis by (simp add: last_error_def Let_def)
  next
    case False
    from Cons.IH [OF this, of "Some e" "log @ [?at]"] e n show ?thesis by (simp add: Let_def)
  qed
qed simp

lemma try_generations_fails:
  assumes "refuses dial" "\<forall>log. \<not> cancelled log" "hopAddrsForConfig C cfg = Inr addrs" "addrs \<noteq> []" "0 < n"
  shows "\<exists>e log'. try_generations C dial cancelled cfg base timeout attempt n lastErr log = (None, False, Some e, log') \<and>
    last_error dial log' e \<and> length log' \<le> length log + n * length addrs \<and>
    ((\<forall>log at. dial log at \<noteq> Inl ErrTimeout) \<longrightarrow> length log' \<le> length log + length addrs)"
  using assms(5)
proof (induction n arbitrary: attempt lastErr log)
  case (Suc n)
  from try_addrs_fails [OF assms(1,2,4), of _ "w64 (base + attempt)" "session_timeout (length addrs) timeout" None log] obtain e log1 where
    1: "startSessionCtxWithTimeout C dial cancelled cfg (w64 (base + attempt)) timeout log = (Inl e, log1)" "last_error dial log1 e"
    "length log1 = length log + length addrs"
    unfolding startSessionCtxWithTimeout_def assms(3) by fastforce
  have n: "\<not> cancelled log" using assms(2) by blast
  consider "e \<noteq> ErrTimeout" | "e = ErrTimeout" "n = 0" | "e = ErrTimeout" "0 < n" by blast
  then show ?case
  proof cases
    case 3
    from Suc.IH [OF 3(2), of "Suc attempt" "Some ErrTimeout" log1] obtain e' log' where
      "try_generations C dial cancelled cfg base timeout (Suc attempt) n (Some ErrTimeout) log1 = (None, False, Some e', log')"
      "last_error dial log' e'" "length log' \<le> length log1 + n * length addrs" by blast
    moreover have "\<not> (\<forall>log at. dial log at \<noteq> Inl ErrTimeout)" using 1(2) 3(1) by (auto simp: last_error_def)
    ultimately show ?thesis using 1 n 3(1) by auto
  qed (use 1 n in simp_all)
qed simp

lemma try_transports_fails:
  assumes "refuses dial" "\<forall>log. \<not> cancelled log" "hopAddrsForConfig C (cl_cfg c) = Inr addrs" "addrs \<noteq> []" "trs \<noteq> []"
  shows "\<exists>e log'. try_transports C dial cancelled timeout trs lastErr log c = (Inl e, log', c) \<and>
    last_error dial log' e \<and> length log' \<le> length log + length trs * (Suc (c_window (cl_cfg c)) * length addrs) \<and>
    ((\<forall>log at. dial log at \<noteq> Inl ErrTimeout) \<longrightarrow> length log' \<le> length log + length trs * length addrs)"
  using assms(5)
proof (induction trs arbitrary: lastErr log)
  case (Cons tr trs)
  let ?cfg = "(cl_cfg c)\<lparr>c_transport := tr\<rparr>"
  have addrs: "hopAddrsForConfig C ?cfg = Inr addrs" by (simp add: assms(3))
  from try_generations_fails [OF assms(1,2) addrs assms(4), of "Suc (c_window (cl_cfg c))" "BaseGeneration c" timeout 0 lastErr log]
  obtain e log1 where
    1: "try_generations C dial cancelled ?cfg (BaseGeneration c) timeout 0 (Suc (c_window (cl_cfg c))) lastErr log = (None, False, Some e, log1)"
    "last_error dial log1 e" "length log1 \<le> length log + Suc (c_window (cl_cfg c)) * length addrs"
    "(\<forall>log at. dial log at \<noteq> Inl ErrTimeout) \<longrightarrow> length log1 \<le> length log + length addrs" by blast
  show ?case
  proof (cases "trs = []")
    case True
    with 1 show ?thesis by (simp del: try_generations.simps)
  next
    case False
    from Cons.IH [OF this, of "Some e" log1] 1 show ?thesis by (fastforce simp del: try_generations.simps)
  qed
qed simp

text \<open>
  When nothing answers, the client gives up: \<open>StartContext\<close> returns the error of the last
  dial and leaves the client as it was, after at most one dial per transport, generation and
  port; errors other than a timeout rule out a transport, so that then no second generation is
  tried on it.
\<close>
theorem client_gives_up:
  assumes "cl_tun c = None" "hopAddrsForConfig C (cl_cfg c) = Inr addrs" "addrs \<noteq> []" "c_transports (cl_cfg c) \<noteq> []"
    "\<And>log at. \<not> is_ok (dial log at)" "\<And>log. \<not> cancelled log"
  shows "\<exists>e log. StartContext C dial cancelled c = (Inl e, log, c) \<and> log \<noteq> [] \<and> dial (butlast log) (last log) = Inl e \<and>
    length log \<le> length (c_transports (cl_cfg c)) * ((c_window (cl_cfg c) + 1) * length addrs) \<and>
    ((\<forall>log at. dial log at \<noteq> Inl ErrTimeout) \<longrightarrow> length log \<le> length (c_transports (cl_cfg c)) * length addrs)"
proof -
  have "refuses dial" "\<forall>log. \<not> cancelled log" using assms(5,6) by (simp_all add: refuses_def)
  from try_transports_fails [OF this assms(2-4), of "if 1 < length (c_transports (cl_cfg c)) then PortHopHandshakeTimeout else 0" None "[]"]
  show ?thesis using assms(1,4) by (simp add: StartContext_def last_error_def Let_def)
qed

section \<open>Witnesses\<close>

definition sample_client_cfg :: core_config where
  "sample_client_cfg = sample_config\<lparr>c_hop_count := 1, c_transports := [''tcp'', ''udp'']\<rparr>"

definition sample_endpoint :: endpoint where
  "sample_endpoint = configureTunnel sample_client_cfg []
     (NewPacketTunnel (Some ''s'') \<lparr>pspec = sample_record, psend = sample_codec, precv = sample_codec\<rparr> 0 zeros)"

definition new_client :: client where
  "new_client = \<lparr>cl_cfg = sample_client_cfg, cl_tun = None, cl_gen = 0, cl_base = 0, cl_transport = None\<rparr>"

lemma new_client_fields:
  "cl_tun new_client = None" "c_transports (cl_cfg new_client) = [''tcp'', ''udp'']" "BaseGeneration new_client = 5"
  "c_window (cl_cfg new_client) = 2" "hopAddrsForConfig C (cl_cfg new_client) = Inr [JoinHostPort ''h'' (int_string 80)]"
  by (simp_all add: new_client_def sample_client_cfg_def sample_config_def BaseGeneration_def hopAddrsForConfig_def
      hopPortsForConfig_def sample_address sample_port)

text \<open>A server that is two generations ahead and answers over UDP only.\<close>

definition sample_dialer :: dialer where
  "sample_dialer = (\<lambda>_ at. if at_transport at = ''udp'' \<and> at_addr at = JoinHostPort ''h'' (int_string 80) \<and> at_generation at \<in> {7}
     then Inr sample_endpoint else Inl ErrTimeout)"

theorem client_finds_server_witness:
  "\<exists>log c'. StartContext demo_crypto sample_dialer (\<lambda>_. False) new_client = (Inr (), log, c') \<and> WorkingTransport c' = ''udp'' \<and>
     cl_gen c' = 7 \<and> length log \<le> 6"
proof -
  have "''udp'' \<in> set (c_transports (cl_cfg new_client))" "JoinHostPort ''h'' (int_string 80) \<in> set [JoinHostPort ''h'' (int_string 80)]"
      "(7 :: nat) \<in> {7}" "BaseGeneration new_client \<le> 7" "7 \<le> BaseGeneration new_client + c_window (cl_cfg new_client)"
      "BaseGeneration new_client + c_window (cl_cfg new_client) < 2 ^ 64" "\<And>log :: attempt list. \<not> (\<lambda>_. False) log"
    by (simp_all add: new_client_fields)
  note f = client_finds_server [OF new_client_fields(1,5) this(2,1) _ this(7,3-6), of sample_dialer sample_endpoint]
  have "sample_dialer log at = (if at_transport at = ''udp'' \<and> at_addr at = JoinHostPort ''h'' (int_string 80) \<and> at_generation at \<in> {7}
      then Inr sample_endpoint else Inl ErrTimeout)" for log at by (simp add: sample_dialer_def)
  from f [OF this, of demo_crypto] obtain log c' where "StartContext demo_crypto sample_dialer (\<lambda>_. False) new_client = (Inr (), log, c')"
    "WorkingTransport c' = ''udp''" "cl_gen c' \<in> {7}"
    "length log \<le> length (c_transports (cl_cfg new_client)) * ((c_window (cl_cfg new_client) + 1) * length [JoinHostPort ''h'' (int_string 80)])"
    by blast
  then show ?thesis by (simp add: new_client_fields)
qed

theorem client_gives_up_witness:
  "\<exists>e log. StartContext demo_crypto (\<lambda>_ _. Inl ErrNet) (\<lambda>_. False) new_client = (Inl e, log, new_client) \<and> e = ErrNet \<and> length log \<le> 2"
proof -
  have p: "[JoinHostPort ''h'' (int_string 80)] \<noteq> []" "c_transports (cl_cfg new_client) \<noteq> []" by (simp_all add: new_client_fields)
  have d: "\<not> is_ok ((\<lambda>_ _. Inl ErrNet :: endpoint res) log at)" for log :: "attempt list" and at :: attempt by simp
  obtain e log where "StartContext demo_crypto (\<lambda>_ _. Inl ErrNet) (\<lambda>_. False) new_client = (Inl e, log, new_client)"
    "(Inl ErrNet :: endpoint res) = Inl e"
    "length log \<le> length (c_transports (cl_cfg new_client)) * length [JoinHostPort ''h'' (int_string 80)]"
    using client_gives_up [OF new_client_fields(1,5) p d, of "\<lambda>_. False" demo_crypto] by auto
  then show ?thesis by (simp add: new_client_fields)
qed

end
