(* ===== verification/Stream.thy ===== *)
theory Stream
  imports Client Server
begin

text \<open>
  The stream transports: the framing of datagrams on a byte stream and the server's handshake
  on one connection (\<open>internal/tunnel/stream.go\<close>), what the server does with a connection that
  does not authenticate (\<open>core/stream_probe.go\<close>), and \<open>handleStreamConn\<close> of \<open>core/core.go\<close>.
\<close>

section \<open>A byte stream\<close>

text \<open>What the peer sends, each byte with the time at which it arrives, and when it closes.\<close>

record stream_conn =
  str_in :: "(int \<times> byte) list"
  str_eof :: "int option"
  str_out :: bytes

definition ready :: "int \<Rightarrow> stream_conn \<Rightarrow> bytes" where
  "ready deadline s = map snd (takeWhile (\<lambda>(t, _). t \<le> deadline) (str_in s))"

definition read_error :: "int \<Rightarrow> stream_conn \<Rightarrow> error" where
  "read_error deadline s =
     (if length (ready deadline s) = length (str_in s) \<and> (case str_eof s of None \<Rightarrow> False | Some t \<Rightarrow> t \<le> deadline)
      then ErrRead else ErrTimeout)"

text \<open>\<open>io.ReadFull\<close> with a deadline: what was read before an error is gone from the stream.\<close>

definition ReadFull :: "int \<Rightarrow> nat \<Rightarrow> stream_conn \<Rightarrow> bytes \<times> error option \<times> stream_conn" where
  "ReadFull deadline n s =
     (let b = take n (ready deadline s) in
      (b, if length b < n then Some (read_error deadline s) else None, s\<lparr>str_in := drop (length b) (str_in s)\<rparr>))"

section \<open>Framing\<close>

definition maxFrameLen :: nat where
  "maxFrameLen = 65535"

definition maxFirstStreamFrameLen :: nat where
  "maxFirstStreamFrameLen = 4096"

definition stream_ReadFrom :: "int \<Rightarrow> nat \<Rightarrow> stream_conn \<Rightarrow> bytes res \<times> stream_conn" where
  "stream_ReadFrom deadline cap s =
     (case ReadFull deadline 2 s of
        (_, Some e, s1) \<Rightarrow> (Inl e, s1)
      | (hdr, None, s1) \<Rightarrow>
          (let n = be_nat hdr in
           if n = 0 then (Inl ErrZeroFrame, s1)
           else if cap < n then
             (case ReadFull deadline n s1 of (_, Some e, s2) \<Rightarrow> (Inl e, s2) | (_, None, s2) \<Rightarrow> (Inl ErrTooLarge, s2))
           else
             (case ReadFull deadline n s1 of (_, Some e, s2) \<Rightarrow> (Inl e, s2) | (b, None, s2) \<Rightarrow> (Inr b, s2))))"

definition stream_WriteTo :: "(bytes \<Rightarrow> bool) \<Rightarrow> bytes \<Rightarrow> stream_conn \<Rightarrow> unit res \<times> stream_conn" where
  "stream_WriteTo net p s =
     (if maxFrameLen < length p then (Inl ErrTooLarge, s)
      else let hdr = be_bytes 2 (length p) in
           if \<not> net hdr then (Inl ErrNet, s)
           else if \<not> net p then (Inl ErrNet, s\<lparr>str_out := str_out s @ hdr\<rparr>)
           else (Inr (), s\<lparr>str_out := str_out s @ hdr @ p\<rparr>))"

text \<open>A connection that gives one frame again that was read before.\<close>

record prefed =
  pf_first :: "bytes option"
  pf_conn :: stream_conn

definition prefed_ReadFrom :: "int \<Rightarrow> nat \<Rightarrow> prefed \<Rightarrow> bytes res \<times> prefed" where
  "prefed_ReadFrom deadline cap p =
     (case pf_first p of
        Some first \<Rightarrow> (if cap < length first then Inl ErrTooLarge else Inr first, p\<lparr>pf_first := None\<rparr>)
      | None \<Rightarrow> (case stream_ReadFrom deadline cap (pf_conn p) of (x, s) \<Rightarrow> (x, p\<lparr>pf_conn := s\<rparr>)))"

section \<open>The handshake on a stream\<close>

fun select_stream_loop ::
  "crypto \<Rightarrow> bytes \<Rightarrow> bytes \<Rightarrow> compiled_protocol list \<Rightarrow> nat \<Rightarrow> compiled_protocol option \<Rightarrow>
     (compiled_protocol \<times> nat) option \<Rightarrow> reader \<Rightarrow>
     (compiled_protocol \<times> nat + compiled_protocol option \<times> (compiled_protocol \<times> nat) option) \<times> reader" where
  "select_stream_loop C psk data [] i primary serverFirst rnd = (Inr (primary, serverFirst), rnd)"
| "select_stream_loop C psk data (cp # cps) i primary serverFirst rnd =
     (case NewHandshake cp DirServer psk rnd of
        Inl _ \<Rightarrow> select_stream_loop C psk data cps (Suc i) primary serverFirst rnd
      | Inr (h, rnd1) \<Rightarrow>
          (let primary1 = (if i = 0 then Some cp else primary) in
           case CurrentSpec h of
             Inl _ \<Rightarrow> select_stream_loop C psk data cps (Suc i) primary1 serverFirst rnd1
           | Inr spec \<Rightarrow>
               if mdirection spec = DirServer then
                 select_stream_loop C psk data cps (Suc i) primary1
                   (if serverFirst = None then Some (cp, i) else serverFirst) rnd1
               else
                 case UnwrapHandshakeDatagram C (Some (cgenome cp)) data of
                   Inl _ \<Rightarrow> select_stream_loop C psk data cps (Suc i) primary1 serverFirst rnd1
                 | Inr inner \<Rightarrow>
                     (case DeclaredFrame spec inner of
                        Inl _ \<Rightarrow> select_stream_loop C psk data cps (Suc i) primary1 serverFirst rnd1
                      | Inr trimmed \<Rightarrow>
                          (case RecvStep C h trimmed of
                             (Inl _, _) \<Rightarrow> select_stream_loop C psk data cps (Suc i) primary1 serverFirst rnd1
                           | (Inr _, _) \<Rightarrow> (Inl (cp, i), rnd1)))))"

definition selectStreamProtocol ::
  "crypto \<Rightarrow> compiled_protocol list \<Rightarrow> bytes \<Rightarrow> bytes \<Rightarrow> reader \<Rightarrow> (compiled_protocol \<times> nat) res \<times> reader" where
  "selectStreamProtocol C cps psk data rnd =
     (if cps = [] then (Inl ErrNoProtocol, rnd)
      else case select_stream_loop C psk data cps 0 None None rnd of
             (Inl x, rnd1) \<Rightarrow> (Inr x, rnd1)
           | (Inr (None, _), rnd1) \<Rightarrow> (Inl ErrNoProtocol, rnd1)
           | (Inr (Some primary, None), rnd1) \<Rightarrow> (Inl ErrProbe, rnd1)
           | (Inr (Some primary, Some sf), rnd1) \<Rightarrow>
               (case UnwrapHandshakeDatagram C (Some (cgenome primary)) data of
                  Inl _ \<Rightarrow> (Inl ErrProbe, rnd1)
                | Inr inner \<Rightarrow> if VerifyKnock C psk inner then (Inr sf, rnd1) else (Inl ErrProbe, rnd1)))"

text \<open>
  A connection that does not authenticate is a probe with the bytes seen, other errors are not.
  \<open>chunk\<close> is how many of the available bytes the extra read returns, \<open>evs\<close> what the later reads
  of the handshake return, \<open>net\<close> whether a frame can be written, and \<open>torn\<close> what a write that failed
  still put on the connection (nothing when none failed). The frames that the handshake writes stay
  written however it ends.
\<close>

datatype stream_error = StreamProbe bytes | StreamOther error

definition wire_frame :: "bytes \<Rightarrow> bytes" where
  "wire_frame p = be_bytes 2 (length p) @ p"

definition handshake_written :: "bytes list \<Rightarrow> bytes \<Rightarrow> stream_conn \<Rightarrow> stream_conn" where
  "handshake_written frames torn s = s\<lparr>str_out := str_out s @ concat (map wire_frame frames) @ torn\<rparr>"

definition ServerHandshakeStream ::
  "crypto \<Rightarrow> bytes \<Rightarrow> (bytes \<Rightarrow> bool) \<Rightarrow> bytes \<Rightarrow> string \<Rightarrow> int \<Rightarrow> nat \<Rightarrow> read_event list \<Rightarrow> int \<Rightarrow>
     compiled_protocol list \<Rightarrow> bytes \<Rightarrow> reader \<Rightarrow> stream_conn \<Rightarrow> (stream_error + tunnel \<times> nat) option \<times> stream_conn" where
  "ServerHandshakeStream C mark net torn peer now chunk evs finished cps psk rnd s =
     (case ReadFull (now + handshakeTimeout) 2 s of
        (_, Some e, s1) \<Rightarrow> (Some (Inl (StreamOther e)), s1)
      | (hdr, None, s1) \<Rightarrow>
          (let frameLen = be_nat hdr in
           if frameLen = 0 \<or> maxFirstStreamFrameLen < frameLen then
             (let extra = take (min chunk 62) (ready (now + 500000000) s1) in
              (Some (Inl (StreamProbe (hdr @ extra))), s1\<lparr>str_in := drop (length extra) (str_in s1)\<rparr>))
           else
             case ReadFull (now + handshakeTimeout) frameLen s1 of
               (part, Some _, s2) \<Rightarrow> (Some (Inl (StreamProbe (hdr @ part))), s2)
             | (first, None, s2) \<Rightarrow>
                 (case selectStreamProtocol C cps psk first rnd of
                    (Inl e, _) \<Rightarrow> (Some (Inl (if e = ErrProbe then StreamProbe first else StreamOther e)), s2)
                  | (Inr (cp, i), rnd1) \<Rightarrow>
                      (case NewHandshake cp DirServer psk rnd1 of
                         Inl e \<Rightarrow> (Some (Inl (StreamOther e)), s2)
                       | Inr (h, rnd2) \<Rightarrow>
                           (case runHandshake C mark (\<lambda>w. length w \<le> maxFrameLen \<and> net w) h None False handshakeTimeout now
                              (Got now peer first # evs) rnd2 of
                              (Waiting, r) \<Rightarrow> (None, handshake_written (run_out r) [] s2)
                            | (Aborted e, r) \<Rightarrow> (Some (Inl (StreamOther e)), handshake_written (run_out r) torn s2)
                            | (Finished, r) \<Rightarrow>
                                (let s3 = handshake_written (run_out r) [] s2 in
                                 case FinishPacket C (run_h r) of
                                   Inl e \<Rightarrow> (Some (Inl (StreamOther e)), s3)
                                 | Inr sess \<Rightarrow>
                                     (Some (Inr (NewPacketTunnel (run_peer r) sess finished (run_rnd r), i)), s3)))))))"

section \<open>Probes\<close>

definition tls12FatalHandshakeFailure :: bytes where
  "tls12FatalHandshakeFailure = [0x15, 0x03, 0x03, 0x00, 0x02, 0x02, 0x28]"

definition looksLikeTLSClientHello :: "bytes \<Rightarrow> bool" where
  "looksLikeTLSClientHello b \<longleftrightarrow> 3 \<le> length b \<and> b ! 0 = 0x16 \<and> b ! 1 = 0x03"

text \<open>
  What a refused connection gets to see: the bytes written to it, and when it is closed.
  \<open>decoys\<close> is the number of connections held open at the moment.
\<close>

definition handleStreamProbe :: "server \<Rightarrow> int \<Rightarrow> int \<Rightarrow> bytes \<Rightarrow> stream_conn \<Rightarrow> bytes \<times> int" where
  "handleStreamProbe s decoys now first conn =
     (let cfg = sv_cfg s;
          timeout = (if c_decoy_timeout cfg \<le> 0 then DefaultStreamProbeTimeout else c_decoy_timeout cfg);
          silent = ([], case str_eof conn of None \<Rightarrow> now + timeout | Some t \<Rightarrow> max now (min t (now + timeout))) in
      if 0 < c_decoy_pending cfg \<and> c_decoy_pending cfg \<le> decoys then ([], now)
      else case ProbeMode s of
             StreamProbeClose \<Rightarrow> ([], now)
           | StreamProbeTLS \<Rightarrow> if looksLikeTLSClientHello first then (tls12FatalHandshakeFailure, now) else silent
           | _ \<Rightarrow> silent)"

section \<open>One connection of the server\<close>

datatype stream_outcome =
    Served endpoint nat          \<comment> \<open>a session for \<open>Accept\<close>\<close>
  | Refused bytes int            \<comment> \<open>all that was written on the connection, and when it was closed\<close>

definition configureStream :: "crypto \<Rightarrow> core_config \<Rightarrow> compiled_protocol list \<Rightarrow> nat \<Rightarrow> tunnel \<Rightarrow> endpoint" where
  "configureStream C cfg cps i t =
     (let ladder = (if i < length cps then ShapeBucketsForGenome C (Some (cgenome (cps ! i))) else DefaultShapeBuckets);
          buckets = (if c_no_shape cfg then DefaultShapeBuckets else resolveShapeLadder cfg ladder) in
      \<lparr>ep_tun = (if c_no_shape cfg then t else t\<lparr>tsess := SetShapeBuckets (tsess t) buckets\<rparr>),
       ep_jitter = max 0 (c_jitter cfg),
       ep_mask = NewNoiseTxMask (c_decoy_every cfg) (c_decoy_max cfg) buckets,
       ep_keepalive = SetKeepalive (c_keepalive cfg)\<rparr>)"

definition handleStreamConn ::
  "crypto \<Rightarrow> bytes \<Rightarrow> (bytes \<Rightarrow> bool) \<Rightarrow> bytes \<Rightarrow> string \<Rightarrow> int \<Rightarrow> nat \<Rightarrow> read_event list \<Rightarrow> int \<Rightarrow> int \<Rightarrow> bytes \<Rightarrow> reader \<Rightarrow>
     stream_conn \<Rightarrow> server \<Rightarrow> (stream_outcome \<times> server) option" where
  "handleStreamConn C mark net torn peer now chunk evs finished decoys psk rnd conn s =
     (case ServerHandshakeStream C mark net torn peer now chunk evs finished (sv_cps s) psk rnd conn of
        (None, _) \<Rightarrow> None
      | (Some (Inl err), conn1) \<Rightarrow>
          (let s1 = s\<lparr>sv_probes := w64 (sv_probes s + 1)\<rparr> in
           case err of
             StreamProbe first \<Rightarrow> (case handleStreamProbe s1 decoys finished first conn1 of (out, t) \<Rightarrow> Some (Refused (str_out conn1 @ out) t, s1))
           | StreamOther _ \<Rightarrow> Some (Refused (str_out conn1) finished, s1))
      | (Some (Inr (t, i)), conn1) \<Rightarrow>
          (let e = configureStream C (sv_cfg s) (sv_cps s) i t in
           Some (Served e i, s\<lparr>sv_hands := w64 (sv_hands s + 1), sv_streams := sv_streams s @ [ep_tun e]\<rparr>)))"

text \<open>\<open>runTCPAccept\<close>: with a limit on sessions, as many handshakes at once are let in.\<close>

definition admits_stream :: "server \<Rightarrow> int \<Rightarrow> bool" where
  "admits_stream s pending_handshakes \<longleftrightarrow> \<not> (0 < c_max_sessions (sv_cfg s) \<and> c_max_sessions (sv_cfg s) \<le> pending_handshakes)"

end
