(* ===== verification/Stream_Safety.thy ===== *)
theory Stream_Safety
  imports Stream Server_Immune
begin

text \<open>
  Properties of the stream transports: frames come out of a stream as they went in, unless a
  read deadline falls into a frame; a connection that does not authenticate learns nothing; and
  the choice of the protocol, which knows no replays and counts generations from zero.
\<close>

section \<open>Framing\<close>

definition frame_ok :: "nat \<Rightarrow> bytes \<Rightarrow> bool" where
  "frame_ok cap p \<longleftrightarrow> p \<noteq> [] \<and> length p \<le> cap \<and> length p \<le> maxFrameLen"

text \<open>The same reader on the bytes alone is the specification.\<close>

definition read_frame :: "nat \<Rightarrow> reader \<Rightarrow> (bytes \<times> reader) res" where
  "read_frame cap r =
     res_bind (read_full 2 r) (\<lambda>(hdr, r1).
       if be_nat hdr = 0 then Inl ErrZeroFrame
       else if cap < be_nat hdr then Inl ErrTooLarge
       else read_full (be_nat hdr) r1)"

interpretation stream_frames: stream_codec "read_frame cap" wire_frame "frame_ok cap" for cap
proof unfold_locales
  fix p rest
  assume ok: "frame_ok cap p"
  then have "be_nat (be_bytes 2 (length p)) = length p" by (intro be_nat_be_bytes_id) (simp add: frame_ok_def maxFrameLen_def)
  moreover have "length p \<noteq> 0" "\<not> cap < length p" using ok by (simp_all add: frame_ok_def)
  ultimately show "read_frame cap (wire_frame p @ rest) = Inr (p, rest)" by (simp add: read_frame_def wire_frame_def)
qed

definition arrived :: "int \<Rightarrow> stream_conn \<Rightarrow> bytes \<Rightarrow> bool" where
  "arrived deadline s b \<longleftrightarrow> map snd (str_in s) = b \<and> (\<forall>x \<in> set (str_in s). fst x \<le> deadline)"

lemma ReadFull_arrived:
  assumes "arrived deadline s b" "read_full n b = Inr (c, rest)"
  shows "\<exists>s'. ReadFull deadline n s = (c, None, s') \<and> arrived deadline s' rest"
proof -
  have r: "ready deadline s = b" using assms(1) by (auto simp: arrived_def ready_def case_prod_beta takeWhile_eq_all_conv [THEN iffD2])
  from assms(2) have c: "c = take n b" "rest = drop n b" "\<not> length b < n" by (auto simp: read_full_def split: if_splits)
  then have "arrived deadline (s\<lparr>str_in := drop n (str_in s)\<rparr>) rest"
    using assms(1) by (auto simp: arrived_def drop_map dest: in_set_dropD)
  moreover have "ReadFull deadline n s = (c, None, s\<lparr>str_in := drop n (str_in s)\<rparr>)"
    using c by (simp add: ReadFull_def Let_def r min_absorb2)
  ultimately show ?thesis by blast
qed

lemma ReadFrom_arrived:
  assumes "arrived deadline s b" "read_frame cap b = Inr (p, rest)"
  shows "\<exists>s'. stream_ReadFrom deadline cap s = (Inr p, s') \<and> arrived deadline s' rest"
proof -
  from assms(2) obtain hdr r1 where h: "read_full 2 b = Inr (hdr, r1)" "be_nat hdr \<noteq> 0" "\<not> cap < be_nat hdr" "read_full (be_nat hdr) r1 = Inr (p, rest)"
    by (auto simp: read_frame_def split: if_splits)
  obtain s1 where s1: "ReadFull deadline 2 s = (hdr, None, s1)" "arrived deadline s1 r1" using ReadFull_arrived [OF assms(1) h(1)] by blast
  obtain s2 where s2: "ReadFull deadline (be_nat hdr) s1 = (p, None, s2)" "arrived deadline s2 rest"
    using ReadFull_arrived [OF s1(2) h(4)] by blast
  with s1 h(2,3) show ?thesis by (simp add: stream_ReadFrom_def Let_def)
qed

fun read_frames :: "int \<Rightarrow> nat \<Rightarrow> nat \<Rightarrow> stream_conn \<Rightarrow> bytes list res \<times> stream_conn" where
  "read_frames deadline cap 0 s = (Inr [], s)"
| "read_frames deadline cap (Suc n) s =
     (case stream_ReadFrom deadline cap s of
        (Inl e, s1) \<Rightarrow> (Inl e, s1)
      | (Inr p, s1) \<Rightarrow> (case read_frames deadline cap n s1 of (x, s2) \<Rightarrow> (res_bind x (\<lambda>ps. Inr (p # ps)), s2)))"

lemma read_frames_arrived:
  assumes "arrived deadline s b" "read_many (read_frame cap) n b = Inr (ps, rest)"
  shows "\<exists>s'. read_frames deadline cap n s = (Inr ps, s') \<and> arrived deadline s' rest"
  using assms
proof (induction n arbitrary: s b ps)
  case (Suc n)
  from Suc.prems(2) obtain p r1 qs where p: "read_frame cap b = Inr (p, r1)" "read_many (read_frame cap) n r1 = Inr (qs, rest)" "ps = p # qs"
    by auto
  obtain s1 where s1: "stream_ReadFrom deadline cap s = (Inr p, s1)" "arrived deadline s1 r1"
    using ReadFrom_arrived [OF Suc.prems(1) p(1)] by blast
  from Suc.IH [OF s1(2) p(2)] s1(1) p(3) show ?case by auto
qed auto

lemma write_frames:
  assumes "\<forall>p \<in> set ps. frame_ok cap p"
  shows "str_out (fold (\<lambda>p s. snd (stream_WriteTo (\<lambda>_. True) p s)) ps s) = str_out s @ concat (map wire_frame ps)"
  using assms
proof (induction ps arbitrary: s)
  case (Cons p ps)
  then have "snd (stream_WriteTo (\<lambda>_. True) p s) = s\<lparr>str_out := str_out s @ wire_frame p\<rparr>"
    by (simp add: stream_WriteTo_def frame_ok_def wire_frame_def Let_def)
  with Cons show ?case by simp
qed simp

text \<open>
  C25. Datagrams over a stream: whatever datagrams of one to 65,535 bytes one end writes, the
  other end reads exactly those, in their order, and then stands at the first byte after them,
  if they arrive before its deadlines and fit its buffer.
\<close>
theorem stream_frames_in_order:
  assumes "\<forall>p \<in> set ps. p \<noteq> [] \<and> length p \<le> cap \<and> length p \<le> 65535"
    "map snd (str_in reader) = str_out (fold (\<lambda>p s. snd (stream_WriteTo (\<lambda>_. True) p s)) ps (writer\<lparr>str_out := []\<rparr>)) @ rest"
    "\<forall>x \<in> set (str_in reader). fst x \<le> deadline"
  shows "\<exists>s'. read_frames deadline cap (length ps) reader = (Inr ps, s') \<and> map snd (str_in s') = rest"
proof -
  have ok: "\<forall>p \<in> set ps. frame_ok cap p" using assms(1) by (simp add: frame_ok_def maxFrameLen_def)
  have "arrived deadline reader (concat (map wire_frame ps) @ rest)"
    using assms(2,3) write_frames [OF ok, of "writer\<lparr>str_out := []\<rparr>"] by (simp add: arrived_def)
  from read_frames_arrived [OF this stream_frames.read_many_wire [OF ok]] show ?thesis by (auto simp: arrived_def)
qed

theorem stream_frames_in_order_witness:
  "\<exists>s'. read_frames 5 100 2 \<lparr>str_in = [(1, 0), (1, 1), (2, 7), (2, 0), (3, 2), (3, 8), (3, 9), (4, 0)], str_eof = None, str_out = []\<rparr>
     = (Inr [[7], [8, 9]], s') \<and> map snd (str_in s') = [0]"
proof -
  let ?r = "\<lparr>str_in = [(1, 0), (1, 1), (2, 7), (2, 0), (3, 2), (3, 8), (3, 9), (4, 0)], str_eof = None, str_out = []\<rparr>"
  have w: "map snd (str_in ?r) = str_out (fold (\<lambda>p s. snd (stream_WriteTo (\<lambda>_. True) p s)) [[7], [8, 9]] (?r\<lparr>str_out := []\<rparr>)) @ [0]"
    by (simp add: stream_WriteTo_def maxFrameLen_def be_bytes_def numeral_2_eq_2)
  have "\<exists>s'. read_frames 5 100 (length [[7], [8, 9 :: byte]]) ?r = (Inr [[7], [8, 9]], s') \<and> map snd (str_in s') = [0]"
    by (rule stream_frames_in_order [OF _ w]) simp_all
  then show ?thesis by (simp add: numeral_2_eq_2 del: read_frames.simps)
qed

text \<open>
  A read deadline that falls between the length and the end of a frame breaks the stream:
  the part that was read is lost, and the next read takes the bytes of the frame's rest for
  frames of their own. The handshake reads with deadlines of 200 milliseconds, so a frame that
  TCP delivers in two pieces further apart than that is enough.
\<close>
theorem late_frame_desyncs:
  assumes "p \<noteq> []" "length p \<le> 65535" "length p \<le> cap" "map snd early = be_bytes 2 (length p)" "\<forall>x \<in> set early. fst x \<le> deadline"
    "\<forall>x \<in> set late. deadline < fst x" "map snd late = p @ rest"
  shows "stream_ReadFrom deadline cap \<lparr>str_in = early @ late, str_eof = None, str_out = []\<rparr> =
     (Inl ErrTimeout, \<lparr>str_in = late, str_eof = None, str_out = []\<rparr>)"
proof -
  let ?s = "\<lparr>str_in = early @ late, str_eof = None, str_out = []\<rparr>"
  let ?s1 = "\<lparr>str_in = late, str_eof = None, str_out = []\<rparr>"
  have late: "late \<noteq> []" using assms(1,7) by auto
  then obtain x xs where "late = x # xs" by (cases late) auto
  then have tw: "takeWhile (\<lambda>(t, _). t \<le> deadline) late = []" using assms(6) by (auto simp: case_prod_beta)
  have "takeWhile (\<lambda>(t, _). t \<le> deadline) (early @ late) = early"
    using assms(5) tw by (simp add: takeWhile_append2 case_prod_beta)
  then have r: "ready deadline ?s = be_bytes 2 (length p)" by (simp add: ready_def assms(4))
  have "length early = 2" using arg_cong [OF assms(4), of length] by simp
  then have h: "ReadFull deadline 2 ?s = (be_bytes 2 (length p), None, ?s1)" by (simp add: ReadFull_def Let_def r)
  have r1: "ready deadline ?s1 = []" by (simp add: ready_def tw)
  have "ReadFull deadline (length p) ?s1 = ([], Some ErrTimeout, ?s1)"
    using assms(1) late by (simp add: ReadFull_def Let_def r1 read_error_def)
  moreover have "be_nat (be_bytes 2 (length p)) = length p" using assms(2) by (intro be_nat_be_bytes_id) simp
  ultimately show ?thesis using h assms(1,3) by (simp add: stream_ReadFrom_def Let_def)
qed

text \<open>The lost frame's content is read as a frame that nobody sent.\<close>

theorem late_frame_desyncs_witness:
  "\<exists>s. stream_ReadFrom 200 100 \<lparr>str_in = [(1, 0), (1, 3)] @ [(300, 0), (300, 1), (300, 9)], str_eof = None, str_out = []\<rparr> = (Inl ErrTimeout, s) \<and>
     fst (stream_ReadFrom 500 100 s) = Inr [9]"
proof -
  have "stream_ReadFrom 200 100 \<lparr>str_in = [(1, 0), (1, 3)] @ [(300, 0), (300, 1), (300, 9)], str_eof = None, str_out = []\<rparr> =
      (Inl ErrTimeout, \<lparr>str_in = [(300, 0), (300, 1), (300, 9)], str_eof = None, str_out = []\<rparr>)"
    by (rule late_frame_desyncs [of "[0, 1, 9]" _ _ _ _ "[]"]) (simp_all add: be_bytes_def numeral_2_eq_2)
  moreover have "fst (stream_ReadFrom 500 100 \<lparr>str_in = [(300, 0), (300, 1), (300, 9)], str_eof = None, str_out = []\<rparr>) = Inr [9]"
    by (simp add: stream_ReadFrom_def ReadFull_def ready_def Let_def be_nat_def)
  ultimately show ?thesis by blast
qed

section \<open>Probes\<close>


text \<open>
  What a client must send to get a handshake: a length the server takes for a first frame, then
  all of that frame in time, which some protocol of the window accepts as its first or as a knock.
\<close>

definition stream_probe :: "crypto \<Rightarrow> bytes \<Rightarrow> compiled_protocol list \<Rightarrow> bytes \<Rightarrow> bool" where
  "stream_probe C psk cps data \<longleftrightarrow>
     (\<forall>cp \<in> set cps. \<forall>rnd h rnd'. NewHandshake cp DirServer psk rnd = Inr (h, rnd') \<longrightarrow> refuses C h data)"

definition opens_handshake :: "crypto \<Rightarrow> bytes \<Rightarrow> compiled_protocol list \<Rightarrow> bytes \<Rightarrow> bool" where
  "opens_handshake C psk cps got \<longleftrightarrow>
     2 \<le> length got \<and>
     (let n = be_nat (take 2 got) in
      0 < n \<and> n \<le> 4096 \<and> 2 + n \<le> length got \<and> \<not> stream_probe C psk cps (take n (drop 2 got)))"






text \<open>The first bytes of a TLS record are never a handshake frame: they announce too long a one.\<close>

lemma tls_opens_nothing: "\<not> opens_handshake C psk cps (0x16 # 0x03 # tl_bytes)"
  by (simp add: opens_handshake_def be_nat_def Let_def)





section \<open>The choice of the protocol\<close>

text \<open>
  A genuine first frame on a stream selects its protocol, every time: the choice depends on
  nothing that an earlier connection left behind, so a recorded first frame is accepted again
  on any later connection; and the number that is returned is the place in the window, zero
  for the base protocol, whatever its generation.
\<close>
theorem stream_selects_again:
  assumes "client_starts E m cp early a frame wire a'"
  shows "\<forall>rnd. 32 \<le> length rnd \<longrightarrow> fst (selectStreamProtocol (e_crypto E) (cp # cps) (m_psk m) wire rnd) = Inr (cp, 0)"
proof (intro allI impI)
  fix rnd :: reader
  assume r: "32 \<le> length rnd"
  let ?m = "set_rnd rnd m"
  have psk: "m_psk ?m = m_psk m" "m_rnd ?m = rnd" by (simp_all add: set_rnd_def)
  have "client_starts E ?m cp early a frame wire a'" using assms by (simp add: client_starts_def psk)
  then obtain h h' spec inner where "NewHandshake cp DirServer (m_psk ?m) (m_rnd ?m) = Inr (h, drop 32 (m_rnd ?m))"
    "CurrentSpec h = Inr spec" "mdirection spec = DirClient"
    "UnwrapHandshakeDatagram (e_crypto E) (Some (cgenome cp)) wire = Inr inner" "DeclaredFrame spec inner = Inr frame"
    "RecvStep (e_crypto E) h frame = (Inr (), h')"
    by (rule client_starts_accepted) (use r psk in simp_all)
  then show "fst (selectStreamProtocol (e_crypto E) (cp # cps) (m_psk m) wire rnd) = Inr (cp, 0)"
    by (simp add: selectStreamProtocol_def psk)
qed

theorem stream_selects_again_witness:
  "\<exists>wire. fst (selectStreamProtocol demo_crypto [sample_protocol] sample_psk wire zeros) = Inr (sample_protocol, 0) \<and>
     generation (cgenome sample_protocol) = 1"
proof -
  let ?m = "NewServerMux sample_protocol sample_psk zeros"
  have p: "m_psk ?m = sample_psk" by (simp add: NewServerMux_def)
  obtain a frame wire a' where c: "client_starts sample_env ?m sample_protocol 2 a frame wire a'" by (rule sample_client [OF p])
  have "32 \<le> length zeros" by (simp add: zeros_def)
  with stream_selects_again [OF c, of "[]"] have "fst (selectStreamProtocol demo_crypto [sample_protocol] sample_psk wire zeros) = Inr (sample_protocol, 0)"
    by (simp add: p sample_env_def)
  then show ?thesis by (auto simp: sample_protocol_def sample_genome_def)
qed

end
