(* ===== verification/Daemon.thy ===== *)
theory Daemon
  imports Leases
begin

text \<open>
  The server program's packet plane (\<open>cmd/chimerad/main.go\<close>, \<open>cmd/chimerad/route.go\<close>): the
  table that maps the clients' source addresses to their sessions, the loop that accepts
  clients, the pump of one client and the reader of the TUN device. A session is its index in
  the list of \<open>Leases\<close>; its remote address and its silence are arguments. Maps are functions to
  options, the set of sessions of a host is a list.
\<close>

section \<open>Addresses of packets\<close>

text \<open>\<open>net.IP.String\<close> for sixteen bytes: the longest run of two or more zero groups is elided.\<close>

definition hex_group :: "nat \<Rightarrow> string" where
  "hex_group n =
     (if n < 16 then [hex_char n]
      else if n < 256 then [hex_char (n div 16), hex_char (n mod 16)]
      else if n < 4096 then [hex_char (n div 256), hex_char (n div 16 mod 16), hex_char (n mod 16)]
      else [hex_char (n div 4096), hex_char (n div 256 mod 16), hex_char (n div 16 mod 16), hex_char (n mod 16)])"

fun groups_of :: "bytes \<Rightarrow> nat list" where
  "groups_of (a # b # bs) = (256 * unat a + unat b) # groups_of bs"
| "groups_of _ = []"

definition zero_run :: "nat list \<Rightarrow> nat \<Rightarrow> nat" where
  "zero_run gs i = length (takeWhile (\<lambda>g. g = 0) (drop i gs))"

text \<open>The first start of a longest run, and its length.\<close>

definition longest_run :: "nat list \<Rightarrow> nat \<times> nat" where
  "longest_run gs = fold (\<lambda>i (s, n). if n < zero_run gs i then (i, zero_run gs i) else (s, n)) [0 ..< length gs] (0, 0)"

fun join_groups :: "nat list \<Rightarrow> string" where
  "join_groups [] = []"
| "join_groups [g] = hex_group g"
| "join_groups (g # gs) = hex_group g @ CHR '':'' # join_groups gs"

definition ip_text :: "bytes \<Rightarrow> string" where
  "ip_text b =
     (case to4 b of
        Some b4 \<Rightarrow> quad_string b4
      | None \<Rightarrow>
          (let gs = groups_of b; (s, n) = longest_run gs in
           if n < 2 then join_groups gs
           else join_groups (take s gs) @ ''::'' @ join_groups (drop (s + n) gs)))"

text \<open>\<open>packetIP\<close>: the source or the destination of a raw packet; empty if it has none.\<close>

definition packetIP :: "bytes \<Rightarrow> bool \<Rightarrow> string" where
  "packetIP packet dst =
     (if packet = [] then []
      else
        let offset = (if dst then 16 else 12); v = drop_bit 4 (packet ! 0) in
        if v = 4 then (if 20 \<le> length packet then ip_text (take 4 (drop offset packet)) else [])
        else if v = 6 then
          (if 40 \<le> length packet then ip_text (take 16 (drop (if dst then 24 else 8) packet)) else [])
        else [])"

section \<open>The route table\<close>

record routes =
  rt_ip :: "string \<Rightarrow> nat option"
  rt_conn :: "nat \<Rightarrow> string option"
  rt_host :: "string \<Rightarrow> nat list"

definition newClientRoute :: routes where
  "newClientRoute = \<lparr>rt_ip = (\<lambda>_. None), rt_conn = (\<lambda>_. None), rt_host = (\<lambda>_. [])\<rparr>"

text \<open>A session without a remote address has none.\<close>

definition hostIP :: "string option \<Rightarrow> string" where
  "hostIP addr = (case addr of None \<Rightarrow> [] | Some a \<Rightarrow> (case SplitHostPort a of None \<Rightarrow> a | Some (host, _) \<Rightarrow> host))"

definition drop_host :: "string \<Rightarrow> nat \<Rightarrow> routes \<Rightarrow> routes" where
  "drop_host h c r = (if h = [] then r else r\<lparr>rt_host := (rt_host r)(h := removeAll c (rt_host r h))\<rparr>)"

definition register :: "(nat \<Rightarrow> string option) \<Rightarrow> nat \<Rightarrow> string \<Rightarrow> routes \<Rightarrow> nat option \<times> routes" where
  "register remote c ip r =
     (let r1 = (case rt_conn r c of
                  Some old \<Rightarrow> if old \<noteq> [] then r\<lparr>rt_ip := (rt_ip r)(old := None)\<rparr> else r
                | None \<Rightarrow> r);
          displaced = (case rt_ip r1 ip of Some other \<Rightarrow> if other \<noteq> c then Some other else None | None \<Rightarrow> None);
          r2 = (case displaced of
                  None \<Rightarrow> r1
                | Some other \<Rightarrow> drop_host (hostIP (remote other)) other (r1\<lparr>rt_conn := (rt_conn r1)(other := None)\<rparr>));
          r3 = r2\<lparr>rt_conn := (rt_conn r2)(c := Some ip), rt_ip := (rt_ip r2)(ip := Some c)\<rparr>;
          h = hostIP (remote c) in
      (displaced, if h = [] then r3 else r3\<lparr>rt_host := (rt_host r3)(h := List.insert c (rt_host r3 h))\<rparr>))"

definition unroute :: "string \<Rightarrow> nat \<Rightarrow> routes \<Rightarrow> routes" where
  "unroute host c r =
     (let r1 = r\<lparr>rt_host := (rt_host r)(host := removeAll c (rt_host r host))\<rparr> in
      case rt_conn r1 c of
        None \<Rightarrow> r1
      | Some ip \<Rightarrow> r1\<lparr>rt_conn := (rt_conn r1)(c := None), rt_ip := (rt_ip r1)(ip := None)\<rparr>)"

definition reapRoamed :: "(nat \<Rightarrow> int) \<Rightarrow> string \<Rightarrow> nat \<Rightarrow> int \<Rightarrow> routes \<Rightarrow> nat list \<times> routes" where
  "reapRoamed idle host keep maxIdle r =
     (let stale = filter (\<lambda>c. c \<noteq> keep \<and> maxIdle \<le> idle c) (rt_host r host) in
      (stale, fold (unroute host) stale r))"

definition route_lookup :: "routes \<Rightarrow> string \<Rightarrow> nat option" where
  "route_lookup r ip = rt_ip r ip"

definition route_remove :: "(nat \<Rightarrow> string option) \<Rightarrow> nat \<Rightarrow> routes \<Rightarrow> routes" where
  "route_remove remote c r =
     (let ip = (case rt_conn r c of None \<Rightarrow> [] | Some ip \<Rightarrow> ip);
          r1 = r\<lparr>rt_conn := (rt_conn r)(c := None)\<rparr>;
          r2 = (if ip \<noteq> [] then r1\<lparr>rt_ip := (rt_ip r1)(ip := None)\<rparr> else r1) in
      drop_host (hostIP (remote c)) c r2)"

section \<open>The program\<close>

record daemon =
  d_sessions :: sessions
  d_routes :: routes
  d_tun :: "bytes list"          \<comment> \<open>packets written to the TUN device\<close>
  d_fatal :: "error option"      \<comment> \<open>what ends the program\<close>

definition roamReapAfter :: int where
  "roamReapAfter = 30 * 1000000000"

text \<open>\<open>fatalCh\<close> has room for one error; the first one stays.\<close>

definition report_fatal :: "error \<Rightarrow> daemon \<Rightarrow> error option" where
  "report_fatal e d = (case d_fatal d of None \<Rightarrow> Some e | Some first \<Rightarrow> Some first)"

text \<open>One turn of \<open>acceptLoop\<close>, with the start of the pump of an accepted client.\<close>

definition accept_turn ::
  "(nat \<Rightarrow> string option) \<Rightarrow> bool \<Rightarrow> bool \<Rightarrow> (nat \<Rightarrow> string \<Rightarrow> bool) \<Rightarrow> daemon \<Rightarrow> daemon option" where
  "accept_turn remote cancelled pick ctl d =
     (case server_Accept cancelled pick ctl (d_sessions d) of
        None \<Rightarrow> None
      | Some (Inl e, s1) \<Rightarrow> Some (d\<lparr>d_sessions := s1, d_fatal := (if cancelled then d_fatal d else report_fatal e d)\<rparr>)
      | Some (Inr i, s1) \<Rightarrow>
          (let ip = cn_ip (ss_conns s1 ! i) in
           Some (d\<lparr>d_sessions := s1, d_routes := (if ip \<noteq> [] then snd (register remote i ip (d_routes d)) else d_routes d)\<rparr>)))"

definition close_all :: "nat list \<Rightarrow> sessions \<Rightarrow> sessions" where
  "close_all cs s = fold Conn_Close cs s"

text \<open>The end of \<open>pumpClientToTun\<close>: its deferred calls, the last one first.\<close>

definition pump_end :: "(nat \<Rightarrow> string option) \<Rightarrow> nat \<Rightarrow> daemon \<Rightarrow> daemon" where
  "pump_end remote i d = d\<lparr>d_routes := route_remove remote i (d_routes d), d_sessions := Conn_Close i (d_sessions d)\<rparr>"

text \<open>One packet from client \<open>i\<close>; \<open>ok\<close> is whether the TUN device takes it.\<close>

definition pump_packet ::
  "(nat \<Rightarrow> string option) \<Rightarrow> (nat \<Rightarrow> int) \<Rightarrow> bool \<Rightarrow> nat \<Rightarrow> bytes \<Rightarrow> daemon \<Rightarrow> daemon" where
  "pump_packet remote idle ok i pkt d =
     (let src = packetIP pkt False;
          d1 = (if src = [] then d
                else case register remote i src (d_routes d) of
                  (displaced, r1) \<Rightarrow>
                    (let s1 = (case displaced of None \<Rightarrow> d_sessions d | Some other \<Rightarrow> Conn_Close other (d_sessions d)) in
                     case reapRoamed idle (hostIP (remote i)) i roamReapAfter r1 of
                       (stale, r2) \<Rightarrow> d\<lparr>d_routes := r2, d_sessions := close_all stale s1\<rparr>)) in
      if ok then d1\<lparr>d_tun := d_tun d1 @ [pkt]\<rparr> else pump_end remote i d1)"

text \<open>The reader of the TUN device: the session that a packet goes to.\<close>

definition tun_target :: "bytes \<Rightarrow> daemon \<Rightarrow> nat option" where
  "tun_target pkt d = route_lookup (d_routes d) (packetIP pkt True)"

text \<open>
  One turn of that reader: what the device gave, and the packet that is sent to a session; errors of
  the sending are ignored.
\<close>

definition tun_turn :: "bytes res \<Rightarrow> daemon \<Rightarrow> (nat \<times> bytes) option \<times> daemon" where
  "tun_turn r d =
     (case r of
        Inl e \<Rightarrow> (None, d\<lparr>d_fatal := report_fatal e d\<rparr>)
      | Inr pkt \<Rightarrow> (map_option (\<lambda>i. (i, pkt)) (tun_target pkt d), d))"

lemma tun_turn_same [simp]: "d_routes (snd (tun_turn r d)) = d_routes d" "d_sessions (snd (tun_turn r d)) = d_sessions d"
  by (simp_all add: tun_turn_def split: sum.split)

text \<open>\<open>pumpEcho\<close>: the packets that are sent back, over what is received and whether sending succeeds.\<close>

fun pumpEcho :: "(bytes res \<times> bool) list \<Rightarrow> bytes list" where
  "pumpEcho [] = []"
| "pumpEcho ((Inl e, ok) # rs) = []"
| "pumpEcho ((Inr pkt, ok) # rs) = (if ok then pkt # pumpEcho rs else [])"

text \<open>\<open>waitRun\<close>: the error with which the program ends.\<close>

definition waitRun :: "bool \<Rightarrow> daemon \<Rightarrow> error option" where
  "waitRun cancelled d = (if cancelled then None else d_fatal d)"

inductive daemon_step :: "daemon \<Rightarrow> daemon \<Rightarrow> bool" where
  daemon_lease: "lease_step (d_sessions d) s \<Longrightarrow> ss_conns s = ss_conns (d_sessions d) \<Longrightarrow> daemon_step d (d\<lparr>d_sessions := s\<rparr>)"
| daemon_accept: "accept_turn remote cancelled pick ctl d = Some d' \<Longrightarrow> daemon_step d d'"
| daemon_packet: "daemon_step d (pump_packet remote idle ok i pkt d)"
| daemon_end: "daemon_step d (pump_end remote i d)"
| daemon_read: "daemon_step d (snd (tun_turn r d))"
| daemon_reap: "daemon_step d (d\<lparr>d_sessions := reapIdle silent i (d_sessions d)\<rparr>)"

definition new_daemon :: "int \<Rightarrow> address_pool \<Rightarrow> daemon" where
  "new_daemon idle p = \<lparr>d_sessions = new_sessions idle (Some p), d_routes = newClientRoute, d_tun = [], d_fatal = None\<rparr>"

section \<open>The table is a bijection\<close>

definition route_inv :: "routes \<Rightarrow> bool" where
  "route_inv r \<longleftrightarrow> (\<forall>c ip. rt_conn r c = Some ip \<longleftrightarrow> rt_ip r ip = Some c) \<and> rt_ip r [] = None"

lemma route_invD: "route_inv r \<Longrightarrow> rt_conn r c = Some ip \<longleftrightarrow> rt_ip r ip = Some c" "route_inv r \<Longrightarrow> rt_ip r [] = None"
  by (simp_all add: route_inv_def)

lemma drop_host_fields [simp]: "rt_ip (drop_host h c r) = rt_ip r" "rt_conn (drop_host h c r) = rt_conn r"
  by (simp_all add: drop_host_def)

lemma register_fields:
  assumes "route_inv r" "ip \<noteq> []" "register remote c ip r = (displaced, r')"
  shows "displaced = (case rt_ip r ip of None \<Rightarrow> None | Some other \<Rightarrow> if other = c then None else Some other)"
    and "rt_conn r' c' = (if c' = c then Some ip else if rt_ip r ip = Some c' then None else rt_conn r c')"
    and "rt_ip r' ip' = (if ip' = ip then Some c else if rt_conn r c = Some ip' then None else rt_ip r ip')"
proof -
  define r1 where "r1 = (case rt_conn r c of Some old \<Rightarrow> if old \<noteq> [] then r\<lparr>rt_ip := (rt_ip r)(old := None)\<rparr> else r | None \<Rightarrow> r)"
  have "rt_conn r1 = rt_conn r \<and> rt_ip r1 ip' = (if rt_conn r c = Some ip' then None else rt_ip r ip')" for ip'
  proof (cases "rt_conn r c")
    case (Some old)
    then have "old \<noteq> []" using route_invD(1) [OF assms(1), of c old] route_invD(2) [OF assms(1)] by auto
    with Some show ?thesis by (simp add: r1_def)
  qed (simp add: r1_def)
  then have r1: "rt_conn r1 = rt_conn r" "\<And>ip'. rt_ip r1 ip' = (if rt_conn r c = Some ip' then None else rt_ip r ip')" by blast+
  define other where "other = (case rt_ip r1 ip of Some other \<Rightarrow> if other \<noteq> c then Some other else None | None \<Rightarrow> None)"
  define r2 where "r2 = (case other of None \<Rightarrow> r1
    | Some other \<Rightarrow> drop_host (hostIP (remote other)) other (r1\<lparr>rt_conn := (rt_conn r1)(other := None)\<rparr>))"
  have o: "other = (case rt_ip r ip of None \<Rightarrow> None | Some other \<Rightarrow> if other = c then None else Some other)"
    using route_invD(1) [OF assms(1), of c ip] by (auto simp: other_def r1(2) split: option.splits)
  have r2: "rt_ip r2 = rt_ip r1" "rt_conn r2 c' = (if other = Some c' then None else rt_conn r c')" for c'
    by (auto simp: r2_def r1(1) split: option.splits)
  from assms(3) [unfolded register_def Let_def, folded r1_def, folded other_def, folded r2_def]
  have d: "displaced = other" "rt_conn r' = (rt_conn r2)(c := Some ip)" "rt_ip r' = (rt_ip r2)(ip := Some c)"
    by (auto split: if_splits)
  show "displaced = (case rt_ip r ip of None \<Rightarrow> None | Some other \<Rightarrow> if other = c then None else Some other)" using d(1) o by simp
  show "rt_conn r' c' = (if c' = c then Some ip else if rt_ip r ip = Some c' then None else rt_conn r c')"
    using d(2) o by (auto simp: r2(2) split: option.splits)
  show "rt_ip r' ip' = (if ip' = ip then Some c else if rt_conn r c = Some ip' then None else rt_ip r ip')"
    using d(3) r1(2) r2(1) by auto
qed

lemma register_inv:
  assumes "route_inv r" "ip \<noteq> []"
  shows "route_inv (snd (register remote c ip r))"
proof -
  obtain displaced r' where r: "register remote c ip r = (displaced, r')" by fastforce
  note F = register_fields [OF assms r]
  note I = route_invD [OF assms(1)]
  have "rt_conn r' c' = Some ip' \<longleftrightarrow> rt_ip r' ip' = Some c'" for c' ip'
    unfolding F using I(1) [of c' ip'] I(1) [of c' ip] I(1) [of c ip'] by auto
  moreover have "rt_ip r' [] = None" unfolding F using assms(2) I(2) by simp
  ultimately show ?thesis by (simp add: route_inv_def r)
qed

lemma unroute_fields:
  "rt_conn (unroute host c r) = (rt_conn r)(c := None)"
  "rt_ip (unroute host c r) = (case rt_conn r c of None \<Rightarrow> rt_ip r | Some ip \<Rightarrow> (rt_ip r)(ip := None))"
  by (auto simp: unroute_def Let_def split: option.splits)

lemma unroute_inv:
  assumes "route_inv r"
  shows "route_inv (unroute host c r)"
proof -
  note I = route_invD [OF assms]
  have "(rt_conn (unroute host c r) c' = Some ip) = (rt_ip (unroute host c r) ip = Some c')" for c' ip
    using I(1) [of c' ip] I(1) [of c ip] by (auto simp: unroute_fields split: option.splits)
  moreover have "rt_ip (unroute host c r) [] = None" using I(2) by (auto simp: unroute_fields split: option.splits)
  ultimately show ?thesis by (simp add: route_inv_def)
qed

lemma unroute_other:
  assumes "route_inv r" "rt_ip r ip = Some i" "c \<noteq> i"
  shows "rt_ip (unroute host c r) ip = Some i"
  using assms route_invD(1) [OF assms(1), of c ip] by (auto simp: unroute_fields split: option.splits)

lemma unroute_all:
  assumes "route_inv r"
  shows "route_inv (fold (unroute host) cs r)" and "rt_ip r ip = Some i \<Longrightarrow> i \<notin> set cs \<Longrightarrow> rt_ip (fold (unroute host) cs r) ip = Some i"
proof -
  have "route_inv (fold (unroute host) cs r) \<and> (rt_ip r ip = Some i \<longrightarrow> i \<notin> set cs \<longrightarrow> rt_ip (fold (unroute host) cs r) ip = Some i)"
    using assms
  proof (induction cs arbitrary: r)
    case (Cons c cs)
    from Cons.IH [OF unroute_inv [OF Cons.prems]] unroute_other [OF Cons.prems] show ?case by auto
  qed simp
  then show "route_inv (fold (unroute host) cs r)" "rt_ip r ip = Some i \<Longrightarrow> i \<notin> set cs \<Longrightarrow> rt_ip (fold (unroute host) cs r) ip = Some i"
    by blast+
qed

lemma route_remove_inv:
  assumes "route_inv r"
  shows "route_inv (route_remove remote c r)"
proof -
  note I = route_invD [OF assms]
  have f: "rt_conn (route_remove remote c r) = (rt_conn r)(c := None)"
      "rt_ip (route_remove remote c r) = (case rt_conn r c of None \<Rightarrow> rt_ip r | Some ip \<Rightarrow> (rt_ip r)(ip := None))"
    using I(1) [of c "[]"] I(2) by (auto simp: route_remove_def Let_def split: option.splits)
  have "(rt_conn (route_remove remote c r) c' = Some ip) = (rt_ip (route_remove remote c r) ip = Some c')" for c' ip
    using I(1) [of c' ip] I(1) [of c ip] by (auto simp: f split: option.splits)
  moreover have "rt_ip (route_remove remote c r) [] = None" using I(2) by (auto simp: f split: option.splits)
  ultimately show ?thesis by (simp add: route_inv_def)
qed

lemma reapRoamed_fields:
  assumes "reapRoamed idle host keep maxIdle r = (stale, r')" "route_inv r"
  shows "route_inv r'" "keep \<notin> set stale" "rt_ip r ip = Some keep \<Longrightarrow> rt_ip r' ip = Some keep"
proof -
  from assms(1) have s: "keep \<notin> set stale" "r' = fold (unroute host) stale r" by (auto simp: reapRoamed_def Let_def)
  show "keep \<notin> set stale" by (rule s(1))
  show "route_inv r'" unfolding s(2) by (rule unroute_all(1) [OF assms(2)])
  show "rt_ip r ip = Some keep \<Longrightarrow> rt_ip r' ip = Some keep" unfolding s(2) using unroute_all(2) [OF assms(2) _ s(1)] by blast
qed

section \<open>Steps\<close>

lemma pump_end_sessions: "d_sessions (pump_end remote i d) = Conn_Close i (d_sessions d)"
  by (simp add: pump_end_def)

lemma lease_close_all: "reach lease_step s (close_all cs s)"
proof (induction cs arbitrary: s)
  case Nil
  show ?case by (simp add: close_all_def reach_start)
next
  case (Cons c cs)
  have "reach lease_step s (Conn_Close c s)" using reach.reach_step [where step = lease_step, OF reach_start] lease_close by blast
  moreover have "reach lease_step (Conn_Close c s) (close_all cs (Conn_Close c s))" by (rule Cons.IH)
  ultimately show ?case using reach_trans [of lease_step] by (simp add: close_all_def)
qed

text \<open>What a step of the program does to the sessions is a run of the sessions' own steps.\<close>

lemma daemon_step_leases:
  assumes "daemon_step d d'"
  shows "reach lease_step (d_sessions d) (d_sessions d')"
proof -
  note one = reach.reach_step [where step = lease_step, OF reach_start]
  have close: "reach lease_step s (Conn_Close i s)" for i s using one lease_close by blast
  from assms show ?thesis
  proof (cases rule: daemon_step.cases)
    case (daemon_lease s)
    then show ?thesis using one by simp
  next
    case (daemon_accept remote cancelled pick ctl)
    then obtain x s1 where "server_Accept cancelled pick ctl (d_sessions d) = Some (x, s1)" "d_sessions d' = s1"
      by (auto simp: accept_turn_def Let_def split: option.splits sum.splits prod.splits)
    then show ?thesis using one lease_accept by blast
  next
    case (daemon_packet remote idle ok i pkt)
    define src where "src = packetIP pkt False"
    obtain displaced r1 where r1: "register remote i src (d_routes d) = (displaced, r1)" by fastforce
    obtain stale r2 where r2: "reapRoamed idle (hostIP (remote i)) i roamReapAfter r1 = (stale, r2)" by fastforce
    define s1 where "s1 = (case displaced of None \<Rightarrow> d_sessions d | Some other \<Rightarrow> Conn_Close other (d_sessions d))"
    define s2 where "s2 = (if src = [] then d_sessions d else close_all stale s1)"
    have "reach lease_step (d_sessions d) s1" using close by (auto simp: s1_def reach_start split: option.split)
    from reach_trans [OF lease_close_all this] have s2: "reach lease_step (d_sessions d) s2" by (simp add: s2_def reach_start)
    have "d_sessions d' = (if ok then s2 else Conn_Close i s2)"
      using daemon_packet r1 r2 by (simp add: pump_packet_def Let_def s1_def s2_def pump_end_def flip: src_def)
    with s2 reach_trans [OF close s2] show ?thesis by simp
  next
    case (daemon_end remote i)
    with close show ?thesis by (simp add: pump_end_sessions)
  next
    case (daemon_reap silent i)
    then show ?thesis using one lease_reap by simp
  next
    case (daemon_read r)
    then show ?thesis by (simp add: reach_start)
  qed
qed

lemma daemon_run_leases: "reach daemon_step d d' \<Longrightarrow> reach lease_step (d_sessions d) (d_sessions d')"
proof (induction rule: reach.induct)
  case (reach_step d d1 d2)
  from reach_trans [OF daemon_step_leases [OF reach_step.hyps(2)] reach_step.IH] show ?case .
qed (rule reach_start)

lemma pump_packet_routes:
  assumes "route_inv (d_routes d)" "packetIP pkt False \<noteq> []"
  shows "route_inv (d_routes (pump_packet remote idle True i pkt d))"
    and "rt_ip (d_routes (pump_packet remote idle True i pkt d)) (packetIP pkt False) = Some i"
proof -
  define src where "src = packetIP pkt False"
  have src: "src \<noteq> []" using assms(2) by (simp add: src_def)
  obtain displaced r1 where r1: "register remote i src (d_routes d) = (displaced, r1)" by fastforce
  obtain stale r2 where r2: "reapRoamed idle (hostIP (remote i)) i roamReapAfter r1 = (stale, r2)" by fastforce
  have i1: "route_inv r1" using register_inv [OF assms(1) src, of remote i] by (simp add: r1)
  have d: "d_routes (pump_packet remote idle True i pkt d) = r2"
    using src by (simp add: pump_packet_def Let_def r1 r2 flip: src_def)
  show "route_inv (d_routes (pump_packet remote idle True i pkt d))" unfolding d by (rule reapRoamed_fields(1) [OF r2 i1])
  have "rt_ip r1 src = Some i" using register_fields(3) [OF assms(1) src r1] by simp
  with reapRoamed_fields(3) [OF r2 i1] show "rt_ip (d_routes (pump_packet remote idle True i pkt d)) (packetIP pkt False) = Some i"
    unfolding d by (simp flip: src_def)
qed

lemma pump_packet_end: "pump_packet remote idle False i pkt d = pump_end remote i (pump_packet remote idle True i pkt d\<lparr>d_tun := d_tun d\<rparr>)"
  by (simp add: pump_packet_def Let_def split: prod.split)

lemma daemon_step_routes:
  assumes "daemon_step d d'" "route_inv (d_routes d)"
  shows "route_inv (d_routes d')"
  using assms(1)
proof (cases rule: daemon_step.cases)
  case (daemon_accept remote cancelled pick ctl)
  with assms(2) show ?thesis
    by (auto simp: accept_turn_def Let_def register_inv split: option.splits sum.splits prod.splits if_splits)
next
  case (daemon_packet remote idle ok i pkt)
  show ?thesis
  proof (cases "packetIP pkt False = []")
    case True
    with daemon_packet assms(2) show ?thesis by (simp add: pump_packet_def Let_def pump_end_def route_remove_inv)
  next
    case False
    note p = pump_packet_routes(1) [OF assms(2) False, of remote idle i]
    show ?thesis
    proof (cases ok)
      case True
      with daemon_packet p show ?thesis by simp
    next
      case nok: False
      with daemon_packet p show ?thesis by (simp add: pump_packet_end) (simp add: pump_end_def route_remove_inv)
    qed
  qed
qed (use assms(2) in \<open>simp_all add: pump_end_def route_remove_inv\<close>)

interpretation routing: invariant_of daemon_step "\<lambda>d. route_inv (d_routes d)"
  by unfold_locales (rule daemon_step_routes)

lemma new_routes: "route_inv (d_routes (new_daemon idle p))"
  by (simp add: route_inv_def new_daemon_def newClientRoute_def)

lemma Conn_Close_done: "cn_done (ss_conns s ! v) \<Longrightarrow> v < length (ss_conns s) \<Longrightarrow> cn_done (ss_conns (Conn_Close i s) ! v) \<and> v < length (ss_conns (Conn_Close i s))"
  by (auto simp: Conn_Close_def Let_def close_session_def unregisterStream_def release_address_def nth_list_update)

lemma Conn_Close_self: "v < length (ss_conns s) \<Longrightarrow> cn_done (ss_conns (Conn_Close v s) ! v) \<and> v < length (ss_conns (Conn_Close v s))"
  by (auto simp: Conn_Close_def Let_def close_session_def unregisterStream_def release_address_def)

lemma close_all_done: "cn_done (ss_conns s ! v) \<Longrightarrow> v < length (ss_conns s) \<Longrightarrow> cn_done (ss_conns (close_all cs s) ! v)"
  unfolding close_all_def
proof (induction cs arbitrary: s)
  case (Cons c cs)
  from Conn_Close_done [OF Cons.prems, of c] Cons.IH [of "Conn_Close c s"] show ?case by simp
qed simp

text \<open>
  C27. The route table is a bijection in every run of the program: a session is registered under
  an address exactly if that address leads to that session, so no two sessions share an address
  and none has two; and after a packet from a client, packets to its source address go to that
  client.
\<close>
theorem routes_are_inverse:
  assumes "reach daemon_step (new_daemon idle p) d"
  shows "(\<forall>c ip. rt_conn (d_routes d) c = Some ip \<longleftrightarrow> route_lookup (d_routes d) ip = Some c) \<and> route_lookup (d_routes d) [] = None \<and>
    (\<forall>remote silence i pkt answer. packetIP pkt False \<noteq> [] \<and> packetIP answer True = packetIP pkt False \<longrightarrow>
       tun_target answer (pump_packet remote silence True i pkt d) = Some i)"
proof -
  have inv: "route_inv (d_routes d)" by (rule routing.run_keeps [OF assms new_routes])
  with pump_packet_routes(2) [OF inv] show ?thesis by (auto simp: route_inv_def route_lookup_def tun_target_def)
qed

text \<open>
  A client chooses its own address: nothing compares the source address of a packet from
  the tunnel with the address that the server assigned, so a client that sends one packet with
  another client's address gets that client's traffic from then on, and the other client's
  session is closed.
\<close>
theorem spoofed_source_takes_over:
  assumes "reach daemon_step (new_daemon idle p) d" "route_lookup (d_routes d) ip = Some v" "v \<noteq> a"
    "v < length (ss_conns (d_sessions d))" "packetIP pkt False = ip"
  shows "route_lookup (d_routes (pump_packet remote silence True a pkt d)) ip = Some a \<and>
    cn_done (ss_conns (d_sessions (pump_packet remote silence True a pkt d)) ! v) \<and>
    d_tun (pump_packet remote silence True a pkt d) = d_tun d @ [pkt]"
proof -
  have inv: "route_inv (d_routes d)" by (rule routing.run_keeps [OF assms(1) new_routes])
  have ip: "ip \<noteq> []" using assms(2) inv by (auto simp: route_inv_def route_lookup_def)
  obtain displaced r1 where r1: "register remote a ip (d_routes d) = (displaced, r1)" by fastforce
  obtain stale r2 where r2: "reapRoamed silence (hostIP (remote a)) a roamReapAfter r1 = (stale, r2)" by fastforce
  have "displaced = Some v" using register_fields(1) [OF inv ip r1] assms(2,3) by (simp add: route_lookup_def)
  then have "d_sessions (pump_packet remote silence True a pkt d) = close_all stale (Conn_Close v (d_sessions d))"
      "d_tun (pump_packet remote silence True a pkt d) = d_tun d @ [pkt]"
    using ip by (simp_all add: pump_packet_def Let_def assms(5) r1 r2)
  moreover from Conn_Close_self [OF assms(4)] have "cn_done (ss_conns (close_all stale (Conn_Close v (d_sessions d))) ! v)"
    using close_all_done by blast
  moreover have "route_lookup (d_routes (pump_packet remote silence True a pkt d)) ip = Some a"
    using pump_packet_routes(2) [OF inv, of pkt remote silence a] ip by (simp add: assms(5) route_lookup_def)
  ultimately show ?thesis by simp
qed

text \<open>
  C28. One client that cannot be served ends the whole program: if all addresses are leased when
  a client's handshake completes, or if the control message with its address cannot be sent,
  say because the client is gone again, then the accept loop takes the error for a fatal one and
  the server exits, with all sessions it has.
\<close>
theorem refused_client_is_fatal:
  assumes "newAddressPool cidr = Inr p" "ParseCIDR cidr = Some (net_ip, ones, 32)" "reach daemon_step (new_daemon idle p) d"
    "ss_started (d_sessions d)" "ss_queue (d_sessions d) = a # q"
    "length (filter (\<lambda>c. \<not> cn_done c \<and> cn_release c) (ss_conns (d_sessions d))) = 2 ^ (32 - ones) - 3 \<or> (\<forall>ip. \<not> ctl (ac_t a) ip)"
  shows "\<exists>d' e. accept_turn remote False pick ctl d = Some d' \<and> waitRun False d' = Some e \<and>
    (d_fatal d = None \<longrightarrow> e \<in> {ErrExhausted, ErrNet})"
proof -
  have r: "reach lease_step (new_sessions idle (Some p)) (d_sessions d)"
    using daemon_run_leases [OF assms(3)] by (simp add: new_daemon_def)
  have inv: "lease_inv (stock_of p) (d_sessions d)" by (rule leases.run_keeps [OF r new_leases [OF assms(1,2)]])
  let ?s = "(d_sessions d)\<lparr>ss_queue := q\<rparr>"
  have inv': "lease_inv (stock_of p) ?s" using inv by simp
  obtain x s1 where m: "makeConn ctl a ?s = (x, s1)" by fastforce
  have "x = Inl ErrExhausted \<or> x = Inl ErrNet"
  proof (cases "\<forall>ip. \<not> ctl (ac_t a) ip")
    case True
    with m inv show ?thesis by (auto simp: makeConn_def Let_def lease_inv_def split: option.splits prod.splits)
  next
    case False
    have same: "open_leases ?s = open_leases (d_sessions d)" by (simp add: open_leases_def)
    from False assms(6) have "length (filter (\<lambda>c. \<not> cn_done c \<and> cn_release c) (ss_conns (d_sessions d))) = 2 ^ (32 - ones) - 3"
      by blast
    then have "length (open_leases ?s) = 2 ^ (32 - ones) - 3" by (simp add: open_leases_def)
    moreover have "distinct (open_leases ?s)" "set (open_leases ?s) \<subseteq> stock_of p"
      using inv addresses.leased_within unfolding lease_inv_def same by blast+
    moreover have "card (stock_of p) = 2 ^ (32 - ones) - 3"
      using newAddressPool_inv [OF assms(1,2)] stock_size [of p] by simp
    moreover have "finite (stock_of p)" by (simp add: stock_of_def)
    ultimately have "set (open_leases ?s) = stock_of p" by (metis card_subset_eq distinct_card)
    with makeConn_leases(2) [OF inv' m] show ?thesis by simp
  qed
  with m assms(4,5) show ?thesis by (auto simp: accept_turn_def server_Accept_def waitRun_def report_fatal_def split: option.split)
qed

section \<open>Witnesses\<close>

lemma sample_pool_alloc:
  assumes "newAddressPool sample_cidr = Inr p"
  obtains a p1 b p2 where "Allocate p = Some (a, p1)" "Allocate p1 = Some (b, p2)" "a \<noteq> b" "a \<in> stock_of p" "b \<in> stock_of p"
proof -
  note P = newAddressPool_inv [OF assms sample_pool(1)]
  have size: "card (stock_of p) = 5" using stock_size [of p] P by simp
  have "Allocate p \<noteq> None"
  proof
    assume "Allocate p = None"
    with Allocate_None [of p] P have "stock_of p = {}" by simp
    with size show False by simp
  qed
  then obtain a p1 where a: "Allocate p = Some (a, p1)" by auto
  note A = Allocate_Some [OF conjunct1 [OF P] a]
  have "Allocate p1 \<noteq> None"
  proof
    assume "Allocate p1 = None"
    with Allocate_None [of p1] A P have "stock_of p \<subseteq> {a}" by auto
    then have "card (stock_of p) \<le> card {a}" by (intro card_mono) simp_all
    with size show False by simp
  qed
  then obtain b p2 where b: "Allocate p1 = Some (b, p2)" by auto
  from A have "pool_inv p1" by blast
  note B = Allocate_Some [OF this b]
  with A that [OF a b] show thesis by auto
qed

lemma stock_packet:
  assumes "ip \<in> stock_of p"
  obtains pkt where "packetIP pkt False = ip" "ip \<noteq> []"
proof -
  obtain n where n: "ip = quad_string (be_bytes 4 n)" using assms by (auto simp: stock_of_def ipString_def)
  define b where "b = be_bytes 4 n"
  have l: "length b = 4" by (simp add: b_def)
  define pkt :: bytes where "pkt = 0x45 # replicate 11 0 @ b @ replicate 4 0"
  have "pkt ! 0 = 0x45" "length pkt = 20" "pkt \<noteq> []" by (simp_all add: pkt_def l)
  moreover have "take 4 (drop 12 pkt) = b" by (simp add: pkt_def l)
  moreover have "drop_bit 4 (0x45 :: byte) = 4" by code_simp
  ultimately have "packetIP pkt False = ip_text b" by (simp add: packetIP_def Let_def)
  also have "\<dots> = ip" by (simp add: ip_text_def to4_def l n flip: b_def)
  finally have "packetIP pkt False = ip" .
  moreover have "ip \<noteq> []" by (simp add: n quad_string_def)
  ultimately show thesis by (rule that)
qed

text \<open>A server with two clients.\<close>

lemma sample_daemon:
  assumes "newAddressPool sample_cidr = Inr p"
  obtains d a b where "reach daemon_step (new_daemon 0 p) d" "route_lookup (d_routes d) a = Some 0" "1 < length (ss_conns (d_sessions d))"
    "a \<in> stock_of p" "ss_started (d_sessions d)"
proof -
  obtain a p1 b p2 where ab: "Allocate p = Some (a, p1)" "Allocate p1 = Some (b, p2)" "a \<noteq> b" "a \<in> stock_of p" "b \<in> stock_of p"
    by (rule sample_pool_alloc [OF assms])
  have ne: "a \<noteq> []" "b \<noteq> []" using stock_packet ab(4,5) by blast+
  note next_step = reach.reach_step [where step = daemon_step]
  let ?d0 = "new_daemon 0 p"
  let ?d1 = "?d0\<lparr>d_sessions := (d_sessions ?d0)\<lparr>ss_started := True\<rparr>\<rparr>"
  let ?s2 = "(d_sessions ?d1)\<lparr>ss_streams := [0], ss_queue := [sample_accepted 0]\<rparr>"
  let ?d2 = "?d1\<lparr>d_sessions := ?s2\<rparr>"
  let ?d3 = "?d2\<lparr>d_sessions := sample_offered p\<rparr>"
  have 1: "reach daemon_step ?d0 ?d1" by (rule next_step [OF reach_start daemon_lease [OF lease_start]]) simp
  have "offer False True \<lparr>ac_t = 0, ac_generation = 0, ac_stream = True\<rparr> (register_stream 0 (d_sessions ?d1)) = Some ?s2"
    by (simp add: offer_def register_stream_def new_sessions_def new_daemon_def sample_accepted_def)
  from next_step [OF 1 daemon_lease [OF lease_stream [OF this]]] have 2: "reach daemon_step ?d0 ?d2"
    by (simp add: new_daemon_def new_sessions_def)
  have "offer False True \<lparr>ac_t = 1, ac_generation = 0, ac_stream = True\<rparr> (register_stream 1 (d_sessions ?d2)) = Some (sample_offered p)"
    by (simp add: offer_def register_stream_def new_sessions_def new_daemon_def sample_accepted_def sample_offered_def)
  from next_step [OF 2 daemon_lease [OF lease_stream [OF this]]] have 3: "reach daemon_step ?d0 ?d3"
    by (simp add: new_daemon_def new_sessions_def sample_offered_def)
  let ?remote = "\<lambda>_. None :: string option"
  obtain d4 where a4: "accept_turn ?remote False True (\<lambda>_ _. True) ?d3 = Some d4"
    and d4: "ss_queue (d_sessions d4) = [sample_accepted 1]" "ss_started (d_sessions d4)" "ss_pool (d_sessions d4) = Some p1"
      "length (ss_conns (d_sessions d4)) = 1" "d_routes d4 = snd (register ?remote 0 a newClientRoute)"
    using ab(1) ne(1)
    by (simp add: accept_turn_def server_Accept_def sample_offered_def makeConn_def Let_def new_sessions_def new_daemon_def)
  from next_step [OF 3 daemon_accept [OF a4]] have 4: "reach daemon_step ?d0 d4" .
  obtain d5 where a5: "accept_turn ?remote False True (\<lambda>_ _. True) d4 = Some d5"
    and d5: "ss_started (d_sessions d5)" "length (ss_conns (d_sessions d5)) = 2" "d_routes d5 = snd (register ?remote 1 b (d_routes d4))"
    using ab(2) ne(2) d4 by (simp add: accept_turn_def server_Accept_def makeConn_def Let_def nth_append)
  from next_step [OF 4 daemon_accept [OF a5]] have 5: "reach daemon_step ?d0 d5" .
  have i0: "route_inv newClientRoute" using new_routes [of 0 p] by (simp add: new_daemon_def)
  have i4: "route_inv (d_routes d4)" "rt_ip (d_routes d4) a = Some 0"
    using register_inv [OF i0 ne(1)] register_fields(3) [OF i0 ne(1) prod.collapse [symmetric]] d4(5) by auto
  have "rt_conn (d_routes d4) 1 = None"
    unfolding d4(5) register_fields(2) [OF i0 ne(1) prod.collapse [symmetric]] by (simp add: newClientRoute_def)
  then have "rt_ip (d_routes d5) a = Some 0"
    using i4 ab(3) register_fields(3) [OF i4(1) ne(2) prod.collapse [symmetric]] d5(3) by auto
  with that [OF 5 _ _ ab(4) d5(1)] d5(2) show thesis by (simp add: route_lookup_def)
qed

theorem routes_are_inverse_witness:
  "\<exists>p d a. newAddressPool sample_cidr = Inr p \<and> reach daemon_step (new_daemon 0 p) d \<and> rt_conn (d_routes d) 0 = Some a"
proof -
  obtain p where p: "newAddressPool sample_cidr = Inr p" using sample_pool(2) by blast
  obtain d a b where d: "reach daemon_step (new_daemon 0 p) d" "route_lookup (d_routes d) a = Some 0" by (rule sample_daemon [OF p])
  from routes_are_inverse [OF d(1)] d(2) have "rt_conn (d_routes d) 0 = Some a" by blast
  with p d(1) show ?thesis by blast
qed

theorem spoofed_source_takes_over_witness:
  "\<exists>p d a pkt. newAddressPool sample_cidr = Inr p \<and> reach daemon_step (new_daemon 0 p) d \<and> route_lookup (d_routes d) a = Some 0 \<and>
     route_lookup (d_routes (pump_packet (\<lambda>_. None) (\<lambda>_. 0) True 1 pkt d)) a = Some 1 \<and>
     cn_done (ss_conns (d_sessions (pump_packet (\<lambda>_. None) (\<lambda>_. 0) True 1 pkt d)) ! 0)"
proof -
  obtain p where p: "newAddressPool sample_cidr = Inr p" using sample_pool(2) by blast
  obtain d a b where d: "reach daemon_step (new_daemon 0 p) d" "route_lookup (d_routes d) a = Some 0" "1 < length (ss_conns (d_sessions d))"
    "a \<in> stock_of p" by (rule sample_daemon [OF p])
  obtain pkt where pkt: "packetIP pkt False = a" using stock_packet [OF d(4)] by blast
  have "0 < length (ss_conns (d_sessions d))" "(0 :: nat) \<noteq> 1" using d(3) by linarith+
  from spoofed_source_takes_over [OF d(1,2) this(2,1) pkt, of "\<lambda>_. None" "\<lambda>_. 0"] p d(1,2) show ?thesis by blast
qed

theorem refused_client_is_fatal_witness:
  "\<exists>p d d' e. newAddressPool sample_cidr = Inr p \<and> reach daemon_step (new_daemon 0 p) d \<and>
     accept_turn (\<lambda>_. None) False True (\<lambda>_ _. False) d = Some d' \<and> waitRun False d' = Some e"
proof -
  obtain p where p: "newAddressPool sample_cidr = Inr p" using sample_pool(2) by blast
  note next_step = reach.reach_step [where step = daemon_step]
  let ?d1 = "(new_daemon 0 p)\<lparr>d_sessions := (d_sessions (new_daemon 0 p))\<lparr>ss_started := True\<rparr>\<rparr>"
  let ?s2 = "(d_sessions ?d1)\<lparr>ss_streams := [0], ss_queue := [sample_accepted 0]\<rparr>"
  have 1: "reach daemon_step (new_daemon 0 p) ?d1" by (rule next_step [OF reach_start daemon_lease [OF lease_start]]) simp
  have "offer False True \<lparr>ac_t = 0, ac_generation = 0, ac_stream = True\<rparr> (register_stream 0 (d_sessions ?d1)) = Some ?s2"
    by (simp add: offer_def register_stream_def new_sessions_def new_daemon_def sample_accepted_def)
  from next_step [OF 1 daemon_lease [OF lease_stream [OF this]]] have 2: "reach daemon_step (new_daemon 0 p) (?d1\<lparr>d_sessions := ?s2\<rparr>)"
    by (simp add: new_daemon_def new_sessions_def)
  have "ss_started (d_sessions (?d1\<lparr>d_sessions := ?s2\<rparr>))" "ss_queue (d_sessions (?d1\<lparr>d_sessions := ?s2\<rparr>)) = sample_accepted 0 # []"
    "\<forall>ip. \<not> (\<lambda>_ _. False) (ac_t (sample_accepted 0)) (ip :: string)" by simp_all
  from refused_client_is_fatal [OF p sample_pool(1) 2 this(1,2) disjI2 [OF this(3)], of "\<lambda>_. None" True] p 2 show ?thesis by blast
qed

end
