(* ===== verification/Http.thy ===== *)
theory Http
  imports Stream
begin

text \<open>
  The HTTP transport (\<open>core/httpstream.go\<close>, \<open>internal/tunnel/httpstream.go\<close>): a session is one
  upload and one download request with the same session id. The server's handlers are records
  with the point at which they wait; one step runs a handler from one wait to the next. On the
  connection a read takes one chunk that has arrived, and a deadline that expires closes it;
  the close, which the server runs in the background, is taken to happen at once.
\<close>

section \<open>Requests\<close>

datatype leg = Up | Down

datatype web_answer = NotFound | Upgrade | Leg leg

text \<open>\<open>wsHandler\<close> and \<open>httpHandler\<close>: what a request gets to see before anything else happens.\<close>

definition wsHandler :: "string \<Rightarrow> string \<Rightarrow> web_answer" where
  "wsHandler path url_path = (if url_path \<noteq> path then NotFound else Upgrade)"

definition httpHandler :: "string \<Rightarrow> string \<Rightarrow> string \<Rightarrow> string \<Rightarrow> web_answer" where
  "httpHandler path url_path sid dir =
     (if url_path \<noteq> path then NotFound
      else if length sid \<noteq> 24 then NotFound
      else if dir = ''up'' then Leg Up
      else if dir = ''down'' then Leg Down
      else NotFound)"

section \<open>Pairs\<close>

record pair =
  hp_up :: bool
  hp_down :: bool
  hp_down_closed :: bool         \<comment> \<open>the flag of the download stream\<close>
  hp_started :: bool             \<comment> \<open>and \<open>startedCh\<close> is closed\<close>
  hp_done :: bool

text \<open>Where a handler waits, until when, or the status with which it returned.\<close>

datatype phase = Waiting int | Holding | Ended nat

record handler =
  hd_leg :: leg
  hd_sid :: string
  hd_pair :: nat
  hd_phase :: phase

record http =
  ht_pairs :: "string \<Rightarrow> nat option"
  ht_heap :: "pair list"
  ht_handlers :: "handler list"

definition httpPairTimeout :: int where
  "httpPairTimeout = 10 * second"

definition new_http :: http where
  "new_http = \<lparr>ht_pairs = (\<lambda>_. None), ht_heap = [], ht_handlers = []\<rparr>"

definition new_pair :: pair where
  "new_pair = \<lparr>hp_up = False, hp_down = False, hp_down_closed = False, hp_started = False, hp_done = False\<rparr>"

definition sessionForHTTP :: "string \<Rightarrow> http \<Rightarrow> nat \<times> http" where
  "sessionForHTTP sid s =
     (case ht_pairs s sid of
        Some k \<Rightarrow> (k, s)
      | None \<Rightarrow> (length (ht_heap s),
                 s\<lparr>ht_pairs := (ht_pairs s)(sid := Some (length (ht_heap s))), ht_heap := ht_heap s @ [new_pair]\<rparr>))"

definition dropHTTPSession :: "string \<Rightarrow> http \<Rightarrow> http" where
  "dropHTTPSession sid s = s\<lparr>ht_pairs := (ht_pairs s)(sid := None)\<rparr>"

definition set_pair :: "nat \<Rightarrow> pair \<Rightarrow> http \<Rightarrow> http" where
  "set_pair k p s = s\<lparr>ht_heap := (ht_heap s)[k := p]\<rparr>"

definition maybeStartHTTPSession :: "nat \<Rightarrow> http \<Rightarrow> bool \<times> http" where
  "maybeStartHTTPSession k s =
     (let p = ht_heap s ! k in
      if hp_started p \<or> \<not> hp_up p \<or> \<not> hp_down p then (hp_started p, s)
      else (True, set_pair k (p\<lparr>hp_started := True\<rparr>) s))"

section \<open>The handlers\<close>

definition begin_handler :: "leg \<Rightarrow> int \<Rightarrow> string \<Rightarrow> nat \<Rightarrow> http \<Rightarrow> http" where
  "begin_handler l now sid k s =
     (case maybeStartHTTPSession k s of
        (started, s1) \<Rightarrow>
          s1\<lparr>ht_handlers := ht_handlers s1 @
               [\<lparr>hd_leg = l, hd_sid = sid, hd_pair = k,
                 hd_phase = (if started then Holding else Waiting (now + httpPairTimeout))\<rparr>]\<rparr>)"

text \<open>From the arrival of a request to its first wait; a duplicate leg is answered at once.\<close>

definition handleHTTPUpload :: "int \<Rightarrow> string \<Rightarrow> http \<Rightarrow> nat option \<times> http" where
  "handleHTTPUpload now sid s =
     (case sessionForHTTP sid s of
        (k, s1) \<Rightarrow>
          (let p = ht_heap s1 ! k in
           if hp_up p then (Some 409, s1)
           else (None, begin_handler Up now sid k (set_pair k (p\<lparr>hp_up := True\<rparr>) s1))))"

definition handleHTTPDownload :: "int \<Rightarrow> string \<Rightarrow> http \<Rightarrow> nat option \<times> http" where
  "handleHTTPDownload now sid s =
     (case sessionForHTTP sid s of
        (k, s1) \<Rightarrow>
          (let p = ht_heap s1 ! k in
           if hp_down p then (Some 200, s1)
           else (None, begin_handler Down now sid k (set_pair k (p\<lparr>hp_down := True\<rparr>) s1))))"

definition finish_down :: "nat \<Rightarrow> http \<Rightarrow> http" where
  "finish_down k s = set_pair k ((ht_heap s ! k)\<lparr>hp_down_closed := True\<rparr>) s"

text \<open>What ends a wait: the session has started, the timer, the client is gone, the pair is done.\<close>

datatype wake = Started | Timer | Gone | PairDone

definition upload_wake :: "wake \<Rightarrow> int \<Rightarrow> handler \<Rightarrow> http \<Rightarrow> (phase \<times> http) option" where
  "upload_wake ev now h s =
     (let p = ht_heap s ! hd_pair h in
      case hd_phase h of
        Waiting d \<Rightarrow>
          (case ev of
             Started \<Rightarrow> if hp_started p then Some (Holding, s) else None
           | Timer \<Rightarrow> if d \<le> now then Some (Ended 504, dropHTTPSession (hd_sid h) s) else None
           | Gone \<Rightarrow> Some (Ended 0, dropHTTPSession (hd_sid h) s)
           | PairDone \<Rightarrow> None)
      | Holding \<Rightarrow>
          (case ev of
             Gone \<Rightarrow> Some (Ended 200, s)
           | PairDone \<Rightarrow> if hp_done p then Some (Ended 200, s) else None
           | _ \<Rightarrow> None)
      | Ended _ \<Rightarrow> None)"

definition download_wake :: "wake \<Rightarrow> int \<Rightarrow> handler \<Rightarrow> http \<Rightarrow> (phase \<times> http) option" where
  "download_wake ev now h s =
     (let k = hd_pair h; p = ht_heap s ! k in
      case hd_phase h of
        Waiting d \<Rightarrow>
          (case ev of
             PairDone \<Rightarrow> if hp_done p then Some (Ended 200, finish_down k s) else None
           | Timer \<Rightarrow> if d \<le> now then Some (Ended 200, finish_down k (dropHTTPSession (hd_sid h) s)) else None
           | _ \<Rightarrow> None)
      | Holding \<Rightarrow>
          (case ev of
             Gone \<Rightarrow> Some (Ended 200, finish_down k s)
           | PairDone \<Rightarrow> if hp_done p then Some (Ended 200, finish_down k s) else None
           | _ \<Rightarrow> None)
      | Ended _ \<Rightarrow> None)"

definition wake_handler :: "wake \<Rightarrow> int \<Rightarrow> nat \<Rightarrow> http \<Rightarrow> http option" where
  "wake_handler ev now i s =
     (let h = ht_handlers s ! i in
      map_option (\<lambda>(ph, s1). s1\<lparr>ht_handlers := (ht_handlers s1)[i := h\<lparr>hd_phase := ph\<rparr>]\<rparr>)
        (case hd_leg h of Up \<Rightarrow> upload_wake ev now h s | Down \<Rightarrow> download_wake ev now h s))"

text \<open>A write of the session to the download; \<open>ok\<close> is the outcome of writing to the response.\<close>

definition down_write :: "nat \<Rightarrow> bool \<Rightarrow> bytes \<Rightarrow> http \<Rightarrow> nat res" where
  "down_write k ok b s =
     (if hp_down_closed (ht_heap s ! k) then Inl ErrClosed else if ok then Inr (length b) else Inl ErrNet)"

text \<open>The part of \<open>Server.Close\<close> about pairs: the table is replaced, pairs without any leg are ended.\<close>

definition close_pairs :: "http \<Rightarrow> http" where
  "close_pairs s =
     s\<lparr>ht_pairs := (\<lambda>_. None),
       ht_heap := map (\<lambda>p. if \<not> hp_started p \<and> \<not> hp_down p \<and> \<not> hp_up p then p\<lparr>hp_started := True, hp_done := True\<rparr> else p)
                    (ht_heap s)\<rparr>"

inductive http_step :: "http \<Rightarrow> http \<Rightarrow> bool" where
  http_upload: "http_step s (snd (handleHTTPUpload now sid s))"
| http_download: "http_step s (snd (handleHTTPDownload now sid s))"
| http_wake: "i < length (ht_handlers s) \<Longrightarrow> wake_handler ev now i s = Some s' \<Longrightarrow> http_step s s'"
| http_session_over: "i < length (ht_handlers s) \<Longrightarrow> hp_started (ht_heap s ! hd_pair (ht_handlers s ! i)) \<Longrightarrow>
    http_step s (dropHTTPSession (hd_sid (ht_handlers s ! i)) s)"
| http_close: "http_step s (close_pairs s)"

inductive_cases http_stepE: "http_step s s'"

section \<open>The connection\<close>

text \<open>Chunks with the time of their arrival; the deadline of \<open>SetReadDeadline\<close>; whether it was closed.\<close>

record http_conn =
  hc_in :: "(int \<times> bytes) list"
  hc_eof :: "int option"
  hc_rdl :: "int option"
  hc_closed :: bool
  hc_out :: bytes

definition SetReadDeadline :: "int option \<Rightarrow> http_conn \<Rightarrow> http_conn" where
  "SetReadDeadline d c = c\<lparr>hc_rdl := d\<rparr>"

definition within :: "int option \<Rightarrow> int \<Rightarrow> bool" where
  "within d t = (case d of None \<Rightarrow> True | Some d \<Rightarrow> t \<le> d)"

text \<open>\<open>Read\<close> into a buffer of \<open>n\<close> bytes; \<open>None\<close> is a read that never returns.\<close>

definition http_Read :: "nat \<Rightarrow> http_conn \<Rightarrow> (bytes res \<times> http_conn) option" where
  "http_Read n c =
     (if hc_closed c then Some (Inl ErrClosed, c)
      else case hc_in c of
        (t, b) # rest \<Rightarrow>
          if within (hc_rdl c) t
          then Some (Inr (take n b), c\<lparr>hc_in := (if length b \<le> n then rest else (t, drop n b) # rest)\<rparr>)
          else Some (Inl ErrTimeout, c\<lparr>hc_closed := True\<rparr>)
      | [] \<Rightarrow>
          if (case hc_eof c of None \<Rightarrow> False | Some t \<Rightarrow> within (hc_rdl c) t) then Some (Inl ErrRead, c)
          else if hc_rdl c = None then None
          else Some (Inl ErrTimeout, c\<lparr>hc_closed := True\<rparr>))"

text \<open>A write of the client; the server's writes are \<open>down_write\<close>.\<close>

definition http_Write :: "(bytes \<Rightarrow> bool) \<Rightarrow> bytes \<Rightarrow> http_conn \<Rightarrow> unit res \<times> http_conn" where
  "http_Write net b c =
     (if hc_closed c then (Inl ErrClosed, c)
      else if net b then (Inr (), c\<lparr>hc_out := hc_out c @ b\<rparr>) else (Inl ErrNet, c))"

text \<open>\<open>io.ReadFull\<close> on such a connection.\<close>

function http_ReadFull :: "nat \<Rightarrow> http_conn \<Rightarrow> (bytes \<times> error option \<times> http_conn) option" where
  "http_ReadFull n c =
     (if n = 0 then Some ([], None, c)
      else case http_Read n c of
        None \<Rightarrow> None
      | Some (Inl e, c1) \<Rightarrow> Some ([], Some e, c1)
      | Some (Inr b, c1) \<Rightarrow> map_option (\<lambda>(rest, e, c2). (b @ rest, e, c2)) (http_ReadFull (n - length b) c1))"
  by pat_completeness auto
termination
  by (relation "measure (\<lambda>(n, c). n + length (hc_in c))")
    (auto simp: http_Read_def split: if_splits list.splits prod.splits)

declare http_ReadFull.simps [simp del]

text \<open>\<open>DialHTTPStream\<close>: \<open>get\<close> is the status with which the download request is answered.\<close>

definition DialHTTPStream :: "(string \<Rightarrow> nat res) \<Rightarrow> (int \<times> bytes) list \<Rightarrow> int option \<Rightarrow> reader \<Rightarrow> (string \<times> http_conn) res" where
  "DialHTTPStream get body eof rnd =
     res_bind (read_full 12 rnd) (\<lambda>(sidBytes, _).
       let sid = hex_encode sidBytes in
       res_bind (get sid) (\<lambda>status.
         if status \<noteq> 200 then Inl ErrNet
         else Inr (sid, \<lparr>hc_in = body, hc_eof = eof, hc_rdl = None, hc_closed = False, hc_out = []\<rparr>)))"

section \<open>The connection of the server\<close>

text \<open>
  A deadline that expires closes the body of the upload only; \<open>Close\<close> closes \<open>done\<close> too. The writes
  are \<open>down_write\<close>.
\<close>

record server_conn =
  hs_in :: "(int \<times> bytes) list"
  hs_eof :: "int option"
  hs_rdl :: "int option"
  hs_body_closed :: bool
  hs_done :: bool

definition NewServerHTTPConn :: "(int \<times> bytes) list \<Rightarrow> int option \<Rightarrow> server_conn" where
  "NewServerHTTPConn body eof = \<lparr>hs_in = body, hs_eof = eof, hs_rdl = None, hs_body_closed = False, hs_done = False\<rparr>"

definition server_SetReadDeadline :: "int option \<Rightarrow> server_conn \<Rightarrow> server_conn" where
  "server_SetReadDeadline d c = c\<lparr>hs_rdl := d\<rparr>"

definition server_Read :: "nat \<Rightarrow> server_conn \<Rightarrow> (bytes res \<times> server_conn) option" where
  "server_Read n c =
     (if hs_done c \<or> hs_body_closed c then Some (Inl ErrClosed, c)
      else case hs_in c of
        (t, b) # rest \<Rightarrow>
          if within (hs_rdl c) t
          then Some (Inr (take n b), c\<lparr>hs_in := (if length b \<le> n then rest else (t, drop n b) # rest)\<rparr>)
          else Some (Inl ErrTimeout, c\<lparr>hs_body_closed := True\<rparr>)
      | [] \<Rightarrow>
          if (case hs_eof c of None \<Rightarrow> False | Some t \<Rightarrow> within (hs_rdl c) t) then Some (Inl ErrRead, c)
          else if hs_rdl c = None then None
          else Some (Inl ErrTimeout, c\<lparr>hs_body_closed := True\<rparr>))"

definition server_Close :: "server_conn \<Rightarrow> server_conn" where
  "server_Close c = (if hs_done c then c else c\<lparr>hs_done := True, hs_body_closed := True\<rparr>)"

section \<open>Listening\<close>

text \<open>
  The listeners that are open and the number of HTTP servers, of all calls together; a call serves
  each of the servers on the listener of the same index among its own.
\<close>

record web =
  web_open :: "string list"
  web_srvs :: nat

datatype web_start = WebServing | WebFailed | WebPanics

fun listen_each :: "(string \<Rightarrow> bool) \<Rightarrow> string list \<Rightarrow> nat \<Rightarrow> web \<Rightarrow> nat option \<times> web" where
  "listen_each listen [] own w = (Some own, w)"
| "listen_each listen (addr # addrs) own w =
     (if listen addr then listen_each listen addrs (own + 1) (w\<lparr>web_open := web_open w @ [addr], web_srvs := web_srvs w + 1\<rparr>)
      else (None, w\<lparr>web_open := []\<rparr>))"

definition startHTTPListeners :: "bool \<Rightarrow> (string \<Rightarrow> bool) \<Rightarrow> string \<Rightarrow> string list \<Rightarrow> web \<Rightarrow> web_start \<times> web" where
  "startHTTPListeners tls listen transport addrs w =
     (if transport = ''https'' \<and> \<not> tls then (WebFailed, w)
      else case listen_each listen addrs 0 w of
        (None, w1) \<Rightarrow> (WebFailed, w1)
      | (Some own, w1) \<Rightarrow> (if own < web_srvs w1 then WebPanics else WebServing, w1))"

end
