(* ===== verification/Http_Safety.thy ===== *)
theory Http_Safety
  imports Http
begin

text \<open>
  Properties of the HTTP transport: a session joins exactly one upload and one download, of one
  session id; which of the two requests comes first decides whether the session can last; while
  everything arrives in time the connection reads like a byte stream.
\<close>

section \<open>Pairing\<close>

lemma map_update_same: "f y = f (xs ! i) \<Longrightarrow> map f (xs[i := y]) = map f xs"
  by (cases "i < length xs") (simp_all add: map_update list_update_same_conv list_update_beyond)

text \<open>What of a handler never changes: its leg, its pair and its session id.\<close>

definition keys :: "http \<Rightarrow> (leg \<times> nat \<times> string) list" where
  "keys s = map (\<lambda>h. (hd_leg h, hd_pair h, hd_sid h)) (ht_handlers s)"

definition has_leg :: "leg \<Rightarrow> pair \<Rightarrow> bool" where
  "has_leg l p = (case l of Up \<Rightarrow> hp_up p | Down \<Rightarrow> hp_down p)"

definition attach :: "leg \<Rightarrow> pair \<Rightarrow> pair" where
  "attach l p = (case l of Up \<Rightarrow> p\<lparr>hp_up := True\<rparr> | Down \<Rightarrow> p\<lparr>hp_down := True\<rparr>)"

text \<open>
  The invariant: pair number \<open>k\<close> belongs to the id \<open>names ! k\<close>, in the table and for every
  handler; no pair has two handlers for one leg; a leg is attached iff it has a handler; a
  session that has started has both legs; a pair is never empty and never done.
\<close>

definition pairs_ok :: "string list \<Rightarrow> http \<Rightarrow> bool" where
  "pairs_ok names s \<longleftrightarrow>
     length names = length (ht_heap s) \<and>
     (\<forall>sid k. ht_pairs s sid = Some k \<longrightarrow> k < length names \<and> names ! k = sid) \<and>
     (\<forall>l k sid. (l, k, sid) \<in> set (keys s) \<longrightarrow> k < length names \<and> names ! k = sid) \<and>
     distinct (map (\<lambda>(l, k, sid). (l, k)) (keys s)) \<and>
     (\<forall>k < length names. \<forall>l. has_leg l (ht_heap s ! k) \<longleftrightarrow> (l, k, names ! k) \<in> set (keys s)) \<and>
     (\<forall>p \<in> set (ht_heap s). hp_started p \<longrightarrow> hp_up p \<and> hp_down p)"

definition busy :: "http \<Rightarrow> bool" where
  "busy s \<longleftrightarrow> (\<forall>p \<in> set (ht_heap s). (hp_up p \<or> hp_down p) \<and> \<not> hp_done p)"

definition http_inv :: "http \<Rightarrow> bool" where
  "http_inv s \<longleftrightarrow> (\<exists>names. pairs_ok names s) \<and> busy s"

text \<open>What changes neither a handler's key nor a pair's flags keeps the invariant, also if the table shrinks.\<close>

definition flags :: "pair \<Rightarrow> bool \<times> bool \<times> bool \<times> bool" where
  "flags p = (hp_up p, hp_down p, hp_started p, hp_done p)"

lemma http_inv_same:
  assumes "http_inv s" "keys s' = keys s" "map flags (ht_heap s') = map flags (ht_heap s)"
    "\<And>sid k. ht_pairs s' sid = Some k \<Longrightarrow> ht_pairs s sid = Some k"
  shows "http_inv s'"
proof -
  have len: "length (ht_heap s') = length (ht_heap s)" using arg_cong [OF assms(3), of length] by simp
  have each: "\<exists>q \<in> set (ht_heap s). flags p = flags q" if "p \<in> set (ht_heap s')" for p
    using that arg_cong [OF assms(3), of set] by (metis (no_types, lifting) imageE image_eqI list.set_map)
  have at: "has_leg l (ht_heap s' ! k) = has_leg l (ht_heap s ! k)" if "k < length (ht_heap s)" for l k
  proof -
    from assms(3) that len have "flags (ht_heap s' ! k) = flags (ht_heap s ! k)" by (metis nth_map)
    then show ?thesis by (cases l) (simp_all add: has_leg_def flags_def)
  qed
  from assms(1) obtain names where N: "pairs_ok names s" and b: "busy s" by (auto simp: http_inv_def)
  have starts: "\<forall>p \<in> set (ht_heap s'). hp_started p \<longrightarrow> hp_up p \<and> hp_down p"
  proof (intro ballI)
    fix p
    assume "p \<in> set (ht_heap s')"
    with each obtain q where "q \<in> set (ht_heap s)" "flags p = flags q" by blast
    with N show "hp_started p \<longrightarrow> hp_up p \<and> hp_down p" by (simp add: pairs_ok_def flags_def)
  qed
  have table: "\<forall>sid k. ht_pairs s' sid = Some k \<longrightarrow> k < length names \<and> names ! k = sid"
    using N assms(4) unfolding pairs_ok_def by blast
  have "\<forall>k < length names. \<forall>l. has_leg l (ht_heap s' ! k) \<longleftrightarrow> (l, k, names ! k) \<in> set (keys s')"
    using N at assms(2) unfolding pairs_ok_def by simp
  moreover have "length names = length (ht_heap s')" "distinct (map (\<lambda>(l, k, sid). (l, k)) (keys s'))"
    using N len assms(2) unfolding pairs_ok_def by simp_all
  moreover have "\<forall>l k sid. (l, k, sid) \<in> set (keys s') \<longrightarrow> k < length names \<and> names ! k = sid"
    using N unfolding pairs_ok_def assms(2) by blast
  ultimately have "pairs_ok names s'" using starts table unfolding pairs_ok_def by blast
  moreover have "busy s'" using b each unfolding busy_def flags_def by (metis prod.inject)
  ultimately show ?thesis unfolding http_inv_def by blast
qed

lemma drop_inv: "http_inv s \<Longrightarrow> http_inv (dropHTTPSession sid s)"
  by (erule http_inv_same) (auto simp: dropHTTPSession_def keys_def split: if_splits)

lemma finish_flags: "map flags (ht_heap (finish_down k s)) = map flags (ht_heap s)"
  by (simp add: finish_down_def set_pair_def) (rule map_update_same, simp add: flags_def)

lemma finish_inv: "http_inv s \<Longrightarrow> http_inv (finish_down k s)"
  by (erule http_inv_same) (auto simp: finish_flags, auto simp: finish_down_def set_pair_def keys_def)

lemma phase_inv:
  assumes "http_inv s"
  shows "http_inv (s\<lparr>ht_handlers := (ht_handlers s)[i := (ht_handlers s ! i)\<lparr>hd_phase := ph\<rparr>]\<rparr>)"
proof (rule http_inv_same [OF assms])
  show "keys (s\<lparr>ht_handlers := (ht_handlers s)[i := (ht_handlers s ! i)\<lparr>hd_phase := ph\<rparr>]\<rparr>) = keys s"
    by (simp add: keys_def) (rule map_update_same, simp)
qed simp_all

lemma close_inv:
  assumes "http_inv s"
  shows "http_inv (close_pairs s)"
proof (rule http_inv_same [OF assms])
  have "\<forall>p \<in> set (ht_heap s). hp_up p \<or> hp_down p" using assms by (auto simp: http_inv_def busy_def)
  then show "map flags (ht_heap (close_pairs s)) = map flags (ht_heap s)" by (auto simp: close_pairs_def)
qed (simp_all add: close_pairs_def keys_def)

text \<open>A new leg: what the table, the pairs and the keys are after it.\<close>

lemma begin_handler_fields:
  assumes "k < length (ht_heap s)"
  defines "p \<equiv> ht_heap s ! k"
  shows "ht_pairs (begin_handler l now sid k s) = ht_pairs s"
    "keys (begin_handler l now sid k s) = keys s @ [(l, k, sid)]"
    "ht_heap (begin_handler l now sid k s) = (ht_heap s)[k := p\<lparr>hp_started := hp_started p \<or> hp_up p \<and> hp_down p\<rparr>]"
    "ht_handlers (begin_handler l now sid k s) = ht_handlers s @ [\<lparr>hd_leg = l, hd_sid = sid, hd_pair = k,
       hd_phase = (if hp_started p \<or> hp_up p \<and> hp_down p then Holding else Waiting (now + httpPairTimeout))\<rparr>]"
proof -
  have same: "hp_started q = b \<Longrightarrow> q\<lparr>hp_started := b\<rparr> = q" for q :: pair and b by (cases q) simp
  show "ht_pairs (begin_handler l now sid k s) = ht_pairs s"
    "keys (begin_handler l now sid k s) = keys s @ [(l, k, sid)]"
    "ht_handlers (begin_handler l now sid k s) = ht_handlers s @ [\<lparr>hd_leg = l, hd_sid = sid, hd_pair = k,
       hd_phase = (if hp_started p \<or> hp_up p \<and> hp_down p then Holding else Waiting (now + httpPairTimeout))\<rparr>]"
    by (auto simp: begin_handler_def maybeStartHTTPSession_def set_pair_def Let_def keys_def p_def)
  show "ht_heap (begin_handler l now sid k s) = (ht_heap s)[k := p\<lparr>hp_started := hp_started p \<or> hp_up p \<and> hp_down p\<rparr>]"
    unfolding begin_handler_def maybeStartHTTPSession_def set_pair_def Let_def p_def
    by (cases "hp_started (ht_heap s ! k)"; cases "hp_up (ht_heap s ! k)"; cases "hp_down (ht_heap s ! k)") (simp_all add: same)
qed

lemma sessionForHTTP_ok:
  assumes "pairs_ok names s" "sessionForHTTP sid s = (k, s1)"
  obtains names1 where "pairs_ok names1 s1" "k < length (ht_heap s1)" "names1 ! k = sid" "ht_handlers s1 = ht_handlers s"
    "\<And>j. j \<noteq> k \<Longrightarrow> j < length (ht_heap s1) \<Longrightarrow> j < length (ht_heap s) \<and> ht_heap s1 ! j = ht_heap s ! j"
    "\<not> hp_done (ht_heap s1 ! k) \<or> k < length (ht_heap s) \<and> ht_heap s1 ! k = ht_heap s ! k"
proof (cases "ht_pairs s sid")
  case (Some k0)
  with assms(2) have "k = k0" "s1 = s" by (auto simp: sessionForHTTP_def)
  moreover have "k0 < length (ht_heap s)" "names ! k0 = sid" using Some assms(1) unfolding pairs_ok_def by force+
  ultimately show ?thesis using that [OF _ _ _ _ _ disjI2] assms(1) by blast
next
  case None
  let ?n = "length (ht_heap s)"
  from None assms(2) have s1: "k = ?n" "s1 = s\<lparr>ht_pairs := (ht_pairs s)(sid := Some ?n), ht_heap := ht_heap s @ [new_pair]\<rparr>"
    by (auto simp: sessionForHTTP_def)
  have len: "length names = ?n" using assms(1) by (simp add: pairs_ok_def)
  have "\<forall>l. (l, ?n, sid') \<notin> set (keys s)" for sid'
    using assms(1) len unfolding pairs_ok_def by (metis less_irrefl)
  moreover have "\<not> has_leg l new_pair" for l by (cases l) (simp_all add: has_leg_def new_pair_def)
  ultimately have "pairs_ok (names @ [sid]) s1"
    using assms(1) len by (auto simp: pairs_ok_def s1 keys_def nth_append less_Suc_eq new_pair_def)
  then show ?thesis using len by (intro that [of "names @ [sid]"]) (auto simp: s1 nth_append new_pair_def)
qed

lemma attach_leg:
  "has_leg l' (attach l p) \<longleftrightarrow> l' = l \<or> has_leg l' p"
  "hp_started (attach l p) = hp_started p" "hp_done (attach l p) = hp_done p"
  by (cases l; cases l'; simp add: has_leg_def attach_def; fail)+

lemma both_legs: "hp_up p \<and> hp_down p \<longleftrightarrow> (\<forall>l. has_leg l p)" "hp_up p \<or> hp_down p \<longleftrightarrow> (\<exists>l. has_leg l p)"
proof -
  have "P Up \<and> P Down \<longleftrightarrow> (\<forall>l. P l)" "P Up \<or> P Down \<longleftrightarrow> (\<exists>l. P l)" for P by (metis leg.exhaust)+
  from this [of "\<lambda>l. has_leg l p"] show "hp_up p \<and> hp_down p \<longleftrightarrow> (\<forall>l. has_leg l p)" "hp_up p \<or> hp_down p \<longleftrightarrow> (\<exists>l. has_leg l p)"
    by (simp_all add: has_leg_def)
qed

lemma attach_ok:
  assumes "pairs_ok names s" "k < length (ht_heap s)" "names ! k = sid" "\<not> has_leg l (ht_heap s ! k)"
  shows "pairs_ok names (begin_handler l now sid k (set_pair k (attach l (ht_heap s ! k)) s))" (is "pairs_ok names ?s")
proof -
  let ?t = "set_pair k (attach l (ht_heap s ! k)) s"
  have t: "k < length (ht_heap ?t)" "ht_heap ?t ! k = attach l (ht_heap s ! k)" "keys ?t = keys s" "ht_pairs ?t = ht_pairs s"
    "length (ht_heap ?t) = length (ht_heap s)" using assms(2) by (simp_all add: set_pair_def keys_def)
  note B = begin_handler_fields [OF t(1), of l now sid]
  have h: "ht_heap ?t = (ht_heap s)[k := attach l (ht_heap s ! k)]" by (simp add: set_pair_def)
  have len: "length names = length (ht_heap s)" using assms(1) by (simp add: pairs_ok_def)
  have new: "(l, k, sid) \<notin> set (keys s)" using assms unfolding pairs_ok_def by metis
  have fresh: "(l, k) \<notin> set (map (\<lambda>(l, k, sid). (l, k)) (keys s))"
    using new assms(1,3) unfolding pairs_ok_def by (fastforce simp del: map_map)
  have legs: "has_leg l' (ht_heap ?s ! j) \<longleftrightarrow> (l', j, names ! j) \<in> set (keys ?s)" if "j < length names" for l' j
  proof (cases "j = k")
    case True
    have "has_leg l' (ht_heap ?s ! k) = has_leg l' (attach l (ht_heap s ! k))"
      using t(1) by (simp add: B(3) t(2)) (cases l'; simp add: has_leg_def)
    also have "\<dots> \<longleftrightarrow> l' = l \<or> (l', k, sid) \<in> set (keys s)"
      using assms(1-3) len unfolding attach_leg pairs_ok_def by auto
    finally show ?thesis using assms(3) by (auto simp: True B(2) t(3))
  next
    case False
    then have "ht_heap ?s ! j = ht_heap s ! j" by (simp add: B(3) h)
    moreover have "has_leg l' (ht_heap s ! j) \<longleftrightarrow> (l', j, names ! j) \<in> set (keys s)"
      using assms(1) that unfolding pairs_ok_def by blast
    ultimately show ?thesis using False by (simp add: B(2) t(3))
  qed
  have starts: "hp_up p \<and> hp_down p" if p: "p \<in> set (ht_heap ?s)" "hp_started p" for p
  proof -
    from p(1) B(3) have "p \<in> set (ht_heap s) \<or> p = (attach l (ht_heap s ! k))\<lparr>hp_started := hp_started (attach l (ht_heap s ! k)) \<or>
        hp_up (attach l (ht_heap s ! k)) \<and> hp_down (attach l (ht_heap s ! k))\<rparr>"
      by (auto simp: h assms(2) dest!: set_update_subset_insert [THEN subsetD])
    moreover have "\<forall>q \<in> set (ht_heap s). hp_started q \<longrightarrow> hp_up q \<and> hp_down q" using assms(1) unfolding pairs_ok_def by blast
    moreover have "hp_started (ht_heap s ! k) \<longrightarrow> hp_up (attach l (ht_heap s ! k)) \<and> hp_down (attach l (ht_heap s ! k))"
      using calculation(2) assms(2) unfolding both_legs attach_leg by (metis nth_mem)
    ultimately show ?thesis using p(2) by (auto simp: attach_leg(2))
  qed
  have "\<forall>l' j sid'. (l', j, sid') \<in> set (keys ?s) \<longrightarrow> j < length names \<and> names ! j = sid'"
    using assms(1-3) len unfolding pairs_ok_def B(2) t(3) by simp
  moreover have "distinct (map (\<lambda>(l, k, sid). (l, k)) (keys ?s))"
    using assms(1) fresh unfolding pairs_ok_def B(2) t(3) by simp
  moreover have "\<forall>sid k. ht_pairs ?s sid = Some k \<longrightarrow> k < length names \<and> names ! k = sid"
    using assms(1) unfolding pairs_ok_def B(1) t(4) by blast
  moreover have "length names = length (ht_heap ?s)" using len by (simp add: B(3) t(5))
  ultimately show ?thesis using legs starts unfolding pairs_ok_def by blast
qed

text \<open>The arrival of a request, for both legs at once.\<close>

definition arrive :: "leg \<Rightarrow> int \<Rightarrow> string \<Rightarrow> http \<Rightarrow> http" where
  "arrive l now sid s = (case l of Up \<Rightarrow> snd (handleHTTPUpload now sid s) | Down \<Rightarrow> snd (handleHTTPDownload now sid s))"

lemma arrive_cases:
  assumes "sessionForHTTP sid s = (k, s1)"
  shows "arrive l now sid s =
    (if has_leg l (ht_heap s1 ! k) then s1 else begin_handler l now sid k (set_pair k (attach l (ht_heap s1 ! k)) s1))"
  using assms by (cases l) (simp_all add: arrive_def handleHTTPUpload_def handleHTTPDownload_def has_leg_def attach_def Let_def)

lemma arrive_inv:
  assumes "http_inv s"
  shows "http_inv (arrive l now sid s)"
proof -
  from assms obtain names where N: "pairs_ok names s" and b: "busy s" by (auto simp: http_inv_def)
  obtain k s1 where S: "sessionForHTTP sid s = (k, s1)" by fastforce
  obtain names1 where F: "pairs_ok names1 s1" "k < length (ht_heap s1)" "names1 ! k = sid"
      "\<And>j. j \<noteq> k \<Longrightarrow> j < length (ht_heap s1) \<Longrightarrow> j < length (ht_heap s) \<and> ht_heap s1 ! j = ht_heap s ! j"
      "\<not> hp_done (ht_heap s1 ! k) \<or> k < length (ht_heap s) \<and> ht_heap s1 ! k = ht_heap s ! k"
    using sessionForHTTP_ok [OF N S] by metis
  have others: "(\<exists>l. has_leg l (ht_heap s1 ! j)) \<and> \<not> hp_done (ht_heap s1 ! j)" if "j \<noteq> k" "j < length (ht_heap s1)" for j
    using F(4) [OF that] b unfolding busy_def both_legs by (metis nth_mem)
  have notdone: "\<not> hp_done (ht_heap s1 ! k)" using F(5) b unfolding busy_def by (metis nth_mem)
  have whole: "busy t" if "length (ht_heap t) = length (ht_heap s1)" "\<And>j. j \<noteq> k \<Longrightarrow> ht_heap t ! j = ht_heap s1 ! j"
      "\<exists>l. has_leg l (ht_heap t ! k)" "\<not> hp_done (ht_heap t ! k)" for t
    unfolding busy_def both_legs all_set_conv_all_nth using that others by metis
  show ?thesis
  proof (cases "has_leg l (ht_heap s1 ! k)")
    case True
    with whole [of s1] notdone F(1) show ?thesis by (auto simp: arrive_cases [OF S] http_inv_def)
  next
    case False
    let ?t = "set_pair k (attach l (ht_heap s1 ! k)) s1"
    have t: "k < length (ht_heap ?t)" "ht_heap ?t = (ht_heap s1)[k := attach l (ht_heap s1 ! k)]"
      using F(2) by (simp_all add: set_pair_def)
    note B = begin_handler_fields [OF t(1), of l now sid]
    have "has_leg l (p\<lparr>hp_started := b\<rparr>) = has_leg l p" for p b by (cases l) (simp_all add: has_leg_def)
    then have "has_leg l (ht_heap (begin_handler l now sid k ?t) ! k)" "\<not> hp_done (ht_heap (begin_handler l now sid k ?t) ! k)"
      using F(2) notdone by (simp_all add: B(3) t(2) attach_leg)
    then have "busy (begin_handler l now sid k ?t)" by (intro whole) (auto simp: B(3) t(2))
    with attach_ok [OF F(1-3) False] False show ?thesis by (auto simp: arrive_cases [OF S] http_inv_def)
  qed
qed

lemma wake_cases:
  assumes "wake_handler ev now i s = Some s'"
  obtains ph s1 where "s' = s1\<lparr>ht_handlers := (ht_handlers s1)[i := (ht_handlers s ! i)\<lparr>hd_phase := ph\<rparr>]\<rparr>"
    "s1 \<in> {s, dropHTTPSession (hd_sid (ht_handlers s ! i)) s, finish_down (hd_pair (ht_handlers s ! i)) s,
       finish_down (hd_pair (ht_handlers s ! i)) (dropHTTPSession (hd_sid (ht_handlers s ! i)) s)}"
  using assms by (auto simp: wake_handler_def Let_def upload_wake_def download_wake_def
    split: leg.splits phase.splits wake.splits if_splits)

interpretation pairing: invariant_of http_step http_inv
proof unfold_locales
  fix s s'
  assume "http_step s s'" "http_inv s"
  then show "http_inv s'"
  proof (cases rule: http_step.cases)
    case (http_upload now sid)
    with arrive_inv [OF \<open>http_inv s\<close>, of Up now sid] show ?thesis by (simp add: arrive_def)
  next
    case (http_download now sid)
    with arrive_inv [OF \<open>http_inv s\<close>, of Down now sid] show ?thesis by (simp add: arrive_def)
  next
    case (http_wake i ev now)
    from wake_cases [OF http_wake(2)] obtain ph s1 where
      w: "s' = s1\<lparr>ht_handlers := (ht_handlers s1)[i := (ht_handlers s ! i)\<lparr>hd_phase := ph\<rparr>]\<rparr>"
      "s1 \<in> {s, dropHTTPSession (hd_sid (ht_handlers s ! i)) s, finish_down (hd_pair (ht_handlers s ! i)) s,
         finish_down (hd_pair (ht_handlers s ! i)) (dropHTTPSession (hd_sid (ht_handlers s ! i)) s)}" .
    have "http_inv s1" using w(2) \<open>http_inv s\<close> drop_inv finish_inv by blast
    moreover have "ht_handlers s1 = ht_handlers s" using w(2) by (auto simp: dropHTTPSession_def finish_down_def set_pair_def)
    ultimately show ?thesis using w(1) phase_inv [of s1 i ph] by simp
  qed (use \<open>http_inv s\<close> drop_inv close_inv in auto)
qed

lemma new_http_inv: "http_inv new_http"
proof -
  have "pairs_ok [] new_http" by (simp add: pairs_ok_def new_http_def keys_def)
  then show ?thesis by (auto simp: http_inv_def busy_def new_http_def)
qed

lemma pairs_okD:
  assumes "pairs_ok names s" "k < length (ht_heap s)"
  shows "has_leg l (ht_heap s ! k) \<longleftrightarrow> (l, k, names ! k) \<in> set (keys s)"
    "hp_started (ht_heap s ! k) \<Longrightarrow> has_leg l (ht_heap s ! k)"
    "h \<in> set (ht_handlers s) \<Longrightarrow> hd_pair h = k \<Longrightarrow> hd_sid h = names ! k"
proof -
  show "has_leg l (ht_heap s ! k) \<longleftrightarrow> (l, k, names ! k) \<in> set (keys s)" using assms unfolding pairs_ok_def by simp
  assume "hp_started (ht_heap s ! k)"
  moreover have "\<forall>p \<in> set (ht_heap s). hp_started p \<longrightarrow> hp_up p \<and> hp_down p" using assms(1) unfolding pairs_ok_def by blast
  ultimately have "\<forall>l. has_leg l (ht_heap s ! k)" using both_legs(1) nth_mem [OF assms(2)] by blast
  then show "has_leg l (ht_heap s ! k)" by blast
next
  assume "h \<in> set (ht_handlers s)" "hd_pair h = k"
  then have key: "(hd_leg h, k, hd_sid h) \<in> set (keys s)" by (auto simp: keys_def)
  have all: "\<forall>l k sid. (l, k, sid) \<in> set (keys s) \<longrightarrow> k < length names \<and> names ! k = sid"
    using assms(1) unfolding pairs_ok_def by (elim conjE)
  from all [rule_format, OF key] show "hd_sid h = names ! k" by simp
qed

lemma filter_unique: "distinct (map f xs) \<Longrightarrow> x \<in> set xs \<Longrightarrow> filter (\<lambda>y. f y = f x) xs = [x]"
  by (induction xs) (auto simp: image_iff filter_empty_conv)

text \<open>
  C29. Requests of different clients are never joined: in every state the server's handlers can
  reach, a session that has started has exactly one upload and exactly one download handler, and
  both, like every other handler that holds the same pair, came with the same session id.
\<close>
theorem http_pairing:
  assumes "reach http_step new_http s" "k < length (ht_heap s)" "hp_started (ht_heap s ! k)"
  shows "\<exists>sid u d. filter (\<lambda>h. hd_leg h = Up \<and> hd_pair h = k) (ht_handlers s) = [u] \<and>
    filter (\<lambda>h. hd_leg h = Down \<and> hd_pair h = k) (ht_handlers s) = [d] \<and>
    (\<forall>h \<in> set (ht_handlers s). hd_pair h = k \<longrightarrow> hd_sid h = sid)"
proof -
  from pairing.run_keeps [OF assms(1) new_http_inv] obtain names where N: "pairs_ok names s" by (auto simp: http_inv_def)
  have dist: "distinct (map (\<lambda>h. (hd_leg h, hd_pair h)) (ht_handlers s))"
    using N by (simp add: pairs_ok_def keys_def comp_def)
  have one: "\<exists>u. filter (\<lambda>h. hd_leg h = l \<and> hd_pair h = k) (ht_handlers s) = [u]" for l
  proof -
    have "(l, k, names ! k) \<in> set (keys s)" using pairs_okD(1,2) [OF N assms(2), of l] assms(3) by blast
    then obtain u where "u \<in> set (ht_handlers s)" "hd_leg u = l" "hd_pair u = k" by (auto simp: keys_def)
    with filter_unique [OF dist, of u] show ?thesis by auto
  qed
  have "\<forall>h \<in> set (ht_handlers s). hd_pair h = k \<longrightarrow> hd_sid h = names ! k"
    using pairs_okD(3) [OF N assms(2)] by blast
  with one [of Up] one [of Down] show ?thesis by blast
qed

section \<open>Which leg comes first\<close>

text \<open>A download that waits: its phase changes only when its timer fires, and then its stream is closed.\<close>

definition waits_or_closed :: "nat \<Rightarrow> handler \<Rightarrow> http \<Rightarrow> bool" where
  "waits_or_closed i h s \<longleftrightarrow> i < length (ht_handlers s) \<and> hd_pair h < length (ht_heap s) \<and>
     (ht_handlers s ! i = h \<or> hp_down_closed (ht_heap s ! hd_pair h))"

lemma attach_closed: "hp_down_closed ((xs[k := attach l (xs ! k)]) ! j) = hp_down_closed (xs ! j)"
  by (cases "k < length xs"; cases l) (auto simp: attach_def nth_list_update list_update_beyond)

lemma start_closed: "hp_down_closed ((xs[k := (xs ! k)\<lparr>hp_started := b\<rparr>]) ! j) = hp_down_closed (xs ! j)"
  by (cases "k < length xs") (auto simp: nth_list_update list_update_beyond)

lemma arrive_waits:
  assumes "waits_or_closed i h s"
  shows "waits_or_closed i h (arrive l now sid s)"
proof -
  obtain k s1 where S: "sessionForHTTP sid s = (k, s1)" by fastforce
  then have s1: "waits_or_closed i h s1" "ht_handlers s1 = ht_handlers s"
    using assms by (auto simp: sessionForHTTP_def waits_or_closed_def nth_append split: option.splits)
  let ?t = "set_pair k (attach l (ht_heap s1 ! k)) s1"
  have t: "waits_or_closed i h ?t" using s1(1) by (simp add: waits_or_closed_def set_pair_def attach_closed)
  have "waits_or_closed i h (begin_handler l now sid k ?t)"
  proof (cases "k < length (ht_heap ?t)")
    case True
    note B = begin_handler_fields [OF this, of l now sid]
    from t show ?thesis by (auto simp: waits_or_closed_def B nth_append start_closed)
  next
    case False
    then have "ht_heap (begin_handler l now sid k ?t) = ht_heap ?t"
      by (simp add: begin_handler_def maybeStartHTTPSession_def set_pair_def Let_def list_update_beyond)
    moreover have "\<exists>x. ht_handlers (begin_handler l now sid k ?t) = ht_handlers ?t @ [x]"
      by (auto simp: begin_handler_def maybeStartHTTPSession_def set_pair_def Let_def)
    ultimately show ?thesis using t by (auto simp: waits_or_closed_def nth_append)
  qed
  with s1 show ?thesis by (simp add: arrive_cases [OF S])
qed

lemma finish_closed: "hp_down_closed (ht_heap s ! k) \<Longrightarrow> hp_down_closed (ht_heap (finish_down j s) ! k)"
  by (cases "j < length (ht_heap s)") (auto simp: finish_down_def set_pair_def nth_list_update list_update_beyond)

lemma wake_waits:
  assumes "waits_or_closed i h s" "hd_leg h = Down" "hd_phase h = Waiting d" "wake_handler ev now j s = Some s'"
  shows "waits_or_closed i h s'"
proof (cases "j = i \<and> ht_handlers s ! i = h")
  case True
  with assms show ?thesis
    by (auto simp: wake_handler_def download_wake_def waits_or_closed_def Let_def finish_down_def set_pair_def dropHTTPSession_def
      split: wake.splits if_splits)
next
  case False
  from wake_cases [OF assms(4)] obtain ph s1 where w:
    "s' = s1\<lparr>ht_handlers := (ht_handlers s1)[j := (ht_handlers s ! j)\<lparr>hd_phase := ph\<rparr>]\<rparr>"
    "s1 \<in> {s, dropHTTPSession (hd_sid (ht_handlers s ! j)) s, finish_down (hd_pair (ht_handlers s ! j)) s,
       finish_down (hd_pair (ht_handlers s ! j)) (dropHTTPSession (hd_sid (ht_handlers s ! j)) s)}" .
  then have "ht_handlers s1 = ht_handlers s" "length (ht_heap s1) = length (ht_heap s)"
    by (auto simp: dropHTTPSession_def finish_down_def set_pair_def)
  moreover have "hp_down_closed (ht_heap s ! k) \<Longrightarrow> hp_down_closed (ht_heap s1 ! k)" for k
    using w(2) finish_closed [of s] finish_closed [of "dropHTTPSession (hd_sid (ht_handlers s ! j)) s"]
    by (auto simp: dropHTTPSession_def)
  ultimately show ?thesis using False assms(1) w(1) by (auto simp: waits_or_closed_def nth_list_update)
qed

lemma run_waits:
  assumes "reach http_step s s'" "waits_or_closed i h s" "hd_leg h = Down" "hd_phase h = Waiting d"
  shows "waits_or_closed i h s'"
proof -
  have "waits_or_closed i h s2" if "http_step s1 s2" "waits_or_closed i h s1" for s1 s2
    using that
  proof (cases rule: http_step.cases)
    case (http_upload now sid)
    with arrive_waits [OF that(2), of Up now sid] show ?thesis by (simp add: arrive_def)
  next
    case (http_download now sid)
    with arrive_waits [OF that(2), of Down now sid] show ?thesis by (simp add: arrive_def)
  next
    case (http_wake j ev now)
    with wake_waits [OF that(2) assms(3,4)] show ?thesis by blast
  qed (auto simp: waits_or_closed_def dropHTTPSession_def close_pairs_def)
  then have "invariant_of http_step (waits_or_closed i h)" by unfold_locales
  from invariant_of.run_keeps [OF this assms(1,2)] show ?thesis .
qed

text \<open>The two requests of a fresh session id, in either order.\<close>

lemma two_legs:
  fixes t0 t1 :: int
  assumes "ht_pairs s sid = None" "l' \<noteq> l"
  defines "k \<equiv> length (ht_heap s)" and "s2 \<equiv> arrive l' t1 sid (arrive l t0 sid s)"
  shows "ht_handlers s2 = ht_handlers s @ [\<lparr>hd_leg = l, hd_sid = sid, hd_pair = k, hd_phase = Waiting (t0 + httpPairTimeout)\<rparr>,
      \<lparr>hd_leg = l', hd_sid = sid, hd_pair = k, hd_phase = Holding\<rparr>]"
    "ht_heap s2 = ht_heap s @ [\<lparr>hp_up = True, hp_down = True, hp_down_closed = False, hp_started = True, hp_done = False\<rparr>]"
proof -
  let ?s1 = "s\<lparr>ht_pairs := (ht_pairs s)(sid := Some k), ht_heap := ht_heap s @ [new_pair]\<rparr>"
  have S: "sessionForHTTP sid s = (k, ?s1)" using assms(1) by (simp add: sessionForHTTP_def k_def)
  have new: "\<not> has_leg l new_pair" "\<not> has_leg l' (attach l new_pair)" "hp_started new_pair = False"
      "\<not> (hp_up (attach l new_pair) \<and> hp_down (attach l new_pair))"
    using assms(2) by (cases l; cases l'; simp add: has_leg_def attach_def new_pair_def)+
  let ?t = "set_pair k (attach l new_pair) ?s1"
  have at: "?s1 = ?s1" "ht_heap ?s1 ! k = new_pair" by (simp_all add: k_def)
  have k: "k < length (ht_heap ?t)" "ht_heap ?t ! k = attach l new_pair" by (simp_all add: k_def set_pair_def)
  note B = begin_handler_fields [OF k(1), of l t0 sid]
  define s3 where "s3 = arrive l t0 sid s"
  have s3: "s3 = begin_handler l t0 sid k ?t" by (simp only: s3_def arrive_cases [OF S] at(2) new(1) if_False)
  have same: "hp_started q = b \<Longrightarrow> q\<lparr>hp_started := b\<rparr> = q" for q :: pair and b by (cases q) simp
  have heap3: "ht_heap s3 = ht_heap s @ [attach l new_pair]"
    by (simp only: s3 B(3) k(2) attach_leg(2) new(3,4) simp_thms same) (simp add: set_pair_def k_def)
  have hs3: "ht_handlers s3 = ht_handlers s @ [\<lparr>hd_leg = l, hd_sid = sid, hd_pair = k, hd_phase = Waiting (t0 + httpPairTimeout)\<rparr>]"
    by (simp only: s3 B(4) k(2) attach_leg(2) new(3,4) simp_thms if_False) (simp add: set_pair_def)
  have S3: "sessionForHTTP sid s3 = (k, s3)" using B(1) by (simp add: sessionForHTTP_def s3 set_pair_def)
  have at3: "ht_heap s3 ! k = attach l new_pair" by (simp add: heap3 k_def)
  let ?t3 = "set_pair k (attach l' (attach l new_pair)) s3"
  have k3: "k < length (ht_heap ?t3)" "ht_heap ?t3 ! k = attach l' (attach l new_pair)" by (simp_all add: k_def set_pair_def heap3)
  note B3 = begin_handler_fields [OF k3(1), of l' t1 sid]
  have s2: "s2 = begin_handler l' t1 sid k ?t3" by (simp only: s2_def s3_def [symmetric] arrive_cases [OF S3] at3 new(2) if_False)
  have both: "hp_up (attach l' (attach l new_pair)) \<and> hp_down (attach l' (attach l new_pair))"
      "(attach l' (attach l new_pair))\<lparr>hp_started := True\<rparr> =
        \<lparr>hp_up = True, hp_down = True, hp_down_closed = False, hp_started = True, hp_done = False\<rparr>"
    using assms(2) by (cases l; cases l'; simp add: attach_def new_pair_def)+
  have "ht_heap s2 = (ht_heap s3)[k := (attach l' (attach l new_pair))\<lparr>hp_started := True\<rparr>]"
    using both(1) by (simp add: s2 B3(3) k3(2)) (simp add: set_pair_def)
  then show "ht_heap s2 = ht_heap s @ [\<lparr>hp_up = True, hp_down = True, hp_down_closed = False, hp_started = True, hp_done = False\<rparr>]"
    by (simp add: both(2) heap3 k_def)
  have "ht_handlers s2 = ht_handlers s3 @ [\<lparr>hd_leg = l', hd_sid = sid, hd_pair = k, hd_phase = Holding\<rparr>]"
    using both(1) by (simp add: s2 B3(4) k3(2)) (simp add: set_pair_def)
  with hs3 show "ht_handlers s2 = ht_handlers s @ [\<lparr>hd_leg = l, hd_sid = sid, hd_pair = k, hd_phase = Waiting (t0 + httpPairTimeout)\<rparr>,
      \<lparr>hd_leg = l', hd_sid = sid, hd_pair = k, hd_phase = Holding\<rparr>]" by simp
qed

text \<open>
  Which of a client's two requests arrives first decides how long its session can last. Both
  orders start the session. If the upload is first, the download's handler holds its stream open
  and no timer ends it. If the download is first, its handler goes on waiting for the pair it
  already has: whatever happens, ten seconds after its arrival its timer fires, and from then on
  every write of the session fails.
\<close>
theorem http_first_leg:
  assumes "ht_pairs s sid = None"
  shows "let k = length (ht_heap s); i = length (ht_handlers s);
      up_down = snd (handleHTTPDownload t1 sid (snd (handleHTTPUpload t0 sid s)));
      down_up = snd (handleHTTPUpload t1 sid (snd (handleHTTPDownload t0 sid s))) in
    hp_started (ht_heap up_down ! k) \<and> hd_leg (ht_handlers up_down ! (i + 1)) = Down \<and>
      hd_phase (ht_handlers up_down ! (i + 1)) = Holding \<and> (\<forall>now. wake_handler Timer now (i + 1) up_down = None) \<and>
    hp_started (ht_heap down_up ! k) \<and> hd_leg (ht_handlers down_up ! i) = Down \<and>
    (\<forall>s' now ok b. reach http_step down_up s' \<and> t0 + httpPairTimeout \<le> now \<longrightarrow>
      down_write k ok b s' = Inl ErrClosed \<or>
      (\<exists>s''. wake_handler Timer now i s' = Some s'' \<and> down_write k ok b s'' = Inl ErrClosed))"
proof -
  let ?k = "length (ht_heap s)" and ?i = "length (ht_handlers s)"
  let ?ud = "arrive Down t1 sid (arrive Up t0 sid s)" and ?du = "arrive Up t1 sid (arrive Down t0 sid s)"
  note A = two_legs [OF assms(1), of Down Up t1 t0, simplified]
    and B = two_legs [OF assms(1), of Up Down t1 t0, simplified]
  have up: "hp_started (ht_heap ?ud ! ?k) \<and> hd_leg (ht_handlers ?ud ! (?i + 1)) = Down \<and>
      hd_phase (ht_handlers ?ud ! (?i + 1)) = Holding \<and> (\<forall>now. wake_handler Timer now (?i + 1) ?ud = None)"
    by (simp add: A nth_append wake_handler_def download_wake_def Let_def)
  have down: "hp_started (ht_heap ?du ! ?k) \<and> hd_leg (ht_handlers ?du ! ?i) = Down"
    by (simp add: B nth_append)
  have ends: "down_write ?k ok b s' = Inl ErrClosed \<or>
      (\<exists>s''. wake_handler Timer now ?i s' = Some s'' \<and> down_write ?k ok b s'' = Inl ErrClosed)"
    if run: "reach http_step ?du s'" and late: "t0 + httpPairTimeout \<le> now" for s' now ok b
  proof (cases "hp_down_closed (ht_heap s' ! ?k)")
    case False
    let ?h = "\<lparr>hd_leg = Down, hd_sid = sid, hd_pair = ?k, hd_phase = Waiting (t0 + httpPairTimeout)\<rparr>"
    have "waits_or_closed ?i ?h ?du" by (simp add: waits_or_closed_def B nth_append)
    from run_waits [OF run this] have "waits_or_closed ?i ?h s'" by simp
    with False late show ?thesis
      by (auto simp: waits_or_closed_def wake_handler_def download_wake_def down_write_def finish_down_def set_pair_def
        dropHTTPSession_def Let_def)
  qed (simp add: down_write_def)
  show ?thesis using up down ends unfolding Let_def arrive_def leg.case by blast
qed

section \<open>Reading\<close>

text \<open>The bytes of the chunks, as a stream.\<close>

definition as_stream :: "http_conn \<Rightarrow> stream_conn" where
  "as_stream c = \<lparr>str_in = concat (map (\<lambda>(t, b). map (Pair t) b) (hc_in c)), str_eof = hc_eof c, str_out = hc_out c\<rparr>"

lemma ready_chunk:
  assumes "hc_in c = (t, b) # rest" "t \<le> d"
  shows "ready d (as_stream c) = b @ ready d (as_stream (c\<lparr>hc_in := rest\<rparr>))"
proof -
  have "takeWhile (\<lambda>(t, _). t \<le> d) (map (Pair t) b @ xs) = map (Pair t) b @ takeWhile (\<lambda>(t, _). t \<le> d) xs" for xs :: "(int \<times> byte) list"
    using assms(2) by (subst takeWhile_append2) auto
  then show ?thesis by (simp add: ready_def as_stream_def assms(1) comp_def)
qed

lemma ready_late: "hc_in c = (t, b) # rest \<Longrightarrow> b \<noteq> [] \<Longrightarrow> \<not> t \<le> d \<Longrightarrow> ready d (as_stream c) = []"
  by (cases b) (simp_all add: ready_def as_stream_def)

lemma take_chunk: "hc_in c = (t, b) # rest \<Longrightarrow> m \<le> length b \<Longrightarrow>
    drop m (str_in (as_stream c)) = str_in (as_stream (c\<lparr>hc_in := (t, drop m b) # rest\<rparr>))"
  by (simp add: as_stream_def drop_map)

definition reads_like :: "int \<Rightarrow> nat \<Rightarrow> http_conn \<Rightarrow> bool" where
  "reads_like d n c \<longleftrightarrow>
     (case ReadFull d n (as_stream c) of
        (b, e, s) \<Rightarrow> \<exists>c'. http_ReadFull n c = Some (b, e, c') \<and> as_stream c' = s \<and> (hc_closed c' \<longleftrightarrow> e = Some ErrTimeout))"

lemma reads_like_end:
  assumes "0 < n" "http_Read n c = Some (Inl e, c1)" "ready d (as_stream c) = []" "read_error d (as_stream c) = e"
    "as_stream c1 = as_stream c" "hc_closed c1 \<longleftrightarrow> e = ErrTimeout"
  shows "reads_like d n c"
  using assms by (simp add: reads_like_def ReadFull_def Let_def http_ReadFull.simps [of n])

lemma reads_like_whole:
  assumes "hc_in c = (t, b) # rest" "t \<le> d" "length b \<le> n" "0 < n" "hc_rdl c = Some d" "\<not> hc_closed c"
    "reads_like d (n - length b) (c\<lparr>hc_in := rest\<rparr>)"
  shows "reads_like d n c"
proof -
  let ?c = "c\<lparr>hc_in := rest\<rparr>"
  have read: "http_Read n c = Some (Inr b, ?c)" using assms(1-3,5,6) by (simp add: http_Read_def within_def)
  have rest: "drop (length b + m) (str_in (as_stream c)) = drop m (str_in (as_stream ?c))" for m
    by (simp add: as_stream_def assms(1))
  have more: "read_error d (as_stream c) = read_error d (as_stream ?c)"
    by (simp add: read_error_def ready_chunk [OF assms(1,2)]) (simp add: as_stream_def assms(1))
  have upd: "(as_stream c)\<lparr>str_in := xs\<rparr> = (as_stream ?c)\<lparr>str_in := xs\<rparr>" for xs by (simp add: as_stream_def)
  let ?R = "ready d (as_stream ?c)"
  have len: "length (take n (b @ ?R)) = length b + length (take (n - length b) ?R)" using assms(3) by simp
  then have "length (take n (b @ ?R)) < n \<longleftrightarrow> length (take (n - length b) ?R) < n - length b" using assms(3) by linarith
  then have RF: "ReadFull d n (as_stream c) = (case ReadFull d (n - length b) (as_stream ?c) of (b', e, s) \<Rightarrow> (b @ b', e, s))"
    unfolding ReadFull_def Let_def ready_chunk [OF assms(1,2)] len rest upd more using assms(3) by simp
  have HRF: "http_ReadFull n c = map_option (\<lambda>(b', e, c2). (b @ b', e, c2)) (http_ReadFull (n - length b) ?c)"
    using assms(4) by (simp add: http_ReadFull.simps [of n] read)
  obtain b' e s where R: "ReadFull d (n - length b) (as_stream ?c) = (b', e, s)" by (metis prod_cases3)
  with assms(7) obtain c' where "http_ReadFull (n - length b) ?c = Some (b', e, c')" "as_stream c' = s"
      "hc_closed c' \<longleftrightarrow> e = Some ErrTimeout" by (auto simp: reads_like_def)
  then show ?thesis by (simp add: reads_like_def RF HRF R)
qed

lemma reads_like_part:
  assumes "hc_in c = (t, b) # rest" "t \<le> d" "\<not> length b \<le> n" "0 < n" "hc_rdl c = Some d" "\<not> hc_closed c"
  shows "reads_like d n c"
proof -
  let ?c = "c\<lparr>hc_in := (t, drop n b) # rest\<rparr>"
  have read: "http_Read n c = Some (Inr (take n b), ?c)" using assms by (simp add: http_Read_def within_def)
  have "http_ReadFull n c = Some (take n b, None, ?c)"
    using assms(3,4) by (simp add: http_ReadFull.simps [of n] read) (simp add: http_ReadFull.simps)
  moreover have "ReadFull d n (as_stream c) = (take n b, None, as_stream ?c)"
    using assms(3) take_chunk [OF assms(1), of n] by (simp add: ReadFull_def ready_chunk [OF assms(1,2)] min_def) (simp add: as_stream_def)
  ultimately show ?thesis using assms(6) by (simp add: reads_like_def)
qed

lemma reads_like_all:
  assumes "hc_rdl c = Some d" "\<not> hc_closed c" "\<forall>x \<in> set (hc_in c). snd x \<noteq> []"
  shows "reads_like d n c"
  using assms
proof (induction "hc_in c" arbitrary: c n)
  case Nil
  show ?case
  proof (cases "n = 0")
    case False
    show ?thesis
    proof (cases "case hc_eof c of None \<Rightarrow> False | Some t \<Rightarrow> t \<le> d")
      case True
      with Nil False show ?thesis
        by (intro reads_like_end [of n c ErrRead c])
          (auto simp: http_Read_def within_def read_error_def ready_def as_stream_def split: option.splits)
    next
      case no_eof: False
      with Nil False show ?thesis
        by (intro reads_like_end [of n c ErrTimeout "c\<lparr>hc_closed := True\<rparr>"])
          (auto simp: http_Read_def within_def read_error_def ready_def as_stream_def split: option.splits)
    qed
  qed (simp add: reads_like_def ReadFull_def http_ReadFull.simps Nil)
next
  case (Cons x rest)
  obtain t b where x: "x = (t, b)" by fastforce
  note c = Cons.hyps(2) [symmetric, unfolded x]
  show ?case
  proof (cases "n = 0")
    case False
    show ?thesis
    proof (cases "t \<le> d")
      case True
      show ?thesis
      proof (cases "length b \<le> n")
        case whole: True
        have "reads_like d (n - length b) (c\<lparr>hc_in := rest\<rparr>)" by (rule Cons.hyps(1)) (use Cons.prems c in auto)
        with whole False True Cons.prems show ?thesis by (intro reads_like_whole [OF c]) auto
      qed (use True False Cons.prems in \<open>auto intro: reads_like_part [OF c]\<close>)
    next
      case late: False
      have "b \<noteq> []" using Cons.prems(3) c by simp
      then have none: "ready d (as_stream c) = []" using ready_late [OF c] late by blast
      then have "read_error d (as_stream c) = ErrTimeout" using \<open>b \<noteq> []\<close> by (simp add: read_error_def) (simp add: as_stream_def c)
      moreover have "http_Read n c = Some (Inl ErrTimeout, c\<lparr>hc_closed := True\<rparr>)"
        using late Cons.prems(1,2) by (simp add: http_Read_def within_def c)
      ultimately show ?thesis using False none by (intro reads_like_end [of n c ErrTimeout "c\<lparr>hc_closed := True\<rparr>"]) (simp_all add: as_stream_def)
    qed
  qed (simp add: reads_like_def ReadFull_def http_ReadFull.simps Cons.prems)
qed

text \<open>
  C30. The HTTP connection is a stand-in for a byte stream: with a read deadline, reading any
  number of bytes gives the same bytes and the same error as on a stream on which the same
  bytes arrive at the same times, and leaves the same bytes to be read. There is one
  difference: a deadline that expires closes the connection for good, so that every later read
  and write fails.
\<close>
theorem http_reads_as_stream:
  assumes "hc_rdl c = Some d" "\<not> hc_closed c" "\<forall>x \<in> set (hc_in c). snd x \<noteq> []"
  shows "case ReadFull d n (as_stream c) of
    (b, e, s) \<Rightarrow> \<exists>c'. http_ReadFull n c = Some (b, e, c') \<and> as_stream c' = s \<and> (hc_closed c' \<longleftrightarrow> e = Some ErrTimeout) \<and>
      (e = Some ErrTimeout \<longrightarrow> (\<forall>m net x. http_Read m c' = Some (Inl ErrClosed, c') \<and> http_Write net x c' = (Inl ErrClosed, c')))"
  using reads_like_all [OF assms, of n] by (auto simp: reads_like_def http_Read_def http_Write_def)

section \<open>Witnesses\<close>

definition sample_pair :: http where
  "sample_pair = arrive Down 5 ''s'' (arrive Up 3 ''s'' new_http)"

theorem http_pairing_witness:
  "\<exists>sid u d. filter (\<lambda>h. hd_leg h = Up \<and> hd_pair h = 0) (ht_handlers sample_pair) = [u] \<and>
    filter (\<lambda>h. hd_leg h = Down \<and> hd_pair h = 0) (ht_handlers sample_pair) = [d] \<and>
    (\<forall>h \<in> set (ht_handlers sample_pair). hd_pair h = 0 \<longrightarrow> hd_sid h = sid)"
proof (rule http_pairing)
  have "reach http_step new_http (arrive Up 3 ''s'' new_http)"
    using reach.reach_step [where step = http_step, OF reach_start http_upload [of new_http 3 "''s''"]] by (simp add: arrive_def)
  from reach.reach_step [OF this http_download [of _ 5 "''s''"]] show "reach http_step new_http sample_pair"
    by (simp add: sample_pair_def arrive_def)
qed (simp_all add: sample_pair_def two_legs new_http_def)

theorem http_first_leg_witness:
  "hp_started (ht_heap (snd (handleHTTPUpload 1 ''s'' (snd (handleHTTPDownload 0 ''s'' new_http)))) ! 0)"
  using http_first_leg [of new_http "''s''" 1 0] by (simp add: Let_def new_http_def)

theorem http_reads_as_stream_witness:
  "\<exists>c'. http_ReadFull 3 \<lparr>hc_in = [(1, [7, 8]), (2, [9])], hc_eof = None, hc_rdl = Some 1, hc_closed = False, hc_out = []\<rparr>
    = Some ([7, 8], Some ErrTimeout, c') \<and> hc_closed c'"
  using http_reads_as_stream [of "\<lparr>hc_in = [(1, [7, 8]), (2, [9])], hc_eof = None, hc_rdl = Some 1, hc_closed = False, hc_out = []\<rparr>" 1 3]
  by (auto simp: as_stream_def ReadFull_def ready_def read_error_def)

section \<open>The server's side\<close>

text \<open>The server reads from its connection as the client does from its own.\<close>

definition as_client :: "server_conn \<Rightarrow> http_conn" where
  "as_client c =
     \<lparr>hc_in = hs_in c, hc_eof = hs_eof c, hc_rdl = hs_rdl c, hc_closed = (hs_done c \<or> hs_body_closed c), hc_out = []\<rparr>"

lemma server_reads_alike: "map_option (\<lambda>(r, c'). (r, as_client c')) (server_Read n c) = http_Read n (as_client c)"
  by (cases "hs_rdl c") (simp_all add: server_Read_def http_Read_def as_client_def split: list.split option.split)

lemma server_closed_for_good:
  "server_Read n (server_Close c) = Some (Inl ErrClosed, server_Close c)" "server_Close (server_Close c) = server_Close c"
  by (simp_all add: server_Close_def server_Read_def)

lemma listen_each_count:
  "listen_each listen addrs own w = (Some k, w1) \<Longrightarrow> k = own + length addrs \<and> web_srvs w1 = web_srvs w + length addrs"
  by (induction addrs arbitrary: own w) (fastforce split: if_splits)+

text \<open>
  A second start, for the other of \<open>http\<close> and \<open>https\<close>, never serves: when all of its addresses can be
  listened on it runs past the end of its own listeners.
\<close>

lemma second_http_start_panics:
  assumes "startHTTPListeners tls listen transport addrs w = (r, w1)"
  shows "r = WebServing \<longrightarrow> web_srvs w = 0" "r = WebPanics \<longrightarrow> 0 < web_srvs w"
  using assms listen_each_count [of listen addrs 0 w]
  by (auto simp: startHTTPListeners_def split: if_splits option.splits prod.splits)

end
