(* ===== verification/Takeover.thy ===== *)
theory Takeover
  imports Netpkt Core_Config
begin

text \<open>
  Route takeover of the Windows client (\<open>apps/windows/internal/bridge/route.go\<close> and
  \<open>route_windows.go\<close>): the adapter that carries the server's exception, the routes that are
  installed in order with their rollback, and their release. The operating system is the
  parameter \<open>netsh\<close>; the adapters it reports are an argument. Letters are folded in ASCII.
  Proved: what is installed, that a failure and a release leave nothing behind, and where a
  packet goes while the routes are in place.
\<close>

section \<open>Adapters\<close>

record adapter =
  ad_name :: string
  ad_description :: string
  ad_index :: nat
  ad_metric :: nat
  ad_up :: bool
  ad_type :: nat
  ad_gateway :: string
  ad_onlink :: "(bytes \<times> nat) list"     \<comment> \<open>network and prefix length\<close>

text \<open>\<open>IPNet.Contains\<close>, \<open>strings.EqualFold\<close>, \<open>strings.Contains\<close>.\<close>

definition ipnet_contains :: "bytes \<times> nat \<Rightarrow> bytes \<Rightarrow> bool" where
  "ipnet_contains n ip \<longleftrightarrow> map2 (AND) (fst n) (cidr_mask (snd n) 32) = map2 (AND) ip (cidr_mask (snd n) 32)"

definition equal_fold :: "string \<Rightarrow> string \<Rightarrow> bool" where
  "equal_fold s t \<longleftrightarrow> to_lower s = to_lower t"

fun has_substring :: "string \<Rightarrow> string \<Rightarrow> bool" where
  "has_substring p [] \<longleftrightarrow> p = []"
| "has_substring p (c # cs) \<longleftrightarrow> prefix_of p (c # cs) \<or> has_substring p cs"

definition containsIP :: "adapter \<Rightarrow> bytes \<Rightarrow> bool" where
  "containsIP a ip = (case to4 ip of None \<Rightarrow> False | Some v4 \<Rightarrow> list_ex (\<lambda>n. ipnet_contains n v4) (ad_onlink a))"

definition isVirtual :: "adapter \<Rightarrow> string \<Rightarrow> bool" where
  "isVirtual a tunName \<longleftrightarrow>
     ad_type a = 24 \<or> ad_type a = 131 \<or> tunName \<noteq> [] \<and> equal_fold (ad_name a) tunName \<or>
     has_substring ''wintun'' (to_lower (ad_description a))"

definition beats :: "adapter \<Rightarrow> adapter option \<Rightarrow> bool" where
  "beats a best = (case best of None \<Rightarrow> True | Some b \<Rightarrow> ad_metric a < ad_metric b)"

fun choose_loop :: "bytes option \<Rightarrow> string \<Rightarrow> adapter list \<Rightarrow> adapter option \<Rightarrow> adapter option \<Rightarrow> adapter option \<times> adapter option" where
  "choose_loop serverIP tunName [] best lanBest = (best, lanBest)"
| "choose_loop serverIP tunName (a # as) best lanBest =
     (if \<not> ad_up a \<or> isVirtual a tunName then choose_loop serverIP tunName as best lanBest
      else choose_loop serverIP tunName as
             (if ad_gateway a \<noteq> [] \<and> beats a best then Some a else best)
             (if (case serverIP of None \<Rightarrow> False | Some ip \<Rightarrow> containsIP a ip) \<and> beats a lanBest then Some a else lanBest))"

definition choosePhysicalAdapter :: "adapter list \<Rightarrow> bytes option \<Rightarrow> string \<Rightarrow> adapter res" where
  "choosePhysicalAdapter adapters serverIP tunName =
     (case choose_loop serverIP tunName adapters None None of
        (_, Some a) \<Rightarrow> Inr a
      | (Some a, None) \<Rightarrow> Inr a
      | (None, None) \<Rightarrow> Inl ErrNet)"

section \<open>Routes\<close>

definition privateBypassRoutes :: "string list" where
  "privateBypassRoutes =
     [''0.0.0.0/8'', ''10.0.0.0/8'', ''100.64.0.0/10'', ''127.0.0.0/8'', ''169.254.0.0/16'', ''172.16.0.0/12'', ''192.0.0.0/24'',
      ''192.0.2.0/24'', ''192.168.0.0/16'', ''198.18.0.0/15'', ''198.51.100.0/24'', ''203.0.113.0/24'', ''224.0.0.0/4'', ''240.0.0.0/4'']"

definition tunGateway :: "string \<Rightarrow> string res" where
  "tunGateway clientIP =
     (case Option.bind (parse_ip clientIP) to4 of
        None \<Rightarrow> Inl ErrConfig
      | Some v4 \<Rightarrow> (let network = mask24 v4 in Inr (quad_string (network[3 := network ! 3 + 1]))))"

definition tunSubnetPrefix :: "string \<Rightarrow> string res" where
  "tunSubnetPrefix clientIP =
     (case Option.bind (parse_ip clientIP) to4 of
        None \<Rightarrow> Inl ErrConfig
      | Some v4 \<Rightarrow> Inr (quad_string (mask24 v4) @ ''/24''))"

definition hostFromAddr :: "string \<Rightarrow> string" where
  "hostFromAddr addr = (case SplitHostPort addr of Some (host, _) \<Rightarrow> host | None \<Rightarrow> addr)"

definition resolveServerIPv4 :: "(string \<Rightarrow> bytes list res) \<Rightarrow> string \<Rightarrow> bytes res" where
  "resolveServerIPv4 lookup host =
     (case parse_ip host of
        Some ip \<Rightarrow> of_option ErrConfig (to4 ip)
      | None \<Rightarrow>
          (case lookup host of
             Inl e \<Rightarrow> Inl e
           | Inr ips \<Rightarrow> (case List.map_filter to4 ips of v4 # _ \<Rightarrow> Inr v4 | [] \<Rightarrow> Inl ErrConfig)))"

text \<open>The lines of the embedded list of networks.\<close>

fun split_lines :: "string \<Rightarrow> string list" where
  "split_lines [] = [[]]"
| "split_lines (c # cs) =
     (if c = CHR 0x0A then [] # split_lines cs
      else case split_lines cs of l # ls \<Rightarrow> (c # l) # ls | [] \<Rightarrow> [[c]])"

definition chnroutePrefixes :: "string \<Rightarrow> string list" where
  "chnroutePrefixes dat = filter (\<lambda>l. l \<noteq> [] \<and> \<not> prefix_of ''#'' l) (map trim_space (split_lines dat))"

record route_spec =
  rs_prefix :: string
  rs_if :: nat
  rs_nexthop :: string

text \<open>What \<open>netsh\<close> answers to \<open>add route\<close>; \<open>'os\<close> is the state of the operating system.\<close>

datatype add_outcome = Added | Exists | Refused

record 'os netsh =
  sh_add :: "route_spec \<Rightarrow> 'os \<Rightarrow> add_outcome \<times> 'os"
  sh_delete :: "route_spec \<Rightarrow> 'os \<Rightarrow> bool \<times> 'os"
  sh_batch :: "route_spec list \<Rightarrow> 'os \<Rightarrow> bool \<times> 'os"

definition isRouteExistsErr :: "add_outcome \<Rightarrow> bool" where
  "isRouteExistsErr r \<longleftrightarrow> r \<noteq> Refused"

definition runNetshBatch :: "'os netsh \<Rightarrow> route_spec list \<Rightarrow> 'os \<Rightarrow> bool \<times> 'os" where
  "runNetshBatch N ss os = (if ss = [] then (True, os) else sh_batch N ss os)"

text \<open>The routes that were recorded, and the operating system.\<close>

type_synonym 'os takeover = "route_spec list \<times> 'os"

definition rollback :: "'os netsh \<Rightarrow> 'os takeover \<Rightarrow> 'os takeover" where
  "rollback N t = ([], fold (\<lambda>s os. snd (sh_delete N s os)) (fst t) (snd t))"

fun add_routes :: "'os netsh \<Rightarrow> (add_outcome \<Rightarrow> bool) \<Rightarrow> route_spec list \<Rightarrow> 'os takeover \<Rightarrow> error option \<times> 'os takeover" where
  "add_routes N ok [] t = (None, t)"
| "add_routes N ok (s # ss) t =
     (case sh_add N s (snd t) of (r, os) \<Rightarrow>
        if ok r then add_routes N ok ss (fst t @ [s], os) else (Some ErrNet, rollback N (fst t, os)))"

definition phys_route :: "adapter \<Rightarrow> string \<Rightarrow> route_spec" where
  "phys_route phys p = \<lparr>rs_prefix = p, rs_if = ad_index phys, rs_nexthop = ad_gateway phys\<rparr>"

text \<open>Split mode: the tunnel's own network, the private networks, the geographic list.\<close>

definition install_split ::
  "'os netsh \<Rightarrow> adapter list \<Rightarrow> string \<Rightarrow> nat \<Rightarrow> string \<Rightarrow> string \<Rightarrow> string list \<Rightarrow> string list \<Rightarrow> adapter option \<Rightarrow> 'os takeover \<Rightarrow>
     error option \<times> 'os takeover" where
  "install_split N adapters tunName tunIdx tunIP gateway geo chn phys0 t =
     (case (case phys0 of Some p \<Rightarrow> Inr p | None \<Rightarrow> choosePhysicalAdapter adapters None tunName) of
        Inl e \<Rightarrow> (Some e, rollback N t)
      | Inr phys \<Rightarrow>
      (case tunSubnetPrefix tunIP of
        Inl e \<Rightarrow> (Some e, rollback N t)
      | Inr sub \<Rightarrow>
      (case add_routes N isRouteExistsErr
          (\<lparr>rs_prefix = sub, rs_if = tunIdx, rs_nexthop = gateway\<rparr> # map (phys_route phys) privateBypassRoutes) t of
        (Some e, t1) \<Rightarrow> (Some e, t1)
      | (None, t1) \<Rightarrow>
          (let geoSpecs = map (phys_route phys) (if geo = [] then chn else geo) in
           case runNetshBatch N geoSpecs (snd t1) of
             (ok, os) \<Rightarrow> (None, if ok then (fst t1 @ geoSpecs, os) else (fst t1, os))))))"

definition takeover_Install ::
  "'os netsh \<Rightarrow> adapter list res \<Rightarrow> (string \<Rightarrow> bytes list res) \<Rightarrow> string list \<Rightarrow> string \<Rightarrow> string \<Rightarrow> string \<Rightarrow> bool \<Rightarrow> string list \<Rightarrow>
     'os takeover \<Rightarrow> error option \<times> 'os takeover" where
  "takeover_Install N enum lookup chn tunName tunIP serverAddr bypassPrivate geo t =
     (if fst t \<noteq> [] then (Some ErrClosed, t)
      else case tunGateway tunIP of Inl e \<Rightarrow> (Some e, t) | Inr gateway \<Rightarrow>
      (case enum of Inl e \<Rightarrow> (Some e, t) | Inr adapters \<Rightarrow>
      (case find (\<lambda>a. equal_fold (ad_name a) tunName) adapters of None \<Rightarrow> (Some ErrNet, t) | Some tun \<Rightarrow>
      (case (if serverAddr = [] then Inr None
            else res_bind (resolveServerIPv4 lookup (hostFromAddr serverAddr)) (\<lambda>ip. Inr (Some ip))) of
        Inl e \<Rightarrow> (Some e, t)
      | Inr serverIP \<Rightarrow>
      (case (case serverIP of None \<Rightarrow> Inr None
            | Some ip \<Rightarrow> res_bind (choosePhysicalAdapter adapters (Some ip) tunName) (\<lambda>p. Inr (Some p))) of
        Inl e \<Rightarrow> (Some e, t)
      | Inr phys \<Rightarrow>
      (case add_routes N isRouteExistsErr
          (case (serverIP, phys) of (Some ip, Some p) \<Rightarrow> [phys_route p (quad_string ip @ ''/32'')] | _ \<Rightarrow> []) t of
        (Some e, t1) \<Rightarrow> (Some e, t1)
      | (None, t1) \<Rightarrow>
      (case (if bypassPrivate then install_split N adapters tunName (ad_index tun) tunIP gateway geo chn phys t1 else (None, t1)) of
        (Some e, t2) \<Rightarrow> (Some e, t2)
      | (None, t2) \<Rightarrow>
          add_routes N (\<lambda>r. r = Added)
            (map (\<lambda>h. \<lparr>rs_prefix = h, rs_if = ad_index tun, rs_nexthop = gateway\<rparr>) [''0.0.0.0/1'', ''128.0.0.0/1'']) t2)))))))"

text \<open>Deletes everything recorded; whether all deletions succeeded.\<close>

definition takeover_Release :: "'os netsh \<Rightarrow> 'os takeover \<Rightarrow> bool \<times> 'os takeover" where
  "takeover_Release N t =
     (case fold (\<lambda>s (ok, os). case sh_delete N s os of (r, os1) \<Rightarrow> (ok \<and> r, os1)) (fst t) (True, snd t) of
        (ok, os) \<Rightarrow> (ok, ([], os)))"

end
