(* ===== verification/Server_Program.thy ===== *)
theory Server_Program
  imports Daemon Server_Config Takeover
begin

text \<open>
  The server program around its packet plane (\<open>cmd/chimerad/config.go\<close>, \<open>main.go\<close>, \<open>tun.go\<close>): the
  defaults of its configuration, the device, and the order in which a run is set up. Reading and
  parsing the file, opening the device and the tool \<open>ip\<close> are outcomes.
\<close>

section \<open>Configuration\<close>

record tun_config =
  tn_name :: string
  tn_address :: string
  tn_mtu :: int

definition defaultConfig :: server_config where
  "defaultConfig =
     \<lparr>sc_listen = ''0.0.0.0:4789'', sc_transport = ''udp'', sc_decoy_mode = StreamProbeSilent, sc_decoy_timeout = 5,
      sc_decoy_pending = 256, sc_decoy_every = 48, sc_decoy_max = 2, sc_hop_count = 1, sc_hop_spread = 0, sc_rotation = 0,
      sc_shape = [], sc_mark = [], sc_transports = [], sc_tls_cert = [], sc_tls_key = [], sc_seed = [], sc_generation = 0,
      sc_psk = [], sc_cidr = ''10.99.0.0/24'', sc_cipher = None, sc_keepalive = 25, sc_idle = 180, sc_rate = 0,
      sc_max_sessions = 256, sc_no_decoy = False, sc_no_shape = False, sc_jitter = 20, sc_window = None,
      sc_replay = Some ''/var/lib/chimera/handshake.replay''\<rparr>"

definition default_tun :: tun_config where
  "default_tun = \<lparr>tn_name = ''chimera0'', tn_address = ''10.99.0.1/24'', tn_mtu = 1400\<rparr>"

text \<open>What the file says over the defaults; \<open>None\<close> when there is none or it is empty.\<close>

definition loadServerConfig ::
  "(server_config \<times> tun_config \<Rightarrow> (server_config \<times> tun_config) res) option res \<Rightarrow> (server_config \<times> tun_config) res" where
  "loadServerConfig file =
     res_bind file (\<lambda>parse.
     res_bind (case parse of None \<Rightarrow> Inr (defaultConfig, default_tun) | Some f \<Rightarrow> f (defaultConfig, default_tun)) (\<lambda>(cfg, tun).
       let tun1 = (if tn_name tun = [] then tun\<lparr>tn_name := ''chimera0''\<rparr> else tun);
           tun2 = (if tn_address tun1 = [] then tun1\<lparr>tn_address := ''10.99.0.1/24''\<rparr> else tun1);
           tun3 = (if tn_mtu tun2 = 0 then tun2\<lparr>tn_mtu := 1400\<rparr> else tun2) in
       Inr (if sc_max_sessions cfg = 0 then cfg\<lparr>sc_max_sessions := 256\<rparr> else cfg, tun3)))"

section \<open>The run\<close>

definition ipAddrAlreadyPresent :: "string \<Rightarrow> bool" where
  "ipAddrAlreadyPresent out = has_substring ''file exists'' (to_lower out)"

definition configureTUN :: "bool \<times> string \<Rightarrow> bool \<Rightarrow> error option" where
  "configureTUN add link =
     (if \<not> fst add \<and> \<not> ipAddrAlreadyPresent (snd add) then Some ErrNet else if link then None else Some ErrNet)"

text \<open>
  \<open>run\<close> and \<open>runTUN\<close>: the outcomes of starting the server, of the device and its configuration,
  and the end that \<open>waitRun\<close> reports. The second component is whether the packet plane ran.
\<close>

definition run_server :: "error option \<Rightarrow> bool \<Rightarrow> string res \<Rightarrow> bool \<times> string \<Rightarrow> bool \<Rightarrow> error option \<Rightarrow> error option \<times> bool" where
  "run_server started noTun device add link ended =
     (case started of
        Some e \<Rightarrow> (Some e, False)
      | None \<Rightarrow>
          if noTun then (ended, True)
          else case device of
            Inl e \<Rightarrow> (Some e, False)
          | Inr name \<Rightarrow> (case configureTUN add link of Some e \<Rightarrow> (Some e, False) | None \<Rightarrow> (ended, True)))"

section \<open>The defaults are a configuration\<close>

text \<open>With keys, and nothing else said, the core takes the configuration, and it serves three generations.\<close>

lemma defaults_accepted:
  assumes "length seed = 32" "length psk = 32" "loadServerConfig (Inr None) = Inr (cfg, tun)"
  shows "\<exists>c. res_bind (toCoreConfig (cfg\<lparr>sc_seed := hex_encode seed, sc_psk := hex_encode psk\<rparr>)) NormalizeConfig = Inr c \<and>
    c_transports c = [''udp''] \<and> c_window c = 2 \<and> c_max_sessions c = 256"
proof -
  have cfg: "cfg = defaultConfig" using assms(3) by (simp add: loadServerConfig_def Let_def defaultConfig_def)
  obtain c0 where c0: "toCoreConfig (defaultConfig\<lparr>sc_seed := hex_encode seed, sc_psk := hex_encode psk\<rparr>) = Inr c0"
      "c_seed c0 = hex_encode seed" "c_psk c0 = hex_encode psk" "c_addr c0 = ''0.0.0.0:4789''" "c_transport c0 = ''udp''"
      "c_transports c0 = []" "c_mode c0 = StreamProbeSilent" "c_hop_count c0 = 1" "c_hop_spread c0 = 0" "c_shape c0 = []"
      "c_mark c0 = []" "c_cipher c0 = None" "c_window c0 = 2" "c_jitter c0 = 20000000" "c_max_sessions c0 = 256"
    by (simp add: toCoreConfig_def defaultConfig_def Let_def wrap64_def DefaultJitterMax_def)
  have addr: "trim_space ''0.0.0.0:4789'' \<noteq> []" by code_simp
  have udp: "to_lower (trim_space ''udp'') = ''udp''" by (rule known_transport_normal) (simp add: known_transport_def)
  have t: "normalize_transports c0 = Inr (c0\<lparr>c_transports := [''udp''], c_transport := ''udp'', c_mode := StreamProbeSilent\<rparr>)"
    using c0 udp by (simp add: normalize_transports_def Let_def known_transport_def NormalizeStreamProbeMode_def)
  have noise: "c_hop_count (normalize_noise c) = c_hop_count c" "c_hop_spread (normalize_noise c) = c_hop_spread c"
      "c_shape (normalize_noise c) = c_shape c" "c_mark (normalize_noise c) = c_mark c" "c_cipher (normalize_noise c) = c_cipher c"
      "c_window (normalize_noise c) = c_window c" "c_jitter (normalize_noise c) = c_jitter c"
      "c_transports (normalize_noise c) = c_transports c" "c_max_sessions (normalize_noise c) = c_max_sessions c" for c
    by (simp_all add: normalize_noise_def Let_def)
  show ?thesis
    unfolding cfg c0(1) res_bind_simps NormalizeConfig_def c0(2,3) parseHex32_encode [OF assms(1)] parseHex32_encode [OF assms(2)] t Let_def
    by (simp add: c0 addr normalize_limits_def Let_def noise normalize_buckets_def ValidateProbeMark_def MaxGenerationWindow_def
        MaxJitterMax_def second_def)
qed

end
