(* ===== verification/Link_Check.thy ===== *)
theory Link_Check
  imports Daemon Netpkt
begin

text \<open>
  The client's check of a link (\<open>cmd/chimerac/check.go\<close>): handshake, assigned address, one echo
  request to the gateway, one answer. The session is a parameter: whether it starts, the
  address it was assigned, its generation, sending a packet, the next packet received. The
  round trip time is left out.
\<close>

record check_result =
  ck_ok :: bool
  ck_assigned :: string
  ck_generation :: nat
  ck_probe :: "probe_kind option"
  ck_error :: "error option"

definition check_failed :: "string \<Rightarrow> nat \<Rightarrow> error \<Rightarrow> check_result" where
  "check_failed a gen e = \<lparr>ck_ok = False, ck_assigned = a, ck_generation = gen, ck_probe = None, ck_error = Some e\<rparr>"

definition runCheck ::
  "unit res \<Rightarrow> string res \<Rightarrow> nat \<Rightarrow> reader \<Rightarrow> (bytes \<Rightarrow> unit res) \<Rightarrow> (bytes \<Rightarrow> bytes res) \<Rightarrow> check_result" where
  "runCheck started assigned gen rnd send recv =
     (case started of Inl e \<Rightarrow> check_failed [] 0 e | Inr _ \<Rightarrow>
      case assigned of Inl e \<Rightarrow> check_failed [] 0 e | Inr a \<Rightarrow>
      case GatewayForClient a of Inl e \<Rightarrow> check_failed a gen e | Inr gw \<Rightarrow>
      case read_full 4 rnd of Inl e \<Rightarrow> check_failed a gen e | Inr (r, _) \<Rightarrow>
        let ident = be_nat (take 2 r); sq = be_nat (drop 2 r);
            src = (case parse_ip a of None \<Rightarrow> [] | Some b \<Rightarrow> b);
            dst = (case parse_ip gw of None \<Rightarrow> [] | Some b \<Rightarrow> b) in
        case EchoRequest src dst ident sq ProbeMagic of Inl e \<Rightarrow> check_failed a gen e | Inr pkt \<Rightarrow>
        case send pkt of Inl e \<Rightarrow> check_failed a gen e | Inr _ \<Rightarrow>
        case recv pkt of Inl e \<Rightarrow> check_failed a gen e | Inr got \<Rightarrow>
        case MatchProbe pkt got src dst ident sq of
          None \<Rightarrow> check_failed a gen ErrRead
        | Some kind \<Rightarrow> \<lparr>ck_ok = True, ck_assigned = a, ck_generation = gen, ck_probe = Some kind, ck_error = None\<rparr>)"

text \<open>What a host answers to an echo request without options: addresses swapped, type 0, a new checksum.\<close>

definition icmp_reply :: "bytes \<Rightarrow> bytes" where
  "icmp_reply pkt = take 12 pkt @ take 4 (drop 16 pkt) @ take 4 (drop 12 pkt) @ put_checksum 2 ([0, 0, 0, 0] @ drop 24 pkt)"

section \<open>A working link passes\<close>

lemma two_bytes: "\<exists>x y. be_bytes 2 v = [x, y]"
proof -
  have "length (be_bytes 2 v) = 2" by simp
  then show ?thesis unfolding numeral_2_eq_2 by (auto simp: length_Suc_conv simp del: length_be_bytes)
qed

text \<open>A request, byte by byte.\<close>

lemma EchoRequest_bytes:
  assumes "EchoRequest src dst ident sq payload = Inr pkt"
  obtains s4 d4 l c i q k where "to4 src = Some s4" "to4 dst = Some d4" "length s4 = 4" "length d4 = 4"
    "i = be_bytes 2 ident" "q = be_bytes 2 sq" "length l = 2" "length c = 2" "length k = 2"
    "pkt = [0x45, 0] @ l @ i @ [0, 0, 64, 1] @ c @ s4 @ d4 @ [8, 0] @ k @ i @ q @ payload"
proof -
  from EchoRequest_layout [OF assms] obtain src4 dst4 hdr icmp where
    L: "to4 src = Some src4" "to4 dst = Some dst4" "length src4 = 4" "length dst4 = 4"
      "hdr = [0x45, 0] @ be_bytes 2 (28 + length payload) @ be_bytes 2 ident @ [0, 0, 64, 1, 0, 0] @ src4 @ dst4"
      "icmp = [8, 0, 0, 0] @ be_bytes 2 ident @ be_bytes 2 sq @ payload"
      "pkt = put_checksum 10 hdr @ put_checksum 2 icmp" by metis
  have "pkt = [0x45, 0] @ be_bytes 2 (28 + length payload) @ be_bytes 2 ident @ [0, 0, 64, 1] @ be_bytes 2 (unat (checksum hdr)) @
      src4 @ dst4 @ [8, 0] @ be_bytes 2 (unat (checksum icmp)) @ be_bytes 2 ident @ be_bytes 2 sq @ payload"
    unfolding L(7) put_checksum_def by (simp add: L(5,6))
  with L(1-4) show ?thesis by (intro that) simp_all
qed

lemma reply_matches:
  assumes "EchoRequest src dst ident sq payload = Inr pkt" "ident < 65536" "sq < 65536"
  shows "MatchProbe pkt (icmp_reply pkt) src dst ident sq = Some ProbeICMPReply"
proof -
  from EchoRequest_bytes [OF assms(1)] obtain s4 d4 l c i q k where
    E: "to4 src = Some s4" "to4 dst = Some d4" "length s4 = 4" "length d4 = 4"
      "i = be_bytes 2 ident" "q = be_bytes 2 sq" "length l = 2" "length c = 2" "length k = 2"
      "pkt = [0x45, 0] @ l @ i @ [0, 0, 64, 1] @ c @ s4 @ d4 @ [8, 0] @ k @ i @ q @ payload" by metis
  define R where "R = put_checksum 2 ([0, 0, 0, 0] @ i @ q @ payload)"
  then have R: "R = [0, 0] @ be_bytes 2 (unat (checksum ([0, 0, 0, 0] @ i @ q @ payload))) @ i @ q @ payload"
    by (simp add: put_checksum_def)
  have reply: "icmp_reply pkt = ([0x45, 0] @ l @ i @ [0, 0, 64, 1] @ c) @ d4 @ s4 @ R"
    using E(3,4,7-9) by (simp add: icmp_reply_def E(10) R_def E(5))
  have "pkt ! 20 = 8" using E(3-9) by (simp add: E(10) nth_append)
  moreover have "icmp_reply pkt ! 20 = 0" unfolding reply R using E(3-9) by (simp add: nth_append)
  ultimately have ne: "pkt \<noteq> icmp_reply pkt" by auto
  have parts: "drop 20 (icmp_reply pkt) = R" "take 4 (drop 12 (icmp_reply pkt)) = d4" "take 4 (drop 16 (icmp_reply pkt)) = s4"
      "icmp_reply pkt ! 0 = 0x45" "icmp_reply pkt ! 9 = 1" "28 \<le> length (icmp_reply pkt)"
    using E(3-9) by (simp_all add: reply R nth_append)
  have fields: "R ! 0 = 0" "take 2 (drop 4 R) = i" "take 2 (drop 6 R) = q" by (simp_all add: R E(5,6))
  have "isICMPEchoReply (icmp_reply pkt) dst src ident sq"
    using parts(6) assms(2,3) by (simp add: isICMPEchoReply_def parts ip_is_def E(1,2,5,6) fields Let_def not_less)
  moreover have "icmp_reply pkt \<noteq> []" using parts(6) by auto
  ultimately show ?thesis using ne by (simp add: MatchProbe_def)
qed

lemma runCheck_ok:
  assumes "GatewayForClient a = Inr gw" "4 \<le> length rnd" "\<And>pkt. send pkt = Inr ()" "parse_ip a = Some src" "parse_ip gw = Some dst"
    "EchoRequest src dst (be_nat (take 2 (take 4 rnd))) (be_nat (drop 2 (take 4 rnd))) ProbeMagic = Inr pkt"
    "recv pkt = Inr got" "MatchProbe pkt got src dst (be_nat (take 2 (take 4 rnd))) (be_nat (drop 2 (take 4 rnd))) = Some kind"
  shows "runCheck (Inr ()) (Inr a) gen rnd send recv = \<lparr>ck_ok = True, ck_assigned = a, ck_generation = gen, ck_probe = Some kind, ck_error = None\<rparr>"
  using assms by (simp add: runCheck_def Let_def)

text \<open>
  The link check and the server agree. For every client of a server whose pool is a network
  of 24 bits: the echo request of the client's check is a valid packet (both checksums, the total
  length), the server reads from it the client's own address as the source and the gateway's as
  the destination, and the check succeeds both when the server reflects the packet and when the
  gateway's host answers it.
\<close>
theorem link_check:
  assumes "newAddressPool cidr = Inr p" "ParseCIDR cidr = Some (ip, 24, 32)" "i < ap_count p" "4 \<le> length rnd"
    "\<forall>pkt. send pkt = Inr ()"
  defines "a \<equiv> ipString p i"
  shows "\<exists>pkt. checksum (take 20 pkt) = 0 \<and> checksum (drop 20 pkt) = 0 \<and> be_nat (take 2 (drop 2 pkt)) = length pkt \<and>
    packetIP pkt False = a \<and> GatewayForClient a = Inr (packetIP pkt True) \<and>
    runCheck (Inr ()) (Inr a) gen rnd send (\<lambda>sent. Inr sent) =
      \<lparr>ck_ok = True, ck_assigned = a, ck_generation = gen, ck_probe = Some ProbeEcho, ck_error = None\<rparr> \<and>
    runCheck (Inr ()) (Inr a) gen rnd send (\<lambda>sent. Inr (icmp_reply sent)) =
      \<lparr>ck_ok = True, ck_assigned = a, ck_generation = gen, ck_probe = Some ProbeICMPReply, ck_error = None\<rparr>"
proof -
  define A where "A = be_bytes 4 (unat (ap_ip p + of_nat (i + 2)))"
  define G where "G = be_bytes 4 (unat (ap_ip p) + 1)"
  have len: "length A = 4" "length G = 4" by (simp_all add: A_def G_def)
  have a: "a = quad_string A" by (simp add: a_def ipString_def A_def)
  have gw: "GatewayForClient a = Inr (quad_string G)" unfolding a_def G_def by (rule pool_gateway [OF assms(1-3)])
  note parse = parse_ip_quad [OF len(1), folded a] parse_ip_quad [OF len(2)]
  let ?id = "be_nat (take 2 (take 4 rnd))" and ?sq = "be_nat (drop 2 (take 4 rnd))"
  have small: "?id < 65536" "?sq < 65536"
    using be_nat_bound [of "take 2 (take 4 rnd)"] be_nat_bound [of "drop 2 (take 4 rnd)"] assms(4) by simp_all
  obtain pkt where pkt: "EchoRequest (as16 (V4 A)) (as16 (V4 G)) ?id ?sq ProbeMagic = Inr pkt"
    by (simp add: EchoRequest_def parse Let_def)
  note valid = EchoRequest_checksums [OF pkt]
  note addr = EchoRequest_addresses [OF pkt]
  have magic: "length ProbeMagic \<le> 65507" by (simp add: ProbeMagic_def text_bytes_def)
  have ne: "pkt \<noteq> []" using addr(4) by auto
  have quad: "ip_text b = quad_string b" if "length b = 4" for b using that by (simp add: ip_text_def to4_def)
  have "packetIP pkt False = a" "packetIP pkt True = quad_string G"
    using addr ne len by (simp_all add: packetIP_def Let_def parse quad a)
  moreover have "runCheck (Inr ()) (Inr a) gen rnd send (\<lambda>sent. Inr sent) =
      \<lparr>ck_ok = True, ck_assigned = a, ck_generation = gen, ck_probe = Some ProbeEcho, ck_error = None\<rparr>"
    by (rule runCheck_ok [OF gw assms(4) _ parse(1,3) pkt, where recv = "\<lambda>sent. Inr sent", OF _ refl]) (use assms(5) ne in \<open>simp_all add: MatchProbe_def\<close>)
  moreover have "runCheck (Inr ()) (Inr a) gen rnd send (\<lambda>sent. Inr (icmp_reply sent)) =
      \<lparr>ck_ok = True, ck_assigned = a, ck_generation = gen, ck_probe = Some ProbeICMPReply, ck_error = None\<rparr>"
    by (rule runCheck_ok [OF gw assms(4) _ parse(1,3) pkt, where recv = "\<lambda>sent. Inr (icmp_reply sent)", OF _ refl reply_matches [OF pkt small]])
      (use assms(5) in simp)
  ultimately show ?thesis using valid(2-4) magic gw by auto
qed

theorem link_check_witness:
  "\<exists>p. newAddressPool ''10.0.0.0/24'' = Inr p \<and> ck_ok (runCheck (Inr ()) (Inr (ipString p 0)) 0 [1, 2, 3, 4] (\<lambda>_. Inr ()) (\<lambda>sent. Inr sent))"
proof -
  have cidr: "ParseCIDR ''10.0.0.0/24'' = Some (as16 (V4 [10, 0, 0, 0]), 24, 32)" by code_simp
  obtain p where p: "newAddressPool ''10.0.0.0/24'' = Inr p"
    by (simp add: newAddressPool_def cidr Let_def)
  have "0 < ap_count p" using pool_base(2) [OF p cidr] by simp
  from link_check [OF p cidr this, where rnd = "[1, 2, 3, 4]" and send = "\<lambda>_. Inr ()" and gen = 0] p show ?thesis by auto
qed

end
