(* ===== verification/Capture.thy ===== *)
theory Capture
  imports Core_Config
begin

text \<open>
  The measuring tool (\<open>cmd/chimera-eval/main.go\<close>): the reader of packet captures, the length
  ladder derived from one, and the report. A file is its bytes; maps from keys to counts are
  functions. Percentiles are exact where the code multiplies in \<open>float64\<close>; the rates and the mean
  of the report, which are printed only, are left out. Proved: a derived ladder is accepted as a
  configuration; captures read back; the report adds up.
\<close>

section \<open>Reading a capture\<close>

record datum =
  dt_ts :: nat
  dt_payload :: bytes
  dt_flow :: string

record udp_datagram =
  ud_src :: string
  ud_dst :: string
  ud_src_port :: nat
  ud_dst_port :: nat
  ud_payload :: bytes

definition parseUDP :: "bytes \<Rightarrow> bytes \<Rightarrow> bytes \<Rightarrow> udp_datagram list" where
  "parseUDP src dst udp =
     (if length udp < 8 then []
      else [\<lparr>ud_src = hex_encode src, ud_dst = hex_encode dst, ud_src_port = be_nat (take 2 udp),
             ud_dst_port = be_nat (take 2 (drop 2 udp)), ud_payload = drop 8 udp\<rparr>])"

definition ipv6UDP :: "bytes \<Rightarrow> udp_datagram list" where
  "ipv6UDP ip =
     (if length ip < 40 then [] else if ip ! 6 \<noteq> 17 then []
      else parseUDP (take 16 (drop 8 ip)) (take 16 (drop 24 ip)) (drop 40 ip))"

definition ipv4UDP :: "bytes \<Rightarrow> udp_datagram list" where
  "ipv4UDP ip =
     (if length ip < 20 then []
      else let ihl = unat (ip ! 0 AND 0x0F) * 4 in
        if ihl < 20 \<or> length ip < ihl then []
        else if ip ! 9 \<noteq> 17 then []
        else parseUDP (take 4 (drop 12 ip)) (take 4 (drop 16 ip)) (drop ihl ip))"

definition ipUDP :: "bytes \<Rightarrow> nat \<Rightarrow> udp_datagram list" where
  "ipUDP ip ethertype = (if ethertype = 0x0800 then ipv4UDP ip else if ethertype = 0x86DD then ipv6UDP ip else [])"

definition udpPayloads :: "bytes \<Rightarrow> nat \<Rightarrow> udp_datagram list" where
  "udpPayloads frame linkType =
     (if linkType = 1 then
        (if length frame < 14 then []
         else let eth = be_nat (take 2 (drop 12 frame)) in
           if eth = 0x8100 \<and> 18 \<le> length frame then ipUDP (drop 18 frame) (be_nat (take 2 (drop 16 frame)))
           else ipUDP (drop 14 frame) eth)
      else if linkType = 101 then
        (if frame = [] then [] else ipUDP frame (if drop_bit 4 (frame ! 0) = 6 then 0x86DD else 0x0800))
      else if linkType = 113 then
        (if length frame < 16 then [] else ipUDP (drop 16 frame) (be_nat (take 2 (drop 14 frame))))
      else [])"

text \<open>Go compares strings byte by byte.\<close>

fun str_less :: "string \<Rightarrow> string \<Rightarrow> bool" where
  "str_less [] [] = False"
| "str_less [] (d # ds) = True"
| "str_less (c # cs) [] = False"
| "str_less (c # cs) (d # ds) \<longleftrightarrow>
     (of_char c :: nat) < of_char d \<or> (of_char c :: nat) = of_char d \<and> str_less cs ds"

definition flowKey :: "string \<Rightarrow> string \<Rightarrow> nat \<Rightarrow> nat \<Rightarrow> string" where
  "flowKey a b pa pb =
     (let left = a @ '':'' @ dec_string pa; right = b @ '':'' @ dec_string pb in
      if str_less right left then right @ ''-'' @ left else left @ ''-'' @ right)"

definition keep_payload :: "int \<Rightarrow> udp_datagram \<Rightarrow> bool" where
  "keep_payload port p \<longleftrightarrow>
     \<not> (port \<noteq> 0 \<and> int (ud_src_port p) \<noteq> port \<and> int (ud_dst_port p) \<noteq> port) \<and> ud_payload p \<noteq> []"

definition as_datum :: "nat \<Rightarrow> udp_datagram \<Rightarrow> datum" where
  "as_datum ts p = \<lparr>dt_ts = ts, dt_payload = ud_payload p, dt_flow = flowKey (ud_src p) (ud_dst p) (ud_src_port p) (ud_dst_port p)\<rparr>"

text \<open>The loop over the records that follow the file header.\<close>

function read_records :: "(bytes \<Rightarrow> nat) \<Rightarrow> bool \<Rightarrow> nat \<Rightarrow> int \<Rightarrow> bytes \<Rightarrow> datum list res" where
  "read_records u32 ns linkType port r =
     (if r = [] then Inr []
      else if length r < 16 then Inl ErrRead
      else let tsSec = u32 (take 4 r); tsFrac = u32 (take 4 (drop 4 r)); incl = u32 (take 4 (drop 8 r)); r1 = drop 16 r in
        if 2 ^ 20 < incl then Inl ErrTooLarge
        else if length r1 < incl then Inl ErrRead
        else let tsUs = (if ns then tsSec * 1000000 + tsFrac div 1000 else tsSec * 1000000 + tsFrac);
                 here = map (as_datum tsUs) (filter (keep_payload port) (udpPayloads (take incl r1) linkType)) in
             res_bind (read_records u32 ns linkType port (drop incl r1)) (\<lambda>out. Inr (here @ out)))"
  by pat_completeness auto
termination
  by (relation "measure (\<lambda>(u32, ns, linkType, port, r). length r)") auto

declare read_records.simps [simp del]

definition readUDPPayloads :: "bytes \<Rightarrow> int \<Rightarrow> datum list res" where
  "readUDPPayloads r port =
     (if length r < 24 then Inl ErrRead
      else let magic = le_nat (take 4 r); body = drop 24 r in
        if magic = 0xA1B2C3D4 then read_records le_nat False (le_nat (take 4 (drop 20 r))) port body
        else if magic = 0xA1B23C4D then read_records le_nat True (le_nat (take 4 (drop 20 r))) port body
        else if magic = 0xD4C3B2A1 then read_records be_nat False (be_nat (take 4 (drop 20 r))) port body
        else if magic = 0x4D3CB2A1 then read_records be_nat True (be_nat (take 4 (drop 20 r))) port body
        else Inl ErrConfig)"

section \<open>Ladder and report\<close>

text \<open>The value at the rounded position of \<open>p\<close> percent in a sorted list.\<close>

definition percentile :: "int list \<Rightarrow> nat \<Rightarrow> int" where
  "percentile xs p =
     (if xs = [] then 0
      else let i = (2 * p * (length xs - 1) + 100) div 200 in
        xs ! (if length xs \<le> i then length xs - 1 else i))"

definition ladder_point :: "int list \<Rightarrow> nat \<Rightarrow> int" where
  "ladder_point lens p = (let v = percentile lens p in if v < 64 then 64 else if 1452 < v then 1452 else v)"

definition deriveLadder :: "datum list \<Rightarrow> int list" where
  "deriveLadder pkts =
     (if pkts = [] then []
      else let lens = sort (map (\<lambda>d. int (length (dt_payload d))) pkts) in
        foldl (\<lambda>out p. let b = ladder_point lens p in if out = [] \<or> last out < b then out @ [b] else out) [] [10, 30, 50, 70, 90])"

definition lengthBucket :: "nat \<Rightarrow> string" where
  "lengthBucket n =
     (if n \<le> 128 then ''<=128'' else if n \<le> 512 then ''<=512'' else if n \<le> 1024 then ''<=1024''
      else if n \<le> 1452 then ''<=1452'' else if n \<le> 1500 then ''<=1500'' else ''>1500'')"

text \<open>\<open>rp_rules None\<close> counts the blocked flows; times between packets are in microseconds.\<close>

record report =
  rp_packets :: nat
  rp_flows :: nat
  rp_exempt :: nat
  rp_blocked :: nat
  rp_rules :: "fep_rule option \<Rightarrow> nat"
  rp_buckets :: "string \<Rightarrow> nat"
  rp_p50 :: int
  rp_p90 :: int

text \<open>The state of the first loop: first payload and last time of each flow, the times between.\<close>

record tally =
  tl_first :: "(string \<times> bytes) list"
  tl_last :: "string \<Rightarrow> nat option"
  tl_iats :: "int list"
  tl_buckets :: "string \<Rightarrow> nat"

definition tally_packet :: "datum \<Rightarrow> tally \<Rightarrow> tally" where
  "tally_packet p t =
     (let b = lengthBucket (length (dt_payload p));
          first = (if dt_flow p \<in> fst ` set (tl_first t) then tl_first t else tl_first t @ [(dt_flow p, dt_payload p)]);
          iats = (case tl_last t (dt_flow p) of
                    None \<Rightarrow> tl_iats t
                  | Some prev \<Rightarrow>
                      (let dt = int (dt_ts p) - int prev in
                       if 0 \<le> dt \<and> dt < 60000000 then tl_iats t @ [dt] else tl_iats t)) in
      \<lparr>tl_first = first, tl_last = (tl_last t)(dt_flow p := Some (dt_ts p)), tl_iats = iats,
       tl_buckets = (tl_buckets t)(b := tl_buckets t b + 1)\<rparr>)"

definition judge_flow :: "bytes \<Rightarrow> report \<Rightarrow> report" where
  "judge_flow payload r =
     (let rule = FEPExemption payload;
          r1 = r\<lparr>rp_rules := (rp_rules r)(rule := rp_rules r rule + 1)\<rparr> in
      if rule \<noteq> None then r1\<lparr>rp_exempt := rp_exempt r + 1\<rparr> else r1\<lparr>rp_blocked := rp_blocked r + 1\<rparr>)"

definition evaluate :: "datum list \<Rightarrow> report" where
  "evaluate pkts =
     (let t = fold tally_packet pkts \<lparr>tl_first = [], tl_last = (\<lambda>_. None), tl_iats = [], tl_buckets = (\<lambda>_. 0)\<rparr>;
          iats = sort (tl_iats t);
          r = \<lparr>rp_packets = length pkts, rp_flows = length (tl_first t), rp_exempt = 0, rp_blocked = 0, rp_rules = (\<lambda>_. 0),
               rp_buckets = tl_buckets t, rp_p50 = percentile iats 50, rp_p90 = percentile iats 90\<rparr> in
      fold judge_flow (map snd (tl_first t)) r)"

section \<open>Ladders are configurations\<close>

definition ladder_ok :: "int list \<Rightarrow> bool" where
  "ladder_ok out \<longleftrightarrow> sorted_wrt (<) out \<and> (\<forall>b \<in> set out. 64 \<le> b \<and> b \<le> 1452)"

lemma sorted_le_last: "sorted xs \<Longrightarrow> x \<in> set xs \<Longrightarrow> x \<le> last xs" for x :: int
  by (induction xs) auto

lemma distinct_adjI: "distinct xs \<Longrightarrow> distinct_adj xs"
  by (induction xs rule: induct_list012) auto

lemma ladder_step:
  assumes "ladder_ok out" "64 \<le> b" "b \<le> 1452"
  shows "ladder_ok (if out = [] \<or> last out < b then out @ [b] else out)"
proof -
  have "x < b" if "x \<in> set out" "last out < b" for x
  proof -
    have "sorted out" using assms(1) by (simp add: ladder_ok_def strict_sorted_imp_sorted)
    from sorted_le_last [OF this that(1)] that(2) show ?thesis by simp
  qed
  with assms show ?thesis by (auto simp: ladder_ok_def sorted_wrt_append)
qed

lemma ladder_fold:
  assumes "ladder_ok out"
  shows "ladder_ok (foldl (\<lambda>out p. let b = ladder_point lens p in if out = [] \<or> last out < b then out @ [b] else out) out ps) \<and>
    length (foldl (\<lambda>out p. let b = ladder_point lens p in if out = [] \<or> last out < b then out @ [b] else out) out ps) \<le> length out + length ps"
  using assms
proof (induction ps arbitrary: out)
  case (Cons p ps)
  let ?b = "ladder_point lens p"
  let ?out = "if out = [] \<or> last out < ?b then out @ [?b] else out"
  have "ladder_ok ?out" by (rule ladder_step [OF Cons.prems]) (simp_all add: ladder_point_def Let_def)
  moreover have "length ?out \<le> Suc (length out)" by simp
  ultimately show ?case using Cons.IH [of ?out] by (simp add: Let_def)
qed simp

text \<open>
  What the tool derives the configuration accepts: for every capture with at least one
  packet the derived ladder is not empty, and as \<open>shape_buckets\<close> of a configuration it passes
  the checks of \<open>NormalizeConfig\<close> unchanged: at most 16 entries in ascending order, without
  duplicates, each from 64 to 1452.
\<close>
theorem ladder_accepted:
  assumes "pkts \<noteq> []"
  shows "deriveLadder pkts \<noteq> [] \<and> normalize_buckets (deriveLadder pkts) = Inr (deriveLadder pkts)"
proof -
  let ?lens = "sort (map (\<lambda>d. int (length (dt_payload d))) pkts)" and ?L = "deriveLadder pkts"
  have L: "ladder_ok ?L" "length ?L \<le> 5"
    using ladder_fold [of "[]" ?lens "[10, 30, 50, 70, 90]"] assms by (simp_all only: deriveLadder_def Let_def if_False) (simp_all add: ladder_ok_def)
  have "?L \<noteq> []" using assms by (simp add: deriveLadder_def Let_def)
  moreover from L(1) have s: "sorted ?L" "distinct ?L" by (auto simp: ladder_ok_def strict_sorted_iff)
  moreover have "distinct_adj ?L" using s(2) by (rule distinct_adjI)
  moreover have "\<not> list_ex (\<lambda>b. b < 64 \<or> 1452 < b) ?L" using L(1) by (auto simp: ladder_ok_def list_ex_iff)
  ultimately show ?thesis using L(2) by (simp add: normalize_buckets_def Let_def sorted_sort_id)
qed

section \<open>Captures read back\<close>

text \<open>
  A packet of a capture, whatever the link: its time in seconds and a fraction, the bytes of the link
  layer before the type, an optional VLAN tag (on Ethernet), IPv4 with options or IPv6, the protocol, and
  what UDP carries.
\<close>

record row =
  rw_sec :: nat
  rw_frac :: nat
  rw_link :: bytes
  rw_vlan :: "bytes option"
  rw_v6 :: bool
  rw_options :: bytes
  rw_proto :: byte
  rw_src :: bytes
  rw_dst :: bytes
  rw_sport :: nat
  rw_dport :: nat
  rw_payload :: bytes

definition row_ok :: "nat \<Rightarrow> row \<Rightarrow> bool" where
  "row_ok link r \<longleftrightarrow>
     rw_sec r < 2 ^ 32 \<and> rw_frac r < 2 ^ 32 \<and> rw_sport r < 65536 \<and> rw_dport r < 65536 \<and> length (rw_payload r) \<le> 65000 \<and>
     (if rw_v6 r then length (rw_src r) = 16 \<and> length (rw_dst r) = 16
      else length (rw_src r) = 4 \<and> length (rw_dst r) = 4 \<and> length (rw_options r) \<in> {0, 4, 8, 12, 16, 20, 24, 28, 32, 36, 40}) \<and>
     length (rw_link r) = (if link = 1 then 12 else if link = 113 then 14 else 0) \<and>
     (case rw_vlan r of None \<Rightarrow> True | Some tag \<Rightarrow> length tag = 2)"

definition row_udp :: "row \<Rightarrow> bytes" where
  "row_udp r = be_bytes 2 (rw_sport r) @ be_bytes 2 (rw_dport r) @ be_bytes 2 (8 + length (rw_payload r)) @ [0, 0] @ rw_payload r"

definition row_ip :: "row \<Rightarrow> bytes" where
  "row_ip r =
     (if rw_v6 r then [0x60, 0, 0, 0] @ be_bytes 2 (8 + length (rw_payload r)) @ [rw_proto r, 64] @ rw_src r @ rw_dst r @ row_udp r
      else [of_nat (0x45 + length (rw_options r) div 4), 0] @ be_bytes 2 (28 + length (rw_options r) + length (rw_payload r)) @
        [0, 0, 0, 0, 64, rw_proto r, 0, 0] @ rw_src r @ rw_dst r @ rw_options r @ row_udp r)"

definition row_type :: "row \<Rightarrow> bytes" where
  "row_type r = (if rw_v6 r then [0x86, 0xDD] else [0x08, 0x00])"

text \<open>The frame on Ethernet (1), on a link of raw packets (101) and on a cooked Linux link (113).\<close>

definition row_frame :: "nat \<Rightarrow> row \<Rightarrow> bytes" where
  "row_frame link r =
     (if link = 1 then rw_link r @ (case rw_vlan r of None \<Rightarrow> [] | Some tag \<Rightarrow> [0x81, 0x00] @ tag) @ row_type r @ row_ip r
      else if link = 113 then rw_link r @ row_type r @ row_ip r
      else row_ip r)"

definition capture_record :: "(nat \<Rightarrow> nat \<Rightarrow> bytes) \<Rightarrow> nat \<Rightarrow> row \<Rightarrow> bytes" where
  "capture_record enc link r =
     enc 4 (rw_sec r) @ enc 4 (rw_frac r) @ enc 4 (length (row_frame link r)) @ enc 4 (length (row_frame link r)) @ row_frame link r"

text \<open>A file with times in microseconds or in nanoseconds, in one of the byte orders.\<close>

definition capture_file :: "(nat \<Rightarrow> nat \<Rightarrow> bytes) \<Rightarrow> bool \<Rightarrow> nat \<Rightarrow> row list \<Rightarrow> bytes" where
  "capture_file enc ns link rows =
     enc 4 (if ns then 0xA1B23C4D else 0xA1B2C3D4) @ enc 2 2 @ enc 2 4 @ enc 4 0 @ enc 4 0 @ enc 4 65535 @ enc 4 link @
     concat (map (capture_record enc link) rows)"

text \<open>
  What is expected of a row: the flow is named by its two ends, in hexadecimal, the smaller in the
  order of the dictionary first.
\<close>

definition flow_name :: "row \<Rightarrow> string" where
  "flow_name r =
     (let from = hex_encode (rw_src r) @ '':'' @ dec_string (rw_sport r); to = hex_encode (rw_dst r) @ '':'' @ dec_string (rw_dport r) in
      if ord_class.lexordp (map of_char to :: nat list) (map of_char from) then to @ ''-'' @ from else from @ ''-'' @ to)"

lemma flow_name_both_ways:
  "flow_name (r\<lparr>rw_src := rw_dst r, rw_dst := rw_src r, rw_sport := rw_dport r, rw_dport := rw_sport r\<rparr>) = flow_name r"
proof -
  define a where "a = hex_encode (rw_src r) @ '':'' @ dec_string (rw_sport r)"
  define b where "b = hex_encode (rw_dst r) @ '':'' @ dec_string (rw_dport r)"
  let ?n = "map of_char :: string \<Rightarrow> nat list"
  have "a = b" if "\<not> ord_class.lexordp (?n a) (?n b)" "\<not> ord_class.lexordp (?n b) (?n a)"
  proof -
    have "?n a = ?n b" using that lexordp_linear by blast
    then show ?thesis by (simp add: inj_map_eq_map inj_of_char)
  qed
  moreover have "\<not> (ord_class.lexordp (?n a) (?n b) \<and> ord_class.lexordp (?n b) (?n a))" using lexordp_antisym by blast
  moreover have "flow_name r = (if ord_class.lexordp (?n b) (?n a) then b @ ''-'' @ a else a @ ''-'' @ b)"
    by (simp only: flow_name_def Let_def a_def b_def)
  moreover have "flow_name (r\<lparr>rw_src := rw_dst r, rw_dst := rw_src r, rw_sport := rw_dport r, rw_dport := rw_sport r\<rparr>) =
      (if ord_class.lexordp (?n a) (?n b) then a @ ''-'' @ b else b @ ''-'' @ a)"
    by (cases r) (simp only: flow_name_def Let_def a_def b_def row.select_convs row.update_convs)
  ultimately show ?thesis by auto
qed

definition row_data :: "bool \<Rightarrow> int \<Rightarrow> row \<Rightarrow> datum list" where
  "row_data ns port r =
     (if rw_proto r = 17 \<and> rw_payload r \<noteq> [] \<and> (port = 0 \<or> int (rw_sport r) = port \<or> int (rw_dport r) = port)
      then [\<lparr>dt_ts = rw_sec r * 1000000 + (if ns then rw_frac r div 1000 else rw_frac r), dt_payload = rw_payload r, dt_flow = flow_name r\<rparr>]
      else [])"

lemma str_less_lexordp: "str_less a b \<longleftrightarrow> ord_class.lexordp (map of_char a :: nat list) (map of_char b)"
  by (induction a b rule: str_less.induct) auto

definition row_datagram :: "row \<Rightarrow> udp_datagram" where
  "row_datagram r = \<lparr>ud_src = hex_encode (rw_src r), ud_dst = hex_encode (rw_dst r), ud_src_port = rw_sport r,
     ud_dst_port = rw_dport r, ud_payload = rw_payload r\<rparr>"

lemma row_ip_parsed:
  assumes "row_ok link r"
  shows "ipUDP (row_ip r) (if rw_v6 r then 0x86DD else 0x0800) = (if rw_proto r = 17 then [row_datagram r] else [])"
proof -
  have udp: "parseUDP s t (row_udp r) = [\<lparr>ud_src = hex_encode s, ud_dst = hex_encode t, ud_src_port = rw_sport r,
      ud_dst_port = rw_dport r, ud_payload = rw_payload r\<rparr>]" for s t
    using assms by (simp add: parseUDP_def row_ok_def row_udp_def)
  show ?thesis
  proof (cases "rw_v6 r")
    case True
    then have l: "length (rw_src r) = 16" "length (rw_dst r) = 16" using assms by (simp_all add: row_ok_def)
    have "row_ip r = [0x60, 0, 0, 0] @ be_bytes 2 (8 + length (rw_payload r)) @ [rw_proto r, 64] @ rw_src r @ rw_dst r @ row_udp r"
      using True by (simp add: row_ip_def)
    then have "\<not> length (row_ip r) < 40" "row_ip r ! 6 = rw_proto r" "take 16 (drop 8 (row_ip r)) = rw_src r"
      "take 16 (drop 24 (row_ip r)) = rw_dst r" "drop 40 (row_ip r) = row_udp r"
      using l by (simp_all add: nth_append)
    with udp True show ?thesis by (simp add: ipUDP_def ipv6UDP_def row_datagram_def)
  next
    case False
    then have l: "length (rw_src r) = 4" "length (rw_dst r) = 4" "length (rw_options r) \<in> {0, 4, 8, 12, 16, 20, 24, 28, 32, 36, 40}"
      using assms by (simp_all add: row_ok_def)
    define b0 :: byte where "b0 = of_nat (0x45 + length (rw_options r) div 4)"
    have ihl: "unat (b0 AND 0x0F) * 4 = 20 + length (rw_options r)" using l(3) by (auto simp: b0_def)
    have "row_ip r = [b0, 0] @ be_bytes 2 (28 + length (rw_options r) + length (rw_payload r)) @
        [0, 0, 0, 0, 64, rw_proto r, 0, 0] @ rw_src r @ rw_dst r @ rw_options r @ row_udp r"
      using False by (simp add: row_ip_def b0_def)
    then have "\<not> length (row_ip r) < 20" "row_ip r ! 9 = rw_proto r" "take 4 (drop 12 (row_ip r)) = rw_src r"
      "take 4 (drop 16 (row_ip r)) = rw_dst r" "drop 20 (row_ip r) = rw_options r @ row_udp r"
      "row_ip r ! 0 = b0" "\<not> length (row_ip r) < 20 + length (rw_options r)"
      using l by (simp_all add: nth_append)
    moreover from this(5) have "drop (20 + length (rw_options r)) (row_ip r) = row_udp r"
      unfolding add.commute [of 20] drop_drop [symmetric] by simp
    ultimately show ?thesis using udp ihl False by (simp add: ipUDP_def ipv4UDP_def row_datagram_def Let_def)
  qed
qed

lemma row_type_nat: "be_nat (row_type r) = (if rw_v6 r then 0x86DD else 0x0800)"
  by (simp add: row_type_def be_nat_def)

lemma row_frame_parsed:
  assumes "row_ok link r" "link \<in> {1, 101, 113}"
  shows "udpPayloads (row_frame link r) link = (if rw_proto r = 17 then [row_datagram r] else [])"
proof -
  note ip = row_ip_parsed [OF assms(1)]
  have t2: "length (row_type r) = 2" by (simp add: row_type_def)
  from assms(2) consider "link = 1" | "link = 101" | "link = 113" by blast
  then show ?thesis
  proof cases
    case 1
    then have l: "length (rw_link r) = 12" using assms(1) by (simp add: row_ok_def)
    show ?thesis
    proof (cases "rw_vlan r")
      case None
      then have f: "row_frame link r = rw_link r @ row_type r @ row_ip r" using 1 by (simp add: row_frame_def)
      have "be_nat (row_type r) \<noteq> 0x8100" by (simp add: row_type_nat)
      with ip show ?thesis using l t2 1 unfolding f by (simp add: udpPayloads_def Let_def row_type_nat)
    next
      case (Some tag)
      then have t: "length tag = 2" using assms(1) by (simp add: row_ok_def)
      have f: "row_frame link r = rw_link r @ [0x81, 0x00] @ tag @ row_type r @ row_ip r" using 1 Some by (simp add: row_frame_def)
      have "be_nat [0x81, 0x00] = 0x8100" by (simp add: be_nat_def)
      with ip show ?thesis using l t t2 1 unfolding f by (simp add: udpPayloads_def Let_def row_type_nat)
    qed
  next
    case 2
    then have f: "row_frame link r = row_ip r" by (simp add: row_frame_def)
    have "row_ip r \<noteq> []" by (simp add: row_ip_def)
    moreover have "drop_bit 4 (row_ip r ! 0) = 6 \<longleftrightarrow> rw_v6 r"
    proof (cases "rw_v6 r")
      case False
      then have "length (rw_options r) \<in> {0, 4, 8, 12, 16, 20, 24, 28, 32, 36, 40}" using assms(1) by (simp add: row_ok_def)
      with False show ?thesis by (auto simp: row_ip_def drop_bit_eq_div)
    qed (simp add: row_ip_def drop_bit_eq_div)
    ultimately show ?thesis using ip 2 unfolding f by (simp add: udpPayloads_def split: if_splits)
  next
    case 3
    then have l: "length (rw_link r) = 14" using assms(1) by (simp add: row_ok_def)
    have f: "row_frame link r = rw_link r @ row_type r @ row_ip r" using 3 by (simp add: row_frame_def)
    from ip show ?thesis using l t2 3 unfolding f by (simp add: udpPayloads_def row_type_nat)
  qed
qed

lemma le_bytes_4: "le_bytes 4 v = [of_nat v, of_nat (v div 256), of_nat (v div 65536), of_nat (v div 16777216)]"
proof -
  have "le_bytes (Suc (Suc (Suc (Suc 0)))) v = [of_nat v, of_nat (v div 256), of_nat (v div 65536), of_nat (v div 16777216)]"
    by (simp add: div_mult2_eq [symmetric])
  moreover have "Suc (Suc (Suc (Suc 0))) = 4" by simp
  ultimately show ?thesis by (simp only:)
qed

text \<open>Both byte orders of the file.\<close>

definition byte_order :: "(nat \<Rightarrow> nat \<Rightarrow> bytes) \<Rightarrow> (bytes \<Rightarrow> nat) \<Rightarrow> bool" where
  "byte_order enc dec \<longleftrightarrow> (\<forall>n v. length (enc n v) = n \<and> (v < 256 ^ n \<longrightarrow> dec (enc n v) = v))"

lemma byte_orders: "byte_order le_bytes le_nat" "byte_order be_bytes be_nat"
  by (simp_all add: byte_order_def)

lemma row_frame_length:
  assumes "row_ok link r" "link \<in> {1, 101, 113}"
  shows "length (row_frame link r) < 2 ^ 20"
proof -
  have "length (row_ip r) \<le> 65200" using assms(1) by (auto simp: row_ip_def row_udp_def row_ok_def split: if_splits)
  with assms show ?thesis by (auto simp: row_frame_def row_ok_def row_type_def split: option.splits if_splits)
qed

lemma row_kept:
  "map (as_datum ts) (filter (keep_payload port) (if rw_proto r = 17 then [row_datagram r] else [])) =
     (if rw_proto r = 17 \<and> rw_payload r \<noteq> [] \<and> (port = 0 \<or> int (rw_sport r) = port \<or> int (rw_dport r) = port)
      then [\<lparr>dt_ts = ts, dt_payload = rw_payload r, dt_flow = flow_name r\<rparr>] else [])"
  by (auto simp: keep_payload_def as_datum_def row_datagram_def flowKey_def flow_name_def Let_def str_less_lexordp)

lemma record_read:
  assumes "byte_order enc dec" "row_ok link r" "link \<in> {1, 101, 113}"
  shows "read_records dec ns link port (capture_record enc link r @ rest) =
    res_bind (read_records dec ns link port rest) (\<lambda>out. Inr (row_data ns port r @ out))"
proof -
  define n where "n = length (row_frame link r)"
  have small: "n < 256 ^ 4" "n \<le> 2 ^ 20" using row_frame_length [OF assms(2,3)] by (simp_all add: n_def)
  have enc: "length (enc 4 v) = 4" for v using assms(1) by (simp add: byte_order_def)
  have dec: "v < 256 ^ 4 \<Longrightarrow> dec (enc 4 v) = v" for v using assms(1) unfolding byte_order_def by blast
  let ?r = "capture_record enc link r @ rest"
  have parts: "take 4 ?r = enc 4 (rw_sec r)" "take 4 (drop 4 ?r) = enc 4 (rw_frac r)" "take 4 (drop 8 ?r) = enc 4 n"
      "drop 16 ?r = row_frame link r @ rest" "\<not> length ?r < 16"
    by (simp_all only: capture_record_def n_def [symmetric] take_append drop_append enc length_append append_assoc) (simp_all add: enc)
  have nonempty: "?r \<noteq> []" using parts(5) by (metis list.size(3) zero_less_numeral)
  have vals: "dec (enc 4 (rw_sec r)) = rw_sec r" "dec (enc 4 (rw_frac r)) = rw_frac r" "dec (enc 4 n) = n"
    using assms(2) small by (simp_all add: dec row_ok_def)
  have incl: "\<not> 2 ^ 20 < n" "\<not> length (row_frame link r @ rest) < n" using small(2) by (simp_all add: n_def)
  have cut: "take n (row_frame link r @ rest) = row_frame link r" "drop n (row_frame link r @ rest) = rest" by (simp_all add: n_def)
  show ?thesis
    unfolding read_records.simps [of _ _ _ _ ?r] if_not_P [OF nonempty] if_not_P [OF parts(5)] Let_def parts(1-4) vals
      if_not_P [OF incl(1)] if_not_P [OF incl(2)] cut row_frame_parsed [OF assms(2,3)] row_kept
    by (auto simp: row_data_def)
qed

text \<open>
  C31. Captures read back: from a capture of any list of packets of IPv4 (with options) and IPv6, on Ethernet
  (with or without VLAN tags), on raw or on cooked Linux links, in either byte order of the file and with times in micro-
  or nanoseconds, the reader returns exactly the packets that carry UDP (protocol 17) with a payload
  and have the given port as source or as destination, or any port if the given one is 0, in order; each with its time in
  microseconds, its payload and the name of its flow, which is the same in both directions.
\<close>
theorem capture_roundtrip:
  assumes "enc \<in> {le_bytes, be_bytes}" "link \<in> {1, 101, 113}" "\<forall>r \<in> set rows. row_ok link r"
  shows "readUDPPayloads (capture_file enc ns link rows) port =
    Inr (concat (map (\<lambda>r.
      if rw_proto r = 17 \<and> rw_payload r \<noteq> [] \<and> (port = 0 \<or> int (rw_sport r) = port \<or> int (rw_dport r) = port)
      then [\<lparr>dt_ts = rw_sec r * 1000000 + (if ns then rw_frac r div 1000 else rw_frac r), dt_payload = rw_payload r,
             dt_flow = flow_name r\<rparr>]
      else []) rows))"
proof -
  define dec where "dec = (if enc = le_bytes then le_nat else be_nat)"
  have ord: "byte_order enc dec" using assms(1) byte_orders by (auto simp: dec_def)
  have body: "read_records dec ns link port (concat (map (capture_record enc link) rows)) = Inr (concat (map (row_data ns port) rows))"
    using assms(3)
  proof (induction rows)
    case (Cons r rows)
    then show ?case using record_read [OF ord _ assms(2), of r ns port "concat (map (capture_record enc link) rows)"] by simp
  qed (simp add: read_records.simps)
  have magic: "le_nat (le_bytes 4 0xA1B2C3D4) = 0xA1B2C3D4" "le_nat (be_bytes 4 0xA1B2C3D4) = 0xD4C3B2A1"
    "le_nat (le_bytes 4 0xA1B23C4D) = 0xA1B23C4D" "le_nat (be_bytes 4 0xA1B23C4D) = 0x4D3CB2A1"
    by (simp_all add: be_bytes_def le_bytes_4)
  have lk: "dec (enc 4 link) = link" using ord assms(2) by (auto simp: byte_order_def)
  have len: "length (enc n v) = n" for n v using ord by (simp add: byte_order_def)
  let ?magic = "if ns then 0xA1B23C4D else 0xA1B2C3D4 :: nat"
  have parts: "take 4 (capture_file enc ns link rows) = enc 4 ?magic" "take 4 (drop 20 (capture_file enc ns link rows)) = enc 4 link"
      "drop 24 (capture_file enc ns link rows) = concat (map (capture_record enc link) rows)" "\<not> length (capture_file enc ns link rows) < 24"
    by (simp_all add: capture_file_def len)
  have "readUDPPayloads (capture_file enc ns link rows) port = Inr (concat (map (row_data ns port) rows))"
  proof (cases "enc = le_bytes")
    case True
    then have d: "dec = le_nat" by (simp add: dec_def)
    show ?thesis unfolding readUDPPayloads_def if_not_P [OF parts(4)] Let_def parts(1-3)
      using magic lk [unfolded d] body [unfolded d] unfolding True by (cases ns) simp_all
  next
    case False
    then have e: "enc = be_bytes" "dec = be_nat" using assms(1) by (auto simp: dec_def)
    show ?thesis unfolding readUDPPayloads_def if_not_P [OF parts(4)] Let_def parts(1-3)
      using magic lk [unfolded e(2)] body [unfolded e(2)] unfolding e(1) by (cases ns) simp_all
  qed
  then show ?thesis by (simp add: row_data_def [abs_def])
qed

section \<open>Reports add up\<close>

lemma judge_flow_counts:
  "rp_exempt (judge_flow p r) + rp_blocked (judge_flow p r) = rp_exempt r + rp_blocked r + 1"
  "rp_rules (judge_flow p r) None + rp_blocked r = rp_rules r None + rp_blocked (judge_flow p r)"
  "rp_flows (judge_flow p r) = rp_flows r" "rp_buckets (judge_flow p r) = rp_buckets r"
  by (cases "FEPExemption p"; simp add: judge_flow_def Let_def)+

lemma judge_fold:
  "rp_exempt (fold judge_flow ps r) + rp_blocked (fold judge_flow ps r) = rp_exempt r + rp_blocked r + length ps"
  "rp_rules (fold judge_flow ps r) None + rp_blocked r = rp_rules r None + rp_blocked (fold judge_flow ps r)"
  "rp_flows (fold judge_flow ps r) = rp_flows r" "rp_buckets (fold judge_flow ps r) = rp_buckets r"
proof (induction ps arbitrary: r)
  case (Cons p ps)
  { case 1 show ?case using Cons.IH(1) [of "judge_flow p r"] judge_flow_counts(1) [of p r] by simp }
  { case 2 show ?case using Cons.IH(2) [of "judge_flow p r"] judge_flow_counts(2) [of p r] by simp }
  { case 3 show ?case using Cons.IH(3) [of "judge_flow p r"] judge_flow_counts(3) [of p r] by simp }
  { case 4 show ?case using Cons.IH(4) [of "judge_flow p r"] judge_flow_counts(4) [of p r] by simp }
qed simp_all

definition bucket_names :: "string list" where
  "bucket_names = [''<=128'', ''<=512'', ''<=1024'', ''<=1452'', ''<=1500'', ''>1500'']"

lemma bucket_member: "lengthBucket n \<in> set bucket_names"
  by (simp add: lengthBucket_def bucket_names_def)

lemma bucket_sum:
  assumes "distinct ks" "k \<in> set ks"
  shows "sum_list (map (f(k := f k + (1::nat))) ks) = sum_list (map f ks) + 1"
  using assms by (induction ks) (auto simp: map_fun_upd)

lemma tally_first:
  "tl_first (tally_packet p t) = (if dt_flow p \<in> fst ` set (tl_first t) then tl_first t else tl_first t @ [(dt_flow p, dt_payload p)])"
  "tl_buckets (tally_packet p t) =
     (tl_buckets t)(lengthBucket (length (dt_payload p)) := tl_buckets t (lengthBucket (length (dt_payload p))) + 1)"
  by (simp_all add: tally_packet_def Let_def)

lemma tally_fold:
  assumes "distinct (map fst (tl_first t))"
  shows "distinct (map fst (tl_first (fold tally_packet pkts t))) \<and>
    fst ` set (tl_first (fold tally_packet pkts t)) = fst ` set (tl_first t) \<union> dt_flow ` set pkts \<and>
    sum_list (map (tl_buckets (fold tally_packet pkts t)) bucket_names) = sum_list (map (tl_buckets t) bucket_names) + length pkts"
  using assms
proof (induction pkts arbitrary: t)
  case (Cons p pkts)
  let ?t = "tally_packet p t"
  have d: "distinct (map fst (tl_first ?t))" using Cons.prems by (simp add: tally_first)
  have s: "fst ` set (tl_first ?t) = insert (dt_flow p) (fst ` set (tl_first t))" by (auto simp: tally_first)
  have "distinct bucket_names" by (simp add: bucket_names_def)
  from bucket_sum [OF this bucket_member]
  have b: "sum_list (map (tl_buckets ?t) bucket_names) = sum_list (map (tl_buckets t) bucket_names) + 1" unfolding tally_first .
  from Cons.IH [OF d] s b show ?case by simp
qed simp

text \<open>
  A report adds up: the flows are the distinct flow keys of the capture, every flow is either
  exempt or blocked, the blocked ones are those counted under the rule of no exemption, and the
  six length buckets hold every packet exactly once.
\<close>
theorem report_adds_up:
  "rp_flows (evaluate pkts) = card (dt_flow ` set pkts) \<and>
   rp_exempt (evaluate pkts) + rp_blocked (evaluate pkts) = rp_flows (evaluate pkts) \<and>
   rp_rules (evaluate pkts) None = rp_blocked (evaluate pkts) \<and>
   sum_list (map (rp_buckets (evaluate pkts)) bucket_names) = length pkts"
proof -
  let ?t0 = "\<lparr>tl_first = [], tl_last = (\<lambda>_. None), tl_iats = [], tl_buckets = (\<lambda>_. 0)\<rparr>"
  define t where "t = fold tally_packet pkts ?t0"
  have T: "distinct (map fst (tl_first t))" "fst ` set (tl_first t) = dt_flow ` set pkts"
      "sum_list (map (tl_buckets t) bucket_names) = length pkts"
    using tally_fold [of ?t0 pkts] by (simp_all add: t_def bucket_names_def)
  have "length (tl_first t) = card (dt_flow ` set pkts)"
    using distinct_card [OF T(1)] T(2) by simp
  with T(3) show ?thesis
    unfolding evaluate_def Let_def t_def [symmetric]
    using judge_fold [of "map snd (tl_first t)" "\<lparr>rp_packets = length pkts, rp_flows = length (tl_first t), rp_exempt = 0,
      rp_blocked = 0, rp_rules = (\<lambda>_. 0), rp_buckets = tl_buckets t, rp_p50 = percentile (sort (tl_iats t)) 50,
      rp_p90 = percentile (sort (tl_iats t)) 90\<rparr>"] by simp
qed

section \<open>Witnesses\<close>

text \<open>On Ethernet with a VLAN tag: a packet to port 53 and its answer, and a packet of TCP.\<close>

definition sample_row :: row where
  "sample_row = \<lparr>rw_sec = 1, rw_frac = 2000, rw_link = replicate 12 0, rw_vlan = Some [0, 7], rw_v6 = False, rw_options = [],
     rw_proto = 17, rw_src = [10, 0, 0, 2], rw_dst = [10, 0, 0, 1], rw_sport = 4789, rw_dport = 53, rw_payload = [7]\<rparr>"

definition sample_answer :: row where
  "sample_answer = sample_row\<lparr>rw_src := [10, 0, 0, 1], rw_dst := [10, 0, 0, 2], rw_sport := 53, rw_dport := 4789, rw_payload := [8]\<rparr>"

theorem ladder_accepted_witness:
  "normalize_buckets (deriveLadder [\<lparr>dt_ts = 0, dt_payload = [1], dt_flow = []\<rparr>]) = Inr (deriveLadder [\<lparr>dt_ts = 0, dt_payload = [1], dt_flow = []\<rparr>])"
  using ladder_accepted [of "[\<lparr>dt_ts = 0, dt_payload = [1], dt_flow = []\<rparr>]"] by simp

theorem capture_roundtrip_witness:
  "\<exists>d e. readUDPPayloads (capture_file be_bytes True 1 [sample_row, sample_row\<lparr>rw_proto := 6\<rparr>, sample_answer]) 53 = Inr [d, e] \<and>
     dt_ts d = 1000002 \<and> dt_payload d = [7] \<and> dt_payload e = [8] \<and> dt_flow d = dt_flow e"
proof -
  let ?rows = "[sample_row, sample_row\<lparr>rw_proto := 6\<rparr>, sample_answer]"
  have "\<forall>r \<in> set ?rows. row_ok 1 r" by (simp add: row_ok_def sample_row_def sample_answer_def)
  from capture_roundtrip [OF _ _ this, of be_bytes True 53]
  have "readUDPPayloads (capture_file be_bytes True 1 ?rows) 53 =
      Inr [\<lparr>dt_ts = 1000002, dt_payload = [7], dt_flow = flow_name sample_row\<rparr>, \<lparr>dt_ts = 1000002, dt_payload = [8], dt_flow = flow_name sample_answer\<rparr>]"
    by (simp add: sample_row_def sample_answer_def)
  moreover have "flow_name sample_answer = flow_name sample_row"
    using flow_name_both_ways [of sample_row] by (simp add: sample_answer_def flow_name_def) (simp add: sample_row_def)
  ultimately show ?thesis by simp
qed

end
