(* ===== verification/Windows_App.thy ===== *)
theory Windows_App
  imports Takeover Client
begin

text \<open>
  The Windows application (\<open>apps/windows/app.go\<close>, \<open>core_bridge_transport.go\<close>): its configuration
  with the list of servers, connecting and disconnecting, and the watchdog that reconnects. The
  state joins the fields of \<open>ChimeraApp\<close> with the globals of the bridge to the core: the client,
  the packet bridge, the routes taken over. What the surroundings answer is the record \<open>world\<close>.
  The watchdog looks at the state and acts on it in two steps, as its lock is released between.
\<close>

section \<open>Configuration\<close>

record saved_server =
  sd_name :: string
  sd_addr :: string

record app_config =
  ac_seed :: string
  ac_generation :: nat
  ac_psk :: string
  ac_server :: string
  ac_transport :: string
  ac_split :: bool
  ac_hops :: int
  ac_spread :: int
  ac_geoip :: string
  ac_tun_ip :: string
  ac_servers :: "saved_server list"

definition update_name :: "string \<Rightarrow> string \<Rightarrow> saved_server \<Rightarrow> saved_server" where
  "update_name name addr s = (if name \<noteq> [] \<and> name \<noteq> addr then s\<lparr>sd_name := name\<rparr> else s)"

fun upsert :: "string \<Rightarrow> string \<Rightarrow> saved_server list \<Rightarrow> saved_server list" where
  "upsert name addr [] = [\<lparr>sd_name = name, sd_addr = addr\<rparr>]"
| "upsert name addr (s # ss) =
     (if equal_fold (sd_addr s) addr then update_name name addr s # ss else s # upsert name addr ss)"

definition upsertServer :: "saved_server list \<Rightarrow> string \<Rightarrow> string \<Rightarrow> saved_server list" where
  "upsertServer servers name0 addr0 =
     (let addr = trim_space addr0; name = trim_space name0 in
      if addr = [] then servers else upsert (if name = [] then addr else name) addr servers)"

definition validateHexField :: "string \<Rightarrow> error option" where
  "validateHexField v = (if v = [] then Some ErrConfig else if hex_decode v = None then Some ErrHex else None)"

text \<open>\<open>loadConfig\<close> after reading the file: its values, and which keys it has.\<close>

definition load_defaults :: "app_config \<Rightarrow> string set \<Rightarrow> app_config" where
  "load_defaults cfg keys =
     (let c1 = (if ''transport'' \<notin> keys \<or> ac_transport cfg = [] then cfg\<lparr>ac_transport := ''udp''\<rparr> else cfg);
          c2 = (if ''splitTunnel'' \<notin> keys then c1\<lparr>ac_split := True\<rparr> else c1);
          c3 = (if ''portHopCount'' \<notin> keys then c2\<lparr>ac_hops := 1\<rparr> else c2) in
      if 1 < ac_hops c3 \<and> ac_spread c3 \<le> 0 then c3\<lparr>ac_spread := 2048\<rparr> else c3)"

section \<open>State and surroundings\<close>

datatype app_status = Disconnected | Connecting | Connected | Failed

record 'os app =
  ap_cfg :: app_config
  ap_status :: app_status
  ap_last_err :: "error option"
  ap_quit :: bool
  ap_want :: bool
  ap_retryable :: bool
  ap_last_attempt :: "int option"
  ap_watchdog :: bool
  ap_client :: "client option"          \<comment> \<open>\<open>transportClient\<close>\<close>
  ap_bridge :: "string option"          \<comment> \<open>\<open>packetBridge\<close>, by the name of its adapter\<close>
  ap_routes :: "'os takeover"           \<comment> \<open>\<open>routeTakeover\<close> and the operating system\<close>
  ap_file :: "app_config option"        \<comment> \<open>the configuration file\<close>

text \<open>
  Whether writing the file succeeds; \<open>NewClient\<close> and \<open>Start\<close> of the core; closing a client,
  its address, its silence; creating the bridge; the networks of a geographic database.
\<close>

record 'os world =
  w_save :: "app_config \<Rightarrow> bool"
  w_core :: "core_config \<Rightarrow> client res"
  w_close :: "client \<Rightarrow> bool"
  w_assigned :: "client \<Rightarrow> string res"
  w_idle :: "client \<Rightarrow> int"
  w_bridge :: "string \<Rightarrow> string res"
  w_geo :: "string \<Rightarrow> (bytes \<times> string) list res"
  w_adapters :: "adapter list res"
  w_lookup :: "string \<Rightarrow> bytes list res"
  w_chn :: string
  w_netsh :: "'os netsh"

definition NewChimeraApp :: "app_config \<Rightarrow> 'os \<Rightarrow> 'os app" where
  "NewChimeraApp cfg os =
     \<lparr>ap_cfg = cfg, ap_status = Disconnected, ap_last_err = None, ap_quit = False, ap_want = False, ap_retryable = False,
      ap_last_attempt = None, ap_watchdog = False, ap_client = None, ap_bridge = None, ap_routes = ([], os), ap_file = None\<rparr>"

definition setError :: "error \<Rightarrow> 'os app \<Rightarrow> 'os app" where
  "setError e a = a\<lparr>ap_status := Failed, ap_last_err := Some e\<rparr>"

definition saveConfig :: "'os world \<Rightarrow> 'os app \<Rightarrow> error option \<times> 'os app" where
  "saveConfig W a = (if w_save W (ap_cfg a) then (None, a\<lparr>ap_file := Some (ap_cfg a)\<rparr>) else (Some ErrNet, a))"

definition loadConfig :: "(app_config \<times> string set) option res \<Rightarrow> 'os app \<Rightarrow> error option \<times> 'os app" where
  "loadConfig file a =
     (case file of
        Inl e \<Rightarrow> (Some e, a)
      | Inr None \<Rightarrow> (None, a)
      | Inr (Some (cfg, keys)) \<Rightarrow> (None, a\<lparr>ap_cfg := load_defaults cfg keys\<rparr>))"

section \<open>The bridge to the core\<close>

text \<open>The fields of \<open>core.Config\<close> that are set; the others are zero.\<close>

definition client_config :: "string \<Rightarrow> nat \<Rightarrow> string \<Rightarrow> string \<Rightarrow> string \<Rightarrow> int \<Rightarrow> int \<Rightarrow> core_config" where
  "client_config seed gen_no psk addr transport hops spread =
     \<lparr>c_seed = seed, c_generation = gen_no, c_psk = psk, c_addr = addr, c_transport = transport, c_mode = StreamProbeOther [],
      c_decoy_timeout = 0, c_decoy_pending = 0, c_decoy_every = 0, c_decoy_max = 0, c_hop_count = hops, c_hop_spread = spread,
      c_rotation = 0, c_transports = [], c_tls_cert = [], c_tls_key = [], c_tls_ca = [], c_tls_insecure = False, c_cidr = [],
      c_cipher = None, c_keepalive = 0, c_window = 2, c_idle = 0, c_rate = 0, c_max_sessions = 0, c_no_decoy = False, c_burst = 0,
      c_no_shape = False, c_shape = [], c_mark = [], c_jitter = second div 50, c_replay = []\<rparr>"

definition startTransport :: "'os world \<Rightarrow> app_config \<Rightarrow> 'os app \<Rightarrow> error option \<times> 'os app" where
  "startTransport W cfg a =
     (let spread = (if 1 < ac_hops cfg \<and> ac_spread cfg \<le> 0 then 2048 else ac_spread cfg) in
      case w_core W (client_config (ac_seed cfg) (ac_generation cfg) (ac_psk cfg) (ac_server cfg) (ac_transport cfg) (ac_hops cfg) spread) of
        Inl e \<Rightarrow> (Some e, a)
      | Inr c \<Rightarrow> (None, a\<lparr>ap_client := Some c\<rparr>))"

definition linkIdleFor :: "'os world \<Rightarrow> 'os app \<Rightarrow> int" where
  "linkIdleFor W a = (case ap_client a of None \<Rightarrow> 0 | Some c \<Rightarrow> w_idle W c)"

definition stopTransport :: "'os world \<Rightarrow> 'os app \<Rightarrow> error option \<times> 'os app" where
  "stopTransport W a =
     (case ap_client a of
        None \<Rightarrow> (None, a)
      | Some c \<Rightarrow> (if w_close W c then None else Some ErrNet, a\<lparr>ap_client := None\<rparr>))"

definition getAssignedIP :: "'os world \<Rightarrow> 'os app \<Rightarrow> string res" where
  "getAssignedIP W a = (case ap_client a of None \<Rightarrow> Inl ErrClosed | Some c \<Rightarrow> w_assigned W c)"

definition stopPacketBridge :: "'os world \<Rightarrow> 'os app \<Rightarrow> 'os app" where
  "stopPacketBridge W a =
     (case ap_bridge a of
        None \<Rightarrow> a
      | Some _ \<Rightarrow> a\<lparr>ap_routes := snd (takeover_Release (w_netsh W) (ap_routes a)), ap_bridge := None\<rparr>)"

definition geo_prefixes :: "'os world \<Rightarrow> app_config \<Rightarrow> string list" where
  "geo_prefixes W cfg =
     (if ac_geoip cfg = [] then []
      else case w_geo W (ac_geoip cfg) of
        Inl e \<Rightarrow> []
      | Inr ps \<Rightarrow> map snd (filter (\<lambda>(ip, _). to4 ip \<noteq> None) ps))"

definition startPacketBridge :: "'os world \<Rightarrow> string \<Rightarrow> app_config \<Rightarrow> 'os app \<Rightarrow> error option \<times> 'os app" where
  "startPacketBridge W ip cfg a =
     (case ap_client a of
        None \<Rightarrow> (Some ErrClosed, a)
      | Some c \<Rightarrow>
          (let a1 = stopPacketBridge W a in
           case w_bridge W ip of
             Inl e \<Rightarrow> (Some e, a1)
           | Inr name \<Rightarrow>
               (None, a1\<lparr>ap_bridge := Some name,
                  ap_routes := snd (takeover_Install (w_netsh W) (w_adapters W) (w_lookup W) (chnroutePrefixes (w_chn W)) name ip
                    (c_addr (cl_cfg c)) (ac_split cfg) (geo_prefixes W cfg) (ap_routes a1))\<rparr>)))"

section \<open>Connecting and disconnecting\<close>

definition rememberServer :: "string \<Rightarrow> string \<Rightarrow> 'os app \<Rightarrow> 'os app" where
  "rememberServer name addr a = a\<lparr>ap_cfg := (ap_cfg a)\<lparr>ac_servers := upsertServer (ac_servers (ap_cfg a)) name addr\<rparr>\<rparr>"

definition known_app_transport :: "string \<Rightarrow> bool" where
  "known_app_transport t \<longleftrightarrow> t \<in> {''udp'', ''tcp'', ''websocket'', ''wss''}"

text \<open>The checks of \<open>start\<close>, in its order.\<close>

definition start_error :: "string \<Rightarrow> string \<Rightarrow> string \<Rightarrow> string \<Rightarrow> int \<Rightarrow> int \<Rightarrow> error option" where
  "start_error seed psk addr transport hops spread =
     (if \<not> known_app_transport transport then Some ErrConfig
      else if hops < 0 \<or> 16 < hops then Some ErrConfig
      else if 1 < hops \<and> spread \<le> 0 then Some ErrConfig
      else case validateHexField seed of
        Some e \<Rightarrow> Some e
      | None \<Rightarrow>
          (case validateHexField psk of
             Some e \<Rightarrow> Some e
           | None \<Rightarrow> if addr = [] then Some ErrConfig else None))"

definition start_config :: "app_config \<Rightarrow> string \<Rightarrow> nat \<Rightarrow> string \<Rightarrow> string \<Rightarrow> string \<Rightarrow> bool \<Rightarrow> int \<Rightarrow> int \<Rightarrow> app_config" where
  "start_config prev seed gen_no psk addr transport split hops spread =
     \<lparr>ac_seed = seed, ac_generation = gen_no, ac_psk = psk, ac_server = addr, ac_transport = transport, ac_split = split,
      ac_hops = hops, ac_spread = spread, ac_geoip = [],
      ac_tun_ip = (if ac_tun_ip prev = [] then ''10.99.0.2'' else ac_tun_ip prev), ac_servers = ac_servers prev\<rparr>"

text \<open>From the saved configuration on: the old connection is stopped, the new one brought up.\<close>

definition bring_up :: "'os world \<Rightarrow> app_config \<Rightarrow> 'os app \<Rightarrow> error option \<times> 'os app" where
  "bring_up W cfg a =
     (case startTransport W cfg (snd (stopTransport W (stopPacketBridge W a))) of
        (Some e, a1) \<Rightarrow> (Some e, setError e a1)
      | (None, a1) \<Rightarrow>
          (let ip = (case getAssignedIP W a1 of Inl _ \<Rightarrow> ac_tun_ip cfg | Inr ip \<Rightarrow> ip) in
           case startPacketBridge W ip cfg a1 of
             (Some e, a2) \<Rightarrow> (Some e, setError e (snd (stopTransport W a2)))
           | (None, a2) \<Rightarrow>
               (let a3 = rememberServer (ac_server cfg) (ac_server cfg) (a2\<lparr>ap_status := Connected, ap_last_err := None\<rparr>) in
                (None, (snd (saveConfig W a3))\<lparr>ap_watchdog := True\<rparr>))))"

definition app_start ::
  "'os world \<Rightarrow> string \<Rightarrow> nat \<Rightarrow> string \<Rightarrow> string \<Rightarrow> string \<Rightarrow> bool \<Rightarrow> int \<Rightarrow> int \<Rightarrow> 'os app \<Rightarrow> error option \<times> 'os app" where
  "app_start W seed0 gen_no psk0 addr0 transport0 split hops spread a =
     (let seed = trim_space seed0; psk = trim_space psk0; addr = trim_space addr0;
          t0 = to_lower (trim_space transport0);
          t1 = (if t0 = [] then ac_transport (ap_cfg a) else t0);
          transport = (if t1 = [] then ''udp'' else t1) in
      case start_error seed psk addr transport hops spread of
        Some e \<Rightarrow> (Some e, setError e a)
      | None \<Rightarrow>
          (let cfg = start_config (ap_cfg a) seed gen_no psk addr transport split hops spread;
               a1 = a\<lparr>ap_cfg := cfg, ap_status := Connecting, ap_last_err := None, ap_want := True\<rparr> in
           case saveConfig W a1 of
             (Some e, a2) \<Rightarrow> (Some e, setError e a2)
           | (None, a2) \<Rightarrow> bring_up W cfg a2))"

definition app_Start :: "'os world \<Rightarrow> string \<Rightarrow> nat \<Rightarrow> string \<Rightarrow> string \<Rightarrow> 'os app \<Rightarrow> error option \<times> 'os app" where
  "app_Start W seed gen_no psk addr a =
     app_start W seed gen_no psk addr [] (ac_split (ap_cfg a)) (ac_hops (ap_cfg a)) (ac_spread (ap_cfg a)) a"

definition StartWithTransport :: "'os world \<Rightarrow> string \<Rightarrow> nat \<Rightarrow> string \<Rightarrow> string \<Rightarrow> string \<Rightarrow> 'os app \<Rightarrow> error option \<times> 'os app" where
  "StartWithTransport W seed gen_no psk addr transport a =
     app_start W seed gen_no psk addr transport (ac_split (ap_cfg a)) (ac_hops (ap_cfg a)) (ac_spread (ap_cfg a)) a"

definition StartAdvanced :: "'os world \<Rightarrow> string \<Rightarrow> nat \<Rightarrow> string \<Rightarrow> string \<Rightarrow> string \<Rightarrow> bool \<Rightarrow> 'os app \<Rightarrow> error option \<times> 'os app" where
  "StartAdvanced W seed gen_no psk addr transport split a =
     app_start W seed gen_no psk addr transport split (ac_hops (ap_cfg a)) (ac_spread (ap_cfg a)) a"

definition app_Stop :: "'os world \<Rightarrow> 'os app \<Rightarrow> error option \<times> 'os app" where
  "app_Stop W a =
     (case stopTransport W (stopPacketBridge W (a\<lparr>ap_want := False\<rparr>)) of
        (Some e, a1) \<Rightarrow> (Some e, setError e a1)
      | (None, a1) \<Rightarrow> (None, a1\<lparr>ap_status := Disconnected, ap_last_err := None\<rparr>))"

definition QuitApp :: "'os world \<Rightarrow> 'os app \<Rightarrow> 'os app" where
  "QuitApp W a = snd (app_Stop W (a\<lparr>ap_quit := True\<rparr>))"

text \<open>Whether closing the window is prevented; then it is hidden.\<close>

definition beforeClose :: "'os app \<Rightarrow> bool" where
  "beforeClose a \<longleftrightarrow> \<not> ap_quit a"

definition app_Status :: "'os app \<Rightarrow> app_status \<times> error option" where
  "app_Status a = (ap_status a, if ap_status a = Failed then ap_last_err a else None)"

definition RememberServer :: "'os world \<Rightarrow> string \<Rightarrow> string \<Rightarrow> 'os app \<Rightarrow> error option \<times> 'os app" where
  "RememberServer W name addr a = saveConfig W (rememberServer name addr a)"

definition ForgetServer :: "'os world \<Rightarrow> string \<Rightarrow> 'os app \<Rightarrow> error option \<times> 'os app" where
  "ForgetServer W addr a =
     saveConfig W (a\<lparr>ap_cfg := (ap_cfg a)\<lparr>ac_servers :=
       filter (\<lambda>s. \<not> equal_fold (sd_addr s) (trim_space addr)) (ac_servers (ap_cfg a))\<rparr>\<rparr>)"

section \<open>The watchdog\<close>

definition linkLostAfter :: int where
  "linkLostAfter = 90 * second"

text \<open>One tick: what it sees decides; then the reconnection, with the configuration it saw.\<close>

definition watchdog_due :: "'os world \<Rightarrow> int \<Rightarrow> 'os app \<Rightarrow> bool" where
  "watchdog_due W now a \<longleftrightarrow>
     ap_want a \<and>
     (if ap_status a = Connected then linkLostAfter \<le> linkIdleFor W a
      else ap_status a = Failed \<and> ap_retryable a \<and>
           \<not> (case ap_last_attempt a of None \<Rightarrow> False | Some t \<Rightarrow> now - t < 30 * second))"

definition watchdog_reconnect :: "'os world \<Rightarrow> int \<Rightarrow> app_config \<Rightarrow> 'os app \<Rightarrow> 'os app" where
  "watchdog_reconnect W now cfg a =
     (case app_Start W (ac_seed cfg) (ac_generation cfg) (ac_psk cfg) (ac_server cfg)
          (a\<lparr>ap_status := Connecting, ap_last_attempt := Some now\<rparr>) of
        (e, a1) \<Rightarrow> a1\<lparr>ap_retryable := (e \<noteq> None)\<rparr>)"

text \<open>
  Runs, with the decision the watchdog has taken but not acted on: everything that happens
  without the user asking to connect, and with it.
\<close>

inductive background_step :: "'os app \<times> app_config option \<Rightarrow> 'os app \<times> app_config option \<Rightarrow> bool" where
  step_stop: "background_step (a, p) (snd (app_Stop W a), p)"
| step_quit: "background_step (a, p) (QuitApp W a, p)"
| step_remember: "background_step (a, p) (snd (RememberServer W name addr a), p)"
| step_forget: "background_step (a, p) (snd (ForgetServer W addr a), p)"
| step_tick: "ap_watchdog a \<Longrightarrow> watchdog_due W now a \<Longrightarrow> background_step (a, None) (a, Some (ap_cfg a))"
| step_reconnect: "background_step (a, Some cfg) (watchdog_reconnect W now cfg a, None)"

inductive app_step :: "'os app \<times> app_config option \<Rightarrow> 'os app \<times> app_config option \<Rightarrow> bool" where
  step_start: "app_step (a, p) (snd (app_start W seed gen_no psk addr transport split hops spread a), p)"
| step_background: "background_step s s' \<Longrightarrow> app_step s s'"

inductive_cases background_stepE: "background_step s s'"
inductive_cases app_stepE: "app_step s s'"

end
