(* ===== verification/Takeover_Safety.thy ===== *)
theory Takeover_Safety
  imports Takeover
begin

text \<open>
  The route takeover against its contract: the routes it plans, computed without touching the
  system (\<open>takeover_plan\<close>), and the routing decision of a table by longest prefix.
\<close>

section \<open>What netsh is relied on for\<close>

text \<open>
  \<open>tab\<close> reads the table of routes. An added route is new, a route that exists is in the table,
  a refusal changes nothing; a deletion that succeeds removes the route; a batch that is accepted
  adds its routes, one that is not may have added some.
\<close>

definition netsh_ok :: "'os netsh \<Rightarrow> ('os \<Rightarrow> route_spec set) \<Rightarrow> bool" where
  "netsh_ok N tab \<longleftrightarrow>
     (\<forall>s os. case sh_add N s os of
        (Added, os') \<Rightarrow> tab os' = insert s (tab os)
      | (Exists, os') \<Rightarrow> s \<in> tab os \<and> tab os' = tab os
      | (Refused, os') \<Rightarrow> tab os' = tab os) \<and>
     (\<forall>s os. tab (snd (sh_delete N s os)) = (if fst (sh_delete N s os) then tab os - {s} else tab os)) \<and>
     (\<forall>ss os. tab os \<subseteq> tab (snd (sh_batch N ss os)) \<and> tab (snd (sh_batch N ss os)) \<subseteq> tab os \<union> set ss \<and>
        (fst (sh_batch N ss os) \<longrightarrow> tab (snd (sh_batch N ss os)) = tab os \<union> set ss))"

text \<open>Deletions and batches are accepted.\<close>

definition willing :: "'os netsh \<Rightarrow> bool" where
  "willing N \<longleftrightarrow> (\<forall>s os. fst (sh_delete N s os)) \<and> (\<forall>ss os. fst (sh_batch N ss os))"

section \<open>The plan\<close>

definition split_plan :: "adapter \<Rightarrow> nat \<Rightarrow> string \<Rightarrow> string \<Rightarrow> string list \<Rightarrow> string list \<Rightarrow> route_spec list" where
  "split_plan phys tunIdx gateway sub geo chn =
     \<lparr>rs_prefix = sub, rs_if = tunIdx, rs_nexthop = gateway\<rparr> # map (phys_route phys) (privateBypassRoutes @ (if geo = [] then chn else geo))"

definition takeover_plan ::
  "adapter list res \<Rightarrow> (string \<Rightarrow> bytes list res) \<Rightarrow> string list \<Rightarrow> string \<Rightarrow> string \<Rightarrow> string \<Rightarrow> bool \<Rightarrow> string list \<Rightarrow> route_spec list res" where
  "takeover_plan enum lookup chn tunName tunIP serverAddr bypassPrivate geo =
     res_bind (tunGateway tunIP) (\<lambda>gateway.
     res_bind enum (\<lambda>adapters.
     res_bind (of_option ErrNet (find (\<lambda>a. equal_fold (ad_name a) tunName) adapters)) (\<lambda>tun.
     res_bind (if serverAddr = [] then Inr None
               else res_bind (resolveServerIPv4 lookup (hostFromAddr serverAddr)) (\<lambda>ip. Inr (Some ip))) (\<lambda>serverIP.
     res_bind (if serverIP = None \<and> \<not> bypassPrivate then Inr None
               else res_bind (choosePhysicalAdapter adapters serverIP tunName) (\<lambda>p. Inr (Some p))) (\<lambda>phys.
     res_bind (tunSubnetPrefix tunIP) (\<lambda>sub.
       Inr ((case serverIP of None \<Rightarrow> [] | Some ip \<Rightarrow> [phys_route (the phys) (quad_string ip @ ''/32'')]) @
            (if bypassPrivate then split_plan (the phys) (ad_index tun) gateway sub geo chn else []) @
            map (\<lambda>h. \<lparr>rs_prefix = h, rs_if = ad_index tun, rs_nexthop = gateway\<rparr>) [''0.0.0.0/1'', ''128.0.0.0/1''])))))))"

lemma subnet_gateway: "tunGateway ip = Inr g \<Longrightarrow> \<exists>sub. tunSubnetPrefix ip = Inr sub"
  by (auto simp: tunGateway_def tunSubnetPrefix_def split: option.splits)

section \<open>Adding and taking back\<close>

lemma added:
  assumes "netsh_ok N tab" "sh_add N s os = (r, os')" "r \<noteq> Refused"
  shows "tab os' = insert s (tab os)"
proof -
  from conjunct1 [OF assms(1) [unfolded netsh_ok_def], rule_format, of s os] assms(2,3) show ?thesis by (cases r) auto
qed

lemma unchanged:
  assumes "netsh_ok N tab" "sh_add N s os = (r, os')" "r \<noteq> Added"
  shows "tab os' = tab os"
proof -
  from conjunct1 [OF assms(1) [unfolded netsh_ok_def], rule_format, of s os] assms(2,3) show ?thesis by (cases r) auto
qed

lemma deleted:
  assumes "netsh_ok N tab" "willing N"
  shows "tab (snd (sh_delete N s os)) = tab os - {s}"
  using assms by (simp add: netsh_ok_def willing_def)

lemma rollback_tab:
  assumes "netsh_ok N tab" "willing N"
  shows "tab (snd (rollback N (specs, os))) = tab os - set specs"
proof -
  have "tab (fold (\<lambda>s os. snd (sh_delete N s os)) specs os) = tab os - set specs"
    by (induction specs arbitrary: os) (auto simp: deleted [OF assms])
  then show ?thesis by (simp add: rollback_def)
qed

lemma Release_tab:
  assumes "netsh_ok N tab" "willing N"
  shows "\<exists>os'. takeover_Release N (specs, os) = (True, ([], os')) \<and> tab os' = tab os - set specs"
proof -
  have "\<exists>os'. fold (\<lambda>s (ok, os). case sh_delete N s os of (r, os1) \<Rightarrow> (ok \<and> r, os1)) specs (True, os) = (True, os') \<and>
      tab os' = tab os - set specs"
  proof (induction specs arbitrary: os)
    case (Cons s specs)
    have "fst (sh_delete N s os)" using assms(2) by (simp add: willing_def)
    moreover obtain r os1 where del: "sh_delete N s os = (r, os1)" by force
    moreover have "tab os1 = tab os - {s}" using deleted [OF assms, of s os] del by simp
    ultimately show ?case using Cons.IH [of os1] by auto
  qed simp
  then show ?thesis by (auto simp: takeover_Release_def)
qed

text \<open>The table is what it was at first and what has been recorded since.\<close>

definition tracked :: "('os \<Rightarrow> route_spec set) \<Rightarrow> route_spec set \<Rightarrow> 'os takeover \<Rightarrow> bool" where
  "tracked tab T t \<longleftrightarrow> tab (snd t) = T \<union> set (fst t) \<and> T \<inter> set (fst t) = {}"

definition outcome :: "('os \<Rightarrow> route_spec set) \<Rightarrow> route_spec set \<Rightarrow> 'os takeover \<Rightarrow> route_spec list \<Rightarrow> error option \<times> 'os takeover \<Rightarrow> bool" where
  "outcome tab T t ss x \<longleftrightarrow>
     (if fst x = None then fst (snd x) = fst t @ ss \<and> tracked tab T (snd x) else fst (snd x) = [] \<and> tab (snd (snd x)) = T)"

lemma tracked_rollback:
  assumes "netsh_ok N tab" "willing N" "tracked tab T t"
  shows "fst (rollback N t) = [] \<and> tab (snd (rollback N t)) = T"
  using assms(3) rollback_tab [OF assms(1,2), of "fst t" "snd t"] by (auto simp: rollback_def tracked_def)

text \<open>A list of routes is added whole, or everything recorded so far is taken back.\<close>

lemma add_routes_tracked:
  assumes "netsh_ok N tab" "willing N" "ok Added" "\<not> ok Refused" "tracked tab T t" "T \<inter> set ss = {}"
  shows "outcome tab T t ss (add_routes N ok ss t)"
  using assms(5,6)
proof (induction ss arbitrary: t)
  case (Cons s ss)
  obtain r os where add: "sh_add N s (snd t) = (r, os)" by force
  show ?case
  proof (cases "ok r")
    case True
    with added [OF assms(1) add] assms(4) have "tab os = insert s (tab (snd t))" by blast
    with Cons.prems have "tracked tab T (fst t @ [s], os)" by (auto simp: tracked_def)
    from Cons.IH [OF this] Cons.prems(2) True show ?thesis by (simp add: add outcome_def)
  next
    case False
    with assms(3) have "r \<noteq> Added" by blast
    with unchanged [OF assms(1) add] have "tab os = tab (snd t)" by blast
    with Cons.prems(1) have "tracked tab T (fst t, os)" by (simp add: tracked_def)
    from tracked_rollback [OF assms(1,2) this] False show ?thesis by (simp add: add outcome_def)
  qed
qed (simp add: outcome_def)

lemma batch_tracked:
  assumes "netsh_ok N tab" "willing N" "tracked tab T t" "T \<inter> set ss = {}"
  shows "fst (runNetshBatch N ss (snd t)) \<and> tracked tab T (fst t @ ss, snd (runNetshBatch N ss (snd t)))"
proof -
  have "fst (sh_batch N ss (snd t))" using assms(2) by (simp add: willing_def)
  moreover have "tab (snd (sh_batch N ss (snd t))) = tab (snd t) \<union> set ss"
    using assms(1) calculation unfolding netsh_ok_def by blast
  ultimately show ?thesis using assms(3,4) by (auto simp: runNetshBatch_def tracked_def)
qed

lemma install_split_tracked:
  assumes "netsh_ok N tab" "willing N" "tracked tab T t" "tunSubnetPrefix tunIP = Inr sub"
    "(case phys0 of Some p \<Rightarrow> Inr p | None \<Rightarrow> choosePhysicalAdapter adapters None tunName) = Inr phys"
    "T \<inter> set (split_plan phys tunIdx gateway sub geo chn) = {}"
  shows "outcome tab T t (split_plan phys tunIdx gateway sub geo chn) (install_split N adapters tunName tunIdx tunIP gateway geo chn phys0 t)"
proof -
  let ?first = "\<lparr>rs_prefix = sub, rs_if = tunIdx, rs_nexthop = gateway\<rparr> # map (phys_route phys) privateBypassRoutes"
  let ?geo = "map (phys_route phys) (if geo = [] then chn else geo)"
  have plan: "split_plan phys tunIdx gateway sub geo chn = ?first @ ?geo" by (simp add: split_plan_def)
  have T: "T \<inter> set ?first = {}" "T \<inter> set ?geo = {}" using assms(6) unfolding plan set_append by blast+
  obtain e t1 where first: "add_routes N isRouteExistsErr ?first t = (e, t1)" by (rule prod.exhaust)
  have A: "outcome tab T t ?first (e, t1)"
    using add_routes_tracked [OF assms(1,2) _ _ assms(3) T(1), of isRouteExistsErr] unfolding first by (simp add: isRouteExistsErr_def)
  have I: "install_split N adapters tunName tunIdx tunIP gateway geo chn phys0 t =
      (case e of Some e \<Rightarrow> (Some e, t1)
       | None \<Rightarrow> (None, if fst (runNetshBatch N ?geo (snd t1)) then (fst t1 @ ?geo, snd (runNetshBatch N ?geo (snd t1)))
                      else (fst t1, snd (runNetshBatch N ?geo (snd t1)))))"
    unfolding install_split_def assms(4,5) sum.case first Let_def by (simp split: option.splits prod.splits)
  show ?thesis
  proof (cases e)
    case None
    with A have t1: "fst t1 = fst t @ ?first" "tracked tab T t1" by (simp_all add: outcome_def)
    from batch_tracked [OF assms(1,2) t1(2) T(2)] have "fst (runNetshBatch N ?geo (snd t1))"
      "tracked tab T (fst t1 @ ?geo, snd (runNetshBatch N ?geo (snd t1)))" by blast+
    with None I t1(1) show ?thesis by (simp add: plan outcome_def)
  next
    case (Some x)
    with A I show ?thesis by (simp add: outcome_def)
  qed
qed

section \<open>The contract\<close>

text \<open>Stages one after the other.\<close>

lemma outcome_then:
  assumes "outcome tab T t ss x" "\<And>t1. tracked tab T t1 \<Longrightarrow> outcome tab T t1 ss' (f t1)"
  shows "outcome tab T t (ss @ ss') (case x of (Some e, t1) \<Rightarrow> (Some e, t1) | (None, t1) \<Rightarrow> f t1)"
proof (cases x)
  case (fields e t1)
  with assms show ?thesis by (cases e) (force simp: outcome_def)+
qed

lemma add_server_route:
  assumes "netsh_ok N tab" "willing N" "tracked tab T t"
    "T \<inter> set (case serverIP of None \<Rightarrow> [] | Some ip \<Rightarrow> [phys_route (the phys) (quad_string ip @ ''/32'')]) = {}"
    "serverIP \<noteq> None \<longrightarrow> phys \<noteq> None"
  shows "outcome tab T t (case serverIP of None \<Rightarrow> [] | Some ip \<Rightarrow> [phys_route (the phys) (quad_string ip @ ''/32'')])
    (add_routes N isRouteExistsErr
      (case (serverIP, phys) of (Some ip, Some p) \<Rightarrow> [phys_route p (quad_string ip @ ''/32'')] | _ \<Rightarrow> []) t)"
proof -
  have "(case (serverIP, phys) of (Some ip, Some p) \<Rightarrow> [phys_route p (quad_string ip @ ''/32'')] | _ \<Rightarrow> []) =
      (case serverIP of None \<Rightarrow> [] | Some ip \<Rightarrow> [phys_route (the phys) (quad_string ip @ ''/32'')])"
    using assms(5) by (auto split: option.splits)
  with add_routes_tracked [OF assms(1,2) _ _ assms(3,4), of isRouteExistsErr] show ?thesis by (simp add: isRouteExistsErr_def)
qed

lemma Install_no_plan:
  assumes plan: "takeover_plan enum lookup chn tunName tunIP serverAddr split geo = Inl e"
    and run: "run = takeover_Install N enum lookup chn tunName tunIP serverAddr split geo ([], os)"
  shows "run = (Some e, ([], os))"
proof -
  have none: "rollback N ([], os) = ([], os)" by (simp add: rollback_def)
  let ?find = "\<lambda>adapters. find (\<lambda>a. equal_fold (ad_name a) tunName) adapters"
  let ?srv = "if serverAddr = [] then Inr None
    else res_bind (resolveServerIPv4 lookup (hostFromAddr serverAddr)) (\<lambda>ip. Inr (Some ip))"
  note defs = takeover_plan_def takeover_Install_def run
  show ?thesis
  proof (cases "tunGateway tunIP")
    case (Inr gateway)
    note gw = this
    from subnet_gateway [OF gw] obtain sub where sub: "tunSubnetPrefix tunIP = Inr sub" by blast
    show ?thesis
    proof (cases enum)
      case (Inr adapters)
      note en = this
      show ?thesis
      proof (cases "?find adapters")
        case (Some tun)
        note tun = this
        show ?thesis
        proof (cases ?srv)
          case (Inr serverIP)
          note gone = plan [unfolded takeover_plan_def gw en tun of_option_simps res_bind_simps Inr sub Let_def]
          show ?thesis
          proof (cases serverIP)
            case None
            with gone have "split" "choosePhysicalAdapter adapters None tunName = Inl e"
              by (auto split: if_splits) (cases "choosePhysicalAdapter adapters None tunName"; simp)
            then show ?thesis unfolding run takeover_Install_def gw en tun Inr sum.case option.case None
              by (simp add: install_split_def none)
          next
            case (Some ip)
            with gone have "choosePhysicalAdapter adapters (Some ip) tunName = Inl e"
              by (cases "choosePhysicalAdapter adapters (Some ip) tunName"; simp)
            then show ?thesis unfolding run takeover_Install_def gw en tun Inr sum.case option.case Some by simp
          qed
        qed (use plan in \<open>simp add: defs gw en tun\<close>)
      qed (use plan in \<open>simp add: defs gw en\<close>)
    qed (use plan in \<open>simp add: defs gw\<close>)
  qed (use plan in \<open>simp add: defs\<close>)
qed

lemma Install_outcome:
  assumes "netsh_ok N tab" "willing N"
    and run: "run = takeover_Install N enum lookup chn tunName tunIP serverAddr split geo ([], os)"
  shows "case takeover_plan enum lookup chn tunName tunIP serverAddr split geo of
      Inl e \<Rightarrow> run = (Some e, ([], os))
    | Inr ps \<Rightarrow> tab os \<inter> set ps = {} \<longrightarrow>
        (if fst run = None
         then fst (snd run) = ps \<and> tab (snd (snd run)) = tab os \<union> set ps \<and>
              (\<exists>os'. takeover_Release N (snd run) = (True, ([], os')) \<and> tab os' = tab os)
         else fst (snd run) = [] \<and> tab (snd (snd run)) = tab os)"
proof (cases "takeover_plan enum lookup chn tunName tunIP serverAddr split geo")
  case (Inl e)
  from Install_no_plan [OF Inl run] have "run = (Some e, ([], os))" .
  with Inl show ?thesis by simp
next
  case (Inr ps)
  then obtain gateway adapters tun serverIP phys sub where
    gw: "tunGateway tunIP = Inr gateway" and en: "enum = Inr adapters" and
    tun: "find (\<lambda>a. equal_fold (ad_name a) tunName) adapters = Some tun" and
    srv: "(if serverAddr = [] then Inr None
           else res_bind (resolveServerIPv4 lookup (hostFromAddr serverAddr)) (\<lambda>ip. Inr (Some ip))) = Inr serverIP" and
    ph: "(if serverIP = None \<and> \<not> split then Inr None
          else res_bind (choosePhysicalAdapter adapters serverIP tunName) (\<lambda>p. Inr (Some p))) = Inr phys" and
    sub: "tunSubnetPrefix tunIP = Inr sub"
    unfolding takeover_plan_def Let_def by (elim res_bind_InrE) (simp only: of_option_Inr_iff)
  let ?srv = "case serverIP of None \<Rightarrow> [] | Some ip \<Rightarrow> [phys_route (the phys) (quad_string ip @ ''/32'')]"
  let ?split = "if split then split_plan (the phys) (ad_index tun) gateway sub geo chn else []"
  let ?halves = "map (\<lambda>h. \<lparr>rs_prefix = h, rs_if = ad_index tun, rs_nexthop = gateway\<rparr>) [''0.0.0.0/1'', ''128.0.0.0/1'']"
  have ps: "ps = ?srv @ ?split @ ?halves"
    using Inr unfolding takeover_plan_def gw en tun of_option_simps res_bind_simps srv ph sub Let_def by simp
  show ?thesis
  proof (simp only: Inr sum.case, intro impI)
    assume fresh: "tab os \<inter> set ps = {}"
    define p1 where "p1 = (if serverIP = None then None else phys)"
    have p1: "(case serverIP of None \<Rightarrow> Inr None
            | Some ip \<Rightarrow> res_bind (choosePhysicalAdapter adapters (Some ip) tunName) (\<lambda>p. Inr (Some p))) = Inr p1"
      using ph by (cases serverIP) (auto simp: p1_def)
    have start: "tracked tab (tab os) ([], os)" by (simp add: tracked_def)
    have T: "tab os \<inter> set ?srv = {}" "tab os \<inter> set ?split = {}" "tab os \<inter> set ?halves = {}"
      using fresh by (simp_all only: ps set_append Int_Un_distrib Un_empty)
    have "serverIP \<noteq> None \<longrightarrow> p1 \<noteq> None" "serverIP \<noteq> None \<longrightarrow> the p1 = the phys" using ph by (auto simp: p1_def)
    then have srv': "outcome tab (tab os) ([], os) ?srv (add_routes N isRouteExistsErr
        (case (serverIP, p1) of (Some ip, Some p) \<Rightarrow> [phys_route p (quad_string ip @ ''/32'')] | _ \<Rightarrow> []) ([], os))"
      using add_server_route [OF assms(1,2) start, where serverIP = serverIP and phys = p1] T(1) by (auto split: option.splits)
    have phys: "(case p1 of Some p \<Rightarrow> Inr p | None \<Rightarrow> choosePhysicalAdapter adapters None tunName) = Inr (the phys)" if split
      using ph that by (cases serverIP) (auto simp: p1_def)
    have split': "outcome tab (tab os) t1 ?split
        (if split then install_split N adapters tunName (ad_index tun) tunIP gateway geo chn p1 t1 else (None, t1))"
      if "tracked tab (tab os) t1" for t1
      using install_split_tracked [OF assms(1,2) that sub phys] T(2) that by (cases split) (simp_all add: outcome_def [of _ _ t1 "[]"])
    have halves': "outcome tab (tab os) t2 ?halves (add_routes N (\<lambda>r. r = Added) ?halves t2)" if "tracked tab (tab os) t2" for t2
      by (rule add_routes_tracked [OF assms(1,2) _ _ that T(3)]) simp_all
    have all: "outcome tab (tab os) ([], os) ps run"
      unfolding run takeover_Install_def fst_conv gw en tun sum.case option.case srv p1 ps
      unfolding simp_thms if_False by (rule outcome_then [OF srv' outcome_then [OF split' halves']])
    show "if fst run = None
         then fst (snd run) = ps \<and> tab (snd (snd run)) = tab os \<union> set ps \<and>
              (\<exists>os'. takeover_Release N (snd run) = (True, ([], os')) \<and> tab os' = tab os)
         else fst (snd run) = [] \<and> tab (snd (snd run)) = tab os"
      using all Release_tab [OF assms(1,2), of "fst (snd run)" "snd (snd run)"] unfolding outcome_def tracked_def fst_conv append_Nil prod.collapse
      by (cases "fst run = None") auto
  qed
qed

section \<open>Where packets go\<close>

definition cidr_of :: "string \<Rightarrow> (bytes \<times> nat) option" where
  "cidr_of p = (case ParseCIDR p of Some (net, n, bits) \<Rightarrow> if bits = 32 then Some (drop 12 net, n) else None | None \<Rightarrow> None)"

definition cidr_covers :: "string \<Rightarrow> bytes \<Rightarrow> bool" where
  "cidr_covers p ip = (case cidr_of p of None \<Rightarrow> False | Some n \<Rightarrow> ipnet_contains n ip)"

definition prefix_len :: "string \<Rightarrow> nat" where
  "prefix_len p = (case cidr_of p of None \<Rightarrow> 0 | Some (_, n) \<Rightarrow> n)"

text \<open>A route of the table that covers the address, and none that covers it is more specific.\<close>

definition egress :: "route_spec set \<Rightarrow> bytes \<Rightarrow> route_spec \<Rightarrow> bool" where
  "egress T ip r \<longleftrightarrow> r \<in> T \<and> cidr_covers (rs_prefix r) ip \<and>
     (\<forall>r' \<in> T. cidr_covers (rs_prefix r') ip \<longrightarrow> prefix_len (rs_prefix r') \<le> prefix_len (rs_prefix r))"

lemma slash_cut: "CHR ''/'' \<notin> set (quad_string b)"
proof -
  have "CHR ''/'' \<notin> set (dec_string n)" for n using dec_string_ok [of n] by (auto simp: list_all_iff is_digit_def)
  then show ?thesis by (simp add: quad_string_def)
qed

lemma cidr_quad:
  assumes "length b = 4" "list_all is_digit m" "m \<noteq> []" "digits_val m \<le> 32"
  shows "cidr_of (quad_string b @ CHR ''/'' # m) = Some (b, digits_val m)"
proof -
  have "parse_addr (quad_string b) = map_option V4 (parse_v4 (quad_string b))"
    unfolding parse_addr_def by (subst (2) quad_string_def) (simp add: parse_addr_at_digits dec_string_ok)
  with assms have "ParseCIDR (quad_string b @ CHR ''/'' # m) = Some (as16 (V4 b), digits_val m, 32)"
    by (simp add: ParseCIDR_def slash_cut bit_len_def)
  then show ?thesis by (simp add: cidr_of_def as16_def)
qed

lemma cidr_32: "length b = 4 \<Longrightarrow> cidr_of (quad_string b @ ''/32'') = Some (b, 32)"
proof -
  assume "length b = 4"
  from cidr_quad [OF this, of "''32''"] show ?thesis by (simp add: is_digit_def digits_val_def digit_val_def)
qed

lemma cidr_24: "length b = 4 \<Longrightarrow> cidr_of (quad_string b @ ''/24'') = Some (b, 24)"
proof -
  assume "length b = 4"
  from cidr_quad [OF this, of "''24''"] show ?thesis by (simp add: is_digit_def digits_val_def digit_val_def)
qed

lemma contains_32: "length b = 4 \<Longrightarrow> length ip = 4 \<Longrightarrow> ipnet_contains (b, 32) ip \<longleftrightarrow> ip = b"
proof -
  assume "length b = 4" "length ip = 4"
  then obtain w x y z w' x' y' z' where "b = [w, x, y, z]" "ip = [w', x', y', z']" using length4D by metis
  then show ?thesis by (auto simp: ipnet_contains_def cidr_mask_def upt_rec mask_byte_def and_byte)
qed

lemma contains_24: "length b = 4 \<Longrightarrow> length ip = 4 \<Longrightarrow> ipnet_contains (mask24 b, 24) ip \<longleftrightarrow> take 3 ip = take 3 b"
proof -
  assume "length b = 4" "length ip = 4"
  then obtain w x y z w' x' y' z' where "b = [w, x, y, z]" "ip = [w', x', y', z']" using length4D by metis
  then show ?thesis by (auto simp: ipnet_contains_def mask24_def cidr_mask_24 and_byte)
qed

lemma top_bit: "(x :: byte) AND 0x80 = 0 \<or> x AND 0x80 = 0x80"
proof -
  have "x AND 2 ^ n = (if bit x n then 2 ^ n else 0)" for n by (rule bit_eqI) (auto simp: bit_and_iff bit_exp_iff)
  from this [of 7] show ?thesis by (simp split: if_splits)
qed

lemma half_routes:
  assumes "length ip = 4"
  shows "cidr_covers ''0.0.0.0/1'' ip \<or> cidr_covers ''128.0.0.0/1'' ip"
    "prefix_len ''0.0.0.0/1'' = 1" "prefix_len ''128.0.0.0/1'' = 1"
proof -
  have c: "cidr_of ''0.0.0.0/1'' = Some ([0, 0, 0, 0], 1)" "cidr_of ''128.0.0.0/1'' = Some ([128, 0, 0, 0], 1)" by code_simp+
  obtain w x y z where "ip = [w, x, y, z]" using length4D [OF assms] by blast
  moreover have "cidr_mask 1 32 = [0x80, 0, 0, 0]" by (simp add: cidr_mask_def upt_rec mask_byte_def)
  ultimately show "cidr_covers ''0.0.0.0/1'' ip \<or> cidr_covers ''128.0.0.0/1'' ip"
    using top_bit [of w] by (auto simp: cidr_covers_def c ipnet_contains_def)
  show "prefix_len ''0.0.0.0/1'' = 1" "prefix_len ''128.0.0.0/1'' = 1" by (simp_all add: prefix_len_def c)
qed

lemma private_routes:
  assumes "p \<in> set privateBypassRoutes"
  shows "2 \<le> prefix_len p \<and> prefix_len p \<le> 24" "cidr_covers p (10 # ip) \<Longrightarrow> prefix_len p < 24"
proof -
  have chk: "\<forall>p \<in> set privateBypassRoutes. case cidr_of p of None \<Rightarrow> False
      | Some (net, n) \<Rightarrow> 2 \<le> n \<and> n \<le> 24 \<and> (n < 24 \<or> net \<noteq> [] \<and> hd net \<noteq> 10)" by code_simp
  from bspec [OF chk assms] obtain net n where n: "cidr_of p = Some (net, n)" "2 \<le> n" "n \<le> 24" "n < 24 \<or> net \<noteq> [] \<and> hd net \<noteq> 10"
    by (auto split: option.splits)
  then show "2 \<le> prefix_len p \<and> prefix_len p \<le> 24" by (simp add: prefix_len_def)
  assume c: "cidr_covers p (10 # ip)"
  have "n < 24"
  proof (rule ccontr)
    assume "\<not> n < 24"
    with n obtain a as where "n = 24" "net = a # as" "a \<noteq> 10" by (cases net) auto
    with c n(1) show False by (simp add: cidr_covers_def ipnet_contains_def cidr_mask_24 and_byte)
  qed
  then show "prefix_len p < 24" by (simp add: prefix_len_def n(1))
qed

lemma most_specific:
  assumes "finite P" "r0 \<in> base \<union> P" "cidr_covers (rs_prefix r0) ip" "\<forall>r \<in> base. cidr_covers (rs_prefix r) ip \<longrightarrow> prefix_len (rs_prefix r) = 0"
    "0 < prefix_len (rs_prefix r0)"
  shows "\<exists>r. egress (base \<union> P) ip r"
proof -
  define S where "S = {r \<in> P. cidr_covers (rs_prefix r) ip}"
  have "r0 \<in> S" using assms(2-5) by (auto simp: S_def)
  moreover have "finite S" using assms(1) by (simp add: S_def)
  ultimately have fin: "finite ((\<lambda>r. prefix_len (rs_prefix r)) ` S)" "(\<lambda>r. prefix_len (rs_prefix r)) ` S \<noteq> {}" by auto
  from Max_in [OF this] Max_ge [OF fin(1)] obtain r where
    r: "r \<in> S" "\<forall>x \<in> S. prefix_len (rs_prefix x) \<le> prefix_len (rs_prefix r)" by fastforce
  with assms(4) have "egress (base \<union> P) ip r" by (auto simp: egress_def S_def)
  then show ?thesis ..
qed

text \<open>The route with the longest prefix decides, when the more specific ones agree with it.\<close>

lemma egress_if:
  assumes "egress T ip r" "r0 \<in> T" "cidr_covers (rs_prefix r0) ip"
    "\<And>x. x \<in> T \<Longrightarrow> cidr_covers (rs_prefix x) ip \<Longrightarrow> prefix_len (rs_prefix r0) \<le> prefix_len (rs_prefix x) \<Longrightarrow> rs_if x = i"
  shows "rs_if r = i"
  using assms by (auto simp: egress_def)

text \<open>What a run that succeeds has added, whether or not the batch of listed networks was accepted.\<close>

lemma add_routes_all:
  assumes "netsh_ok N tab" "\<not> ok Refused" "add_routes N ok ss t = (None, t')"
  shows "fst t' = fst t @ ss \<and> tab (snd t') = tab (snd t) \<union> set ss"
  using assms(3)
proof (induction ss arbitrary: t)
  case (Cons s ss)
  obtain r os where add: "sh_add N s (snd t) = (r, os)" by force
  with Cons.prems have r: "ok r" "add_routes N ok ss (fst t @ [s], os) = (None, t')" by (auto split: if_splits)
  with assms(2) have "r \<noteq> Refused" by blast
  from added [OF assms(1) add this] Cons.IH [OF r(2)] show ?case by auto
qed simp

lemma batch_adds:
  assumes "netsh_ok N tab"
  shows "tab os \<subseteq> tab (snd (runNetshBatch N ss os)) \<and> tab (snd (runNetshBatch N ss os)) \<subseteq> tab os \<union> set ss \<and>
    (fst (runNetshBatch N ss os) \<longrightarrow> tab (snd (runNetshBatch N ss os)) = tab os \<union> set ss)"
  using conjunct2 [OF conjunct2 [OF assms [unfolded netsh_ok_def]], rule_format, of os ss] by (auto simp: runNetshBatch_def)

lemma install_split_adds:
  assumes "netsh_ok N tab" "tunSubnetPrefix tunIP = Inr sub"
    and run: "install_split N adapters tunName tunIdx tunIP gateway geo chn (Some phys) t = (None, t')"
  defines "first \<equiv> \<lparr>rs_prefix = sub, rs_if = tunIdx, rs_nexthop = gateway\<rparr> # map (phys_route phys) privateBypassRoutes"
    and "listed \<equiv> map (phys_route phys) (if geo = [] then chn else geo)"
  shows "\<exists>b. (fst t' = fst t @ first @ (if b then listed else [])) \<and> tab (snd t) \<union> set first \<subseteq> tab (snd t') \<and>
    tab (snd t') \<subseteq> tab (snd t) \<union> set first \<union> set listed \<and> (b \<longrightarrow> tab (snd t') = tab (snd t) \<union> set first \<union> set listed) \<and>
    ((\<forall>ss o'. fst (sh_batch N ss o')) \<longrightarrow> b)"
proof -
  obtain e t1 where first: "add_routes N isRouteExistsErr first t = (e, t1)" by (rule prod.exhaust)
  define B where "B = runNetshBatch N listed (snd t1)"
  from run have e: "e = None" and t': "t' = (if fst B then fst t1 @ listed else fst t1, snd B)"
    unfolding install_split_def option.case sum.case assms(2) first [unfolded first_def] B_def listed_def Let_def
    by (auto split: option.splits prod.splits)
  from add_routes_all [OF assms(1) _ first [unfolded e]]
  have t1: "fst t1 = fst t @ first" "tab (snd t1) = tab (snd t) \<union> set first" by (simp_all add: isRouteExistsErr_def)
  have b: "(\<forall>ss o'. fst (sh_batch N ss o')) \<longrightarrow> fst B" by (simp add: B_def runNetshBatch_def)
  from batch_adds [OF assms(1), of "snd t1" listed] show ?thesis
    unfolding B_def [symmetric] t1(2) by (intro exI [of _ "fst B"]) (use b in \<open>simp add: t' t1(1)\<close>)
qed

lemma split_install_adds:
  assumes "netsh_ok N tab" "tunGateway tunIP = Inr gateway" "tunSubnetPrefix tunIP = Inr sub"
    and tun: "find (\<lambda>a. equal_fold (ad_name a) tunName) adapters = Some tun"
    and srv: "serverAddr \<noteq> []" "resolveServerIPv4 lookup (hostFromAddr serverAddr) = Inr sip"
    and phys: "choosePhysicalAdapter adapters (Some sip) tunName = Inr phys"
    and run: "takeover_Install N (Inr adapters) lookup chn tunName tunIP serverAddr True geo ([], os) = (None, (specs, os'))"
  defines "exc \<equiv> phys_route phys (quad_string sip @ ''/32'')"
    and "own \<equiv> \<lparr>rs_prefix = sub, rs_if = ad_index tun, rs_nexthop = gateway\<rparr>"
    and "listed \<equiv> map (phys_route phys) (if geo = [] then chn else geo)"
    and "halves \<equiv> map (\<lambda>h. \<lparr>rs_prefix = h, rs_if = ad_index tun, rs_nexthop = gateway\<rparr>) [''0.0.0.0/1'', ''128.0.0.0/1'']"
  shows "\<exists>b X. X \<subseteq> set listed \<and> tab os' = tab os \<union> set (exc # own # map (phys_route phys) privateBypassRoutes @ halves) \<union> X \<and>
    specs = exc # own # map (phys_route phys) privateBypassRoutes @ (if b then listed else []) @ halves \<and>
    (b \<longrightarrow> X = set listed) \<and> ((\<forall>ss o'. fst (sh_batch N ss o')) \<longrightarrow> b)"
proof -
  obtain e1 t1 where one: "add_routes N isRouteExistsErr [exc] ([], os) = (e1, t1)" by (rule prod.exhaust)
  obtain e2 t2 where two: "install_split N adapters tunName (ad_index tun) tunIP gateway geo chn (Some phys) t1 = (e2, t2)" by (rule prod.exhaust)
  have all: "takeover_Install N (Inr adapters) lookup chn tunName tunIP serverAddr True geo ([], os) =
      (case e1 of Some e \<Rightarrow> (Some e, t1) | None \<Rightarrow> (case e2 of Some e \<Rightarrow> (Some e, t2) | None \<Rightarrow> add_routes N (\<lambda>r. r = Added) halves t2))"
    using srv one by (simp add: takeover_Install_def assms(2) tun phys two halves_def exc_def del: add_routes.simps split: option.split)
  from run have e: "e1 = None" "e2 = None" and three: "add_routes N (\<lambda>r. r = Added) halves t2 = (None, (specs, os'))"
    unfolding all by (auto split: option.splits)
  from add_routes_all [OF assms(1) _ one [unfolded e]] have t1: "fst t1 = [exc]" "tab (snd t1) = insert exc (tab os)"
    by (simp_all add: isRouteExistsErr_def)
  from add_routes_all [OF assms(1) _ three] have t3: "specs = fst t2 @ halves" "tab os' = tab (snd t2) \<union> set halves" by simp_all
  from install_split_adds [OF assms(1,3) two [unfolded e], folded own_def listed_def] obtain b where
    t2: "fst t2 = fst t1 @ (own # map (phys_route phys) privateBypassRoutes) @ (if b then listed else [])"
      "tab (snd t1) \<union> set (own # map (phys_route phys) privateBypassRoutes) \<subseteq> tab (snd t2)"
      "tab (snd t2) \<subseteq> tab (snd t1) \<union> set (own # map (phys_route phys) privateBypassRoutes) \<union> set listed"
      "b \<longrightarrow> tab (snd t2) = tab (snd t1) \<union> set (own # map (phys_route phys) privateBypassRoutes) \<union> set listed"
      "(\<forall>ss o'. fst (sh_batch N ss o')) \<longrightarrow> b" by (elim exE conjE) (rule that)
  show ?thesis
  proof (intro exI [of _ b] exI [of _ "tab (snd t2) \<inter> set listed"] conjI)
    show "tab os' = tab os \<union> set (exc # own # map (phys_route phys) privateBypassRoutes @ halves) \<union> tab (snd t2) \<inter> set listed"
      using t2(2,3) unfolding t3(2) t1(2) by auto
    show "specs = exc # own # map (phys_route phys) privateBypassRoutes @ (if b then listed else []) @ halves"
      unfolding t3(1) t2(1) t1(1) by simp
    show "b \<longrightarrow> tab (snd t2) \<inter> set listed = set listed" using t2(4) by blast
  qed (use t2(5) in auto)
qed

text \<open>
  The table of a split takeover over a base \<open>B\<close> that has only default routes for the address: the
  exception \<open>exc\<close> of the server, the tunnel's network \<open>sub\<close>, the networks \<open>L\<close> on the physical
  adapter and the halves \<open>hs\<close>.
\<close>

lemma split_best_route:
  fixes exc sub gateway :: string and L hs :: "string list" and i :: nat
  defines "via_tun \<equiv> \<lambda>h. \<lparr>rs_prefix = h, rs_if = i, rs_nexthop = gateway\<rparr>"
  assumes all: "T = B \<union> set (phys_route phys exc # via_tun sub # map (phys_route phys) L @ map via_tun hs)"
    and base: "\<forall>r \<in> B. cidr_covers (rs_prefix r) ip \<longrightarrow> prefix_len (rs_prefix r) = 0"
    and exc: "cidr_covers exc ip \<longleftrightarrow> server" "prefix_len exc = 32" and sub: "cidr_covers sub ip \<longleftrightarrow> inside" "prefix_len sub = 24"
    and hs: "\<forall>h \<in> set hs. prefix_len h = 1" "\<exists>h \<in> set hs. cidr_covers h ip"
    and L: "\<forall>p \<in> set L. cidr_covers p ip \<longrightarrow> 2 \<le> prefix_len p \<and> (inside \<longrightarrow> prefix_len p < 24)"
  shows "\<exists>r0 \<in> T. cidr_covers (rs_prefix r0) ip \<and> 0 < prefix_len (rs_prefix r0) \<and>
    (\<forall>x \<in> T. cidr_covers (rs_prefix x) ip \<longrightarrow> prefix_len (rs_prefix r0) \<le> prefix_len (rs_prefix x) \<longrightarrow> rs_if x =
      (if server then ad_index phys else if inside then i else if \<exists>p \<in> set L. cidr_covers p ip then ad_index phys else i))"
proof -
  have if_phys: "rs_if (phys_route phys p) = ad_index phys" "rs_prefix (phys_route phys p) = p" for p by (simp_all add: phys_route_def)
  have if_tun: "rs_if (via_tun h) = i" "rs_prefix (via_tun h) = h" for h by (simp_all add: via_tun_def)
  have kinds: "rs_if x = i \<and> prefix_len (rs_prefix x) \<le> 1 \<or> prefix_len (rs_prefix x) = 0 \<or>
      x = phys_route phys exc \<or> x = via_tun sub \<or> (\<exists>p \<in> set L. x = phys_route phys p)" if "x \<in> T" "cidr_covers (rs_prefix x) ip" for x
    using that base hs(1) unfolding all by (auto simp: if_tun)
  consider "server" | "\<not> server" "inside" | "\<not> server" "\<not> inside" "\<exists>p \<in> set L. cidr_covers p ip"
    | "\<not> server" "\<not> inside" "\<not> (\<exists>p \<in> set L. cidr_covers p ip)" by blast
  then show ?thesis
  proof cases
    case 1
    have "rs_if x = ad_index phys" if "x \<in> T" "cidr_covers (rs_prefix x) ip" "32 \<le> prefix_len (rs_prefix x)" for x
      using kinds [OF that(1,2)] that(3) sub(2) by (auto simp: if_phys if_tun)
    then show ?thesis using 1 exc by (intro bexI [of _ "phys_route phys exc"]) (simp_all add: if_phys all)
  next
    case 2
    have L24: "\<not> 24 \<le> prefix_len p" if "p \<in> set L" "cidr_covers p ip" for p using L 2 that by fastforce
    have "rs_if x = i" if "x \<in> T" "cidr_covers (rs_prefix x) ip" "24 \<le> prefix_len (rs_prefix x)" for x
      using kinds [OF that(1,2)] that(2,3) exc(1) L24 2 by (auto simp: if_phys if_tun)
    then show ?thesis using 2 sub by (intro bexI [of _ "via_tun sub"]) (simp_all add: if_tun all)
  next
    case 3
    then obtain p where p: "p \<in> set L" "cidr_covers p ip" by blast
    have "rs_if x = ad_index phys" if "x \<in> T" "cidr_covers (rs_prefix x) ip" "2 \<le> prefix_len (rs_prefix x)" for x
      using kinds [OF that(1,2)] that(2,3) sub(1) 3(2) by (auto simp: if_phys if_tun)
    moreover have "2 \<le> prefix_len p" using L p by blast
    ultimately show ?thesis using p 3(1,2) by (intro bexI [of _ "phys_route phys p"]) (auto simp: if_phys all)
  next
    case 4
    from hs(2) obtain h where h: "h \<in> set hs" "cidr_covers h ip" by blast
    have "rs_if x = i" if "x \<in> T" "cidr_covers (rs_prefix x) ip" "1 \<le> prefix_len (rs_prefix x)" for x
      using kinds [OF that(1,2)] that(2,3) exc(1) 4 by (auto simp: if_phys if_tun)
    then show ?thesis using h hs(1) 4 by (intro bexI [of _ "via_tun h"]) (auto simp: if_tun all)
  qed
qed

text \<open>
  C32. Where packets go while a split takeover is in place, by longest prefix. Let the tunnel's
  address be in \<open>10.0.0.0/8\<close>, the tunnel's adapter, the server's address and the physical adapter
  be found, and the installation succeed, whichever routes of the plan were there before and
  whether or not the batch of listed networks was accepted. Consider an address for which only default
  routes applied before, and to which no listed network with a prefix shorter than two bits
  applies nor, if the address is in the tunnel's network of 24 bits, one of 24 bits or more. For it
  there is a most specific route, and it leads the server's own address to the physical adapter,
  so that the encrypted stream never enters the tunnel; the addresses of the tunnel's network into
  the tunnel, although a private network contains them; private networks, and the listed networks
  that are in the table, to the physical adapter; and every other address into the tunnel. All
  that was recorded is in the table; a listed network that is not in it, as when its batch was
  refused, was not recorded; and when batches are accepted every listed network is recorded.
\<close>
theorem takeover_routes:
  assumes "netsh_ok N tab"
    and tip: "parse_ip tunIP = Some tip16" "to4 tip16 = Some tip" "tip ! 0 = 10"
    and tun: "find (\<lambda>a. equal_fold (ad_name a) tunName) adapters = Some tun"
    and srv: "serverAddr \<noteq> []" "resolveServerIPv4 lookup (hostFromAddr serverAddr) = Inr sip" "length sip = 4"
    and phys: "choosePhysicalAdapter adapters (Some sip) tunName = Inr phys"
    and run: "takeover_Install N (Inr adapters) lookup chn tunName tunIP serverAddr True geo ([], os) = (None, (specs, os'))"
    and ip: "length ip = 4" "\<forall>r \<in> tab os. cidr_covers (rs_prefix r) ip \<longrightarrow> prefix_len (rs_prefix r) = 0"
    and geo: "\<forall>p \<in> set (if geo = [] then chn else geo). cidr_covers p ip \<longrightarrow>
      2 \<le> prefix_len p \<and> (take 3 ip = take 3 tip \<longrightarrow> prefix_len p < 24)"
  shows "(\<exists>r. egress (tab os') ip r) \<and>
    (\<forall>r. egress (tab os') ip r \<longrightarrow> rs_if r =
      (if ip = sip then ad_index phys
       else if take 3 ip = take 3 tip then ad_index tun
       else if \<exists>p \<in> set privateBypassRoutes. cidr_covers p ip then ad_index phys
       else if \<exists>p \<in> set (if geo = [] then chn else geo). cidr_covers p ip \<and> phys_route phys p \<in> tab os' then ad_index phys
       else ad_index tun)) \<and>
    set specs \<subseteq> tab os' \<and>
    ((\<forall>ss o'. fst (sh_batch N ss o')) \<longrightarrow> phys_route phys ` set (if geo = [] then chn else geo) \<subseteq> set specs)"
proof -
  let ?G = "if geo = [] then chn else geo"
  obtain gateway where gw: "tunGateway tunIP = Inr gateway" using tip(1,2) by (simp add: tunGateway_def Let_def)
  define sub where "sub = quad_string (mask24 tip) @ ''/24''"
  define exc where "exc = quad_string sip @ ''/32''"
  have "tunSubnetPrefix tunIP = Inr sub" using tip(1,2) by (simp add: tunSubnetPrefix_def sub_def)
  note adds = split_install_adds [OF assms(1) gw this tun srv(1,2) phys run, folded exc_def]
  let ?own = "\<lparr>rs_prefix = sub, rs_if = ad_index tun, rs_nexthop = gateway\<rparr>"
  let ?halves = "map (\<lambda>h. \<lparr>rs_prefix = h, rs_if = ad_index tun, rs_nexthop = gateway\<rparr>) [''0.0.0.0/1'', ''128.0.0.0/1'']"
  from adds obtain b X where
    X: "X \<subseteq> set (map (phys_route phys) ?G)" and
    T: "tab os' = tab os \<union> set (phys_route phys exc # ?own # map (phys_route phys) privateBypassRoutes @ ?halves) \<union> X" and
    S: "specs = phys_route phys exc # ?own # map (phys_route phys) privateBypassRoutes @ (if b then map (phys_route phys) ?G else []) @ ?halves"
      "b \<longrightarrow> X = set (map (phys_route phys) ?G)" "(\<forall>ss o'. fst (sh_batch N ss o')) \<longrightarrow> b" by (elim exE conjE) (rule that)
  have len: "length tip = 4" "length (mask24 tip) = 4" using to4_length [OF tip(2)] by (simp_all add: mask24_def cidr_mask_24)
  have exc: "cidr_covers exc ip \<longleftrightarrow> ip = sip" "prefix_len exc = 32"
    by (simp_all add: exc_def cidr_covers_def prefix_len_def cidr_32 [OF srv(3)] contains_32 [OF srv(3) ip(1)])
  have sub: "cidr_covers sub ip \<longleftrightarrow> take 3 ip = take 3 tip" "prefix_len sub = 24"
    by (simp_all add: sub_def cidr_covers_def prefix_len_def cidr_24 [OF len(2)] contains_24 [OF len(1) ip(1)])
  have priv: "prefix_len p < 24" if "p \<in> set privateBypassRoutes" "cidr_covers p ip" "take 3 ip = take 3 tip" for p
  proof -
    have "ip ! 0 = 10" using that(3) tip(3) by (metis nth_take zero_less_numeral)
    with ip(1) obtain rest where "ip = 10 # rest" by (cases ip) auto
    with private_routes(2) [OF that(1)] that(2) show ?thesis by simp
  qed
  define L where "L = privateBypassRoutes @ filter (\<lambda>p. phys_route phys p \<in> tab os') ?G"
  let ?P = "phys_route phys exc # ?own # map (phys_route phys) L @ ?halves"
  have all: "tab os' = tab os \<union> set ?P"
  proof
    show "tab os' \<subseteq> tab os \<union> set ?P" using X unfolding L_def by (subst (1) T) (use T in auto)
    show "tab os \<union> set ?P \<subseteq> tab os'" using T unfolding L_def by auto
  qed
  have hs: "\<forall>h \<in> set [''0.0.0.0/1'', ''128.0.0.0/1'']. prefix_len h = 1" "\<exists>h \<in> set [''0.0.0.0/1'', ''128.0.0.0/1'']. cidr_covers h ip"
    using half_routes [OF ip(1)] by auto
  have L: "\<forall>p \<in> set L. cidr_covers p ip \<longrightarrow> 2 \<le> prefix_len p \<and> (take 3 ip = take 3 tip \<longrightarrow> prefix_len p < 24)"
    using geo private_routes(1) priv unfolding L_def set_append set_filter by blast
  let ?i = "if ip = sip then ad_index phys else if take 3 ip = take 3 tip then ad_index tun
    else if \<exists>p \<in> set L. cidr_covers p ip then ad_index phys else ad_index tun"
  from split_best_route [OF all ip(2) exc sub hs L]
  obtain r0 where r0: "r0 \<in> tab os'" "cidr_covers (rs_prefix r0) ip" "0 < prefix_len (rs_prefix r0)"
    "\<And>x. x \<in> tab os' \<Longrightarrow> cidr_covers (rs_prefix x) ip \<Longrightarrow> prefix_len (rs_prefix r0) \<le> prefix_len (rs_prefix x) \<Longrightarrow> rs_if x = ?i"
    by blast
  have some: "\<exists>r. egress (tab os') ip r"
    using most_specific [OF finite_set r0(1) [unfolded all] r0(2) ip(2) r0(3)] all by simp
  have led: "rs_if r = (if ip = sip then ad_index phys
       else if take 3 ip = take 3 tip then ad_index tun
       else if \<exists>p \<in> set privateBypassRoutes. cidr_covers p ip then ad_index phys
       else if \<exists>p \<in> set ?G. cidr_covers p ip \<and> phys_route phys p \<in> tab os' then ad_index phys
       else ad_index tun)" if "egress (tab os') ip r" for r
    using egress_if [OF that r0(1,2,4)] by (auto simp: L_def)
  have rec: "set specs \<subseteq> tab os'" using S(2) unfolding S(1) T by auto
  have acc: "phys_route phys ` set ?G \<subseteq> set specs" if "\<forall>ss o'. fst (sh_batch N ss o')" using S(3) that unfolding S(1) by auto
  show ?thesis
  proof (intro conjI)
    show "\<forall>r. egress (tab os') ip r \<longrightarrow> rs_if r =
      (if ip = sip then ad_index phys
       else if take 3 ip = take 3 tip then ad_index tun
       else if \<exists>p \<in> set privateBypassRoutes. cidr_covers p ip then ad_index phys
       else if \<exists>p \<in> set ?G. cidr_covers p ip \<and> phys_route phys p \<in> tab os' then ad_index phys
       else ad_index tun)" using led by blast
  qed (use some rec acc in blast)+
qed

text \<open>
  C33. The route takeover keeps to its plan. If the plan cannot be computed nothing is touched and
  its error is returned. Otherwise, when no planned route is in the table yet and deletions and
  batches are accepted: an installation that succeeds has added exactly the planned routes, and
  its release removes exactly these; one that fails, at whichever route, has taken back all it
  had added, and can be tried again.
\<close>
theorem takeover_refines:
  assumes "netsh_ok N tab" "willing N"
    and run: "run = takeover_Install N enum lookup chn tunName tunIP serverAddr split geo ([], os)"
  shows "case takeover_plan enum lookup chn tunName tunIP serverAddr split geo of
      Inl e \<Rightarrow> run = (Some e, ([], os))
    | Inr ps \<Rightarrow> tab os \<inter> set ps = {} \<longrightarrow>
        (if fst run = None
         then fst (snd run) = ps \<and> tab (snd (snd run)) = tab os \<union> set ps \<and>
              (\<exists>os'. takeover_Release N (snd run) = (True, ([], os')) \<and> tab os' = tab os)
         else fst (snd run) = [] \<and> tab (snd (snd run)) = tab os)"
  using Install_outcome [OF assms] .

section \<open>Witnesses\<close>

text \<open>A table that is a list, and a machine with the tunnel and one physical adapter.\<close>

definition list_netsh :: "route_spec list netsh" where
  "list_netsh = \<lparr>sh_add = (\<lambda>s os. if s \<in> set os then (Exists, os) else (Added, s # os)),
     sh_delete = (\<lambda>s os. (True, removeAll s os)), sh_batch = (\<lambda>ss os. (True, ss @ os))\<rparr>"

definition sample_tun :: adapter where
  "sample_tun = \<lparr>ad_name = ''Chimera'', ad_description = ''Wintun'', ad_index = 7, ad_metric = 5, ad_up = True, ad_type = 53,
     ad_gateway = [], ad_onlink = []\<rparr>"

definition sample_eth :: adapter where
  "sample_eth = \<lparr>ad_name = ''Ethernet'', ad_description = ''NIC'', ad_index = 3, ad_metric = 25, ad_up = True, ad_type = 6,
     ad_gateway = ''192.168.1.1'', ad_onlink = [([192, 168, 1, 0], 24)]\<rparr>"

abbreviation sample_install :: "error option \<times> route_spec list takeover" where
  "sample_install \<equiv> takeover_Install list_netsh (Inr [sample_tun, sample_eth]) (\<lambda>_. Inl ErrNet) [''1.0.1.0/24''] ''Chimera'' ''10.99.0.5''
     ''8.8.4.4:4789'' True [] ([], [])"

lemma list_netsh_ok: "netsh_ok list_netsh set" "willing list_netsh"
  by (auto simp: netsh_ok_def willing_def list_netsh_def)

lemma sample_install_ok: "fst sample_install = None"
  by code_simp

theorem takeover_refines_witness:
  "\<exists>os'. takeover_Release list_netsh (snd sample_install) = (True, ([], os')) \<and> set os' = {}"
proof -
  note T = takeover_refines [OF list_netsh_ok refl, where enum = "Inr [sample_tun, sample_eth]" and lookup = "\<lambda>_. Inl ErrNet"
      and chn = "[''1.0.1.0/24'']" and tunName = "''Chimera''" and tunIP = "''10.99.0.5''" and serverAddr = "''8.8.4.4:4789''"
      and split = True and geo = "[]" and os = "[]"]
  show ?thesis using T sample_install_ok by (auto split: sum.splits)
qed

text \<open>
  The same machine where the batch file is refused: the listed network goes into the tunnel.
\<close>

definition no_batch_netsh :: "route_spec list netsh" where
  "no_batch_netsh = list_netsh\<lparr>sh_batch := \<lambda>ss os. (False, os)\<rparr>"

lemma no_batch_netsh_ok: "netsh_ok no_batch_netsh set"
  by (auto simp: netsh_ok_def no_batch_netsh_def list_netsh_def)

theorem takeover_routes_witness:
  "(\<exists>r. egress (set (snd (snd sample_install))) [8, 8, 4, 4] r \<and> rs_if r = 3) \<and>
   (\<exists>r. egress (set (snd (snd sample_install))) [1, 0, 1, 9] r \<and> rs_if r = 3) \<and>
   (\<exists>r. egress (set (snd (snd (takeover_Install no_batch_netsh (Inr [sample_tun, sample_eth]) (\<lambda>_. Inl ErrNet) [''1.0.1.0/24'']
      ''Chimera'' ''10.99.0.5'' ''8.8.4.4:4789'' True [] ([], []))))) [1, 0, 1, 9] r \<and> rs_if r = 7)"
proof -
  let ?refused = "takeover_Install no_batch_netsh (Inr [sample_tun, sample_eth]) (\<lambda>_. Inl ErrNet) [''1.0.1.0/24'']
      ''Chimera'' ''10.99.0.5'' ''8.8.4.4:4789'' True [] ([], [])"
  obtain specs os' where run: "sample_install = (None, (specs, os'))" using sample_install_ok by (cases sample_install) auto
  have "fst ?refused = None" by code_simp
  then obtain specs2 os2 where run2: "?refused = (None, (specs2, os2))" by (cases ?refused) auto
  have C: "parse_ip ''10.99.0.5'' = Some (as16 (V4 [10, 99, 0, 5]))" "to4 (as16 (V4 [10, 99, 0, 5])) = Some [10, 99, 0, 5]"
    "find (\<lambda>a. equal_fold (ad_name a) ''Chimera'') [sample_tun, sample_eth] = Some sample_tun"
    "resolveServerIPv4 (\<lambda>_. Inl ErrNet) (hostFromAddr ''8.8.4.4:4789'') = Inr [8, 8, 4, 4]"
    "choosePhysicalAdapter [sample_tun, sample_eth] (Some [8, 8, 4, 4]) ''Chimera'' = Inr sample_eth" by code_simp+
  have N: "\<not> cidr_covers ''1.0.1.0/24'' [8, 8, 4, 4]" "prefix_len ''1.0.1.0/24'' = 24" "cidr_covers ''1.0.1.0/24'' [1, 0, 1, 9]" by code_simp+
  have P: "\<not> (\<exists>p \<in> set privateBypassRoutes. cidr_covers p [1, 0, 1, 9])" by code_simp
  have here: "phys_route sample_eth ''1.0.1.0/24'' \<in> set (snd (snd sample_install))"
    "phys_route sample_eth ''1.0.1.0/24'' \<notin> set (snd (snd ?refused))" by code_simp+
  note R = takeover_routes [OF list_netsh_ok(1) C(1,2) _ C(3) _ C(4) _ C(5) run]
  note R2 = takeover_routes [OF no_batch_netsh_ok C(1,2) _ C(3) _ C(4) _ C(5) run2]
  have ifs: "ad_index sample_eth = 3" "ad_index sample_tun = 7" by (simp_all add: sample_eth_def sample_tun_def)
  have "\<exists>r. egress (set os') [8, 8, 4, 4] r \<and> rs_if r = 3" using R [of "[8, 8, 4, 4]"] N(1) by (auto simp: ifs)
  moreover have "\<exists>r. egress (set os') [1, 0, 1, 9] r \<and> rs_if r = 3"
    using R [of "[1, 0, 1, 9]"] N(2,3) here(1) by (auto simp: run ifs)
  moreover have "\<exists>r. egress (set os2) [1, 0, 1, 9] r \<and> rs_if r = 7"
    using R2 [of "[1, 0, 1, 9]"] N(2,3) P here(2) by (auto simp: run2 ifs)
  ultimately show ?thesis unfolding run run2 snd_conv by blast
qed

end
