(* ===== verification/Windows_App_Safety.thy ===== *)
theory Windows_App_Safety
  imports Windows_App Takeover_Safety
begin

text \<open>
  What the Windows application's state means in every run: what its status says is what is
  running, a disconnect is final unless the watchdog had already decided, and a session takes its
  routes with it.
\<close>

section \<open>Invariant\<close>

definition server_keys :: "saved_server list \<Rightarrow> string list" where
  "server_keys ss = map (\<lambda>s. to_lower (sd_addr s)) ss"

text \<open>A link without its status, and the whole state between two operations.\<close>

definition link_inv :: "'os app \<Rightarrow> bool" where
  "link_inv a \<longleftrightarrow> (ap_bridge a \<noteq> None \<longrightarrow> ap_client a \<noteq> None) \<and> (ap_bridge a = None \<longrightarrow> fst (ap_routes a) = []) \<and>
     distinct (server_keys (ac_servers (ap_cfg a)))"

definition app_inv :: "'os app \<Rightarrow> bool" where
  "app_inv a \<longleftrightarrow> link_inv a \<and> ap_status a \<noteq> Connecting \<and>
     (ap_status a = Connected \<longrightarrow> ap_bridge a \<noteq> None \<and> ap_want a) \<and>
     (ap_status a = Disconnected \<longrightarrow> ap_client a = None) \<and>
     (\<not> ap_want a \<longrightarrow> ap_client a = None)"

lemma upsert_keys:
  "set (server_keys (upsert name addr ss)) = insert (to_lower addr) (set (server_keys ss))"
  "distinct (server_keys ss) \<Longrightarrow> distinct (server_keys (upsert name addr ss))"
proof (induction ss)
  case (Cons s ss)
  { case 1 from Cons.IH(1) show ?case by (auto simp: server_keys_def update_name_def equal_fold_def) }
  { case 2 with Cons.IH show ?case by (auto simp: server_keys_def update_name_def equal_fold_def) }
qed (simp_all add: server_keys_def)

lemma upsertServer_distinct: "distinct (server_keys ss) \<Longrightarrow> distinct (server_keys (upsertServer ss name addr))"
  by (simp add: upsertServer_def Let_def upsert_keys)

lemma forget_distinct: "distinct (server_keys ss) \<Longrightarrow> distinct (server_keys (filter P ss))"
  by (simp add: server_keys_def distinct_map_filter)

lemma saveConfig_same:
  "ap_cfg (snd (saveConfig W a)) = ap_cfg a" "ap_client (snd (saveConfig W a)) = ap_client a"
  "ap_bridge (snd (saveConfig W a)) = ap_bridge a" "ap_routes (snd (saveConfig W a)) = ap_routes a"
  "ap_status (snd (saveConfig W a)) = ap_status a" "ap_want (snd (saveConfig W a)) = ap_want a"
  by (simp_all add: saveConfig_def)

lemma stops:
  fixes W :: "'os world" and a :: "'os app"
  assumes "link_inv a"
  defines "b \<equiv> snd (stopTransport W (stopPacketBridge W a))"
  shows "ap_client b = None" "ap_bridge b = None" "fst (ap_routes b) = []" "ap_cfg b = ap_cfg a" "ap_want b = ap_want a"
    "ap_status b = ap_status a"
  using assms by (auto simp: b_def stopTransport_def stopPacketBridge_def link_inv_def takeover_Release_def split: option.splits prod.splits)

lemma Install_failed_bridge:
  "startPacketBridge W ip cfg a = (Some e, a1) \<Longrightarrow> ap_bridge a = None \<Longrightarrow> a1 = a"
  by (auto simp: startPacketBridge_def stopPacketBridge_def Let_def split: option.splits sum.splits)

lemma bridge_started:
  "startPacketBridge W ip cfg a = (None, a1) \<Longrightarrow>
     ap_bridge a1 \<noteq> None \<and> ap_client a1 = ap_client a \<and> ap_client a \<noteq> None \<and> ap_cfg a1 = ap_cfg a \<and> ap_want a1 = ap_want a"
  by (auto simp: startPacketBridge_def stopPacketBridge_def Let_def split: option.splits sum.splits)

text \<open>Whatever was running, bringing the link up ends connected, or failed with nothing running.\<close>

lemma bring_up_inv:
  assumes "link_inv a" "ap_want a" "bring_up W cfg a = (r, b)"
  shows "app_inv b" "ap_want b" "r = None \<longleftrightarrow> ap_status b = Connected" "r \<noteq> None \<Longrightarrow> ap_client b = None \<and> ap_bridge b = None"
proof -
  let ?a0 = "snd (stopTransport W (stopPacketBridge W a))"
  note S = stops [OF assms(1), of W]
  have d: "distinct (server_keys (ac_servers (ap_cfg a)))" using assms(1) by (simp add: link_inv_def)
  obtain r1 a1 where st: "startTransport W cfg ?a0 = (r1, a1)" by force
  have A1: "ap_bridge a1 = None" "fst (ap_routes a1) = []" "ap_cfg a1 = ap_cfg a" "ap_want a1" "r1 \<noteq> None \<longrightarrow> ap_client a1 = None"
    "r1 = None \<longrightarrow> ap_client a1 \<noteq> None"
    using st S assms(2) by (auto simp: startTransport_def Let_def split: sum.splits)
  have "app_inv b \<and> ap_want b \<and> (r = None \<longleftrightarrow> ap_status b = Connected) \<and> (r \<noteq> None \<longrightarrow> ap_client b = None \<and> ap_bridge b = None)"
  proof (cases r1)
    case (Some e)
    with st assms(3) have "r = Some e" "b = setError e a1" by (simp_all add: bring_up_def)
    with A1 Some d show ?thesis by (simp add: app_inv_def link_inv_def setError_def)
  next
    case None
    define ip where "ip = (case getAssignedIP W a1 of Inl _ \<Rightarrow> ac_tun_ip cfg | Inr ip \<Rightarrow> ip)"
    obtain r2 a2 where br: "startPacketBridge W ip cfg a1 = (r2, a2)" by force
    show ?thesis
    proof (cases r2)
      case (Some e)
      with br Install_failed_bridge A1(1) have "a2 = a1" by blast
      with Some None st br assms(3) have "r = Some e" "b = setError e (snd (stopTransport W a1))"
        by (simp_all add: bring_up_def ip_def Let_def)
      with A1 d show ?thesis by (auto simp: app_inv_def link_inv_def setError_def stopTransport_def split: option.splits)
    next
      case up: None
      from bridge_started [OF br [unfolded up]] A1
      have B: "ap_bridge a2 \<noteq> None" "ap_client a2 \<noteq> None" "ap_cfg a2 = ap_cfg a" "ap_want a2" by simp_all
      define a3 where "a3 = rememberServer (ac_server cfg) (ac_server cfg) (a2\<lparr>ap_status := Connected, ap_last_err := None\<rparr>)"
      have b: "r = None" "b = (snd (saveConfig W a3))\<lparr>ap_watchdog := True\<rparr>"
        using up None st br assms(3) by (simp_all add: bring_up_def ip_def a3_def Let_def)
      have "app_inv a3" using B d by (auto simp: a3_def app_inv_def link_inv_def rememberServer_def upsertServer_distinct)
      moreover have "ap_want a3" "ap_status a3 = Connected" using B by (simp_all add: a3_def rememberServer_def)
      ultimately show ?thesis using b by (simp add: app_inv_def link_inv_def saveConfig_same)
    qed
  qed
  then show "app_inv b" "ap_want b" "r = None \<longleftrightarrow> ap_status b = Connected" "r \<noteq> None \<Longrightarrow> ap_client b = None \<and> ap_bridge b = None"
    by blast+
qed

text \<open>Failed checks leave the link alone.\<close>

lemma app_start_inv:
  assumes "link_inv a" "\<not> ap_want a \<longrightarrow> ap_client a = None" "app_start W seed gen_no psk addr transport split hops spread a = (r, b)"
  shows "app_inv b"
proof -
  define t where "t = (let t1 = (if to_lower (trim_space transport) = [] then ac_transport (ap_cfg a) else to_lower (trim_space transport))
    in if t1 = [] then ''udp'' else t1)"
  define cfg where "cfg = start_config (ap_cfg a) (trim_space seed) gen_no (trim_space psk) (trim_space addr) t split hops spread"
  define a1 where "a1 = a\<lparr>ap_cfg := cfg, ap_status := Connecting, ap_last_err := None, ap_want := True\<rparr>"
  have run: "(case start_error (trim_space seed) (trim_space psk) (trim_space addr) t hops spread of
      Some e \<Rightarrow> (Some e, setError e a)
    | None \<Rightarrow> (case saveConfig W a1 of (Some e, a2) \<Rightarrow> (Some e, setError e a2) | (None, a2) \<Rightarrow> bring_up W cfg a2)) = (r, b)"
    using assms(3) unfolding app_start_def Let_def t_def cfg_def a1_def .
  show ?thesis
  proof (cases "start_error (trim_space seed) (trim_space psk) (trim_space addr) t hops spread")
    case (Some e)
    with run have "b = setError e a" by simp
    with assms(1,2) show ?thesis by (auto simp: app_inv_def link_inv_def setError_def)
  next
    case None
    have L: "link_inv (snd (saveConfig W a1))" "ap_want (snd (saveConfig W a1))"
      using assms(1) by (simp_all add: link_inv_def saveConfig_same a1_def cfg_def start_config_def)
    obtain r2 a2 where sv: "saveConfig W a1 = (r2, a2)" by force
    show ?thesis
    proof (cases r2)
      case (Some e)
      with None run sv have "b = setError e a2" by simp
      with L sv show ?thesis by (auto simp: app_inv_def link_inv_def setError_def)
    next
      case none: None
      with None run sv have "bring_up W cfg a2 = (r, b)" by simp
      from bring_up_inv(1) [OF _ _ this] L sv show ?thesis by simp
    qed
  qed
qed

lemma app_Stop_inv:
  assumes "link_inv a"
  shows "app_inv (snd (app_Stop W a))" "\<not> ap_want (snd (app_Stop W a))"
proof -
  have "link_inv (a\<lparr>ap_want := False\<rparr>)" using assms by (simp add: link_inv_def)
  note S = stops [OF this, of W]
  obtain r b where st: "stopTransport W (stopPacketBridge W (a\<lparr>ap_want := False\<rparr>)) = (r, b)" by force
  with S assms have "app_inv (snd (app_Stop W a)) \<and> \<not> ap_want (snd (app_Stop W a))"
    by (cases r) (simp_all add: app_Stop_def app_inv_def link_inv_def setError_def)
  then show "app_inv (snd (app_Stop W a))" "\<not> ap_want (snd (app_Stop W a))" by simp_all
qed

lemma app_invD: "app_inv a \<Longrightarrow> link_inv a" "app_inv a \<Longrightarrow> \<not> ap_want a \<longrightarrow> ap_client a = None"
  by (simp_all add: app_inv_def)

lemma reconnect_inv:
  assumes "app_inv a"
  shows "app_inv (watchdog_reconnect W now cfg a)"
proof -
  let ?a = "a\<lparr>ap_status := Connecting, ap_last_attempt := Some now\<rparr>"
  have "link_inv ?a" "\<not> ap_want ?a \<longrightarrow> ap_client ?a = None" using assms by (simp_all add: app_inv_def link_inv_def)
  note I = app_start_inv [OF this]
  obtain r b where r: "app_Start W (ac_seed cfg) (ac_generation cfg) (ac_psk cfg) (ac_server cfg) ?a = (r, b)" by force
  with I have "app_inv b" unfolding app_Start_def by blast
  with r show ?thesis by (simp add: watchdog_reconnect_def app_inv_def link_inv_def)
qed

lemma background_step_keeps: "background_step s s' \<Longrightarrow> app_inv (fst s) \<Longrightarrow> app_inv (fst s')"
proof (erule background_stepE, goal_cases)
  case 1 then show ?case using app_Stop_inv(1) [OF app_invD(1)] by simp
next
  case (2 a p W)
  then have "link_inv (a\<lparr>ap_quit := True\<rparr>)" by (simp add: app_inv_def link_inv_def)
  with 2 show ?case using app_Stop_inv(1) by (simp add: QuitApp_def)
next
  case 3 then show ?case
    by (simp add: RememberServer_def app_inv_def link_inv_def saveConfig_same rememberServer_def upsertServer_distinct)
next
  case 4 then show ?case by (simp add: ForgetServer_def app_inv_def link_inv_def saveConfig_same forget_distinct)
next
  case 5 then show ?case by simp
next
  case 6 then show ?case using reconnect_inv by simp
qed

lemma app_step_keeps: "app_step s s' \<Longrightarrow> app_inv (fst s) \<Longrightarrow> app_inv (fst s')"
proof (erule app_stepE, goal_cases)
  case 1 then show ?case using app_start_inv [OF app_invD] by (metis fst_conv prod.collapse)
next
  case 2 then show ?case by (simp add: background_step_keeps)
qed

interpretation app: invariant_of app_step "\<lambda>s. app_inv (fst s)"
  by unfold_locales (rule app_step_keeps)

text \<open>Without the user, a link that is not wanted stays down.\<close>

definition at_rest :: "'os app \<times> app_config option \<Rightarrow> bool" where
  "at_rest s \<longleftrightarrow> app_inv (fst s) \<and> \<not> ap_want (fst s) \<and> snd s = None"

lemma at_rest_keeps: "background_step s s' \<Longrightarrow> at_rest s \<Longrightarrow> at_rest s'"
proof -
  assume st: "background_step s s'" and rest: "at_rest s"
  then have "app_inv (fst s')" using background_step_keeps [OF st] by (simp add: at_rest_def)
  moreover from st rest have "\<not> ap_want (fst s') \<and> snd s' = None"
  proof (elim background_stepE, goal_cases)
    case 1 then show ?case by (simp add: at_rest_def app_Stop_inv(2) app_invD(1))
  next
    case (2 a p W)
    then have "link_inv (a\<lparr>ap_quit := True\<rparr>)" by (auto simp: at_rest_def app_inv_def link_inv_def)
    with 2 show ?case by (simp add: QuitApp_def at_rest_def app_Stop_inv(2))
  next
    case 3 then show ?case by (simp add: RememberServer_def saveConfig_same rememberServer_def at_rest_def)
  next
    case 4 then show ?case by (simp add: ForgetServer_def saveConfig_same at_rest_def)
  next
    case 5 then show ?case by (simp add: at_rest_def watchdog_due_def)
  next
    case 6 then show ?case by (simp add: at_rest_def)
  qed
  ultimately show ?thesis by (simp add: at_rest_def)
qed

interpretation rest: invariant_of background_step at_rest
  by unfold_locales (rule at_rest_keeps)

lemma new_app_inv: "distinct (server_keys (ac_servers cfg)) \<Longrightarrow> app_inv (NewChimeraApp cfg os)"
  by (simp add: NewChimeraApp_def app_inv_def link_inv_def)

section \<open>Status\<close>

text \<open>
  C34. What the application shows is what is running, in every run of the user's calls and the
  watchdog, whatever fails: it says connected only with a client and a packet bridge that the
  user wants, it says disconnected only with neither, it never rests at connecting, routes are
  taken over only while the bridge exists, a link the user does not want is down, and no server
  is listed twice.
\<close>
theorem app_invariant:
  assumes "reach app_step (NewChimeraApp cfg os, None) (a, p)" "distinct (server_keys (ac_servers cfg))"
  shows "(ap_status a = Connected \<longrightarrow> ap_client a \<noteq> None \<and> ap_bridge a \<noteq> None \<and> ap_want a) \<and>
    (ap_status a = Disconnected \<or> \<not> ap_want a \<longrightarrow> ap_client a = None \<and> ap_bridge a = None \<and> fst (ap_routes a) = []) \<and>
    ap_status a \<noteq> Connecting \<and> (ap_bridge a = None \<longrightarrow> fst (ap_routes a) = []) \<and>
    distinct (server_keys (ac_servers (ap_cfg a)))"
  using app.run_keeps [OF assms(1)] new_app_inv [OF assms(2), of os] by (auto simp: app_inv_def link_inv_def)

section \<open>Disconnecting\<close>

text \<open>
  C35. Disconnecting is final: in any state the application can reach in which the watchdog has
  no decision pending, after the user disconnects nothing runs, and nothing comes up again,
  whatever the watchdog sees and whatever else the user does, until the user connects.
\<close>
theorem disconnect_is_final:
  assumes "reach app_step (NewChimeraApp cfg os, None) (a, None)" "distinct (server_keys (ac_servers cfg))"
    and "reach background_step (snd (app_Stop W a), None) (b, p)"
  shows "\<not> ap_want b \<and> ap_client b = None \<and> ap_bridge b = None \<and> fst (ap_routes b) = [] \<and> ap_status b \<noteq> Connected"
proof -
  have "app_inv a" using app.run_keeps [OF assms(1)] new_app_inv [OF assms(2), of os] by simp
  note I = app_Stop_inv [OF app_invD(1) [OF this], of W]
  then have "at_rest (snd (app_Stop W a), None)" by (simp add: at_rest_def)
  from rest.run_keeps [OF assms(3) this] show ?thesis by (auto simp: at_rest_def app_inv_def link_inv_def)
qed

text \<open>
  Not so when the watchdog had already decided: it connects after the user has disconnected, in
  surroundings in which connecting works.
\<close>

definition willing_world :: "client \<Rightarrow> 'os netsh \<Rightarrow> 'os world" where
  "willing_world c N =
     \<lparr>w_save = (\<lambda>_. True), w_core = (\<lambda>_. Inr c), w_close = (\<lambda>_. True), w_assigned = (\<lambda>_. Inl ErrTimeout), w_idle = (\<lambda>_. 0),
      w_bridge = (\<lambda>_. Inr ''Chimera''), w_geo = (\<lambda>_. Inl ErrRead), w_adapters = Inl ErrNet, w_lookup = (\<lambda>_. Inl ErrNet), w_chn = [],
      w_netsh = N\<rparr>"

lemma willing_bring_up: "fst (bring_up (willing_world c N) cfg a) = None"
  by (simp add: bring_up_def startTransport_def startPacketBridge_def getAssignedIP_def willing_world_def Let_def)

lemma willing_start:
  assumes "link_inv a" "start_error (trim_space seed) (trim_space psk) (trim_space addr) (ac_transport (ap_cfg a)) hops spread = None"
  shows "fst (app_start (willing_world c N) seed gen_no psk addr [] split hops spread a) = None"
    "ap_status (snd (app_start (willing_world c N) seed gen_no psk addr [] split hops spread a)) = Connected"
proof -
  have t: "ac_transport (ap_cfg a) \<noteq> []" using assms(2) by (auto simp: start_error_def known_app_transport_def)
  let ?cfg = "start_config (ap_cfg a) (trim_space seed) gen_no (trim_space psk) (trim_space addr) (ac_transport (ap_cfg a)) split hops spread"
  let ?a1 = "a\<lparr>ap_cfg := ?cfg, ap_status := Connecting, ap_last_err := None, ap_want := True, ap_file := Some ?cfg\<rparr>"
  have "to_lower (trim_space []) = []" "w_save (willing_world c N) cfg" for cfg
    by (simp_all add: to_lower_def trim_space_def willing_world_def)
  with assms(2) t have run: "app_start (willing_world c N) seed gen_no psk addr [] split hops spread a = bring_up (willing_world c N) ?cfg ?a1"
    by (simp add: app_start_def Let_def saveConfig_def)
  then show "fst (app_start (willing_world c N) seed gen_no psk addr [] split hops spread a) = None" by (simp add: willing_bring_up)
  have "link_inv ?a1" using assms(1) by (simp add: link_inv_def start_config_def)
  from bring_up_inv(3) [OF this, of "willing_world c N" ?cfg] willing_bring_up [of c N ?cfg ?a1]
  show "ap_status (snd (app_start (willing_world c N) seed gen_no psk addr [] split hops spread a)) = Connected"
    unfolding run by (cases "bring_up (willing_world c N) ?cfg ?a1") simp
qed

text \<open>
  The watchdog's decision outlives a disconnect: if it was taken before the user disconnected,
  with a configuration that passes the checks, the link comes up again afterwards.
\<close>
theorem pending_decision_reconnects:
  assumes "reach app_step (NewChimeraApp cfg os, None) (a, Some seen)" "distinct (server_keys (ac_servers cfg))"
    and "start_error (trim_space (ac_seed seen)) (trim_space (ac_psk seen)) (trim_space (ac_server seen)) (ac_transport (ap_cfg a))
      (ac_hops (ap_cfg a)) (ac_spread (ap_cfg a)) = None"
  shows "\<exists>b. reach background_step (snd (app_Stop W a), Some seen) (b, None) \<and> ap_status b = Connected \<and> ap_client b \<noteq> None"
proof -
  have inv: "app_inv a" using app.run_keeps [OF assms(1)] new_app_inv [OF assms(2), of os] by simp
  define a1 where "a1 = snd (app_Stop W a)"
  have cfg: "ap_cfg a1 = ap_cfg a"
    by (auto simp: a1_def app_Stop_def stopTransport_def stopPacketBridge_def setError_def split: option.splits)
  have inv1: "app_inv a1" unfolding a1_def by (rule app_Stop_inv(1) [OF app_invD(1) [OF inv]])
  let ?W = "willing_world undefined undefined" and ?a2 = "a1\<lparr>ap_status := Connecting, ap_last_attempt := Some 0\<rparr>"
  have "link_inv ?a2" using inv1 by (simp add: app_inv_def link_inv_def)
  note up = willing_start [OF this, of "ac_seed seen" "ac_psk seen" "ac_server seen" "ac_hops (ap_cfg a)" "ac_spread (ap_cfg a)"]
  define b where "b = watchdog_reconnect ?W 0 seen a1"
  have "ap_status b = Connected"
    using up(2) assms(3) by (simp add: b_def watchdog_reconnect_def app_Start_def cfg split_beta)
  moreover have "app_inv b" unfolding b_def by (rule reconnect_inv [OF inv1])
  moreover have "reach background_step (a1, Some seen) (b, None)"
    unfolding b_def by (rule reach.reach_step [where step = background_step, OF reach.reach_start]) (rule step_reconnect)
  ultimately show ?thesis unfolding a1_def by (auto simp: app_inv_def link_inv_def)
qed

section \<open>Routes of a session\<close>

text \<open>No route that a takeover could plan is in the table yet.\<close>

definition unclaimed :: "'os world \<Rightarrow> ('os \<Rightarrow> route_spec set) \<Rightarrow> 'os \<Rightarrow> bool" where
  "unclaimed W tab os \<longleftrightarrow>
     (\<forall>name ip addr split geo ps. takeover_plan (w_adapters W) (w_lookup W) (chnroutePrefixes (w_chn W)) name ip addr split geo = Inr ps \<longrightarrow>
        tab os \<inter> set ps = {})"

lemma startPacketBridge_routes:
  assumes "netsh_ok (w_netsh W) tab" "willing (w_netsh W)" "unclaimed W tab os" "ap_routes a = ([], os)" "ap_bridge a = None"
  shows "tab (snd (ap_routes (stopPacketBridge W (snd (startPacketBridge W ip cfg a))))) = tab os"
proof (cases "ap_client a")
  case None
  with assms(4,5) show ?thesis by (simp add: startPacketBridge_def stopPacketBridge_def)
next
  case (Some c)
  show ?thesis
  proof (cases "w_bridge W ip")
    case (Inl e)
    with Some assms(4,5) show ?thesis by (simp add: startPacketBridge_def stopPacketBridge_def)
  next
    case (Inr name)
    define run where "run = takeover_Install (w_netsh W) (w_adapters W) (w_lookup W) (chnroutePrefixes (w_chn W)) name ip
      (c_addr (cl_cfg c)) (ac_split cfg) (geo_prefixes W cfg) ([], os)"
    have stop: "stopPacketBridge W (snd (startPacketBridge W ip cfg a)) =
        a\<lparr>ap_routes := snd (takeover_Release (w_netsh W) (snd run)), ap_bridge := None\<rparr>"
      using Some Inr assms(4,5) by (simp add: startPacketBridge_def stopPacketBridge_def run_def)
    from Install_outcome [OF assms(1,2) run_def] assms(3)
    have "tab (snd (snd (takeover_Release (w_netsh W) (snd run)))) = tab os"
      using Release_tab [OF assms(1,2), of "fst (snd run)" "snd (snd run)"]
      by (auto simp: unclaimed_def split: sum.splits if_splits)
    then show ?thesis by (simp add: stop)
  qed
qed

text \<open>The routes that are left when the bridge is taken down, by what is recorded.\<close>

definition after_stop :: "'os world \<Rightarrow> 'os app \<Rightarrow> 'os takeover" where
  "after_stop W a = (case ap_bridge a of None \<Rightarrow> ap_routes a | Some _ \<Rightarrow> snd (takeover_Release (w_netsh W) (ap_routes a)))"

lemma after_stop_same: "ap_bridge b = ap_bridge a \<Longrightarrow> ap_routes b = ap_routes a \<Longrightarrow> after_stop W b = after_stop W a"
  by (cases "ap_bridge a") (simp_all add: after_stop_def)

lemma stop_routes: "ap_routes (stopPacketBridge W a) = after_stop W a" "ap_routes (snd (app_Stop W a)) = after_stop W a"
proof -
  have A: "ap_routes (stopPacketBridge W b) = after_stop W b" for b
    by (simp add: stopPacketBridge_def after_stop_def split: option.splits)
  then show "ap_routes (stopPacketBridge W a) = after_stop W a" .
  have "ap_routes (snd (app_Stop W a)) = ap_routes (stopPacketBridge W (a\<lparr>ap_want := False\<rparr>))"
    by (simp add: app_Stop_def stopTransport_def setError_def split: option.splits)
  with A show "ap_routes (snd (app_Stop W a)) = after_stop W a" using after_stop_same [of "a\<lparr>ap_want := False\<rparr>" a W] by simp
qed

lemma bring_up_routes:
  assumes "netsh_ok (w_netsh W) tab" "willing (w_netsh W)" "unclaimed W tab os" "ap_routes a = ([], os)" "ap_bridge a = None"
  shows "tab (snd (after_stop W (snd (bring_up W cfg a)))) = tab os"
proof -
  let ?a0 = "snd (stopTransport W (stopPacketBridge W a))"
  obtain r1 a1 where st: "startTransport W cfg ?a0 = (r1, a1)" by force
  then have a1: "ap_routes a1 = ([], os)" "ap_bridge a1 = None"
    using assms(4,5) by (auto simp: startTransport_def stopTransport_def stopPacketBridge_def Let_def split: sum.splits option.splits)
  show ?thesis
  proof (cases r1)
    case (Some e)
    with st a1 show ?thesis by (simp add: bring_up_def setError_def after_stop_def)
  next
    case None
    define ip where "ip = (case getAssignedIP W a1 of Inl _ \<Rightarrow> ac_tun_ip cfg | Inr ip \<Rightarrow> ip)"
    obtain r2 a2 where br: "startPacketBridge W ip cfg a1 = (r2, a2)" by force
    show ?thesis
    proof (cases r2)
      case (Some e)
      with br Install_failed_bridge a1(2) have "a2 = a1" by blast
      then have "ap_routes (setError e (snd (stopTransport W a2))) = ([], os)" "ap_bridge (setError e (snd (stopTransport W a2))) = None"
        using a1 by (simp_all add: setError_def stopTransport_def split: option.splits)
      with None Some st br show ?thesis by (simp add: bring_up_def ip_def Let_def after_stop_def)
    next
      case up: None
      have "tab (snd (after_stop W a2)) = tab os"
        using startPacketBridge_routes [OF assms(1-3) a1, of ip cfg] br by (simp add: stop_routes)
      moreover have "after_stop W (snd (bring_up W cfg a)) = after_stop W a2"
        using None up st br by (intro after_stop_same) (simp_all add: bring_up_def ip_def Let_def saveConfig_same rememberServer_def)
      ultimately show ?thesis by simp
    qed
  qed
qed

text \<open>
  A session leaves no routes behind. From any state in which no bridge is up, with a system
  that accepts deletions and none of the routes in its table yet, connecting and then
  disconnecting restores the table of routes, whether or not connecting succeeds, at whichever
  point it fails, and whether or not the takeover succeeds.
\<close>
theorem session_leaves_no_routes:
  assumes "netsh_ok (w_netsh W) tab" "willing (w_netsh W)" "unclaimed W tab (snd (ap_routes a))" "link_inv a" "ap_bridge a = None"
  shows "tab (snd (ap_routes (snd (app_Stop W (snd (app_start W seed gen_no psk addr transport split hops spread a)))))) =
    tab (snd (ap_routes a))"
proof -
  obtain os where os: "ap_routes a = ([], os)" using assms(4,5) by (cases "ap_routes a") (auto simp: link_inv_def)
  have un: "unclaimed W tab os" using assms(3) os by simp
  define t where "t = (let t1 = (if to_lower (trim_space transport) = [] then ac_transport (ap_cfg a) else to_lower (trim_space transport))
    in if t1 = [] then ''udp'' else t1)"
  define cfg where "cfg = start_config (ap_cfg a) (trim_space seed) gen_no (trim_space psk) (trim_space addr) t split hops spread"
  define a1 where "a1 = a\<lparr>ap_cfg := cfg, ap_status := Connecting, ap_last_err := None, ap_want := True\<rparr>"
  have run: "app_start W seed gen_no psk addr transport split hops spread a =
    (case start_error (trim_space seed) (trim_space psk) (trim_space addr) t hops spread of
      Some e \<Rightarrow> (Some e, setError e a)
    | None \<Rightarrow> (case saveConfig W a1 of (Some e, a2) \<Rightarrow> (Some e, setError e a2) | (None, a2) \<Rightarrow> bring_up W cfg a2))"
    unfolding app_start_def Let_def t_def cfg_def a1_def ..
  obtain r2 a2 where sv: "saveConfig W a1 = (r2, a2)" by force
  then have a2: "ap_routes a2 = ([], os)" "ap_bridge a2 = None"
    using saveConfig_same(3,4) [of W a1] os assms(5) by (simp_all add: a1_def)
  have idle: "tab (snd (after_stop W (setError e b))) = tab os" if "ap_routes b = ([], os)" "ap_bridge b = None" for e b
    using that by (simp add: after_stop_def setError_def)
  have "tab (snd (after_stop W (snd (app_start W seed gen_no psk addr transport split hops spread a)))) = tab os"
    unfolding run sv using idle [OF os assms(5)] idle [OF a2] bring_up_routes [OF assms(1,2) un a2] by (simp split: option.splits)
  then show ?thesis by (simp add: stop_routes os)
qed

section \<open>Witnesses\<close>

definition sample_app_cfg :: app_config where
  "sample_app_cfg = \<lparr>ac_seed = ''00'', ac_generation = 1, ac_psk = ''07'', ac_server = ''8.8.4.4:4789'', ac_transport = ''udp'',
     ac_split = True, ac_hops = 1, ac_spread = 0, ac_geoip = [], ac_tun_ip = ''10.99.0.5'', ac_servers = []\<rparr>"

definition sample_world :: "route_spec list world" where
  "sample_world = willing_world
     \<lparr>cl_cfg = client_config ''00'' 1 ''07'' ''8.8.4.4:4789'' ''udp'' 1 0, cl_tun = None, cl_gen = 1, cl_base = 1, cl_transport = Some ''udp''\<rparr>
     list_netsh"

definition sample_started :: "route_spec list app" where
  "sample_started = snd (app_start sample_world ''00'' 1 ''07'' ''8.8.4.4:4789'' [] True 1 0 (NewChimeraApp sample_app_cfg []))"

lemma sample_started_ok:
  "reach app_step (NewChimeraApp sample_app_cfg [], None) (sample_started, None)" "ap_status sample_started = Connected"
proof -
  show "reach app_step (NewChimeraApp sample_app_cfg [], None) (sample_started, None)"
    unfolding sample_started_def by (rule reach.reach_step [where step = app_step, OF reach.reach_start]) (rule step_start)
  have "app_inv (NewChimeraApp sample_app_cfg [])" by (rule new_app_inv) (simp add: sample_app_cfg_def server_keys_def)
  then have "link_inv (NewChimeraApp sample_app_cfg [])" by (rule app_invD)
  moreover have "start_error (trim_space ''00'') (trim_space ''07'') (trim_space ''8.8.4.4:4789'')
      (ac_transport (ap_cfg (NewChimeraApp sample_app_cfg ([] :: route_spec list)))) 1 0 = None"
    by code_simp
  ultimately show "ap_status sample_started = Connected"
    unfolding sample_started_def sample_world_def by (rule willing_start)
qed

theorem app_invariant_witness:
  "reach app_step (NewChimeraApp sample_app_cfg [], None) (sample_started, None) \<and> ap_bridge sample_started \<noteq> None"
  using app_invariant [OF sample_started_ok(1)] sample_started_ok by (simp add: sample_app_cfg_def server_keys_def)

theorem disconnect_is_final_witness:
  "ap_status sample_started = Connected \<and> ap_client (snd (app_Stop sample_world sample_started)) = None"
  using disconnect_is_final [OF sample_started_ok(1) _ reach.reach_start, where W = sample_world] sample_started_ok(2)
  by (simp add: sample_app_cfg_def server_keys_def)

theorem session_leaves_no_routes_witness:
  "set (snd (ap_routes (snd (app_Stop sample_world sample_started)))) = {}"
proof -
  have N: "w_netsh sample_world = list_netsh" by (simp add: sample_world_def willing_world_def)
  have "app_inv (NewChimeraApp sample_app_cfg [])" by (rule new_app_inv) (simp add: sample_app_cfg_def server_keys_def)
  then have "link_inv (NewChimeraApp sample_app_cfg [])" by (rule app_invD)
  from session_leaves_no_routes [OF _ _ _ this, of sample_world set] list_netsh_ok
  show ?thesis by (simp add: N unclaimed_def NewChimeraApp_def sample_started_def)
qed

end
