(* ===== verification/Linux_Client.thy ===== *)
theory Linux_Client
  imports Takeover Client
begin

text \<open>
  The Linux client (\<open>cmd/chimerac\<close>): its configuration (\<open>config.go\<close>), its sessions
  (\<open>session.go\<close>), the routes and resolvers it takes over (\<open>route_linux.go\<close>, \<open>dns_linux.go\<close>) and
  the loop that keeps the tunnel up (\<open>tun_linux.go\<close>). The tools \<open>ip\<close> and \<open>resolvectl\<close>, the core's
  connecting and the TUN device are parameters.
\<close>

section \<open>Configuration\<close>

record client_conf =
  cc_addr :: string
  cc_transport :: string
  cc_hops :: int
  cc_spread :: int
  cc_tls_ca :: string
  cc_tls_insecure :: bool
  cc_seed :: string
  cc_generation :: nat
  cc_psk :: string
  cc_cipher :: "cipher_suite option"
  cc_tun :: string
  cc_mtu :: int
  cc_take_route :: bool
  cc_cn_direct :: bool
  cc_geoip :: string
  cc_shape :: "int list"
  cc_mark :: bytes
  cc_transports :: "string list"
  cc_dns :: "string list"

definition defaultClientConfig :: client_conf where
  "defaultClientConfig =
     \<lparr>cc_addr = [], cc_transport = [], cc_hops = 0, cc_spread = 0, cc_tls_ca = [], cc_tls_insecure = False, cc_seed = [],
      cc_generation = 0, cc_psk = [], cc_cipher = None, cc_tun = ''chimerac0'', cc_mtu = 1400, cc_take_route = False,
      cc_cn_direct = False, cc_geoip = [], cc_shape = [], cc_mark = [], cc_transports = [], cc_dns = []\<rparr>"

text \<open>Reading and parsing the file over the defaults is \<open>file\<close>; it may not exist.\<close>

definition loadClientConfig :: "(client_conf \<Rightarrow> client_conf res) \<Rightarrow> client_conf res" where
  "loadClientConfig file =
     res_bind (file defaultClientConfig) (\<lambda>cfg.
       let cfg1 = (if cc_tun cfg = [] then cfg\<lparr>cc_tun := ''chimerac0''\<rparr> else cfg) in
       Inr (if cc_mtu cfg1 = 0 then cfg1\<lparr>cc_mtu := 1400\<rparr> else cfg1))"

definition loadClientConfigOrEmpty :: "bool res \<Rightarrow> (client_conf \<Rightarrow> client_conf res) \<Rightarrow> bool \<Rightarrow> client_conf res" where
  "loadClientConfigOrEmpty exists file inviteOK =
     (if inviteOK then
        (case exists of
           Inl e \<Rightarrow> Inl e
         | Inr False \<Rightarrow> Inr defaultClientConfig
         | Inr True \<Rightarrow> loadClientConfig file)
      else loadClientConfig file)"

definition isWorldReadable :: "nat \<Rightarrow> bool" where
  "isWorldReadable mode \<longleftrightarrow> mode AND 0x3F \<noteq> 0"

section \<open>Sessions\<close>

definition clientCoreConfig :: "client_conf \<Rightarrow> core_config" where
  "clientCoreConfig cfg =
     \<lparr>c_seed = cc_seed cfg, c_generation = cc_generation cfg, c_psk = cc_psk cfg, c_addr = cc_addr cfg,
      c_transport = cc_transport cfg, c_mode = StreamProbeOther [], c_decoy_timeout = 0, c_decoy_pending = 0, c_decoy_every = 0,
      c_decoy_max = 0, c_hop_count = cc_hops cfg, c_hop_spread = cc_spread cfg, c_rotation = 0, c_transports = cc_transports cfg,
      c_tls_cert = [], c_tls_key = [], c_tls_ca = cc_tls_ca cfg, c_tls_insecure = cc_tls_insecure cfg, c_cidr = [],
      c_cipher = cc_cipher cfg, c_keepalive = 25 * second, c_window = 2, c_idle = 0, c_rate = 0, c_max_sessions = 0,
      c_no_decoy = False, c_burst = 0, c_no_shape = False, c_shape = cc_shape cfg, c_mark = cc_mark cfg,
      c_jitter = DefaultJitterMax, c_replay = []\<rparr>"

text \<open>\<open>NewClient\<close> and \<open>StartContext\<close>, then the address; a client without an address is closed.\<close>

definition startClient :: "(core_config \<Rightarrow> client res) \<Rightarrow> (client \<Rightarrow> string res) \<Rightarrow> client_conf \<Rightarrow> (client \<times> string) res" where
  "startClient core assigned cfg =
     res_bind (core (clientCoreConfig cfg)) (\<lambda>c. res_bind (assigned c) (\<lambda>ip. Inr (c, ip)))"

definition nextBackoff :: "int \<Rightarrow> int" where
  "nextBackoff d = (if d \<le> 0 then second else let d2 = d * 2 in if 30 * second < d2 then 30 * second else d2)"

definition watchdogTick :: "int \<Rightarrow> int" where
  "watchdogTick lostAfter =
     (if lostAfter \<le> 0 then 5 * second
      else let t = lostAfter div 4; t1 = (if 5 * second < t then 5 * second else t) in
        if t1 < second div 20 then second div 20 else t1)"

text \<open>The first tick that sees a silence of \<open>lostAfter\<close>, of the silences seen at the ticks.\<close>

fun watchInbound :: "int \<Rightarrow> int list \<Rightarrow> nat option" where
  "watchInbound lostAfter [] = None"
| "watchInbound lostAfter (idle # idles) =
     (if lostAfter \<le> 0 then None else if lostAfter \<le> idle then Some 0 else map_option Suc (watchInbound lostAfter idles))"

section \<open>Routes\<close>

text \<open>\<open>strings.Fields\<close>\<close>

function fields_of :: "string \<Rightarrow> string list" where
  "fields_of s =
     (let r = dropWhile is_space s in
      if r = [] then [] else takeWhile (\<lambda>c. \<not> is_space c) r # fields_of (dropWhile (\<lambda>c. \<not> is_space c) r))"
  by pat_completeness auto
termination
proof (relation "measure length")
  fix s r :: string
  assume r: "r = dropWhile is_space s" "\<not> r = []"
  then have "\<not> is_space (hd r)" using hd_dropWhile [of is_space s] by simp
  with r(2) obtain c cs where "r = c # cs" "\<not> is_space c" by (cases r) simp_all
  moreover have "length r \<le> length s" by (simp add: r(1) length_dropWhile_le)
  ultimately show "(dropWhile (\<lambda>c. \<not> is_space c) r, s) \<in> measure length"
    using length_dropWhile_le [of "\<lambda>c. \<not> is_space c" cs] by simp
qed simp

declare fields_of.simps [simp del]

fun route_fields :: "string list \<Rightarrow> string \<times> string \<Rightarrow> string \<times> string" where
  "route_fields (f # g # fs) (dev, via) =
     route_fields (g # fs) (if f = ''dev'' then g else dev, if f = ''via'' then g else via)"
| "route_fields fs (dev, via) = (dev, via)"

definition parseRouteGetFields :: "string list \<Rightarrow> string \<times> string" where
  "parseRouteGetFields fs = route_fields fs ([], [])"

text \<open>
  \<open>ip route replace\<close> and \<open>ip route del\<close> with the family and the arguments, the output of
  \<open>ip -4 route get\<close>, and \<open>ip -batch\<close> with the lines of its file.
\<close>

record 'os iptool =
  ip_replace :: "bool \<Rightarrow> string list \<Rightarrow> 'os \<Rightarrow> bool \<times> 'os"
  ip_del :: "bool \<Rightarrow> string list \<Rightarrow> 'os \<Rightarrow> bool \<times> 'os"
  ip_get :: "string \<Rightarrow> 'os \<Rightarrow> string res"
  ip_batch :: "string list \<Rightarrow> 'os \<Rightarrow> bool \<times> 'os"

record linux_spec =
  ls_args :: "string list"
  ls_ipv6 :: bool

type_synonym 'os linux_routes = "linux_spec list \<times> 'os"

definition lookupUnderlay :: "'os iptool \<Rightarrow> bytes \<Rightarrow> 'os \<Rightarrow> (string \<times> string) res" where
  "lookupUnderlay T server os =
     res_bind (ip_get T (quad_string server) os) (\<lambda>out.
       case parseRouteGetFields (fields_of out) of
         (dev, via) \<Rightarrow> if dev = [] \<or> dev = ''lo'' then Inl ErrNet else Inr (dev, via))"

definition linux_add :: "'os iptool \<Rightarrow> bool \<Rightarrow> string list \<Rightarrow> 'os linux_routes \<Rightarrow> bool \<times> 'os linux_routes" where
  "linux_add T v6 args t =
     (case ip_replace T v6 args (snd t) of
        (ok, os) \<Rightarrow> if ok then (True, (fst t @ [\<lparr>ls_args = args, ls_ipv6 = v6\<rparr>], os)) else (False, (fst t, os)))"

definition linux_release :: "'os iptool \<Rightarrow> 'os linux_routes \<Rightarrow> bool \<times> 'os linux_routes" where
  "linux_release T t =
     (case fold (\<lambda>s (ok, os). case ip_del T (ls_ipv6 s) (ls_args s) os of (r, os1) \<Rightarrow> (ok \<and> r, os1)) (rev (fst t)) (True, snd t) of
        (ok, os) \<Rightarrow> (ok, ([], os)))"

text \<open>The route to one network over the underlay.\<close>

definition underlay_args :: "string \<Rightarrow> string \<Rightarrow> string \<Rightarrow> string list" where
  "underlay_args p dev via = p # (if via \<noteq> [] then [''via'', via] else []) @ [''dev'', dev]"

fun add_halves :: "'os iptool \<Rightarrow> string \<Rightarrow> string list \<Rightarrow> 'os linux_routes \<Rightarrow> bool \<times> 'os linux_routes" where
  "add_halves T tunName [] t = (True, t)"
| "add_halves T tunName (h # hs) t =
     (case linux_add T False [h, ''dev'', tunName] t of
        (True, t1) \<Rightarrow> add_halves T tunName hs t1
      | (False, t1) \<Rightarrow> (False, snd (linux_release T t1)))"

definition loopback_or_unspecified :: "bytes \<Rightarrow> bool" where
  "loopback_or_unspecified ip \<longleftrightarrow> ip ! 0 = 127 \<or> ip = [0, 0, 0, 0]"

definition installDefaultRoutes ::
  "'os iptool \<Rightarrow> (string \<Rightarrow> bytes list res) \<Rightarrow> string \<Rightarrow> string \<Rightarrow> 'os \<Rightarrow> linux_spec list res \<times> 'os" where
  "installDefaultRoutes T lookup tunName serverAddr os =
     (case ResolveIPv4 lookup (HostFromAddr serverAddr) of
        Inl e \<Rightarrow> (Inl e, os)
      | Inr serverIP \<Rightarrow>
          (if loopback_or_unspecified serverIP then (Inl ErrConfig, os)
           else case lookupUnderlay T serverIP os of
             Inl e \<Rightarrow> (Inl e, os)
           | Inr (dev, via) \<Rightarrow>
               (case linux_add T False (underlay_args (quad_string serverIP @ ''/32'') dev via) ([], os) of
                  (False, t) \<Rightarrow> (Inl ErrNet, snd t)
                | (True, t) \<Rightarrow>
                    (case add_halves T tunName [''0.0.0.0/1'', ''128.0.0.0/1''] t of
                       (False, t1) \<Rightarrow> (Inl ErrNet, snd t1)
                     | (True, t1) \<Rightarrow>
                         (let t2 = fold (\<lambda>h t. snd (linux_add T True [h, ''dev'', tunName] t)) [''::/1'', ''8000::/1''] t1 in
                          (Inr (fst t2), snd t2))))))"

text \<open>\<open>strings.Join\<close> with a blank\<close>

fun unwords :: "string list \<Rightarrow> string" where
  "unwords [] = []"
| "unwords [w] = w"
| "unwords (w # ws) = w @ '' '' @ unwords ws"

definition buildIPBatchLines :: "bool \<Rightarrow> string list list \<Rightarrow> string list" where
  "buildIPBatchLines ipv6 specs =
     map (\<lambda>args. (if ipv6 then ''-6'' else ''-4'') @ '' route replace '' @ unwords args) specs"

definition addBatch :: "'os iptool \<Rightarrow> bool \<Rightarrow> string list list \<Rightarrow> 'os \<Rightarrow> bool \<times> 'os" where
  "addBatch T ipv6 specs os = (if specs = [] then (True, os) else ip_batch T (buildIPBatchLines ipv6 specs) os)"

definition installCIDRDirectRoutes ::
  "'os iptool \<Rightarrow> (string \<Rightarrow> bytes list res) \<Rightarrow> string list \<Rightarrow> string \<Rightarrow> 'os linux_routes \<Rightarrow> nat res \<times> 'os linux_routes" where
  "installCIDRDirectRoutes T lookup cidrs serverAddr t =
     (case res_bind (ResolveIPv4 lookup (HostFromAddr serverAddr)) (\<lambda>ip. lookupUnderlay T ip (snd t)) of
        Inl e \<Rightarrow> (Inl e, t)
      | Inr (dev, via) \<Rightarrow>
          (let specs = map (\<lambda>c. underlay_args c dev via) cidrs;
               recorded = fst t @ map (\<lambda>args. \<lparr>ls_args = args, ls_ipv6 = False\<rparr>) specs in
           case addBatch T False specs (snd t) of
             (True, os) \<Rightarrow> (Inr (length specs), (recorded, os))
           | (False, os) \<Rightarrow> (Inl ErrNet, (recorded, os))))"

text \<open>The list of networks: of the database when it can be read, or the embedded one.\<close>

definition chnrouteCIDRs :: "string \<Rightarrow> string list" where
  "chnrouteCIDRs dat = filter (\<lambda>l. l \<noteq> [] \<and> \<not> prefix_of ''#'' l) (map trim_space (split_lines dat))"

definition cnRouteSource :: "(string \<Rightarrow> (bytes \<times> string) list res) \<Rightarrow> string \<Rightarrow> string \<Rightarrow> string list" where
  "cnRouteSource geo dat geoipDb =
     (if geoipDb = [] then chnrouteCIDRs dat
      else case geo geoipDb of
        Inl e \<Rightarrow> chnrouteCIDRs dat
      | Inr ps \<Rightarrow> map snd (filter (\<lambda>(ip, _). to4 ip \<noteq> None) ps))"

section \<open>Resolvers\<close>

text \<open>What \<open>resolvectl\<close> was told; \<open>None\<close>: nothing was changed.\<close>

definition pushTUNDNS :: "bool \<Rightarrow> (string \<Rightarrow> string list \<Rightarrow> bool) \<Rightarrow> string \<Rightarrow> string list \<Rightarrow> string list option" where
  "pushTUNDNS found set_dns tunName servers0 =
     (if tunName = [] then None
      else let servers = (if servers0 = [] then [''1.1.1.1'', ''8.8.8.8''] else servers0);
               ips = filter (\<lambda>s. parse_ip s \<noteq> None) (map trim_space servers) in
        if ips = [] then None
        else if \<not> found then None
        else if \<not> set_dns tunName ips then None
        else Some ips)"

section \<open>The tunnel\<close>

text \<open>
  What a run takes over before its loop (\<open>takeRoute\<close>, \<open>cnDirect\<close>) and gives back when it ends.
  \<open>None\<close>: no routes to release.
\<close>

definition take_over ::
  "'os iptool \<Rightarrow> (string \<Rightarrow> bytes list res) \<Rightarrow> bool \<Rightarrow> bool \<Rightarrow> string list \<Rightarrow> string \<Rightarrow> string \<Rightarrow> 'os \<Rightarrow> linux_spec list option \<times> 'os" where
  "take_over T lookup takeRoute cnDirect cidrs tunName serverAddr os =
     (if \<not> takeRoute then (None, os)
      else case installDefaultRoutes T lookup tunName serverAddr os of
        (Inl e, os1) \<Rightarrow> (None, os1)
      | (Inr specs, os1) \<Rightarrow>
          (case (if cnDirect then snd (installCIDRDirectRoutes T lookup cidrs serverAddr (specs, os1)) else (specs, os1)) of
             (specs1, os2) \<Rightarrow> (Some specs1, os2)))"

definition give_back :: "'os iptool \<Rightarrow> linux_spec list option \<times> 'os \<Rightarrow> 'os" where
  "give_back T t = (case fst t of None \<Rightarrow> snd t | Some specs \<Rightarrow> snd (snd (linux_release T (specs, snd t))))"

text \<open>
  The address of the device: the answers of \<open>ip addr add\<close>, with its output, and of \<open>ip link set\<close>.
\<close>

definition configureClientTUN :: "bool \<times> string \<Rightarrow> bool \<Rightarrow> error option" where
  "configureClientTUN add link =
     (if \<not> fst add \<and> \<not> has_substring ''file exists'' (to_lower (snd add)) then Some ErrNet
      else if link then None else Some ErrNet)"

definition configureClientTUN6 :: "string \<Rightarrow> string \<Rightarrow> bool \<times> string \<Rightarrow> error option" where
  "configureClientTUN6 name address add =
     (if name = [] \<or> address = [] then None
      else if \<not> fst add \<and> \<not> has_substring ''file exists'' (to_lower (snd add)) then Some ErrNet else None)"

text \<open>Up to the address of the device; with the client that was closed on the way out.\<close>

definition run_setup ::
  "(client \<times> string) res \<Rightarrow> string res \<Rightarrow> bool \<times> string \<Rightarrow> bool \<Rightarrow> (client \<times> string \<times> string) res \<times> client option" where
  "run_setup started device add link =
     (case started of
        Inl e \<Rightarrow> (Inl e, None)
      | Inr (c, ip) \<Rightarrow>
          (case device of
             Inl e \<Rightarrow> (Inl e, Some c)
           | Inr name \<Rightarrow>
               (case configureClientTUN add link of
                  Some e \<Rightarrow> (Inl e, Some c)
                | None \<Rightarrow> (Inr (c, ip, name), None))))"

text \<open>
  What the pumps forward: a packet of the device goes to the client that is current when it is read,
  and its errors are ignored; a packet of a client goes to the device, until either fails.
\<close>

fun pumpTunToNet :: "(bytes \<times> client option) list \<Rightarrow> (client \<times> bytes) list" where
  "pumpTunToNet [] = []"
| "pumpTunToNet ((pkt, None) # rs) = pumpTunToNet rs"
| "pumpTunToNet ((pkt, Some c) # rs) = (c, pkt) # pumpTunToNet rs"

fun pumpNetToTun :: "bytes res list \<Rightarrow> (bytes \<Rightarrow> bool) \<Rightarrow> bytes list" where
  "pumpNetToTun [] write = []"
| "pumpNetToTun (Inl e # rs) write = []"
| "pumpNetToTun (Inr pkt # rs) write = (if write pkt then pkt # pumpNetToTun rs write else [])"

text \<open>
  The loop's state: the addresses of the device, and the sessions before with whether the loop
  closed them.
\<close>

record vpn =
  vp_cfg :: client_conf
  vp_client :: client
  vp_assigned :: string
  vp_addrs :: "string list"
  vp_pause :: int
  vp_old :: "(client \<times> bool) list"

text \<open>The configuration for the next session: the newest generation, the transport that worked.\<close>

definition carry_over :: "client \<Rightarrow> client_conf \<Rightarrow> client_conf" where
  "carry_over cur cfg =
     (let cfg1 = (if WorkingTransport cur \<noteq> [] then cfg\<lparr>cc_transport := WorkingTransport cur\<rparr> else cfg) in
      if cc_generation cfg1 < BaseGeneration cur then cfg1\<lparr>cc_generation := BaseGeneration cur\<rparr> else cfg1)"

text \<open>
  The attempts to reconnect, over the outcome of each as far as they are known: the session with
  its address, the configuration, and the waits. \<open>None\<close>: still trying, or interrupted in a wait.
\<close>

fun reconnect ::
  "client \<Rightarrow> client_conf \<Rightarrow> int \<Rightarrow> (client_conf \<Rightarrow> (client \<times> string) res) list \<Rightarrow> int list \<Rightarrow> (client \<times> string \<times> client_conf \<times> int list) option" where
  "reconnect cur cfg pause [] waits = None"
| "reconnect cur cfg pause (start # starts) waits =
     (let cfg1 = carry_over cur cfg; waits1 = waits @ [max 0 pause] in
      case start cfg1 of
        Inr (next, ip) \<Rightarrow> Some (next, ip, cfg1, waits1)
      | Inl e \<Rightarrow> reconnect cur cfg1 (nextBackoff pause) starts waits1)"

datatype vpn_event = Interrupted | LinkLost | ReceiveEnded

text \<open>
  The device follows the address: the answers of \<open>ip addr del\<close> to the old one, and of \<open>ip addr add\<close> to
  the new one. That either fails is ignored, so a failed deletion leaves the old address in place.
\<close>

record addr_tool =
  ad_del :: "string \<Rightarrow> bool"
  ad_add :: "string \<Rightarrow> bool \<times> string"

definition readdress :: "addr_tool \<Rightarrow> string \<Rightarrow> string \<Rightarrow> string list \<Rightarrow> string list" where
  "readdress dev assigned ip addrs =
     (if ip = assigned then addrs
      else let addrs1 = (if assigned \<noteq> [] \<and> ad_del dev assigned then removeAll assigned addrs else addrs) in
        if fst (ad_add dev ip) then addrs1 @ [ip] else addrs1)"

text \<open>One turn of the loop; the program ends with \<open>None\<close> inside, a turn that still tries is \<open>None\<close>.\<close>

definition vpn_turn ::
  "addr_tool \<Rightarrow> vpn_event \<Rightarrow> (client_conf \<Rightarrow> (client \<times> string) res) list \<Rightarrow> vpn \<Rightarrow>
     (vpn option \<times> int list) option" where
  "vpn_turn dev ev starts v =
     (if ev = Interrupted then Some (None, [])
      else map_option (\<lambda>(next, ip, cfg, waits).
             (Some \<lparr>vp_cfg = cfg, vp_client = next, vp_assigned = ip, vp_addrs = readdress dev (vp_assigned v) ip (vp_addrs v), vp_pause = 0,
                    vp_old = vp_old v @ [(vp_client v, ev = LinkLost)]\<rparr>, waits))
           (reconnect (vp_client v) (vp_cfg v) (vp_pause v) starts []))"

end
