(* ===== verification/Linux_Client_Safety.thy ===== *)
theory Linux_Client_Safety
  imports Linux_Client Samples
begin

text \<open>
  Properties of the Linux client: how long it waits before each attempt to reconnect and with which
  generation it dials, and that the routes it takes over are given back.
\<close>

section \<open>Reconnecting\<close>

text \<open>The wait before attempt \<open>n\<close>: none, then one second doubled each time, up to half a minute.\<close>

definition wait_before :: "nat \<Rightarrow> int" where
  "wait_before n = (case n of 0 \<Rightarrow> 0 | Suc m \<Rightarrow> min (30 * second) (2 ^ m * second))"

lemma nextBackoff_wait: "nextBackoff (wait_before n) = wait_before (Suc n)"
proof (cases n)
  case (Suc m)
  have pos: "0 < wait_before n" by (simp add: wait_before_def Suc second_def)
  show ?thesis
  proof (cases "30 * second \<le> 2 ^ m * second")
    case True
    then have "30 * second \<le> 2 ^ Suc m * second" by (simp add: second_def)
    with True show ?thesis
      by (simp add: nextBackoff_def wait_before_def Suc Let_def min_def) (simp add: second_def)
  next
    case False
    then have "wait_before n = 2 ^ m * second" by (simp add: wait_before_def Suc)
    with pos show ?thesis by (simp add: nextBackoff_def wait_before_def Suc Let_def min_def)
  qed
qed (simp add: nextBackoff_def wait_before_def second_def)

lemma wait_before_bounds: "0 \<le> wait_before n" "wait_before n \<le> 30 * second"
  by (simp_all add: wait_before_def second_def split: nat.split)

lemma carry_over_idem [simp]: "carry_over cur (carry_over cur cfg) = carry_over cur cfg"
  by (simp add: carry_over_def Let_def)

lemma carry_over_generation: "cc_generation (carry_over cur cfg) = max (cc_generation cfg) (BaseGeneration cur)"
  by (simp add: carry_over_def Let_def max_def)

lemma reconnect_at:
  assumes "\<forall>i < n. \<exists>e. (starts ! i) (carry_over cur cfg) = Inl e" "n < length starts"
    "(starts ! n) (carry_over cur cfg) = Inr (next, ip)"
  shows "reconnect cur cfg (wait_before k) starts waits =
    Some (next, ip, carry_over cur cfg, waits @ map wait_before [k..<Suc (k + n)])"
  using assms
proof (induction n arbitrary: starts cfg k waits)
  case 0
  then show ?case by (cases starts) (simp_all add: Let_def wait_before_bounds max_def)
next
  case (Suc n)
  obtain s ss where s: "starts = s # ss" using Suc.prems(2) by (cases starts) simp_all
  obtain e where e: "s (carry_over cur cfg) = Inl e" using Suc.prems(1) s by fastforce
  have "\<exists>e. (ss ! i) (carry_over cur (carry_over cur cfg)) = Inl e" if "i < n" for i
    using Suc.prems(1) [rule_format, of "Suc i"] that s by simp
  then have "reconnect cur (carry_over cur cfg) (wait_before (Suc k)) ss (waits @ [wait_before k]) =
      Some (next, ip, carry_over cur cfg, (waits @ [wait_before k]) @ map wait_before [Suc k..<Suc (Suc k + n)])"
    using Suc.IH [of ss "carry_over cur cfg" "Suc k" "waits @ [wait_before k]"] Suc.prems(2,3) s by simp
  moreover have "[k..<Suc (k + Suc n)] = k # [Suc k..<Suc (Suc k + n)]" by (simp add: upt_rec)
  ultimately show ?case by (simp add: s e Let_def nextBackoff_wait wait_before_bounds max_def del: upt_Suc)
qed

lemma reconnect_none:
  assumes "\<forall>s \<in> set starts. \<exists>e. s (carry_over cur cfg) = Inl e"
  shows "reconnect cur cfg pause starts waits = None"
  using assms by (induction starts arbitrary: cfg pause waits) (auto simp: Let_def)

text \<open>
  C36. The client comes back as soon as the server does: when the link is lost and the first \<open>n\<close>
  attempts fail, attempt \<open>n\<close> makes the new session current; before it the client waited
  \<open>0, 1, 2, 4, 8, 16, 30, 30, \<dots>\<close> seconds, never more than half a minute at once, and it dialled
  with the newest generation it knew, so that the generation never goes backward. When the address changed and the device
  had the old one only: it has the new address and no other if \<open>ip addr del\<close> of the old one and \<open>ip addr add\<close> of the new one both succeed; it
  keeps the old one beside the new one if the deletion fails, which the client ignores; it has none if only the
  addition fails. When the address is the same, the device is left alone.
\<close>
theorem reconnect_schedule:
  assumes "ev \<noteq> Interrupted" "vp_pause v = 0" "n < length starts"
    "\<forall>i < n. \<exists>e. (starts ! i) (carry_over (vp_client v) (vp_cfg v)) = Inl e"
    "(starts ! n) (carry_over (vp_client v) (vp_cfg v)) = Inr (next, ip)"
  shows "\<exists>v' waits. vpn_turn dev ev starts v = Some (Some v', waits) \<and> vp_client v' = next \<and> vp_assigned v' = ip \<and>
      (ip = vp_assigned v \<longrightarrow> vp_addrs v' = vp_addrs v) \<and>
      (ip \<noteq> vp_assigned v \<and> vp_assigned v \<noteq> [] \<and> vp_addrs v = [vp_assigned v] \<longrightarrow>
         vp_addrs v' = (if ad_del dev (vp_assigned v) then [] else [vp_assigned v]) @ (if fst (ad_add dev ip) then [ip] else [])) \<and>
      vp_pause v' = 0 \<and> waits = map wait_before [0..<Suc n] \<and> (\<forall>w \<in> set waits. 0 \<le> w \<and> w \<le> 30 * second) \<and>
      cc_generation (vp_cfg v') = max (cc_generation (vp_cfg v)) (BaseGeneration (vp_client v))"
proof -
  have "reconnect (vp_client v) (vp_cfg v) (vp_pause v) starts [] =
      Some (next, ip, carry_over (vp_client v) (vp_cfg v), map wait_before [0..<Suc n])"
    using reconnect_at [OF assms(4,3,5), of 0 "[]"] assms(2) by (simp add: wait_before_def)
  then show ?thesis
    using assms(1) by (auto simp: vpn_turn_def readdress_def carry_over_generation wait_before_bounds simp del: upt_Suc)
qed

text \<open>A setup that fails leaves no client open.\<close>

lemma setup_closes:
  assumes "run_setup (Inr (c, ip)) device add link = (r, closed)"
  shows "(\<exists>name. r = Inr (c, ip, name) \<and> closed = None) \<or> (\<exists>e. r = Inl e \<and> closed = Some c)"
  using assms by (auto simp: run_setup_def split: sum.splits option.splits)

section \<open>Words\<close>

definition one_word :: "string \<Rightarrow> bool" where
  "one_word w \<longleftrightarrow> w \<noteq> [] \<and> (\<forall>c \<in> set w. \<not> is_space c)"

lemma fields_of_words: "w \<in> set (fields_of s) \<Longrightarrow> one_word w"
proof (induction s rule: fields_of.induct)
  case (1 s)
  let ?r = "dropWhile is_space s"
  show ?case
  proof (cases "?r = []")
    case True
    then show ?thesis using "1.prems" by (simp add: fields_of.simps [of s])
  next
    case False
    then have "\<not> is_space (hd ?r)" by (rule hd_dropWhile)
    with False have "one_word (takeWhile (\<lambda>c. \<not> is_space c) ?r)"
      by (cases ?r) (auto simp: one_word_def dest: set_takeWhileD)
    moreover have "w \<in> set (takeWhile (\<lambda>c. \<not> is_space c) ?r # fields_of (dropWhile (\<lambda>c. \<not> is_space c) ?r))"
      using "1.prems" False unfolding fields_of.simps [of s] Let_def by (simp only: if_False)
    ultimately show ?thesis using "1.IH" [OF refl False] by auto
  qed
qed

lemma fields_of_cons:
  assumes "one_word w" "s = [] \<or> is_space (hd s)"
  shows "fields_of (w @ s) = w # fields_of s"
proof -
  have "dropWhile is_space (w @ s) = w @ s" using assms(1) by (cases w) (simp_all add: one_word_def)
  moreover have "takeWhile (\<lambda>c. \<not> is_space c) (w @ s) = w" "dropWhile (\<lambda>c. \<not> is_space c) (w @ s) = s"
    using assms by (cases s; simp add: one_word_def takeWhile_append dropWhile_append)+
  ultimately show ?thesis using assms(1) by (simp add: fields_of.simps [of "w @ s"] one_word_def)
qed

lemma fields_of_blank: "is_space c \<Longrightarrow> fields_of (c # s) = fields_of s"
  by (simp add: fields_of.simps [of "c # s"] fields_of.simps [of s])

lemma blank [simp]: "is_space CHR '' ''"
  by (simp add: is_space_def)

text \<open>The words of a line of the batch are read back as they were written.\<close>

lemma fields_of_unwords: "\<forall>w \<in> set ws. one_word w \<Longrightarrow> fields_of (unwords ws) = ws"
proof (induction ws rule: unwords.induct)
  case 1
  show ?case by (simp add: fields_of.simps)
next
  case (2 w)
  then show ?case using fields_of_cons [of w "[]"] by (simp add: fields_of.simps [of "[]"])
next
  case (3 w v ws)
  then show ?case by (simp add: fields_of_cons fields_of_blank)
qed

lemma batch_line_words:
  assumes "\<forall>w \<in> set args. one_word w"
  shows "fields_of (hd (buildIPBatchLines v6 [args])) = (if v6 then ''-6'' else ''-4'') # ''route'' # ''replace'' # args"
proof -
  have "hd (buildIPBatchLines v6 [args]) = (if v6 then ''-6'' else ''-4'') @ CHR '' '' # ''route'' @ CHR '' '' # ''replace'' @ CHR '' '' # unwords args"
    by (simp add: buildIPBatchLines_def)
  moreover have "one_word (if v6 then ''-6'' else ''-4'')" "one_word ''route''" "one_word ''replace''"
    by (simp_all add: one_word_def is_space_def)
  ultimately show ?thesis by (simp only: fields_of_cons fields_of_blank fields_of_unwords [OF assms] blank simp_thms list.sel)
qed

lemma route_fields_in: "route_fields fs (dev, via) = (d, v) \<Longrightarrow> (d = dev \<or> d \<in> set fs) \<and> (v = via \<or> v \<in> set fs)"
  by (induction fs "(dev, via)" arbitrary: dev via rule: route_fields.induct) (fastforce split: if_splits)+

lemma lookupUnderlay_words:
  assumes "lookupUnderlay T ip os = Inr (dev, via)"
  shows "one_word dev" "via \<noteq> [] \<Longrightarrow> one_word via" "dev \<noteq> ''lo''"
proof -
  obtain out where out: "(case route_fields (fields_of out) ([], []) of
      (dev, via) \<Rightarrow> if dev = [] \<or> dev = ''lo'' then Inl ErrNet else Inr (dev, via)) = Inr (dev, via)"
    using assms unfolding lookupUnderlay_def parseRouteGetFields_def res_bind_Inr_iff by (elim exE conjE) (rule that)
  have "route_fields (fields_of out) ([], []) = (dev, via) \<and> dev \<noteq> [] \<and> dev \<noteq> ''lo''"
    using out by (cases "route_fields (fields_of out) ([], [])") (simp split: if_split_asm)
  then show "one_word dev" "via \<noteq> [] \<Longrightarrow> one_word via" "dev \<noteq> ''lo''"
    using route_fields_in [of "fields_of out" "[]" "[]" dev via] fields_of_words by auto
qed

section \<open>What ip is relied on for\<close>

text \<open>
  \<open>tab\<close> reads the tables of routes: for a family and a destination, the rest of the route.
  A \<open>replace\<close> that succeeds sets the route, a \<open>del\<close> that succeeds removes the route, which was there as it is
  named, a failure changes nothing; a batch sets no route but those of its lines. Any command may fail.
\<close>

definition ip_ok :: "'os iptool \<Rightarrow> ('os \<Rightarrow> bool \<times> string \<Rightarrow> string list option) \<Rightarrow> bool" where
  "ip_ok T tab \<longleftrightarrow>
     (\<forall>v6 args os. tab (snd (ip_replace T v6 args os)) =
        (if fst (ip_replace T v6 args os) then (tab os)((v6, hd args) \<mapsto> tl args) else tab os)) \<and>
     (\<forall>v6 args os. fst (ip_del T v6 args os) \<longrightarrow> tab os (v6, hd args) = Some (tl args)) \<and>
     (\<forall>v6 args os. tab (snd (ip_del T v6 args os)) =
        (if fst (ip_del T v6 args os) then (tab os)((v6, hd args) := None) else tab os)) \<and>
     (\<forall>specs os k. (\<forall>args \<in> set specs. args \<noteq> [] \<and> (\<forall>w \<in> set args. one_word w)) \<longrightarrow>
        tab (snd (ip_batch T (buildIPBatchLines False specs) os)) k \<noteq> tab os k \<longrightarrow>
        (\<exists>args \<in> set specs. k = (False, hd args) \<and> tab (snd (ip_batch T (buildIPBatchLines False specs) os)) k = Some (tl args)))"

lemma ip_okD:
  assumes "ip_ok T tab"
  shows "tab (snd (ip_replace T v6 args os)) = (if fst (ip_replace T v6 args os) then (tab os)((v6, hd args) \<mapsto> tl args) else tab os)"
    "tab (snd (ip_del T v6 args os)) = (if fst (ip_del T v6 args os) then (tab os)((v6, hd args) := None) else tab os)"
  using assms unfolding ip_ok_def by blast+

text \<open>A route that \<open>ip\<close> refuses to delete although it is there, and a tool that never does so.\<close>

definition del_refused :: "'os iptool \<Rightarrow> ('os \<Rightarrow> bool \<times> string \<Rightarrow> string list option) \<Rightarrow> bool \<times> string \<Rightarrow> string list \<Rightarrow> bool" where
  "del_refused T tab k rest \<longleftrightarrow> (\<exists>args os. hd args = snd k \<and> tl args = rest \<and> tab os k = Some rest \<and> \<not> fst (ip_del T (fst k) args os))"

definition del_accepts :: "'os iptool \<Rightarrow> ('os \<Rightarrow> bool \<times> string \<Rightarrow> string list option) \<Rightarrow> bool" where
  "del_accepts T tab \<longleftrightarrow> (\<forall>v6 args os. tab os (v6, hd args) = Some (tl args) \<longrightarrow> fst (ip_del T v6 args os))"

text \<open>No route of the user's own stands where the client puts one.\<close>

definition untouched :: "(string \<Rightarrow> bytes list res) \<Rightarrow> string list \<Rightarrow> string \<Rightarrow> (bool \<times> string \<Rightarrow> string list option) \<Rightarrow> bool" where
  "untouched lookup cidrs addr base \<longleftrightarrow>
     (\<forall>h \<in> {''0.0.0.0/1'', ''128.0.0.0/1''}. base (False, h) = None) \<and>
     (\<forall>h \<in> {''::/1'', ''8000::/1''}. base (True, h) = None) \<and>
     (\<forall>c \<in> set cidrs. base (False, c) = None) \<and>
     (case ResolveIPv4 lookup (HostFromAddr addr) of Inl e \<Rightarrow> True | Inr ip \<Rightarrow> base (False, quad_string ip @ ''/32'') = None)"

section \<open>Every change is recorded\<close>

definition spec_key :: "linux_spec \<Rightarrow> bool \<times> string" where
  "spec_key s = (ls_ipv6 s, hd (ls_args s))"

text \<open>Every difference is a recorded route, or one that was to be deleted and could not.\<close>

definition owned ::
  "'os iptool \<Rightarrow> ('os \<Rightarrow> bool \<times> string \<Rightarrow> string list option) \<Rightarrow> (bool \<times> string \<Rightarrow> string list option) \<Rightarrow>
     (bool \<times> string \<Rightarrow> string list option) \<Rightarrow> linux_spec set \<Rightarrow> bool" where
  "owned T tab base now S \<longleftrightarrow>
     (\<forall>s \<in> S. base (spec_key s) = None) \<and>
     (\<forall>k. now k \<noteq> base k \<longrightarrow> (\<exists>s \<in> S. spec_key s = k \<and> now k = Some (tl (ls_args s))) \<or>
        base k = None \<and> (\<exists>rest. now k = Some rest \<and> del_refused T tab k rest))"

lemma owned_extend:
  assumes "owned T tab base now S" "\<forall>s \<in> N. base (spec_key s) = None"
    "\<And>k. now' k \<noteq> now k \<Longrightarrow> \<exists>s \<in> N. spec_key s = k \<and> now' k = Some (tl (ls_args s))"
  shows "owned T tab base now' (S \<union> N)"
  unfolding owned_def
proof (intro conjI allI impI)
  show "\<forall>s \<in> S \<union> N. base (spec_key s) = None" using assms(1,2) by (auto simp: owned_def)
  fix k
  assume d: "now' k \<noteq> base k"
  show "(\<exists>s \<in> S \<union> N. spec_key s = k \<and> now' k = Some (tl (ls_args s))) \<or>
      base k = None \<and> (\<exists>rest. now' k = Some rest \<and> del_refused T tab k rest)"
  proof (cases "now' k = now k")
    case True
    with d assms(1) show ?thesis unfolding owned_def by (metis UnI1)
  next
    case False
    with assms(3) show ?thesis by blast
  qed
qed

lemma owned_start: "owned T tab base base {}"
  by (simp add: owned_def)

lemma owned_add:
  assumes "ip_ok T tab" "owned T tab base (tab (snd t)) (set (fst t))" "base (v6, hd args) = None" "linux_add T v6 args t = (ok, t')"
  shows "owned T tab base (tab (snd t')) (set (fst t')) \<and>
    (if ok then tab (snd t') = (tab (snd t))((v6, hd args) \<mapsto> tl args) else tab (snd t') = tab (snd t) \<and> fst t' = fst t)"
proof (cases "fst (ip_replace T v6 args (snd t))")
  case True
  then have t': "ok" "fst t' = fst t @ [\<lparr>ls_args = args, ls_ipv6 = v6\<rparr>]" "snd t' = snd (ip_replace T v6 args (snd t))"
    using assms(4) by (auto simp: linux_add_def split: prod.splits if_splits)
  have tab: "tab (snd t') = (tab (snd t))((v6, hd args) \<mapsto> tl args)"
    using True t'(3) by (simp add: ip_okD [OF assms(1)])
  have "owned T tab base (tab (snd t')) (set (fst t'))"
    using assms(2,3) unfolding owned_def tab t'(2) by (auto simp: spec_key_def)
  with t'(1) tab show ?thesis by simp
next
  case False
  then have "\<not> ok" "fst t' = fst t" "snd t' = snd (ip_replace T v6 args (snd t))"
    using assms(4) by (auto simp: linux_add_def split: prod.splits if_splits)
  with False assms(2) show ?thesis by (simp add: ip_okD [OF assms(1)])
qed

lemma owned_del:
  assumes "ip_ok T tab" "owned T tab base (tab os) (insert s S)"
  shows "owned T tab base (tab (snd (ip_del T (ls_ipv6 s) (ls_args s) os))) S"
proof (cases "fst (ip_del T (ls_ipv6 s) (ls_args s) os)")
  case True
  then have now: "tab (snd (ip_del T (ls_ipv6 s) (ls_args s) os)) = (tab os)(spec_key s := None)"
    by (simp add: ip_okD(2) [OF assms(1)] spec_key_def)
  have b: "base (spec_key s) = None" using assms(2) by (simp add: owned_def)
  show ?thesis
    unfolding owned_def now
  proof (intro conjI allI impI)
    show "\<forall>s \<in> S. base (spec_key s) = None" using assms(2) by (simp add: owned_def)
    fix k
    assume "((tab os)(spec_key s := None)) k \<noteq> base k"
    with b have k: "k \<noteq> spec_key s" "tab os k \<noteq> base k" by (auto split: if_splits)
    with assms(2) show "(\<exists>s' \<in> S. spec_key s' = k \<and> ((tab os)(spec_key s := None)) k = Some (tl (ls_args s'))) \<or>
        base k = None \<and> (\<exists>rest. ((tab os)(spec_key s := None)) k = Some rest \<and> del_refused T tab k rest)"
      unfolding owned_def by (metis fun_upd_other insertE)
  qed
next
  case False
  then have now: "tab (snd (ip_del T (ls_ipv6 s) (ls_args s) os)) = tab os" by (simp add: ip_okD(2) [OF assms(1)])
  have r: "del_refused T tab (spec_key s) (tl (ls_args s))" if "tab os (spec_key s) = Some (tl (ls_args s))"
    unfolding del_refused_def using False that by (intro exI [of _ "ls_args s"] exI [of _ os]) (simp add: spec_key_def)
  show ?thesis
    unfolding owned_def now
  proof (intro conjI allI impI)
    show "\<forall>s \<in> S. base (spec_key s) = None" using assms(2) by (simp add: owned_def)
    fix k
    assume "tab os k \<noteq> base k"
    moreover have "base (spec_key s) = None" using assms(2) by (simp add: owned_def)
    ultimately show "(\<exists>s' \<in> S. spec_key s' = k \<and> tab os k = Some (tl (ls_args s'))) \<or>
        base k = None \<and> (\<exists>rest. tab os k = Some rest \<and> del_refused T tab k rest)"
      using assms(2) r unfolding owned_def by (metis insertE)
  qed
qed

text \<open>Released, the table is what it was, but for routes that could not be deleted.\<close>

lemma owned_release:
  assumes "ip_ok T tab" "owned T tab base (tab (snd t)) (set (fst t))"
  shows "owned T tab base (tab (snd (snd (linux_release T t)))) {}"
proof -
  have "owned T tab base (tab os) (set ss) \<Longrightarrow> owned T tab base
      (tab (snd (fold (\<lambda>s (ok, os). case ip_del T (ls_ipv6 s) (ls_args s) os of (r, os1) \<Rightarrow> (ok \<and> r, os1)) ss (ok, os)))) {}" for ss ok os
  proof (induction ss arbitrary: ok os)
    case (Cons s ss)
    from owned_del [OF assms(1)] Cons.prems Cons.IH show ?case by (simp add: split_beta)
  qed simp
  from this [of "snd t" "rev (fst t)" True] assms(2) show ?thesis by (simp add: linux_release_def split_beta)
qed

section \<open>Taking over\<close>

definition through :: "string \<Rightarrow> string \<Rightarrow> (bool \<times> string \<Rightarrow> string list option) \<Rightarrow> bool \<times> string \<Rightarrow> string list option" where
  "through tun h m = m((False, h) \<mapsto> [''dev'', tun])"

lemma owned_halves:
  assumes "ip_ok T tab" "owned T tab base (tab (snd t)) (set (fst t))" "\<forall>h \<in> set hs. base (False, h) = None" "add_halves T tun hs t = (ok, t')"
  shows "if ok then owned T tab base (tab (snd t')) (set (fst t')) \<and>
      fold (through tun) hs (tab (snd t)) = tab (snd t') else owned T tab base (tab (snd t')) {}"
  using assms(2-4)
proof (induction hs arbitrary: t)
  case (Cons h hs)
  obtain r t1 where r: "linux_add T False [h, ''dev'', tun] t = (r, t1)" by (cases "linux_add T False [h, ''dev'', tun] t")
  have b: "base (False, hd [h, ''dev'', tun]) = None" using Cons.prems(2) by simp
  note o = owned_add [OF assms(1) Cons.prems(1) b r]
  have now: "r \<Longrightarrow> tab (snd t1) = through tun h (tab (snd t))" using o by (simp add: through_def)
  show ?case
  proof (cases r)
    case True
    with Cons.prems(3) r have "add_halves T tun hs t1 = (ok, t')" by simp
    from Cons.IH [OF conjunct1 [OF o] _ this] Cons.prems(2) now [OF True] show ?thesis by (cases ok) simp_all
  next
    case False
    with Cons.prems(3) r owned_release [OF assms(1) conjunct1 [OF o]] show ?thesis by auto
  qed
qed simp

lemma underlay_args_parts [simp]: "hd (underlay_args p dev via) = p"
    "tl (underlay_args p dev via) = (if via \<noteq> [] then [''via'', via] else []) @ [''dev'', dev]" "underlay_args p dev via \<noteq> []"
  by (simp_all add: underlay_args_def)

lemma owned_add_snd:
  assumes "ip_ok T tab" "owned T tab base (tab (snd t)) (set (fst t))" "base (v6, hd args) = None"
  shows "owned T tab base (tab (snd (snd (linux_add T v6 args t)))) (set (fst (snd (linux_add T v6 args t))))"
    "k \<noteq> (v6, hd args) \<Longrightarrow> tab (snd (snd (linux_add T v6 args t))) k = tab (snd t) k"
  using owned_add [OF assms, of "fst (linux_add T v6 args t)" "snd (linux_add T v6 args t)"] by (auto split: if_splits)

abbreviation leak_plugs :: "'os iptool \<Rightarrow> string \<Rightarrow> string list \<Rightarrow> 'os linux_routes \<Rightarrow> 'os linux_routes" where
  "leak_plugs T tun \<equiv> fold (\<lambda>h t. snd (linux_add T True [h, ''dev'', tun] t))"

lemma owned_leak_plugs:
  assumes "ip_ok T tab" "owned T tab base (tab (snd t)) (set (fst t))" "\<forall>h \<in> set hs. base (True, h) = None"
  shows "owned T tab base (tab (snd (leak_plugs T tun hs t))) (set (fst (leak_plugs T tun hs t))) \<and>
    (\<forall>h. tab (snd (leak_plugs T tun hs t)) (False, h) = tab (snd t) (False, h))"
  using assms(2,3)
proof (induction hs arbitrary: t)
  case (Cons h hs)
  have "base (True, hd [h, ''dev'', tun]) = None" using Cons.prems(2) by simp
  note A = owned_add_snd [OF assms(1) Cons.prems(1) this]
  from Cons.IH [OF A(1)] Cons.prems(2) A(2) show ?case by simp
qed simp

lemma Install_owned:
  assumes T: "ip_ok T tab" and u: "untouched lookup cidrs addr (tab os)"
    and inst: "installDefaultRoutes T lookup tun addr os = (r, os')"
  shows "case r of
      Inl e \<Rightarrow> owned T tab (tab os) (tab os') {}
    | Inr specs \<Rightarrow> owned T tab (tab os) (tab os') (set specs) \<and>
        (\<exists>ip dev via. ResolveIPv4 lookup (HostFromAddr addr) = Inr ip \<and> lookupUnderlay T ip os = Inr (dev, via) \<and>
           tab os' (False, quad_string ip @ ''/32'') = Some (tl (underlay_args (quad_string ip @ ''/32'') dev via)) \<and>
           (\<forall>h \<in> {''0.0.0.0/1'', ''128.0.0.0/1''}. tab os' (False, h) = Some [''dev'', tun]))"
proof (cases "res_bind (ResolveIPv4 lookup (HostFromAddr addr)) (\<lambda>ip.
    if loopback_or_unspecified ip then Inl ErrConfig else res_bind (lookupUnderlay T ip os) (\<lambda>u. Inr (ip, u)))")
  case (Inl e)
  then have "\<exists>e. r = Inl e" "os' = os"
    using inst by (auto simp: installDefaultRoutes_def res_bind_def split: sum.splits if_splits)
  then show ?thesis by (auto simp: owned_start)
next
  case (Inr x)
  then obtain ip dev via where ip: "ResolveIPv4 lookup (HostFromAddr addr) = Inr ip" "\<not> loopback_or_unspecified ip"
      "lookupUnderlay T ip os = Inr (dev, via)"
    by (auto simp: res_bind_Inr_iff split: if_splits)
  let ?k = "quad_string ip @ ''/32''"
  let ?halves = "[''0.0.0.0/1'', ''128.0.0.0/1'']"
  have free: "tab os (False, ?k) = None" "\<forall>h \<in> set ?halves. tab os (False, h) = None"
      "tab os (True, ''::/1'') = None" "tab os (True, ''8000::/1'') = None"
    using u ip(1) by (simp_all add: untouched_def)
  obtain r1 t1 where t1: "linux_add T False (underlay_args ?k dev via) ([], os) = (r1, t1)"
    by (cases "linux_add T False (underlay_args ?k dev via) ([], os)")
  obtain r2 t2 where t2: "add_halves T tun ?halves t1 = (r2, t2)" by (cases "add_halves T tun ?halves t1")
  have start: "owned T tab (tab os) (tab (snd ([] :: linux_spec list, os))) (set (fst ([] :: linux_spec list, os)))"
    by (simp add: owned_start)
  note o1 = owned_add [OF T start _ t1, simplified, OF free(1)]
  show ?thesis
  proof (cases "r1 \<and> r2")
    case False
    have "owned T tab (tab os) (tab os') {} \<and> (\<exists>e. r = Inl e)"
    proof (cases r1)
      case True
      with False have "r2 = False" by simp
      with owned_halves [OF T conjunct1 [OF o1] free(2) t2] inst ip t1 t2 True show ?thesis
        by (simp add: installDefaultRoutes_def del: add_halves.simps) auto
    next
      case r1: False
      with o1 inst ip t1 show ?thesis by (auto simp: installDefaultRoutes_def owned_start)
    qed
    then show ?thesis by auto
  next
    case True
    have o2_all: "owned T tab (tab os) (tab (snd t2)) (set (fst t2)) \<and>
        fold (through tun) ?halves (tab (snd t1)) = tab (snd t2)"
      using owned_halves [OF T conjunct1 [OF o1] free(2) t2] True by simp
    note o2 = conjunct1 [OF o2_all] conjunct2 [OF o2_all, symmetric]
    let ?t4 = "leak_plugs T tun [''::/1'', ''8000::/1''] t2"
    have o4: "owned T tab (tab os) (tab (snd ?t4)) (set (fst ?t4)) \<and> (\<forall>h. tab (snd ?t4) (False, h) = tab (snd t2) (False, h))"
      by (rule owned_leak_plugs [OF T o2(1)]) (simp add: free(3,4))
    have r: "r = Inr (fst ?t4)" "os' = snd ?t4"
      using inst ip t1 t2 True by (simp_all add: installDefaultRoutes_def Let_def del: add_halves.simps fold_simps)
    have "tab (snd t1) (False, ?k) = Some (tl (underlay_args ?k dev via))" using o1 True by simp
    moreover have "?k \<noteq> ''0.0.0.0/1''" "?k \<noteq> ''128.0.0.0/1''" by (rule notI, drule arg_cong [of _ _ last], simp)+
    ultimately show ?thesis using o4 ip by (simp add: r o2(2) through_def del: fold_simps)
  qed
qed

lemma owned_batch:
  assumes T: "ip_ok T tab" and o: "owned T tab base (tab (snd t)) (set (fst t))"
    and c: "\<forall>c \<in> set cidrs. one_word c \<and> base (False, c) = None"
  shows "owned T tab base (tab (snd (snd (installCIDRDirectRoutes T lookup cidrs addr t))))
    (set (fst (snd (installCIDRDirectRoutes T lookup cidrs addr t))))"
    and "k \<notin> Pair False ` set cidrs \<Longrightarrow> tab (snd (snd (installCIDRDirectRoutes T lookup cidrs addr t))) k = tab (snd t) k"
proof -
  have "owned T tab base (tab (snd (snd (installCIDRDirectRoutes T lookup cidrs addr t))))
      (set (fst (snd (installCIDRDirectRoutes T lookup cidrs addr t)))) \<and>
    (k \<notin> Pair False ` set cidrs \<longrightarrow> tab (snd (snd (installCIDRDirectRoutes T lookup cidrs addr t))) k = tab (snd t) k)"
  proof (cases "res_bind (ResolveIPv4 lookup (HostFromAddr addr)) (\<lambda>ip. lookupUnderlay T ip (snd t))")
    case (Inl e)
    with o show ?thesis by (simp add: installCIDRDirectRoutes_def)
  next
    case (Inr u)
    obtain dev via where u: "u = (dev, via)" by (cases u)
    let ?specs = "map (\<lambda>c. underlay_args c dev via) cidrs"
    let ?new = "map (\<lambda>args. \<lparr>ls_args = args, ls_ipv6 = False\<rparr>) ?specs"
    obtain ip where "lookupUnderlay T ip (snd t) = Inr (dev, via)" using Inr u by (auto simp: res_bind_Inr_iff)
    then have "one_word dev" "via \<noteq> [] \<Longrightarrow> one_word via" by (rule lookupUnderlay_words)+
    then have words: "\<forall>args \<in> set ?specs. args \<noteq> [] \<and> (\<forall>w \<in> set args. one_word w)"
      using c by (auto simp: underlay_args_def one_word_def is_space_def)
    have batch: "\<exists>s \<in> set ?new. spec_key s = k \<and> tab (snd (addBatch T False ?specs (snd t))) k = Some (tl (ls_args s))"
      if "tab (snd (addBatch T False ?specs (snd t))) k \<noteq> tab (snd t) k" for k
    proof -
      from that have "cidrs \<noteq> []" "tab (snd (ip_batch T (buildIPBatchLines False ?specs) (snd t))) k \<noteq> tab (snd t) k"
        by (auto simp: addBatch_def split: if_splits)
      with T words obtain args where "args \<in> set ?specs" "k = (False, hd args)"
          "tab (snd (ip_batch T (buildIPBatchLines False ?specs) (snd t))) k = Some (tl args)"
        unfolding ip_ok_def by blast
      with \<open>cidrs \<noteq> []\<close> show ?thesis by (auto simp: addBatch_def spec_key_def)
    qed
    have "\<forall>s \<in> set ?new. base (spec_key s) = None" using c by (auto simp: spec_key_def)
    from owned_extend [OF o this batch]
    have "owned T tab base (tab (snd (addBatch T False ?specs (snd t)))) (set (fst t @ ?new))" unfolding set_append .
    moreover have "k \<in> Pair False ` set cidrs" if "tab (snd (addBatch T False ?specs (snd t))) k \<noteq> tab (snd t) k"
      using batch [OF that] by (auto simp: spec_key_def)
    ultimately show ?thesis
      using Inr u by (cases "addBatch T False ?specs (snd t)") (auto simp: installCIDRDirectRoutes_def Let_def split: bool.split)
  qed
  then show "owned T tab base (tab (snd (snd (installCIDRDirectRoutes T lookup cidrs addr t))))
      (set (fst (snd (installCIDRDirectRoutes T lookup cidrs addr t))))"
    and "k \<notin> Pair False ` set cidrs \<Longrightarrow> tab (snd (snd (installCIDRDirectRoutes T lookup cidrs addr t))) k = tab (snd t) k"
    by blast+
qed

text \<open>
  C37. The Linux client takes over the default route without a loop and gives everything back. Where
  the user has no route of his own to the same destinations, then with whatever options it ran and
  whichever of the commands failed, a route of the table after the release that is not as before is one that \<open>ip\<close> refused to
  delete although it was there; if it refuses no such deletion, the table is the one before. And
  when the takeover succeeded, with or without direct networks, both halves of the address space go to the tunnel while the server
  itself stays on the device, and the next hop, by which it was reached before, provided that the listed direct networks are none of
  these three destinations.
\<close>
theorem linux_takeover:
  assumes "ip_ok T tab" "\<forall>c \<in> set cidrs. one_word c" "untouched lookup cidrs addr (tab os)"
  shows "(\<forall>k. tab (give_back T (take_over T lookup takeRoute cnDirect cidrs tun addr os)) k \<noteq> tab os k \<longrightarrow>
       tab os k = None \<and> (\<exists>rest. tab (give_back T (take_over T lookup takeRoute cnDirect cidrs tun addr os)) k = Some rest \<and> del_refused T tab k rest)) \<and>
    (del_accepts T tab \<longrightarrow> tab (give_back T (take_over T lookup takeRoute cnDirect cidrs tun addr os)) = tab os) \<and>
    (\<forall>specs os' ip. take_over T lookup True cnDirect cidrs tun addr os = (Some specs, os') \<and>
       ResolveIPv4 lookup (HostFromAddr addr) = Inr ip \<and>
       (cnDirect \<longrightarrow> set cidrs \<inter> {''0.0.0.0/1'', ''128.0.0.0/1'', quad_string ip @ ''/32''} = {}) \<longrightarrow>
       (\<exists>dev via. lookupUnderlay T ip os = Inr (dev, via) \<and> dev \<noteq> ''lo'' \<and>
          tab os' (False, quad_string ip @ ''/32'') = Some ((if via \<noteq> [] then [''via'', via] else []) @ [''dev'', dev]) \<and>
          (\<forall>h \<in> {''0.0.0.0/1'', ''128.0.0.0/1''}. tab os' (False, h) = Some [''dev'', tun])))"
proof -
  let ?after = "tab (give_back T (take_over T lookup takeRoute cnDirect cidrs tun addr os))"
  obtain r os1 where inst0: "installDefaultRoutes T lookup tun addr os = (r, os1)" by fastforce
  note inst = Install_owned [OF assms(1,3) inst0]
  have c: "\<forall>c \<in> set cidrs. one_word c \<and> tab os (False, c) = None" using assms(2,3) by (simp add: untouched_def)
  have left: "owned T tab (tab os) ?after {}"
  proof (cases r)
    case (Inl e)
    with inst0 inst show ?thesis by (auto simp: take_over_def give_back_def owned_start)
  next
    case (Inr specs)
    have o: "owned T tab (tab os) (tab (snd (specs, os1))) (set (fst (specs, os1)))" using inst Inr by simp
    from owned_release [OF assms(1) owned_batch(1) [OF assms(1) o c, of lookup addr]] owned_release [OF assms(1) o] inst0 Inr
    show ?thesis by (simp add: take_over_def give_back_def owned_start split_beta)
  qed
  then have A: "\<forall>k. ?after k \<noteq> tab os k \<longrightarrow> tab os k = None \<and> (\<exists>rest. ?after k = Some rest \<and> del_refused T tab k rest)"
    by (auto simp: owned_def)
  have B: "del_accepts T tab \<longrightarrow> ?after = tab os"
  proof (intro impI ext)
    fix k
    assume d: "del_accepts T tab"
    have "\<not> del_refused T tab k rest" for rest
      using d unfolding del_accepts_def del_refused_def by (metis prod.collapse)
    with A show "?after k = tab os k" by blast
  qed
  have R: "\<exists>dev via. lookupUnderlay T ip os = Inr (dev, via) \<and> dev \<noteq> ''lo'' \<and>
          tab os' (False, quad_string ip @ ''/32'') = Some ((if via \<noteq> [] then [''via'', via] else []) @ [''dev'', dev]) \<and>
          (\<forall>h \<in> {''0.0.0.0/1'', ''128.0.0.0/1''}. tab os' (False, h) = Some [''dev'', tun])"
    if t: "take_over T lookup True cnDirect cidrs tun addr os = (Some specs', os')" and ip: "ResolveIPv4 lookup (HostFromAddr addr) = Inr ip"
      and apart: "cnDirect \<longrightarrow> set cidrs \<inter> {''0.0.0.0/1'', ''128.0.0.0/1'', quad_string ip @ ''/32''} = {}" for specs' os' ip
  proof -
    obtain specs where r: "r = Inr specs" using t inst0 by (cases r) (auto simp: take_over_def)
    have o: "owned T tab (tab os) (tab (snd (specs, os1))) (set (fst (specs, os1)))" using inst r by simp
    obtain dev via where u: "lookupUnderlay T ip os = Inr (dev, via)"
        "tab os1 (False, quad_string ip @ ''/32'') = Some (tl (underlay_args (quad_string ip @ ''/32'') dev via))"
        "\<forall>h \<in> {''0.0.0.0/1'', ''128.0.0.0/1''}. tab os1 (False, h) = Some [''dev'', tun]"
      using inst [unfolded r sum.case] ip by auto
    have same: "tab os' (False, h) = tab os1 (False, h)" if "h \<in> {''0.0.0.0/1'', ''128.0.0.0/1'', quad_string ip @ ''/32''}" for h
    proof (cases cnDirect)
      case True
      with apart that have "(False, h) \<notin> Pair False ` set cidrs" by auto
      from owned_batch(2) [OF assms(1) o c this, of lookup addr] t inst0 r True show ?thesis by (simp add: take_over_def split_beta)
    next
      case False
      with t inst0 r show ?thesis by (simp add: take_over_def)
    qed
    with u(1) u(2) [unfolded underlay_args_parts] u(3) lookupUnderlay_words(3) [OF u(1)] show ?thesis by auto
  qed
  show ?thesis
  proof (intro conjI)
    show "\<forall>k. ?after k \<noteq> tab os k \<longrightarrow> tab os k = None \<and> (\<exists>rest. ?after k = Some rest \<and> del_refused T tab k rest)" by (fact A)
    show "del_accepts T tab \<longrightarrow> ?after = tab os" by (fact B)
  qed (intro allI impI, elim conjE, rule R)
qed

section \<open>Concrete runs\<close>

text \<open>A table of routes behind a default gateway, kept by a tool that never fails.\<close>

definition table_ip :: "(bool \<times> string \<Rightarrow> string list option) iptool" where
  "table_ip =
     \<lparr>ip_replace = \<lambda>v6 args os. (True, os((v6, hd args) \<mapsto> tl args)),
      ip_del = \<lambda>v6 args os. if os (v6, hd args) = Some (tl args) then (True, os((v6, hd args) := None)) else (False, os),
      ip_get = \<lambda>_ _. Inr ''192.0.2.7 via 10.0.0.1 dev eth0 src 10.0.0.9'',
      ip_batch = \<lambda>ls os. (True, fold (\<lambda>l os. os((False, fields_of l ! 3) \<mapsto> drop 4 (fields_of l))) ls os)\<rparr>"

lemma table_batch:
  assumes "\<forall>args \<in> set specs. args \<noteq> [] \<and> (\<forall>w \<in> set args. one_word w)"
    "fold (\<lambda>l os. os((False, fields_of l ! 3) \<mapsto> drop 4 (fields_of l))) (buildIPBatchLines False specs) os k = v" "v \<noteq> os k"
  shows "\<exists>args \<in> set specs. k = (False, hd args) \<and> v = Some (tl args)"
  using assms
proof (induction specs arbitrary: os)
  case (Cons a specs)
  have a: "fields_of (hd (buildIPBatchLines False [a])) = ''-4'' # ''route'' # ''replace'' # a"
    using Cons.prems(1) batch_line_words [of a False] by simp
  have lines: "buildIPBatchLines False (a # specs) = hd (buildIPBatchLines False [a]) # buildIPBatchLines False specs"
    by (simp add: buildIPBatchLines_def)
  have "a \<noteq> []" using Cons.prems(1) by simp
  then have ends: "(''-4'' # ''route'' # ''replace'' # a) ! 3 = hd a" "drop 4 (''-4'' # ''route'' # ''replace'' # a) = tl a"
    by (cases a; simp)+
  let ?os = "os((False, hd a) \<mapsto> tl a)"
  have run: "fold (\<lambda>l os. os((False, fields_of l ! 3) \<mapsto> drop 4 (fields_of l))) (buildIPBatchLines False specs) ?os k = v"
    using Cons.prems(2) by (simp only: lines fold_simps a ends)
  show ?case
  proof (cases "v = ?os k")
    case True
    with Cons.prems(3) show ?thesis by (auto split: if_splits)
  next
    case False
    from Cons.IH [OF _ run False] Cons.prems(1) show ?thesis by auto
  qed
qed (simp add: buildIPBatchLines_def)

lemma table_ip_ok: "ip_ok table_ip (\<lambda>os. os)"
  unfolding ip_ok_def by (auto simp: table_ip_def intro: table_batch [OF _ refl] simp del: split_paired_All)

lemma table_del_accepts: "del_accepts table_ip (\<lambda>os. os)"
  by (simp add: del_accepts_def table_ip_def)

theorem linux_takeover_witness:
  "give_back table_ip (take_over table_ip (\<lambda>_. Inl ErrNet) True True [''203.0.113.0/24''] ''chimerac0'' ''192.0.2.7:443'' (\<lambda>_. None)) = (\<lambda>_. None) \<and>
   (\<exists>specs os'. take_over table_ip (\<lambda>_. Inl ErrNet) True True [''203.0.113.0/24''] ''chimerac0'' ''192.0.2.7:443'' (\<lambda>_. None) = (Some specs, os') \<and>
      os' (False, ''0.0.0.0/1'') = Some [''dev'', ''chimerac0''] \<and> os' (False, ''192.0.2.7/32'') = Some [''via'', ''10.0.0.1'', ''dev'', ''eth0''])"
proof -
  let ?run = "take_over table_ip (\<lambda>_. Inl ErrNet) True True [''203.0.113.0/24''] ''chimerac0'' ''192.0.2.7:443'' (\<lambda>_. None)"
  have h: "\<forall>c \<in> set [''203.0.113.0/24'']. one_word c"
    "untouched (\<lambda>_. Inl ErrNet) [''203.0.113.0/24''] ''192.0.2.7:443'' (\<lambda>_. None)"
    by (simp_all add: one_word_def is_space_def untouched_def split: sum.split)
  note L = linux_takeover [of table_ip "\<lambda>os. os" _ _ _ "\<lambda>_. None", OF table_ip_ok h, where takeRoute = True and cnDirect = True and tun = "''chimerac0''"]
  have "fst ?run \<noteq> None" by code_simp
  then obtain specs os' where run: "?run = (Some specs, os')" by (cases ?run) auto
  have ip: "ResolveIPv4 (\<lambda>_. Inl ErrNet) (HostFromAddr ''192.0.2.7:443'') = Inr [192, 0, 2, 7]" "quad_string [192, 0, 2, 7] @ ''/32'' = ''192.0.2.7/32''"
    by code_simp+
  have apart: "set [''203.0.113.0/24''] \<inter> {''0.0.0.0/1'', ''128.0.0.0/1'', quad_string [192, 0, 2, 7] @ ''/32''} = {}" unfolding ip(2) by simp
  have "?run = (Some specs, os') \<and> ResolveIPv4 (\<lambda>_. Inl ErrNet) (HostFromAddr ''192.0.2.7:443'') = Inr [192, 0, 2, 7] \<and>
      (True \<longrightarrow> set [''203.0.113.0/24''] \<inter> {''0.0.0.0/1'', ''128.0.0.0/1'', quad_string [192, 0, 2, 7] @ ''/32''} = {})"
    using run ip(1) apart by simp
  from L [THEN conjunct2, THEN conjunct2, THEN spec, THEN spec, THEN spec, THEN mp, OF this] obtain dev via where r:
    "lookupUnderlay table_ip [192, 0, 2, 7] (\<lambda>_. None) = Inr (dev, via)"
    "os' (False, quad_string [192, 0, 2, 7] @ ''/32'') = Some ((if via \<noteq> [] then [''via'', via] else []) @ [''dev'', dev])"
    "os' (False, ''0.0.0.0/1'') = Some [''dev'', ''chimerac0'']" by blast
  have "lookupUnderlay table_ip [192, 0, 2, 7] (\<lambda>_. None) = Inr (''eth0'', ''10.0.0.1'')" by code_simp
  with r have "os' (False, ''192.0.2.7/32'') = Some [''via'', ''10.0.0.1'', ''dev'', ''eth0'']" unfolding ip(2) by auto
  moreover have "give_back table_ip ?run = (\<lambda>_. None)" by (rule L [THEN conjunct2, THEN conjunct1, THEN mp, OF table_del_accepts])
  ultimately show ?thesis using run r(3) by blast
qed

text \<open>
  Without that hypothesis a route is lost: a user who reaches the server over another device by a
  route of his own no longer has it after the run.
\<close>

lemma own_route_lost:
  "give_back table_ip (take_over table_ip (\<lambda>_. Inl ErrNet) True False [] ''chimerac0'' ''192.0.2.7:443''
     ((\<lambda>_. None)((False, ''192.0.2.7/32'') \<mapsto> [''dev'', ''eth1'']))) (False, ''192.0.2.7/32'') = None"
  by code_simp

theorem reconnect_schedule_witness:
  "\<exists>v'. vpn_turn \<lparr>ad_del = \<lambda>_. True, ad_add = \<lambda>_. (True, [])\<rparr> LinkLost (replicate 6 (\<lambda>_. Inl ErrTimeout) @ [\<lambda>_. Inr (new_client, ''10.0.0.3'')])
     \<lparr>vp_cfg = defaultClientConfig, vp_client = new_client, vp_assigned = ''10.0.0.2'', vp_addrs = [''10.0.0.2''], vp_pause = 0, vp_old = []\<rparr> =
       Some (Some v', map wait_before [0..<7]) \<and> vp_assigned v' = ''10.0.0.3'' \<and> vp_addrs v' = [''10.0.0.3''] \<and> cc_generation (vp_cfg v') = 5"
proof -
  let ?v = "\<lparr>vp_cfg = defaultClientConfig, vp_client = new_client, vp_assigned = ''10.0.0.2'', vp_addrs = [''10.0.0.2''], vp_pause = 0, vp_old = []\<rparr>"
  let ?starts = "replicate 6 (\<lambda>_ :: client_conf. Inl ErrTimeout) @ [\<lambda>_. Inr (new_client, ''10.0.0.3'')]"
  have "\<forall>i < 6. \<exists>e. (?starts ! i) (carry_over (vp_client ?v) (vp_cfg ?v)) = Inl e"
    "(?starts ! 6) (carry_over (vp_client ?v) (vp_cfg ?v)) = Inr (new_client, ''10.0.0.3'')" "6 < length ?starts"
    by (simp_all add: nth_append)
  from reconnect_schedule [of LinkLost ?v 6, OF _ _ this(3,1,2), of "\<lparr>ad_del = \<lambda>_. True, ad_add = \<lambda>_. (True, [])\<rparr>"] show ?thesis
    by (auto simp: defaultClientConfig_def new_client_fields simp del: upt_Suc)
qed

end
