(* ===== verification/Invite.thy ===== *)
theory Invite
  imports Linux_Client
begin

text \<open>
  Share links (\<open>internal/invite/invite.go\<close>): formatting a profile as \<open>chimera://v1/\<dots>\<close> and parsing
  a link, a link buried in text, a query URL or a pasted client configuration. Base64 is written
  out; the parsers of JSON and of URLs are parameters. The theory closes with the round trip.
\<close>

section \<open>Base64 for URLs\<close>

definition b64_alphabet :: string where
  "b64_alphabet = ''ABCDEFGHIJKLMNOPQRSTUVWXYZabcdefghijklmnopqrstuvwxyz0123456789-_''"

definition b64_char :: "nat \<Rightarrow> char" where
  "b64_char n = b64_alphabet ! n"

definition b64_val :: "char \<Rightarrow> nat option" where
  "b64_val c =
     (let n = (of_char c :: nat) in
      if 65 \<le> n \<and> n \<le> 90 then Some (n - 65)
      else if 97 \<le> n \<and> n \<le> 122 then Some (n - 71)
      else if 48 \<le> n \<and> n \<le> 57 then Some (n + 4)
      else if n = 45 then Some 62
      else if n = 95 then Some 63
      else None)"

text \<open>Groups of six bits, the last one filled with zeros.\<close>

fun to_sextets :: "nat list \<Rightarrow> nat list" where
  "to_sextets [] = []"
| "to_sextets [a] = [a div 4, a mod 4 * 16]"
| "to_sextets [a, b] = [a div 4, a mod 4 * 16 + b div 16, b mod 16 * 4]"
| "to_sextets (a # b # c # r) = [a div 4, a mod 4 * 16 + b div 16, b mod 16 * 4 + c div 64, c mod 64] @ to_sextets r"

fun of_sextets :: "nat list \<Rightarrow> nat list option" where
  "of_sextets [] = Some []"
| "of_sextets [x] = None"
| "of_sextets [x, y] = Some [x * 4 + y div 16]"
| "of_sextets [x, y, z] = Some [x * 4 + y div 16, y mod 16 * 16 + z div 4]"
| "of_sextets (x # y # z # w # r) =
     map_option ((@) [x * 4 + y div 16, y mod 16 * 16 + z div 4, z mod 4 * 64 + w]) (of_sextets r)"

text \<open>A string is its bytes; the decoders skip line ends, the second one wants the padding.\<close>

definition raw_url_encode :: "string \<Rightarrow> string" where
  "raw_url_encode s = map b64_char (to_sextets (map of_char s))"

definition no_line_ends :: "string \<Rightarrow> string" where
  "no_line_ends = filter (\<lambda>c. c \<noteq> CHR 0x0A \<and> c \<noteq> CHR 0x0D)"

definition raw_url_decode :: "string \<Rightarrow> string option" where
  "raw_url_decode s = map_option (map char_of) (Option.bind (those (map b64_val (no_line_ends s))) of_sextets)"

definition drop_padding :: "string \<Rightarrow> string" where
  "drop_padding s =
     (if prefix_of ''=='' (rev s) then rev (drop 2 (rev s))
      else if prefix_of ''='' (rev s) then rev (drop 1 (rev s)) else s)"

definition url_decode :: "string \<Rightarrow> string option" where
  "url_decode s =
     (let t = no_line_ends s in if length t mod 4 \<noteq> 0 then None else raw_url_decode (drop_padding t))"

section \<open>Profiles\<close>

record profile =
  pf_addr :: string
  pf_seed :: string
  pf_psk :: string
  pf_gen :: nat
  pf_name :: string

record wire =
  wi_v :: int
  wi_addr :: string
  wi_seed :: string
  wi_psk :: string
  wi_gen :: nat
  wi_name :: string

text \<open>
  \<open>json.Marshal\<close> and \<open>json.Unmarshal\<close> of \<open>wire\<close>, \<open>json.Unmarshal\<close> of an object, with a number as whether
  it is negative and what the conversion to \<open>uint64\<close> makes of it, and the first value of a key in
  the query of a URL, empty when it has none.
\<close>

datatype json_value = JNumber bool nat | JString string | JOther

record parsers =
  ps_marshal :: "wire \<Rightarrow> string"
  ps_wire :: "string \<Rightarrow> wire res"
  ps_object :: "string \<Rightarrow> (string \<Rightarrow> json_value option) res"
  ps_query :: "string \<Rightarrow> (string \<Rightarrow> string) res"

definition trim_0x :: "string \<Rightarrow> string" where
  "trim_0x s = (if prefix_of ''0x'' s then drop 2 s else s)"

definition normHex :: "string \<Rightarrow> string res" where
  "normHex s0 =
     (let s = trim_0x (trim_space (to_lower s0)) in
      if length s \<noteq> 64 then Inl ErrKeySize else if hex_decode s = None then Inl ErrHex else Inr s)"

definition invite_normalize :: "profile \<Rightarrow> profile res" where
  "invite_normalize p =
     res_bind (normHex (pf_seed p)) (\<lambda>seed.
     res_bind (normHex (pf_psk p)) (\<lambda>psk.
       if trim_space (pf_addr p) = [] then Inl ErrConfig
       else Inr \<lparr>pf_addr = trim_space (pf_addr p), pf_seed = seed, pf_psk = psk, pf_gen = pf_gen p,
              pf_name = trim_space (pf_name p)\<rparr>))"

section \<open>Formatting and parsing\<close>

definition schemePrefix :: string where
  "schemePrefix = ''chimera://v1/''"

definition to_wire :: "profile \<Rightarrow> wire" where
  "to_wire p =
     \<lparr>wi_v = 1, wi_addr = pf_addr p, wi_seed = pf_seed p, wi_psk = pf_psk p, wi_gen = pf_gen p, wi_name = pf_name p\<rparr>"

definition invite_Format :: "parsers \<Rightarrow> profile \<Rightarrow> string res" where
  "invite_Format J p = res_bind (invite_normalize p) (\<lambda>norm. Inr (schemePrefix @ raw_url_encode (ps_marshal J (to_wire norm))))"

definition trim_slashes :: "string \<Rightarrow> string" where
  "trim_slashes s = rev (dropWhile (\<lambda>c. c = CHR ''/'') (rev s))"

definition parseV1 :: "parsers \<Rightarrow> string \<Rightarrow> profile res" where
  "parseV1 J payload0 =
     (let payload = trim_slashes (trim_space payload0) in
      case (case raw_url_decode payload of None \<Rightarrow> url_decode payload | Some raw \<Rightarrow> Some raw) of
        None \<Rightarrow> Inl ErrConfig
      | Some raw \<Rightarrow>
          res_bind (ps_wire J raw) (\<lambda>w.
            if wi_v w \<noteq> 0 \<and> wi_v w \<noteq> 1 then Inl ErrConfig
            else invite_normalize \<lparr>pf_addr = wi_addr w, pf_seed = wi_seed w, pf_psk = wi_psk w, pf_gen = wi_gen w, pf_name = wi_name w\<rparr>))"

fun first_value :: "(string \<Rightarrow> string) \<Rightarrow> string list \<Rightarrow> string" where
  "first_value q [] = []"
| "first_value q (k # ks) = (if trim_space (q k) \<noteq> [] then trim_space (q k) else first_value q ks)"

text \<open>\<open>strconv.ParseUint\<close>\<close>

definition parse_generation :: "string \<Rightarrow> nat res" where
  "parse_generation s =
     (if s = [] then Inr 0
      else case parse_nat s of None \<Rightarrow> Inl ErrConfig | Some n \<Rightarrow> if n < 2 ^ 64 then Inr n else Inl ErrConfig)"

definition parseConnect :: "parsers \<Rightarrow> string \<Rightarrow> profile res" where
  "parseConnect J rawURL =
     res_bind (ps_query J rawURL) (\<lambda>q.
     res_bind (parse_generation (first_value q [''generation'', ''g''])) (\<lambda>gen_no.
       invite_normalize \<lparr>pf_addr = first_value q [''addr'', ''server'', ''serverAddr''], pf_seed = first_value q [''seed'', ''seedHex''],
         pf_psk = first_value q [''psk'', ''pskHex''], pf_gen = gen_no, pf_name = first_value q [''name'', ''n'']\<rparr>))"

fun jsonString :: "(string \<Rightarrow> json_value option) \<Rightarrow> string list \<Rightarrow> string" where
  "jsonString m [] = []"
| "jsonString m (k # ks) =
     (case m k of
        Some (JString v) \<Rightarrow> if trim_space v \<noteq> [] then trim_space v else jsonString m ks
      | _ \<Rightarrow> jsonString m ks)"

definition json_generation :: "json_value option \<Rightarrow> nat res" where
  "json_generation v =
     (case v of
        Some (JNumber neg n) \<Rightarrow> if neg then Inl ErrConfig else Inr n
      | Some (JString s) \<Rightarrow> parse_generation s
      | _ \<Rightarrow> Inr 0)"

definition parseJSON :: "parsers \<Rightarrow> string \<Rightarrow> profile res" where
  "parseJSON J s =
     res_bind (ps_object J s) (\<lambda>m.
     res_bind (json_generation (m ''generation'')) (\<lambda>gen_no.
       invite_normalize \<lparr>pf_addr = jsonString m [''serverAddr'', ''a'', ''addr''], pf_seed = jsonString m [''seedHex'', ''s'', ''seed_hex''],
         pf_psk = jsonString m [''pskHex'', ''p'', ''psk_hex''], pf_gen = gen_no, pf_name = jsonString m [''name'', ''n'']\<rparr>))"

text \<open>\<open>strings.Index\<close>, as what follows from there.\<close>

fun from_first :: "string \<Rightarrow> string \<Rightarrow> string option" where
  "from_first p [] = (if p = [] then Some [] else None)"
| "from_first p (c # cs) = (if prefix_of p (c # cs) then Some (c # cs) else from_first p cs)"

definition ends_link :: "char \<Rightarrow> bool" where
  "ends_link c \<longleftrightarrow> c \<in> {CHR '' '', CHR 0x09, CHR 0x0D, CHR 0x0A, CHR ''<'', CHR ''>'', CHR 0x22, CHR 0x27}"

fun extract_with :: "string list \<Rightarrow> string \<Rightarrow> string" where
  "extract_with [] s = []"
| "extract_with (p # ps) s =
     (case from_first p s of None \<Rightarrow> extract_with ps s | Some rest \<Rightarrow> takeWhile (\<lambda>c. \<not> ends_link c) rest)"

definition extractURL :: "string \<Rightarrow> string" where
  "extractURL s = extract_with [''chimera://v1/'', ''chimera://connect''] s"

definition invite_Parse :: "parsers \<Rightarrow> string \<Rightarrow> profile res" where
  "invite_Parse J text0 =
     (let t = trim_space text0 in
      if t = [] then Inl ErrConfig
      else
        let s = (if extractURL t \<noteq> [] then extractURL t else t) in
        if prefix_of ''{'' s then parseJSON J s
        else if prefix_of ''chimera://v1/'' s then parseV1 J (drop (length ''chimera://v1/'') s)
        else if prefix_of ''chimera://connect'' s then parseConnect J s
        else Inl ErrConfig)"

section \<open>Base64 reads back\<close>

lemma of_to_sextets: "\<forall>a \<in> set bs. a < 256 \<Longrightarrow> of_sextets (to_sextets bs) = Some bs"
proof (induction bs rule: to_sextets.induct)
  case (4 a b c r)
  have "b div 16 < 16" "c div 64 < 4" using "4.prems" by (simp_all add: less_mult_imp_div_less)
  then show ?case using 4 by (simp add: div_mult_mod_eq)
qed (auto simp: less_mult_imp_div_less)

lemma to_sextets_small: "\<forall>a \<in> set bs. a < 256 \<Longrightarrow> x \<in> set (to_sextets bs) \<Longrightarrow> x < 64"
proof (induction bs rule: to_sextets.induct)
  case (2 a)
  then show ?case by (auto simp: less_mult_imp_div_less)
next
  case (3 a b)
  then have "b div 16 < 16" "a div 4 < 64" by (simp_all add: less_mult_imp_div_less)
  with 3 show ?case by auto
next
  case (4 a b c r)
  then have "b div 16 < 16" "a div 4 < 64" "c div 64 < 4" by (simp_all add: less_mult_imp_div_less)
  with 4 show ?case by auto
qed simp

lemma to_sextets_length: "length (to_sextets bs) mod 4 \<noteq> 1"
  by (induction bs rule: to_sextets.induct) simp_all

text \<open>What a character of the alphabet is not.\<close>

definition link_char :: "char \<Rightarrow> bool" where
  "link_char c \<longleftrightarrow> \<not> ends_link c \<and> \<not> is_space c \<and> c \<notin> {CHR ''='', CHR ''/'', CHR 0x0A, CHR 0x0D}"

lemma b64_char_ok:
  assumes "n < 64"
  shows "b64_val (b64_char n) = Some n" "link_char (b64_char n)"
proof -
  have vals: "map b64_val b64_alphabet = map Some [0..<64]" by code_simp
  have chars: "list_all link_char b64_alphabet" by code_simp
  have n: "n < length b64_alphabet" using assms by (simp add: b64_alphabet_def)
  have "b64_val (b64_alphabet ! n) = map b64_val b64_alphabet ! n" by (rule nth_map [OF n, symmetric])
  also have "\<dots> = map Some [0..<64] ! n" by (rule arg_cong [OF vals])
  also have "\<dots> = Some n" using assms by (simp add: nth_map nth_upt del: upt_rec_numeral)
  finally show "b64_val (b64_char n) = Some n" by (simp add: b64_char_def)
  show "link_char (b64_char n)" using chars n unfolding b64_char_def list_all_length by blast
qed

lemma those_b64: "\<forall>n \<in> set ns. n < 64 \<Longrightarrow> those (map b64_val (map b64_char ns)) = Some ns"
  by (induction ns) (simp_all add: b64_char_ok)

lemma char_bytes: "\<forall>a \<in> set (map of_char s). a < (256 :: nat)"
  by auto

lemma raw_url_chars: "c \<in> set (raw_url_encode s) \<Longrightarrow> link_char c"
  using to_sextets_small [OF char_bytes [of s]] b64_char_ok(2) by (auto simp: raw_url_encode_def)

lemma no_line_ends_id: "\<forall>c \<in> set s. link_char c \<or> c = CHR ''='' \<Longrightarrow> no_line_ends s = s"
  by (auto simp: no_line_ends_def filter_id_conv link_char_def)

lemma raw_url_roundtrip: "raw_url_decode (raw_url_encode s) = Some s"
proof -
  have "no_line_ends (raw_url_encode s) = raw_url_encode s" by (rule no_line_ends_id) (simp add: raw_url_chars)
  then show ?thesis
    using those_b64 [of "to_sextets (map of_char s)"] to_sextets_small [OF char_bytes [of s]] of_to_sextets [OF char_bytes [of s]]
    by (simp add: raw_url_decode_def raw_url_encode_def)
qed

text \<open>The same with the padding that a messenger may have put back.\<close>

definition padding_for :: "string \<Rightarrow> string" where
  "padding_for s = replicate ((4 - length s mod 4) mod 4) CHR ''=''"

lemma padded_not_raw: "k \<noteq> 0 \<Longrightarrow> raw_url_decode (s @ replicate k CHR ''='') = None"
proof -
  assume "k \<noteq> 0"
  then obtain j where "k = Suc j" by (cases k) simp_all
  moreover have "b64_val CHR ''='' = None" by code_simp
  moreover have "those (xs @ None # ys) = None" for xs ys :: "nat option list"
    by (induction xs) (auto split: option.split)
  ultimately show ?thesis by (simp add: raw_url_decode_def no_line_ends_def)
qed

lemma padded_decode:
  assumes "\<forall>c \<in> set s. link_char c" "length s mod 4 \<noteq> 1"
  shows "url_decode (s @ padding_for s) = raw_url_decode s"
proof -
  have "no_line_ends (s @ padding_for s) = s @ padding_for s"
    by (rule no_line_ends_id) (use assms in \<open>auto simp: padding_for_def\<close>)
  moreover have "length (s @ padding_for s) mod 4 = 0"
  proof -
    have "length s mod 4 < 4" by simp
    with assms(2) consider "length s mod 4 = 0" | "length s mod 4 = 2" | "length s mod 4 = 3" by arith
    then show ?thesis unfolding padding_for_def length_append length_replicate by cases (simp, presburger+)
  qed
  moreover have "drop_padding (s @ padding_for s) = s"
  proof -
    have last: "\<not> prefix_of ''='' (rev s)" "\<not> prefix_of ''=='' (rev s)"
      using assms(1) by (cases s rule: rev_cases; auto simp: link_char_def)+
    have "length s mod 4 < 4" by simp
    with assms(2) consider "length s mod 4 = 0" | "length s mod 4 = 2" | "length s mod 4 = 3" by arith
    then show ?thesis using last by cases (simp_all add: drop_padding_def padding_for_def numeral_2_eq_2)
  qed
  ultimately show ?thesis by (simp add: url_decode_def)
qed

section \<open>A normalized profile stays as it is\<close>

lemma trim_space_ends: "trim_space s = [] \<or> \<not> is_space (hd (trim_space s)) \<and> \<not> is_space (last (trim_space s))"
proof (cases "trim_space s = []")
  case False
  let ?u = "dropWhile is_space s"
  have ne: "dropWhile is_space (rev ?u) \<noteq> []" using False by (simp add: trim_space_def)
  then have "\<not> is_space (hd (dropWhile is_space (rev ?u)))" by (rule hd_dropWhile)
  then have l: "\<not> is_space (last (trim_space s))" by (simp add: trim_space_def last_rev)
  have "?u \<noteq> []" using ne by (metis dropWhile.simps(1) rev.simps(1))
  then have "\<not> is_space (hd ?u)" by (rule hd_dropWhile)
  moreover have "rev ?u = takeWhile is_space (rev ?u) @ dropWhile is_space (rev ?u)" by simp
  then have "?u = rev (dropWhile is_space (rev ?u)) @ rev (takeWhile is_space (rev ?u))" by (metis rev_append rev_rev_ident)
  then have "hd ?u = hd (trim_space s)" using False unfolding trim_space_def by (metis hd_append2)
  ultimately show ?thesis using l by simp
qed simp

lemma trim_trim [simp]: "trim_space (trim_space s) = trim_space s"
  by (rule trim_space_id) (rule trim_space_ends)

lemma set_trim: "set (trim_space s) \<subseteq> set s"
  unfolding trim_space_def by (metis set_rev set_dropWhileD subsetI)

lemma hex_decode_chars: "hex_decode s \<noteq> None \<Longrightarrow> c \<in> set s \<Longrightarrow> hex_val c \<noteq> None"
  by (induction s rule: hex_decode.induct) (auto split: option.splits)

lemma lower_lower: "c \<in> set (to_lower s) \<Longrightarrow> to_lower [c] = [c]"
  by (auto simp: to_lower_def Let_def of_char_of)

lemma to_lower_id: "\<forall>c \<in> set s. to_lower [c] = [c] \<Longrightarrow> to_lower s = s"
  by (induction s) (simp_all add: to_lower_def)

lemma normHex_again:
  assumes "normHex s = Inr t"
  shows "normHex t = Inr t"
proof -
  have t: "t = trim_0x (trim_space (to_lower s))" "length t = 64" "hex_decode t \<noteq> None"
    using assms by (auto simp: normHex_def Let_def split: if_splits)
  have "set t \<subseteq> set (to_lower s)"
    using set_trim [of "to_lower s"] by (auto simp: t(1) trim_0x_def dest: in_set_dropD)
  then have low: "to_lower t = t" using lower_lower by (intro to_lower_id) blast
  have hex: "c \<noteq> CHR ''x'' \<and> \<not> is_space c" if "c \<in> set t" for c
    using hex_decode_chars [OF t(3) that] by (auto simp: hex_val_def is_space_def Let_def)
  have "t \<noteq> []" using t(2) by auto
  then have trim: "trim_space t = t" using hex by (intro trim_space_id) simp
  obtain a b r where "t = a # b # r" using t(2) by (cases t; cases "tl t") auto
  then have "trim_0x t = t" using hex [of b] by (auto simp: trim_0x_def)
  then show ?thesis using t(2,3) low trim by (simp add: normHex_def Let_def)
qed

lemma invite_normalize_again:
  assumes "invite_normalize p = Inr q"
  shows "invite_normalize q = Inr q"
proof -
  obtain seed psk where n: "normHex (pf_seed p) = Inr seed" "normHex (pf_psk p) = Inr psk" "trim_space (pf_addr p) \<noteq> []"
      "q = \<lparr>pf_addr = trim_space (pf_addr p), pf_seed = seed, pf_psk = psk, pf_gen = pf_gen p, pf_name = trim_space (pf_name p)\<rparr>"
    using assms by (auto simp: invite_normalize_def res_bind_Inr_iff split: if_splits)
  then show ?thesis by (simp add: invite_normalize_def normHex_again [OF n(1)] normHex_again [OF n(2)])
qed

lemma normHex_parse: "normHex s = Inr t \<Longrightarrow> is_ok (parseHex32 t)"
proof -
  assume n: "normHex s = Inr t"
  then have t: "length t = 64" "hex_decode t \<noteq> None" by (auto simp: normHex_def Let_def split: if_splits)
  have hex: "c \<noteq> CHR ''x'' \<and> \<not> is_space c" if "c \<in> set t" for c
    using hex_decode_chars [OF t(2) that] by (auto simp: hex_val_def is_space_def Let_def)
  have "t \<noteq> []" using t(1) by auto
  then have "trim_space t = t" using hex by (intro trim_space_id) simp
  moreover have "strip_0x t = t" using hex by (intro strip_0x_id) blast
  ultimately show ?thesis using t hex_decode_length [of t] by (auto simp: parseHex32_def is_ok_iff)
qed

section \<open>The round trip\<close>

lemma trim_slashes_tail: "\<forall>c \<in> set s. c \<noteq> CHR ''/'' \<Longrightarrow> trim_slashes (s @ replicate n CHR ''/'') = s"
proof -
  assume s: "\<forall>c \<in> set s. c \<noteq> CHR ''/''"
  have "dropWhile (\<lambda>c. c = CHR ''/'') (replicate n CHR ''/'' @ rev s) = rev s"
    using s by (induction n; cases s rule: rev_cases) simp_all
  then show ?thesis by (simp add: trim_slashes_def)
qed

lemma trim_space_none: "\<forall>c \<in> set s. \<not> is_space c \<Longrightarrow> trim_space s = s"
  by (rule trim_space_id) (use hd_in_set last_in_set in blast)

lemma extract_link:
  assumes "from_first schemePrefix t = Some (s @ post)" "\<forall>c \<in> set s. \<not> ends_link c" "post = [] \<or> ends_link (hd post)"
  shows "extractURL t = s"
proof -
  have "takeWhile (\<lambda>c. \<not> ends_link c) post = []" using assms(3) by (cases post) auto
  then show ?thesis using assms(1,2) by (simp add: extractURL_def schemePrefix_def takeWhile_append2)
qed

lemma parseV1_payload:
  assumes "raw_url_decode (trim_slashes (trim_space s)) = Some raw \<or>
      raw_url_decode (trim_slashes (trim_space s)) = None \<and> url_decode (trim_slashes (trim_space s)) = Some raw"
    and "ps_wire J raw = Inr (to_wire q)"
  shows "parseV1 J s = invite_normalize q"
  using assms by (cases q) (auto simp: parseV1_def Let_def to_wire_def)

lemma link_text:
  assumes "\<forall>c \<in> set payload. link_char c" "pad = [] \<or> pad = padding_for payload"
  shows "\<forall>c \<in> set (schemePrefix @ payload @ pad @ replicate n CHR ''/''). \<not> ends_link c"
    "\<forall>c \<in> set (payload @ pad @ replicate n CHR ''/''). \<not> is_space c" "\<forall>c \<in> set (payload @ pad). c \<noteq> CHR ''/''"
proof -
  have known: "list_all (\<lambda>c. \<not> ends_link c) schemePrefix" "\<not> ends_link CHR ''=''" "\<not> ends_link CHR ''/''"
      "\<not> is_space CHR ''=''" "\<not> is_space CHR ''/''"
    by code_simp+
  have pay: "\<not> ends_link c \<and> \<not> is_space c \<and> c \<noteq> CHR ''/''" if "c \<in> set payload" for c
    using assms(1) that by (simp add: link_char_def)
  have pad: "c = CHR ''=''" if "c \<in> set pad" for c using assms(2) that by (auto simp: padding_for_def)
  show "\<forall>c \<in> set (schemePrefix @ payload @ pad @ replicate n CHR ''/''). \<not> ends_link c"
  proof
    fix c assume "c \<in> set (schemePrefix @ payload @ pad @ replicate n CHR ''/'')"
    then have "c \<in> set schemePrefix \<or> c \<in> set payload \<or> c \<in> set pad \<or> c = CHR ''/''" by (simp only: set_append Un_iff in_set_replicate) blast
    then show "\<not> ends_link c" using known(1-3) [unfolded list_all_iff] pay pad by blast
  qed
  show "\<forall>c \<in> set (payload @ pad @ replicate n CHR ''/''). \<not> is_space c"
  proof
    fix c assume "c \<in> set (payload @ pad @ replicate n CHR ''/'')"
    then have "c \<in> set payload \<or> c \<in> set pad \<or> c = CHR ''/''" by (simp only: set_append Un_iff in_set_replicate) blast
    then show "\<not> is_space c" using known(4,5) pay pad by blast
  qed
  have "CHR ''='' \<noteq> CHR ''/''" by simp
  then show "\<forall>c \<in> set (payload @ pad). c \<noteq> CHR ''/''"
    using pay pad unfolding set_append by blast
qed

text \<open>
  C38. A share link carries the profile: whoever pastes it, with the padding a messenger has put
  back or with slashes at its end, gets the profile it was made from, with its keys in the normal
  form, and the core accepts these keys. The link may stand in a text, under two conditions of the
  code: no \<open>chimera://v1/\<close> comes before it in the text, and after it (and its padding and slashes) the text
  ends or goes on with a blank, a quote or an angle bracket; other text right after the link,
  such as a full stop, is taken as part of it. That JSON gives back what it was made from is a hypothesis.
\<close>
theorem invite_roundtrip:
  assumes link: "invite_Format J p = Inr link"
    and json: "\<And>q. invite_normalize p = Inr q \<Longrightarrow> ps_wire J (ps_marshal J (to_wire q)) = Inr (to_wire q)"
    and pad: "pad \<in> {[], padding_for (drop (length schemePrefix) link)}"
    and shown: "from_first schemePrefix (trim_space msg) = Some (link @ pad @ replicate n CHR ''/'' @ post)"
    and after: "post = [] \<or> ends_link (hd post)"
  shows "\<exists>q. invite_normalize p = Inr q \<and> invite_Parse J msg = Inr q \<and> is_ok (parseHex32 (pf_seed q)) \<and> is_ok (parseHex32 (pf_psk q))"
proof -
  obtain q where q: "invite_normalize p = Inr q" "link = schemePrefix @ raw_url_encode (ps_marshal J (to_wire q))"
    using link by (auto simp: invite_Format_def res_bind_Inr_iff)
  define raw where "raw = ps_marshal J (to_wire q)"
  define payload where "payload = raw_url_encode raw"
  have chars: "\<forall>c \<in> set payload. link_char c" by (simp add: payload_def raw_url_chars)
  have l: "link = schemePrefix @ payload" by (simp add: q(2) payload_def raw_def)
  then have pad': "pad = [] \<or> pad = padding_for payload" using pad by auto
  let ?s = "payload @ pad @ replicate n CHR ''/''"
  note plain = link_text(1,2) [OF chars pad', of n] link_text(3) [OF chars pad']
  have s: "extractURL (trim_space msg) = schemePrefix @ ?s"
    using extract_link [of "trim_space msg" "schemePrefix @ ?s" post, OF _ plain(1) after] shown l by simp
  have trimmed: "trim_slashes (trim_space ?s) = payload @ pad"
    using trim_slashes_tail [OF plain(3), of n] trim_space_none [OF plain(2)] by simp
  have dec: "raw_url_decode payload = Some raw" by (simp add: payload_def raw_url_roundtrip)
  have "length payload mod 4 \<noteq> 1" using to_sextets_length by (simp add: payload_def raw_url_encode_def)
  from padded_decode [OF chars this] dec have dec_pad: "url_decode (payload @ padding_for payload) = Some raw" by simp
  have "raw_url_decode (payload @ pad) = Some raw \<or>
      raw_url_decode (payload @ pad) = None \<and> url_decode (payload @ pad) = Some raw"
  proof (cases "pad = []")
    case False
    with pad' obtain k where "pad = replicate k CHR ''=''" "k \<noteq> 0" unfolding padding_for_def by auto
    with padded_not_raw [of k payload] dec_pad pad' False show ?thesis by auto
  qed (simp add: dec)
  then have "parseV1 J ?s = Inr q"
    using parseV1_payload [of ?s raw J q] json [OF q(1)] invite_normalize_again [OF q(1)] by (simp add: trimmed raw_def)
  moreover have "trim_space msg \<noteq> []" using shown by (auto simp: schemePrefix_def)
  ultimately have "invite_Parse J msg = Inr q" by (simp add: invite_Parse_def Let_def s) (simp add: schemePrefix_def)
  moreover have "is_ok (parseHex32 (pf_seed q)) \<and> is_ok (parseHex32 (pf_psk q))"
    using q(1) normHex_parse by (auto simp: invite_normalize_def res_bind_Inr_iff split: if_splits)
  ultimately show ?thesis using q(1) by blast
qed

text \<open>A profile, and what \<open>encoding/json\<close> makes of it.\<close>

definition sample_profile :: profile where
  "sample_profile =
     \<lparr>pf_addr = '' vpn.example:4789 '', pf_seed = ''0x'' @ replicate 64 CHR ''A'', pf_psk = replicate 64 CHR ''7'', pf_gen = 3, pf_name = []\<rparr>"

definition sample_wire :: wire where
  "sample_wire =
     \<lparr>wi_v = 1, wi_addr = ''vpn.example:4789'', wi_seed = replicate 64 CHR ''a'', wi_psk = replicate 64 CHR ''7'', wi_gen = 3, wi_name = []\<rparr>"

definition sample_json :: string where
  "sample_json = (let q = [CHR 0x22]; kv = (\<lambda>k v. q @ k @ q @ '':'' @ q @ v @ q) in
     ''{'' @ q @ ''v'' @ q @ '':1,'' @ kv ''a'' ''vpn.example:4789'' @ '','' @ kv ''s'' (replicate 64 CHR ''a'') @ '','' @
     kv ''p'' (replicate 64 CHR ''7'') @ '','' @ q @ ''g'' @ q @ '':3}'')"

definition sample_parsers :: parsers where
  "sample_parsers =
     \<lparr>ps_marshal = (\<lambda>w. sample_json), ps_wire = (\<lambda>s. if s = sample_json then Inr sample_wire else Inl ErrConfig),
      ps_object = (\<lambda>_. Inl ErrConfig), ps_query = (\<lambda>_. Inl ErrConfig)\<rparr>"

theorem invite_roundtrip_witness:
  "\<exists>link. invite_Format sample_parsers sample_profile = Inr link \<and>
     (\<exists>q. invite_Parse sample_parsers (''join '' @ link @ '' now'') = Inr q \<and> pf_seed q = replicate 64 CHR ''a'' \<and> pf_gen q = 3)"
proof -
  have norm: "invite_normalize sample_profile =
      Inr \<lparr>pf_addr = ''vpn.example:4789'', pf_seed = replicate 64 CHR ''a'', pf_psk = replicate 64 CHR ''7'', pf_gen = 3, pf_name = []\<rparr>"
    by code_simp
  define link where "link = schemePrefix @ raw_url_encode sample_json"
  have link: "invite_Format sample_parsers sample_profile = Inr link"
    by (simp add: invite_Format_def norm link_def sample_parsers_def)
  have "trim_space (''join '' @ link @ '' now'') = ''join '' @ link @ '' now''"
    by (rule trim_space_id) (simp add: is_space_def)
  then have found: "from_first schemePrefix (trim_space (''join '' @ link @ '' now'')) = Some (link @ [] @ replicate 0 CHR ''/'' @ '' now'')"
    by (simp add: link_def schemePrefix_def)
  have "ps_wire sample_parsers (ps_marshal sample_parsers (to_wire q)) = Inr (to_wire q)"
    if "invite_normalize sample_profile = Inr q" for q
    using that by (simp add: norm sample_parsers_def) (auto simp: to_wire_def sample_wire_def)
  from invite_roundtrip [OF link this _ found] norm show ?thesis using link by (auto simp: ends_link_def)
qed

end
