(* ===== verification/Websocket.thy ===== *)
theory Websocket
  imports Prelude
begin

text \<open>
  The connection over a WebSocket (\<open>internal/tunnel/websocket.go\<close>): binary messages joined to a
  stream of bytes, other messages dropped. The messages that arrive, until the connection fails,
  are a list; a message may be cut by that failure. How much of a message the library hands out at
  a time, and whether a write of it succeeds, are parameters.
\<close>

section \<open>Model\<close>

text \<open>A message: binary, of another kind, or binary and cut, with the error that reading past the cut gives.\<close>

datatype ws_message = WsBinary bytes | WsOther bytes | WsCut bytes error

text \<open>
  \<open>websocketConn\<close>: what is left of the current message and the error that follows it, \<open>None\<close> for
  its regular end; and the messages to come.
\<close>

record ws_conn =
  ws_reader :: "(bytes \<times> error option) option"
  ws_in :: "ws_message list"

text \<open>
  The reader of a message: for the room in the buffer and what is left, how many bytes it gives and
  whether it reports the end (or the failure) with them.
\<close>

type_synonym msg_reader = "nat \<Rightarrow> bytes \<Rightarrow> nat \<times> bool"

text \<open>What a read returns: the bytes, and with them an error or none.\<close>

function ws_loop ::
  "msg_reader \<Rightarrow> nat \<Rightarrow> (bytes \<times> error option) option \<Rightarrow> ws_message list \<Rightarrow>
     (bytes \<times> error option) \<times> (bytes \<times> error option) option \<times> ws_message list" where
  "ws_loop rd room None [] = (([], Some ErrClosed), None, [])"
| "ws_loop rd room None (WsOther b # ms) = ws_loop rd room None ms"
| "ws_loop rd room None (WsBinary b # ms) = ws_loop rd room (Some (b, None)) ms"
| "ws_loop rd room None (WsCut b e # ms) = ws_loop rd room (Some (b, Some e)) ms"
| "ws_loop rd room (Some (rest, err)) ms =
     (case rd room rest of (n, ended) \<Rightarrow>
        if ended then
          (case err of
             None \<Rightarrow> if 0 < n then ((take n rest, None), None, ms) else ws_loop rd room None ms
           | Some e \<Rightarrow> ((take n rest, Some e), Some (drop n rest, err), ms))
        else ((take n rest, None), Some (drop n rest, err), ms))"
  by pat_completeness auto
termination
  by (relation "measure (\<lambda>(rd, room, r, ms). 2 * length ms + (if r = None then 0 else 1))") auto

definition ws_Read :: "msg_reader \<Rightarrow> nat \<Rightarrow> ws_conn \<Rightarrow> (bytes \<times> error option) \<times> ws_conn" where
  "ws_Read rd room c =
     (case ws_loop rd room (ws_reader c) (ws_in c) of (r, rest, ms) \<Rightarrow> (r, \<lparr>ws_reader = rest, ws_in = ms\<rparr>))"

text \<open>
  \<open>WriteMessage\<close>: the message is sent; or an error is returned, and the peer finds nothing of it; or
  an error is returned, and the peer finds its first bytes and then an error of its own.
\<close>

datatype ws_outcome = SentWhole | SentNothing error | SentPart error nat error

text \<open>\<open>Write\<close>: what it returns, and the messages the peer finds.\<close>

definition ws_Write :: "ws_outcome \<Rightarrow> bytes \<Rightarrow> ws_message list \<Rightarrow> nat res \<times> ws_message list" where
  "ws_Write net p sent =
     (case net of
        SentWhole \<Rightarrow> (Inr (length p), sent @ [WsBinary p])
      | SentNothing e \<Rightarrow> (Inl e, sent)
      | SentPart e k e' \<Rightarrow> (Inl e, sent @ [WsCut (take k p) e']))"

text \<open>Reads with the given rooms, up to the first that fails; the bytes that come with the failure count.\<close>

fun ws_reads :: "msg_reader \<Rightarrow> nat list \<Rightarrow> ws_conn \<Rightarrow> bytes list \<times> ws_conn" where
  "ws_reads rd [] c = ([], c)"
| "ws_reads rd (room # rooms) c =
     (case ws_Read rd room c of
        ((b, Some e), c1) \<Rightarrow> ([b], c1)
      | ((b, None), c1) \<Rightarrow> (case ws_reads rd rooms c1 of (bs, c2) \<Rightarrow> (b # bs, c2)))"

text \<open>
  What happens on the sending side: writes through the connection, with what becomes of each, and
  messages of other kinds in between. The log has each piece with what its write returned.
\<close>

datatype ws_event = WsWrites ws_outcome bytes | WsNoise bytes

fun ws_run :: "ws_event list \<Rightarrow> (bytes \<times> nat res) list \<times> ws_message list \<Rightarrow> (bytes \<times> nat res) list \<times> ws_message list" where
  "ws_run [] s = s"
| "ws_run (WsWrites net p # es) (log, sent) =
     (case ws_Write net p sent of (r, sent1) \<Rightarrow> ws_run es (log @ [(p, r)], sent1))"
| "ws_run (WsNoise b # es) (log, sent) = ws_run es (log, sent @ [WsOther b])"

section \<open>A stream of bytes\<close>

text \<open>A reader gives no more than there is and fits, reports the end only at the end, and else gives something.\<close>

definition reader_ok :: "msg_reader \<Rightarrow> bool" where
  "reader_ok rd \<longleftrightarrow>
     (\<forall>room rest. case rd room rest of (n, ended) \<Rightarrow>
        n \<le> room \<and> n \<le> length rest \<and> (ended \<longrightarrow> n = length rest) \<and> (0 < room \<and> \<not> ended \<longrightarrow> 0 < n))"

text \<open>The bytes of the messages, up to a cut.\<close>

fun ws_bytes :: "ws_message list \<Rightarrow> bytes" where
  "ws_bytes [] = []"
| "ws_bytes (WsBinary b # ms) = b @ ws_bytes ms"
| "ws_bytes (WsOther b # ms) = ws_bytes ms"
| "ws_bytes (WsCut b e # ms) = b"

fun left_over :: "(bytes \<times> error option) option \<Rightarrow> ws_message list \<Rightarrow> bytes" where
  "left_over None ms = ws_bytes ms"
| "left_over (Some (b, None)) ms = b @ ws_bytes ms"
| "left_over (Some (b, Some e)) ms = b"

definition ws_stream :: "ws_conn \<Rightarrow> bytes" where
  "ws_stream c = left_over (ws_reader c) (ws_in c)"

lemma ws_loop_stream:
  assumes "reader_ok rd" "0 < room" "ws_loop rd room r ms = ((b, err), r', ms')"
  shows "left_over r ms = b @ left_over r' ms' \<and> length b \<le> room \<and> (if err = None then b \<noteq> [] else left_over r' ms' = [])"
  using assms
proof (induction rd room r ms rule: ws_loop.induct)
  case (5 rd room rest er ms)
  obtain n ended where n: "rd room rest = (n, ended)" by (cases "rd room rest")
  have ok: "n \<le> room" "n \<le> length rest" "ended \<Longrightarrow> n = length rest" "\<not> ended \<Longrightarrow> 0 < n"
    using "5.prems"(1,2) n unfolding reader_ok_def by (metis (mono_tags, lifting) case_prod_conv)+
  show ?case
  proof (cases "ended \<and> n = 0 \<and> er = None")
    case True
    then have "rest = []" "ws_loop rd room None ms = ((b, err), r', ms')" using ok(3) "5.prems"(3) n by simp_all
    with "5.IH" [OF n [symmetric]] "5.prems"(1,2) True show ?thesis by simp
  next
    case False
    with "5.prems"(3) n ok show ?thesis by (cases ended; cases er) (auto simp: append_eq_conv_conj)
  qed
qed auto

lemma ws_Read_stream:
  assumes "reader_ok rd" "0 < room" "ws_Read rd room c = ((b, err), c')"
  shows "ws_stream c = b @ ws_stream c' \<and> (if err = None then b \<noteq> [] else ws_stream c' = [])"
proof -
  obtain r' ms' where l: "ws_loop rd room (ws_reader c) (ws_in c) = ((b, err), r', ms')" "c' = \<lparr>ws_reader = r', ws_in = ms'\<rparr>"
    using assms(3) by (auto simp: ws_Read_def split: prod.splits)
  from ws_loop_stream [OF assms(1,2) l(1)] l(2) show ?thesis by (simp add: ws_stream_def)
qed

lemma ws_reads_stream:
  assumes "reader_ok rd" "\<forall>room \<in> set rooms. 0 < room"
  shows "concat (fst (ws_reads rd rooms c)) @ ws_stream (snd (ws_reads rd rooms c)) = ws_stream c \<and>
    (length (ws_stream c) \<le> length rooms \<longrightarrow> ws_stream (snd (ws_reads rd rooms c)) = [])"
  using assms(2)
proof (induction rooms arbitrary: c)
  case (Cons room rooms)
  obtain b err c1 where r: "ws_Read rd room c = ((b, err), c1)" by (metis surj_pair)
  have S: "ws_stream c = b @ ws_stream c1" "if err = None then b \<noteq> [] else ws_stream c1 = []"
    using ws_Read_stream [OF assms(1) _ r] Cons.prems by simp_all
  show ?case
  proof (cases err)
    case (Some e)
    with S r show ?thesis by simp
  next
    case None
    with S have "length (ws_stream c) \<le> length (room # rooms) \<Longrightarrow> length (ws_stream c1) \<le> length rooms"
      by (cases b) simp_all
    with Cons.IH [of c1] Cons.prems S(1) None r show ?thesis by (cases "ws_reads rd rooms c1") simp
  qed
qed simp

text \<open>The bytes of the writes that succeeded, up to the first that was sent in part, and of that the part.\<close>

fun ws_delivered :: "ws_event list \<Rightarrow> bytes" where
  "ws_delivered [] = []"
| "ws_delivered (WsWrites SentWhole p # es) = p @ ws_delivered es"
| "ws_delivered (WsWrites (SentNothing e) p # es) = ws_delivered es"
| "ws_delivered (WsWrites (SentPart e k e') p # es) = take k p"
| "ws_delivered (WsNoise b # es) = ws_delivered es"

definition uncut :: "ws_message list \<Rightarrow> bool" where
  "uncut ms \<longleftrightarrow> (\<forall>m \<in> set ms. case m of WsCut b e \<Rightarrow> False | _ \<Rightarrow> True)"

lemma uncut_simps [simp]:
  "uncut []" "uncut (ms @ ms') \<longleftrightarrow> uncut ms \<and> uncut ms'"
  "uncut (WsBinary b # ms) \<longleftrightarrow> uncut ms" "uncut (WsOther b # ms) \<longleftrightarrow> uncut ms" "\<not> uncut (WsCut b e # ms)"
  by (auto simp: uncut_def)

lemma ws_bytes_append: "ws_bytes (ms @ ms') = (if uncut ms then ws_bytes ms @ ws_bytes ms' else ws_bytes ms)"
  by (induction ms rule: ws_bytes.induct) simp_all

lemma ws_run_bytes: "ws_bytes (snd (ws_run es (log, sent))) = (if uncut sent then ws_bytes sent @ ws_delivered es else ws_bytes sent)"
proof (induction es arbitrary: log sent)
  case (Cons e es)
  show ?case
  proof (cases e)
    case (WsWrites net p)
    then show ?thesis by (cases net) (simp_all add: ws_Write_def ws_bytes_append Cons.IH)
  next
    case (WsNoise b)
    then show ?thesis by (simp add: ws_bytes_append Cons.IH)
  qed
qed simp

lemma ws_run_log: "fst (ws_run es (log, sent)) = log @ fst (ws_run es ([], []))"
proof (induction es arbitrary: log sent)
  case (Cons e es)
  show ?case
  proof (cases e)
    case (WsWrites net p)
    then show ?thesis
      using Cons.IH [of "log @ [(p, fst (ws_Write net p sent))]"] Cons.IH [of "[(p, fst (ws_Write net p []))]"]
      by (cases net) (simp_all add: ws_Write_def)
  next
    case (WsNoise b)
    then show ?thesis using Cons.IH [of log] Cons.IH [of "[]" "[WsOther b]"] by simp
  qed
qed simp

lemma ws_run_all_sent:
  "\<forall>(p, r) \<in> set (fst (ws_run es ([], []))). \<exists>n. r = Inr n \<Longrightarrow> ws_delivered es = concat (map fst (fst (ws_run es ([], []))))"
proof (induction es rule: ws_delivered.induct)
  case (2 p es)
  then show ?case using ws_run_log [of es "[(p, Inr (length p))]"] by (simp add: ws_Write_def)
next
  case (3 e p es)
  then show ?case using ws_run_log [of es "[(p, Inl e)]"] by (simp add: ws_Write_def)
next
  case (4 e k e' p es)
  then show ?case using ws_run_log [of es "[(p, Inl e)]"] by (simp add: ws_Write_def)
next
  case (5 b es)
  then show ?case using ws_run_log [of es "[]" "[WsOther b]"] by simp
qed simp

text \<open>
  C39. A WebSocket carries a stream of bytes: whatever pieces one side writes, in whatever pieces the
  library and the buffers of the other side cut them, and with messages of other kinds anywhere in between, the
  other side reads, in order and with nothing added, the bytes of the writes that succeeded, up to
  the first message that the connection cuts and including its part (a write that failed
  and sent nothing leaves no trace). Every read that succeeds makes progress, so that as many reads as there are
  bytes are enough to get all; and if no write returned an error that is all that was written.
\<close>
theorem websocket_is_a_stream:
  assumes "reader_ok rd" "\<forall>room \<in> set rooms. 0 < room"
    and "ws_run es ([], []) = (log, sent)" "ws_reads rd rooms \<lparr>ws_reader = None, ws_in = sent\<rparr> = (bs, c')"
  shows "(\<exists>rest. ws_delivered es = concat bs @ rest) \<and>
    (length (ws_delivered es) \<le> length rooms \<longrightarrow> concat bs = ws_delivered es) \<and>
    ((\<forall>(p, r) \<in> set log. \<exists>n. r = Inr n) \<longrightarrow> ws_delivered es = concat (map fst log))"
proof -
  let ?c = "\<lparr>ws_reader = None, ws_in = sent\<rparr>"
  have "ws_stream ?c = ws_delivered es"
    using ws_run_bytes [of es "[]" "[]"] assms(3) by (simp add: ws_stream_def uncut_def)
  with ws_reads_stream [OF assms(1,2), of ?c] assms(4)
  have "ws_delivered es = concat bs @ ws_stream c'" "length (ws_delivered es) \<le> length rooms \<longrightarrow> ws_stream c' = []"
    by simp_all
  moreover have "(\<forall>(p, r) \<in> set log. \<exists>n. r = Inr n) \<longrightarrow> ws_delivered es = concat (map fst log)"
    using ws_run_all_sent [of es] assms(3) by simp
  ultimately show ?thesis by auto
qed

text \<open>A reader that gives all that fits, and the end with the last byte.\<close>

definition greedy_reader :: msg_reader where
  "greedy_reader room rest = (min room (length rest), length rest \<le> room)"

theorem websocket_is_a_stream_witness:
  "\<exists>log sent bs c'.
     ws_run [WsWrites SentWhole [1, 2, 3], WsNoise [9], WsWrites SentWhole [], WsWrites SentWhole [4, 5], WsNoise [8],
       WsWrites (SentPart ErrClosed 1 ErrClosed) [6, 7]] ([], []) = (log, sent) \<and>
     ws_reads greedy_reader [2, 2, 2, 2, 2, 2] \<lparr>ws_reader = None, ws_in = sent\<rparr> = (bs, c') \<and> concat bs = [1, 2, 3, 4, 5, 6]"
proof -
  let ?es = "[WsWrites SentWhole [1, 2, 3], WsNoise [9], WsWrites SentWhole [], WsWrites SentWhole [4, 5], WsNoise [8],
       WsWrites (SentPart ErrClosed 1 ErrClosed) [6, 7]]"
  let ?r = "ws_run ?es ([], [])"
  let ?w = "ws_reads greedy_reader [2, 2, 2, 2, 2, 2] \<lparr>ws_reader = None, ws_in = snd ?r\<rparr>"
  have "reader_ok greedy_reader" by (auto simp: reader_ok_def greedy_reader_def)
  from websocket_is_a_stream [OF this _ prod.collapse [symmetric] prod.collapse [symmetric], where es = ?es and rooms = "[2, 2, 2, 2, 2, 2]"]
  have "concat (fst ?w) = [1, 2, 3, 4, 5, 6]" by simp
  then show ?thesis by (metis prod.collapse)
qed

end
