(* ===== verification/Bind.thy ===== *)
theory Bind
  imports Client
begin

text \<open>
  The interface for mobile applications (\<open>bind/bind.go\<close>): clients behind handles. The core's
  \<open>NewClient\<close> and \<open>Start\<close>, and what a client answers, are parameters. Handles are counted without
  the bound of 64 bits.
\<close>

section \<open>Model\<close>

record bind_table =
  b_next :: int
  b_clients :: "int \<Rightarrow> client option"

definition bind_init :: bind_table where
  "bind_init = \<lparr>b_next = 1, b_clients = (\<lambda>_. None)\<rparr>"

definition bind_config :: "string \<Rightarrow> int \<Rightarrow> string \<Rightarrow> string \<Rightarrow> string \<Rightarrow> int \<Rightarrow> int \<Rightarrow> core_config" where
  "bind_config seed gen_no psk addr transport hops spread =
     \<lparr>c_seed = seed, c_generation = nat gen_no, c_psk = psk, c_addr = addr, c_transport = transport, c_mode = StreamProbeOther [],
      c_decoy_timeout = 0, c_decoy_pending = 0, c_decoy_every = 0, c_decoy_max = 0, c_hop_count = hops, c_hop_spread = spread,
      c_rotation = 0, c_transports = [], c_tls_cert = [], c_tls_key = [], c_tls_ca = [], c_tls_insecure = False, c_cidr = [],
      c_cipher = None, c_keepalive = 25 * second, c_window = 2, c_idle = 0, c_rate = 0, c_max_sessions = 0, c_no_decoy = False,
      c_burst = 0, c_no_shape = False, c_shape = [], c_mark = [], c_jitter = second div 50, c_replay = []\<rparr>"

definition bind_start ::
  "(core_config \<Rightarrow> client res) \<Rightarrow> string \<Rightarrow> int \<Rightarrow> string \<Rightarrow> string \<Rightarrow> string \<Rightarrow> int \<Rightarrow> int \<Rightarrow> bind_table \<Rightarrow> int res \<times> bind_table" where
  "bind_start core seed gen_no psk addr transport hops spread t =
     (if gen_no < 0 then (Inl ErrConfig, t)
      else case core (bind_config seed gen_no psk addr transport hops spread) of
        Inl e \<Rightarrow> (Inl e, t)
      | Inr c \<Rightarrow> (Inr (b_next t), \<lparr>b_next = b_next t + 1, b_clients = (b_clients t)(b_next t \<mapsto> c)\<rparr>))"

definition bind_Start :: "(core_config \<Rightarrow> client res) \<Rightarrow> string \<Rightarrow> int \<Rightarrow> string \<Rightarrow> string \<Rightarrow> bind_table \<Rightarrow> int res \<times> bind_table" where
  "bind_Start core seed gen_no psk addr = bind_start core seed gen_no psk addr ''udp'' 1 0"

definition bind_StartTransport ::
  "(core_config \<Rightarrow> client res) \<Rightarrow> string \<Rightarrow> int \<Rightarrow> string \<Rightarrow> string \<Rightarrow> string \<Rightarrow> bind_table \<Rightarrow> int res \<times> bind_table" where
  "bind_StartTransport core seed gen_no psk addr transport = bind_start core seed gen_no psk addr transport 1 0"

definition bind_Stop :: "(client \<Rightarrow> error option) \<Rightarrow> int \<Rightarrow> bind_table \<Rightarrow> error option \<times> bind_table" where
  "bind_Stop close h t =
     (case b_clients t h of
        None \<Rightarrow> (Some ErrConfig, t)
      | Some c \<Rightarrow> (close c, t\<lparr>b_clients := (b_clients t)(h := None)\<rparr>))"

text \<open>\<open>AssignedIP\<close>, \<open>Send\<close>, \<open>Receive\<close>, \<open>SocketFD\<close> ask the client.\<close>

definition bind_ask :: "(client \<Rightarrow> 'a res) \<Rightarrow> int \<Rightarrow> bind_table \<Rightarrow> 'a res" where
  "bind_ask f h t = (case b_clients t h of None \<Rightarrow> Inl ErrConfig | Some c \<Rightarrow> f c)"

definition IdleMillis :: "(client \<Rightarrow> int) \<Rightarrow> int \<Rightarrow> bind_table \<Rightarrow> int res" where
  "IdleMillis idle = bind_ask (\<lambda>c. Inr (idle c div 1000000))"

text \<open>The counters are unsigned and returned as signed numbers.\<close>

definition BytesSent :: "(client \<Rightarrow> nat \<times> nat) \<Rightarrow> int \<Rightarrow> bind_table \<Rightarrow> int res" where
  "BytesSent counts = bind_ask (\<lambda>c. Inr (wrap64 (int (fst (counts c)))))"

definition BytesRecv :: "(client \<Rightarrow> nat \<times> nat) \<Rightarrow> int \<Rightarrow> bind_table \<Rightarrow> int res" where
  "BytesRecv counts = bind_ask (\<lambda>c. Inr (wrap64 (int (snd (counts c)))))"

inductive bind_step :: "bind_table \<Rightarrow> bind_table \<Rightarrow> bool" where
  bind_step_start: "bind_step t (snd (bind_start core seed gen_no psk addr transport hops spread t))"
| bind_step_stop: "bind_step t (snd (bind_Stop close h t))"

inductive_cases bind_stepE: "bind_step t t'"

section \<open>Handles\<close>

text \<open>Handles from the next one on are free.\<close>

definition bind_inv :: "bind_table \<Rightarrow> bool" where
  "bind_inv t \<longleftrightarrow> 1 \<le> b_next t \<and> (\<forall>h. b_clients t h \<noteq> None \<longrightarrow> 1 \<le> h \<and> h < b_next t)"

lemma bind_init_inv: "bind_inv bind_init"
  by (simp add: bind_inv_def bind_init_def)

text \<open>What a table still promises of an earlier one.\<close>

definition later :: "bind_table \<Rightarrow> bind_table \<Rightarrow> bool" where
  "later t t' \<longleftrightarrow> b_next t \<le> b_next t' \<and> (\<forall>h < b_next t. b_clients t' h = b_clients t h \<or> b_clients t' h = None)"

lemma bind_step_later: "bind_step t t' \<Longrightarrow> bind_inv t \<Longrightarrow> bind_inv t' \<and> later t t'"
  by (erule bind_stepE) (auto simp: bind_start_def bind_Stop_def bind_inv_def later_def split: sum.splits option.splits)

lemma later_trans: "later t t1 \<Longrightarrow> later t1 t2 \<Longrightarrow> later t t2"
  unfolding later_def by (metis order_less_le_trans order_trans)

lemma reach_later: "reach bind_step t t' \<Longrightarrow> bind_inv t \<Longrightarrow> bind_inv t' \<and> later t t'"
proof (induction rule: reach.induct)
  case (reach_start t)
  then show ?case by (simp add: later_def)
next
  case (reach_step t t1 t2)
  then show ?case using bind_step_later later_trans by blast
qed

interpretation handles: invariant_of bind_step bind_inv
  by unfold_locales (use bind_step_later in blast)

text \<open>
  What the callers of the interface do, one after the other: starts, with the core and the arguments
  of each, and stops.
\<close>

datatype bind_event =
  BindStart "core_config \<Rightarrow> client res" string int string string string int int
| BindStop "client \<Rightarrow> error option" int

fun bind_apply :: "bind_event \<Rightarrow> bind_table \<Rightarrow> bind_table" where
  "bind_apply (BindStart core seed gen_no psk addr transport hops spread) t =
     snd (bind_start core seed gen_no psk addr transport hops spread t)"
| "bind_apply (BindStop close h) t = snd (bind_Stop close h t)"

fun stopped_handles :: "bind_event \<Rightarrow> int set" where
  "stopped_handles (BindStop close h) = {h}"
| "stopped_handles (BindStart core seed gen_no psk addr transport hops spread) = {}"

lemma bind_apply_step: "bind_step t (bind_apply e t)"
  by (cases e) (simp_all add: bind_step.intros)

lemma bind_run_reach: "reach bind_step t (fold bind_apply es t)"
proof (induction es arbitrary: t)
  case Nil
  show ?case by (simp add: reach_start)
next
  case (Cons e es)
  have "reach bind_step t (bind_apply e t)" by (rule reach_step, rule reach_start, rule bind_apply_step)
  with Cons.IH have "reach bind_step t (fold bind_apply es (bind_apply e t))" by (rule reach_trans)
  then show ?case by simp
qed

lemma bind_apply_keeps:
  assumes "h < b_next t" "h \<notin> stopped_handles e"
  shows "b_clients (bind_apply e t) h = b_clients t h \<and> h < b_next (bind_apply e t)"
  using assms by (cases e) (auto simp: bind_start_def bind_Stop_def split: sum.splits option.splits)

lemma bind_run_keeps:
  "h < b_next t \<Longrightarrow> (\<forall>e \<in> set es. h \<notin> stopped_handles e) \<Longrightarrow> b_clients (fold bind_apply es t) h = b_clients t h"
  by (induction es arbitrary: t) (simp_all add: bind_apply_keeps)

text \<open>
  C40. A handle names one client for ever. After any starts and stops, the handle that a successful
  start returns was not in use; it then answers for the client that was started, through any starts and
  any stops of other handles, so that it is that client that stopping the handle closes; and once
  it is stopped it is unknown, and no start returns it again, whatever is started and stopped afterwards.
\<close>
theorem handles_are_stable:
  assumes "t = fold bind_apply before bind_init" "bind_start core seed gen_no psk addr transport hops spread t = (Inr h, t1)"
    and "\<forall>e \<in> set es. h \<notin> stopped_handles e"
    and "t2 = fold bind_apply es t1" "t3 = fold bind_apply es' (snd (bind_Stop close h t2))"
  shows "b_clients t h = None \<and>
    (\<exists>c. core (bind_config seed gen_no psk addr transport hops spread) = Inr c \<and> bind_ask f h t2 = f c \<and> fst (bind_Stop close h t2) = close c) \<and>
    bind_ask f h t3 = Inl ErrConfig \<and> fst (bind_start core' seed' gen' psk' addr' transport' hops' spread' t3) \<noteq> Inr h"
proof -
  have t: "bind_inv t" using handles.run_keeps [OF bind_run_reach bind_init_inv] assms(1) by simp
  obtain c where c: "core (bind_config seed gen_no psk addr transport hops spread) = Inr c" "h = b_next t"
      "t1 = \<lparr>b_next = b_next t + 1, b_clients = (b_clients t)(b_next t \<mapsto> c)\<rparr>"
    using assms(2) by (auto simp: bind_start_def split: if_splits sum.splits)
  have fresh: "b_clients t h = None" using t c(2) unfolding bind_inv_def by (metis order_less_irrefl)
  have inv1: "bind_inv t1" using bind_step_later [OF bind_step_start t, of core seed gen_no psk addr transport hops spread] assms(2) by simp
  have here: "b_clients t2 h = Some c" using bind_run_keeps [of h t1 es] assms(3,4) c(2,3) by simp
  have inv2: "bind_inv t2" using handles.run_keeps [OF bind_run_reach inv1] assms(4) by simp
  then have h2: "h < b_next t2" using here unfolding bind_inv_def by blast
  let ?s = "snd (bind_Stop close h t2)"
  have s: "bind_inv ?s" "b_clients ?s h = None" "h < b_next ?s"
    using bind_step_later [OF bind_step_stop inv2, of close h] h2 here by (simp_all add: bind_Stop_def)
  from reach_later [OF bind_run_reach s(1), of es'] s(2,3) assms(5) have "b_clients t3 h = None" "h < b_next t3"
    unfolding later_def by auto
  then have "bind_ask f h t3 = Inl ErrConfig" "fst (bind_start core' seed' gen' psk' addr' transport' hops' spread' t3) \<noteq> Inr h"
    by (auto simp: bind_ask_def bind_start_def split: sum.split)
  with fresh c(1) here show ?thesis by (simp add: bind_ask_def bind_Stop_def)
qed

text \<open>A core that always succeeds.\<close>

definition plain_core :: "core_config \<Rightarrow> client res" where
  "plain_core cfg = Inr \<lparr>cl_cfg = cfg, cl_tun = None, cl_gen = 0, cl_base = 0, cl_transport = None\<rparr>"

text \<open>The first client is asked after a second was started and stopped; stopped itself, it is unknown.\<close>

theorem handles_are_stable_witness:
  "\<exists>t1. bind_start plain_core ''aa'' 0 [] [] [] 1 0 bind_init = (Inr 1, t1) \<and>
     bind_ask (\<lambda>c. Inr (c_seed (cl_cfg c))) 1 (fold bind_apply [BindStart plain_core ''bb'' 0 [] [] [] 1 0, BindStop (\<lambda>_. None) 2] t1) = Inr ''aa'' \<and>
     bind_ask (\<lambda>c. Inr (c_seed (cl_cfg c))) 1 (snd (bind_Stop (\<lambda>_. None) 1 t1)) = Inl ErrConfig"
proof -
  let ?r = "bind_start plain_core ''aa'' 0 [] [] [] 1 0 bind_init"
  let ?es = "[BindStart plain_core ''bb'' 0 [] [] [] 1 0, BindStop (\<lambda>_. None) 2]"
  have r: "?r = (Inr 1, snd ?r)" by (simp add: bind_start_def bind_init_def plain_core_def)
  have none: "bind_init = fold bind_apply [] bind_init" by simp
  from handles_are_stable [OF none r _ refl refl, where es = ?es and f = "\<lambda>c. Inr (c_seed (cl_cfg c))"]
  have 1: "bind_ask (\<lambda>c. Inr (c_seed (cl_cfg c))) 1 (fold bind_apply ?es (snd ?r)) = Inr ''aa''" by (auto simp: plain_core_def bind_config_def)
  from handles_are_stable [OF none r _ refl refl, where es = "[]" and es' = "[]" and close = "\<lambda>_. None" and f = "\<lambda>c. Inr (c_seed (cl_cfg c))"]
  have 2: "bind_ask (\<lambda>c. Inr (c_seed (cl_cfg c))) 1 (snd (bind_Stop (\<lambda>_. None) 1 (snd ?r))) = Inl ErrConfig" by simp
  from r 1 2 show ?thesis by blast
qed

end
