(* ===== verification/Spec2Isabelle.thy ===== *)
theory Spec2Isabelle
  imports Samples Generator_Layout Cover Sessions Tunnel_Recovery Tunnel_Liveness Mux_Bounds Mux_Window
    Server_Rotation Leases Client Stream_Safety Daemon Http_Safety Server_Program Link_Check Capture Windows_App_Safety
    Linux_Client_Safety Invite Websocket Bind
begin

text \<open>
  Chimera: a VPN whose wire protocol is generated from a seed. This is the root of its
  verification library; every other theory is imported from here.

  \<^bold>\<open>The program.\<close> A seed and a generation number drive a deterministic random bit generator
  (\<open>internal/drbg\<close>), from which \<open>internal/genome\<close> generates a protocol: a handshake pattern
  and a layout for each message. \<open>internal/compiler\<close> compiles it under a pre-shared key into
  codecs, a handshake state machine and packet sessions, and disguises the first datagrams.
  \<open>internal/tunnel\<close> runs it over a datagram socket, with a client and single-peer endpoint
  (\<open>tunnel.go\<close>) and a server multiplexer (\<open>mux.go\<close>), and over streams: TCP, WebSocket, HTTP.
  \<open>core\<close> puts a server together from multiplexers and stream listeners, with an address pool,
  a rotation of generations and a reaction to probes, and a client that sweeps over transports,
  generations and ports. \<open>cmd/chimerad\<close> serves a TUN device; \<open>cmd/chimerac\<close>, \<open>apps/windows\<close>
  and \<open>bind\<close> are clients that take over routes and reconnect.

  \<^bold>\<open>The theories\<close>, in the order in which the code calls:
  \<^item> \<open>Prelude\<close>: bytes, \<open>uint64\<close> arithmetic, errors as sums, readers, reachable states, and the
    interfaces (locales) \<open>stream_codec\<close>, \<open>replay_filter\<close>, \<open>invariant_of\<close>, \<open>constant_of\<close>.
    \<open>Text\<close>, \<open>Net_Text\<close>: the string and address functions of the standard library.
  \<^item> \<open>Genome\<close> (\<open>genome/types.go\<close>), \<open>Layout\<close> (static checks of \<open>compile.go\<close>, \<open>codec.go\<close>).
  \<^item> \<open>Codec\<close> (\<open>codec.go\<close>) with its lemmas in \<open>Codec_Fields\<close>, \<open>Codec_Frames\<close>, \<open>Codec_Stream\<close>,
    \<open>Codec_Total\<close>, \<open>Codec_Replay\<close>; \<open>Packet\<close>, \<open>Packet_Frames\<close> (\<open>packet.go\<close>).
  \<^item> \<open>Handshake\<close>, \<open>Handshake_Lockstep\<close> (\<open>compile.go\<close>, \<open>handshake.go\<close>), \<open>Sessions\<close>.
  \<^item> \<open>Drbg\<close> (\<open>drbg.go\<close>), \<open>Generator\<close>, \<open>Generator_Layout\<close> (\<open>generator.go\<close>).
  \<^item> \<open>Cover\<close> (\<open>cover.go\<close>, \<open>fep.go\<close>, \<open>knock.go\<close>).
  \<^item> \<open>Tunnel\<close>, \<open>Tunnel_Handshake\<close> (\<open>tunnel.go\<close>, \<open>jitter.go\<close>), with properties in
    \<open>Tunnel_Recovery\<close> and \<open>Tunnel_Liveness\<close>.
  \<^item> \<open>Replay\<close> (\<open>replay.go\<close>), \<open>Server_Tunnel\<close> (\<open>ServerTunnel\<close>, \<open>tokenBucket\<close> of \<open>mux.go\<close>,
    \<open>txmask.go\<close>), \<open>Mux\<close> (\<open>mux.go\<close>, \<open>decoy.go\<close>), with \<open>Mux_Invariant\<close>, \<open>Mux_Safety\<close>,
    \<open>Mux_Clients\<close>, \<open>Mux_Sessions\<close>, \<open>Mux_Bounds\<close>, \<open>Mux_Window\<close>.
  \<^item> \<open>Stream\<close>, \<open>Stream_Safety\<close> (\<open>stream.go\<close>, \<open>stream_probe.go\<close>, a stream connection of the
    server), \<open>Websocket\<close> (\<open>websocket.go\<close>), \<open>Http\<close>, \<open>Http_Safety\<close> (\<open>httpstream.go\<close> of both packages).
  \<^item> \<open>Core_Config\<close> (\<open>NormalizeConfig\<close>, \<open>porthop.go\<close>), \<open>Address_Pool\<close> (\<open>assign.go\<close>); \<open>Server\<close> with
    \<open>Server_Immune\<close>, \<open>Server_Config\<close>, \<open>Server_Rotation\<close> (\<open>core.go\<close>, \<open>immune.go\<close>); \<open>Leases\<close> (accepted
    sessions and their addresses); \<open>Client\<close> (the client of \<open>core.go\<close>).
  \<^item> \<open>Daemon\<close> (\<open>cmd/chimerad\<close>: the route table, the pumps, how the program ends), \<open>Server_Program\<close>
    (its configuration and setup).
  \<^item> \<open>Netpkt\<close> (\<open>internal/netpkt\<close>), \<open>Link_Check\<close> (\<open>check.go\<close>), \<open>Capture\<close> (\<open>chimera-eval\<close>).
  \<^item> \<open>Takeover\<close>, \<open>Takeover_Safety\<close> (routes on Windows), \<open>Windows_App\<close>, \<open>Windows_App_Safety\<close>
    (\<open>apps/windows/app.go\<close>); \<open>Linux_Client\<close>, \<open>Linux_Client_Safety\<close> (\<open>cmd/chimerac\<close>); \<open>Invite\<close>
    (\<open>internal/invite\<close>); \<open>Bind\<close> (\<open>bind/bind.go\<close>).
  \<^item> \<open>Samples\<close>: the concrete protocol at which the witnesses evaluate.

  \<^bold>\<open>Correspondence.\<close> A struct is a record, a string enumeration a datatype whose last
  constructor is any other string, an error a value of \<open>error\<close> in a sum, an \<open>io.Reader\<close> or
  random source the bytes it still has. A method is a function that returns the changed
  record. \<open>uint64\<close> counters are \<open>nat\<close> with the wrap-around written out (\<open>w64\<close>, \<open>sub64\<close>);
  bitmaps are naturals used as bit sets. Go maps are association lists with distinct keys, or
  functions where no order matters; the order in which Go visits a map is the list's. A goroutine
  is a step of a relation, or the sequence of events it meets. Cryptography (AEAD, X25519, HKDF,
  HMAC, SHA-256) is the parameter \<open>crypto\<close>, with documented laws as hypotheses: \<open>aead_ok\<close> (what
  was sealed opens, and has the tag's length), \<open>aead_nonce_ok\<close> (opening under another nonce fails),
  \<open>ecdh_ok\<close>, \<open>hkdf_ok\<close>. So are the tools of the operating system, with \<open>netsh_ok\<close> and \<open>ip_ok\<close> for what
  adding and deleting a route does (a deletion may be refused), \<open>addr_tool\<close> for the addresses of the
  device, what a write to a connection comes to (the bytes \<open>torn\<close> of a stream frame that was cut,
  \<open>ws_outcome\<close> of a WebSocket message), the reader of a WebSocket message (\<open>reader_ok\<close>), the parsers of
  JSON and URLs, and name resolution. The witnesses instantiate each with a concrete function.

  \<^bold>\<open>What is shown.\<close> C1 and C2: generated protocols compile, and two endpoints agree on keys. C3
  to C5: datagram sessions deliver in any order within the replay window, never twice, at the
  lengths of the shaping ladder. C6 to C8: stream sessions, validation, disguised handshakes. C9 to C11: the tunnel
  delivers, its state stays bounded, and its handshake comes to an end. C12: the replay table,
  across restarts. C13 to C20: the multiplexer keeps its tables in every reachable state, says
  nothing to probes, opens nothing for replays, establishes genuine clients, delivers to the right
  session, and what strangers can draw from it is bounded. C21 to C24: the server's sessions in
  every reachable state, rotation keeps the window served, no address is given out twice, the
  client finds a server that is within its reach. C25 and C26: framing over streams, and silence
  towards probes there. C27 and C28: the server program's route table, and how it ends. C29 and
  C30: HTTP sessions are never mixed, and a client reads a stream. C31: captures read back. C32
  to C35: routes on Windows (what is routed where, also when the batch of listed networks is
  refused; the plan is added and taken back), the application's status is true, and disconnecting
  is final. C36 and C37: the Linux client reconnects on a
  schedule and gives its routes back, but for those whose deletion is refused. C38 to C40: share
  links, WebSockets as streams, handles.
  Theorems without a number state further facts, among them the defects that came to light
  (\<open>lost_skip_is_fatal\<close>, \<open>skip_reopens_window\<close>, \<open>deferred_rotation_drifts\<close>, \<open>late_frame_desyncs\<close>,
  \<open>spoofed_source_takes_over\<close>, \<open>http_first_leg\<close>, \<open>pending_decision_reconnects\<close>, \<open>own_route_lost\<close>).

  \<^bold>\<open>Bounds and fuel.\<close> The rejection loop of \<open>Intn\<close> is \<open>partial_function (option)\<close>: \<open>None\<close>
  is a loop that never ends, and C2 names the hypothesis under which it ends. \<open>send_outgoing\<close>
  runs with as much fuel as the handshake has messages and \<open>run_turns\<close> with one unit per message
  and event: every turn of either loop moves the step counter or consumes an event, so neither
  runs out. Loops that wait for the network recurse on the events they are given, and \<open>None\<close> or a
  result of its own says that they still wait. Time is an integer in nanoseconds and an argument.

  \<^bold>\<open>Idealisations.\<close> An operation of the multiplexer, the server or an application is atomic: it
  runs at one reading of the clock and no other operation runs inside it, though the code releases
  its locks between some of them; where that shows (the watchdog of the Windows application) the
  operation is two steps. The rate limiter and the percentiles of a capture are exact where the code
  rounds in \<open>float64\<close>. Folding of case and white space are those of
  ASCII. Handles are counted without bound. Delays added for jitter change no state and are left out.

  \<^bold>\<open>Not modelled.\<close> Socket options, TLS configuration, TUN devices and the packet pumps between
  them (system calls); reading JSON files, flags, log lines and statistics (input and output around
  the configurations modelled here); HTTP listening, the dialling and upgrading of WebSockets and the
  iteration of geographic databases (libraries); the tray and the window of the Windows application;
  the tools that print genomes and keys; the lists of networks in \<open>chnroute_v4.go\<close> (generated data).
\<close>

section \<open>A generated protocol works\<close>

text \<open>
  C1. Generation, compilation and the handshake together: for any seed, generation and
  known cipher override, two peers that compile the generated protocol under the same
  pre-shared key and exchange its handshake datagrams, each followed by arbitrary cover
  bytes, both finish it; they compute the same session keys, and if one of them can build
  its packet session so can the other, with the sending codec of each equal to the
  receiving codec of the other.
\<close>

theorem generated_protocol_agrees:
  assumes "aead_ok C" "ecdh_ok C"
    and "generate C seed gen_no force = Some (Inr g)"
    and "case force of None \<Rightarrow> True | Some cs \<Rightarrow> knownCipher cs"
    and "Compile C (Some g) psk = Inr cp"
    and "NewHandshake cp DirClient psk r1 = Inr (a, r1')" "NewHandshake cp DirServer psk r2 = Inr (b, r2')"
    and "length ea \<le> 1400" "length eb \<le> 1400"
    and "\<forall>i < length (handshake g). 4096 \<le> length (rnd i)"
  shows "\<exists>a' b'. run_pair C rnd junk (length (handshake g)) (SetEarlyData a ea) (SetEarlyData b eb) = Inr (a', b') \<and>
    Done a' \<and> Done b' \<and> sessionKeys C a' = sessionKeys C b' \<and>
    (\<forall>pa. FinishPacket C a' = Inr pa \<longrightarrow>
       (\<exists>pb. FinishPacket C b' = Inr pb \<and> psend pa = precv pb \<and> precv pa = psend pb))"
proof -
  from assms(5) have cp: "chandshake cp = handshake g" "cgenome cp = g"
    by (auto simp: Compile_def Let_def split: if_splits)
  note F = generated_fits [OF generate_genome_ok [OF assms(3,4)] cp]
  have rnd: "\<forall>i < length (chandshake cp). rnd_budget (chandshake cp ! i) \<le> length (rnd i)"
    using F(2) assms(10) cp by (metis le_trans nth_mem)
  from run_pair_inv [OF assms(1,2) F(1) rnd NewHandshake_pair_inv [OF assms(6-9)],
      of "length (handshake g)", where junk = junk] cp
  obtain a' b' where run: "run_pair C rnd junk (length (handshake g)) (SetEarlyData a ea) (SetEarlyData b eb) = Inr (a', b')"
    and inv: "pair_inv C cp 1400 (hpriv a) (hpriv b) (length (chandshake cp)) a' b'" by auto
  note K = pair_sessionKeys [OF assms(2) inv F(3,4)]
  have sides: "hcp a' = cp" "hcp b' = cp" "hrole a' = DirClient" "hrole b' = DirServer"
    using inv by (simp_all add: pair_inv_def)
  have "\<exists>pb. FinishPacket C b' = Inr pb \<and> psend pa = precv pb \<and> precv pa = psend pb" if "FinishPacket C a' = Inr pa" for pa
    using that sides K(3) by (auto simp: FinishPacket_def NewPacketSession_def)
  with run K show ?thesis by auto
qed

theorem generated_protocol_agrees_witness:
  "\<exists>g cp a b r a' b'. generate zero_crypto [1, 2] 3 None = Some (Inr g) \<and> Compile zero_crypto (Some g) [7] = Inr cp \<and>
     NewHandshake cp DirClient [7] zeros = Inr (a, r) \<and> NewHandshake cp DirServer [7] zeros = Inr (b, r) \<and>
     run_pair zero_crypto (\<lambda>_. replicate 4096 0) (\<lambda>_. [5]) (length (handshake g)) (SetEarlyData a [1]) (SetEarlyData b [])
       = Inr (a', b') \<and> Done a' \<and> Done b' \<and> sessionKeys zero_crypto a' = sessionKeys zero_crypto b'"
proof -
  from generate_total [OF zero_rejection_ends, of None "[1, 2]" 3] obtain g where
    g: "generate zero_crypto [1, 2] 3 None = Some (Inr g)" "genome_gen_ok 3 g" by auto
  from compile_generated [OF g(2), of "[7]" zero_crypto] obtain cp where
    cp: "Compile zero_crypto (Some g) [7] = Inr cp" "is_ok (NewHandshakeCodecs cp)" by auto
  then obtain a b r where
    ab: "NewHandshake cp DirClient [7] zeros = Inr (a, r)" "NewHandshake cp DirServer [7] zeros = Inr (b, r)"
    by (auto simp: NewHandshake_def is_ok_iff zeros_def read_full_def)
  from generated_protocol_agrees [OF _ _ g(1) _ cp(1) ab, of "[1]" "[]" "\<lambda>_. replicate 4096 0" "\<lambda>_. [5]"] g cp ab
  show ?thesis by auto
qed

text \<open>
  C2. The generator always produces a protocol: if the rejection sampling of the generator's
  random source ends, every seed and every known cipher yields a genome, and that genome
  compiles under every non-empty pre-shared key.
\<close>

theorem generated_protocol_compiles:
  assumes "rejection_ends C" "hkdf_ok C" "case force of None \<Rightarrow> True | Some cs \<Rightarrow> knownCipher cs" "psk \<noteq> []"
  shows "\<exists>g cp. generate C seed gen_no force = Some (Inr g) \<and> Compile C (Some g) psk = Inr cp \<and>
    is_ok (NewHandshakeCodecs cp)"
  using generate_total [OF assms(1,3), of seed gen_no] compile_generated [OF _ assms(4,2)] by blast

theorem generated_protocol_compiles_witness:
  "\<exists>g cp. generate zero_crypto [9] 1 (Some CipherAES256GCM) = Some (Inr g) \<and>
     Compile zero_crypto (Some g) [1] = Inr cp \<and> is_ok (NewHandshakeCodecs cp)"
  by (rule generated_protocol_compiles) (simp_all add: zero_rejection_ends)

section \<open>Datagram sessions\<close>

text \<open>
  C3. The first frames that one packet codec sent, at most as many as the replay window has
  places (\<open>PacketWindow\<close>, 8192), delivered to a fresh peer codec in any order, any of them left out
  and any repeated, yield every payload that was delivered exactly once: the first copy of each
  frame decodes to its payload, every further copy is dropped. (Of a longer run a frame that is
  a window behind is stale and dropped, so the bound is needed.)
\<close>

theorem packet_any_order:
  assumes "layout_ok spec" "aead_ok C" "aead_nonce_ok C"
    "NewPacketMessageCodec spec key = Inr s" "NewPacketMessageCodec spec key = Inr r"
    "encode_all C (s\<lparr>shape_buckets := buckets\<rparr>) payloads rnd = Inr (frames, s', rnd')"
    "length payloads \<le> PacketWindow" "set order \<subseteq> {..< length payloads}"
  shows "fst (deliver C r (map ((!) frames) order)) =
    map (\<lambda>k. if order ! k \<in> set (take k order) then None else Some (payloads ! (order ! k))) [0 ..< length order]"
proof -
  define s0 where "s0 = s\<lparr>shape_buckets := buckets\<rparr>"
  note S = NewPacketMessageCodec_fresh [OF assms(4)] and R = NewPacketMessageCodec_fresh [OF assms(5)]
  have s0: "cspec s0 = spec" "ckey s0 = key" "packet_send s0 = 0" using S by (simp_all add: s0_def)
  have "packet_send s0 + length payloads < 2 ^ 64" using assms(7) by (simp add: s0 PacketWindow_def)
  from encode_all_carries(2) [OF assms(6) [folded s0_def] _ assms(2) this] assms(1)
  have "\<forall>i < length payloads. carries C s0 i (payloads ! i) (frames ! i)" by (simp add: s0)
  from deliver_any_order [OF _ assms(2,3) this assms(7) _ _ R(1) _ assms(8)] assms(1) R s0
  show ?thesis by simp
qed

theorem packet_any_order_witness:
  "\<exists>s frames s' rnd'. NewPacketMessageCodec sample_record sample_key = Inr s \<and>
     encode_all demo_crypto (s\<lparr>shape_buckets := [64, 96]\<rparr>) [[1, 2, 3]] zeros = Inr (frames, s', rnd') \<and>
     fst (deliver demo_crypto s (map ((!) frames) [0, 0])) = [Some [1, 2, 3], None]"
proof -
  define s where "s = sample_codec\<lparr>shape_buckets := []\<rparr>"
  have s: "NewPacketMessageCodec sample_record sample_key = Inr s" by (simp add: s_def sample_new)
  have shaped: "s\<lparr>shape_buckets := [64, 96]\<rparr> = sample_codec" by (simp add: s_def sample_codec_def)
  obtain frame s1 rnd1 where
    "EncodePacket demo_crypto sample_codec [1, 2, 3] (\<lambda>_. None) zeros = Inr (frame, s1, rnd1)"
    by (rule sample_encode [OF sample_codec_updates(1), of "[1, 2, 3]" demo_crypto]) auto
  then have e: "encode_all demo_crypto (s\<lparr>shape_buckets := [64, 96]\<rparr>) [[1, 2, 3]] zeros = Inr ([frame], s1, rnd1)"
    by (simp add: shaped)
  have "fst (deliver demo_crypto s (map ((!) [frame]) [0, 0])) = [Some [1, 2, 3], None]"
    using packet_any_order [OF _ _ _ s s e, of "[0, 0]"]
    by (simp add: PacketWindow_def upt_conv_Cons del: deliver.simps)
  with s e show ?thesis by blast
qed

text \<open>
  C4. The replay window of a packet codec, against any frames at all: whatever datagrams
  arrive, in any order and number, a packet codec never accepts a sequence number twice nor
  one that was dead before, and afterwards exactly the accepted numbers are dead as well.
\<close>

theorem packet_replay_safe:
  assumes "packet_inv d" "packet_base d + PacketWindow * (length frames + 1) < 2 ^ 64"
    "packet_log C d frames = (qs, d')"
  shows "distinct qs \<and> set qs \<inter> packet_dead d = {} \<and> packet_dead d' = packet_dead d \<union> set qs"
  using packet_filter.run_distinct [OF packet_log_run [OF assms] assms(1)]
    packet_filter.run_dead [OF packet_log_run [OF assms] assms(1)] by simp

theorem packet_replay_safe_witness:
  "\<exists>qs d'. packet_log demo_crypto sample_codec [[], [1]] = (qs, d') \<and> distinct qs"
proof -
  obtain qs d' where "packet_log demo_crypto sample_codec [[], [1]] = (qs, d')" by (rule prod.exhaust)
  with packet_replay_safe [OF _ _ this] show ?thesis by (simp add: PacketWindow_def)
qed

text \<open>
  C5. Shaping hides the length: with a non-empty ladder of length buckets the length of an
  encoded datagram is either the unshaped length or the next bucket, and it is always the
  next bucket when the padding field of the layout can hold the extra padding.
\<close>

theorem shaped_length:
  assumes "aead_ok C" "layout_ok (cspec c)"
    "EncodePacket C c payload inject rnd = Inr (frame, c', rnd')"
    "EncodePacket C (c\<lparr>shape_buckets := []\<rparr>) payload inject rnd = Inr (frame0, c0', rnd0')"
  shows "int (length frame) \<in> {int (length frame0), nextShapeSize (int (length frame0)) (shape_buckets c)} \<and>
    (0 \<le> padFieldIndex (cspec c) \<and>
     (\<forall>b \<in> set (shape_buckets c). pmax (mpadding (cspec c)) + b \<le> int (padFieldMax (cspec c))) \<longrightarrow>
       int (length frame) = nextShapeSize (int (length frame0)) (shape_buckets c))"
  using EncodePacket_length [OF assms] by blast

theorem shaped_length_witness:
  "\<exists>frame c' r frame0 c0' r0.
     EncodePacket demo_crypto sample_codec [1, 2, 3] (\<lambda>_. None) zeros = Inr (frame, c', r) \<and>
     EncodePacket demo_crypto (sample_codec\<lparr>shape_buckets := []\<rparr>) [1, 2, 3] (\<lambda>_. None) zeros = Inr (frame0, c0', r0) \<and>
     int (length frame) = nextShapeSize (int (length frame0)) [64, 96]"
proof -
  obtain frame c' r where
    e: "EncodePacket demo_crypto sample_codec [1, 2, 3] (\<lambda>_. None) zeros = Inr (frame, c', r)"
    by (rule sample_encode [OF sample_codec_updates(1), of "[1, 2, 3]" demo_crypto]) auto
  obtain frame0 c0' r0 where
    e0: "EncodePacket demo_crypto (sample_codec\<lparr>shape_buckets := []\<rparr>) [1, 2, 3] (\<lambda>_. None) zeros = Inr (frame0, c0', r0)"
    by (rule sample_encode [OF sample_codec_updates(2), of "[1, 2, 3]" demo_crypto]) auto
  have "0 \<le> padFieldIndex (cspec sample_codec)"
    "\<forall>b \<in> set (shape_buckets sample_codec). pmax (mpadding (cspec sample_codec)) + b \<le> int (padFieldMax (cspec sample_codec))"
    by (simp_all add: sample_codec_def sample_record_def padFieldIndex_def padFieldMax_def)
  with shaped_length [OF _ _ e e0] e e0 show ?thesis by (auto simp: sample_codec_def)
qed

section \<open>Stream sessions\<close>

text \<open>
  C6. Stream sessions: whatever the client session sends over a byte stream, the server
  session built from the same keys receives payload by payload, in order, and leaves the
  bytes that follow unread.
\<close>

theorem stream_session_in_order:
  assumes "layout_ok spec" "aead_ok C" "\<forall>x \<in> set sends. record_ok spec x"
    "NewSession spec DirClient c2s s2c = Inr a" "NewSession spec DirServer c2s s2c = Inr b"
    "length sends + 64 < 2 ^ 64"
  shows "\<exists>wire a' b'. send_all C a sends = Inr (wire, a') \<and>
    (\<forall>rest. recv_all C (length sends) b (wire @ rest) = Inr (map fst sends, b', rest))"
proof -
  note N = NewSession_in_step [OF assms(4,5)]
  have "cseq (ssend a) + length sends + 64 < 2 ^ 64" using assms(6) N by simp
  from sessions_in_step [OF assms(1-3) N(4,5,1) this] show ?thesis by blast
qed

theorem stream_session_in_order_witness:
  "\<exists>a b wire a' b'. NewSession sample_record DirClient sample_key sample_key = Inr a \<and>
     NewSession sample_record DirServer sample_key sample_key = Inr b \<and>
     send_all demo_crypto a [([1], zeros), ([2, 3], zeros)] = Inr (wire, a') \<and>
     recv_all demo_crypto 2 b wire = Inr ([[1], [2, 3]], b', [])"
proof -
  obtain a b where ab: "NewSession sample_record DirClient sample_key sample_key = Inr a"
    "NewSession sample_record DirServer sample_key sample_key = Inr b"
    by (simp add: NewSession_def sample_new)
  have "rnd_budget sample_record \<le> length zeros"
    using sample_packet(1) by (simp add: packet_budget_def)
  then have "\<forall>x \<in> set [([1], zeros), ([2, 3], zeros)]. record_ok sample_record x"
    by (simp add: record_ok_def sample_sizes gcmTagSize_def)
  from stream_session_in_order [OF _ _ this ab, of demo_crypto] obtain wire a' b' where
    w: "send_all demo_crypto a [([1], zeros), ([2, 3], zeros)] = Inr (wire, a')"
    "\<forall>rest. recv_all demo_crypto (length [([1], zeros), ([2, 3], zeros)]) b (wire @ rest) =
       Inr (map fst [([1], zeros), ([2, 3], zeros)], b', rest)" by fastforce
  from w(2) [rule_format, of "[]"] have "recv_all demo_crypto 2 b wire = Inr ([[1], [2, 3]], b', [])"
    by (simp add: numeral_2_eq_2 del: recv_all.simps)
  with ab w(1) show ?thesis by blast
qed

text \<open>
  The replay window of the stream codec, against any frames at all: no sequence number is
  accepted twice.
\<close>

theorem stream_replay_safe:
  assumes "NewMessageCodec spec key = Inr d" "64 * (length frames + 1) < 2 ^ 64"
    "stream_log C d frames = (qs, d')"
  shows "distinct qs \<and> stream_dead d' = set qs"
proof -
  note N = NewMessageCodec_fresh [OF assms(1)]
  have room: "cseq d + 64 * (length frames + 1) < 2 ^ 64" using assms(2) N by simp
  note R = stream_log_run [OF N(4) room assms(3)]
  from stream_filter.run_distinct [OF R N(4)] stream_filter.run_dead [OF R N(4)] N(5) show ?thesis by simp
qed

theorem stream_replay_safe_witness:
  "\<exists>d qs d'. NewMessageCodec sample_record sample_key = Inr d \<and>
     stream_log demo_crypto d [[], [1]] = (qs, d') \<and> distinct qs"
proof -
  obtain d where d: "NewMessageCodec sample_record sample_key = Inr d" by (simp add: sample_new)
  obtain qs d' where l: "stream_log demo_crypto d [[], [1]] = (qs, d')" by (rule prod.exhaust)
  from stream_replay_safe [OF d _ l] d l show ?thesis by auto
qed

section \<open>One message\<close>

text \<open>
  One message on a stream: what a fresh codec encodes, the segments it is written in, the
  reader that cuts it from the byte stream, the parser that cuts it from a datagram with
  appended bytes, and a fresh codec that decodes it all agree; the decoded message has the
  payload and the fields of the layout in their order.
\<close>

theorem message_roundtrip:
  assumes "layout_ok spec" "aead_ok C" "NewMessageCodec spec key = Inr c"
    "Encode C c payload inject rnd = Inr (frame, segments, c', rnd')" "length frame \<le> 2 ^ 26"
  shows "concat segments = frame \<and> ReadFrame (frame @ rest) spec = Inr (frame, rest) \<and>
    DeclaredFrame spec (frame @ rest) = Inr frame \<and>
    (\<exists>msg d. Decode C c frame = Inr (msg, d) \<and> msg_payload msg = payload \<and>
       map fst (msg_plain msg) = plain_fields spec \<and> map fst (msg_encrypted msg) = encrypted_fields spec)"
proof -
  have c: "cspec c = spec" "cseq c = 0" "in_step c c" "layout_ok (cspec c)"
    using assms(1,3) by (auto simp: NewMessageCodec_def in_step_def)
  from Encode_frame_of [OF c(4) assms(4)] obtain pl plain ct where
    f: "frame_of C c (cseq c) pl payload inject plain ct frame" and segs: "segments = splitSegments frame spec"
    by (auto simp: c)
  have fr: "framed spec frame" using frame_of_framed [OF c(4) f assms(5)] by (simp add: c)
  from decodeAt_frame_of [OF c(4) assms(2) f refl refl frame_of_pad_small [OF c(4) f]] obtain msg imgs where
    m: "decodeAt C c frame (nonceAt c (cseq c)) = Inr msg" "msg_payload msg = payload"
      "map fst (msg_plain msg) = plain_fields spec" "msg_encrypted msg = contents (encrypted_fields spec) imgs"
      "list_all2 (\<lambda>f b. \<exists>r1 r2. encodeEncryptedField f pl inject r1 = Inr (b, r2)) (encrypted_fields spec) imgs"
    by (auto simp: c)
  have "map fst (msg_encrypted msg) = encrypted_fields spec"
    using list_all2_lengthD [OF m(5)] by (simp add: m(4) contents_def comp_def case_prod_beta map_fst_zip)
  with Decode_in_step [OF c(3) _ m(1)] m(2,3) c(2) ReadFrame_framed [OF fr] DeclaredFrame_framed [OF fr]
  show ?thesis by (simp add: segs concat_splitSegments)
qed

theorem message_roundtrip_witness:
  "\<exists>c frame segments c' r msg d. NewMessageCodec sample_record sample_key = Inr c \<and>
     Encode demo_crypto c [4, 5] (\<lambda>_. None) zeros = Inr (frame, segments, c', r) \<and>
     ReadFrame (frame @ [1]) sample_record = Inr (frame, [1]) \<and>
     Decode demo_crypto c frame = Inr (msg, d) \<and> msg_payload msg = [4, 5]"
proof -
  obtain c where c: "NewMessageCodec sample_record sample_key = Inr c" by (simp add: sample_new)
  have spec: "cspec c = sample_record" using NewMessageCodec_fresh [OF c] by simp
  have "rnd_budget sample_record \<le> length zeros" using sample_packet(1) by (simp add: packet_budget_def)
  with Encode_total [of c demo_crypto "[4, 5]" "\<lambda>_. None" zeros] spec obtain frame segments c' r where
    e: "Encode demo_crypto c [4, 5] (\<lambda>_. None) zeros = Inr (frame, segments, c', r)" "length frame \<le> 2 ^ 26"
    by (auto simp: inject_ok_def sample_sizes gcmTagSize_def)
  from message_roundtrip [OF _ _ c e, of "[1]"] c e(1) show ?thesis by auto
qed

text \<open>
  C7. Compilation accepts only what it can run: a compiled protocol comes from a non-empty
  pre-shared key and a genome of the generator's schema with at least one handshake message,
  every message of which, and the application record, passes validation.
\<close>

theorem compile_validates:
  assumes "Compile C go psk = Inr cp"
  shows "\<exists>g. go = Some g \<and> cgenome cp = g \<and> psk \<noteq> [] \<and> gschema g = GeneratorSchema \<and> chandshake cp \<noteq> [] \<and>
    (\<forall>m \<in> set (app_record g # handshake g). validateMessage m = Inr ())"
proof -
  from assms obtain g cs where g: "go = Some g" "psk \<noteq> []" "gschema g = GeneratorSchema" "handshake g \<noteq> []"
    "handshake_codecs (boot_c2s cp) (boot_s2c cp) (handshake g) = Inr cs" "validateMessage (app_record g) = Inr ()"
    "cgenome cp = g" "chandshake cp = handshake g"
    by (auto simp: Compile_def Let_def split: option.splits if_splits)
  have "validateMessage m = Inr ()" if m: "m \<in> set (handshake g)" for m
  proof -
    from m obtain i where i: "i < length (handshake g)" "m = handshake g ! i" by (auto simp: in_set_conv_nth)
    from handshake_codecs_nth(2) [OF g(5) i(1)] i(2) show ?thesis by (auto simp: NewMessageCodec_def)
  qed
  with g show ?thesis by auto
qed

theorem compile_validates_witness:
  "validateMessage (app_record sample_genome) = Inr ()"
  using compile_validates [OF sample_compile] by auto

section \<open>The wire\<close>

text \<open>
  C8. A handshake message survives its disguise: the datagram that a mark, a cover and
  padding make of an encoded handshake message unwraps, at a peer with the same genome, to
  bytes from which exactly the encoded message is cut.
\<close>

theorem handshake_datagram_roundtrip:
  assumes "layout_ok (cspec c)" "Encode C c payload inject rnd = Inr (frame, segments, c', rnd')"
    "length frame \<le> 2 ^ 26" "ValidateProbeMark mark = Inr ()"
  shows "\<exists>w. UnwrapHandshakeDatagram C go (fst (WrapHandshakeDatagram C mark go frame r)) = Inr w \<and>
    DeclaredFrame (cspec c) w = Inr frame"
proof -
  from Encode_frame_of [OF assms(1,2)] obtain pl plain ct where
    f: "frame_of C c (cseq c) pl payload inject plain ct frame" by auto
  from DeclaredFrame_framed [OF frame_of_framed [OF assms(1) f assms(3)]]
    unwrap_wrap [of mark C go frame r] assms(4)
  show ?thesis by (auto simp: ValidateProbeMark_iff)
qed

theorem handshake_datagram_roundtrip_witness:
  "\<exists>c frame segments c' r w. NewMessageCodec sample_record sample_key = Inr c \<and>
     Encode demo_crypto c [4, 5] (\<lambda>_. None) zeros = Inr (frame, segments, c', r) \<and>
     UnwrapHandshakeDatagram demo_crypto None (fst (WrapHandshakeDatagram demo_crypto [] None frame zeros)) = Inr w \<and>
     DeclaredFrame sample_record w = Inr frame"
proof -
  obtain c where c: "NewMessageCodec sample_record sample_key = Inr c" by (simp add: sample_new)
  have spec: "cspec c = sample_record" using NewMessageCodec_fresh [OF c] by simp
  have "rnd_budget sample_record \<le> length zeros" using sample_packet(1) by (simp add: packet_budget_def)
  with Encode_total [of c demo_crypto "[4, 5]" "\<lambda>_. None" zeros] spec obtain frame segments c' r where
    e: "Encode demo_crypto c [4, 5] (\<lambda>_. None) zeros = Inr (frame, segments, c', r)" "length frame \<le> 2 ^ 26"
    by (auto simp: inject_ok_def sample_sizes gcmTagSize_def)
  from handshake_datagram_roundtrip [OF _ e, of "[]" None zeros] c e(1) spec show ?thesis
    by (auto simp: ValidateProbeMark_def)
qed

text \<open>
  What a censor's heuristic sees: whatever the message, an unmarked wrapped handshake
  datagram starts with enough printable characters to be exempt under the first or second
  rule of the fully encrypted traffic detector, looks neither like TLS nor like HTTP, and its
  length is never in the range 160 to 700 that other datagrams of this kind fall into.
\<close>

theorem handshake_datagram_disguise:
  defines "wire \<equiv> \<lambda>C go frame r. fst (WrapHandshakeDatagram C [] go frame r)"
  shows "FEPExemption (wire C go frame r) \<in> {Some Ex1, Some Ex2} \<and> \<not> looksLikeTLS (wire C go frame r) \<and>
    \<not> looksLikeHTTP (wire C go frame r) \<and> length (wire C go frame r) \<notin> {160..700}"
proof -
  have v: "visible []" by (simp add: visible_def)
  have "length (wire C go frame r) \<notin> {160..700}"
    using wrap_length [OF v, of C go frame r] handshakePadTarget_bounds [of C go]
    by (auto simp: wire_def Let_def HandshakeMinWire_def split: if_splits)
  with wrap_exempt [OF v] wrap_not_protocol [OF v] show ?thesis by (simp add: wire_def)
qed

text \<open>
  Knocks: a knock made with a pre-shared key verifies under that key even with bytes
  appended, and the key under which the server remembers it ignores those bytes.
\<close>

theorem knock_roundtrip:
  assumes "digest_ok C" "encodeKnock C psk rnd = Inr (inner, rnd')" "visible mark"
  shows "\<exists>w. UnwrapHandshakeDatagram C go (fst (WrapHandshakeDatagram C mark go inner r)) = Inr w \<and>
    VerifyKnock C psk w \<and> KnockReplayKey w = inner"
  using unwrap_wrap [OF assms(3), of C go inner r] encodeKnock_verify [OF assms(1,2)] by auto

theorem knock_roundtrip_witness:
  "\<exists>inner w. encodeKnock demo_crypto [3] zeros = Inr (inner, drop 32 zeros) \<and>
     UnwrapHandshakeDatagram demo_crypto None (fst (WrapHandshakeDatagram demo_crypto [] None inner zeros)) = Inr w \<and>
     VerifyKnock demo_crypto [3] w"
proof -
  obtain inner where k: "encodeKnock demo_crypto [3] zeros = Inr (inner, drop 32 zeros)"
    by (simp add: encodeKnock_def read_full_def zeros_def knockNonceLen_def)
  from knock_roundtrip [OF _ k, of "[]" None zeros] k show ?thesis by (auto simp: visible_def)
qed

section \<open>Randomness of the generator\<close>

text \<open>
  The generator's random source is a stream: reading a number of bytes in two portions
  gives the bytes, and the state, of reading them at once.
\<close>

theorem drbg_read_split:
  "drbg_read C (m + n) r =
     (let (a, r1) = drbg_read C m r; (b, r2) = drbg_read C n r1 in (a @ b, r2))"
  by (simp add: drbg_read_append split: prod.split)

text \<open>
  Bounded draws: the rejection loop ends exactly if some draw of the stream falls below
  the bound; then it returns the first such draw and leaves the stream right after it; and
  each value below the bound has equally many 64 bit draws that give it.
\<close>

theorem Intn_fair:
  assumes "0 < n" "n \<le> 2 ^ 64"
  shows "(Intn C (int n) r = None \<longleftrightarrow> (\<forall>k. \<not> draw C r k AND grow_mask 1 n < n)) \<and>
    (\<forall>x r'. Intn C (int n) r = Some (Inr (x, r')) \<longrightarrow>
       (\<exists>k. hits C (grow_mask 1 n) n r k \<and> x = draw C r k AND grow_mask 1 n \<and> r' = draw_state C r (Suc k))) \<and>
    (\<exists>w > 0. \<forall>x < n. card {u. u < 2 ^ 64 \<and> u AND grow_mask 1 n = x} = w)"
proof (intro conjI)
  show "Intn C (int n) r = None \<longleftrightarrow> (\<forall>k. \<not> draw C r k AND grow_mask 1 n < n)"
    "\<forall>x r'. Intn C (int n) r = Some (Inr (x, r')) \<longrightarrow>
       (\<exists>k. hits C (grow_mask 1 n) n r k \<and> x = draw C r k AND grow_mask 1 n \<and> r' = draw_state C r (Suc k))"
    using assms(1)
    by (cases rule: intn_loop_cases [of C "grow_mask 1 n" n r]; force simp: Intn_def hits_def)+
  from grow_mask_1 [of n] obtain i where i: "grow_mask 1 n = 2 ^ i - 1" "n \<le> 2 ^ i" "2 \<le> i \<longrightarrow> 2 ^ (i - 1) < n"
    by blast
  have "i \<le> 64"
  proof (rule ccontr)
    assume "\<not> i \<le> 64"
    then have "64 \<le> i - 1" "2 \<le> i" by simp_all
    from power_increasing [OF this(1), of "2 :: nat"] this(2) i(3) assms(2) show False by linarith
  qed
  with i mask_unbiased [of i] show "\<exists>w > 0. \<forall>x < n. card {u. u < 2 ^ 64 \<and> u AND grow_mask 1 n = x} = w"
    by (intro exI [of _ "2 ^ (64 - i)"]) auto
qed

theorem Intn_fair_witness:
  "\<exists>w > 0. \<forall>x < 10. card {u :: nat. u < 2 ^ 64 \<and> u AND grow_mask 1 10 = x} = w"
proof -
  have "(0 :: nat) < 10" "(10 :: nat) \<le> 2 ^ 64" by simp_all
  from conjunct2 [OF conjunct2 [OF Intn_fair [OF this, of demo_crypto]]] show ?thesis .
qed

text \<open>
  Weighted choice: an entry is chosen exactly as often as its weight says, counted over
  the values of the bounded draw that the choice makes; an empty or all-zero list of weights
  panics.
\<close>

theorem PickWeighted_exact:
  assumes "i < length ws"
  shows "card {x. x < sum_list ws \<and> pick x ws 0 = Inr i} = ws ! i \<and>
    (PickWeighted C ws r = Some (Inr (i, r')) \<longleftrightarrow>
       (\<exists>x. Intn C (int (sum_list ws)) r = Some (Inr (x, r')) \<and> pick x ws 0 = Inr i))"
  using pick_card [OF assms]
  by (auto simp: PickWeighted_def gbind_def gret_def gfail_def split: option.splits sum.splits)

theorem PickWeighted_exact_witness:
  "card {x. x < sum_list [2, 0, 3] \<and> pick x [2, 0, 3] 0 = Inr 2} = (3 :: nat)"
  using PickWeighted_exact [of 2 "[2, 0, 3]" demo_crypto] by simp

text \<open>
  Overriding the cipher changes the cipher and nothing else: the protocol generated from
  the same seed and generation has the same pattern, fields, padding and lengths, with every
  message under the chosen cipher; an unknown cipher name is an error.
\<close>

theorem cipher_override:
  assumes "generate C seed gen_no None = Some (Inr g0)" "generate C seed gen_no (Some cs) = Some x"
  shows "(\<forall>g. x = Inr g \<longrightarrow> design g = design g0 \<and> (\<forall>m \<in> set (handshake g @ [app_record g]). mcipher m = cs)) \<and>
    (\<forall>s. cs = CipherOther s \<longrightarrow> x = Inl ErrCipher \<or> x = Inl ErrPanic)"
  using generate_cipher_override [of C seed gen_no cs _ g0] generate_unknown_cipher [of C seed gen_no _ x] assms
  by blast

theorem cipher_override_witness:
  "\<exists>g0 g. generate zero_crypto [1] 0 None = Some (Inr g0) \<and>
     generate zero_crypto [1] 0 (Some CipherAES128GCM) = Some (Inr g) \<and> design g = design g0"
proof -
  from generate_total [OF zero_rejection_ends, of None "[1]" 0] obtain g0 where
    a: "generate zero_crypto [1] 0 None = Some (Inr g0)" by auto
  from generate_total [OF zero_rejection_ends, of "Some CipherAES128GCM" "[1]" 0] obtain g where
    b: "generate zero_crypto [1] 0 (Some CipherAES128GCM) = Some (Inr g)" by auto
  from cipher_override [OF a b] a b show ?thesis by blast
qed

end
